(* ===== verification/Prelude.thy ===== *)
theory Prelude
  imports Complex_Main "HOL-Library.AList"
begin

text \<open>
  Shared vocabulary of the development: Python's dicts as ordered association lists,
  JSON values, exceptions as values, and the generic lemmas the components use.
  \<^item> a Python dict keeps its keys in insertion order, and an assignment to a key that is
    present keeps the key's place; \<open>AList.update\<close> does exactly that, so a dict is an
    association list with distinct keys (\<open>dict_ok\<close>);
  \<^item> an exception is a value \<open>PyExn module type message\<close> in the left of a sum;
  \<^item> \<open>json\<close> is the type of the opaque payloads the runtime stores and forwards.
\<close>

named_theorems dict_simps \<open>reads of a dict after its updates\<close>

subsection \<open>Exceptions as values\<close>

datatype pyexn = PyExn (exn_module: string) (exn_type: string) (exn_message: string)

type_synonym 'a result = "pyexn + 'a"

definition ValueError :: "string \<Rightarrow> pyexn" where
  "ValueError msg = PyExn ''builtins'' ''ValueError'' msg"

text \<open>The arrow and the dash of the source's messages, U+2192 and U+2014, in UTF-8.\<close>

definition em_dash :: string where
  "em_dash = [CHR 0xE2, CHR 0x80, CHR 0x94]"

definition arrow :: string where
  "arrow = [CHR 0xE2, CHR 0x86, CHR 0x92]"

subsection \<open>JSON values\<close>

datatype json =
    JNull
  | JBool bool
  | JInt int
  | JNum rat
  | JStr string
  | JList "json list"
  | JObj "(string \<times> json) list"

text \<open>Python's \<open>bool(v)\<close>.\<close>

fun json_truthy :: "json \<Rightarrow> bool" where
  "json_truthy JNull = False"
| "json_truthy (JBool b) = b"
| "json_truthy (JInt i) = (i \<noteq> 0)"
| "json_truthy (JNum q) = (q \<noteq> 0)"
| "json_truthy (JStr s) = (s \<noteq> [])"
| "json_truthy (JList xs) = (xs \<noteq> [])"
| "json_truthy (JObj kvs) = (kvs \<noteq> [])"

text \<open>Python's \<open>type(v).__name__\<close>.\<close>

fun json_type_name :: "json \<Rightarrow> string" where
  "json_type_name JNull = ''NoneType''"
| "json_type_name (JBool _) = ''bool''"
| "json_type_name (JInt _) = ''int''"
| "json_type_name (JNum _) = ''float''"
| "json_type_name (JStr _) = ''str''"
| "json_type_name (JList _) = ''list''"
| "json_type_name (JObj _) = ''dict''"

subsection \<open>Dicts\<close>

type_synonym 'v pydict = "(string \<times> 'v) list"

definition dict_get :: "'v pydict \<Rightarrow> string \<Rightarrow> 'v option" where
  "dict_get d k = map_of d k"

definition dict_get_or :: "'v pydict \<Rightarrow> string \<Rightarrow> 'v \<Rightarrow> 'v" where
  "dict_get_or d k dflt = (case dict_get d k of None \<Rightarrow> dflt | Some v \<Rightarrow> v)"

definition dict_set :: "'v pydict \<Rightarrow> string \<Rightarrow> 'v \<Rightarrow> 'v pydict" where
  "dict_set d k v = AList.update k v d"

definition dict_del :: "'v pydict \<Rightarrow> string \<Rightarrow> 'v pydict" where
  "dict_del d k = AList.delete k d"

abbreviation dict_keys :: "'v pydict \<Rightarrow> string list" where
  "dict_keys d \<equiv> map fst d"

abbreviation dict_ok :: "'v pydict \<Rightarrow> bool" where
  "dict_ok d \<equiv> distinct (dict_keys d)"

lemma dict_get_empty [simp]: "dict_get [] k = None"
  by (simp add: dict_get_def)

lemma dict_get_set [simp, dict_simps]:
  "dict_get (dict_set d k v) k' = (if k' = k then Some v else dict_get d k')"
  by (simp add: dict_get_def dict_set_def update_conv)

lemma dict_get_del [simp, dict_simps]:
  "dict_get (dict_del d k) k' = (if k' = k then None else dict_get d k')"
  by (simp add: dict_get_def dict_del_def delete_conv)

lemma dict_ok_set [simp]: "dict_ok d \<Longrightarrow> dict_ok (dict_set d k v)"
  by (simp add: dict_set_def distinct_update)

lemma dict_ok_del [simp]: "dict_ok d \<Longrightarrow> dict_ok (dict_del d k)"
  by (simp add: dict_del_def distinct_delete)

lemma dict_keys_set:
  "dict_keys (dict_set d k v) = (if k \<in> set (dict_keys d) then dict_keys d else dict_keys d @ [k])"
  unfolding dict_set_def by (induction d) auto

lemma set_dict_keys_set [simp]: "set (dict_keys (dict_set d k v)) = insert k (set (dict_keys d))"
  by (simp only: dict_keys_set) auto

lemma dict_keys_del: "dict_keys (dict_del d k) = filter (\<lambda>k'. k' \<noteq> k) (dict_keys d)"
  unfolding dict_del_def by (induction d) auto

lemma set_dict_del: "set (dict_del d k) \<subseteq> set d"
  unfolding dict_del_def by (induction d) auto

lemma set_dict_set: "set (dict_set d k v) \<subseteq> insert (k, v) (set d)"
  unfolding dict_set_def by (induction d) auto

lemma dict_set_fresh: "k \<notin> set (dict_keys d) \<Longrightarrow> dict_set d k v = d @ [(k, v)]"
  unfolding dict_set_def by (induction d) auto

lemma dict_del_absent: "k \<notin> set (dict_keys d) \<Longrightarrow> dict_del d k = d"
  unfolding dict_del_def by (simp add: delete_idem)

lemma dict_get_None_iff: "dict_get d k = None \<longleftrightarrow> k \<notin> set (dict_keys d)"
  by (simp add: dict_get_def map_of_eq_None_iff)

lemma dict_get_in_keys: "dict_get d k = Some v \<Longrightarrow> k \<in> set (dict_keys d)"
  using dict_get_None_iff [of d k] by auto

lemma dict_get_SomeD: "dict_get d k = Some v \<Longrightarrow> (k, v) \<in> set d"
  unfolding dict_get_def by (rule map_of_SomeD)

lemma dict_get_Some_iff: "dict_ok d \<Longrightarrow> dict_get d k = Some v \<longleftrightarrow> (k, v) \<in> set d"
  by (simp add: dict_get_def)

lemma length_dict_set:
  "length (dict_set d k v) = (if k \<in> set (dict_keys d) then length d else Suc (length d))"
proof -
  have "length (dict_keys (dict_set d k v)) =
      (if k \<in> set (dict_keys d) then length d else Suc (length d))"
    by (simp add: dict_keys_set)
  then show ?thesis by simp
qed

text \<open>Looking up the keys of a dict in order yields its values in order.\<close>

lemma map_filter_dict:
  assumes "dict_ok d"
  shows "List.map_filter (dict_get d) (dict_keys d) = map snd d"
proof -
  have "List.map_filter (dict_get d) (dict_keys t) = map snd t" if "set t \<subseteq> set d" for t
    using that
  proof (induction t)
    case Nil
    then show ?case by (simp add: List.map_filter_simps)
  next
    case (Cons kv t)
    have "dict_get d (fst kv) = Some (snd kv)"
      using assms Cons.prems by (cases kv) (simp add: dict_get_def)
    with Cons show ?case by (simp add: List.map_filter_simps)
  qed
  then show ?thesis by simp
qed

lemma dict_get_or_set [simp]:
  "dict_get_or (dict_set d k v) k' dflt = (if k' = k then v else dict_get_or d k' dflt)"
  by (simp add: dict_get_or_def)

text \<open>A predicate that holds of one key's value only.\<close>

lemma filter_values_single:
  assumes "dict_ok d" "dict_get d k0 = Some c"
    and "\<And>k v. dict_get d k = Some v \<Longrightarrow> P v \<longleftrightarrow> k = k0"
  shows "filter P (map snd d) = [c]"
  using assms
proof (induction d)
  case Nil
  then show ?case by simp
next
  case (Cons kv d)
  obtain k v where kv: "kv = (k, v)" by (cases kv)
  show ?case
  proof (cases "k = k0")
    case True
    have "\<not> P v'" if "v' \<in> set (map snd d)" for v'
    proof -
      from that obtain k' where "(k', v') \<in> set d" by auto
      then have "dict_get (kv # d) k' = Some v'" "k' \<noteq> k0"
        using Cons.prems(1) kv True by (force simp: dict_get_def)+
      with Cons.prems(3) show ?thesis by simp
    qed
    then have "filter P (map snd d) = []" by (auto simp: filter_empty_conv)
    moreover have "v = c" using Cons.prems(2) True by (simp add: kv dict_get_def)
    moreover have "P v" using Cons.prems(3) [of k v] True by (simp add: kv dict_get_def)
    ultimately show ?thesis by (simp add: kv)
  next
    case False
    have "\<not> P v" using Cons.prems(3) [of k v] False by (simp add: kv dict_get_def)
    moreover have "filter P (map snd d) = [c]"
    proof (rule Cons.IH)
      show "dict_ok d" "dict_get d k0 = Some c"
        using Cons.prems(1,2) kv False by (auto simp: dict_get_def)
      fix k' v'
      assume get: "dict_get d k' = Some v'"
      then have "k' \<noteq> k" using Cons.prems(1) kv dict_get_in_keys [OF get] by auto
      with get show "P v' \<longleftrightarrow> k' = k0"
        by (intro Cons.prems(3)) (simp add: kv dict_get_def)
    qed
    ultimately show ?thesis by (simp add: kv)
  qed
qed

text \<open>A loop that assigns \<open>f k\<close> to each key \<open>k\<close> of a list.\<close>

lemma fold_dict_set_get [simp]:
  "dict_get (fold (\<lambda>k m. dict_set m k (f k)) ks m) k =
     (if k \<in> set ks then Some (f k) else dict_get m k)"
  by (induction ks arbitrary: m) auto

lemma set_fold_dict_set:
  "set (fold (\<lambda>k m. dict_set m k (f k)) ks m) \<subseteq> (\<lambda>k. (k, f k)) ` set ks \<union> set m"
proof (induction ks arbitrary: m)
  case Nil
  then show ?case by simp
next
  case (Cons k ks)
  from Cons.IH [of "dict_set m k (f k)"] set_dict_set [of m k "f k"] show ?case by auto
qed

subsection \<open>The environment: identifiers and time\<close>

text \<open>
  \<open>uuid.uuid4()\<close> and the clock are the environment of the program.  Their draws are
  parameters of a run: \<open>e_uuid e n\<close> is the \<open>n\<close>-th identifier drawn and \<open>e_clock e n\<close> the
  \<open>n\<close>-th reading of the clock, in microseconds; the counters say how many draws were made.
  A timestamp that the source renders as ISO text is kept as the reading it renders.
  \<open>e_float_fmt e spec x\<close> is the text of the float \<open>x\<close> in the format \<open>spec\<close> (the empty one is
  \<open>str\<close>); floats are rationals here, so their arithmetic is exact.  \<open>e_isoformat\<close> is the text
  \<open>isoformat()\<close> gives a timestamp, \<open>e_py_str\<close> the text \<open>str()\<close> gives a JSON value that is not
  a string, \<open>e_strftime\<close> the text \<open>strftime(fmt, gmtime(ts))\<close> gives a time in seconds.
\<close>

type_synonym datetime = int

record env =
  e_uuid :: "nat \<Rightarrow> string"
  e_uuid_n :: nat
  e_clock :: "nat \<Rightarrow> datetime"
  e_tick :: nat
  e_float_fmt :: "string \<Rightarrow> rat \<Rightarrow> string"
  e_isoformat :: "datetime \<Rightarrow> string"
  e_py_str :: "json \<Rightarrow> string"
  e_strftime :: "string \<Rightarrow> rat \<Rightarrow> string"

definition new_uuid :: "'a env_scheme \<Rightarrow> string \<times> 'a env_scheme" where
  "new_uuid e = (e_uuid e (e_uuid_n e), e\<lparr>e_uuid_n := Suc (e_uuid_n e)\<rparr>)"

definition utc_now :: "'a env_scheme \<Rightarrow> datetime \<times> 'a env_scheme" where
  "utc_now e = (e_clock e (e_tick e), e\<lparr>e_tick := Suc (e_tick e)\<rparr>)"

text \<open>\<open>time.time()\<close>: the same clock, in seconds.\<close>

definition time_now :: "'a env_scheme \<Rightarrow> rat \<times> 'a env_scheme" where
  "time_now e = (rat_of_int (e_clock e (e_tick e)) / 1000000, e\<lparr>e_tick := Suc (e_tick e)\<rparr>)"

text \<open>\<open>str(i)\<close> of an int.\<close>

fun nat_digits :: "nat \<Rightarrow> string" where
  "nat_digits n =
     (if n < 10 then [char_of (48 + n)] else nat_digits (n div 10) @ [char_of (48 + n mod 10)])"

declare nat_digits.simps [simp del]

lemma nat_digits_ne [simp]: "nat_digits n \<noteq> []"
  by (subst nat_digits.simps) simp

lemma digit_char_eq:
  assumes "i < 10" "j < 10" "char_of (48 + i) = (char_of (48 + j) :: char)"
  shows "i = (j :: nat)"
proof -
  have "of_char (char_of (48 + i) :: char) = (of_char (char_of (48 + j) :: char) :: nat)"
    using assms(3) by simp
  then show ?thesis using assms(1,2) by simp
qed

lemma nat_digits_inj: "nat_digits m = nat_digits n \<Longrightarrow> m = n"
proof (induction m arbitrary: n rule: nat_digits.induct)
  case (1 m)
  have small: "length (nat_digits k) = 1 \<longleftrightarrow> k < 10" for k
  proof (cases "k < 10")
    case True
    then show ?thesis by (subst nat_digits.simps) simp
  next
    case False
    then show ?thesis by (subst nat_digits.simps) simp
  qed
  show ?case
  proof (cases "m < 10")
    case True
    with "1.prems" small have "n < 10" by metis
    with True "1.prems" have "char_of (48 + m) = (char_of (48 + n) :: char)"
      by (simp add: nat_digits.simps)
    then show ?thesis by (rule digit_char_eq [OF True \<open>n < 10\<close>])
  next
    case False
    with "1.prems" small have n: "\<not> n < 10" by metis
    have "nat_digits (m div 10) = nat_digits (n div 10)"
      and "char_of (48 + m mod 10) = (char_of (48 + n mod 10) :: char)"
      using "1.prems" False n by (simp_all add: nat_digits.simps [of m] nat_digits.simps [of n])
    then have "m div 10 = n div 10" "m mod 10 = n mod 10"
      using "1.IH" [OF False] digit_char_eq [of "m mod 10" "n mod 10"] by simp_all
    then show ?thesis by (metis div_mult_mod_eq)
  qed
qed

definition int_str :: "int \<Rightarrow> string" where
  "int_str i = (if i < 0 then ''-'' @ nat_digits (nat (- i)) else nat_digits (nat i))"

definition py_str :: "'a env_scheme \<Rightarrow> json \<Rightarrow> string" where
  "py_str e v = (case v of JStr s \<Rightarrow> s | _ \<Rightarrow> e_py_str e v)"

text \<open>\<open>repr\<close> of a string that needs no escapes.\<close>

definition quoted :: "string \<Rightarrow> string" where
  "quoted s = [CHR 0x27] @ s @ [CHR 0x27]"

text \<open>\<open>repr(v)\<close>, exact on strings without escapes; on other values \<open>repr\<close> is \<open>str\<close>.\<close>

definition py_repr :: "'a env_scheme \<Rightarrow> json \<Rightarrow> string" where
  "py_repr e v = (case v of JStr s \<Rightarrow> quoted s | _ \<Rightarrow> e_py_str e v)"

text \<open>\<open>str.strip\<close>.\<close>

definition py_space :: "char \<Rightarrow> bool" where
  "py_space c \<longleftrightarrow>
     (of_char c :: nat) \<in> {9, 10, 11, 12, 13, 28, 29, 30, 31, 32}"

definition py_strip :: "string \<Rightarrow> string" where
  "py_strip s = rev (dropWhile py_space (rev (dropWhile py_space s)))"

text \<open>\<open>sep.join(ss)\<close>, \<open>s.startswith(p)\<close> and the newline.\<close>

definition nl :: string where
  "nl = [CHR 0x0A]"

fun joined :: "string \<Rightarrow> string list \<Rightarrow> string" where
  "joined sep [] = []"
| "joined sep [s] = s"
| "joined sep (s # ss) = s @ sep @ joined sep ss"

definition starts_with :: "string \<Rightarrow> string \<Rightarrow> bool" where
  "starts_with p s \<longleftrightarrow> take (length p) s = p"

text \<open>\<open>s.lower()\<close> of ASCII text.\<close>

definition py_lower :: "string \<Rightarrow> string" where
  "py_lower s = map (\<lambda>c. if 65 \<le> (of_char c :: nat) \<and> (of_char c :: nat) \<le> 90
     then char_of ((of_char c :: nat) + 32) else c) s"

text \<open>\<open>w in s\<close> for strings.\<close>

fun contains :: "string \<Rightarrow> string \<Rightarrow> bool" where
  "contains w [] = (w = [])"
| "contains w (c # cs) = (starts_with w (c # cs) \<or> contains w cs)"

text \<open>A method of \<open>str\<close> on any JSON value.\<close>

definition str_method :: "string \<Rightarrow> (string \<Rightarrow> 'v) \<Rightarrow> json \<Rightarrow> 'v result" where
  "str_method name f v =
     (case v of
        JStr s \<Rightarrow> Inr (f s)
      | _ \<Rightarrow> Inl (PyExn ''builtins'' ''AttributeError''
               (quoted (json_type_name v) @ '' object has no attribute '' @ quoted name)))"

text \<open>The exception of \<open>v.get\<close> on a value that is no dict.\<close>

definition AttributeError_get :: "json \<Rightarrow> pyexn" where
  "AttributeError_get v =
     PyExn ''builtins'' ''AttributeError''
       (quoted (json_type_name v) @ '' object has no attribute '' @ quoted ''get'')"

text \<open>\<open>v.get(key, dflt)\<close> on a value that should be a dict.\<close>

definition json_get :: "json \<Rightarrow> string \<Rightarrow> json \<Rightarrow> json result" where
  "json_get v key dflt =
     (case v of JObj kvs \<Rightarrow> Inr (dict_get_or kvs key dflt) | _ \<Rightarrow> Inl (AttributeError_get v))"

text \<open>An environment for the examples.\<close>

definition sample_env :: env where
  "sample_env =
     \<lparr>e_uuid = (\<lambda>n. ''u'' @ nat_digits n), e_uuid_n = 0, e_clock = int, e_tick = 0,
      e_float_fmt = (\<lambda>_ _. ''1.0''), e_isoformat = int_str, e_py_str = (\<lambda>_. ''...''),
      e_strftime = (\<lambda>fmt _. fmt)\<rparr>"

text \<open>\<open>len(v)\<close>, which only strings and containers have.\<close>

definition KeyError :: "string \<Rightarrow> pyexn" where
  "KeyError k = PyExn ''builtins'' ''KeyError'' (quoted k)"

definition TypeError :: "string \<Rightarrow> pyexn" where
  "TypeError msg = PyExn ''builtins'' ''TypeError'' msg"

fun json_len :: "json \<Rightarrow> nat result" where
  "json_len (JStr s) = Inr (length s)"
| "json_len (JList xs) = Inr (length xs)"
| "json_len (JObj kvs) = Inr (length kvs)"
| "json_len v = Inl (TypeError (''object of type '' @ quoted (json_type_name v) @ '' has no len()''))"

subsection \<open>Lists\<close>

lemma successively_append_single:
  "xs \<noteq> [] \<Longrightarrow> successively P (xs @ [y]) \<longleftrightarrow> successively P xs \<and> P (last xs) y"
  by (simp add: successively_append_iff)

lemma count_list_append_single: "count_list (xs @ [y]) x = count_list xs x + (if x = y then 1 else 0)"
  by (induction xs) auto

lemma find_SomeD: "find P xs = Some x \<Longrightarrow> P x \<and> x \<in> set xs"
  by (induction xs) (auto split: if_splits)

lemma fold_keeps: "(\<And>x w. P w \<Longrightarrow> P (f x w)) \<Longrightarrow> P w \<Longrightarrow> P (fold f xs w)"
  by (induction xs arbitrary: w) auto

end
