(* ===== verification/LifecycleSpec.thy ===== *)
theory LifecycleSpec
  imports Prelude
begin

text \<open>
  The interface every lifecycle table of the system implements: a transition relation on a
  finite set of states, and a set of terminal states that are exactly the ones with no
  outgoing edge.  What the clients rely on is proved here once: a terminal state can only
  be the last state of a history, and a history continues exactly from a non-terminal one.
\<close>

locale lifecycle =
  fixes allowed :: "'s \<Rightarrow> 's \<Rightarrow> bool"
    and terminal :: "'s \<Rightarrow> bool"
  assumes terminal_no_exit: "terminal s \<Longrightarrow> \<not> allowed s t"
    and live_exit: "\<not> terminal s \<Longrightarrow> \<exists>t. allowed s t"
begin

lemma terminal_iff_stuck: "terminal s \<longleftrightarrow> (\<forall>t. \<not> allowed s t)"
  using terminal_no_exit live_exit by blast

lemma reach_from_terminal: "allowed\<^sup>*\<^sup>* s t \<Longrightarrow> terminal s \<Longrightarrow> t = s"
  by (induction rule: converse_rtranclp_induct) (auto dest: terminal_no_exit)

lemma history_terminal_last:
  "successively allowed (xs @ s # ys) \<Longrightarrow> terminal s \<Longrightarrow> ys = []"
  by (cases ys) (auto simp: successively_append_iff dest: terminal_no_exit)

lemma history_reach: "successively allowed (s # xs) \<Longrightarrow> allowed\<^sup>*\<^sup>* s (last (s # xs))"
proof (induction xs arbitrary: s)
  case Nil
  then show ?case by simp
next
  case (Cons x xs)
  then have "allowed s x" and "allowed\<^sup>*\<^sup>* x (last (x # xs))" by simp_all
  then show ?case by (simp add: converse_rtranclp_into_rtranclp)
qed

end

end
