(* ===== verification/JobState.thy ===== *)
theory JobState
  imports LifecycleSpec
begin

text \<open>
  The job state machine of \<^verbatim>\<open>src/src/platform/runtime/job_state.py\<close>: the states, the table
  of allowed transitions and the checked transition functions, with the history facts the
  control plane and the worker rely on.
\<close>

subsection \<open>States and transitions\<close>

datatype job_state = PENDING | RUNNING | SUCCEEDED | FAILED | POISON | BLOCKED

fun state_value :: "job_state \<Rightarrow> string" where
  "state_value PENDING = ''pending''"
| "state_value RUNNING = ''running''"
| "state_value SUCCEEDED = ''succeeded''"
| "state_value FAILED = ''failed''"
| "state_value POISON = ''poison''"
| "state_value BLOCKED = ''blocked''"

definition transitions :: "(job_state \<times> job_state) list" where
  "transitions =
     [(PENDING, RUNNING), (RUNNING, SUCCEEDED), (RUNNING, FAILED), (RUNNING, POISON),
      (PENDING, BLOCKED), (BLOCKED, PENDING), (BLOCKED, FAILED), (PENDING, FAILED)]"

definition can_transition :: "job_state \<Rightarrow> job_state \<Rightarrow> bool" where
  "can_transition current target \<longleftrightarrow> (current, target) \<in> set transitions"

definition illegal_transition :: "job_state \<Rightarrow> job_state \<Rightarrow> pyexn" where
  "illegal_transition current target =
     ValueError (''Illegal job state transition: '' @ state_value current @ '' '' @ arrow
       @ '' '' @ state_value target)"

definition assert_transition :: "job_state \<Rightarrow> job_state \<Rightarrow> unit result" where
  "assert_transition current target =
     (if \<not> can_transition current target then Inl (illegal_transition current target)
      else Inr ())"

definition transition :: "job_state \<Rightarrow> job_state \<Rightarrow> job_state result" where
  "transition current target =
     (case assert_transition current target of Inl e \<Rightarrow> Inl e | Inr _ \<Rightarrow> Inr target)"

text \<open>The terminal states: those the table gives no outgoing pair.\<close>

definition job_terminal :: "job_state \<Rightarrow> bool" where
  "job_terminal s \<longleftrightarrow> s \<in> {SUCCEEDED, FAILED, POISON}"

subsection \<open>Lemmas\<close>

lemma can_transition_cases:
  "can_transition s t \<longleftrightarrow>
     (case s of PENDING \<Rightarrow> t \<in> {RUNNING, BLOCKED, FAILED}
      | RUNNING \<Rightarrow> t \<in> {SUCCEEDED, FAILED, POISON}
      | BLOCKED \<Rightarrow> t \<in> {PENDING, FAILED}
      | _ \<Rightarrow> False)"
  by (cases s) (auto simp: can_transition_def transitions_def)

lemma transition_Inr_iff [simp]: "transition s t = Inr u \<longleftrightarrow> can_transition s t \<and> u = t"
  by (auto simp: transition_def assert_transition_def)

lemma transition_Inl_iff [simp]:
  "transition s t = Inl e \<longleftrightarrow> \<not> can_transition s t \<and> e = illegal_transition s t"
  by (auto simp: transition_def assert_transition_def)

lemma transition_ok [simp]: "can_transition s t \<Longrightarrow> transition s t = Inr t"
  by simp

interpretation job_lc: lifecycle can_transition job_terminal
  by unfold_locales
    (auto simp: can_transition_cases job_terminal_def split: job_state.splits)

lemma into_running: "can_transition s RUNNING \<longleftrightarrow> s = PENDING"
  by (cases s) (auto simp: can_transition_cases)

lemma after_running: "can_transition RUNNING t \<longleftrightarrow> job_terminal t"
  by (auto simp: can_transition_cases job_terminal_def)

lemma into_success_or_poison:
  "can_transition s t \<Longrightarrow> t \<in> {SUCCEEDED, POISON} \<Longrightarrow> s = RUNNING"
  by (cases s) (auto simp: can_transition_cases)

text \<open>
  Once a job runs, only terminal states can follow, so a history visits \<open>RUNNING\<close> at most
  once.
\<close>

lemma history_after_running:
  assumes "successively can_transition (RUNNING # ys)"
  shows "length ys \<le> 1 \<and> RUNNING \<notin> set ys"
proof (cases ys)
  case Nil
  then show ?thesis by simp
next
  case (Cons t zs)
  with assms have t: "job_terminal t" by (simp add: after_running)
  have "successively can_transition ([] @ t # zs)" using assms Cons by simp
  then have "zs = []" using t by (rule job_lc.history_terminal_last)
  with t Cons show ?thesis by (auto simp: job_terminal_def)
qed

lemma history_running_once:
  "successively can_transition xs \<Longrightarrow> count_list xs RUNNING \<le> 1"
proof (induction xs)
  case Nil
  then show ?case by simp
next
  case (Cons s xs)
  show ?case
  proof (cases "s = RUNNING")
    case True
    with Cons.prems have "RUNNING \<notin> set xs" using history_after_running by blast
    with True show ?thesis by (simp add: count_notin)
  next
    case False
    with Cons show ?thesis by (cases xs) simp_all
  qed
qed

text \<open>C1: A job is executed at most once: a history of allowed transitions enters
  \<open>RUNNING\<close> at most once, one that starts in \<open>PENDING\<close> and ends in \<open>SUCCEEDED\<close> or
  \<open>POISON\<close> went through \<open>RUNNING\<close> immediately before its end, and nothing follows a
  terminal state.\<close>

theorem job_history_runs_once:
  assumes "successively can_transition (PENDING # xs)"
  shows "count_list (PENDING # xs) RUNNING \<le> 1
    \<and> (last (PENDING # xs) \<in> {SUCCEEDED, POISON} \<longrightarrow> last (butlast (PENDING # xs)) = RUNNING)
    \<and> (\<forall>s \<in> set (butlast (PENDING # xs)). \<not> job_terminal s)"
proof (intro conjI)
  show "count_list (PENDING # xs) RUNNING \<le> 1"
    using assms by (rule history_running_once)
  show "last (PENDING # xs) \<in> {SUCCEEDED, POISON} \<longrightarrow> last (butlast (PENDING # xs)) = RUNNING"
  proof
    assume end_state: "last (PENDING # xs) \<in> {SUCCEEDED, POISON}"
    then have ne: "butlast (PENDING # xs) \<noteq> []" by (cases xs) auto
    have split: "butlast (PENDING # xs) @ [last (PENDING # xs)] = PENDING # xs" by simp
    have "can_transition (last (butlast (PENDING # xs))) (last (PENDING # xs))"
      using assms ne split successively_append_single by metis
    then show "last (butlast (PENDING # xs)) = RUNNING"
      using end_state by (rule into_success_or_poison)
  qed
  show "\<forall>s \<in> set (butlast (PENDING # xs)). \<not> job_terminal s"
  proof
    fix s assume "s \<in> set (butlast (PENDING # xs))"
    then obtain us vs where "butlast (PENDING # xs) = us @ s # vs" by (meson split_list)
    then have "PENDING # xs = us @ s # (vs @ [last (PENDING # xs)])"
      by (metis append_Cons append_assoc append_butlast_last_id list.distinct(1))
    then show "\<not> job_terminal s"
      using assms job_lc.history_terminal_last by (metis append_is_Nil_conv not_Cons_self2)
  qed
qed

theorem job_history_runs_once_witness:
  "count_list [PENDING, BLOCKED, PENDING, RUNNING, SUCCEEDED] RUNNING \<le> 1"
  using job_history_runs_once [of "[BLOCKED, PENDING, RUNNING, SUCCEEDED]"]
  by (simp add: can_transition_cases)

end
