(* ===== verification/Job.thy ===== *)
theory Job
  imports JobState
begin

text \<open>
  The unit of work and its fan-in record: \<^verbatim>\<open>platform/runtime/job.py\<close>,
  \<^verbatim>\<open>platform/runtime/execution_context.py\<close>, \<^verbatim>\<open>gateway/normalization.py\<close> and
  \<^verbatim>\<open>platform/runtime/join_handle.py\<close>.  Record fields carry a short prefix of their class
  (\<open>j_\<close>, \<open>xc_\<close>, \<open>cm_\<close>, \<open>jh_\<close>), otherwise they keep the source's names.
\<close>

subsection \<open>Data\<close>

record channel_message =
  cm_input :: json
  cm_metadata :: json
  cm_channel :: string

text \<open>An entry of the cycle trace: timestamp, event name, payload.\<close>

type_synonym cycle_event = "datetime \<times> string \<times> json"

record execution_context =
  xc_cognitive_state :: json
  xc_last_result :: json
  xc_memory :: json
  xc_cycle_trace :: "cycle_event list"

definition new_execution_context :: execution_context where
  "new_execution_context =
     \<lparr>xc_cognitive_state = JObj [], xc_last_result = JNull, xc_memory = JObj [],
      xc_cycle_trace = []\<rparr>"

text \<open>The two shapes of entry that the control plane appends to a job's trace.\<close>

datatype trace_entry =
    StateTransition datetime job_state job_state
  | Lifecycle datetime string json

record job =
  j_id :: string
  j_created_at :: datetime
  j_state :: job_state
  j_payload :: channel_message
  j_result :: "json option"
  j_trace :: "trace_entry list"
  j_execution_context :: "execution_context option"
  j_resume_token :: "string option"
  j_failure_count :: int
  j_consecutive_failures :: int
  j_panic_count :: int
  j_crash_count :: int
  j_job_type :: string
  j_parent_job_id :: "string option"
  j_priority :: int
  j_max_retries :: int
  j_timeout_seconds :: int
  j_plan_id :: "string option"
  j_subtask_id :: "string option"
  j_depends_on :: "string list"

text \<open>A \<open>Job\<close> with every defaulted field at its default.\<close>

definition new_job :: "string \<Rightarrow> datetime \<Rightarrow> channel_message \<Rightarrow> job" where
  "new_job jid now msg =
     \<lparr>j_id = jid, j_created_at = now, j_state = PENDING, j_payload = msg, j_result = None,
      j_trace = [], j_execution_context = None, j_resume_token = None, j_failure_count = 0,
      j_consecutive_failures = 0, j_panic_count = 0, j_crash_count = 0,
      j_job_type = ''default'', j_parent_job_id = None, j_priority = 0, j_max_retries = 0,
      j_timeout_seconds = 300, j_plan_id = None, j_subtask_id = None, j_depends_on = []\<rparr>"

definition create_job :: "'a env_scheme \<Rightarrow> channel_message \<Rightarrow> job \<times> 'a env_scheme" where
  "create_job e msg =
     (let (jid, e1) = new_uuid e; (now, e2) = utc_now e1 in (new_job jid now msg, e2))"

text \<open>A message for the examples.\<close>

definition sample_message :: channel_message where
  "sample_message = \<lparr>cm_input = JObj [], cm_metadata = JObj [], cm_channel = ''cli''\<rparr>"

text \<open>The state transitions recorded in a job's trace, oldest first.\<close>

fun trace_transitions :: "trace_entry list \<Rightarrow> (job_state \<times> job_state) list" where
  "trace_transitions [] = []"
| "trace_transitions (StateTransition _ a b # es) = (a, b) # trace_transitions es"
| "trace_transitions (Lifecycle _ _ _ # es) = trace_transitions es"

lemma trace_transitions_append [simp]:
  "trace_transitions (xs @ ys) = trace_transitions xs @ trace_transitions ys"
  by (induction xs rule: trace_transitions.induct) auto

subsection \<open>Join handles\<close>

datatype join_state = JWaiting | JCompleted | JFailed

record join_handle =
  jh_id :: string
  jh_parent_job_id :: string
  jh_plan_id :: string
  jh_child_job_ids :: "string list"
  jh_completed_ids :: "string list"
  jh_failed_ids :: "string list"
  jh_state :: join_state
  jh_merge_strategy :: string
  jh_merge_agent_id :: "string option"
  jh_created_at :: datetime
  jh_completed_at :: "datetime option"

definition new_join_handle ::
  "string \<Rightarrow> string \<Rightarrow> string \<Rightarrow> string list \<Rightarrow> string \<Rightarrow> string option \<Rightarrow> datetime \<Rightarrow> join_handle"
where
  "new_join_handle hid parent plan children strategy agent now =
     \<lparr>jh_id = hid, jh_parent_job_id = parent, jh_plan_id = plan, jh_child_job_ids = children,
      jh_completed_ids = [], jh_failed_ids = [], jh_state = JWaiting,
      jh_merge_strategy = strategy, jh_merge_agent_id = agent, jh_created_at = now,
      jh_completed_at = None\<rparr>"

definition is_ready :: "join_handle \<Rightarrow> bool" where
  "is_ready h \<longleftrightarrow>
     length (jh_child_job_ids h) \<le> length (jh_completed_ids h) + length (jh_failed_ids h)"

definition all_succeeded :: "join_handle \<Rightarrow> bool" where
  "all_succeeded h \<longleftrightarrow>
     length (jh_completed_ids h) = length (jh_child_job_ids h) \<and> length (jh_failed_ids h) = 0"

definition jh_advance :: "datetime \<Rightarrow> join_handle \<Rightarrow> join_handle" where
  "jh_advance now h =
     (if \<not> is_ready h then h
      else let h = h\<lparr>jh_completed_at := Some now\<rparr>
           in if all_succeeded h then h\<lparr>jh_state := JCompleted\<rparr>
              else h\<lparr>jh_state := JFailed\<rparr>)"

definition mark_child_completed :: "datetime \<Rightarrow> string \<Rightarrow> join_handle \<Rightarrow> join_handle" where
  "mark_child_completed now cid h =
     (if cid \<notin> set (jh_child_job_ids h) then h
      else let h = (if cid \<notin> set (jh_completed_ids h)
                    then h\<lparr>jh_completed_ids := jh_completed_ids h @ [cid]\<rparr> else h)
           in jh_advance now h)"

definition mark_child_failed :: "datetime \<Rightarrow> string \<Rightarrow> join_handle \<Rightarrow> join_handle" where
  "mark_child_failed now cid h =
     (if cid \<notin> set (jh_child_job_ids h) then h
      else let h = (if cid \<notin> set (jh_failed_ids h)
                    then h\<lparr>jh_failed_ids := jh_failed_ids h @ [cid]\<rparr> else h)
           in jh_advance now h)"

subsection \<open>Sequences of reports\<close>

text \<open>
  A report is what a child's completion hook says of it: \<open>(child, True)\<close> for success,
  \<open>(child, False)\<close> for failure.  \<open>run_reports\<close> is the handle after a sequence of them,
  each at its own time.
\<close>

type_synonym report = "datetime \<times> string \<times> bool"

fun run_report :: "report \<Rightarrow> join_handle \<Rightarrow> join_handle" where
  "run_report (now, cid, ok) h =
     (if ok then mark_child_completed now cid h else mark_child_failed now cid h)"

definition run_reports :: "report list \<Rightarrow> join_handle \<Rightarrow> join_handle" where
  "run_reports rs h = fold run_report rs h"

lemma run_reports_simps [simp]:
  "run_reports [] h = h"
  "run_reports (r # rs) h = run_reports rs (run_report r h)"
  "run_reports (rs @ qs) h = run_reports qs (run_reports rs h)"
  by (simp_all add: run_reports_def)

text \<open>The ids a sequence of reports names with the given verdict, in order.\<close>

definition reported :: "bool \<Rightarrow> report list \<Rightarrow> string list" where
  "reported ok rs = map (\<lambda>(_, cid, _). cid) (filter (\<lambda>(_, _, b). b = ok) rs)"

lemma reported_simps [simp]:
  "reported ok [] = []"
  "reported ok (rs @ [(t, c, b)]) = reported ok rs @ (if b = ok then [c] else [])"
  by (simp_all add: reported_def)

definition report_ids :: "report list \<Rightarrow> string list" where
  "report_ids rs = map (\<lambda>(_, cid, _). cid) rs"

lemma report_ids_simps [simp]:
  "report_ids [] = []"
  "report_ids (rs @ [(t, c, b)]) = report_ids rs @ [c]"
  by (simp_all add: report_ids_def)

lemma set_reported_subset: "set (reported ok rs) \<subseteq> set (report_ids rs)"
  by (force simp: reported_def report_ids_def)

lemma set_report_ids: "set (report_ids rs) = set (reported True rs) \<union> set (reported False rs)"
  by (induction rs rule: rev_induct) auto

lemma length_report_ids:
  "length (report_ids rs) = length (reported True rs) + length (reported False rs)"
  by (induction rs rule: rev_induct) auto

text \<open>The frame of a report, and what it records.\<close>

lemma run_report_frame [simp]:
  "jh_child_job_ids (run_report r h) = jh_child_job_ids h"
  "jh_id (run_report r h) = jh_id h"
  "jh_plan_id (run_report r h) = jh_plan_id h"
  by (cases r; auto simp: mark_child_completed_def mark_child_failed_def jh_advance_def Let_def)+

lemma run_reports_frame [simp]:
  "jh_child_job_ids (run_reports rs h) = jh_child_job_ids h"
  "jh_id (run_reports rs h) = jh_id h"
  "jh_plan_id (run_reports rs h) = jh_plan_id h"
  by (induction rs arbitrary: h) simp_all

text \<open>
  The abstract handle: after a sequence of reports that names each tracked child at most
  once, the handle's lists are the reports' lists and its state is a function of them.
\<close>

definition join_spec :: "string list \<Rightarrow> report list \<Rightarrow> join_state" where
  "join_spec children rs =
     (if rs = [] \<or> \<not> set children \<subseteq> set (report_ids rs) then JWaiting
      else if reported False rs = [] then JCompleted else JFailed)"

lemma subset_iff_length:
  assumes "distinct xs" "distinct ys" "set xs \<subseteq> set ys"
  shows "set ys \<subseteq> set xs \<longleftrightarrow> length ys \<le> length xs"
  using assms by (metis card_subset_eq distinct_card finite_set le_antisym card_mono order_refl)

lemma run_reports_lists:
  assumes "jh_completed_ids h = []" "jh_failed_ids h = []" "jh_state h = JWaiting"
    and "distinct (jh_child_job_ids h)"
    and "distinct (report_ids rs)" "set (report_ids rs) \<subseteq> set (jh_child_job_ids h)"
  shows "jh_completed_ids (run_reports rs h) = reported True rs
    \<and> jh_failed_ids (run_reports rs h) = reported False rs
    \<and> jh_state (run_reports rs h) = join_spec (jh_child_job_ids h) rs"
  using assms(5,6)
proof (induction rs rule: rev_induct)
  case Nil
  then show ?case using assms(1-3) by (simp add: join_spec_def)
next
  case (snoc r rs)
  obtain t c ok where r: "r = (t, c, ok)" by (cases r)
  let ?g = "run_reports rs h" and ?children = "jh_child_job_ids h"
  have c: "c \<notin> set (report_ids rs)" "c \<in> set ?children"
    and sub: "set (report_ids rs) \<subseteq> set ?children"
    using snoc.prems r by auto
  have IH: "jh_completed_ids ?g = reported True rs" "jh_failed_ids ?g = reported False rs"
      "jh_state ?g = join_spec ?children rs"
    using snoc r by auto
  have waiting: "jh_state ?g = JWaiting"
    using IH(3) c by (auto simp: join_spec_def)
  have cover: "set ?children \<subseteq> set (report_ids (rs @ [r]))
      \<longleftrightarrow> length ?children \<le> length (reported True rs) + length (reported False rs) + 1"
    using subset_iff_length [OF snoc.prems(1) assms(4) snoc.prems(2)] r
    by (simp add: length_report_ids)
  have new: "c \<notin> set (reported ok rs)" for ok
    using c(1) set_reported_subset by blast
  have full: "length (reported True rs) + 1 = length ?children \<longleftrightarrow>
      set ?children \<subseteq> set (report_ids (rs @ [r]))" if "reported False rs = []"
  proof -
    have "length (report_ids (rs @ [r])) \<le> length ?children"
      using snoc.prems by (metis card_mono distinct_card assms(4) finite_set)
    with cover that r show ?thesis by (auto simp: length_report_ids)
  qed
  show ?case
    using c IH waiting new cover full
    by (cases ok)
       (auto simp: r mark_child_completed_def mark_child_failed_def jh_advance_def Let_def
          is_ready_def all_succeeded_def join_spec_def)
qed

text \<open>C12: Fan-in is exact. For a fresh handle over distinct children and any sequence of
  reports that names each child at most once, the handle is \<open>COMPLETED\<close> exactly when every
  child was reported successful, \<open>FAILED\<close> exactly when every child was reported and one
  failed, and \<open>WAITING\<close> while a child is missing (and, for no children at all, always); the
  recorded ids are the reported ones.\<close>

theorem join_handle_refines_spec:
  assumes "distinct children"
    and "distinct (report_ids rs)" and "set (report_ids rs) \<subseteq> set children"
    and "h = run_reports rs (new_join_handle hid parent plan children strategy agent now)"
  shows "jh_state h = join_spec children rs
    \<and> jh_completed_ids h = reported True rs \<and> jh_failed_ids h = reported False rs"
  using run_reports_lists [of "new_join_handle hid parent plan children strategy agent now" rs]
    assms by (simp add: new_join_handle_def)

theorem join_handle_refines_spec_witness:
  "jh_state (run_reports [(5, ''a'', True), (6, ''b'', False)]
     (new_join_handle ''h'' ''p'' ''plan'' [''a'', ''b''] ''concat'' None 0)) = JFailed"
  using join_handle_refines_spec
    [of "[''a'', ''b'']" "[(5, ''a'', True), (6, ''b'', False)]" _ "''h''" "''p''" "''plan''"
        "''concat''" None 0, OF _ _ _ refl]
  by (simp add: report_ids_def reported_def join_spec_def)

end
