(* ===== verification/JobQueue.thy ===== *)
theory JobQueue
  imports Job "HOL-Library.Multiset"
begin

text \<open>
  The job queue of \<^verbatim>\<open>platform/queue/queue.py\<close>: the abstract \<open>Queue\<close> contract (FIFO with
  leases) as a locale, its consequences for any client, and the in-memory implementation
  that is the model's provider of it.
\<close>

subsection \<open>Dicts as multisets of values\<close>

lemma dict_del_mset:
  "dict_ok d \<Longrightarrow> dict_get d i = Some j \<Longrightarrow>
     mset (map snd d) = add_mset j (mset (map snd (dict_del d i)))"
proof (induction d)
  case Nil
  then show ?case by simp
next
  case (Cons kv d)
  obtain k v where kv: "kv = (k, v)" by (cases kv)
  show ?case
  proof (cases "k = i")
    case True
    with Cons.prems kv have "dict_del d i = d" by (simp add: dict_del_absent)
    with True Cons.prems kv show ?thesis by (simp add: dict_get_def dict_del_def)
  next
    case False
    then show ?thesis using Cons kv by (simp add: dict_get_def dict_del_def)
  qed
qed

subsection \<open>The contract\<close>

text \<open>
  \<open>waiting\<close> is what \<open>pop\<close> will return, oldest first; \<open>leased\<close> the jobs popped and not yet
  acknowledged, requeued or nacked, by id.
\<close>

datatype 'j queue_op = Push 'j | Pop | Ack string | Requeue string | Nack string

locale lease_queue =
  fixes push :: "'q \<Rightarrow> 'j \<Rightarrow> 'q"
    and pop :: "'q \<Rightarrow> 'j option \<times> 'q"
    and acknowledge requeue nack :: "'q \<Rightarrow> string \<Rightarrow> 'q"
    and waiting :: "'q \<Rightarrow> 'j list"
    and leased :: "'q \<Rightarrow> 'j pydict"
    and jid :: "'j \<Rightarrow> string"
  assumes push_waiting: "waiting (push q j) = waiting q @ [j]"
    and push_leased: "leased (push q j) = leased q"
    and pop_none: "waiting q = [] \<Longrightarrow> pop q = (None, q)"
    and pop_some: "waiting q = j # js \<Longrightarrow>
      fst (pop q) = Some j \<and> waiting (snd (pop q)) = js
      \<and> leased (snd (pop q)) = dict_set (leased q) (jid j) j"
    and ack_waiting: "waiting (acknowledge q i) = waiting q"
    and ack_leased: "leased (acknowledge q i) = dict_del (leased q) i"
    and requeue_hit: "dict_get (leased q) i = Some j \<Longrightarrow>
      waiting (requeue q i) = j # waiting q \<and> leased (requeue q i) = dict_del (leased q) i"
    and requeue_miss: "dict_get (leased q) i = None \<Longrightarrow> requeue q i = q"
    and nack_waiting: "waiting (nack q i) = waiting q"
    and nack_leased: "leased (nack q i) = dict_del (leased q) i"
begin

text \<open>All ids the queue is responsible for.\<close>

definition ids :: "'q \<Rightarrow> string list" where
  "ids q = map jid (waiting q) @ dict_keys (leased q)"

text \<open>The well-formedness the clients keep: ids are distinct and leases are keyed by id.\<close>

definition wf :: "'q \<Rightarrow> bool" where
  "wf q \<longleftrightarrow> distinct (ids q) \<and> (\<forall>kv \<in> set (leased q). jid (snd kv) = fst kv)"

definition held :: "'q \<Rightarrow> 'j multiset" where
  "held q = mset (waiting q) + mset (map snd (leased q))"

lemma push_wf: "wf q \<Longrightarrow> jid j \<notin> set (ids q) \<Longrightarrow> wf (push q j)"
  by (auto simp: wf_def ids_def push_waiting push_leased)

lemma push_held: "held (push q j) = add_mset j (held q)"
  by (simp add: held_def push_waiting push_leased)

lemma pop_wf_held:
  assumes "wf q" "waiting q = j # js"
  shows "wf (snd (pop q)) \<and> held (snd (pop q)) = held q"
proof -
  have fresh: "jid j \<notin> set (dict_keys (leased q))"
    using assms by (auto simp: wf_def ids_def)
  note p = pop_some [OF assms(2)]
  have "leased (snd (pop q)) = leased q @ [(jid j, j)]"
    using p dict_set_fresh [OF fresh] by simp
  then show ?thesis using assms p by (auto simp: wf_def ids_def held_def)
qed

text \<open>Releasing a lease, the part \<open>acknowledge\<close>, \<open>nack\<close> and \<open>requeue\<close> share.\<close>

lemma release_wf:
  assumes wf: "wf q" and w: "waiting q' = waiting q" and l: "leased q' = dict_del (leased q) i"
  shows "wf q'"
proof -
  have "distinct (ids q')"
    using wf unfolding wf_def ids_def w l dict_keys_del by auto
  moreover have "\<forall>kv \<in> set (leased q'). jid (snd kv) = fst kv"
    using wf set_dict_del [of "leased q" i] unfolding wf_def l by blast
  ultimately show ?thesis by (simp add: wf_def)
qed

lemma wf_leased_ok: "wf q \<Longrightarrow> dict_ok (leased q)"
  by (simp add: wf_def ids_def)

lemma release_held:
  assumes wf: "wf q" and w: "waiting q' = waiting q" and l: "leased q' = dict_del (leased q) i"
  shows "held q = held q' + (case dict_get (leased q) i of None \<Rightarrow> {#} | Some j \<Rightarrow> {#j#})"
proof (cases "dict_get (leased q) i")
  case None
  then have "dict_del (leased q) i = leased q" by (simp add: dict_del_absent dict_get_None_iff)
  with None show ?thesis by (simp add: held_def w l)
next
  case (Some j)
  with dict_del_mset [OF wf_leased_ok [OF wf] Some] show ?thesis
    by (simp add: held_def w l)
qed

lemma requeue_wf_held:
  assumes "wf q"
  shows "wf (requeue q i) \<and> held (requeue q i) = held q"
proof (cases "dict_get (leased q) i")
  case None
  with assms show ?thesis by (simp add: requeue_miss)
next
  case (Some j)
  note r = requeue_hit [OF Some]
  have mem: "(i, j) \<in> set (leased q)" using Some by (rule dict_get_SomeD)
  then have jid: "jid j = i" using assms unfolding wf_def by fastforce
  have "i \<in> set (dict_keys (leased q))" using Some by (rule dict_get_in_keys)
  then have notw: "i \<notin> jid ` set (waiting q)" using assms unfolding wf_def ids_def by auto
  have "distinct (ids (requeue q i))"
    using assms jid notw r unfolding wf_def ids_def by (auto simp: dict_keys_del)
  moreover have "\<forall>kv \<in> set (leased (requeue q i)). jid (snd kv) = fst kv"
    using assms set_dict_del [of "leased q" i] r unfolding wf_def by auto
  moreover have "held (requeue q i) = held q"
    using dict_del_mset [OF wf_leased_ok [OF assms] Some] r by (simp add: held_def)
  ultimately show ?thesis by (simp add: wf_def)
qed

text \<open>A run of operations, with the jobs pushed and the jobs released on the way.\<close>

fun run_op :: "'j queue_op \<Rightarrow> 'q \<Rightarrow> 'q" where
  "run_op (Push j) q = push q j"
| "run_op Pop q = snd (pop q)"
| "run_op (Ack i) q = acknowledge q i"
| "run_op (Requeue i) q = requeue q i"
| "run_op (Nack i) q = nack q i"

fun released :: "'j queue_op \<Rightarrow> 'q \<Rightarrow> 'j multiset" where
  "released (Ack i) q = (case dict_get (leased q) i of None \<Rightarrow> {#} | Some j \<Rightarrow> {#j#})"
| "released (Nack i) q = (case dict_get (leased q) i of None \<Rightarrow> {#} | Some j \<Rightarrow> {#j#})"
| "released _ q = {#}"

fun pushed :: "'j queue_op \<Rightarrow> 'j multiset" where
  "pushed (Push j) = {#j#}"
| "pushed _ = {#}"

fun fresh_ok :: "'j queue_op \<Rightarrow> 'q \<Rightarrow> bool" where
  "fresh_ok (Push j) q = (jid j \<notin> set (ids q))"
| "fresh_ok _ q = True"

lemma run_op_conserves:
  assumes "wf q" "fresh_ok x q"
  shows "wf (run_op x q) \<and> held (run_op x q) + released x q = held q + pushed x"
proof (cases x)
  case (Push j)
  with assms show ?thesis by (simp add: push_wf push_held)
next
  case Pop
  show ?thesis
  proof (cases "waiting q")
    case Nil
    with Pop assms show ?thesis by (simp add: pop_none)
  next
    case (Cons j js)
    with Pop assms show ?thesis by (simp add: pop_wf_held)
  qed
next
  case (Ack i)
  with assms release_wf [of q "acknowledge q i" i] release_held [of q "acknowledge q i" i]
  show ?thesis by (simp add: ack_waiting ack_leased)
next
  case (Requeue i)
  with assms show ?thesis by (simp add: requeue_wf_held)
next
  case (Nack i)
  with assms release_wf [of q "nack q i" i] release_held [of q "nack q i" i]
  show ?thesis by (simp add: nack_waiting nack_leased)
qed

text \<open>FIFO: what was pushed comes out in the order of the pushes.\<close>

fun pops :: "nat \<Rightarrow> 'q \<Rightarrow> 'j list" where
  "pops 0 q = []"
| "pops (Suc n) q =
     (case pop q of (None, _) \<Rightarrow> [] | (Some j, q') \<Rightarrow> j # pops n q')"

lemma pops_waiting: "pops n q = take n (waiting q)"
proof (induction n arbitrary: q)
  case 0
  then show ?case by simp
next
  case (Suc n)
  show ?case
  proof (cases "waiting q")
    case Nil
    then show ?thesis by (simp add: pop_none)
  next
    case (Cons j js)
    from pop_some [OF this] Suc Cons show ?thesis
      by (cases "pop q") (auto split: option.splits)
  qed
qed

lemma waiting_pushes: "waiting (fold (\<lambda>j q. push q j) js q) = waiting q @ js"
  by (induction js arbitrary: q) (simp_all add: push_waiting)

end

subsection \<open>The in-memory queue\<close>

record queue =
  q_items :: "job list"
  q_in_flight :: "job pydict"

definition empty_queue :: queue where
  "empty_queue = \<lparr>q_items = [], q_in_flight = []\<rparr>"

definition queue_push :: "queue \<Rightarrow> job \<Rightarrow> queue" where
  "queue_push q j = q\<lparr>q_items := q_items q @ [j]\<rparr>"

definition queue_pop :: "queue \<Rightarrow> job option \<times> queue" where
  "queue_pop q =
     (case q_items q of
        [] \<Rightarrow> (None, q)
      | j # js \<Rightarrow>
          (Some j, q\<lparr>q_items := js, q_in_flight := dict_set (q_in_flight q) (j_id j) j\<rparr>))"

definition queue_acknowledge :: "queue \<Rightarrow> string \<Rightarrow> queue" where
  "queue_acknowledge q i = q\<lparr>q_in_flight := dict_del (q_in_flight q) i\<rparr>"

definition queue_requeue :: "queue \<Rightarrow> string \<Rightarrow> queue" where
  "queue_requeue q i =
     (case dict_get (q_in_flight q) i of
        None \<Rightarrow> q
      | Some j \<Rightarrow> q\<lparr>q_in_flight := dict_del (q_in_flight q) i, q_items := j # q_items q\<rparr>)"

definition queue_nack :: "queue \<Rightarrow> string \<Rightarrow> queue" where
  "queue_nack q i = q\<lparr>q_in_flight := dict_del (q_in_flight q) i\<rparr>"

definition queue_len :: "queue \<Rightarrow> nat" where
  "queue_len q = length (q_items q)"

lemmas queue_defs =
  queue_push_def queue_pop_def queue_acknowledge_def queue_requeue_def queue_nack_def

interpretation mq: lease_queue queue_push queue_pop queue_acknowledge queue_requeue queue_nack
    q_items q_in_flight j_id
  by unfold_locales (auto simp: queue_defs)

text \<open>A run of operations on the in-memory queue.\<close>

fun queue_step :: "job queue_op \<Rightarrow> queue \<Rightarrow> queue" where
  "queue_step (Push j) q = queue_push q j"
| "queue_step Pop q = snd (queue_pop q)"
| "queue_step (Ack i) q = queue_acknowledge q i"
| "queue_step (Requeue i) q = queue_requeue q i"
| "queue_step (Nack i) q = queue_nack q i"

definition queue_run :: "job queue_op list \<Rightarrow> queue \<Rightarrow> queue" where
  "queue_run ops q = fold queue_step ops q"

definition queue_ids :: "queue \<Rightarrow> string list" where
  "queue_ids q = map j_id (q_items q) @ dict_keys (q_in_flight q)"

definition queue_held :: "queue \<Rightarrow> job multiset" where
  "queue_held q = mset (q_items q) + mset (map snd (q_in_flight q))"

text \<open>The jobs a run releases for good: those acknowledged or nacked while leased.\<close>

fun queue_released :: "job queue_op list \<Rightarrow> queue \<Rightarrow> job multiset" where
  "queue_released [] q = {#}"
| "queue_released (x # xs) q =
     (case x of
        Ack i \<Rightarrow> (case dict_get (q_in_flight q) i of None \<Rightarrow> {#} | Some j \<Rightarrow> {#j#})
      | Nack i \<Rightarrow> (case dict_get (q_in_flight q) i of None \<Rightarrow> {#} | Some j \<Rightarrow> {#j#})
      | _ \<Rightarrow> {#}) + queue_released xs (queue_step x q)"

fun queue_pushed :: "job queue_op list \<Rightarrow> job list" where
  "queue_pushed [] = []"
| "queue_pushed (Push j # xs) = j # queue_pushed xs"
| "queue_pushed (_ # xs) = queue_pushed xs"

text \<open>Every push of the run brings an id the queue does not hold at that moment.\<close>

fun queue_fresh :: "job queue_op list \<Rightarrow> queue \<Rightarrow> bool" where
  "queue_fresh [] q = True"
| "queue_fresh (x # xs) q =
     ((case x of Push j \<Rightarrow> j_id j \<notin> set (queue_ids q) | _ \<Rightarrow> True)
      \<and> queue_fresh xs (queue_step x q))"

lemma queue_step_eq: "queue_step x q = mq.run_op x q"
  by (cases x) simp_all

lemma queue_held_eq: "queue_held q = mq.held q"
  by (simp add: queue_held_def mq.held_def)

lemma queue_ids_eq: "queue_ids q = mq.ids q"
  by (simp add: queue_ids_def mq.ids_def)

lemma queue_run_conserves:
  "mq.wf q \<Longrightarrow> queue_fresh ops q \<Longrightarrow>
     queue_held (queue_run ops q) + queue_released ops q
       = queue_held q + mset (queue_pushed ops)"
proof (induction ops arbitrary: q)
  case Nil
  then show ?case by (simp add: queue_run_def)
next
  case (Cons x ops)
  have fresh: "mq.fresh_ok x q" and rest: "queue_fresh ops (mq.run_op x q)"
    using Cons.prems(2) by (cases x; simp add: queue_ids_eq queue_step_eq)+
  from mq.run_op_conserves [OF Cons.prems(1) fresh]
  have step: "mq.wf (mq.run_op x q)"
      "mq.held (mq.run_op x q) + mq.released x q = mq.held q + mq.pushed x" by simp_all
  have run: "queue_run (x # ops) q = queue_run ops (mq.run_op x q)"
    by (simp add: queue_run_def queue_step_eq)
  have pushed: "mset (queue_pushed (x # ops)) = mq.pushed x + mset (queue_pushed ops)"
    by (cases x) simp_all
  have rel: "queue_released (x # ops) q = mq.released x q + queue_released ops (mq.run_op x q)"
    by (cases x) (simp_all add: queue_step_eq [symmetric])
  have "queue_held (queue_run (x # ops) q) + queue_released (x # ops) q
      = (queue_held (queue_run ops (mq.run_op x q)) + queue_released ops (mq.run_op x q))
        + mq.released x q"
    unfolding run rel by (simp only: ac_simps)
  also have "\<dots> = mq.held (mq.run_op x q) + mset (queue_pushed ops) + mq.released x q"
    using Cons.IH [OF step(1) rest] by (simp add: queue_held_eq)
  also have "\<dots> = (mq.held q + mq.pushed x) + mset (queue_pushed ops)"
    using step(2) by (simp add: ac_simps flip: step(2))
  finally show ?case by (simp add: pushed queue_held_eq ac_simps)
qed

text \<open>C11: No job is lost or duplicated by the queue: over any run of pushes, pops,
  acknowledgements, requeues and nacks from the empty queue, in which each push brings an id
  not held at that moment, the jobs waiting or leased at the end, together with those
  acknowledged or nacked, are exactly the jobs pushed.\<close>

theorem queue_conservation:
  assumes "queue_fresh ops empty_queue"
  shows "queue_held (queue_run ops empty_queue) + queue_released ops empty_queue
    = mset (queue_pushed ops)"
proof -
  have "mq.wf empty_queue" by (simp add: mq.wf_def mq.ids_def empty_queue_def)
  from queue_run_conserves [OF this assms] show ?thesis
    by (simp add: queue_held_def empty_queue_def)
qed

definition sample_job :: "string \<Rightarrow> job" where
  "sample_job i = new_job i 0 sample_message"

lemma sample_job_id [simp]: "j_id (sample_job i) = i"
  by (simp add: sample_job_def new_job_def)

theorem queue_conservation_witness:
  "queue_held (queue_run [Push (sample_job ''a''), Push (sample_job ''b''), Pop, Requeue ''a'', Pop,
      Ack ''a''] empty_queue) + {#sample_job ''a''#}
    = {#sample_job ''a'', sample_job ''b''#}"
  using queue_conservation
    [of "[Push (sample_job ''a''), Push (sample_job ''b''), Pop, Requeue ''a'', Pop, Ack ''a'']"]
  by (simp add: queue_defs empty_queue_def queue_ids_def dict_set_def dict_del_def dict_get_def)

text \<open>Up to \<open>n\<close> pops in a row: the jobs they return.\<close>

fun queue_pops :: "nat \<Rightarrow> queue \<Rightarrow> job list" where
  "queue_pops 0 q = []"
| "queue_pops (Suc n) q =
     (case queue_pop q of (None, _) \<Rightarrow> [] | (Some j, q') \<Rightarrow> j # queue_pops n q')"

lemma queue_pops_eq: "queue_pops n q = mq.pops n q"
  by (induction n arbitrary: q) (auto split: option.splits prod.splits)

text \<open>The queue is first in, first out: after a run of pushes on any queue, popping
  returns the jobs that were waiting and then the pushed ones in the order of the pushes, and a
  popped job that is requeued is the next one popped.\<close>

lemma queue_fifo:
  "queue_pops n (queue_run (map Push js) q) = take n (q_items q @ js)
   \<and> fst (queue_pop (queue_requeue (snd (queue_pop (q\<lparr>q_items := j # js'\<rparr>))) (j_id j))) = Some j"
proof -
  have "queue_step (Push k) = (\<lambda>q. queue_push q k)" for k by (rule ext) simp
  then have "queue_run (map Push js) q = fold (\<lambda>j q. queue_push q j) js q"
    by (simp add: queue_run_def fold_map comp_def)
  then have "q_items (queue_run (map Push js) q) = q_items q @ js"
    by (simp add: mq.waiting_pushes)
  then show ?thesis
    by (simp add: queue_pops_eq mq.pops_waiting queue_pop_def queue_requeue_def)
qed

end
