(* ===== verification/Stores.thy ===== *)
theory Stores
  imports Job
begin

text \<open>
  The persistence contract of \<^verbatim>\<open>platform/runtime/job_store/job_store.py\<close> and
  \<^verbatim>\<open>join_store.py\<close> as a locale, and the in-memory stores that provide it
  (\<open>InMemoryJobStore\<close>, \<open>InMemoryJoinStore\<close>).  \<open>get\<close> returns a deep copy in the source, so a
  value here; the round trip of the execution context through \<open>to_dict\<close> and \<open>from_dict\<close> is
  the identity on the model's record.
\<close>

subsection \<open>The contract\<close>

locale keyed_store =
  fixes save :: "'s \<Rightarrow> 'v \<Rightarrow> 's"
    and get :: "'s \<Rightarrow> string \<Rightarrow> 'v option"
    and delete :: "'s \<Rightarrow> string \<Rightarrow> 's"
    and listing :: "'s \<Rightarrow> string list"
    and size_of :: "'s \<Rightarrow> nat"
    and key :: "'v \<Rightarrow> string"
    and wf :: "'s \<Rightarrow> bool"
  assumes get_save: "get (save s v) k = (if k = key v then Some v else get s k)"
    and get_delete: "get (delete s k) k' = (if k' = k then None else get s k')"
    and wf_save: "wf s \<Longrightarrow> wf (save s v)"
    and wf_delete: "wf s \<Longrightarrow> wf (delete s k)"
    and listing_set: "wf s \<Longrightarrow> set (listing s) = dom (get s)"
    and listing_distinct: "wf s \<Longrightarrow> distinct (listing s)"
    and size_listing: "wf s \<Longrightarrow> size_of s = length (listing s)"
    and keyed: "wf s \<Longrightarrow> get s k = Some v \<Longrightarrow> key v = k"
begin

lemma get_saved [simp]: "get (save s v) (key v) = Some v"
  by (simp add: get_save)

lemma get_fold_save:
  "get (fold (\<lambda>v s. save s v) vs s) k =
     (case find (\<lambda>v. key v = k) (rev vs) of Some v \<Rightarrow> Some v | None \<Rightarrow> get s k)"
proof (induction vs rule: rev_induct)
  case Nil
  then show ?case by simp
next
  case (snoc v vs)
  then show ?case by (simp add: get_save)
qed

lemma size_card: "wf s \<Longrightarrow> size_of s = card (dom (get s))"
  by (simp add: size_listing distinct_card listing_distinct flip: listing_set)

lemma finite_dom: "wf s \<Longrightarrow> finite (dom (get s))"
  by (simp flip: listing_set)

lemma size_save:
  assumes "wf s"
  shows "size_of (save s v) = (if get s (key v) = None then Suc (size_of s) else size_of s)"
proof -
  have "dom (get (save s v)) = insert (key v) (dom (get s))"
    by (auto simp: get_save split: if_splits)
  then show ?thesis
    using assms by (simp add: size_card wf_save finite_dom card_insert_if domIff)
qed

lemma size_delete:
  assumes "wf s"
  shows "size_of (delete s k) = (if get s k = None then size_of s else size_of s - 1)"
proof -
  have "dom (get (delete s k)) = dom (get s) - {k}"
    by (auto simp: get_delete split: if_splits)
  then show ?thesis
    using assms by (simp add: size_card wf_delete finite_dom card_Diff_singleton_if domIff)
qed

end

subsection \<open>The in-memory job store\<close>

type_synonym job_store = "job pydict"

definition job_save :: "job_store \<Rightarrow> job \<Rightarrow> job_store" where
  "job_save s j = dict_set s (j_id j) j"

definition job_get :: "job_store \<Rightarrow> string \<Rightarrow> job option" where
  "job_get s jid = dict_get s jid"

definition job_list :: "job_store \<Rightarrow> (string \<times> datetime) list" where
  "job_list s = map (\<lambda>(_, j). (j_id j, j_created_at j)) s"

definition job_delete :: "job_store \<Rightarrow> string \<Rightarrow> job_store" where
  "job_delete s jid = dict_del s jid"

definition job_store_len :: "job_store \<Rightarrow> nat" where
  "job_store_len s = length s"

text \<open>Every entry is stored under its own id, once.\<close>

definition job_store_ok :: "job_store \<Rightarrow> bool" where
  "job_store_ok s \<longleftrightarrow> dict_ok s \<and> (\<forall>kv \<in> set s. j_id (snd kv) = fst kv)"

lemma job_list_ids: "job_store_ok s \<Longrightarrow> map fst (job_list s) = dict_keys s"
  by (auto simp: job_store_ok_def job_list_def)

lemma job_save_ok: "job_store_ok s \<Longrightarrow> job_store_ok (job_save s j)"
  unfolding job_store_ok_def job_save_def using set_dict_set [of s "j_id j" j] by auto

lemma job_delete_ok: "job_store_ok s \<Longrightarrow> job_store_ok (job_delete s k)"
  unfolding job_store_ok_def job_delete_def using set_dict_del [of s k] by auto

lemma set_dict_keys_get: "set (dict_keys d) = dom (dict_get d)"
  by (rule set_eqI) (simp only: domIff dict_get_None_iff not_not)

interpretation jst: keyed_store job_save job_get job_delete "\<lambda>s. map fst (job_list s)"
    job_store_len j_id job_store_ok
proof unfold_locales
  fix s k v assume ok: "job_store_ok s" and "job_get s k = Some v"
  then have "(k, v) \<in> set s" by (simp add: job_get_def dict_get_SomeD)
  with ok show "j_id v = k" unfolding job_store_ok_def by fastforce
next
  fix s assume ok: "job_store_ok s"
  have "job_get s = dict_get s" by (rule ext) (simp add: job_get_def)
  with ok show "set (map fst (job_list s)) = dom (job_get s)"
    by (simp only: job_list_ids set_dict_keys_get)
  from ok show "distinct (map fst (job_list s))"
    by (simp only: job_list_ids) (simp add: job_store_ok_def)
qed (auto simp: job_save_def job_get_def job_delete_def job_store_len_def job_list_def
      intro: job_save_ok [unfolded job_save_def] job_delete_ok [unfolded job_delete_def])

subsection \<open>The in-memory join store\<close>

type_synonym join_store = "join_handle pydict"

definition join_save :: "join_store \<Rightarrow> join_handle \<Rightarrow> join_store" where
  "join_save s h = dict_set s (jh_id h) h"

definition join_get :: "join_store \<Rightarrow> string \<Rightarrow> join_handle option" where
  "join_get s hid = dict_get s hid"

definition join_list :: "join_store \<Rightarrow> (string \<times> datetime) list" where
  "join_list s = map (\<lambda>(_, h). (jh_id h, jh_created_at h)) s"

definition join_delete :: "join_store \<Rightarrow> string \<Rightarrow> join_store" where
  "join_delete s hid = dict_del s hid"

definition join_store_len :: "join_store \<Rightarrow> nat" where
  "join_store_len s = length s"

text \<open>The two atomic updates mutate the stored handle in place, under the store's lock.\<close>

definition record_child_completed :: "join_store \<Rightarrow> string \<Rightarrow> string \<Rightarrow> datetime \<Rightarrow> join_store" where
  "record_child_completed s hid cid now =
     (case dict_get s hid of
        None \<Rightarrow> s
      | Some h \<Rightarrow> dict_set s hid (mark_child_completed now cid h))"

definition record_child_failed :: "join_store \<Rightarrow> string \<Rightarrow> string \<Rightarrow> datetime \<Rightarrow> join_store" where
  "record_child_failed s hid cid now =
     (case dict_get s hid of
        None \<Rightarrow> s
      | Some h \<Rightarrow> dict_set s hid (mark_child_failed now cid h))"

definition join_store_ok :: "join_store \<Rightarrow> bool" where
  "join_store_ok s \<longleftrightarrow> dict_ok s \<and> (\<forall>kv \<in> set s. jh_id (snd kv) = fst kv)"

lemma join_list_ids: "join_store_ok s \<Longrightarrow> map fst (join_list s) = dict_keys s"
  by (auto simp: join_store_ok_def join_list_def)

lemma join_save_ok: "join_store_ok s \<Longrightarrow> join_store_ok (join_save s h)"
  unfolding join_store_ok_def join_save_def using set_dict_set [of s "jh_id h" h] by auto

lemma join_delete_ok: "join_store_ok s \<Longrightarrow> join_store_ok (join_delete s k)"
  unfolding join_store_ok_def join_delete_def using set_dict_del [of s k] by auto

interpretation hst: keyed_store join_save join_get join_delete "\<lambda>s. map fst (join_list s)"
    join_store_len jh_id join_store_ok
proof unfold_locales
  fix s k v assume ok: "join_store_ok s" and "join_get s k = Some v"
  then have "(k, v) \<in> set s" by (simp add: join_get_def dict_get_SomeD)
  with ok show "jh_id v = k" unfolding join_store_ok_def by fastforce
next
  fix s assume ok: "join_store_ok s"
  have "join_get s = dict_get s" by (rule ext) (simp add: join_get_def)
  with ok show "set (map fst (join_list s)) = dom (join_get s)"
    by (simp only: join_list_ids set_dict_keys_get)
  from ok show "distinct (map fst (join_list s))"
    by (simp only: join_list_ids) (simp add: join_store_ok_def)
qed (auto simp: join_save_def join_get_def join_delete_def join_store_len_def join_list_def
      intro: join_save_ok [unfolded join_save_def] join_delete_ok [unfolded join_delete_def])

text \<open>An atomic update is a read, the handle's own operation and a write back.\<close>

lemma record_child_eq_run_report:
  assumes "join_store_ok s"
  shows "(if ok then record_child_completed s hid cid now else record_child_failed s hid cid now)
    = (case join_get s hid of None \<Rightarrow> s | Some h \<Rightarrow> join_save s (run_report (now, cid, ok) h))"
proof (cases "join_get s hid")
  case None
  then show ?thesis by (simp add: record_child_completed_def record_child_failed_def join_get_def)
next
  case (Some h)
  then have "jh_id h = hid" using assms hst.keyed by blast
  moreover have "jh_id (mark_child_completed now cid h) = jh_id h"
    and "jh_id (mark_child_failed now cid h) = jh_id h"
    using run_report_frame(2) [of "(now, cid, True)" h] run_report_frame(2) [of "(now, cid, False)" h]
    by simp_all
  ultimately show ?thesis
    using Some
    by (simp add: record_child_completed_def record_child_failed_def join_get_def join_save_def)
qed

text \<open>The in-memory job store keeps its contract: after any sequence of saves, a lookup
  returns the last job saved under that id and otherwise what was there, the number of stored
  jobs grows exactly by the new ids, and deleting forgets one id and nothing else.\<close>

lemma job_store_contract:
  assumes "job_store_ok s"
  shows "job_get (fold (\<lambda>j s. job_save s j) js s) k =
      (case find (\<lambda>j. j_id j = k) (rev js) of Some j \<Rightarrow> Some j | None \<Rightarrow> job_get s k)
    \<and> job_store_len (job_save s j) =
        (if job_get s (j_id j) = None then Suc (job_store_len s) else job_store_len s)
    \<and> job_get (job_delete s k) k' = (if k' = k then None else job_get s k')
    \<and> job_store_len (job_delete s k) =
        (if job_get s k = None then job_store_len s else job_store_len s - 1)"
  using jst.get_fold_save jst.size_save [OF assms] jst.get_delete jst.size_delete [OF assms]
  by blast

lemma job_store_contract_example:
  "job_get (fold (\<lambda>j s. job_save s j)
     [new_job ''a'' 0 sample_message, new_job ''a'' 7 sample_message] []) ''a''
   = Some (new_job ''a'' 7 sample_message)"
  using job_store_contract
    [of "[]" "[new_job ''a'' 0 sample_message, new_job ''a'' 7 sample_message]" "''a''"]
  by (simp add: job_store_ok_def new_job_def)

end
