(* ===== verification/ControlPlane.thy ===== *)
theory ControlPlane
  imports JobQueue Stores
begin

text \<open>
  The runtime's shared state and its control plane,
  \<^verbatim>\<open>src/src/platform/runtime/control_plane.py\<close>: the only writer of job states.  Every
  operation takes the live job and the runtime state and returns both updated; the raising
  ones return the exception instead, and nothing has changed by then.  Metrics, traces and
  alerts sent to the observability layer are left out: no operation reads them back.
\<close>

subsection \<open>The runtime state\<close>

text \<open>
  The stores and the queue, with what the runtime does to the outside: the delays it slept,
  the number of executor calls, the messages sent to channels.
\<close>

record rt = env +
  rt_store :: job_store
  rt_joins :: join_store
  rt_queue :: queue
  rt_slept :: "rat list"
  rt_calls :: nat
  rt_sent :: "(string \<times> json) list"

definition sample_rt :: rt where
  "sample_rt =
     \<lparr>e_uuid = (\<lambda>n. ''u'' @ nat_digits n), e_uuid_n = 0, e_clock = int, e_tick = 0,
      e_float_fmt = (\<lambda>_ _. ''1.0''), e_isoformat = int_str, e_py_str = (\<lambda>_. ''...''),
      e_strftime = (\<lambda>fmt _. fmt), rt_store = [], rt_joins = [], rt_queue = empty_queue,
      rt_slept = [], rt_calls = 0, rt_sent = []\<rparr>"

subsection \<open>Operations\<close>

definition append_lifecycle_event ::
  "job \<Rightarrow> string \<Rightarrow> json pydict \<Rightarrow> 'a rt_scheme \<Rightarrow> job \<times> 'a rt_scheme"
where
  "append_lifecycle_event j ev payload w =
     (let (now, w) = utc_now w;
          j = j\<lparr>j_trace := j_trace j @ [Lifecycle now ev (JObj payload)]\<rparr>
      in (j, w\<lparr>rt_store := job_save (rt_store w) j\<rparr>))"

definition save_checkpoint :: "job \<Rightarrow> 'a rt_scheme \<Rightarrow> job \<times> 'a rt_scheme" where
  "save_checkpoint j w =
     (let (j, w) = append_lifecycle_event j ''dehydrate_execution_context'' [] w
      in (j, w\<lparr>rt_store := job_save (rt_store w) j\<rparr>))"

definition issue_resume_token :: "job \<Rightarrow> 'a rt_scheme \<Rightarrow> job \<times> 'a rt_scheme" where
  "issue_resume_token j w =
     (let (token, w) = new_uuid w in save_checkpoint (j\<lparr>j_resume_token := Some token\<rparr>) w)"

definition append_trace ::
  "job \<Rightarrow> job_state \<Rightarrow> job_state \<Rightarrow> 'a rt_scheme \<Rightarrow> job \<times> 'a rt_scheme"
where
  "append_trace j from_state to_state w =
     (let (now, w) = utc_now w
      in (j\<lparr>j_trace := j_trace j @ [StateTransition now from_state to_state]\<rparr>, w))"

definition register_job :: "job \<Rightarrow> 'a rt_scheme \<Rightarrow> (job \<times> 'a rt_scheme) result" where
  "register_job j w =
     (if j_state j \<noteq> PENDING
      then Inl (ValueError (''Cannot register job in state '' @ [CHR 0x27] @ state_value (j_state j)
             @ [CHR 0x27] @ ''; must be '' @ [CHR 0x27] @ state_value PENDING @ [CHR 0x27]))
      else Inr (save_checkpoint
             (if j_execution_context j = None
              then j\<lparr>j_execution_context := Some new_execution_context\<rparr> else j) w))"

definition mark_running :: "job \<Rightarrow> 'a rt_scheme \<Rightarrow> (job \<times> 'a rt_scheme) result" where
  "mark_running j w =
     (case transition (j_state j) RUNNING of
        Inl e \<Rightarrow> Inl e
      | Inr s \<Rightarrow>
          let (j, w) = append_trace (j\<lparr>j_state := s\<rparr>) (j_state j) RUNNING w
          in Inr (save_checkpoint j w))"

definition mark_succeeded :: "job \<Rightarrow> json \<Rightarrow> 'a rt_scheme \<Rightarrow> (job \<times> 'a rt_scheme) result" where
  "mark_succeeded j result w =
     (case transition (j_state j) SUCCEEDED of
        Inl e \<Rightarrow> Inl e
      | Inr s \<Rightarrow>
          let (j, w) = append_trace (j\<lparr>j_state := s, j_result := Some result\<rparr>) (j_state j)
                         SUCCEEDED w;
              (j, w) = save_checkpoint j w
          in Inr (issue_resume_token j w))"

definition mark_failed :: "job \<Rightarrow> json \<Rightarrow> 'a rt_scheme \<Rightarrow> (job \<times> 'a rt_scheme) result" where
  "mark_failed j error w =
     (case transition (j_state j) FAILED of
        Inl e \<Rightarrow> Inl e
      | Inr s \<Rightarrow>
          let (j, w) = append_trace (j\<lparr>j_state := s, j_result := Some error\<rparr>) (j_state j)
                         FAILED w;
              (j, w) = save_checkpoint j w
          in Inr (issue_resume_token j w))"

definition mark_poison :: "job \<Rightarrow> string \<Rightarrow> 'a rt_scheme \<Rightarrow> (job \<times> 'a rt_scheme) result" where
  "mark_poison j reason w =
     (case transition (j_state j) POISON of
        Inl e \<Rightarrow> Inl e
      | Inr s \<Rightarrow>
          let result = JObj [(''error'', JStr reason), (''poison'', JBool True)];
              (j, w) = append_trace (j\<lparr>j_state := s, j_result := Some result\<rparr>) (j_state j)
                         POISON w
          in Inr (save_checkpoint j w))"

definition append_cycle_trace ::
  "job \<Rightarrow> string \<Rightarrow> json pydict \<Rightarrow> 'a rt_scheme \<Rightarrow> job \<times> 'a rt_scheme"
where
  "append_cycle_trace j ev payload w =
     (let xc = (case j_execution_context j of None \<Rightarrow> new_execution_context | Some xc \<Rightarrow> xc);
          (now, w) = utc_now w;
          xc = xc\<lparr>xc_cycle_trace := xc_cycle_trace xc @ [(now, ev, JObj payload)]\<rparr>
      in save_checkpoint (j\<lparr>j_execution_context := Some xc\<rparr>) w)"

lemmas cp_defs = append_lifecycle_event_def save_checkpoint_def issue_resume_token_def
  append_trace_def register_job_def mark_running_def mark_succeeded_def mark_failed_def
  mark_poison_def append_cycle_trace_def

subsection \<open>What an operation may do\<close>

text \<open>
  \<open>cp_step ts j w j' w'\<close>: the operation recorded the transitions \<open>ts\<close> in the job's trace,
  stored the job it returns, touched no other entry of the store and nothing else of the
  runtime, and kept the job's identity and counters.
\<close>

definition cp_step ::
  "(job_state \<times> job_state) list \<Rightarrow> job \<Rightarrow> 'a rt_scheme \<Rightarrow> job \<Rightarrow> 'a rt_scheme \<Rightarrow> bool"
where
  "cp_step ts j w j' w' \<longleftrightarrow>
     j_id j' = j_id j
     \<and> trace_transitions (j_trace j') = trace_transitions (j_trace j) @ ts
     \<and> j_state j' = (if ts = [] then j_state j else snd (last ts))
     \<and> (\<forall>k. job_get (rt_store w') k = (if k = j_id j then Some j' else job_get (rt_store w) k))
     \<and> rt_joins w' = rt_joins w \<and> rt_queue w' = rt_queue w \<and> rt_slept w' = rt_slept w
     \<and> rt_calls w' = rt_calls w \<and> rt_sent w' = rt_sent w
     \<and> j_failure_count j' = j_failure_count j
     \<and> j_consecutive_failures j' = j_consecutive_failures j
     \<and> j_panic_count j' = j_panic_count j \<and> j_crash_count j' = j_crash_count j
     \<and> j_depends_on j' = j_depends_on j \<and> j_payload j' = j_payload j"

lemma cp_step_trans:
  "cp_step ts j w j1 w1 \<Longrightarrow> cp_step us j1 w1 j2 w2 \<Longrightarrow> cp_step (ts @ us) j w j2 w2"
  by (auto simp: cp_step_def)

lemma cp_step_quiet_right:
  "cp_step ts j w j1 w1 \<Longrightarrow> cp_step [] j1 w1 j2 w2 \<Longrightarrow> cp_step ts j w j2 w2"
  using cp_step_trans [of ts j w j1 w1 "[]"] by simp

lemma append_lifecycle_event_step:
  "append_lifecycle_event j ev p w = (j', w') \<Longrightarrow>
     cp_step [] j w j' w' \<and> j_execution_context j' = j_execution_context j
     \<and> j_resume_token j' = j_resume_token j \<and> j_result j' = j_result j"
  by (auto simp: append_lifecycle_event_def utc_now_def Let_def cp_step_def jst.get_save)

lemma save_checkpoint_step:
  "save_checkpoint j w = (j', w') \<Longrightarrow>
     cp_step [] j w j' w' \<and> j_execution_context j' = j_execution_context j
     \<and> j_resume_token j' = j_resume_token j \<and> j_result j' = j_result j"
  by (auto simp: save_checkpoint_def append_lifecycle_event_def utc_now_def Let_def cp_step_def
      jst.get_save)

lemma issue_resume_token_step:
  "issue_resume_token j w = (j', w') \<Longrightarrow>
     cp_step [] j w j' w' \<and> j_execution_context j' = j_execution_context j
     \<and> j_resume_token j' = Some (fst (new_uuid w)) \<and> j_result j' = j_result j"
  by (auto simp: issue_resume_token_def save_checkpoint_def append_lifecycle_event_def utc_now_def
      new_uuid_def Let_def cp_step_def jst.get_save)

lemma append_cycle_trace_step:
  "append_cycle_trace j ev p w = (j', w') \<Longrightarrow>
     cp_step [] j w j' w' \<and> j_execution_context j' \<noteq> None
     \<and> j_resume_token j' = j_resume_token j \<and> j_result j' = j_result j"
  by (auto simp: append_cycle_trace_def save_checkpoint_def append_lifecycle_event_def utc_now_def
      Let_def cp_step_def jst.get_save)

lemma register_job_step:
  assumes "register_job j w = Inr (j', w')"
  shows "j_state j = PENDING \<and> cp_step [] j w j' w' \<and> j_execution_context j' \<noteq> None"
proof -
  define j0 where "j0 = (if j_execution_context j = None
    then j\<lparr>j_execution_context := Some new_execution_context\<rparr> else j)"
  have s: "save_checkpoint j0 w = (j', w')" and p: "j_state j = PENDING"
    using assms by (auto simp: register_job_def j0_def split: if_splits)
  have "cp_step [] j0 w j' w'" and "j_execution_context j' = j_execution_context j0"
    using save_checkpoint_step [OF s] by simp_all
  moreover have "cp_step [] j0 w j' w' = cp_step [] j w j' w'"
    by (simp add: cp_step_def j0_def)
  moreover have "j_execution_context j0 \<noteq> None" by (simp add: j0_def)
  ultimately show ?thesis using p by simp
qed

lemma append_trace_eq:
  "append_trace j a b w =
     (j\<lparr>j_trace := j_trace j @ [StateTransition (e_clock w (e_tick w)) a b]\<rparr>,
      w\<lparr>e_tick := Suc (e_tick w)\<rparr>)"
  by (simp add: append_trace_def utc_now_def)

lemma append_trace_then_quiet:
  assumes "append_trace (j\<lparr>j_state := t, j_result := r\<rparr>) (j_state j) t w = (j1, w1)"
    and q: "cp_step [] j1 w1 j2 w2"
  shows "cp_step [(j_state j, t)] j w j2 w2"
proof -
  from assms(1) have j1: "j1 = j\<lparr>j_state := t, j_result := r,
        j_trace := j_trace j @ [StateTransition (e_clock w (e_tick w)) (j_state j) t]\<rparr>"
    and w1: "w1 = w\<lparr>e_tick := Suc (e_tick w)\<rparr>"
    by (simp_all add: append_trace_eq)
  from q show ?thesis unfolding j1 w1 cp_step_def by simp
qed

lemma mark_running_step:
  assumes "mark_running j w = Inr (j', w')"
  shows "j_state j = PENDING \<and> cp_step [(j_state j, RUNNING)] j w j' w'
    \<and> j_execution_context j' = j_execution_context j \<and> j_resume_token j' = j_resume_token j"
proof -
  obtain j1 w1 where a: "append_trace (j\<lparr>j_state := RUNNING\<rparr>) (j_state j) RUNNING w = (j1, w1)"
    by (metis surj_pair)
  with assms have s: "save_checkpoint j1 w1 = (j', w')" and ok: "j_state j = PENDING"
    by (auto simp: mark_running_def Let_def into_running split: sum.splits)
  have "cp_step [(j_state j, RUNNING)] j w j' w'"
    using append_trace_then_quiet [where j = j and r = "j_result j" and t = RUNNING and w = w] a
      save_checkpoint_step [OF s] by simp
  with a ok save_checkpoint_step [OF s] show ?thesis
    by (auto simp: append_trace_def utc_now_def Let_def)
qed

lemma mark_succeeded_step:
  assumes "mark_succeeded j r w = Inr (j', w')"
  shows "j_state j = RUNNING \<and> cp_step [(j_state j, SUCCEEDED)] j w j' w' \<and> j_result j' = Some r"
proof -
  obtain j1 w1 where a: "append_trace (j\<lparr>j_state := SUCCEEDED, j_result := Some r\<rparr>) (j_state j)
      SUCCEEDED w = (j1, w1)" by (metis surj_pair)
  obtain j2 w2 where s: "save_checkpoint j1 w1 = (j2, w2)" by (metis surj_pair)
  from assms a s have i: "issue_resume_token j2 w2 = (j', w')" and ok: "can_transition (j_state j) SUCCEEDED"
    by (auto simp: mark_succeeded_def Let_def split: sum.splits)
  note q = save_checkpoint_step [OF s] issue_resume_token_step [OF i]
  have "cp_step [(j_state j, SUCCEEDED)] j w j' w'"
    using append_trace_then_quiet [OF a] cp_step_quiet_right q by blast
  moreover have "j_state j = RUNNING" using ok into_success_or_poison by blast
  ultimately show ?thesis using q a by (auto simp: append_trace_def utc_now_def Let_def)
qed

lemma mark_failed_step:
  assumes "mark_failed j r w = Inr (j', w')"
  shows "j_state j \<in> {PENDING, RUNNING, BLOCKED}
    \<and> cp_step [(j_state j, FAILED)] j w j' w' \<and> j_result j' = Some r"
proof -
  obtain j1 w1 where a: "append_trace (j\<lparr>j_state := FAILED, j_result := Some r\<rparr>) (j_state j)
      FAILED w = (j1, w1)" by (metis surj_pair)
  obtain j2 w2 where s: "save_checkpoint j1 w1 = (j2, w2)" by (metis surj_pair)
  from assms a s have i: "issue_resume_token j2 w2 = (j', w')" and ok: "can_transition (j_state j) FAILED"
    by (auto simp: mark_failed_def Let_def split: sum.splits)
  note q = save_checkpoint_step [OF s] issue_resume_token_step [OF i]
  have "cp_step [(j_state j, FAILED)] j w j' w'"
    using append_trace_then_quiet [OF a] cp_step_quiet_right q by blast
  moreover have "j_state j \<in> {PENDING, RUNNING, BLOCKED}"
    using ok by (cases "j_state j") (auto simp: can_transition_cases)
  ultimately show ?thesis using q a by (auto simp: append_trace_def utc_now_def Let_def)
qed

lemma mark_poison_step:
  assumes "mark_poison j reason w = Inr (j', w')"
  shows "j_state j = RUNNING \<and> cp_step [(j_state j, POISON)] j w j' w'"
proof -
  let ?r = "JObj [(''error'', JStr reason), (''poison'', JBool True)]"
  obtain j1 w1 where a: "append_trace (j\<lparr>j_state := POISON, j_result := Some ?r\<rparr>) (j_state j)
      POISON w = (j1, w1)" by (metis surj_pair)
  from assms a have s: "save_checkpoint j1 w1 = (j', w')" and ok: "can_transition (j_state j) POISON"
    by (auto simp: mark_poison_def Let_def split: sum.splits)
  have "cp_step [(j_state j, POISON)] j w j' w'"
    using append_trace_then_quiet [OF a] save_checkpoint_step [OF s] by blast
  moreover have "j_state j = RUNNING" using ok into_success_or_poison by blast
  ultimately show ?thesis by blast
qed

text \<open>An operation raises exactly when the transition table forbids its target.\<close>

lemma mark_raises:
  "mark_running j w = Inl e \<longleftrightarrow>
     \<not> can_transition (j_state j) RUNNING \<and> e = illegal_transition (j_state j) RUNNING"
  "mark_succeeded j r w = Inl e \<longleftrightarrow>
     \<not> can_transition (j_state j) SUCCEEDED \<and> e = illegal_transition (j_state j) SUCCEEDED"
  "mark_failed j r w = Inl e \<longleftrightarrow>
     \<not> can_transition (j_state j) FAILED \<and> e = illegal_transition (j_state j) FAILED"
  "mark_poison j s w = Inl e \<longleftrightarrow>
     \<not> can_transition (j_state j) POISON \<and> e = illegal_transition (j_state j) POISON"
  by (auto simp: mark_running_def mark_succeeded_def mark_failed_def mark_poison_def Let_def
      split: sum.splits prod.splits)

subsection \<open>Runs of the control plane\<close>

text \<open>
  Replaying a trace: each recorded transition must start where the previous one ended and be
  allowed.  \<open>trace_ok\<close>: the trace replays from \<open>PENDING\<close> to the job's state.
\<close>

fun trace_replay :: "job_state \<Rightarrow> (job_state \<times> job_state) list \<Rightarrow> job_state option" where
  "trace_replay s [] = Some s"
| "trace_replay s ((a, b) # ts) = (if a = s \<and> can_transition a b then trace_replay b ts else None)"

definition trace_ok :: "job \<Rightarrow> bool" where
  "trace_ok j \<longleftrightarrow> trace_replay PENDING (trace_transitions (j_trace j)) = Some (j_state j)"

lemma trace_replay_append:
  "trace_replay s (ts @ us) =
     (case trace_replay s ts of None \<Rightarrow> None | Some t \<Rightarrow> trace_replay t us)"
  by (induction s ts rule: trace_replay.induct) auto

lemma trace_replay_history:
  "trace_replay s ts = Some t \<Longrightarrow>
     successively can_transition (s # map snd ts) \<and> last (s # map snd ts) = t"
  by (induction s ts rule: trace_replay.induct) (auto split: if_splits)

lemma trace_ok_quiet: "cp_step [] j w j' w' \<Longrightarrow> trace_ok j' = trace_ok j"
  by (simp add: cp_step_def trace_ok_def)

lemma trace_ok_move:
  "cp_step [(j_state j, t)] j w j' w' \<Longrightarrow> can_transition (j_state j) t \<Longrightarrow> trace_ok j
   \<Longrightarrow> trace_ok j'"
  by (simp add: cp_step_def trace_ok_def trace_replay_append)

datatype cp_op =
    Register | MarkRunning | MarkSucceeded json | MarkFailed json | MarkPoison string
  | Checkpoint | IssueToken | LifecycleEvent string "json pydict" | CycleTrace string "json pydict"

fun cp_apply :: "cp_op \<Rightarrow> job \<Rightarrow> rt \<Rightarrow> (job \<times> rt) result" where
  "cp_apply Register j w = register_job j w"
| "cp_apply MarkRunning j w = mark_running j w"
| "cp_apply (MarkSucceeded r) j w = mark_succeeded j r w"
| "cp_apply (MarkFailed r) j w = mark_failed j r w"
| "cp_apply (MarkPoison s) j w = mark_poison j s w"
| "cp_apply Checkpoint j w = Inr (save_checkpoint j w)"
| "cp_apply IssueToken j w = Inr (issue_resume_token j w)"
| "cp_apply (LifecycleEvent ev p) j w = Inr (append_lifecycle_event j ev p w)"
| "cp_apply (CycleTrace ev p) j w = Inr (append_cycle_trace j ev p w)"

text \<open>A caller that goes on after an exception: the job and the runtime are as they were.\<close>

fun cp_run :: "cp_op list \<Rightarrow> job \<times> rt \<Rightarrow> job \<times> rt" where
  "cp_run [] s = s"
| "cp_run (x # xs) (j, w) =
     (case cp_apply x j w of Inl _ \<Rightarrow> cp_run xs (j, w) | Inr s \<Rightarrow> cp_run xs s)"

lemma cp_apply_step:
  assumes "cp_apply x j w = Inr (j', w')"
  shows "\<exists>ts. cp_step ts j w j' w' \<and> (ts = [] \<or> (\<exists>t. ts = [(j_state j, t)]
    \<and> can_transition (j_state j) t))"
proof (cases x)
  case Register
  with assms show ?thesis using register_job_step by fastforce
next
  case MarkRunning
  with assms mark_running_step [of j w j' w'] show ?thesis
    by (auto simp: into_running intro!: exI [of _ "[(j_state j, RUNNING)]"])
next
  case (MarkSucceeded r)
  with assms mark_succeeded_step [of j r w j' w'] show ?thesis
    by (auto simp: after_running job_terminal_def intro!: exI [of _ "[(RUNNING, SUCCEEDED)]"])
next
  case (MarkFailed r)
  with assms mark_failed_step [of j r w j' w'] show ?thesis
    by (auto simp: can_transition_cases intro!: exI [of _ "[(j_state j, FAILED)]"])
next
  case (MarkPoison s)
  with assms mark_poison_step [of j s w j' w'] show ?thesis
    by (auto simp: after_running job_terminal_def intro!: exI [of _ "[(RUNNING, POISON)]"])
next
  case Checkpoint
  with assms save_checkpoint_step [of j w j' w'] show ?thesis by auto
next
  case IssueToken
  with assms issue_resume_token_step [of j w j' w'] show ?thesis by auto
next
  case (LifecycleEvent ev p)
  with assms append_lifecycle_event_step [of j ev p w j' w'] show ?thesis by auto
next
  case (CycleTrace ev p)
  with assms append_cycle_trace_step [of j ev p w j' w'] show ?thesis by auto
qed

lemma cp_run_invariant:
  assumes "trace_ok j" "job_get (rt_store w) (j_id j) = Some j"
  shows "trace_ok (fst (cp_run xs (j, w)))
    \<and> j_id (fst (cp_run xs (j, w))) = j_id j
    \<and> (\<forall>k. job_get (rt_store (snd (cp_run xs (j, w)))) k =
           (if k = j_id j then Some (fst (cp_run xs (j, w))) else job_get (rt_store w) k))"
  using assms
proof (induction xs arbitrary: j w)
  case Nil
  then show ?case by simp
next
  case (Cons x xs)
  show ?case
  proof (cases "cp_apply x j w")
    case (Inl e)
    with Cons show ?thesis by simp
  next
    case (Inr s)
    obtain j1 w1 where s: "s = (j1, w1)" by (cases s)
    with Inr cp_apply_step obtain ts where ts: "cp_step ts j w j1 w1"
        "ts = [] \<or> (\<exists>t. ts = [(j_state j, t)] \<and> can_transition (j_state j) t)" by blast
    then have "trace_ok j1"
      using trace_ok_quiet trace_ok_move Cons.prems(1) by blast
    moreover have id: "j_id j1 = j_id j"
      and st: "job_get (rt_store w1) k = (if k = j_id j then Some j1 else job_get (rt_store w) k)" for k
      using ts(1) by (simp_all add: cp_step_def)
    ultimately have "trace_ok (fst (cp_run xs (j1, w1)))
        \<and> j_id (fst (cp_run xs (j1, w1))) = j_id j1
        \<and> (\<forall>k. job_get (rt_store (snd (cp_run xs (j1, w1)))) k =
           (if k = j_id j1 then Some (fst (cp_run xs (j1, w1))) else job_get (rt_store w1) k))"
      by (intro Cons.IH) simp_all
    with id st Inr s show ?thesis by simp
  qed
qed

text \<open>C2: The control plane keeps the job's history sound: from a registered job, whatever
  sequence of control-plane calls follows (the refused ones raise and change nothing), the
  trace replays the state machine from \<open>PENDING\<close> to the job's current state, so it enters
  \<open>RUNNING\<close> at most once; the store holds exactly the live job under its id, and no other
  entry of the store changes.\<close>

theorem control_plane_trace_sound:
  assumes "register_job (new_job jid now msg) w = Inr (j0, w0)"
    and "cp_run ops (j0, w0) = (j, w')"
  shows "trace_ok j
    \<and> count_list (PENDING # map snd (trace_transitions (j_trace j))) RUNNING \<le> 1
    \<and> (\<forall>k. job_get (rt_store w') k = (if k = jid then Some j else job_get (rt_store w) k))"
proof -
  note r = register_job_step [OF assms(1)]
  then have j0: "trace_ok j0" "j_id j0 = jid"
      and st: "job_get (rt_store w0) k = (if k = jid then Some j0 else job_get (rt_store w) k)" for k
    using trace_ok_quiet [of "new_job jid now msg" w j0 w0]
    by (auto simp: cp_step_def trace_ok_def new_job_def)
  have inv: "trace_ok j" "\<forall>k. job_get (rt_store w') k =
      (if k = jid then Some j else job_get (rt_store w0) k)"
    using cp_run_invariant [OF j0(1), of w0 ops] assms(2) j0(2) st [of jid] by simp_all
  moreover have "count_list (PENDING # map snd (trace_transitions (j_trace j))) RUNNING \<le> 1"
    using inv(1) trace_replay_history history_running_once unfolding trace_ok_def by blast
  ultimately show ?thesis using st by simp
qed

theorem control_plane_trace_sound_witness:
  "trace_ok (fst (cp_run [MarkRunning, MarkRunning, CycleTrace ''cycle_start'' [],
      MarkSucceeded (JObj [])] (projr (register_job (sample_job ''a'') sample_rt))))"
proof -
  obtain j0 w0 where r: "register_job (sample_job ''a'') sample_rt = Inr (j0, w0)"
    by (simp add: register_job_def sample_job_def new_job_def)
      (metis surj_pair)
  obtain j w' where "cp_run [MarkRunning, MarkRunning, CycleTrace ''cycle_start'' [],
      MarkSucceeded (JObj [])] (j0, w0) = (j, w')" by (metis surj_pair)
  with control_plane_trace_sound [OF r [unfolded sample_job_def] this] r show ?thesis by simp
qed

subsection \<open>Worker heartbeats\<close>

text \<open>
  The liveness monitor of \<^verbatim>\<open>heartbeat/control_plane.py\<close> and its event; timestamps are seconds.
\<close>

record heartbeat_event =
  he_worker_id :: string
  he_timestamp :: rat
  he_active_job_id :: "string option"
  he_cycles_completed :: int
  he_health :: string

record heartbeat_status =
  hs_worker_id :: string
  hs_last_seen :: rat
  hs_is_healthy :: bool
  hs_reason :: string

record heartbeat_monitor =
  hm_timeout :: rat
  hm_last_seen :: "rat pydict"

definition heartbeat_reason :: "'a env_scheme \<Rightarrow> rat \<Rightarrow> rat \<Rightarrow> string" where
  "heartbeat_reason e elapsed limit =
     (if elapsed \<le> limit then ''ok''
      else ''last_seen '' @ e_float_fmt e ''.1f'' elapsed @ ''s ago (timeout ''
        @ e_float_fmt e [] limit @ ''s)'')"

definition heartbeat_update ::
  "'a env_scheme \<Rightarrow> heartbeat_monitor \<Rightarrow> heartbeat_event \<Rightarrow> rat option
   \<Rightarrow> heartbeat_status \<times> heartbeat_monitor"
where
  "heartbeat_update e m event now =
     (let m = m\<lparr>hm_last_seen := dict_set (hm_last_seen m) (he_worker_id event) (he_timestamp event)\<rparr>;
          reference = (case now of Some t \<Rightarrow> t | None \<Rightarrow> he_timestamp event);
          elapsed = reference - he_timestamp event
      in (\<lparr>hs_worker_id = he_worker_id event, hs_last_seen = he_timestamp event,
           hs_is_healthy = (elapsed \<le> hm_timeout m),
           hs_reason = heartbeat_reason e elapsed (hm_timeout m)\<rparr>, m))"

definition heartbeat_evaluate :: "'a env_scheme \<Rightarrow> heartbeat_monitor \<Rightarrow> rat \<Rightarrow> heartbeat_status list" where
  "heartbeat_evaluate e m now =
     map (\<lambda>(worker_id, last).
            let elapsed = now - last
            in \<lparr>hs_worker_id = worker_id, hs_last_seen = last,
                hs_is_healthy = (elapsed \<le> hm_timeout m),
                hs_reason = heartbeat_reason e elapsed (hm_timeout m)\<rparr>)
       (hm_last_seen m)"

definition accept_heartbeat ::
  "'a env_scheme \<Rightarrow> heartbeat_monitor option \<Rightarrow> heartbeat_event \<Rightarrow> rat option
   \<Rightarrow> heartbeat_status option \<times> heartbeat_monitor option"
where
  "accept_heartbeat e m event now =
     (case m of
        None \<Rightarrow> (None, None)
      | Some m \<Rightarrow> let (st, m) = heartbeat_update e m event now in (Some st, Some m))"

text \<open>The last beat of each worker, as a function of the sequence of events.\<close>

definition last_beat :: "heartbeat_event list \<Rightarrow> string \<Rightarrow> rat option" where
  "last_beat es k = map_option he_timestamp (find (\<lambda>e. he_worker_id e = k) (rev es))"

lemma heartbeat_last_seen:
  "dict_get (hm_last_seen (fold (\<lambda>ev m. snd (heartbeat_update e m ev None)) es m)) k =
     (case last_beat es k of Some t \<Rightarrow> Some t | None \<Rightarrow> dict_get (hm_last_seen m) k)"
  by (induction es rule: rev_induct) (auto simp: last_beat_def heartbeat_update_def Let_def)

lemma heartbeat_fold_frame:
  "hm_timeout (fold (\<lambda>ev m. snd (heartbeat_update e m ev None)) es m) = hm_timeout m
   \<and> (dict_ok (hm_last_seen m) \<longrightarrow>
      dict_ok (hm_last_seen (fold (\<lambda>ev m. snd (heartbeat_update e m ev None)) es m)))"
  by (induction es rule: rev_induct) (auto simp: heartbeat_update_def Let_def)

text \<open>The heartbeat monitor reports by the last beat only: after any sequence of events on
  a fresh monitor, evaluation lists each worker that ever beat exactly once, and calls it
  healthy exactly when its last beat is at most the timeout old.\<close>

lemma heartbeat_evaluate_spec:
  assumes "m = fold (\<lambda>ev m. snd (heartbeat_update e m ev None)) es
      \<lparr>hm_timeout = limit, hm_last_seen = []\<rparr>"
  shows "distinct (map hs_worker_id (heartbeat_evaluate e m now))
    \<and> set (map (\<lambda>s. (hs_worker_id s, hs_last_seen s, hs_is_healthy s)) (heartbeat_evaluate e m now))
      = {(k, t, now - t \<le> limit) | k t. last_beat es k = Some t}"
proof -
  have get: "dict_get (hm_last_seen m) k = last_beat es k" for k
    using heartbeat_last_seen [of e es "\<lparr>hm_timeout = limit, hm_last_seen = []\<rparr>" k] assms
    by (simp split: option.splits)
  have lim: "hm_timeout m = limit" and ok: "dict_ok (hm_last_seen m)"
    using heartbeat_fold_frame [of e es "\<lparr>hm_timeout = limit, hm_last_seen = []\<rparr>"] assms by simp_all
  have names: "map hs_worker_id (heartbeat_evaluate e m now) = dict_keys (hm_last_seen m)"
    by (auto simp: heartbeat_evaluate_def Let_def)
  have verdicts: "map (\<lambda>s. (hs_worker_id s, hs_last_seen s, hs_is_healthy s)) (heartbeat_evaluate e m now)
      = map (\<lambda>(k, t). (k, t, now - t \<le> limit)) (hm_last_seen m)"
    by (auto simp: heartbeat_evaluate_def Let_def lim)
  have "set (hm_last_seen m) = {(k, t). last_beat es k = Some t}"
    using dict_get_Some_iff [OF ok] get by auto
  then show ?thesis unfolding names verdicts using ok by (auto simp: image_iff)
qed

lemma heartbeat_evaluate_spec_example:
  "(''w'', 3, False) \<in> set (map (\<lambda>s. (hs_worker_id s, hs_last_seen s, hs_is_healthy s))
     (heartbeat_evaluate sample_rt
       (fold (\<lambda>ev m. snd (heartbeat_update sample_rt m ev None))
          [\<lparr>he_worker_id = ''w'', he_timestamp = 3, he_active_job_id = None,
            he_cycles_completed = 0, he_health = ''ok''\<rparr>]
          \<lparr>hm_timeout = 5, hm_last_seen = []\<rparr>) 9))"
  using heartbeat_evaluate_spec [OF refl, of sample_rt
      "[\<lparr>he_worker_id = ''w'', he_timestamp = 3, he_active_job_id = None,
            he_cycles_completed = 0, he_health = ''ok''\<rparr>]" 5 9]
  by (simp only: last_beat_def) simp

end
