(* ===== verification/Retry.thy ===== *)
theory Retry
  imports ControlPlane
begin

text \<open>
  The pure evaluators around one execution attempt: the retry policy and the poison detector
  (\<^verbatim>\<open>runtime/retry/policy.py\<close>, \<^verbatim>\<open>poison.py\<close>), the wrapper that applies them to the outcome of a
  call (\<^verbatim>\<open>tool_wrapper.py\<close>), the panic guard (\<^verbatim>\<open>safety/panic_guard.py\<close>) and the crash-recovery
  evaluator (\<^verbatim>\<open>recovery/crash_recovery.py\<close>).
\<close>

subsection \<open>Retry policy\<close>

record retry_decision =
  rd_should_retry :: bool
  rd_delay_seconds :: "rat option"

record retry_context =
  rc_attempt :: int
  rc_error_type :: string

record retry_rule =
  rr_max_attempts :: int
  rr_base_delay :: rat

type_synonym retry_policy = "retry_rule pydict"

definition DEFAULT_RETRY_RULES :: retry_policy where
  "DEFAULT_RETRY_RULES =
     [(''TransientNetworkError'', \<lparr>rr_max_attempts = 3, rr_base_delay = 1\<rparr>),
      (''RateLimitError'', \<lparr>rr_max_attempts = 5, rr_base_delay = 2\<rparr>),
      (''TimeoutError'', \<lparr>rr_max_attempts = 2, rr_base_delay = 3 / 2\<rparr>)]"

definition retry_evaluate :: "retry_policy \<Rightarrow> retry_context \<Rightarrow> retry_decision" where
  "retry_evaluate rules ctx =
     (case dict_get rules (rc_error_type ctx) of
        None \<Rightarrow> \<lparr>rd_should_retry = False, rd_delay_seconds = None\<rparr>
      | Some rule \<Rightarrow>
          if rc_attempt ctx \<ge> rr_max_attempts rule
          then \<lparr>rd_should_retry = False, rd_delay_seconds = None\<rparr>
          else \<lparr>rd_should_retry = True,
                rd_delay_seconds =
                  Some (rr_base_delay rule * power_int 2 (rc_attempt ctx - 1))\<rparr>)"

subsection \<open>Poison detection\<close>

record poison_decision =
  pd_is_poison :: bool
  pd_reason :: "string option"

record poison_context =
  pc_job_id :: string
  pc_failure_count :: int
  pc_error_type :: string

definition poison_evaluate :: "int \<Rightarrow> poison_context \<Rightarrow> poison_decision" where
  "poison_evaluate max_failures ctx =
     (if pc_failure_count ctx \<ge> max_failures
      then \<lparr>pd_is_poison = True,
            pd_reason = Some (''Exceeded '' @ int_str max_failures @ '' failures'')\<rparr>
      else \<lparr>pd_is_poison = False, pd_reason = None\<rparr>)"

definition default_poison_detector :: int where
  "default_poison_detector = 5"

subsection \<open>The retry wrapper\<close>

text \<open>
  What \<open>ToolRetryWrapper.execute\<close> returns: the callable's own output, or an instruction.  The
  detector gives a reason whenever it says poison.
\<close>

datatype tool_output =
    ToolOutput "json pydict"
  | PoisonInstruction bool string
  | RetryInstruction rat int

definition tool_execute ::
  "retry_policy \<Rightarrow> int option \<Rightarrow> json pydict result \<Rightarrow> int \<Rightarrow> string option \<Rightarrow> int
   \<Rightarrow> tool_output result"
where
  "tool_execute policy detector outcome attempt jid failure_count =
     (case outcome of
        Inr out \<Rightarrow> Inr (ToolOutput out)
      | Inl e \<Rightarrow>
          let poison = (case (detector, jid) of
                (Some max_failures, Some jid) \<Rightarrow>
                  poison_evaluate max_failures
                    \<lparr>pc_job_id = jid, pc_failure_count = failure_count, pc_error_type = exn_type e\<rparr>
              | _ \<Rightarrow> \<lparr>pd_is_poison = False, pd_reason = None\<rparr>)
          in if pd_is_poison poison
             then Inr (PoisonInstruction True
                    (case pd_reason poison of Some r \<Rightarrow> r | None \<Rightarrow> []))
             else
               let decision = retry_evaluate policy
                     \<lparr>rc_attempt = attempt, rc_error_type = exn_type e\<rparr>
               in (case rd_delay_seconds decision of
                     Some delay \<Rightarrow>
                       if \<not> rd_should_retry decision then Inl e
                       else Inr (RetryInstruction delay (attempt + 1))
                   | None \<Rightarrow> Inl e))"

subsection \<open>Panic guard\<close>

record structured_failure =
  sf_error_type :: string
  sf_message :: string
  sf_exception :: "string option"

record panic_decision =
  pn_is_panic :: bool
  pn_safe_failure :: structured_failure
  pn_reason :: string

definition from_exception :: "pyexn \<Rightarrow> structured_failure" where
  "from_exception e =
     \<lparr>sf_error_type = exn_type e, sf_message = exn_message e,
      sf_exception = Some (exn_module e @ ''.'' @ exn_type e)\<rparr>"

definition handle_exception :: "pyexn \<Rightarrow> panic_decision" where
  "handle_exception e =
     (let safe_failure = from_exception e
      in \<lparr>pn_is_panic = True, pn_safe_failure = safe_failure,
          pn_reason = ''Panic caught: '' @ sf_error_type safe_failure\<rparr>)"

text \<open>A guarded call returns a \<open>PanicDecision\<close> where the call raises.\<close>

definition panic_wrap :: "'o result \<Rightarrow> panic_decision + 'o" where
  "panic_wrap r = (case r of Inl e \<Rightarrow> Inl (handle_exception e) | Inr v \<Rightarrow> Inr v)"

subsection \<open>Crash recovery\<close>

record recovery_decision =
  rv_should_recover :: bool
  rv_resume_token :: "string option"
  rv_reason :: string

record recovery_context =
  rx_job_id :: string
  rx_last_checkpoint :: "execution_context option"
  rx_last_resume_token :: "string option"
  rx_job_state :: string

definition crash_evaluate :: "recovery_context \<Rightarrow> recovery_decision" where
  "crash_evaluate ctx =
     (if rx_last_checkpoint ctx = None
      then \<lparr>rv_should_recover = False, rv_resume_token = None, rv_reason = ''No checkpoint found''\<rparr>
      else if rx_job_state ctx \<noteq> ''running''
      then \<lparr>rv_should_recover = False, rv_resume_token = None,
            rv_reason = ''Job state is '' @ [CHR 0x27] @ rx_job_state ctx @ [CHR 0x27] @ '', not ''
              @ [CHR 0x27] @ ''running'' @ [CHR 0x27]\<rparr>
      else \<lparr>rv_should_recover = True, rv_resume_token = rx_last_resume_token ctx,
            rv_reason = ''Crash detected: job left in RUNNING state with checkpoint''\<rparr>)"

definition validate_resume_token :: "string option \<Rightarrow> string option \<Rightarrow> bool" where
  "validate_resume_token expected actual \<longleftrightarrow>
     (if expected = None then True else expected = actual)"

subsection \<open>Lemmas\<close>

lemma state_value_inject [simp]: "state_value s = state_value t \<longleftrightarrow> s = t"
  by (cases s; cases t) simp_all

lemma crash_evaluate_recovers:
  "rv_should_recover (crash_evaluate \<lparr>rx_job_id = i, rx_last_checkpoint = c,
       rx_last_resume_token = t, rx_job_state = state_value s\<rparr>) \<longleftrightarrow> c \<noteq> None \<and> s = RUNNING"
  using state_value_inject [of s RUNNING] by (simp add: crash_evaluate_def)

lemma retry_evaluate_retries:
  "rd_should_retry (retry_evaluate rules ctx) \<longleftrightarrow>
     (\<exists>rule. dict_get rules (rc_error_type ctx) = Some rule \<and> rc_attempt ctx < rr_max_attempts rule)"
  by (auto simp: retry_evaluate_def split: option.splits)

lemma tool_execute_cases:
  "tool_execute policy detector outcome attempt jid n =
     (case outcome of
        Inr out \<Rightarrow> Inr (ToolOutput out)
      | Inl e \<Rightarrow>
          if (\<exists>m. detector = Some m \<and> m \<le> n) \<and> jid \<noteq> None
          then Inr (PoisonInstruction True (''Exceeded '' @ int_str (the detector) @ '' failures''))
          else (case dict_get policy (exn_type e) of
                  None \<Rightarrow> Inl e
                | Some rule \<Rightarrow>
                    if attempt < rr_max_attempts rule
                    then Inr (RetryInstruction (rr_base_delay rule * power_int 2 (attempt - 1))
                           (attempt + 1))
                    else Inl e))"
  by (auto simp: tool_execute_def poison_evaluate_def retry_evaluate_def Let_def
      split: sum.splits option.splits)

text \<open>The most attempts any rule of a policy grants.\<close>

definition policy_bound :: "retry_policy \<Rightarrow> int" where
  "policy_bound rules = Max (insert 1 (rr_max_attempts ` snd ` set rules))"

lemma policy_bound_rule:
  "dict_get rules k = Some rule \<Longrightarrow> rr_max_attempts rule \<le> policy_bound rules"
  unfolding policy_bound_def by (rule Max_ge) (force dest: dict_get_SomeD)+

lemma tool_execute_retry_bound:
  "tool_execute policy detector outcome attempt jid n = Inr (RetryInstruction d a) \<Longrightarrow>
     a = attempt + 1 \<and> a \<le> policy_bound policy"
  by (auto simp: tool_execute_cases split: sum.splits if_splits option.splits
      dest!: policy_bound_rule)

end
