(* ===== verification/Degraded.thy ===== *)
theory Degraded
  imports ControlPlane
begin

text \<open>
  The degraded-mode evaluator of \<^verbatim>\<open>runtime/safety/degraded_mode.py\<close>: entry thresholds, the
  recovery gates, the fallback and event schemas and the table of operations.  Field prefixes:
  \<open>so_\<close> fallback output, \<open>de_\<close> and \<open>re_\<close> the two events, \<open>ss_\<close> signals, \<open>dd_\<close> decision,
  \<open>dc_\<close> context, \<open>dm_\<close> evaluator.
\<close>

subsection \<open>Data\<close>

record safe_fallback_output =
  so_status :: string
  so_reason :: string
  so_detail :: string
  so_job_id :: string
  so_fallback_action :: string
  so_recovery_hint :: string

definition fallback_to_dict :: "safe_fallback_output \<Rightarrow> json pydict" where
  "fallback_to_dict f =
     [(''status'', JStr (so_status f)), (''reason'', JStr (so_reason f)),
      (''detail'', JStr (so_detail f)), (''job_id'', JStr (so_job_id f)),
      (''fallback_action'', JStr (so_fallback_action f)),
      (''recovery_hint'', JStr (so_recovery_hint f))]"

record worker_degraded_event =
  de_event :: string
  de_worker_id :: string
  de_job_id :: string
  de_severity :: string
  de_timestamp :: datetime
  de_reason :: string

definition degraded_event_to_dict :: "worker_degraded_event \<Rightarrow> json pydict" where
  "degraded_event_to_dict d =
     [(''event'', JStr (de_event d)), (''worker_id'', JStr (de_worker_id d)),
      (''job_id'', JStr (de_job_id d)), (''severity'', JStr (de_severity d)),
      (''timestamp'', JInt (de_timestamp d)), (''reason'', JStr (de_reason d))]"

record worker_recovered_event =
  re_event :: string
  re_worker_id :: string
  re_timestamp :: datetime
  re_stability_window :: int

definition recovered_event_to_dict :: "worker_recovered_event \<Rightarrow> json pydict" where
  "recovered_event_to_dict r =
     [(''event'', JStr (re_event r)), (''worker_id'', JStr (re_worker_id r)),
      (''timestamp'', JInt (re_timestamp r)), (''stability_window'', JInt (re_stability_window r))]"

record signal_state =
  ss_s1_stable :: bool
  ss_s1_stable_cycles :: int
  ss_s2_stable :: bool
  ss_s3_stable :: bool
  ss_new_critical_errors :: int
  ss_last_error_timestamp :: rat

record degraded_decision =
  dd_enter_degraded :: bool
  dd_reason :: "string option"
  dd_fallback_output :: "safe_fallback_output option"
  dd_escalation_event :: "worker_degraded_event option"
  dd_recovery_event :: "worker_recovered_event option"
  dd_currently_degraded :: bool

definition decision :: "bool \<Rightarrow> string option \<Rightarrow> degraded_decision" where
  "decision enter reason =
     \<lparr>dd_enter_degraded = enter, dd_reason = reason, dd_fallback_output = None,
      dd_escalation_event = None, dd_recovery_event = None, dd_currently_degraded = False\<rparr>"

record degraded_context =
  dc_consecutive_failures :: int
  dc_panic_count :: int
  dc_crash_count :: int
  dc_retry_exhausted :: bool
  dc_signal_state :: "signal_state option"
  dc_worker_id :: string
  dc_job_id :: string
  dc_already_degraded :: bool

definition DEFAULT_DEGRADED_THRESHOLDS :: "int pydict" where
  "DEFAULT_DEGRADED_THRESHOLDS = [(''failures'', 3), (''panics'', 1), (''crashes'', 1)]"

record degraded_mode =
  dm_thresholds :: "int pydict"
  dm_recovery_stable_cycles :: int
  dm_recovery_error_window_seconds :: rat
  dm_worker_id :: string

definition new_degraded_mode :: "int pydict option \<Rightarrow> int \<Rightarrow> rat \<Rightarrow> string \<Rightarrow> degraded_mode" where
  "new_degraded_mode thresholds cycles window worker_id =
     \<lparr>dm_thresholds = (case thresholds of
          None \<Rightarrow> DEFAULT_DEGRADED_THRESHOLDS
        | Some t \<Rightarrow> if t = [] then DEFAULT_DEGRADED_THRESHOLDS else t),
      dm_recovery_stable_cycles = cycles, dm_recovery_error_window_seconds = window,
      dm_worker_id = worker_id\<rparr>"

definition default_degraded_mode :: "string \<Rightarrow> degraded_mode" where
  "default_degraded_mode worker_id =
     new_degraded_mode (Some DEFAULT_DEGRADED_THRESHOLDS) 5 60 worker_id"

subsection \<open>Reasons\<close>

definition REASON_CONSECUTIVE_FAILURES :: string where
  "REASON_CONSECUTIVE_FAILURES = ''consecutive_failures_exceeded''"
definition REASON_PANIC_THRESHOLD :: string where
  "REASON_PANIC_THRESHOLD = ''panic_threshold_exceeded''"
definition REASON_CRASH_THRESHOLD :: string where
  "REASON_CRASH_THRESHOLD = ''crash_threshold_exceeded''"
definition REASON_RETRY_EXHAUSTED :: string where
  "REASON_RETRY_EXHAUSTED = ''retry_policy_exhausted''"
definition REASON_S1_INSTABILITY :: string where
  "REASON_S1_INSTABILITY = ''s1_corestep_instability''"
definition REASON_S2_INSTABILITY :: string where
  "REASON_S2_INSTABILITY = ''s2_job_persistence_instability''"
definition REASON_S3_INSTABILITY :: string where
  "REASON_S3_INSTABILITY = ''s3_scheduler_instability''"
definition REASON_MULTI_SIGNAL :: string where
  "REASON_MULTI_SIGNAL = ''multiple_strata_instability''"

lemmas reason_defs = REASON_CONSECUTIVE_FAILURES_def REASON_PANIC_THRESHOLD_def
  REASON_CRASH_THRESHOLD_def REASON_RETRY_EXHAUSTED_def REASON_S1_INSTABILITY_def
  REASON_S2_INSTABILITY_def REASON_S3_INSTABILITY_def REASON_MULTI_SIGNAL_def

definition check_signal_instability :: "signal_state \<Rightarrow> string option" where
  "check_signal_instability sig =
     (let unstable = (if \<not> ss_s1_stable sig then [''S1''] else [])
            @ (if \<not> ss_s2_stable sig then [''S2''] else [])
            @ (if \<not> ss_s3_stable sig then [''S3''] else [])
      in if unstable = [] then None
         else if length unstable \<ge> 2 then Some REASON_MULTI_SIGNAL
         else if hd unstable = ''S1'' then Some REASON_S1_INSTABILITY
         else if hd unstable = ''S2'' then Some REASON_S2_INSTABILITY
         else Some REASON_S3_INSTABILITY)"

definition build_detail :: "string \<Rightarrow> degraded_context \<Rightarrow> string" where
  "build_detail reason ctx =
     dict_get_or
       [(REASON_CONSECUTIVE_FAILURES,
          ''Worker entered degraded mode after ''
            @ int_str (dc_consecutive_failures ctx) @ '' consecutive execution failures.''),
        (REASON_PANIC_THRESHOLD,
          ''Worker entered degraded mode after '' @ int_str (dc_panic_count ctx) @ '' panics.''),
        (REASON_CRASH_THRESHOLD,
          ''Worker entered degraded mode after '' @ int_str (dc_crash_count ctx) @ '' crashes.''),
        (REASON_RETRY_EXHAUSTED,
          ''Worker entered degraded mode because the retry policy has been exhausted.''),
        (REASON_S1_INSTABILITY,
          ''Worker entered degraded mode because S1 (CoreStep pipeline) reported instability.''),
        (REASON_S2_INSTABILITY,
          ''Worker entered degraded mode because S2 (job lifecycle) reported persistence or envelope integrity issues.''),
        (REASON_S3_INSTABILITY,
          ''Worker entered degraded mode because S3 (orchestration) reported scheduler heartbeat instability.''),
        (REASON_MULTI_SIGNAL,
          ''Worker entered degraded mode because multiple strata (S1, S2, S3) reported instability.'')]
       reason (''Degraded mode activated: '' @ reason)"

definition build_recovery_hint :: "'a env_scheme \<Rightarrow> degraded_mode \<Rightarrow> string \<Rightarrow> string" where
  "build_recovery_hint e dm reason =
     (let counted =
            ''Recovery requires '' @ int_str (dm_recovery_stable_cycles dm)
            @ '' consecutive stable S1 cycles and no critical errors for ''
            @ e_float_fmt e [] (dm_recovery_error_window_seconds dm) @ ''s.''
      in dict_get_or
       [(REASON_CONSECUTIVE_FAILURES, counted),
        (REASON_PANIC_THRESHOLD, counted),
        (REASON_CRASH_THRESHOLD, counted),
        (REASON_RETRY_EXHAUSTED, counted),
        (REASON_S1_INSTABILITY,
          ''Recovery requires S1 to report stable CoreStep execution for ''
            @ int_str (dm_recovery_stable_cycles dm) @ '' consecutive cycles.''),
        (REASON_S2_INSTABILITY,
          ''Recovery requires S2 to report job persistence and envelope integrity.''),
        (REASON_S3_INSTABILITY,
          ''Recovery requires S3 to report scheduler heartbeat stability.''),
        (REASON_MULTI_SIGNAL,
          ''Recovery requires all strata (S1, S2, S3) to report stability.'')]
       reason ''Recovery requires all stability signals to be green.'')"

subsection \<open>Entry and recovery\<close>

definition entry_reason :: "degraded_mode \<Rightarrow> degraded_context \<Rightarrow> string option" where
  "entry_reason dm ctx =
     (if dc_retry_exhausted ctx then Some REASON_RETRY_EXHAUSTED
      else if dc_consecutive_failures ctx \<ge> dict_get_or (dm_thresholds dm) ''failures'' 3
        then Some REASON_CONSECUTIVE_FAILURES
      else if dc_panic_count ctx \<ge> dict_get_or (dm_thresholds dm) ''panics'' 1
        then Some REASON_PANIC_THRESHOLD
      else if dc_crash_count ctx \<ge> dict_get_or (dm_thresholds dm) ''crashes'' 1
        then Some REASON_CRASH_THRESHOLD
      else (case dc_signal_state ctx of
              Some sig \<Rightarrow> check_signal_instability sig
            | None \<Rightarrow> None))"

definition degraded_evaluate ::
  "degraded_mode \<Rightarrow> degraded_context \<Rightarrow> 'a env_scheme \<Rightarrow> degraded_decision \<times> 'a env_scheme"
where
  "degraded_evaluate dm ctx e =
     (if dc_already_degraded ctx
      then ((decision True (Some ''already_degraded''))\<lparr>dd_currently_degraded := True\<rparr>, e)
      else (case entry_reason dm ctx of
          None \<Rightarrow> (decision False None, e)
        | Some reason \<Rightarrow>
            let fallback =
                  \<lparr>so_status = ''degraded'', so_reason = reason,
                   so_detail = build_detail reason ctx, so_job_id = dc_job_id ctx,
                   so_fallback_action = ''short_circuit_and_acknowledge'',
                   so_recovery_hint = build_recovery_hint e dm reason\<rparr>;
                (now, e) = utc_now e;
                escalation =
                  \<lparr>de_event = ''worker_degraded'',
                   de_worker_id = (if dm_worker_id dm \<noteq> [] then dm_worker_id dm
                                   else dc_worker_id ctx),
                   de_job_id = dc_job_id ctx, de_severity = ''high'', de_timestamp = now,
                   de_reason = reason\<rparr>
            in ((decision True (Some reason))
                  \<lparr>dd_fallback_output := Some fallback, dd_escalation_event := Some escalation\<rparr>, e)))"

definition still_degraded :: "string \<Rightarrow> degraded_decision" where
  "still_degraded reason = (decision True (Some reason))\<lparr>dd_currently_degraded := True\<rparr>"

definition check_recovery ::
  "degraded_mode \<Rightarrow> degraded_context \<Rightarrow> 'a env_scheme \<Rightarrow> degraded_decision \<times> 'a env_scheme"
where
  "check_recovery dm ctx e =
     (if \<not> dc_already_degraded ctx then (decision False None, e)
      else (case dc_signal_state ctx of
          None \<Rightarrow> (still_degraded ''insufficient_signals'', e)
        | Some sig \<Rightarrow>
            if \<not> ss_s1_stable sig \<or> ss_s1_stable_cycles sig < dm_recovery_stable_cycles dm
            then (still_degraded ''s1_not_stable'', e)
            else if \<not> ss_s2_stable sig then (still_degraded ''s2_not_stable'', e)
            else if \<not> ss_s3_stable sig then (still_degraded ''s3_not_stable'', e)
            else if ss_new_critical_errors sig > 0
            then (still_degraded ''critical_errors_in_window'', e)
            else
              let (now, e) = time_now e
              in if ss_last_error_timestamp sig > 0
                    \<and> now - ss_last_error_timestamp sig < dm_recovery_error_window_seconds dm
                 then (still_degraded ''recent_critical_error'', e)
                 else
                   let (ts, e) = utc_now e;
                       recovery_event =
                         \<lparr>re_event = ''worker_recovered'',
                          re_worker_id = (if dm_worker_id dm \<noteq> [] then dm_worker_id dm
                                          else dc_worker_id ctx),
                          re_timestamp = ts,
                          re_stability_window = dm_recovery_stable_cycles dm\<rparr>
                   in ((decision False None)\<lparr>dd_recovery_event := Some recovery_event\<rparr>, e)))"

subsection \<open>The behavioural contract\<close>

definition FORBIDDEN_OPS :: "string list" where
  "FORBIDDEN_OPS =
     [''retry'', ''backoff'', ''tool_call'', ''multi_step_reasoning'', ''agentic_behaviour'',
      ''external_api_call'', ''state_mutation'', ''job_completion_attempt'']"

definition ALLOWED_OPS :: "string list" where
  "ALLOWED_OPS =
     [''produce_fallback_output'', ''emit_escalation_event'', ''wait_for_recovery_signals'',
      ''maintain_heartbeat'', ''maintain_isolation'']"

definition is_op_allowed :: "string \<Rightarrow> bool" where
  "is_op_allowed operation \<longleftrightarrow> operation \<in> set ALLOWED_OPS"

definition is_op_forbidden :: "string \<Rightarrow> bool" where
  "is_op_forbidden operation \<longleftrightarrow> operation \<in> set FORBIDDEN_OPS"

definition validate_behaviour :: "string list \<Rightarrow> string list" where
  "validate_behaviour operations = filter is_op_forbidden operations"

subsection \<open>Lemmas\<close>

lemma check_signal_instability_None_iff:
  "check_signal_instability sig = None \<longleftrightarrow> ss_s1_stable sig \<and> ss_s2_stable sig \<and> ss_s3_stable sig"
  by (auto simp: check_signal_instability_def)

text \<open>All entry conditions, in no order.\<close>

definition unstable :: "degraded_mode \<Rightarrow> degraded_context \<Rightarrow> bool" where
  "unstable dm ctx \<longleftrightarrow>
     dc_retry_exhausted ctx
     \<or> dict_get_or (dm_thresholds dm) ''failures'' 3 \<le> dc_consecutive_failures ctx
     \<or> dict_get_or (dm_thresholds dm) ''panics'' 1 \<le> dc_panic_count ctx
     \<or> dict_get_or (dm_thresholds dm) ''crashes'' 1 \<le> dc_crash_count ctx
     \<or> (case dc_signal_state ctx of None \<Rightarrow> False
        | Some sig \<Rightarrow> check_signal_instability sig \<noteq> None)"

lemma entry_reason_None_iff: "entry_reason dm ctx = None \<longleftrightarrow> \<not> unstable dm ctx"
  by (auto simp: entry_reason_def unstable_def split: option.splits)

lemma default_thresholds [simp]:
  "dict_get_or DEFAULT_DEGRADED_THRESHOLDS ''failures'' 3 = 3"
  "dict_get_or DEFAULT_DEGRADED_THRESHOLDS ''panics'' 1 = 1"
  "dict_get_or DEFAULT_DEGRADED_THRESHOLDS ''crashes'' 1 = 1"
  by (simp_all add: dict_get_or_def dict_get_def DEFAULT_DEGRADED_THRESHOLDS_def)

lemma default_degraded_mode_thresholds [simp]:
  "dm_thresholds (default_degraded_mode i) = DEFAULT_DEGRADED_THRESHOLDS"
  by (simp add: default_degraded_mode_def new_degraded_mode_def DEFAULT_DEGRADED_THRESHOLDS_def)

text \<open>The evaluator reads and draws from the clock; it touches nothing else.\<close>

lemma degraded_evaluate_rt:
  assumes "degraded_evaluate dm ctx w = (d, w')"
  shows "rt_store w' = rt_store w \<and> rt_joins w' = rt_joins w \<and> rt_queue w' = rt_queue w
    \<and> rt_slept w' = rt_slept w \<and> rt_calls w' = rt_calls w \<and> rt_sent w' = rt_sent w"
  using assms
  by (auto simp: degraded_evaluate_def utc_now_def Let_def split: if_splits option.splits)

lemma check_recovery_rt:
  assumes "check_recovery dm ctx w = (d, w')"
  shows "rt_store w' = rt_store w \<and> rt_joins w' = rt_joins w \<and> rt_queue w' = rt_queue w
    \<and> rt_slept w' = rt_slept w \<and> rt_calls w' = rt_calls w \<and> rt_sent w' = rt_sent w"
  using assms
  by (auto simp: check_recovery_def utc_now_def time_now_def Let_def split: if_splits option.splits)

lemma degraded_evaluate_enters:
  "dd_enter_degraded (fst (degraded_evaluate dm ctx e)) \<longleftrightarrow>
     dc_already_degraded ctx \<or> unstable dm ctx"
  using entry_reason_None_iff [of dm ctx]
  by (cases "entry_reason dm ctx")
    (auto simp: degraded_evaluate_def decision_def Let_def utc_now_def)

lemma check_recovery_no_signal:
  "dc_signal_state ctx = None \<Longrightarrow> dc_already_degraded ctx \<Longrightarrow>
     check_recovery dm ctx e = (still_degraded ''insufficient_signals'', e)"
  by (simp add: check_recovery_def)

text \<open>Entry into degraded mode is exact: the evaluator says to enter precisely when the
  worker already is degraded, the retry policy is exhausted, a counter reaches its threshold, or
  a signal is unstable; on a first entry it delivers a fallback for this job and an escalation,
  both with the reason of the first rule that fired.\<close>

lemma degraded_entry_exact:
  "(dd_enter_degraded (fst (degraded_evaluate dm ctx e)) =
      (dc_already_degraded ctx \<or> unstable dm ctx))
   \<and> map_option (\<lambda>f. (so_job_id f, Some (so_reason f)))
        (dd_fallback_output (fst (degraded_evaluate dm ctx e)))
     = (if dc_already_degraded ctx then None
        else map_option (\<lambda>r. (dc_job_id ctx, Some r)) (entry_reason dm ctx))
   \<and> map_option (\<lambda>d. (de_job_id d, Some (de_reason d)))
        (dd_escalation_event (fst (degraded_evaluate dm ctx e)))
     = map_option (\<lambda>f. (so_job_id f, Some (so_reason f)))
        (dd_fallback_output (fst (degraded_evaluate dm ctx e)))"
proof (intro conjI)
  show "dd_enter_degraded (fst (degraded_evaluate dm ctx e)) =
      (dc_already_degraded ctx \<or> unstable dm ctx)" by (rule degraded_evaluate_enters)
  show "map_option (\<lambda>f. (so_job_id f, Some (so_reason f)))
        (dd_fallback_output (fst (degraded_evaluate dm ctx e)))
     = (if dc_already_degraded ctx then None
        else map_option (\<lambda>r. (dc_job_id ctx, Some r)) (entry_reason dm ctx))"
    by (auto simp: degraded_evaluate_def decision_def Let_def utc_now_def split: option.splits)
  show "map_option (\<lambda>d. (de_job_id d, Some (de_reason d)))
        (dd_escalation_event (fst (degraded_evaluate dm ctx e)))
     = map_option (\<lambda>f. (so_job_id f, Some (so_reason f)))
        (dd_fallback_output (fst (degraded_evaluate dm ctx e)))"
    by (auto simp: degraded_evaluate_def decision_def Let_def utc_now_def split: option.splits)
qed

text \<open>Recovery is gated: a degraded worker gets a recovery event precisely when signals are
  available, S1 has been stable for the required number of cycles, S2 and S3 are stable, no
  critical error is counted and the last one, if any, is at least the window old; in every other
  case it is told to stay degraded.\<close>

lemma degraded_recovery_gates:
  "(dd_recovery_event (fst (check_recovery dm ctx e)) \<noteq> None) =
     (dc_already_degraded ctx
      \<and> (case dc_signal_state ctx of None \<Rightarrow> False
         | Some sig \<Rightarrow>
             ss_s1_stable sig \<and> dm_recovery_stable_cycles dm \<le> ss_s1_stable_cycles sig
             \<and> ss_s2_stable sig \<and> ss_s3_stable sig \<and> ss_new_critical_errors sig \<le> 0
             \<and> (ss_last_error_timestamp sig \<le> 0
                 \<or> dm_recovery_error_window_seconds dm
                     \<le> fst (time_now e) - ss_last_error_timestamp sig)))
   \<and> dd_enter_degraded (fst (check_recovery dm ctx e)) =
     (dc_already_degraded ctx \<and> dd_recovery_event (fst (check_recovery dm ctx e)) = None)"
  by (auto simp: check_recovery_def still_degraded_def decision_def time_now_def utc_now_def Let_def
      split: option.splits)

text \<open>The operation table is a contract: no operation is both allowed and forbidden, and
  validating a list of intended operations returns nothing exactly when none of them is
  forbidden, and otherwise the offending ones in order; a list of allowed operations always
  passes.\<close>

lemma degraded_contract_consistent:
  "\<not> (is_op_allowed operation \<and> is_op_forbidden operation)
   \<and> set (validate_behaviour ops) = {x \<in> set ops. is_op_forbidden x}
   \<and> validate_behaviour (filter is_op_allowed ops) = []
   \<and> (validate_behaviour ops = []) = list_all (\<lambda>x. \<not> is_op_forbidden x) ops"
proof -
  have disjoint: "\<not> (is_op_allowed x \<and> is_op_forbidden x)" for x
    by (auto simp: is_op_allowed_def is_op_forbidden_def ALLOWED_OPS_def FORBIDDEN_OPS_def)
  then show ?thesis
    by (auto simp: validate_behaviour_def filter_empty_conv list_all_iff)
qed

end
