(* ===== verification/Pipeline.thy ===== *)
theory Pipeline
  imports Retry Degraded
begin

text \<open>
  The worker's pipeline: the context and the runner of \<^verbatim>\<open>runtime/pipeline/base.py\<close> and
  \<^verbatim>\<open>pipeline.py\<close>, and the four stages of \<^verbatim>\<open>stages.py\<close>.  A stage maps the pipeline state (the
  live job, the runtime, the degraded flag the third stage keeps per worker) to a signal and
  the state it leaves, also where it raises: what it changed before raising stays changed.  The
  multi-cycle loop of the last stage runs on fuel; \<open>None\<close> is a loop that has not ended yet.
\<close>

subsection \<open>Context and runner\<close>

text \<open>The executor is the caller's: what it answers at its \<open>n\<close>-th call.\<close>

type_synonym executor =
  "nat \<Rightarrow> channel_message \<Rightarrow> execution_context option \<Rightarrow> string option \<Rightarrow> json pydict result"

datatype stage_signal = Raise pyexn | Return | Continue

record pipeline_state =
  ps_job :: job
  ps_rt :: rt
  ps_degraded :: bool

record pipeline_context =
  px_stored_job :: "job option"
  px_signal_state :: "signal_state option"

type_synonym stage = "pipeline_state \<Rightarrow> (stage_signal \<times> pipeline_state) option"

fun pipeline_run :: "stage list \<Rightarrow> stage" where
  "pipeline_run [] st = Some (Return, st)"
| "pipeline_run (stage # stages) st =
     (case stage st of
        None \<Rightarrow> None
      | Some (Continue, st') \<Rightarrow> pipeline_run stages st'
      | Some (sig, st') \<Rightarrow> Some (sig, st'))"

text \<open>Running a control-plane call on the state; one that raises leaves it as it was.\<close>

definition ps_set :: "pipeline_state \<Rightarrow> job \<times> rt \<Rightarrow> pipeline_state" where
  "ps_set st s = st\<lparr>ps_job := fst s, ps_rt := snd s\<rparr>"

subsection \<open>Stage 1: crash recovery\<close>

definition crash_recovery_stage :: stage where
  "crash_recovery_stage st =
     (let j = ps_job st; w = ps_rt st;
          decision = crash_evaluate
            \<lparr>rx_job_id = j_id j, rx_last_checkpoint = j_execution_context j,
             rx_last_resume_token = j_resume_token j, rx_job_state = state_value (j_state j)\<rparr>
      in if rv_should_recover decision then
           let (j, w) = append_lifecycle_event j ''crash_recovery''
                          [(''reason'', JStr (rv_reason decision))] w
           in Some (Continue, ps_set st (j\<lparr>j_crash_count := j_crash_count j + 1\<rparr>, w))
         else if j_state j = POISON then
           Some (Return, ps_set st (append_lifecycle_event j ''poison_skip''
             [(''reason'', JStr (''Job is POISON '' @ em_dash @ '' skipping execution''))] w))
         else
           let (j, w) = (if j_resume_token j = None then issue_resume_token j w else (j, w))
           in (case mark_running j w of
                 Inl e \<Rightarrow> Some (Raise e, ps_set st (j, w))
               | Inr s \<Rightarrow> Some (Continue, ps_set st s)))"

subsection \<open>Stage 2: idempotency\<close>

definition idempotency_stage :: "pipeline_context \<Rightarrow> stage" where
  "idempotency_stage ctx st =
     (case px_stored_job ctx of
        None \<Rightarrow> Some (Continue, st)
      | Some stored \<Rightarrow>
          let j = ps_job st
          in if j_resume_token stored \<noteq> None
                \<and> \<not> validate_resume_token (j_resume_token stored) (j_resume_token j)
             then
               let j = j\<lparr>j_execution_context := j_execution_context stored,
                         j_resume_token := j_resume_token stored\<rparr>
               in Some (Continue, ps_set st (append_lifecycle_event j ''idempotency_recovery''
                    [(''reason'', JStr (''Resume token mismatch '' @ em_dash
                       @ '' re-hydrated from checkpoint''))] (ps_rt st)))
             else Some (Continue, st))"

subsection \<open>Stage 3: degraded mode\<close>

definition degraded_context_of ::
  "degraded_mode \<Rightarrow> pipeline_context \<Rightarrow> job \<Rightarrow> bool \<Rightarrow> degraded_context"
where
  "degraded_context_of dm ctx j already =
     \<lparr>dc_consecutive_failures = j_consecutive_failures j, dc_panic_count = j_panic_count j,
      dc_crash_count = j_crash_count j, dc_retry_exhausted = False,
      dc_signal_state = px_signal_state ctx, dc_worker_id = dm_worker_id dm,
      dc_job_id = j_id j, dc_already_degraded = already\<rparr>"

text \<open>Both exits with a fallback end in \<open>mark_succeeded\<close> and a checkpoint.\<close>

definition succeed_with :: "json pydict \<Rightarrow> pipeline_state \<Rightarrow> stage_signal \<times> pipeline_state" where
  "succeed_with result st =
     (case mark_succeeded (ps_job st) (JObj result) (ps_rt st) of
        Inl e \<Rightarrow> (Raise e, st)
      | Inr (j, w) \<Rightarrow> (Return, ps_set st (save_checkpoint j w)))"

definition handle_degraded_cycle :: "degraded_mode \<Rightarrow> pipeline_context \<Rightarrow> stage" where
  "handle_degraded_cycle dm ctx st =
     (let j = ps_job st;
          (recovery, w) = check_recovery dm (degraded_context_of dm ctx j True) (ps_rt st)
      in case (dd_enter_degraded recovery, dd_recovery_event recovery) of
           (False, Some event) \<Rightarrow>
             Some (Continue, ps_set (st\<lparr>ps_degraded := False\<rparr>)
               (append_lifecycle_event j ''worker_recovered'' (recovered_event_to_dict event) w))
         | _ \<Rightarrow>
             let fallback =
                   \<lparr>so_status = ''degraded'',
                    so_reason = (case dd_reason recovery of
                        Some r \<Rightarrow> if r \<noteq> [] then r else ''still_degraded''
                      | None \<Rightarrow> ''still_degraded''),
                    so_detail = ''Worker is in degraded mode and awaiting recovery signals.'',
                    so_job_id = j_id j, so_fallback_action = ''short_circuit_and_acknowledge'',
                    so_recovery_hint = ''Worker is waiting for S1/S2/S3 stability signals.''\<rparr>;
                 result = fallback_to_dict fallback
             in Some (succeed_with result (ps_set st (j\<lparr>j_result := Some (JObj result)\<rparr>, w))))"

definition enter_degraded :: "degraded_decision \<Rightarrow> pipeline_state \<Rightarrow> stage_signal \<times> pipeline_state" where
  "enter_degraded d st =
     (let result = (case dd_fallback_output d of
            Some f \<Rightarrow> fallback_to_dict f
          | None \<Rightarrow>
              [(''status'', JStr ''degraded''),
               (''reason'', JStr (case dd_reason d of
                    Some r \<Rightarrow> if r \<noteq> [] then r else ''unknown'' | None \<Rightarrow> ''unknown'')),
               (''detail'', JStr ''Worker entered degraded mode.''),
               (''job_id'', JStr (j_id (ps_job st))),
               (''fallback_action'', JStr ''short_circuit_and_acknowledge''),
               (''recovery_hint'', JStr ''Awaiting S1/S2/S3 stability signals.'')]);
          j = (ps_job st)\<lparr>j_result := Some (JObj result)\<rparr>;
          s = (case dd_escalation_event d of
                 Some ev \<Rightarrow> append_lifecycle_event j ''worker_degraded'' (degraded_event_to_dict ev)
                              (ps_rt st)
               | None \<Rightarrow> (j, ps_rt st))
      in succeed_with result (ps_set (st\<lparr>ps_degraded := True\<rparr>) s))"

definition degraded_mode_stage :: "degraded_mode \<Rightarrow> pipeline_context \<Rightarrow> stage" where
  "degraded_mode_stage dm ctx st =
     (if ps_degraded st then handle_degraded_cycle dm ctx st
      else
        let (d, w) = degraded_evaluate dm (degraded_context_of dm ctx (ps_job st) False) (ps_rt st);
            st = st\<lparr>ps_rt := w\<rparr>
        in if \<not> dd_enter_degraded d then Some (Continue, st)
           else Some (enter_degraded d st))"

subsection \<open>Stage 4: execution\<close>

text \<open>One turn of the loop ends the stage, or asks for another turn with the next attempt.\<close>

datatype cycle_result =
    Finished stage_signal job rt
  | Again int job rt

definition structured_error :: "string \<Rightarrow> string \<Rightarrow> json" where
  "structured_error ty msg = JObj [(''error_type'', JStr ty), (''message'', JStr msg)]"

definition fail_panicked :: "panic_decision \<Rightarrow> job \<Rightarrow> rt \<Rightarrow> cycle_result" where
  "fail_panicked p j w =
     (let j = j\<lparr>j_panic_count := j_panic_count j + 1,
                j_consecutive_failures := j_consecutive_failures j + 1\<rparr>
      in case mark_failed j (structured_error (sf_error_type (pn_safe_failure p))
                (sf_message (pn_safe_failure p))) w of
           Inl e \<Rightarrow> Finished (Raise e) j w
         | Inr (j, w) \<Rightarrow> let (j, w) = save_checkpoint j w in Finished Return j w)"

definition count_failure :: "job \<Rightarrow> job" where
  "count_failure j =
     j\<lparr>j_failure_count := j_failure_count j + 1,
       j_consecutive_failures := j_consecutive_failures j + 1\<rparr>"

definition retry_cycle :: "rat \<Rightarrow> int \<Rightarrow> job \<Rightarrow> rt \<Rightarrow> cycle_result" where
  "retry_cycle delay attempt j w =
     (let j = count_failure j
      in if delay < 0 then Finished (Raise (ValueError ''sleep length must be non-negative'')) j w
         else
           let w = w\<lparr>rt_slept := rt_slept w @ [delay]\<rparr>;
               (j, w) = append_cycle_trace j ''cycle_end''
                 [(''done'', JBool False), (''retry'', JBool True), (''delay'', JNum delay),
                  (''attempt'', JInt (attempt - 1))] w;
               (j, w) = save_checkpoint j w;
               (j, w) = issue_resume_token j w
           in Again attempt j w)"

definition record_cycle :: "json pydict \<Rightarrow> job \<Rightarrow> job" where
  "record_cycle out j =
     (let j = j\<lparr>j_failure_count := 0, j_consecutive_failures := 0\<rparr>
      in case j_execution_context j of
           None \<Rightarrow> j
         | Some xc \<Rightarrow>
             j\<lparr>j_execution_context := Some
                 (xc\<lparr>xc_cognitive_state := dict_get_or out ''cognitive_state'' (JObj []),
                     xc_memory := dict_get_or out ''memory'' (JObj []),
                     xc_last_result := dict_get_or out ''result'' JNull\<rparr>)\<rparr>)"

definition finish_cycle :: "json pydict \<Rightarrow> job \<Rightarrow> rt \<Rightarrow> cycle_result" where
  "finish_cycle out j w =
     (let j = record_cycle out j;
          done = json_truthy (dict_get_or out ''done'' (JBool False));
          (j, w) = append_cycle_trace j ''cycle_end'' [(''done'', JBool done)] w;
          (j, w) = save_checkpoint j w;
          (j, w) = issue_resume_token j w
      in if \<not> done then Again 1 j w
         else (case mark_succeeded j (JObj out) w of
                 Inl e \<Rightarrow> Finished (Raise e) j w
               | Inr (j, w) \<Rightarrow> let (j, w) = save_checkpoint j w in Finished Return j w))"

definition execution_cycle ::
  "executor \<Rightarrow> retry_policy \<Rightarrow> int option \<Rightarrow> int \<Rightarrow> job \<Rightarrow> rt \<Rightarrow> cycle_result"
where
  "execution_cycle executor policy detector attempt j w =
     (let (j, w) = append_cycle_trace j ''cycle_start'' [] w;
          outcome = executor (rt_calls w) (j_payload j) (j_execution_context j) (j_resume_token j);
          w = w\<lparr>rt_calls := Suc (rt_calls w)\<rparr>
      in case panic_wrap (tool_execute policy detector outcome attempt (Some (j_id j))
                (j_failure_count j)) of
           Inl panic \<Rightarrow> fail_panicked panic j w
         | Inr (PoisonInstruction _ reason) \<Rightarrow>
             (let j = count_failure j
              in case mark_poison j reason w of
                   Inl e \<Rightarrow> Finished (Raise e) j w
                 | Inr (j, w) \<Rightarrow> Finished Return j w)
         | Inr (RetryInstruction delay next_attempt) \<Rightarrow> retry_cycle delay next_attempt j w
         | Inr (ToolOutput out) \<Rightarrow> finish_cycle out j w)"

fun execution_loop ::
  "nat \<Rightarrow> executor \<Rightarrow> retry_policy \<Rightarrow> int option \<Rightarrow> int \<Rightarrow> job \<Rightarrow> rt
   \<Rightarrow> (stage_signal \<times> job \<times> rt) option"
where
  "execution_loop 0 ex policy detector attempt j w = None"
| "execution_loop (Suc fuel) ex policy detector attempt j w =
     (case execution_cycle ex policy detector attempt j w of
        Finished sig j w \<Rightarrow> Some (sig, j, w)
      | Again attempt j w \<Rightarrow> execution_loop fuel ex policy detector attempt j w)"

definition execution_stage :: "nat \<Rightarrow> executor \<Rightarrow> retry_policy \<Rightarrow> int option \<Rightarrow> stage" where
  "execution_stage fuel ex policy detector st =
     (case execution_loop fuel ex policy detector 1 (ps_job st) (ps_rt st) of
        None \<Rightarrow> None
      | Some (sig, s) \<Rightarrow> Some (sig, ps_set st s))"

subsection \<open>What the pipeline keeps\<close>

text \<open>
  \<open>keeps j w j' w'\<close>: the job is the same job, its trace still replays if it did, and outside
  the job's own entry the stores, the queue and the channels are untouched.
\<close>

definition keeps :: "job \<Rightarrow> rt \<Rightarrow> job \<Rightarrow> rt \<Rightarrow> bool" where
  "keeps j w j' w' \<longleftrightarrow>
     j_id j' = j_id j \<and> j_payload j' = j_payload j \<and> j_depends_on j' = j_depends_on j
     \<and> (trace_ok j \<longrightarrow> trace_ok j')
     \<and> (\<forall>k. k \<noteq> j_id j \<longrightarrow> job_get (rt_store w') k = job_get (rt_store w) k)
     \<and> rt_joins w' = rt_joins w \<and> rt_queue w' = rt_queue w \<and> rt_sent w' = rt_sent w"

definition stored_live :: "job \<Rightarrow> rt \<Rightarrow> bool" where
  "stored_live j w \<longleftrightarrow> job_get (rt_store w) (j_id j) = Some j"

text \<open>A finished job: terminal, stored, and with a dict as its result where it succeeded.\<close>

definition finished :: "job \<Rightarrow> rt \<Rightarrow> bool" where
  "finished j w \<longleftrightarrow>
     job_terminal (j_state j) \<and> stored_live j w
     \<and> (j_state j = SUCCEEDED \<longrightarrow> (\<exists>d. j_result j = Some (JObj d)))"

lemma keeps_refl [simp, intro!]: "keeps j w j w"
  by (simp add: keeps_def)

lemma keeps_trans: "keeps j w j1 w1 \<Longrightarrow> keeps j1 w1 j2 w2 \<Longrightarrow> keeps j w j2 w2"
  by (simp add: keeps_def)

lemma keeps_quiet: "cp_step [] j w j' w' \<Longrightarrow> keeps j w j' w' \<and> stored_live j' w' \<and> j_state j' = j_state j"
  by (auto simp: keeps_def stored_live_def trace_ok_quiet cp_step_def trace_ok_def)

lemma keeps_move:
  "cp_step [(j_state j, t)] j w j' w' \<Longrightarrow> can_transition (j_state j) t \<Longrightarrow>
     keeps j w j' w' \<and> stored_live j' w' \<and> j_state j' = t"
  by (auto simp: keeps_def stored_live_def cp_step_def trace_ok_def trace_replay_append)

text \<open>The runtime may differ outside what \<open>keeps\<close> reads, the job outside what it names.\<close>

lemma keeps_cong:
  assumes "keeps j w j' w'"
    and "j_id j0 = j_id j" "j_payload j0 = j_payload j" "j_depends_on j0 = j_depends_on j"
      "j_trace j0 = j_trace j" "j_state j0 = j_state j"
    and "rt_store w0 = rt_store w" "rt_joins w0 = rt_joins w" "rt_queue w0 = rt_queue w"
      "rt_sent w0 = rt_sent w"
  shows "keeps j0 w0 j' w'"
  using assms by (simp add: keeps_def trace_ok_def)

lemma mark_running_keeps:
  "mark_running j w = Inr (j', w') \<Longrightarrow> keeps j w j' w' \<and> stored_live j' w' \<and> j_state j' = RUNNING"
  using mark_running_step [of j w j' w'] keeps_move [of j RUNNING w j' w'] into_running by blast

lemma mark_succeeded_keeps:
  "mark_succeeded j r w = Inr (j', w') \<Longrightarrow>
     keeps j w j' w' \<and> stored_live j' w' \<and> j_state j' = SUCCEEDED \<and> j_result j' = Some r"
  using mark_succeeded_step [of j r w j' w'] keeps_move [of j SUCCEEDED w j' w']
  by (auto simp: after_running job_terminal_def)

lemma mark_failed_keeps:
  "mark_failed j r w = Inr (j', w') \<Longrightarrow>
     keeps j w j' w' \<and> stored_live j' w' \<and> j_state j' = FAILED \<and> j_result j' = Some r"
  using mark_failed_step [of j r w j' w'] keeps_move [of j FAILED w j' w']
  by (auto simp: can_transition_cases)

lemma mark_poison_keeps:
  "mark_poison j r w = Inr (j', w') \<Longrightarrow> keeps j w j' w' \<and> stored_live j' w' \<and> j_state j' = POISON"
  using mark_poison_step [of j r w j' w'] keeps_move [of j POISON w j' w']
  by (auto simp: after_running job_terminal_def)

lemma save_checkpoint_keeps:
  "save_checkpoint j w = (j', w') \<Longrightarrow>
     keeps j w j' w' \<and> stored_live j' w' \<and> j_state j' = j_state j \<and> j_result j' = j_result j"
  using save_checkpoint_step [of j w j' w'] keeps_quiet [of j w j' w'] by blast

lemma append_lifecycle_event_keeps:
  "append_lifecycle_event j ev p w = (j', w') \<Longrightarrow>
     keeps j w j' w' \<and> stored_live j' w' \<and> j_state j' = j_state j"
  using append_lifecycle_event_step [of j ev p w j' w'] keeps_quiet [of j w j' w'] by blast

lemma issue_resume_token_keeps:
  "issue_resume_token j w = (j', w') \<Longrightarrow>
     keeps j w j' w' \<and> stored_live j' w' \<and> j_state j' = j_state j"
  using issue_resume_token_step [of j w j' w'] keeps_quiet [of j w j' w'] by blast

lemma append_cycle_trace_keeps:
  "append_cycle_trace j ev p w = (j', w') \<Longrightarrow>
     keeps j w j' w' \<and> stored_live j' w' \<and> j_state j' = j_state j"
  using append_cycle_trace_step [of j ev p w j' w'] keeps_quiet [of j w j' w'] by blast

lemmas cp_keeps = mark_running_keeps mark_succeeded_keeps mark_failed_keeps mark_poison_keeps
  save_checkpoint_keeps append_lifecycle_event_keeps issue_resume_token_keeps
  append_cycle_trace_keeps

text \<open>A running job is never refused by the calls that end it.\<close>

lemma mark_running_job:
  assumes "j_state j = RUNNING"
  shows "\<exists>s. mark_succeeded j r w = Inr s" "\<exists>s. mark_failed j r w = Inr s"
    "\<exists>s. mark_poison j x w = Inr s"
  using assms mark_raises(2-4) [of j] by (metis after_running job_terminal_def insertCI sum.exhaust)+

subsection \<open>The contract of a stage\<close>

abbreviation ps_keeps :: "pipeline_state \<Rightarrow> pipeline_state \<Rightarrow> bool" where
  "ps_keeps st st' \<equiv> keeps (ps_job st) (ps_rt st) (ps_job st') (ps_rt st')"

abbreviation ps_state :: "pipeline_state \<Rightarrow> job_state" where
  "ps_state st \<equiv> j_state (ps_job st)"

text \<open>
  Where a stage may leave the job: to go on, or where it raises, it is still running; where it
  returns, it is finished and the store holds it.
\<close>

fun signal_ok :: "stage_signal \<Rightarrow> pipeline_state \<Rightarrow> bool" where
  "signal_ok (Raise e) st \<longleftrightarrow> ps_state st = RUNNING"
| "signal_ok Continue st \<longleftrightarrow> ps_state st = RUNNING"
| "signal_ok Return st \<longleftrightarrow> finished (ps_job st) (ps_rt st)"

text \<open>The first stage sees jobs in any state and may also refuse one, which then is as it was.\<close>

locale pipeline =
  fixes first :: stage and rest :: "stage list"
  assumes first_ok: "first st = Some (sig, st') \<Longrightarrow>
      ps_keeps st st' \<and> (signal_ok sig st' \<or> (\<exists>e. sig = Raise e) \<and> ps_state st' = ps_state st)"
    and rest_ok: "stage \<in> set rest \<Longrightarrow> ps_state st = RUNNING \<Longrightarrow> stage st = Some (sig, st') \<Longrightarrow>
      ps_keeps st st' \<and> signal_ok sig st'"
    and rest_nonempty: "rest \<noteq> []"
    and last_ends: "ps_state st = RUNNING \<Longrightarrow> last rest st \<noteq> Some (Continue, st')"
begin

lemma run_rest:
  "set stages \<subseteq> set rest \<Longrightarrow> stages \<noteq> [] \<Longrightarrow> last stages = last rest \<Longrightarrow> ps_state st = RUNNING \<Longrightarrow>
     pipeline_run stages st = Some (sig, st') \<Longrightarrow>
     ps_keeps st st' \<and> signal_ok sig st' \<and> sig \<noteq> Continue"
proof (induction stages arbitrary: st)
  case Nil
  then show ?case by simp
next
  case (Cons s ss)
  obtain sig1 st1 where s1: "s st = Some (sig1, st1)"
    using Cons.prems(5) by (auto split: option.splits)
  have ok: "ps_keeps st st1" "signal_ok sig1 st1"
    using rest_ok [of s st sig1 st1] s1 Cons.prems(1,4) by auto
  show ?case
  proof (cases "sig1 = Continue")
    case True
    have "ss \<noteq> []"
      using True s1 last_ends [OF Cons.prems(4)] Cons.prems(3) by (metis last_ConsL)
    with Cons True s1 ok have "ps_keeps st1 st' \<and> signal_ok sig st' \<and> sig \<noteq> Continue"
      by (intro Cons.IH) auto
    with ok(1) show ?thesis using keeps_trans by blast
  next
    case False
    with Cons.prems(5) s1 have "sig1 = sig" "st1 = st'"
      by (auto split: stage_signal.splits)
    with False ok show ?thesis by simp
  qed
qed

lemma run_ok:
  assumes "pipeline_run (first # rest) st = Some (sig, st')"
  shows "ps_keeps st st' \<and> sig \<noteq> Continue
    \<and> (signal_ok sig st' \<or> (\<exists>e. sig = Raise e) \<and> ps_state st' = ps_state st)"
proof -
  obtain sig1 st1 where s1: "first st = Some (sig1, st1)"
    using assms by (auto split: option.splits)
  show ?thesis
  proof (cases "sig1 = Continue")
    case True
    with first_ok [OF s1] have "ps_state st1 = RUNNING" "ps_keeps st st1" by auto
    moreover from True assms s1 have "pipeline_run rest st1 = Some (sig, st')" by simp
    ultimately show ?thesis
      using run_rest [of rest st1 sig st'] rest_nonempty keeps_trans by blast
  next
    case False
    with assms s1 have "sig1 = sig" "st1 = st'" by (auto split: stage_signal.splits)
    with False first_ok [OF s1] show ?thesis by simp
  qed
qed

end

subsection \<open>The stages keep the contract\<close>

lemma ps_set_simps [simp]:
  "ps_job (ps_set st s) = fst s" "ps_rt (ps_set st s) = snd s"
  "ps_degraded (ps_set st s) = ps_degraded st"
  by (simp_all add: ps_set_def)

lemma crash_recovery_stage_cases:
  "crash_recovery_stage st =
     (let j = ps_job st; w = ps_rt st
      in if j_execution_context j \<noteq> None \<and> j_state j = RUNNING then
           let (j, w) = append_lifecycle_event j ''crash_recovery''
                 [(''reason'', JStr ''Crash detected: job left in RUNNING state with checkpoint'')] w
           in Some (Continue, ps_set st (j\<lparr>j_crash_count := j_crash_count j + 1\<rparr>, w))
         else if j_state j = POISON then
           Some (Return, ps_set st (append_lifecycle_event j ''poison_skip''
             [(''reason'', JStr (''Job is POISON '' @ em_dash @ '' skipping execution''))] w))
         else
           let (j, w) = (if j_resume_token j = None then issue_resume_token j w else (j, w))
           in (case mark_running j w of
                 Inl e \<Rightarrow> Some (Raise e, ps_set st (j, w))
               | Inr s \<Rightarrow> Some (Continue, ps_set st s)))"
  unfolding crash_recovery_stage_def Let_def crash_evaluate_recovers
  by (simp add: crash_evaluate_def)

lemma crash_recovery_stage_ok:
  assumes "crash_recovery_stage st = Some (sig, st')"
  shows "ps_keeps st st'
    \<and> (signal_ok sig st' \<or> (\<exists>e. sig = Raise e) \<and> ps_state st' = ps_state st)"
proof -
  let ?j = "ps_job st" and ?w = "ps_rt st"
  consider (recover) "j_execution_context ?j \<noteq> None \<and> j_state ?j = RUNNING"
    | (poison) "j_state ?j = POISON"
    | (normal) "\<not> (j_execution_context ?j \<noteq> None \<and> j_state ?j = RUNNING)" "j_state ?j \<noteq> POISON"
    by blast
  then show ?thesis
  proof cases
    case recover
    obtain j1 w1 where a: "append_lifecycle_event ?j ''crash_recovery''
        [(''reason'', JStr ''Crash detected: job left in RUNNING state with checkpoint'')] ?w
        = (j1, w1)" by (metis surj_pair)
    have k: "keeps ?j ?w j1 w1" "j_state j1 = RUNNING"
      using append_lifecycle_event_keeps [OF a] recover by simp_all
    have "keeps ?j ?w (j1\<lparr>j_crash_count := j_crash_count j1 + 1\<rparr>) w1"
      using k(1) by (simp add: keeps_def trace_ok_def)
    with k assms recover a show ?thesis
      by (auto simp: crash_recovery_stage_cases Let_def)
  next
    case poison
    obtain j1 w1 where a: "append_lifecycle_event ?j ''poison_skip''
        [(''reason'', JStr (''Job is POISON '' @ em_dash @ '' skipping execution''))] ?w
        = (j1, w1)" by (metis surj_pair)
    with assms poison have "sig = Return" "st' = ps_set st (j1, w1)"
      by (auto simp: crash_recovery_stage_cases Let_def)
    with append_lifecycle_event_keeps [OF a] poison show ?thesis
      by (simp add: job_terminal_def finished_def)
  next
    case normal
    obtain j1 w1 where a: "(if j_resume_token ?j = None then issue_resume_token ?j ?w else (?j, ?w))
        = (j1, w1)" by (metis surj_pair)
    then have k: "keeps ?j ?w j1 w1" "j_state j1 = j_state ?j"
      using issue_resume_token_keeps [of ?j ?w j1 w1] by (auto split: if_splits)
    show ?thesis
    proof (cases "mark_running j1 w1")
      case (Inl e)
      with assms normal a have "sig = Raise e" "st' = ps_set st (j1, w1)"
        by (auto simp: crash_recovery_stage_cases Let_def)
      with k show ?thesis by simp
    next
      case (Inr s)
      obtain j2 w2 where s: "s = (j2, w2)" by (cases s)
      with assms normal a Inr have "sig = Continue" "st' = ps_set st (j2, w2)"
        by (auto simp: crash_recovery_stage_cases Let_def)
      with mark_running_keeps [OF Inr [unfolded s]] k(1) show ?thesis
        by (auto intro: keeps_trans)
    qed
  qed
qed

lemma idempotency_stage_ok:
  assumes "idempotency_stage ctx st = Some (sig, st')"
  shows "ps_keeps st st' \<and> sig = Continue \<and> ps_state st' = ps_state st"
proof (cases "\<exists>stored. px_stored_job ctx = Some stored \<and> j_resume_token stored \<noteq> None
    \<and> \<not> validate_resume_token (j_resume_token stored) (j_resume_token (ps_job st))")
  case True
  then obtain stored where c: "px_stored_job ctx = Some stored" "j_resume_token stored \<noteq> None"
    "\<not> validate_resume_token (j_resume_token stored) (j_resume_token (ps_job st))" by blast
  define j where "j = (ps_job st)\<lparr>j_execution_context := j_execution_context stored,
                         j_resume_token := j_resume_token stored\<rparr>"
  obtain j1 w1 where a: "append_lifecycle_event j ''idempotency_recovery''
      [(''reason'', JStr (''Resume token mismatch '' @ em_dash
         @ '' re-hydrated from checkpoint''))] (ps_rt st) = (j1, w1)" by (metis surj_pair)
  have "sig = Continue" "st' = ps_set st (j1, w1)"
    using assms c a by (auto simp: idempotency_stage_def Let_def j_def)
  moreover have "keeps (ps_job st) (ps_rt st) j1 w1"
    by (rule keeps_cong [of j "ps_rt st"]) (use append_lifecycle_event_keeps [OF a] in \<open>simp_all add: j_def\<close>)
  ultimately show ?thesis using append_lifecycle_event_keeps [OF a] by (simp add: j_def)
next
  case False
  with assms show ?thesis
    by (auto simp: idempotency_stage_def Let_def split: option.splits if_splits)
qed

lemma succeed_with_ok:
  assumes "ps_state st = RUNNING" "succeed_with result st = (sig, st')"
  shows "ps_keeps st st' \<and> sig = Return \<and> ps_state st' = SUCCEEDED
    \<and> stored_live (ps_job st') (ps_rt st') \<and> ps_degraded st' = ps_degraded st
    \<and> j_result (ps_job st') = Some (JObj result)"
proof -
  obtain j w where m: "mark_succeeded (ps_job st) (JObj result) (ps_rt st) = Inr (j, w)"
    using mark_running_job(1) [OF assms(1)] by (metis surj_pair)
  obtain j1 w1 where s: "save_checkpoint j w = (j1, w1)" by (metis surj_pair)
  have "sig = Return" "st' = ps_set st (j1, w1)"
    using assms(2) m s by (simp_all add: succeed_with_def)
  with mark_succeeded_keeps [OF m] save_checkpoint_keeps [OF s] show ?thesis
    by (auto intro: keeps_trans)
qed

lemma clock_keeps:
  "degraded_evaluate dm ctx w = (d, w') \<Longrightarrow> keeps j w j w'"
  "check_recovery dm ctx w = (d, w') \<Longrightarrow> keeps j w j w'"
  using degraded_evaluate_rt [of dm ctx w d w'] check_recovery_rt [of dm ctx w d w']
  by (simp_all add: keeps_def)

lemma keeps_result [simp]:
  "keeps j w (j\<lparr>j_result := r\<rparr>) w' = keeps j w j w'"
  "keeps (j\<lparr>j_result := r\<rparr>) w j' w' = keeps j w j' w'"
  by (simp_all add: keeps_def trace_ok_def)

lemma handle_degraded_cycle_ok:
  assumes "ps_state st = RUNNING" "handle_degraded_cycle dm ctx st = Some (sig, st')"
  shows "ps_keeps st st' \<and> signal_ok sig st'"
proof -
  let ?j = "ps_job st"
  obtain d w where d: "check_recovery dm (degraded_context_of dm ctx ?j True) (ps_rt st) = (d, w)"
    by (metis surj_pair)
  have kw: "keeps ?j (ps_rt st) ?j w" using d by (rule clock_keeps(2))
  show ?thesis
  proof (cases "\<not> dd_enter_degraded d \<and> dd_recovery_event d \<noteq> None")
    case True
    then obtain ev where ev: "dd_recovery_event d = Some ev" by blast
    obtain j1 w1 where a: "append_lifecycle_event ?j ''worker_recovered''
        (recovered_event_to_dict ev) w = (j1, w1)" by (metis surj_pair)
    have "sig = Continue" "st' = ps_set (st\<lparr>ps_degraded := False\<rparr>) (j1, w1)"
      using assms(2) True d ev a by (auto simp: handle_degraded_cycle_def)
    with append_lifecycle_event_keeps [OF a] kw assms(1) show ?thesis
      by (auto intro: keeps_trans)
  next
    case False
    define result where "result = fallback_to_dict
      \<lparr>so_status = ''degraded'',
       so_reason = (case dd_reason d of
            Some r \<Rightarrow> if r \<noteq> [] then r else ''still_degraded''
          | None \<Rightarrow> ''still_degraded''),
       so_detail = ''Worker is in degraded mode and awaiting recovery signals.'',
       so_job_id = j_id ?j, so_fallback_action = ''short_circuit_and_acknowledge'',
       so_recovery_hint = ''Worker is waiting for S1/S2/S3 stability signals.''\<rparr>"
    define st0 where "st0 = ps_set st (?j\<lparr>j_result := Some (JObj result)\<rparr>, w)"
    have e: "succeed_with result st0 = (sig, st')"
      using assms(2) False d
      by (auto simp: handle_degraded_cycle_def result_def st0_def Let_def
          split: option.splits bool.splits)
    have "ps_state st0 = RUNNING" using assms(1) by (simp add: st0_def)
    from succeed_with_ok [OF this e] kw show ?thesis
      by (auto simp: st0_def job_terminal_def finished_def intro: keeps_trans)
  qed
qed

lemma enter_degraded_ok:
  assumes "ps_state st = RUNNING" "enter_degraded d st = (sig, st')"
  shows "ps_keeps st st' \<and> sig = Return \<and> ps_state st' = SUCCEEDED
    \<and> finished (ps_job st') (ps_rt st') \<and> ps_degraded st'"
proof -
  define result where "result = (case dd_fallback_output d of
            Some f \<Rightarrow> fallback_to_dict f
          | None \<Rightarrow>
              [(''status'', JStr ''degraded''),
               (''reason'', JStr (case dd_reason d of
                    Some r \<Rightarrow> if r \<noteq> [] then r else ''unknown'' | None \<Rightarrow> ''unknown'')),
               (''detail'', JStr ''Worker entered degraded mode.''),
               (''job_id'', JStr (j_id (ps_job st))),
               (''fallback_action'', JStr ''short_circuit_and_acknowledge''),
               (''recovery_hint'', JStr ''Awaiting S1/S2/S3 stability signals.'')])"
  define j where "j = (ps_job st)\<lparr>j_result := Some (JObj result)\<rparr>"
  obtain j1 w1 where a: "(case dd_escalation_event d of
                 Some ev \<Rightarrow> append_lifecycle_event j ''worker_degraded'' (degraded_event_to_dict ev)
                              (ps_rt st)
               | None \<Rightarrow> (j, ps_rt st)) = (j1, w1)" by (metis surj_pair)
  have e: "succeed_with result (ps_set (st\<lparr>ps_degraded := True\<rparr>) (j1, w1)) = (sig, st')"
    using assms(2) a
    unfolding enter_degraded_def Let_def result_def [symmetric] j_def [symmetric] by simp
  have k: "keeps (ps_job st) (ps_rt st) j1 w1 \<and> j_state j1 = RUNNING"
    using a assms(1) append_lifecycle_event_keeps [of j]
    by (auto simp: j_def split: option.splits)
  have "ps_state (ps_set (st\<lparr>ps_degraded := True\<rparr>) (j1, w1)) = RUNNING" using k by simp
  from succeed_with_ok [OF this e] k show ?thesis
    by (auto simp: finished_def job_terminal_def intro: keeps_trans)
qed

lemma degraded_mode_stage_ok:
  assumes "ps_state st = RUNNING" "degraded_mode_stage dm ctx st = Some (sig, st')"
  shows "ps_keeps st st' \<and> signal_ok sig st'"
proof (cases "ps_degraded st")
  case True
  with assms handle_degraded_cycle_ok show ?thesis by (simp add: degraded_mode_stage_def)
next
  case False
  obtain d w where d: "degraded_evaluate dm (degraded_context_of dm ctx (ps_job st) False) (ps_rt st)
      = (d, w)" by (metis surj_pair)
  have kw: "keeps (ps_job st) (ps_rt st) (ps_job st) w" using d by (rule clock_keeps(1))
  show ?thesis
  proof (cases "dd_enter_degraded d")
    case True
    with False d assms(2) have "enter_degraded d (st\<lparr>ps_rt := w\<rparr>) = (sig, st')"
      by (simp add: degraded_mode_stage_def)
    from enter_degraded_ok [OF _ this] assms(1) kw show ?thesis
      by (auto simp: job_terminal_def intro: keeps_trans)
  next
    case notenter: False
    with False d assms(2) have "sig = Continue" "st' = st\<lparr>ps_rt := w\<rparr>"
      by (auto simp: degraded_mode_stage_def)
    with kw assms(1) show ?thesis by simp
  qed
qed

subsection \<open>One turn of the execution loop\<close>

lemma cp_step_keeps:
  assumes "cp_step ts j w j' w'" "ts = [] \<or> ts = [(j_state j, t)] \<and> can_transition (j_state j) t"
  shows "keeps j w j' w' \<and> stored_live j' w' \<and> rt_calls w' = rt_calls w
    \<and> rt_slept w' = rt_slept w \<and> j_state j' = (if ts = [] then j_state j else t)"
proof -
  have "rt_calls w' = rt_calls w" "rt_slept w' = rt_slept w"
    using assms(1) by (simp_all add: cp_step_def)
  moreover have "keeps j w j' w' \<and> stored_live j' w' \<and> j_state j' = (if ts = [] then j_state j else t)"
    using assms(2)
  proof
    assume "ts = []"
    with assms(1) show ?thesis using keeps_quiet [of j w j' w'] by simp
  next
    assume "ts = [(j_state j, t)] \<and> can_transition (j_state j) t"
    with assms(1) show ?thesis using keeps_move [of j t w j' w'] by simp
  qed
  ultimately show ?thesis by blast
qed

lemma fail_panicked_eq:
  assumes "j_state j = RUNNING" "fail_panicked p j w = r"
  shows "\<exists>j' w'. r = Finished Return j' w'
    \<and> cp_step [(RUNNING, FAILED)] (j\<lparr>j_panic_count := j_panic_count j + 1,
        j_consecutive_failures := j_consecutive_failures j + 1\<rparr>) w j' w'
    \<and> j_result j' = Some (structured_error (sf_error_type (pn_safe_failure p))
        (sf_message (pn_safe_failure p)))"
proof -
  define j0 where "j0 = j\<lparr>j_panic_count := j_panic_count j + 1,
        j_consecutive_failures := j_consecutive_failures j + 1\<rparr>"
  define err where "err = structured_error (sf_error_type (pn_safe_failure p))
        (sf_message (pn_safe_failure p))"
  have run: "j_state j0 = RUNNING" using assms(1) by (simp add: j0_def)
  obtain j1 w1 where m: "mark_failed j0 err w = Inr (j1, w1)"
    using mark_running_job(2) [OF run] by (metis surj_pair)
  obtain j2 w2 where s: "save_checkpoint j1 w1 = (j2, w2)" by (metis surj_pair)
  have "r = Finished Return j2 w2"
    using assms(2) m s unfolding fail_panicked_def Let_def j0_def err_def by simp
  moreover have "cp_step [(RUNNING, FAILED)] j0 w j2 w2"
    using mark_failed_step [OF m] save_checkpoint_step [OF s] run
    by (auto intro: cp_step_quiet_right)
  ultimately show ?thesis
    using mark_failed_step [OF m] save_checkpoint_step [OF s] by (simp add: j0_def err_def)
qed

lemma retry_cycle_eq:
  assumes "0 \<le> delay"
  shows "\<exists>j' w'. retry_cycle delay attempt j w = Again attempt j' w'
    \<and> cp_step [] (count_failure j) (w\<lparr>rt_slept := rt_slept w @ [delay]\<rparr>) j' w'"
proof -
  let ?w = "w\<lparr>rt_slept := rt_slept w @ [delay]\<rparr>"
  obtain j1 w1 where a: "append_cycle_trace (count_failure j) ''cycle_end''
      [(''done'', JBool False), (''retry'', JBool True), (''delay'', JNum delay),
       (''attempt'', JInt (attempt - 1))] ?w = (j1, w1)" by (metis surj_pair)
  obtain j2 w2 where s: "save_checkpoint j1 w1 = (j2, w2)" by (metis surj_pair)
  obtain j3 w3 where i: "issue_resume_token j2 w2 = (j3, w3)" by (metis surj_pair)
  have "retry_cycle delay attempt j w = Again attempt j3 w3"
    using assms a s i by (simp add: retry_cycle_def Let_def)
  moreover have "cp_step [] (count_failure j) ?w j3 w3"
    using append_cycle_trace_step [OF a] save_checkpoint_step [OF s] issue_resume_token_step [OF i]
      cp_step_quiet_right by blast
  ultimately show ?thesis by blast
qed

lemma record_cycle_frame [simp]:
  "j_id (record_cycle out j) = j_id j" "j_state (record_cycle out j) = j_state j"
  "j_trace (record_cycle out j) = j_trace j" "j_payload (record_cycle out j) = j_payload j"
  "j_depends_on (record_cycle out j) = j_depends_on j"
  "j_failure_count (record_cycle out j) = 0"
  "j_consecutive_failures (record_cycle out j) = 0"
  "j_panic_count (record_cycle out j) = j_panic_count j"
  "j_crash_count (record_cycle out j) = j_crash_count j"
  by (simp_all add: record_cycle_def Let_def split: option.splits)

abbreviation says_done :: "json pydict \<Rightarrow> bool" where
  "says_done out \<equiv> json_truthy (dict_get_or out ''done'' (JBool False))"

lemma finish_cycle_eq:
  assumes "j_state j = RUNNING"
  shows "\<exists>j' w'. if says_done out
      then finish_cycle out j w = Finished Return j' w'
        \<and> cp_step [(RUNNING, SUCCEEDED)] (record_cycle out j) w j' w'
        \<and> j_result j' = Some (JObj out)
      else finish_cycle out j w = Again 1 j' w' \<and> cp_step [] (record_cycle out j) w j' w'"
proof -
  let ?j = "record_cycle out j"
  obtain j1 w1 where a: "append_cycle_trace ?j ''cycle_end'' [(''done'', JBool (says_done out))] w
      = (j1, w1)" by (metis surj_pair)
  obtain j2 w2 where s: "save_checkpoint j1 w1 = (j2, w2)" by (metis surj_pair)
  obtain j3 w3 where i: "issue_resume_token j2 w2 = (j3, w3)" by (metis surj_pair)
  have q: "cp_step [] ?j w j3 w3"
    using append_cycle_trace_step [OF a] save_checkpoint_step [OF s] issue_resume_token_step [OF i]
      cp_step_quiet_right by blast
  show ?thesis
  proof (cases "says_done out")
    case False
    with a s i q show ?thesis by (auto simp: finish_cycle_def Let_def)
  next
    case True
    have run: "j_state j3 = RUNNING" using q assms by (simp add: cp_step_def)
    obtain j4 w4 where m: "mark_succeeded j3 (JObj out) w3 = Inr (j4, w4)"
      using mark_running_job(1) [OF run] by (metis surj_pair)
    obtain j5 w5 where s5: "save_checkpoint j4 w4 = (j5, w5)" by (metis surj_pair)
    have "cp_step ([] @ [(RUNNING, SUCCEEDED)]) ?j w j5 w5"
      by (rule cp_step_trans [OF q])
        (use mark_succeeded_step [OF m] save_checkpoint_step [OF s5] run in
          \<open>auto intro: cp_step_quiet_right\<close>)
    moreover have "finish_cycle out j w = Finished Return j5 w5"
      using True a s i m s5 by (simp add: finish_cycle_def Let_def)
    ultimately show ?thesis
      using True mark_succeeded_step [OF m] save_checkpoint_step [OF s5] by auto
  qed
qed

text \<open>
  \<open>cyc j w j' w' s ds\<close>: one executor call was made, the delays \<open>ds\<close> were slept, the job ended
  in state \<open>s\<close> and everything else is kept.
\<close>

definition cyc :: "job \<Rightarrow> rt \<Rightarrow> job \<Rightarrow> rt \<Rightarrow> job_state \<Rightarrow> rat list \<Rightarrow> bool" where
  "cyc j w j' w' s ds \<longleftrightarrow>
     keeps j w j' w' \<and> j_state j' = s \<and> rt_calls w' = Suc (rt_calls w)
     \<and> rt_slept w' = rt_slept w @ ds"

definition cycle_outcome :: "executor \<Rightarrow> job \<Rightarrow> rt \<Rightarrow> json pydict result" where
  "cycle_outcome ex j w =
     (let (j1, w1) = append_cycle_trace j ''cycle_start'' [] w
      in ex (rt_calls w1) (j_payload j1) (j_execution_context j1) (j_resume_token j1))"

lemma cycI:
  assumes start: "cp_step [] j w j1 w1"
    and rest: "cp_step ts j2 w2 j' w'" "ts = [] \<or> ts = [(j_state j2, s)] \<and> can_transition (j_state j2) s"
      "ts = [] \<Longrightarrow> s = j_state j"
    and same: "j_id j2 = j_id j1" "j_payload j2 = j_payload j1" "j_depends_on j2 = j_depends_on j1"
      "j_trace j2 = j_trace j1" "j_state j2 = j_state j1"
      "rt_store w2 = rt_store w1" "rt_joins w2 = rt_joins w1" "rt_queue w2 = rt_queue w1"
      "rt_sent w2 = rt_sent w1"
    and calls: "rt_calls w2 = Suc (rt_calls w1)" and slept: "rt_slept w2 = rt_slept w1 @ ds"
  shows "cyc j w j' w' s ds \<and> stored_live j' w'"
proof -
  note k = cp_step_keeps [OF rest(1,2)]
  have "keeps j1 w1 j' w'" using keeps_cong [of j2 w2 j' w' j1 w1] k same by simp
  moreover have "keeps j w j1 w1" and "j_state j1 = j_state j"
    using cp_step_keeps [OF start, of PENDING] by simp_all
  moreover have "rt_calls w1 = rt_calls w" "rt_slept w1 = rt_slept w"
    using start by (simp_all add: cp_step_def)
  ultimately show ?thesis
    using k same calls slept rest(3) keeps_trans unfolding cyc_def by (cases "ts = []") auto
qed

definition cycle_verdict ::
  "executor \<Rightarrow> retry_policy \<Rightarrow> int option \<Rightarrow> int \<Rightarrow> job \<Rightarrow> rt \<Rightarrow> tool_output result"
where
  "cycle_verdict ex policy det attempt j w =
     tool_execute policy det (cycle_outcome ex j w) attempt (Some (j_id j)) (j_failure_count j)"

text \<open>The start of a turn, and the branch its verdict selects.\<close>

lemma execution_cycle_start:
  assumes run: "j_state j = RUNNING"
  obtains j1 w1 w2 where "cp_step [] j w j1 w1" "w2 = w1\<lparr>rt_calls := Suc (rt_calls w1)\<rparr>"
    "j_id j1 = j_id j" "j_failure_count j1 = j_failure_count j" "j_state j1 = RUNNING"
    "execution_cycle ex policy det attempt j w =
      (case panic_wrap (cycle_verdict ex policy det attempt j w) of
           Inl panic \<Rightarrow> fail_panicked panic j1 w2
         | Inr (PoisonInstruction _ reason) \<Rightarrow>
             (let j = count_failure j1
              in case mark_poison j reason w2 of
                   Inl e \<Rightarrow> Finished (Raise e) j w2
                 | Inr (j, w) \<Rightarrow> Finished Return j w)
         | Inr (RetryInstruction delay next_attempt) \<Rightarrow> retry_cycle delay next_attempt j1 w2
         | Inr (ToolOutput out) \<Rightarrow> finish_cycle out j1 w2)"
proof -
  obtain j1 w1 where a: "append_cycle_trace j ''cycle_start'' [] w = (j1, w1)"
    by (metis surj_pair)
  have start: "cp_step [] j w j1 w1" using append_cycle_trace_step [OF a] by blast
  then have id: "j_id j1 = j_id j" "j_failure_count j1 = j_failure_count j" "j_state j1 = RUNNING"
    using run by (simp_all add: cp_step_def)
  show ?thesis
    by (rule that [OF start refl id])
      (use a id in \<open>simp add: execution_cycle_def cycle_verdict_def cycle_outcome_def Let_def\<close>)
qed

lemma running_moves [simp]:
  "can_transition RUNNING SUCCEEDED" "can_transition RUNNING FAILED" "can_transition RUNNING POISON"
  by (simp_all add: can_transition_cases)

lemma execution_cycle_raised:
  assumes run: "j_state j = RUNNING" and v: "cycle_verdict ex policy det attempt j w = Inl e"
  shows "\<exists>j' w'. execution_cycle ex policy det attempt j w = Finished Return j' w'
    \<and> cyc j w j' w' FAILED [] \<and> stored_live j' w'
    \<and> j_result j' = Some (structured_error (exn_type e) (exn_message e))"
proof -
  obtain j1 w1 w2 where start: "cp_step [] j w j1 w1" and w2: "w2 = w1\<lparr>rt_calls := Suc (rt_calls w1)\<rparr>"
    and id: "j_id j1 = j_id j" "j_state j1 = RUNNING"
    and c: "execution_cycle ex policy det attempt j w = fail_panicked (handle_exception e) j1 w2"
    by (rule execution_cycle_start [OF run, of w ex policy det attempt])
      (simp add: v panic_wrap_def)
  obtain j' w' where r: "execution_cycle ex policy det attempt j w = Finished Return j' w'"
    and s: "cp_step [(RUNNING, FAILED)] (j1\<lparr>j_panic_count := j_panic_count j1 + 1,
        j_consecutive_failures := j_consecutive_failures j1 + 1\<rparr>) w2 j' w'"
    and res: "j_result j' = Some (structured_error (exn_type e) (exn_message e))"
    using fail_panicked_eq [OF id(2) c [symmetric]]
    by (auto simp: handle_exception_def from_exception_def Let_def)
  have "cyc j w j' w' FAILED [] \<and> stored_live j' w'"
    by (rule cycI [OF start s]) (simp_all add: id w2)
  with r res show ?thesis by blast
qed

lemma execution_cycle_poison:
  assumes run: "j_state j = RUNNING"
    and v: "cycle_verdict ex policy det attempt j w = Inr (PoisonInstruction b reason)"
  shows "\<exists>j' w'. execution_cycle ex policy det attempt j w = Finished Return j' w'
    \<and> cyc j w j' w' POISON [] \<and> stored_live j' w'"
proof -
  obtain j1 w1 w2 where start: "cp_step [] j w j1 w1" and w2: "w2 = w1\<lparr>rt_calls := Suc (rt_calls w1)\<rparr>"
    and id: "j_id j1 = j_id j" "j_state j1 = RUNNING"
    and c: "execution_cycle ex policy det attempt j w = (case mark_poison (count_failure j1) reason w2 of
          Inl e \<Rightarrow> Finished (Raise e) (count_failure j1) w2 | Inr (j, w) \<Rightarrow> Finished Return j w)"
    by (rule execution_cycle_start [OF run, of w ex policy det attempt])
      (simp add: v panic_wrap_def Let_def)
  have run1: "j_state (count_failure j1) = RUNNING" using id by (simp add: count_failure_def)
  obtain j' w' where m: "mark_poison (count_failure j1) reason w2 = Inr (j', w')"
    using mark_running_job(3) [OF run1] by (metis surj_pair)
  have s: "cp_step [(RUNNING, POISON)] (count_failure j1) w2 j' w'"
    using mark_poison_step [OF m] run1 by auto
  have "cyc j w j' w' POISON [] \<and> stored_live j' w'"
    by (rule cycI [OF start s]) (simp_all add: id w2 count_failure_def)
  with c m show ?thesis by simp
qed

lemma execution_cycle_retry:
  assumes run: "j_state j = RUNNING"
    and v: "cycle_verdict ex policy det attempt j w = Inr (RetryInstruction d a)"
  shows "if d < 0 then \<exists>e j' w'. execution_cycle ex policy det attempt j w = Finished (Raise e) j' w'
        \<and> cyc j w j' w' RUNNING []
      else \<exists>j' w'. execution_cycle ex policy det attempt j w = Again a j' w'
        \<and> cyc j w j' w' RUNNING [d] \<and> j_failure_count j' = j_failure_count j + 1"
proof -
  obtain j1 w1 w2 where start: "cp_step [] j w j1 w1" and w2: "w2 = w1\<lparr>rt_calls := Suc (rt_calls w1)\<rparr>"
    and id: "j_id j1 = j_id j" "j_state j1 = RUNNING" "j_failure_count j1 = j_failure_count j"
    and c: "execution_cycle ex policy det attempt j w = retry_cycle d a j1 w2"
    by (rule execution_cycle_start [OF run, of w ex policy det attempt])
      (simp add: v panic_wrap_def)
  show ?thesis
  proof (cases "d < 0")
    case True
    have "keeps j w j1 w1" "rt_calls w1 = rt_calls w" "rt_slept w1 = rt_slept w"
      using cp_step_keeps [OF start, of PENDING] by simp_all
    then have "cyc j w (count_failure j1) w2 RUNNING []"
      using id(2) by (simp add: cyc_def w2 keeps_def count_failure_def trace_ok_def)
    with True c show ?thesis by (simp add: retry_cycle_def Let_def)
  next
    case False
    obtain j' w' where r: "retry_cycle d a j1 w2 = Again a j' w'"
      and s: "cp_step [] (count_failure j1) (w2\<lparr>rt_slept := rt_slept w2 @ [d]\<rparr>) j' w'"
      using retry_cycle_eq [of d a j1 w2] False by auto
    have "cyc j w j' w' RUNNING [d] \<and> stored_live j' w'"
      by (rule cycI [OF start s]) (simp_all add: id run w2 count_failure_def)
    moreover have "j_failure_count j' = j_failure_count j + 1"
      using s id by (simp add: cp_step_def count_failure_def)
    ultimately show ?thesis using False c r by simp
  qed
qed

lemma execution_cycle_output:
  assumes run: "j_state j = RUNNING"
    and v: "cycle_verdict ex policy det attempt j w = Inr (ToolOutput out)"
  shows "\<exists>j' w'. if says_done out
      then execution_cycle ex policy det attempt j w = Finished Return j' w'
        \<and> cyc j w j' w' SUCCEEDED [] \<and> stored_live j' w' \<and> j_result j' = Some (JObj out)
      else execution_cycle ex policy det attempt j w = Again 1 j' w'
        \<and> cyc j w j' w' RUNNING [] \<and> j_failure_count j' = 0"
proof -
  obtain j1 w1 w2 where start: "cp_step [] j w j1 w1" and w2: "w2 = w1\<lparr>rt_calls := Suc (rt_calls w1)\<rparr>"
    and id: "j_id j1 = j_id j" "j_state j1 = RUNNING"
    and c: "execution_cycle ex policy det attempt j w = finish_cycle out j1 w2"
    by (rule execution_cycle_start [OF run, of w ex policy det attempt])
      (simp add: v panic_wrap_def)
  show ?thesis
  proof (cases "says_done out")
    case True
    obtain j' w' where f: "finish_cycle out j1 w2 = Finished Return j' w'"
      and s: "cp_step [(RUNNING, SUCCEEDED)] (record_cycle out j1) w2 j' w'"
      and res: "j_result j' = Some (JObj out)"
      using finish_cycle_eq [OF id(2), of out w2] True by auto
    have "cyc j w j' w' SUCCEEDED [] \<and> stored_live j' w'"
      by (rule cycI [OF start s]) (simp_all add: id w2)
    with True c f res show ?thesis by auto
  next
    case False
    obtain j' w' where f: "finish_cycle out j1 w2 = Again 1 j' w'"
      and s: "cp_step [] (record_cycle out j1) w2 j' w'"
      using finish_cycle_eq [OF id(2), of out w2] False by auto
    have "cyc j w j' w' RUNNING [] \<and> stored_live j' w'"
      by (rule cycI [OF start s]) (simp_all add: id run w2)
    moreover have "j_failure_count j' = 0" using s by (simp add: cp_step_def)
    ultimately show ?thesis using False c f by auto
  qed
qed

subsection \<open>The whole loop\<close>

lemma cyc_keeps: "cyc j w j' w' s ds \<Longrightarrow> keeps j w j' w' \<and> j_state j' = s"
  by (simp add: cyc_def)

text \<open>One turn: it ends well, raises with the job still running, or goes on with it running.\<close>

lemma execution_cycle_ok:
  assumes "j_state j = RUNNING"
  shows "case execution_cycle ex policy det attempt j w of
      Finished sig j' w' \<Rightarrow> keeps j w j' w' \<and> sig \<noteq> Continue
        \<and> (if sig = Return then finished j' w' else j_state j' = RUNNING)
    | Again a j' w' \<Rightarrow> keeps j w j' w' \<and> j_state j' = RUNNING"
proof (cases "cycle_verdict ex policy det attempt j w")
  case (Inl e)
  from execution_cycle_raised [OF assms this] show ?thesis
    by (auto simp: cyc_def job_terminal_def finished_def)
next
  case (Inr out)
  show ?thesis
  proof (cases out)
    case (ToolOutput o1)
    from execution_cycle_output [OF assms Inr [unfolded this]] show ?thesis
      by (cases "says_done o1") (auto simp: cyc_def job_terminal_def finished_def)
  next
    case (PoisonInstruction b r)
    from execution_cycle_poison [OF assms Inr [unfolded this]] show ?thesis
      by (auto simp: cyc_def job_terminal_def finished_def)
  next
    case (RetryInstruction d a)
    from execution_cycle_retry [OF assms Inr [unfolded this]] show ?thesis
      by (cases "d < 0") (auto simp: cyc_def)
  qed
qed

lemma execution_loop_ok:
  assumes "execution_loop fuel ex policy det attempt j w = Some (sig, j', w')" "j_state j = RUNNING"
  shows "keeps j w j' w' \<and> sig \<noteq> Continue
    \<and> (if sig = Return then finished j' w' else j_state j' = RUNNING)"
  using assms
proof (induction fuel arbitrary: attempt j w)
  case 0
  then show ?case by simp
next
  case (Suc fuel)
  note ok = execution_cycle_ok [OF Suc.prems(2), where ex = ex and policy = policy and det = det
      and attempt = attempt and w = w]
  show ?case
  proof (cases "execution_cycle ex policy det attempt j w")
    case (Finished s1 j1 w1)
    with Suc.prems(1) have "s1 = sig" "j1 = j'" "w1 = w'" by simp_all
    with ok Finished show ?thesis by simp
  next
    case (Again a j1 w1)
    with ok have k: "keeps j w j1 w1" "j_state j1 = RUNNING" by simp_all
    with Suc.prems(1) Again have "keeps j1 w1 j' w' \<and> sig \<noteq> Continue
      \<and> (if sig = Return then finished j' w' else j_state j' = RUNNING)"
      by (intro Suc.IH) simp_all
    with k(1) show ?thesis using keeps_trans by blast
  qed
qed

lemma execution_stage_ok:
  assumes "execution_stage fuel ex policy det st = Some (sig, st')" "ps_state st = RUNNING"
  shows "ps_keeps st st' \<and> signal_ok sig st' \<and> sig \<noteq> Continue"
proof -
  obtain j w where l: "execution_loop fuel ex policy det 1 (ps_job st) (ps_rt st) = Some (sig, j, w)"
    and st': "st' = ps_set st (j, w)"
    using assms(1) by (auto simp: execution_stage_def split: option.splits)
  from execution_loop_ok [OF l assms(2)] st' show ?thesis
    by (cases sig) (auto split: if_splits)
qed

text \<open>The worker's own pipeline is an instance of the contract.\<close>

definition rest_stages ::
  "nat \<Rightarrow> executor \<Rightarrow> retry_policy \<Rightarrow> int option \<Rightarrow> degraded_mode \<Rightarrow> pipeline_context \<Rightarrow> stage list"
where
  "rest_stages fuel ex policy det dm ctx =
     [idempotency_stage ctx, degraded_mode_stage dm ctx, execution_stage fuel ex policy det]"

interpretation wp: pipeline crash_recovery_stage "rest_stages fuel ex policy det dm ctx"
  for fuel ex policy det dm ctx
proof unfold_locales
  fix st sig st'
  assume "crash_recovery_stage st = Some (sig, st')"
  then show "ps_keeps st st' \<and> (signal_ok sig st' \<or> (\<exists>e. sig = Raise e) \<and> ps_state st' = ps_state st)"
    by (rule crash_recovery_stage_ok)
next
  fix stage :: stage and st sig st'
  assume "stage \<in> set (rest_stages fuel ex policy det dm ctx)"
    and run: "ps_state st = RUNNING" and r: "stage st = Some (sig, st')"
  then consider "stage = idempotency_stage ctx" | "stage = degraded_mode_stage dm ctx"
    | "stage = execution_stage fuel ex policy det" by (auto simp: rest_stages_def)
  then show "ps_keeps st st' \<and> signal_ok sig st'"
  proof cases
    case 1
    with idempotency_stage_ok [of ctx st sig st'] r run show ?thesis by auto
  next
    case 2
    with degraded_mode_stage_ok [of st dm ctx sig st'] r run show ?thesis by auto
  next
    case 3
    with execution_stage_ok [of fuel ex policy det st sig st'] r run show ?thesis by auto
  qed
next
  show "rest_stages fuel ex policy det dm ctx \<noteq> []" by (simp add: rest_stages_def)
next
  fix st st' assume "ps_state st = RUNNING"
  then show "last (rest_stages fuel ex policy det dm ctx) st \<noteq> Some (Continue, st')"
    using execution_stage_ok [of fuel ex policy det st Continue st'] by (auto simp: rest_stages_def)
qed

subsection \<open>Termination and outcome\<close>

text \<open>
  From its \<open>n\<close>-th call on the executor raises or says it is done.  Until then each turn makes a
  call; after that only retries can follow, and a policy grants at most \<open>policy_bound\<close> attempts.
\<close>

definition settles_at :: "executor \<Rightarrow> nat \<Rightarrow> bool" where
  "settles_at ex n \<longleftrightarrow>
     (\<forall>k msg xc tok. n \<le> k \<longrightarrow> (case ex k msg xc tok of Inl _ \<Rightarrow> True | Inr out \<Rightarrow> says_done out))"

lemma cycle_outcome_calls:
  "\<exists>msg xc tok. cycle_outcome ex j w = ex (rt_calls w) msg xc tok"
proof -
  obtain j1 w1 where a: "append_cycle_trace j ''cycle_start'' [] w = (j1, w1)" by (metis surj_pair)
  then have "rt_calls w1 = rt_calls w" using append_cycle_trace_step [OF a] by (simp add: cp_step_def)
  with a show ?thesis by (auto simp: cycle_outcome_def)
qed

lemma again_progress:
  assumes run: "j_state j = RUNNING" and att: "1 \<le> attempt" "attempt \<le> policy_bound policy"
    and r: "execution_cycle ex policy det attempt j w = Again a j' w'"
  shows "rt_calls w' = Suc (rt_calls w) \<and> j_state j' = RUNNING \<and> 1 \<le> a \<and> a \<le> policy_bound policy
    \<and> (settles_at ex n \<and> n \<le> rt_calls w \<longrightarrow> a = attempt + 1)"
proof (cases "cycle_verdict ex policy det attempt j w")
  case (Inl e)
  from execution_cycle_raised [OF run this] r show ?thesis by auto
next
  case (Inr out)
  show ?thesis
  proof (cases out)
    case (PoisonInstruction b x)
    from execution_cycle_poison [OF run Inr [unfolded this]] r show ?thesis by auto
  next
    case (RetryInstruction d b)
    then have "b = attempt + 1 \<and> b \<le> policy_bound policy"
      using Inr tool_execute_retry_bound unfolding cycle_verdict_def by blast
    moreover from execution_cycle_retry [OF run Inr [unfolded RetryInstruction]] r
    have "a = b" "cyc j w j' w' RUNNING [d]" by (auto split: if_splits)
    ultimately show ?thesis using att by (simp add: cyc_def)
  next
    case (ToolOutput o1)
    from execution_cycle_output [OF run Inr [unfolded this]] r
    have f: "\<not> says_done o1" "a = 1" "cyc j w j' w' RUNNING []" by (auto split: if_splits)
    have "cycle_outcome ex j w = Inr o1"
      using Inr ToolOutput by (auto simp: cycle_verdict_def tool_execute_cases
          split: sum.splits if_splits option.splits)
    with f(1) cycle_outcome_calls [of ex j w] have "\<not> (settles_at ex n \<and> n \<le> rt_calls w)"
      unfolding settles_at_def by (metis sum.simps(6))
    with f att show ?thesis by (simp add: cyc_def)
  qed
qed

lemma execution_loop_terminates:
  assumes "settles_at ex n" "j_state j = RUNNING" "1 \<le> attempt" "attempt \<le> policy_bound policy"
    and "(n - rt_calls w) + nat (policy_bound policy
          - (if n \<le> rt_calls w then attempt - 1 else 0)) \<le> fuel"
  shows "execution_loop fuel ex policy det attempt j w \<noteq> None"
  using assms
proof (induction fuel arbitrary: attempt j w)
  case 0
  then show ?case by (auto split: if_splits)
next
  case (Suc fuel)
  show ?case
  proof (cases "execution_cycle ex policy det attempt j w")
    case (Finished s1 j1 w1)
    then show ?thesis by simp
  next
    case (Again a j1 w1)
    note p = again_progress [OF Suc.prems(2-4) Again, of n]
    have "(n - rt_calls w1) + nat (policy_bound policy
          - (if n \<le> rt_calls w1 then a - 1 else 0)) \<le> fuel"
      using p Suc.prems(1,3,4,5) by (auto split: if_splits)
    with p Suc.prems(1) have "execution_loop fuel ex policy det a j1 w1 \<noteq> None"
      by (intro Suc.IH) simp_all
    with Again show ?thesis by simp
  qed
qed

text \<open>With delays that are not negative the loop never raises.\<close>

definition delays_ok :: "retry_policy \<Rightarrow> bool" where
  "delays_ok policy \<longleftrightarrow> (\<forall>kv \<in> set policy. 0 \<le> rr_base_delay (snd kv))"

lemma verdict_delay:
  assumes "delays_ok policy" "cycle_verdict ex policy det attempt j w = Inr (RetryInstruction d a)"
  shows "0 \<le> d \<and> a = attempt + 1"
proof -
  obtain e rule where r: "dict_get policy (exn_type e) = Some rule"
      "d = rr_base_delay rule * power_int 2 (attempt - 1)" and a: "a = attempt + 1"
    using assms(2) by (auto simp: cycle_verdict_def tool_execute_cases
        split: sum.splits if_splits option.splits)
  have "(exn_type e, rule) \<in> set policy" using r(1) by (rule dict_get_SomeD)
  then have "0 \<le> rr_base_delay rule" using assms(1) by (auto simp: delays_ok_def)
  with r(2) a show ?thesis by (simp add: zero_le_power_int)
qed

lemma execution_loop_returns:
  assumes "execution_loop fuel ex policy det attempt j w = Some (sig, j', w')"
    and "j_state j = RUNNING" "delays_ok policy"
  shows "sig = Return"
  using assms
proof (induction fuel arbitrary: attempt j w)
  case 0
  then show ?case by simp
next
  case (Suc fuel)
  note run = Suc.prems(2)
  have next_turn: ?case if "execution_cycle ex policy det attempt j w = Again a j1 w1"
      "cyc j w j1 w1 RUNNING ds" for a j1 w1 ds
    using that Suc.IH [of a j1 w1] Suc.prems by (simp add: cyc_def)
  show ?case
  proof (cases "cycle_verdict ex policy det attempt j w")
    case (Inl e)
    from execution_cycle_raised [OF run this] Suc.prems(1) show ?thesis by auto
  next
    case (Inr out)
    show ?thesis
    proof (cases out)
      case (PoisonInstruction b x)
      from execution_cycle_poison [OF run Inr [unfolded this]] Suc.prems(1) show ?thesis by auto
    next
      case (RetryInstruction d b)
      from verdict_delay [OF Suc.prems(3) Inr [unfolded this]]
        execution_cycle_retry [OF run Inr [unfolded this]] next_turn show ?thesis by auto
    next
      case (ToolOutput o1)
      from execution_cycle_output [OF run Inr [unfolded this]] next_turn Suc.prems(1)
      show ?thesis by (cases "says_done o1") auto
    qed
  qed
qed

lemma default_rules_ok [simp]: "delays_ok DEFAULT_RETRY_RULES"
  by (simp add: delays_ok_def DEFAULT_RETRY_RULES_def)

lemma policy_bound_default [simp]: "policy_bound DEFAULT_RETRY_RULES = 5"
  by (simp add: policy_bound_def DEFAULT_RETRY_RULES_def)

lemma policy_bound_pos: "1 \<le> policy_bound policy"
  unfolding policy_bound_def by (rule Max_ge) auto

text \<open>The number of recorded failures is one less than the attempt.\<close>

lemma execution_loop_no_poison:
  assumes "execution_loop fuel ex policy (Some m) attempt j w = Some (sig, j', w')"
    and "j_state j = RUNNING" "j_failure_count j = attempt - 1" "attempt \<le> m"
    and bound: "policy_bound policy \<le> m" "1 \<le> m"
  shows "j_state j' \<noteq> POISON"
  using assms(1-4)
proof (induction fuel arbitrary: attempt j w)
  case 0
  then show ?case by simp
next
  case (Suc fuel)
  note run = Suc.prems(2)
  show ?case
  proof (cases "cycle_verdict ex policy (Some m) attempt j w")
    case (Inl e)
    from execution_cycle_raised [OF run this] Suc.prems(1) show ?thesis by (auto simp: cyc_def)
  next
    case (Inr out)
    show ?thesis
    proof (cases out)
      case (PoisonInstruction b x)
      with Inr Suc.prems(3,4) show ?thesis
        by (auto simp: cycle_verdict_def tool_execute_cases split: sum.splits if_splits option.splits)
    next
      case (RetryInstruction d b)
      with Inr have b: "b = attempt + 1" "b \<le> policy_bound policy"
        using tool_execute_retry_bound unfolding cycle_verdict_def by blast+
      from execution_cycle_retry [OF run Inr [unfolded RetryInstruction]]
      consider e j1 w1 where "execution_cycle ex policy (Some m) attempt j w = Finished (Raise e) j1 w1"
          "cyc j w j1 w1 RUNNING []"
        | j1 w1 where "execution_cycle ex policy (Some m) attempt j w = Again b j1 w1"
          "cyc j w j1 w1 RUNNING [d]" "j_failure_count j1 = j_failure_count j + 1"
        by (auto split: if_splits)
      then show ?thesis
      proof cases
        case 1
        with Suc.prems(1) show ?thesis by (auto simp: cyc_def)
      next
        case 2
        with Suc.prems b bound show ?thesis
          by (intro Suc.IH [of b j1 w1]) (simp_all add: cyc_def)
      qed
    next
      case (ToolOutput o1)
      from execution_cycle_output [OF run Inr [unfolded this]] obtain j1 w1 where
        c: "if says_done o1 then execution_cycle ex policy (Some m) attempt j w = Finished Return j1 w1
              \<and> cyc j w j1 w1 SUCCEEDED []
            else execution_cycle ex policy (Some m) attempt j w = Again 1 j1 w1
              \<and> cyc j w j1 w1 RUNNING [] \<and> j_failure_count j1 = 0" by (auto split: if_splits)
      show ?thesis
      proof (cases "says_done o1")
        case True
        with c Suc.prems(1) show ?thesis by (auto simp: cyc_def)
      next
        case False
        with c Suc.prems bound show ?thesis
          by (intro Suc.IH [of 1 j1 w1]) (simp_all add: cyc_def)
      qed
    qed
  qed
qed

text \<open>C13: Execution ends: when the executor raises or is done from some call on, and the
  policy's delays are not negative, the multi-cycle loop of a running job returns within
  \<open>n + policy_bound\<close> turns, never raises, and leaves the job in a terminal state, stored, with its
  trace still sound.\<close>

theorem execution_stage_completes:
  assumes "settles_at ex n" "delays_ok policy" "ps_state st = RUNNING" "trace_ok (ps_job st)"
    and "n + nat (policy_bound policy) \<le> fuel"
  shows "\<exists>st'. execution_stage fuel ex policy det st = Some (Return, st')
    \<and> job_terminal (ps_state st') \<and> trace_ok (ps_job st')
    \<and> job_get (rt_store (ps_rt st')) (j_id (ps_job st)) = Some (ps_job st')"
proof -
  have "execution_loop fuel ex policy det 1 (ps_job st) (ps_rt st) \<noteq> None"
    by (rule execution_loop_terminates [OF assms(1,3)])
      (use assms(5) policy_bound_pos in auto)
  then obtain sig j w where l: "execution_loop fuel ex policy det 1 (ps_job st) (ps_rt st)
      = Some (sig, j, w)" by auto
  moreover have "sig = Return" using execution_loop_returns [OF l assms(3,2)] .
  ultimately show ?thesis
    using execution_loop_ok [OF l assms(3)] assms(4)
    by (auto simp: execution_stage_def keeps_def stored_live_def finished_def)
qed

text \<open>A fresh job never becomes poison: where the detector's threshold is at least the
  attempts any rule grants (five and five by default), a job that starts its loop with no
  recorded failure ends in a state other than \<open>POISON\<close>, whatever the executor does, because the
  policy gives up first and the job fails.\<close>

lemma poison_unreachable_for_fresh_jobs:
  assumes "execution_stage fuel ex policy (Some m) st = Some (sig, st')"
    and "ps_state st = RUNNING" "j_failure_count (ps_job st) = 0"
    and "policy_bound policy \<le> m"
  shows "ps_state st' \<noteq> POISON"
proof -
  obtain j w where l: "execution_loop fuel ex policy (Some m) 1 (ps_job st) (ps_rt st)
      = Some (sig, j, w)" and st': "st' = ps_set st (j, w)"
    using assms(1) by (auto simp: execution_stage_def split: option.splits)
  have "1 \<le> m" using policy_bound_pos [of policy] assms(4) by simp
  with execution_loop_no_poison [OF l assms(2), of] assms(3,4) st' show ?thesis by simp
qed

subsection \<open>Examples\<close>

definition sample_running :: pipeline_state where
  "sample_running =
     \<lparr>ps_job = (sample_job ''a'')\<lparr>j_state := RUNNING, j_trace := [StateTransition 0 PENDING RUNNING]\<rparr>,
      ps_rt = sample_rt, ps_degraded = False\<rparr>"

definition done_executor :: executor where
  "done_executor n msg xc tok = Inr [(''output'', JStr ''ok''), (''done'', JBool True)]"

definition busy_executor :: executor where
  "busy_executor n msg xc tok = Inl (PyExn ''client'' ''RateLimitError'' ''busy'')"

lemma sample_running_simps [simp]:
  "ps_state sample_running = RUNNING" "trace_ok (ps_job sample_running)"
  "j_failure_count (ps_job sample_running) = 0" "j_id (ps_job sample_running) = ''a''"
  "rt_calls (ps_rt sample_running) = 0" "rt_slept (ps_rt sample_running) = []"
  by (simp_all add: sample_running_def sample_job_def new_job_def trace_ok_def can_transition_cases
      sample_rt_def)

lemma sample_executors_settle [simp]: "settles_at done_executor 0" "settles_at busy_executor 0"
  by (simp_all add: settles_at_def done_executor_def busy_executor_def dict_get_or_def dict_get_def)

theorem execution_stage_completes_witness:
  "\<exists>st'. execution_stage 5 done_executor DEFAULT_RETRY_RULES (Some 5) sample_running = Some (Return, st')
    \<and> job_terminal (ps_state st')"
  using execution_stage_completes [of done_executor 0 DEFAULT_RETRY_RULES sample_running 5 "Some 5"]
  by auto

lemma sample_loop_ends:
  "\<exists>s st'. execution_stage 5 busy_executor DEFAULT_RETRY_RULES (Some 5) sample_running = Some (s, st')"
  using execution_loop_terminates [of busy_executor 0 "ps_job sample_running" 1 DEFAULT_RETRY_RULES
      "ps_rt sample_running" 5 "Some 5"]
  by (auto simp: execution_stage_def)

lemma poison_unreachable_for_fresh_jobs_example:
  "\<exists>s st'. execution_stage 5 busy_executor DEFAULT_RETRY_RULES (Some 5) sample_running = Some (s, st')
    \<and> ps_state st' \<noteq> POISON"
proof -
  obtain s st' where e: "execution_stage 5 busy_executor DEFAULT_RETRY_RULES (Some 5) sample_running
      = Some (s, st')" using sample_loop_ends by blast
  with poison_unreachable_for_fresh_jobs [OF e] show ?thesis by simp
qed

subsection \<open>The backoff schedule\<close>

lemma power_int_nat: "power_int (2 :: rat) (int n) = 2 ^ n"
  by (simp add: power_int_def)

lemma execution_loop_backoff:
  assumes ex: "\<And>k msg xc tok. ex k msg xc tok = Inl e"
    and rule: "dict_get policy (exn_type e) = Some rule" "delays_ok policy"
    and m: "rr_max_attempts rule = int M" "int M \<le> m"
  shows "j_state j = RUNNING \<Longrightarrow> j_failure_count j = int a \<Longrightarrow> a < M \<Longrightarrow> M - a \<le> fuel \<Longrightarrow>
    \<exists>j' w'. execution_loop fuel ex policy (Some m) (int a + 1) j w = Some (Return, j', w')
      \<and> j_state j' = FAILED
      \<and> j_result j' = Some (structured_error (exn_type e) (exn_message e))
      \<and> rt_calls w' = rt_calls w + (M - a)
      \<and> rt_slept w' = rt_slept w @ map (\<lambda>i. rr_base_delay rule * 2 ^ i) [a ..< M - 1]"
proof (induction fuel arbitrary: a j w)
  case 0
  then show ?case by simp
next
  case (Suc fuel)
  let ?v = "cycle_verdict ex policy (Some m) (int a + 1) j w"
  have out: "cycle_outcome ex j w = Inl e"
    using cycle_outcome_calls [of ex j w] ex by auto
  show ?case
  proof (cases "a + 1 < M")
    case False
    then have "?v = Inl e"
      using Suc.prems m rule out by (simp add: cycle_verdict_def tool_execute_cases)
    from execution_cycle_raised [OF Suc.prems(1) this] False Suc.prems(3) show ?thesis
      by (auto simp: cyc_def)
  next
    case True
    let ?d = "rr_base_delay rule * 2 ^ a"
    have v: "?v = Inr (RetryInstruction ?d (int a + 2))"
      using Suc.prems m rule out True
      by (simp add: cycle_verdict_def tool_execute_cases power_int_nat)
    have "0 \<le> ?d" using verdict_delay [OF rule(2) v] by simp
    then obtain j1 w1 where c: "execution_cycle ex policy (Some m) (int a + 1) j w
          = Again (int a + 2) j1 w1" "cyc j w j1 w1 RUNNING [?d]" "j_failure_count j1 = int a + 1"
      using execution_cycle_retry [OF Suc.prems(1) v] Suc.prems(2) by auto
    then have "\<exists>j' w'. execution_loop fuel ex policy (Some m) (int (Suc a) + 1) j1 w1 = Some (Return, j', w')
      \<and> j_state j' = FAILED
      \<and> j_result j' = Some (structured_error (exn_type e) (exn_message e))
      \<and> rt_calls w' = rt_calls w1 + (M - Suc a)
      \<and> rt_slept w' = rt_slept w1 @ map (\<lambda>i. rr_base_delay rule * 2 ^ i) [Suc a ..< M - 1]"
      using Suc.prems True by (intro Suc.IH) (auto simp: cyc_def)
    moreover have "[a ..< M - 1] = a # [Suc a ..< M - 1]"
      using True by (simp add: upt_conv_Cons)
    moreover have "rt_calls w1 = Suc (rt_calls w)" "rt_slept w1 = rt_slept w @ [?d]"
      using c(2) by (simp_all add: cyc_def)
    ultimately show ?thesis using c(1) True by (auto simp: add.commute)
  qed
qed

text \<open>The backoff schedule: a fresh running job whose executor keeps raising an error with a
  retry rule of \<open>M\<close> attempts (\<open>M\<close> within the poison threshold) is executed exactly \<open>M\<close> times,
  sleeping \<open>base * 2^0, ..., base * 2^(M-2)\<close> in between, and then fails with that error as its
  result.\<close>

lemma backoff_schedule:
  assumes "\<forall>k msg xc tok. ex k msg xc tok = Inl e"
    and "dict_get policy (exn_type e) = Some rule" "delays_ok policy"
    and "rr_max_attempts rule = int M" "0 < M" "int M \<le> m"
    and "ps_state st = RUNNING" "j_failure_count (ps_job st) = 0" "M \<le> fuel"
  shows "\<exists>st'. execution_stage fuel ex policy (Some m) st = Some (Return, st')
    \<and> ps_state st' = FAILED
    \<and> j_result (ps_job st') = Some (structured_error (exn_type e) (exn_message e))
    \<and> rt_calls (ps_rt st') = rt_calls (ps_rt st) + M
    \<and> rt_slept (ps_rt st') =
        rt_slept (ps_rt st) @ map (\<lambda>i. rr_base_delay rule * 2 ^ i) [0 ..< M - 1]"
  using execution_loop_backoff [of ex e policy rule M m "ps_job st" 0 fuel "ps_rt st"] assms
  by (auto simp: execution_stage_def)

lemma backoff_schedule_example:
  "\<exists>st'. execution_stage 5 busy_executor DEFAULT_RETRY_RULES (Some 5) sample_running = Some (Return, st')
    \<and> ps_state st' = FAILED \<and> rt_slept (ps_rt st') = [2, 4, 8, 16]"
proof -
  have rule: "dict_get DEFAULT_RETRY_RULES (exn_type (PyExn ''client'' ''RateLimitError'' ''busy''))
      = Some \<lparr>rr_max_attempts = 5, rr_base_delay = 2\<rparr>"
    by (simp add: DEFAULT_RETRY_RULES_def dict_get_def)
  have "\<forall>k msg xc tok. busy_executor k msg xc tok
      = Inl (PyExn ''client'' ''RateLimitError'' ''busy'')"
    by (simp add: busy_executor_def)
  from backoff_schedule [OF this rule, of 5 5 sample_running 5]
  show ?thesis by (auto simp: upt_rec numeral_eq_Suc)
qed

end
