(* ===== verification/Worker.thy ===== *)
theory Worker
  imports Pipeline
begin

text \<open>
  The worker of \<^verbatim>\<open>runtime/worker.py\<close>: \<open>process_next\<close> pops a job, hydrates it from the store,
  runs the pipeline with its repair path, routes the response and calls the completion hook.
  The hook and the registered channels are the caller's.  An exception that escapes is
  the left of the result; the worker's state at that point is returned with it.
\<close>

subsection \<open>The worker\<close>

text \<open>A completion hook may raise; it may also change the runtime before it does.  A channel is its
  \<open>send\<close>, which may raise as well; a registry maps names to channels, as in
  \<^verbatim>\<open>gateway/channels/registry.py\<close>.\<close>

type_synonym hook = "job \<Rightarrow> rt \<Rightarrow> unit result \<times> rt"
type_synonym channel = "json \<Rightarrow> unit result"
type_synonym channel_registry = "channel pydict"

record worker =
  wk_executor :: executor
  wk_retry_policy :: retry_policy
  wk_poison_detector :: "int option"
  wk_degraded_mode :: degraded_mode
  wk_channel_registry :: "channel_registry option"
  wk_on_job_complete :: "hook option"

definition new_worker :: "executor \<Rightarrow> channel_registry option \<Rightarrow> hook option \<Rightarrow> worker" where
  "new_worker executor registry hook =
     \<lparr>wk_executor = executor, wk_retry_policy = DEFAULT_RETRY_RULES,
      wk_poison_detector = Some default_poison_detector,
      wk_degraded_mode = default_degraded_mode [], wk_channel_registry = registry,
      wk_on_job_complete = hook\<rparr>"

definition worker_stages :: "nat \<Rightarrow> worker \<Rightarrow> pipeline_context \<Rightarrow> stage list" where
  "worker_stages fuel wk ctx =
     crash_recovery_stage
     # rest_stages fuel (wk_executor wk) (wk_retry_policy wk) (wk_poison_detector wk)
         (wk_degraded_mode wk) ctx"

subsection \<open>Routing the response\<close>

definition AttributeError :: "string \<Rightarrow> pyexn" where
  "AttributeError msg = PyExn ''builtins'' ''AttributeError'' msg"

definition register_channel :: "string \<Rightarrow> channel \<Rightarrow> channel_registry \<Rightarrow> channel_registry" where
  "register_channel name ch reg = dict_set reg name ch"

definition get_channel :: "channel_registry \<Rightarrow> string \<Rightarrow> channel result" where
  "get_channel reg name = (case dict_get reg name of None \<Rightarrow> Inl (KeyError name) | Some ch \<Rightarrow> Inr ch)"

definition channel_names :: "channel_registry \<Rightarrow> string list" where
  "channel_names reg = dict_keys reg"

definition route_response :: "worker \<Rightarrow> job \<Rightarrow> rt \<Rightarrow> unit result \<times> rt" where
  "route_response wk j w =
     (case wk_channel_registry wk of
        None \<Rightarrow> (Inr (), w)
      | Some channels \<Rightarrow>
          if j_state j \<noteq> SUCCEEDED \<or> j_result j = None then (Inr (), w)
          else if cm_channel (j_payload j) = [] then (Inr (), w)
          else (case get_channel channels (cm_channel (j_payload j)) of
              Inl e \<Rightarrow> (Inl e, w)
            | Inr send \<Rightarrow>
                (case j_result j of
                   Some (JObj result) \<Rightarrow>
                     let response = dict_get_or result ''output'' (JStr []);
                         message = JObj [(''output'', response), (''metadata'', JObj [])]
                     in if json_truthy response
                        then (case send message of
                            Inl e \<Rightarrow> (Inl e, w)
                          | Inr _ \<Rightarrow>
                              (Inr (), w\<lparr>rt_sent := rt_sent w @ [(cm_channel (j_payload j), message)]\<rparr>))
                        else (Inr (), w)
                 | _ \<Rightarrow> (Inl (AttributeError ''get''), w))))"

subsection \<open>One job\<close>

text \<open>What the worker carries from job to job: the runtime and the stage's degraded flag.\<close>

record worker_state =
  ws_rt :: rt
  ws_degraded :: bool

definition hydrate :: "job option \<Rightarrow> job \<Rightarrow> job" where
  "hydrate stored j =
     (case stored of
        None \<Rightarrow> j
      | Some s \<Rightarrow>
          let j = (if j_execution_context s \<noteq> None
                   then j\<lparr>j_execution_context := j_execution_context s\<rparr> else j);
              j = (if j_resume_token s \<noteq> None then j\<lparr>j_resume_token := j_resume_token s\<rparr> else j)
          in j\<lparr>j_failure_count := j_failure_count s\<rparr>)"

text \<open>The repair path: an exception out of the pipeline fails the job.\<close>

definition repair :: "pyexn \<Rightarrow> job \<Rightarrow> rt \<Rightarrow> job result \<times> rt" where
  "repair e j w =
     (let running = (if j_state j = PENDING then mark_running j w else Inr (j, w))
      in case running of
           Inl e' \<Rightarrow> (Inl e', w)
         | Inr (j, w) \<Rightarrow>
             (case mark_failed j (structured_error (exn_type e) (exn_message e)) w of
                Inl e' \<Rightarrow> (Inl e', w)
              | Inr (j, w) \<Rightarrow> let (j, w) = save_checkpoint j w in (Inr j, w)))"

text \<open>After the pipeline: the response, then the hook, whose exceptions go on to the caller.\<close>

definition complete :: "worker \<Rightarrow> job \<Rightarrow> rt \<Rightarrow> job result \<times> rt" where
  "complete wk j w =
     (case route_response wk j w of
        (Inl e, w) \<Rightarrow> (Inl e, w)
      | (Inr _, w) \<Rightarrow>
          (case wk_on_job_complete wk of
             None \<Rightarrow> (Inr j, w)
           | Some hook \<Rightarrow>
               (case hook j w of
                  (Inl e, w) \<Rightarrow> (Inl e, w)
                | (Inr _, w) \<Rightarrow> (Inr j, w))))"

definition run_job ::
  "nat \<Rightarrow> worker \<Rightarrow> job \<Rightarrow> job option \<Rightarrow> worker_state
   \<Rightarrow> (job option result \<times> worker_state) option"
where
  "run_job fuel wk j stored ws =
     (let (j, w) = append_lifecycle_event j ''hydrate_execution_context'' [] (ws_rt ws);
          ctx = \<lparr>px_stored_job = stored, px_signal_state = None\<rparr>;
          st = \<lparr>ps_job = j, ps_rt = w, ps_degraded = ws_degraded ws\<rparr>
      in case pipeline_run (worker_stages fuel wk ctx) st of
           None \<Rightarrow> None
         | Some (sig, st) \<Rightarrow>
             let (updated, w) = (case sig of
                   Raise e \<Rightarrow> repair e (ps_job st) (ps_rt st)
                 | _ \<Rightarrow> (Inr (ps_job st), ps_rt st));
                 (result, w) = (case updated of
                   Inl e \<Rightarrow> (Inl e, w)
                 | Inr j \<Rightarrow> complete wk j w)
             in Some (map_sum id Some result, \<lparr>ws_rt = w, ws_degraded = ps_degraded st\<rparr>))"

definition process_next ::
  "nat \<Rightarrow> worker \<Rightarrow> worker_state \<Rightarrow> (job option result \<times> worker_state) option"
where
  "process_next fuel wk ws =
     (case queue_pop (rt_queue (ws_rt ws)) of
        (None, _) \<Rightarrow> Some (Inr None, ws)
      | (Some j, q) \<Rightarrow>
          let w = (ws_rt ws)\<lparr>rt_queue := q\<rparr>;
              ws = ws\<lparr>ws_rt := w\<rparr>;
              stored = job_get (rt_store w) (j_id j);
              j = hydrate stored j
          in (case stored of
                Some s \<Rightarrow>
                  if j_state s \<in> {FAILED, POISON} then Some (Inr (Some s), ws)
                  else run_job fuel wk j stored ws
              | None \<Rightarrow> run_job fuel wk j stored ws))"

text \<open>A worker without a hook, drained for \<open>n\<close> pops: the jobs it returned.\<close>

fun process_many ::
  "nat \<Rightarrow> nat \<Rightarrow> worker \<Rightarrow> worker_state \<Rightarrow> (job option result list \<times> worker_state) option"
where
  "process_many 0 fuel wk ws = Some ([], ws)"
| "process_many (Suc n) fuel wk ws =
     (case process_next fuel wk ws of
        None \<Rightarrow> None
      | Some (r, ws) \<Rightarrow>
          (case process_many n fuel wk ws of
             None \<Rightarrow> None
           | Some (rs, ws) \<Rightarrow> Some (r # rs, ws)))"

subsection \<open>Lemmas\<close>

text \<open>What becomes of the response of a finished job: nothing to send, the messages sent, or the
  exception of a missing channel or of a channel that fails.\<close>

definition output_of :: "job \<Rightarrow> json" where
  "output_of j = (case j_result j of Some (JObj d) \<Rightarrow> dict_get_or d ''output'' (JStr []) | _ \<Rightarrow> JNull)"

definition delivery :: "worker \<Rightarrow> job \<Rightarrow> (string \<times> json) list result" where
  "delivery wk j =
     (let name = cm_channel (j_payload j);
          message = JObj [(''output'', output_of j), (''metadata'', JObj [])]
      in case wk_channel_registry wk of
           None \<Rightarrow> Inr []
         | Some channels \<Rightarrow>
             if j_state j \<noteq> SUCCEEDED \<or> name = [] then Inr []
             else (case dict_get channels name of
                 None \<Rightarrow> Inl (KeyError name)
               | Some send \<Rightarrow>
                   if json_truthy (output_of j) then map_sum id (\<lambda>_. [(name, message)]) (send message)
                   else Inr []))"

definition sent :: "worker \<Rightarrow> job \<Rightarrow> (string \<times> json) list" where
  "sent wk j = (case delivery wk j of Inl _ \<Rightarrow> [] | Inr ms \<Rightarrow> ms)"

text \<open>A worker whose channels are registered and do not fail.\<close>

definition routable :: "worker \<Rightarrow> string \<Rightarrow> bool" where
  "routable wk name \<longleftrightarrow>
     (case wk_channel_registry wk of
        None \<Rightarrow> True
      | Some channels \<Rightarrow> name = [] \<or>
          (case dict_get channels name of None \<Rightarrow> False | Some send \<Rightarrow> \<forall>m. send m = Inr ()))"

lemma routable_delivery:
  "routable wk (cm_channel (j_payload j)) \<Longrightarrow> \<exists>ms. delivery wk j = Inr ms"
  by (auto simp: routable_def delivery_def Let_def split: option.splits)

lemma no_registry_delivery [simp]: "wk_channel_registry wk = None \<Longrightarrow> delivery wk j = Inr []"
  by (simp add: delivery_def)

lemma route_response_finished:
  assumes "finished j w"
  shows "route_response wk j w =
    (map_sum id (\<lambda>_. ()) (delivery wk j), w\<lparr>rt_sent := rt_sent w @ sent wk j\<rparr>)"
proof -
  have same: "w\<lparr>rt_sent := rt_sent w @ []\<rparr> = w" by simp
  show ?thesis
  proof (cases "j_state j = SUCCEEDED")
    case True
    with assms obtain d where "j_result j = Some (JObj d)" by (auto simp: finished_def)
    with True same show ?thesis
      by (auto simp: route_response_def get_channel_def delivery_def sent_def output_of_def Let_def
          split: option.splits sum.splits)
  next
    case False
    with same show ?thesis
      by (auto simp: route_response_def delivery_def sent_def split: option.splits json.splits)
  qed
qed

lemma complete_no_hook:
  assumes "finished j w" "wk_on_job_complete wk = None"
  shows "complete wk j w =
    (map_sum id (\<lambda>_. j) (delivery wk j), w\<lparr>rt_sent := rt_sent w @ sent wk j\<rparr>)"
  using assms by (cases "delivery wk j") (simp_all add: complete_def route_response_finished)

lemma repair_ok:
  assumes "j_state j \<in> {PENDING, RUNNING, BLOCKED}"
  shows "\<exists>j' w'. repair e j w = (Inr j', w') \<and> keeps j w j' w' \<and> finished j' w'"
proof -
  obtain j1 w1 where r: "(if j_state j = PENDING then mark_running j w else Inr (j, w)) = Inr (j1, w1)"
    and k: "keeps j w j1 w1" "j_state j1 \<in> {RUNNING, BLOCKED}"
  proof (cases "j_state j = PENDING")
    case True
    then obtain j1 w1 where m: "mark_running j w = Inr (j1, w1)"
      using mark_raises(1) [of j w] into_running by (metis surj_pair sum.exhaust)
    with True mark_running_keeps [OF m] that show ?thesis by auto
  next
    case False
    with assms that show ?thesis by auto
  qed
  have "can_transition (j_state j1) FAILED" using k(2) by (auto simp: can_transition_cases)
  then obtain j2 w2 where f: "mark_failed j1 (structured_error (exn_type e) (exn_message e)) w1
      = Inr (j2, w2)" using mark_raises(3) [of j1] by (metis surj_pair sum.exhaust)
  obtain j3 w3 where s: "save_checkpoint j2 w2 = (j3, w3)" by (metis surj_pair)
  have "repair e j w = (Inr j3, w3)" using r f s by (simp add: repair_def Let_def)
  moreover have "keeps j w j3 w3"
    using k mark_failed_keeps [OF f] save_checkpoint_keeps [OF s] keeps_trans by blast
  moreover have "finished j3 w3"
    using mark_failed_keeps [OF f] save_checkpoint_keeps [OF s]
    by (simp add: finished_def job_terminal_def)
  ultimately show ?thesis by blast
qed

lemma worker_stages_ok:
  assumes "pipeline_run (worker_stages fuel wk ctx) st = Some (sig, st')"
  shows "ps_keeps st st' \<and> sig \<noteq> Continue
    \<and> (signal_ok sig st' \<or> (\<exists>e. sig = Raise e) \<and> ps_state st' = ps_state st)"
  using wp.run_ok assms unfolding worker_stages_def by blast

lemma crash_recovery_stage_total: "\<exists>sig st'. crash_recovery_stage st = Some (sig, st')"
  by (auto simp: crash_recovery_stage_def Let_def split: prod.splits sum.splits)

lemma idempotency_stage_total: "\<exists>sig st'. idempotency_stage ctx st = Some (sig, st')"
  by (auto simp: idempotency_stage_def Let_def split: option.splits)

lemma degraded_mode_stage_total: "\<exists>sig st'. degraded_mode_stage dm ctx st = Some (sig, st')"
proof (cases "ps_degraded st")
  case True
  obtain d w where "check_recovery dm (degraded_context_of dm ctx (ps_job st) True) (ps_rt st) = (d, w)"
    by (metis surj_pair)
  with True show ?thesis
    by (auto simp: degraded_mode_stage_def handle_degraded_cycle_def Let_def
        intro: surj_pair split: bool.splits option.splits)
next
  case False
  obtain d w where "degraded_evaluate dm (degraded_context_of dm ctx (ps_job st) False) (ps_rt st) = (d, w)"
    by (metis surj_pair)
  with False show ?thesis
    by (cases "enter_degraded d (st\<lparr>ps_rt := w\<rparr>)") (simp add: degraded_mode_stage_def Let_def)
qed

lemma worker_stages_total:
  assumes "settles_at (wk_executor wk) n" "n + nat (policy_bound (wk_retry_policy wk)) \<le> fuel"
  shows "\<exists>sig st'. pipeline_run (worker_stages fuel wk ctx) st = Some (sig, st')"
proof -
  obtain s1 st1 where 1: "crash_recovery_stage st = Some (s1, st1)"
    using crash_recovery_stage_total by blast
  obtain s2 st2 where 2: "idempotency_stage ctx st1 = Some (s2, st2)"
    using idempotency_stage_total by blast
  obtain s3 st3 where 3: "degraded_mode_stage (wk_degraded_mode wk) ctx st2 = Some (s3, st3)"
    using degraded_mode_stage_total by blast
  have "\<exists>s4 st4. execution_stage fuel (wk_executor wk) (wk_retry_policy wk) (wk_poison_detector wk) st3
      = Some (s4, st4)" if "s1 = Continue" "s3 = Continue"
  proof -
    have "ps_state st3 = RUNNING"
      using that crash_recovery_stage_ok [OF 1] idempotency_stage_ok [OF 2]
        degraded_mode_stage_ok [OF _ 3] by auto
    then have "execution_loop fuel (wk_executor wk) (wk_retry_policy wk) (wk_poison_detector wk) 1
        (ps_job st3) (ps_rt st3) \<noteq> None"
      by (intro execution_loop_terminates [OF assms(1)])
        (use assms(2) policy_bound_pos in auto)
    then show ?thesis by (auto simp: execution_stage_def)
  qed
  then show ?thesis
    using 1 2 3 idempotency_stage_ok [OF 2]
    by (cases s1; cases s3) (auto simp: worker_stages_def rest_stages_def split: option.splits stage_signal.splits)
qed

lemma hydrate_frame [simp]:
  "j_id (hydrate stored j) = j_id j" "j_state (hydrate stored j) = j_state j"
  "j_trace (hydrate stored j) = j_trace j" "j_payload (hydrate stored j) = j_payload j"
  "j_depends_on (hydrate stored j) = j_depends_on j"
  by (simp_all add: hydrate_def Let_def split: option.splits)

text \<open>A job in a live state is driven to a finished one.\<close>

lemma run_job_finishes:
  assumes "settles_at (wk_executor wk) n" "n + nat (policy_bound (wk_retry_policy wk)) \<le> fuel"
    and "j_state j \<in> {PENDING, RUNNING, BLOCKED}" "wk_on_job_complete wk = None"
  shows "\<exists>j' w' d. run_job fuel wk j stored ws
      = Some (map_sum id (\<lambda>_. Some j') (delivery wk j'),
          \<lparr>ws_rt = w'\<lparr>rt_sent := rt_sent w' @ sent wk j'\<rparr>, ws_degraded = d\<rparr>)
    \<and> keeps j (ws_rt ws) j' w' \<and> finished j' w'"
proof -
  let ?ctx = "\<lparr>px_stored_job = stored, px_signal_state = None\<rparr>"
  obtain j1 w1 where a: "append_lifecycle_event j ''hydrate_execution_context'' [] (ws_rt ws) = (j1, w1)"
    by (metis surj_pair)
  let ?st = "\<lparr>ps_job = j1, ps_rt = w1, ps_degraded = ws_degraded ws\<rparr>"
  have k1: "keeps j (ws_rt ws) j1 w1" "j_state j1 \<in> {PENDING, RUNNING, BLOCKED}"
    using append_lifecycle_event_keeps [OF a] assms(3) by simp_all
  obtain sig st where p: "pipeline_run (worker_stages fuel wk ?ctx) ?st = Some (sig, st)"
    using worker_stages_total [OF assms(1,2)] by blast
  note ok = worker_stages_ok [OF p]
  then have k2: "keeps j (ws_rt ws) (ps_job st) (ps_rt st)" using k1(1) keeps_trans by auto
  obtain j' w' where u: "(case sig of Raise e \<Rightarrow> repair e (ps_job st) (ps_rt st)
      | _ \<Rightarrow> (Inr (ps_job st), ps_rt st)) = (Inr j', w')"
    and f: "keeps (ps_job st) (ps_rt st) j' w'" "finished j' w'"
  proof (cases sig)
    case (Raise e)
    with ok k1(2) have "ps_state st \<in> {PENDING, RUNNING, BLOCKED}" by auto
    from repair_ok [OF this, of e "ps_rt st"] Raise that show ?thesis by auto
  next
    case Return
    with ok that show ?thesis by auto
  next
    case Continue
    with ok show ?thesis by simp
  qed
  have "run_job fuel wk j stored ws = Some (map_sum id (\<lambda>_. Some j') (delivery wk j'),
      \<lparr>ws_rt = w'\<lparr>rt_sent := rt_sent w' @ sent wk j'\<rparr>, ws_degraded = ps_degraded st\<rparr>)"
    using a p u complete_no_hook [OF f(2) assms(4)] by (simp add: run_job_def sum.map_comp comp_def id_def)
  with f k2 keeps_trans show ?thesis by blast
qed

subsection \<open>One call of the worker\<close>

definition pop_head :: "rt \<Rightarrow> job \<Rightarrow> job list \<Rightarrow> rt" where
  "pop_head w j js =
     w\<lparr>rt_queue := (rt_queue w)\<lparr>q_items := js, q_in_flight := dict_set (q_in_flight (rt_queue w)) (j_id j) j\<rparr>\<rparr>"

lemma pop_head_simps [simp]:
  "rt_store (pop_head w j js) = rt_store w" "rt_joins (pop_head w j js) = rt_joins w"
  "rt_sent (pop_head w j js) = rt_sent w" "rt_calls (pop_head w j js) = rt_calls w"
  "q_items (rt_queue (pop_head w j js)) = js"
  by (simp_all add: pop_head_def)

text \<open>The store does not say that the job is dead.\<close>

definition alive :: "rt \<Rightarrow> job \<Rightarrow> bool" where
  "alive w j \<longleftrightarrow> (\<forall>s. job_get (rt_store w) (j_id j) = Some s \<longrightarrow> j_state s \<notin> {FAILED, POISON})"

lemma process_next_live:
  assumes "q_items (rt_queue (ws_rt ws)) = j # js" "alive (ws_rt ws) j"
  shows "process_next fuel wk ws =
    run_job fuel wk (hydrate (job_get (rt_store (ws_rt ws)) (j_id j)) j)
      (job_get (rt_store (ws_rt ws)) (j_id j)) (ws\<lparr>ws_rt := pop_head (ws_rt ws) j js\<rparr>)"
  using assms
  by (auto simp: process_next_def queue_pop_def pop_head_def Let_def alive_def split: option.splits)

text \<open>C5: The worker finishes what it takes: for an executor that settles and enough fuel, a
  worker without a hook that pops a pending, running or blocked job whose stored copy is not dead
  returns, and the job is in a terminal state, with a sound trace, stored under its id; no other
  entry of the store changes and the rest of the queue keeps its order.  The call returns the job,
  having sent exactly the response of a successful job, unless the response cannot be routed: a
  channel name that is not registered, or a channel whose \<open>send\<close> raises, makes the call raise that
  exception after the job was finished and stored.\<close>

theorem process_next_finishes:
  assumes "settles_at (wk_executor wk) n" "n + nat (policy_bound (wk_retry_policy wk)) \<le> fuel"
    and "wk_on_job_complete wk = None"
    and "q_items (rt_queue (ws_rt ws)) = j # js" "j_state j \<in> {PENDING, RUNNING, BLOCKED}"
    and "trace_ok j" "alive (ws_rt ws) j"
  shows "\<exists>j' r ws'. process_next fuel wk ws = Some (r, ws')
    \<and> j_id j' = j_id j \<and> j_payload j' = j_payload j \<and> job_terminal (j_state j') \<and> trace_ok j'
    \<and> (\<forall>k. job_get (rt_store (ws_rt ws')) k =
            (if k = j_id j then Some j' else job_get (rt_store (ws_rt ws)) k))
    \<and> q_items (rt_queue (ws_rt ws')) = js
    \<and> (case delivery wk j' of
         Inr ms \<Rightarrow> r = Inr (Some j') \<and> rt_sent (ws_rt ws') = rt_sent (ws_rt ws) @ ms
       | Inl e \<Rightarrow> r = Inl e \<and> rt_sent (ws_rt ws') = rt_sent (ws_rt ws))"
proof -
  let ?st = "job_get (rt_store (ws_rt ws)) (j_id j)" and ?ws = "ws\<lparr>ws_rt := pop_head (ws_rt ws) j js\<rparr>"
  obtain j' w' d where r: "run_job fuel wk (hydrate ?st j) ?st ?ws
      = Some (map_sum id (\<lambda>_. Some j') (delivery wk j'),
          \<lparr>ws_rt = w'\<lparr>rt_sent := rt_sent w' @ sent wk j'\<rparr>, ws_degraded = d\<rparr>)"
    and k: "keeps (hydrate ?st j) (ws_rt ?ws) j' w'" "finished j' w'"
    using run_job_finishes [OF assms(1,2) _ assms(3), of "hydrate ?st j" ?st ?ws] assms(5) by auto
  have "trace_ok (hydrate ?st j)" using assms(6) by (simp add: trace_ok_def)
  with k have f: "j_id j' = j_id j" "j_payload j' = j_payload j" "trace_ok j'" "rt_sent w' = rt_sent (ws_rt ws)"
      "q_items (rt_queue w') = js" "job_terminal (j_state j')"
      "\<forall>k. job_get (rt_store w') k = (if k = j_id j then Some j' else job_get (rt_store (ws_rt ws)) k)"
    by (auto simp: keeps_def finished_def stored_live_def)
  have n: "process_next fuel wk ws = Some (map_sum id (\<lambda>_. Some j') (delivery wk j'),
      \<lparr>ws_rt = w'\<lparr>rt_sent := rt_sent w' @ sent wk j'\<rparr>, ws_degraded = d\<rparr>)"
    using r process_next_live [OF assms(4,7), of fuel wk] by simp
  show ?thesis
    by (intro exI conjI, rule n) (use f in \<open>auto simp: sent_def split: sum.splits\<close>)
qed

definition sample_ws :: worker_state where
  "sample_ws = \<lparr>ws_rt = sample_rt\<lparr>rt_queue := \<lparr>q_items = [sample_job ''a''], q_in_flight = []\<rparr>\<rparr>,
     ws_degraded = False\<rparr>"

definition sample_worker :: worker where
  "sample_worker = new_worker done_executor (Some [(''cli'', \<lambda>_. Inr ())]) None"

lemma new_worker_simps [simp]:
  "wk_executor (new_worker ex reg hook) = ex" "wk_on_job_complete (new_worker ex reg hook) = hook"
  "wk_retry_policy (new_worker ex reg hook) = DEFAULT_RETRY_RULES"
  "wk_degraded_mode (new_worker ex reg hook) = default_degraded_mode []"
  "wk_channel_registry (new_worker ex reg hook) = reg"
  by (simp_all add: new_worker_def)

lemma sample_job_simps [simp]:
  "j_state (sample_job i) = PENDING" "trace_ok (sample_job i)"
  by (simp_all add: sample_job_def new_job_def trace_ok_def)

theorem process_next_finishes_witness:
  "\<exists>j' ws'. process_next 5 sample_worker sample_ws = Some (Inr (Some j'), ws')
    \<and> job_terminal (j_state j') \<and> q_items (rt_queue (ws_rt ws')) = []"
proof -
  have "alive (ws_rt sample_ws) (sample_job ''a'')"
    by (simp add: alive_def sample_ws_def job_get_def sample_rt_def)
  then obtain j' r ws' where p: "process_next 5 sample_worker sample_ws = Some (r, ws')"
      "j_payload j' = j_payload (sample_job ''a'')" "job_terminal (j_state j')"
      "q_items (rt_queue (ws_rt ws')) = []"
      "\<forall>ms. delivery sample_worker j' = Inr ms \<longrightarrow> r = Inr (Some j')"
    using process_next_finishes [of sample_worker 0 5 sample_ws "sample_job ''a''" "[]"]
    by (fastforce simp: sample_worker_def sample_ws_def)
  moreover have "routable sample_worker (cm_channel (j_payload (sample_job ''a'')))"
    by (simp add: routable_def sample_worker_def new_worker_def sample_job_def new_job_def
        sample_message_def dict_get_def)
  ultimately show ?thesis using routable_delivery [of sample_worker j'] by auto
qed

text \<open>A job that died in the store is not run: when the popped job's stored copy is failed or
  poison, the worker returns the stored copy and changes nothing but the lease, so neither the
  executor nor the hook is called.\<close>

lemma process_next_skips_dead:
  assumes "q_items (rt_queue (ws_rt ws)) = j # js"
    and "job_get (rt_store (ws_rt ws)) (j_id j) = Some s" "j_state s \<in> {FAILED, POISON}"
  shows "process_next fuel wk ws = Some (Inr (Some s), ws\<lparr>ws_rt := pop_head (ws_rt ws) j js\<rparr>)"
  using assms by (auto simp: process_next_def queue_pop_def pop_head_def Let_def)

lemma process_next_skips_dead_example:
  "process_next 0 sample_worker
     (sample_ws\<lparr>ws_rt := (ws_rt sample_ws)\<lparr>rt_store := [(''a'', (sample_job ''a'')\<lparr>j_state := FAILED\<rparr>)]\<rparr>\<rparr>)
   \<noteq> None"
  using process_next_skips_dead
    [of "sample_ws\<lparr>ws_rt := (ws_rt sample_ws)\<lparr>rt_store := [(''a'', (sample_job ''a'')\<lparr>j_state := FAILED\<rparr>)]\<rparr>\<rparr>"
        "sample_job ''a''" "[]" "(sample_job ''a'')\<lparr>j_state := FAILED\<rparr>" 0 sample_worker]
  by (simp add: sample_ws_def job_get_def dict_get_def)

subsection \<open>Degraded mode from the worker's side\<close>

text \<open>The fallback result of the safety kernel.\<close>

definition is_fallback :: "job \<Rightarrow> bool" where
  "is_fallback j \<longleftrightarrow>
     (case j_result j of
        Some (JObj d) \<Rightarrow> dict_get d ''status'' = Some (JStr ''degraded'')
          \<and> dict_get d ''job_id'' = Some (JStr (j_id j)) \<and> dict_get d ''output'' = None
      | _ \<Rightarrow> False)"

text \<open>What a stage that answers with a fallback leaves: the executor was not called.\<close>

definition fell_back :: "pipeline_state \<Rightarrow> pipeline_state \<Rightarrow> bool" where
  "fell_back st st' \<longleftrightarrow>
     ps_state st' = SUCCEEDED \<and> is_fallback (ps_job st') \<and> finished (ps_job st') (ps_rt st')
     \<and> ps_degraded st' \<and> rt_calls (ps_rt st') = rt_calls (ps_rt st) \<and> ps_keeps st st'"

lemma save_checkpoint_calls [simp]: "rt_calls (snd (save_checkpoint j w)) = rt_calls w"
  by (simp add: save_checkpoint_def append_lifecycle_event_def utc_now_def Let_def)

lemma succeed_with_calls:
  "succeed_with result st = (sig, st') \<Longrightarrow> rt_calls (ps_rt st') = rt_calls (ps_rt st)"
  using mark_succeeded_step [of "ps_job st" "JObj result" "ps_rt st"]
  by (auto simp: succeed_with_def cp_step_def split: sum.splits)

lemma fell_backI:
  assumes "succeed_with (fallback_to_dict f) st0 = (sig, st')" "ps_state st0 = RUNNING"
    and "so_status f = ''degraded''" "so_job_id f = j_id (ps_job st)"
    and "ps_keeps st st0" "rt_calls (ps_rt st0) = rt_calls (ps_rt st)" "ps_degraded st0"
  shows "sig = Return \<and> fell_back st st'"
proof -
  note s = succeed_with_ok [OF assms(2,1)]
  have k: "ps_keeps st st'" using s assms(5) keeps_trans by blast
  then have "j_id (ps_job st') = j_id (ps_job st)" by (simp add: keeps_def)
  with s k assms(3,4,6,7) succeed_with_calls [OF assms(1)] show ?thesis
    by (auto simp: fell_back_def is_fallback_def finished_def job_terminal_def fallback_to_dict_def
        dict_get_def)
qed

lemma degraded_stage_enters:
  assumes "ps_state st = RUNNING" "\<not> ps_degraded st"
    and "unstable dm (degraded_context_of dm ctx (ps_job st) False)"
  shows "\<exists>st'. degraded_mode_stage dm ctx st = Some (Return, st') \<and> fell_back st st'"
proof -
  let ?c = "degraded_context_of dm ctx (ps_job st) False"
  obtain reason where r: "entry_reason dm ?c = Some reason"
    using assms(3) entry_reason_None_iff by fastforce
  have nd: "\<not> dc_already_degraded ?c" and id: "dc_job_id ?c = j_id (ps_job st)"
    by (simp_all add: degraded_context_of_def)
  obtain d w where d: "degraded_evaluate dm ?c (ps_rt st) = (d, w)" by (metis surj_pair)
  with r nd obtain f ev where f: "dd_enter_degraded d" "dd_fallback_output d = Some f"
      "so_status f = ''degraded''" "so_job_id f = j_id (ps_job st)" "dd_escalation_event d = Some ev"
    by (auto simp: degraded_evaluate_def Let_def utc_now_def decision_def id)
  have w: "keeps (ps_job st) (ps_rt st) (ps_job st) w" "rt_calls w = rt_calls (ps_rt st)"
    using clock_keeps(1) [OF d] degraded_evaluate_rt [OF d] by simp_all
  define j where "j = (ps_job st)\<lparr>j_result := Some (JObj (fallback_to_dict f))\<rparr>"
  obtain j1 w1 where a: "append_lifecycle_event j ''worker_degraded'' (degraded_event_to_dict ev) w
      = (j1, w1)" by (metis surj_pair)
  obtain sig st' where s: "succeed_with (fallback_to_dict f)
      (ps_set (st\<lparr>ps_rt := w, ps_degraded := True\<rparr>) (j1, w1)) = (sig, st')" by (metis surj_pair)
  have "degraded_mode_stage dm ctx st = Some (sig, st')"
    using assms(2) d f a s by (simp add: degraded_mode_stage_def enter_degraded_def j_def Let_def)
  moreover have "sig = Return \<and> fell_back st st'"
  proof (rule fell_backI [OF s])
    have "keeps (ps_job st) (ps_rt st) j1 w1"
      using w(1) append_lifecycle_event_keeps [OF a] keeps_trans by (simp add: j_def)
    then show "ps_keeps st (ps_set (st\<lparr>ps_rt := w, ps_degraded := True\<rparr>) (j1, w1))" by simp
    show "rt_calls (ps_rt (ps_set (st\<lparr>ps_rt := w, ps_degraded := True\<rparr>) (j1, w1))) = rt_calls (ps_rt st)"
      using append_lifecycle_event_step [OF a] w(2) by (simp add: cp_step_def)
    show "ps_state (ps_set (st\<lparr>ps_rt := w, ps_degraded := True\<rparr>) (j1, w1)) = RUNNING"
      using append_lifecycle_event_keeps [OF a] assms(1) by (simp add: j_def)
  qed (use f in simp_all)
  ultimately show ?thesis by blast
qed

lemma degraded_stage_stays:
  assumes "ps_state st = RUNNING" "ps_degraded st" "px_signal_state ctx = None"
  shows "\<exists>st'. degraded_mode_stage dm ctx st = Some (Return, st') \<and> fell_back st st'"
proof -
  let ?c = "degraded_context_of dm ctx (ps_job st) True"
  have d: "check_recovery dm ?c (ps_rt st) = (still_degraded ''insufficient_signals'', ps_rt st)"
    using assms(3) by (intro check_recovery_no_signal) (simp_all add: degraded_context_of_def)
  define f where "f = \<lparr>so_status = ''degraded'', so_reason = ''insufficient_signals'',
      so_detail = ''Worker is in degraded mode and awaiting recovery signals.'',
      so_job_id = j_id (ps_job st), so_fallback_action = ''short_circuit_and_acknowledge'',
      so_recovery_hint = ''Worker is waiting for S1/S2/S3 stability signals.''\<rparr>"
  define st0 where "st0 = ps_set st
    ((ps_job st)\<lparr>j_result := Some (JObj (fallback_to_dict f))\<rparr>, ps_rt st)"
  obtain sig st' where s: "succeed_with (fallback_to_dict f) st0 = (sig, st')" by (metis surj_pair)
  have "degraded_mode_stage dm ctx st = Some (sig, st')"
    using assms(2) d s
    by (simp add: degraded_mode_stage_def handle_degraded_cycle_def still_degraded_def decision_def
        st0_def f_def Let_def)
  moreover have "sig = Return \<and> fell_back st st'"
    by (rule fell_backI [OF s]) (use assms in \<open>simp_all add: st0_def f_def\<close>)
  ultimately show ?thesis by blast
qed

text \<open>The first two stages do not touch what the third one reads.\<close>

lemma crash_recovery_stage_continues:
  assumes "ps_state st = PENDING \<or> ps_state st = RUNNING \<and> j_execution_context (ps_job st) \<noteq> None"
  shows "\<exists>st'. crash_recovery_stage st = Some (Continue, st') \<and> ps_state st' = RUNNING
    \<and> ps_keeps st st' \<and> rt_calls (ps_rt st') = rt_calls (ps_rt st) \<and> ps_degraded st' = ps_degraded st
    \<and> j_crash_count (ps_job st') = j_crash_count (ps_job st)
        + (if ps_state st = PENDING then 0 else 1)"
proof (cases "ps_state st = PENDING")
  case False
  with assms have c: "ps_state st = RUNNING" "j_execution_context (ps_job st) \<noteq> None" by simp_all
  obtain j1 w1 where a: "append_lifecycle_event (ps_job st) ''crash_recovery''
      [(''reason'', JStr ''Crash detected: job left in RUNNING state with checkpoint'')] (ps_rt st)
      = (j1, w1)" by (metis surj_pair)
  note s = append_lifecycle_event_step [OF a]
  let ?st' = "ps_set st (j1\<lparr>j_crash_count := j_crash_count j1 + 1\<rparr>, w1)"
  have e: "crash_recovery_stage st = Some (Continue, ?st')"
    using c a by (auto simp: crash_recovery_stage_cases Let_def)
  show ?thesis
    using s e crash_recovery_stage_ok [OF e] c by (simp add: cp_step_def)
next
  case True
  obtain j1 w1 where a: "(if j_resume_token (ps_job st) = None
      then issue_resume_token (ps_job st) (ps_rt st) else (ps_job st, ps_rt st)) = (j1, w1)"
    by (metis surj_pair)
  then have p: "cp_step [] (ps_job st) (ps_rt st) j1 w1 \<or> (j1, w1) = (ps_job st, ps_rt st)"
    using issue_resume_token_step by (auto split: if_splits)
  then have "j_state j1 = PENDING" using True by (auto simp: cp_step_def)
  then obtain j2 w2 where m: "mark_running j1 w1 = Inr (j2, w2)"
    using mark_raises(1) [of j1 w1] into_running by (metis surj_pair sum.exhaust)
  have e: "crash_recovery_stage st = Some (Continue, ps_set st (j2, w2))"
    using True a m by (simp add: crash_recovery_stage_cases Let_def)
  show ?thesis
    using e True p mark_running_step [OF m] crash_recovery_stage_ok [OF e]
    by (auto simp: cp_step_def)
qed

lemma idempotency_stage_continues:
  "\<exists>st'. idempotency_stage ctx st = Some (Continue, st') \<and> ps_state st' = ps_state st
    \<and> ps_keeps st st' \<and> rt_calls (ps_rt st') = rt_calls (ps_rt st) \<and> ps_degraded st' = ps_degraded st
    \<and> j_crash_count (ps_job st') = j_crash_count (ps_job st)"
proof -
  obtain sig st' where e: "idempotency_stage ctx st = Some (sig, st')"
    using idempotency_stage_total by blast
  have "rt_calls (ps_rt st') = rt_calls (ps_rt st) \<and> ps_degraded st' = ps_degraded st
    \<and> j_crash_count (ps_job st') = j_crash_count (ps_job st)"
    using e by (auto simp: idempotency_stage_def Let_def append_lifecycle_event_def utc_now_def
        split: option.splits if_splits)
  with idempotency_stage_ok [OF e] e show ?thesis by auto
qed

text \<open>A fallback has no output to send, but its channel is looked up all the same.\<close>

definition fallback_answer :: "worker \<Rightarrow> job \<Rightarrow> job option result" where
  "fallback_answer wk j =
     (case wk_channel_registry wk of
        None \<Rightarrow> Inr (Some j)
      | Some channels \<Rightarrow>
          (let name = cm_channel (j_payload j)
           in if name \<noteq> [] \<and> dict_get channels name = None then Inl (KeyError name) else Inr (Some j)))"

lemma fallback_delivery:
  assumes "j_state j = SUCCEEDED" "is_fallback j"
  shows "map_sum id (\<lambda>_. Some j) (delivery wk j) = fallback_answer wk j" "sent wk j = []"
proof -
  obtain d where "j_result j = Some (JObj d)" "dict_get d ''output'' = None"
    using assms(2) by (auto simp: is_fallback_def split: option.splits json.splits)
  then have "\<not> json_truthy (output_of j)" by (simp add: output_of_def dict_get_or_def)
  with assms(1) show "map_sum id (\<lambda>_. Some j) (delivery wk j) = fallback_answer wk j" "sent wk j = []"
    by (auto simp: sent_def delivery_def fallback_answer_def Let_def split: option.splits)
qed

text \<open>Two ways into the fallback: a recovered crash, and a worker that is degraded already.\<close>

lemma run_job_falls_back:
  assumes "j_state j = PENDING \<and> ws_degraded ws
      \<or> j_state j = RUNNING \<and> j_execution_context j \<noteq> None \<and> 0 \<le> j_crash_count j
        \<and> wk_degraded_mode wk = default_degraded_mode i"
    and hook: "wk_on_job_complete wk = None"
  shows "\<exists>j' ws'. run_job fuel wk j stored ws = Some (fallback_answer wk j', ws')
    \<and> j_id j' = j_id j \<and> j_payload j' = j_payload j \<and> j_state j' = SUCCEEDED \<and> is_fallback j'
    \<and> job_get (rt_store (ws_rt ws')) (j_id j) = Some j'
    \<and> ws_degraded ws' \<and> rt_calls (ws_rt ws') = rt_calls (ws_rt ws)
    \<and> rt_sent (ws_rt ws') = rt_sent (ws_rt ws)
    \<and> q_items (rt_queue (ws_rt ws')) = q_items (rt_queue (ws_rt ws))
    \<and> (\<forall>k. k \<noteq> j_id j \<longrightarrow> job_get (rt_store (ws_rt ws')) k = job_get (rt_store (ws_rt ws)) k)"
proof -
  let ?ctx = "\<lparr>px_stored_job = stored, px_signal_state = None\<rparr>"
  let ?dm = "wk_degraded_mode wk"
  obtain j1 w1 where a: "append_lifecycle_event j ''hydrate_execution_context'' [] (ws_rt ws) = (j1, w1)"
    by (metis surj_pair)
  note s = append_lifecycle_event_step [OF a]
  let ?st = "\<lparr>ps_job = j1, ps_rt = w1, ps_degraded = ws_degraded ws\<rparr>"
  have "ps_state ?st = PENDING \<or> ps_state ?st = RUNNING \<and> j_execution_context (ps_job ?st) \<noteq> None"
    using s assms(1) by (auto simp: cp_step_def)
  from crash_recovery_stage_continues [OF this] obtain st1 where 1:
      "crash_recovery_stage ?st = Some (Continue, st1)" "ps_state st1 = RUNNING" "ps_keeps ?st st1"
      "rt_calls (ps_rt st1) = rt_calls w1" "ps_degraded st1 = ws_degraded ws"
      "j_crash_count (ps_job st1) = j_crash_count j1 + (if j_state j1 = PENDING then 0 else 1)" by auto
  obtain st2 where 2: "idempotency_stage ?ctx st1 = Some (Continue, st2)" "ps_state st2 = ps_state st1"
      "ps_keeps st1 st2" "rt_calls (ps_rt st2) = rt_calls (ps_rt st1)" "ps_degraded st2 = ps_degraded st1"
      "j_crash_count (ps_job st2) = j_crash_count (ps_job st1)"
    using idempotency_stage_continues [of ?ctx st1] by blast
  have "\<exists>st3. degraded_mode_stage ?dm ?ctx st2 = Some (Return, st3) \<and> fell_back st2 st3"
  proof (cases "ws_degraded ws")
    case True
    with 1 2 show ?thesis by (intro degraded_stage_stays) simp_all
  next
    case False
    with assms(1) have "?dm = default_degraded_mode i" "1 \<le> j_crash_count (ps_job st2)"
      using 1 2 s by (auto simp: cp_step_def)
    then have "unstable ?dm (degraded_context_of ?dm ?ctx (ps_job st2) False)"
      by (simp add: unstable_def degraded_context_of_def)
    with False 1 2 show ?thesis by (intro degraded_stage_enters) simp_all
  qed
  then obtain st3 where 3: "degraded_mode_stage ?dm ?ctx st2 = Some (Return, st3)" "fell_back st2 st3"
    by blast
  have p: "pipeline_run (worker_stages fuel wk ?ctx) ?st = Some (Return, st3)"
    using 1 2 3 by (simp add: worker_stages_def rest_stages_def)
  have f: "finished (ps_job st3) (ps_rt st3)" using 3 by (simp add: fell_back_def)
  have "ps_keeps ?st st3"
    using 1(3) 2(3) 3(2) keeps_trans unfolding fell_back_def by blast
  moreover have "keeps j (ws_rt ws) j1 w1" using append_lifecycle_event_keeps [OF a] by simp
  ultimately have k: "keeps j (ws_rt ws) (ps_job st3) (ps_rt st3)" using keeps_trans by auto
  have calls: "rt_calls (ps_rt st3) = rt_calls (ws_rt ws)"
    using 1(4) 2(4) 3(2) s by (simp add: fell_back_def cp_step_def)
  have "j_state (ps_job st3) = SUCCEEDED" "is_fallback (ps_job st3)" using 3(2) by (auto simp: fell_back_def)
  note d = fallback_delivery [OF this, of wk]
  have r: "run_job fuel wk j stored ws = Some (fallback_answer wk (ps_job st3),
      \<lparr>ws_rt = ps_rt st3, ws_degraded = ps_degraded st3\<rparr>)"
    using a p complete_no_hook [OF f hook] d by (simp add: run_job_def sum.map_comp comp_def id_def)
  show ?thesis
    by (intro exI conjI, rule r)
      (use k calls 3(2) f in \<open>simp_all add: fell_back_def keeps_def finished_def stored_live_def\<close>)
qed

lemma hydrate_context:
  "j_execution_context j \<noteq> None \<Longrightarrow> j_execution_context (hydrate stored j) \<noteq> None"
  "j_crash_count (hydrate stored j) = j_crash_count j"
  by (auto simp: hydrate_def Let_def split: option.splits)

text \<open>Crash recovery does not resume: under the default thresholds, a job found \<open>RUNNING\<close> with
  a checkpoint (the case the crash-recovery stage is there for) is never handed to the executor
  again; the recovery itself counts a crash, one crash is the degraded threshold, and the worker
  enters degraded mode and records the job as succeeded with the fallback output.\<close>

lemma crash_recovered_job_not_resumed:
  assumes "wk = new_worker ex registry None"
    and "q_items (rt_queue (ws_rt ws)) = j # js" "alive (ws_rt ws) j"
    and "j_state j = RUNNING" "j_execution_context j \<noteq> None" "0 \<le> j_crash_count j"
  shows "\<exists>j' ws'. process_next fuel wk ws = Some (fallback_answer wk j', ws')
    \<and> j_id j' = j_id j \<and> j_state j' = SUCCEEDED \<and> is_fallback j' \<and> ws_degraded ws'
    \<and> rt_calls (ws_rt ws') = rt_calls (ws_rt ws)"
proof -
  let ?st = "job_get (rt_store (ws_rt ws)) (j_id j)"
  have "\<exists>j' ws'. run_job fuel wk (hydrate ?st j) ?st (ws\<lparr>ws_rt := pop_head (ws_rt ws) j js\<rparr>)
        = Some (fallback_answer wk j', ws')
    \<and> j_id j' = j_id (hydrate ?st j) \<and> j_state j' = SUCCEEDED \<and> is_fallback j' \<and> ws_degraded ws'
    \<and> rt_calls (ws_rt ws') = rt_calls (ws_rt (ws\<lparr>ws_rt := pop_head (ws_rt ws) j js\<rparr>))"
    using run_job_falls_back [of "hydrate ?st j" "ws\<lparr>ws_rt := pop_head (ws_rt ws) j js\<rparr>" wk "[]" fuel ?st]
      assms(1,4-6) hydrate_context [where j = j and stored = ?st] by auto
  then show ?thesis by (simp add: process_next_live [OF assms(2,3)])
qed

lemma crash_recovered_job_not_resumed_example:
  "\<exists>j' ws'. process_next 0 (new_worker done_executor None None) (sample_ws\<lparr>ws_rt := (ws_rt sample_ws)\<lparr>rt_queue :=
      \<lparr>q_items = [(sample_job ''a'')\<lparr>j_state := RUNNING,
          j_execution_context := Some new_execution_context\<rparr>], q_in_flight = []\<rparr>\<rparr>\<rparr>)
      = Some (Inr (Some j'), ws') \<and> j_state j' = SUCCEEDED \<and> rt_calls (ws_rt ws') = 0"
proof -
  let ?j = "(sample_job ''a'')\<lparr>j_state := RUNNING, j_execution_context := Some new_execution_context\<rparr>"
  let ?ws = "sample_ws\<lparr>ws_rt := (ws_rt sample_ws)\<lparr>rt_queue := \<lparr>q_items = [?j], q_in_flight = []\<rparr>\<rparr>\<rparr>"
  have "alive (ws_rt ?ws) ?j" "rt_calls (ws_rt ?ws) = 0" "0 \<le> j_crash_count ?j"
    by (simp_all add: alive_def sample_ws_def sample_rt_def job_get_def sample_job_def new_job_def)
  then show ?thesis
    using crash_recovered_job_not_resumed [OF refl, of ?ws ?j "[]" 0 done_executor None]
    by (auto simp: fallback_answer_def new_worker_def)
qed

subsection \<open>Degraded mode is never left\<close>

text \<open>The worker passes no signals to its pipeline, so the recovery gates never open.\<close>

lemma process_next_degraded:
  assumes "ws_degraded ws" "wk_on_job_complete wk = None"
    and "q_items (rt_queue (ws_rt ws)) = j # js" "j_state j = PENDING" "alive (ws_rt ws) j"
  shows "\<exists>j' ws'. process_next fuel wk ws = Some (fallback_answer wk j', ws')
    \<and> j_id j' = j_id j \<and> j_payload j' = j_payload j \<and> j_state j' = SUCCEEDED \<and> is_fallback j'
    \<and> job_get (rt_store (ws_rt ws')) (j_id j) = Some j'
    \<and> ws_degraded ws' \<and> rt_calls (ws_rt ws') = rt_calls (ws_rt ws)
    \<and> rt_sent (ws_rt ws') = rt_sent (ws_rt ws) \<and> q_items (rt_queue (ws_rt ws')) = js
    \<and> (\<forall>k. k \<noteq> j_id j \<longrightarrow> job_get (rt_store (ws_rt ws')) k = job_get (rt_store (ws_rt ws)) k)"
proof -
  let ?st = "job_get (rt_store (ws_rt ws)) (j_id j)" and ?ws = "ws\<lparr>ws_rt := pop_head (ws_rt ws) j js\<rparr>"
  have "j_state (hydrate ?st j) = PENDING \<and> ws_degraded ?ws" using assms(1,4) by simp
  from run_job_falls_back [OF disjI1 [OF this] assms(2), of fuel ?st]
  show ?thesis by (simp add: process_next_live [OF assms(3,5)])
qed

text \<open>C21: Degraded mode is never left: once a worker (without a hook) is degraded, every pending
  job it takes from its queue, however many, is stored as succeeded with a fallback output, without
  one executor call and without a message to its channel, and the worker is still degraded
  afterwards.  Each call returns the job, or raises \<open>KeyError\<close> when the job names a channel that is
  not registered.\<close>

theorem degraded_worker_never_recovers:
  assumes "ws_degraded ws" "wk_on_job_complete wk = None"
    and "q_items (rt_queue (ws_rt ws)) = js" "distinct (map j_id js)"
    and "\<forall>j \<in> set js. j_state j = PENDING \<and> alive (ws_rt ws) j"
  shows "\<exists>rs ws'. process_many (length js) fuel wk ws = Some (map (fallback_answer wk) rs, ws')
    \<and> map j_id rs = map j_id js \<and> map j_payload rs = map j_payload js
    \<and> list_all (\<lambda>r. j_state r = SUCCEEDED \<and> is_fallback r
        \<and> job_get (rt_store (ws_rt ws')) (j_id r) = Some r) rs
    \<and> ws_degraded ws' \<and> rt_calls (ws_rt ws') = rt_calls (ws_rt ws)
    \<and> rt_sent (ws_rt ws') = rt_sent (ws_rt ws)"
proof -
  have "\<exists>rs ws'. process_many (length js) fuel wk ws = Some (map (fallback_answer wk) rs, ws')
      \<and> map j_id rs = map j_id js \<and> map j_payload rs = map j_payload js
      \<and> list_all (\<lambda>r. j_state r = SUCCEEDED \<and> is_fallback r
          \<and> job_get (rt_store (ws_rt ws')) (j_id r) = Some r) rs
      \<and> ws_degraded ws' \<and> rt_calls (ws_rt ws') = rt_calls (ws_rt ws)
      \<and> rt_sent (ws_rt ws') = rt_sent (ws_rt ws)
      \<and> (\<forall>k. k \<notin> j_id ` set js \<longrightarrow> job_get (rt_store (ws_rt ws')) k = job_get (rt_store (ws_rt ws)) k)"
    using assms
  proof (induction js arbitrary: ws)
    case Nil
    then show ?case by auto
  next
    case (Cons j js)
    obtain j' ws1 where one: "process_next fuel wk ws = Some (fallback_answer wk j', ws1)"
        "j_id j' = j_id j" "j_payload j' = j_payload j" "j_state j' = SUCCEEDED" "is_fallback j'"
        "job_get (rt_store (ws_rt ws1)) (j_id j) = Some j'" "ws_degraded ws1"
        "rt_calls (ws_rt ws1) = rt_calls (ws_rt ws)" "rt_sent (ws_rt ws1) = rt_sent (ws_rt ws)"
        "q_items (rt_queue (ws_rt ws1)) = js"
        "\<forall>k. k \<noteq> j_id j \<longrightarrow> job_get (rt_store (ws_rt ws1)) k = job_get (rt_store (ws_rt ws)) k"
      using process_next_degraded [OF Cons.prems(1-3), of fuel] Cons.prems(5) by auto
    have new: "j_id j \<notin> j_id ` set js" using Cons.prems(4) by simp
    have "alive (ws_rt ws1) k" if "k \<in> set js" for k
    proof -
      have "j_id k \<noteq> j_id j" using new that by (auto simp: image_iff)
      with one(11) Cons.prems(5) that show ?thesis by (simp add: alive_def)
    qed
    then obtain rs ws' where "process_many (length js) fuel wk ws1 = Some (map (fallback_answer wk) rs, ws')"
        "map j_id rs = map j_id js" "map j_payload rs = map j_payload js"
        "list_all (\<lambda>r. j_state r = SUCCEEDED \<and> is_fallback r
          \<and> job_get (rt_store (ws_rt ws')) (j_id r) = Some r) rs"
        "ws_degraded ws'" "rt_calls (ws_rt ws') = rt_calls (ws_rt ws1)"
        "rt_sent (ws_rt ws') = rt_sent (ws_rt ws1)"
        "\<forall>k. k \<notin> j_id ` set js \<longrightarrow> job_get (rt_store (ws_rt ws')) k = job_get (rt_store (ws_rt ws1)) k"
      using Cons.IH [OF one(7) Cons.prems(2) one(10)] Cons.prems(4,5) by auto
    with one new show ?case by (intro exI [of _ "j' # rs"] exI [of _ ws']) simp
  qed
  then show ?thesis by blast
qed

theorem degraded_worker_never_recovers_witness:
  "\<exists>r ws'. process_many 1 0 sample_worker (sample_ws\<lparr>ws_degraded := True\<rparr>) = Some ([Inr (Some r)], ws')
    \<and> j_id r = ''a'' \<and> j_state r = SUCCEEDED \<and> is_fallback r \<and> ws_degraded ws'"
proof -
  have "\<forall>j \<in> set [sample_job ''a'']. j_state j = PENDING
      \<and> alive (ws_rt (sample_ws\<lparr>ws_degraded := True\<rparr>)) j"
    by (simp add: alive_def sample_ws_def sample_rt_def job_get_def)
  then obtain rs ws' where
      "process_many 1 0 sample_worker (sample_ws\<lparr>ws_degraded := True\<rparr>)
        = Some (map (fallback_answer sample_worker) rs, ws')"
      "map j_id rs = [''a'']" "map j_payload rs = [j_payload (sample_job ''a'')]"
      "list_all (\<lambda>r. j_state r = SUCCEEDED \<and> is_fallback r) rs" "ws_degraded ws'"
    using degraded_worker_never_recovers
      [of "sample_ws\<lparr>ws_degraded := True\<rparr>" sample_worker "[sample_job ''a'']" 0]
    by (fastforce simp: sample_ws_def sample_worker_def list_all_iff simp del: process_many.simps)
  then show ?thesis
    by (auto simp: fallback_answer_def sample_worker_def new_worker_def sample_job_def new_job_def
        sample_message_def dict_get_def simp del: process_many.simps)
qed

text \<open>With nothing registered the call raises, although the job has succeeded.\<close>

lemma unregistered_channel_raises_example:
  "\<exists>ws'. process_next 0 (new_worker done_executor (Some []) None) (sample_ws\<lparr>ws_degraded := True\<rparr>) =
    Some (Inl (KeyError ''cli''), ws')"
proof -
  have "alive (ws_rt (sample_ws\<lparr>ws_degraded := True\<rparr>)) (sample_job ''a'')"
    by (simp add: alive_def sample_ws_def sample_rt_def job_get_def)
  then obtain j' ws' where "process_next 0 (new_worker done_executor (Some []) None)
      (sample_ws\<lparr>ws_degraded := True\<rparr>) =
        Some (fallback_answer (new_worker done_executor (Some []) None) j', ws')"
      "j_payload j' = j_payload (sample_job ''a'')"
    using process_next_degraded [of "sample_ws\<lparr>ws_degraded := True\<rparr>" "new_worker done_executor (Some []) None"
        "sample_job ''a''" "[]" 0]
    by (auto simp: sample_ws_def)
  then show ?thesis
    by (simp add: fallback_answer_def new_worker_def sample_job_def new_job_def sample_message_def dict_get_def)
qed

subsection \<open>Redelivery\<close>

text \<open>A redelivered success escapes as an exception: the early exit of the worker looks for
  failed and poison copies only, so popping a job that already succeeded reaches
  \<open>mark_running\<close>, then the repair path, whose \<open>mark_failed\<close> is refused as well;
  \<open>process_next\<close> raises the \<open>ValueError\<close> of the transition \<open>SUCCEEDED\<close> to \<open>FAILED\<close> to its
  caller, and the job stays leased.\<close>

lemma redelivered_success_raises:
  assumes "q_items (rt_queue (ws_rt ws)) = j # js" "alive (ws_rt ws) j" "j_state j = SUCCEEDED"
  shows "\<exists>ws'. process_next fuel wk ws = Some (Inl (illegal_transition SUCCEEDED FAILED), ws')
    \<and> dict_get (q_in_flight (rt_queue (ws_rt ws'))) (j_id j) = Some j"
proof -
  let ?stored = "job_get (rt_store (ws_rt ws)) (j_id j)"
  let ?ctx = "\<lparr>px_stored_job = ?stored, px_signal_state = None\<rparr>"
  let ?w = "pop_head (ws_rt ws) j js"
  obtain j1 w1 where a: "append_lifecycle_event (hydrate ?stored j) ''hydrate_execution_context'' [] ?w
      = (j1, w1)" by (metis surj_pair)
  note s = append_lifecycle_event_step [OF a]
  let ?st = "\<lparr>ps_job = j1, ps_rt = w1, ps_degraded = ws_degraded ws\<rparr>"
  obtain j2 w2 where t: "(if j_resume_token j1 = None then issue_resume_token j1 w1 else (j1, w1))
      = (j2, w2)" by (metis surj_pair)
  have st1: "j_state j1 = SUCCEEDED" "rt_queue w1 = rt_queue ?w"
    using s assms(3) by (simp_all add: cp_step_def)
  then have st2: "j_state j2 = SUCCEEDED" "rt_queue w2 = rt_queue ?w"
    using t issue_resume_token_step [of j1 w1 j2 w2] by (auto simp: cp_step_def split: if_splits)
  have no: "\<not> can_transition SUCCEEDED RUNNING" "\<not> can_transition SUCCEEDED FAILED"
    by (simp_all add: can_transition_cases)
  have m: "mark_running j2 w2 = Inl (illegal_transition SUCCEEDED RUNNING)"
    using mark_raises(1) [of j2 w2] st2 no by simp
  have f: "mark_failed j2 r w2 = Inl (illegal_transition SUCCEEDED FAILED)" for r
    using mark_raises(3) [of j2 r w2] st2 no by simp
  have "pipeline_run (worker_stages fuel wk ?ctx) ?st
      = Some (Raise (illegal_transition SUCCEEDED RUNNING), ps_set ?st (j2, w2))"
    using st1 t m by (simp add: worker_stages_def crash_recovery_stage_cases Let_def)
  then have "run_job fuel wk (hydrate ?stored j) ?stored (ws\<lparr>ws_rt := ?w\<rparr>)
      = Some (Inl (illegal_transition SUCCEEDED FAILED), \<lparr>ws_rt = w2, ws_degraded = ws_degraded ws\<rparr>)"
    using a st2 f by (simp add: run_job_def repair_def Let_def)
  moreover have "dict_get (q_in_flight (rt_queue w2)) (j_id j) = Some j"
    using st2(2) by (simp add: pop_head_def)
  ultimately show ?thesis by (simp add: process_next_live [OF assms(1,2)])
qed

lemma redelivered_success_raises_example:
  "\<exists>ws'. process_next 0 sample_worker (sample_ws\<lparr>ws_rt := (ws_rt sample_ws)\<lparr>rt_queue :=
      \<lparr>q_items = [(sample_job ''a'')\<lparr>j_state := SUCCEEDED\<rparr>], q_in_flight = []\<rparr>\<rparr>\<rparr>)
      = Some (Inl (illegal_transition SUCCEEDED FAILED), ws')"
proof -
  let ?j = "(sample_job ''a'')\<lparr>j_state := SUCCEEDED\<rparr>"
  let ?ws = "sample_ws\<lparr>ws_rt := (ws_rt sample_ws)\<lparr>rt_queue := \<lparr>q_items = [?j], q_in_flight = []\<rparr>\<rparr>\<rparr>"
  have "alive (ws_rt ?ws) ?j"
    by (simp add: alive_def sample_ws_def sample_rt_def job_get_def)
  then show ?thesis
    using redelivered_success_raises [of ?ws ?j "[]" 0 sample_worker] by auto
qed

end
