(* ===== verification/Scheduling.thy ===== *)
theory Scheduling
  imports ControlPlane "HOL-Library.Char_ord" "HOL-Library.List_Lexorder"
    "HOL-Library.Product_Lexorder" "HOL-Library.Multiset"
begin

text \<open>
  Job selection and the per-cycle tick: \<^verbatim>\<open>runtime/scheduling/policy.py\<close>,
  \<^verbatim>\<open>runtime/worker_tick.py\<close> and \<^verbatim>\<open>runtime/heartbeat/emitter.py\<close>.  Strings are compared by
  code point, as Python does (the order of UTF-8 bytes), tuples lexicographically.
\<close>

subsection \<open>Selection\<close>

datatype scheduling_mode = FIFO | PRIORITY

record job_metadata =
  md_job_id :: string
  md_priority :: int
  md_created_at :: datetime

record scheduling_decision =
  sd_job_id :: "string option"
  sd_reason :: string

definition no_jobs :: scheduling_decision where
  "no_jobs = \<lparr>sd_job_id = None, sd_reason = ''no-jobs''\<rparr>"

definition fifo_key :: "job_metadata \<Rightarrow> datetime \<times> string" where
  "fifo_key j = (md_created_at j, md_job_id j)"

definition priority_key :: "job_metadata \<Rightarrow> int \<times> datetime \<times> string" where
  "priority_key j = (- md_priority j, md_created_at j, md_job_id j)"

definition select_fifo :: "'a env_scheme \<Rightarrow> job_metadata list \<Rightarrow> scheduling_decision" where
  "select_fifo e pending =
     (if pending = [] then no_jobs
      else let best = hd (sort_key fifo_key pending)
           in \<lparr>sd_job_id = Some (md_job_id best),
               sd_reason = ''fifo:created_at='' @ e_isoformat e (md_created_at best)\<rparr>)"

definition select_priority :: "'a env_scheme \<Rightarrow> job_metadata list \<Rightarrow> scheduling_decision" where
  "select_priority e pending =
     (if pending = [] then no_jobs
      else let best = hd (sort_key priority_key pending)
           in \<lparr>sd_job_id = Some (md_job_id best),
               sd_reason = ''priority:'' @ int_str (md_priority best) @ '':created_at=''
                 @ e_isoformat e (md_created_at best)\<rparr>)"

definition select :: "'a env_scheme \<Rightarrow> scheduling_mode \<Rightarrow> job_metadata list \<Rightarrow> scheduling_decision" where
  "select e mode pending =
     (if pending = [] then no_jobs
      else if mode = FIFO then select_fifo e pending
      else select_priority e pending)"

subsection \<open>Ticks\<close>

record tick_instruction =
  ti_action :: string
  ti_job_id :: "string option"
  ti_reason :: "string option"
  ti_event :: "heartbeat_event option"

definition no_work :: "string \<Rightarrow> tick_instruction" where
  "no_work reason =
     \<lparr>ti_action = ''no_work'', ti_job_id = None, ti_reason = Some reason, ti_event = None\<rparr>"

definition claim_job :: "string \<Rightarrow> string \<Rightarrow> tick_instruction" where
  "claim_job jid reason =
     \<lparr>ti_action = ''claim_job'', ti_job_id = Some jid, ti_reason = Some reason, ti_event = None\<rparr>"

definition heartbeat_instruction :: "heartbeat_event \<Rightarrow> tick_instruction" where
  "heartbeat_instruction event =
     \<lparr>ti_action = ''heartbeat'', ti_job_id = he_active_job_id event, ti_reason = Some ''heartbeat'',
      ti_event = Some event\<rparr>"

definition emit ::
  "string \<Rightarrow> string option \<Rightarrow> int \<Rightarrow> string \<Rightarrow> 'a env_scheme \<Rightarrow> heartbeat_event \<times> 'a env_scheme"
where
  "emit worker_id active cycles health e =
     (let (now, e) = time_now e
      in (\<lparr>he_worker_id = worker_id, he_timestamp = now, he_active_job_id = active,
           he_cycles_completed = cycles, he_health = health\<rparr>, e))"

definition run_heartbeat_tick ::
  "string \<Rightarrow> string option \<Rightarrow> int \<Rightarrow> string \<Rightarrow> 'a env_scheme \<Rightarrow> tick_instruction \<times> 'a env_scheme"
where
  "run_heartbeat_tick worker_id active cycles health e =
     (let (event, e) = emit worker_id active cycles health e in (heartbeat_instruction event, e))"

definition run_scheduling_tick ::
  "'a env_scheme \<Rightarrow> scheduling_mode \<Rightarrow> job_metadata list \<Rightarrow> tick_instruction"
where
  "run_scheduling_tick e mode pending =
     (let decision = select e mode pending
      in case sd_job_id decision of
           None \<Rightarrow> no_work (sd_reason decision)
         | Some jid \<Rightarrow> claim_job jid (sd_reason decision))"

subsection \<open>The head of a stable sort\<close>

lemma hd_sort_key:
  assumes "xs \<noteq> []"
  shows "hd (sort_key f xs) \<in> set xs \<and> (\<forall>x \<in> set xs. f (hd (sort_key f xs)) \<le> f x)"
proof -
  obtain y ys where ys: "sort_key f xs = y # ys"
    using assms by (metis length_0_conv length_sort neq_Nil_conv)
  then have "sorted (map f (y # ys))" by (metis sorted_sort_key)
  moreover have "set (y # ys) = set xs" using ys by (metis set_sort)
  ultimately show ?thesis using ys by auto
qed

text \<open>With an injective key the least element is unique.\<close>

lemma hd_sort_key_unique:
  assumes "inj_on f (set xs)" "y \<in> set xs" "\<forall>x \<in> set xs. f y \<le> f x"
  shows "hd (sort_key f xs) = y"
proof -
  have "xs \<noteq> []" using assms(2) by auto
  from hd_sort_key [OF this, of f] assms show ?thesis
    by (metis inj_onD order_antisym)
qed

lemma keys_inj:
  assumes "inj_on md_job_id A"
  shows "inj_on fifo_key A" "inj_on priority_key A"
  using assms by (auto simp: inj_on_def fifo_key_def priority_key_def)

definition key_of :: "scheduling_mode \<Rightarrow> job_metadata \<Rightarrow> int \<times> datetime \<times> string" where
  "key_of mode j = (if mode = FIFO then 0 else - md_priority j, md_created_at j, md_job_id j)"

text \<open>Both policies are the sort by \<open>key_of\<close>.\<close>

lemma select_eq:
  "pending \<noteq> [] \<Longrightarrow> inj_on md_job_id (set pending) \<Longrightarrow>
     sd_job_id (select e mode pending) = Some (md_job_id (hd (sort_key (key_of mode) pending)))"
proof -
  assume ne: "pending \<noteq> []" and inj: "inj_on md_job_id (set pending)"
  let ?h = "hd (sort_key (key_of mode) pending)"
  note least = hd_sort_key [OF ne, of "key_of mode"]
  have "hd (sort_key fifo_key pending) = ?h" if "mode = FIFO"
    using least that by (intro hd_sort_key_unique keys_inj inj)
      (auto simp: key_of_def fifo_key_def)
  moreover have "hd (sort_key priority_key pending) = ?h" if "mode = PRIORITY"
    using least that by (intro hd_sort_key_unique keys_inj inj)
      (auto simp: key_of_def priority_key_def)
  ultimately show ?thesis
    using ne by (cases mode) (simp_all add: select_def select_fifo_def select_priority_def Let_def)
qed

text \<open>Scheduling is deterministic and fair to age: over pending jobs with distinct ids a
  scheduling tick claims a job of the list that no other job beats, where a job beats another by
  higher priority (in priority mode), then by earlier creation, then by smaller id; and the
  claim depends only on the set of pending jobs, not on the order in which they are listed.\<close>

lemma scheduling_tick_claims_best:
  assumes "distinct (map md_job_id pending)" "pending \<noteq> []"
  shows "\<exists>j \<in> set pending.
      ti_action (run_scheduling_tick e mode pending) = ''claim_job''
      \<and> ti_job_id (run_scheduling_tick e mode pending) = Some (md_job_id j)
      \<and> (\<forall>k \<in> set pending. key_of mode j \<le> key_of mode k)
      \<and> (\<forall>pending'. mset pending' = mset pending \<longrightarrow>
           ti_job_id (run_scheduling_tick e mode pending') = Some (md_job_id j))"
proof -
  let ?h = "hd (sort_key (key_of mode) pending)"
  have inj: "inj_on md_job_id (set pending)" using assms(1) by (simp add: distinct_map)
  note least = hd_sort_key [OF assms(2), of "key_of mode"]
  have claim: "ti_action (run_scheduling_tick e mode xs) = ''claim_job''
      \<and> ti_job_id (run_scheduling_tick e mode xs) = sd_job_id (select e mode xs)"
    if "sd_job_id (select e mode xs) = Some i" for xs i
    using that by (simp add: run_scheduling_tick_def claim_job_def Let_def)
  have "ti_job_id (run_scheduling_tick e mode pending') = Some (md_job_id ?h)"
    if m: "mset pending' = mset pending" for pending'
  proof -
    have s: "set pending' = set pending" using m by (rule mset_eq_setD)
    have ne: "pending' \<noteq> []" using m assms(2) by auto
    have key_inj: "inj_on (key_of mode) (set pending')"
      using inj s by (auto simp: inj_on_def key_of_def)
    have "hd (sort_key (key_of mode) pending') = ?h"
      using least s by (intro hd_sort_key_unique key_inj) auto
    with select_eq [OF ne, of e mode] claim inj s show ?thesis by simp
  qed
  then show ?thesis
    using least select_eq [OF assms(2) inj, of e mode] claim [of pending] by (intro bexI [of _ ?h]) auto
qed

lemma scheduling_tick_claims_best_example:
  "ti_job_id (run_scheduling_tick sample_rt PRIORITY
     [\<lparr>md_job_id = ''a'', md_priority = 1, md_created_at = 3\<rparr>,
      \<lparr>md_job_id = ''b'', md_priority = 2, md_created_at = 9\<rparr>]) = Some ''b''"
  using scheduling_tick_claims_best [of "[\<lparr>md_job_id = ''a'', md_priority = 1, md_created_at = 3\<rparr>,
      \<lparr>md_job_id = ''b'', md_priority = 2, md_created_at = 9\<rparr>]" sample_rt PRIORITY]
  by (auto simp: key_of_def)

end
