(* ===== verification/Dag.thy ===== *)
theory Dag
  imports Prelude "HOL-Library.Multiset"
begin

text \<open>
  The subtask graph of a decomposition plan: the types of \<^verbatim>\<open>agent/types/decomposition.py\<close> and
  the validator and topological sort of \<^verbatim>\<open>agent/decomposition/dag_validator.py\<close>.  Both
  depth-first searches recurse at most once per subtask, so the number of subtasks is the fuel;
  that it is enough is part of what is proved.
\<close>

subsection \<open>Data\<close>

record subtask_spec =
  st_id :: string
  st_description :: string
  st_target_agent_id :: "string option"
  st_target_skill_id :: "string option"
  st_arguments :: "json pydict"
  st_depends_on :: "string list"
  st_priority :: int
  st_timeout_seconds :: int
  st_max_retries :: int

record decomposition_plan =
  dp_plan_id :: string
  dp_parent_task :: string
  dp_subtasks :: "subtask_spec list"
  dp_merge_strategy :: string
  dp_merge_agent_id :: "string option"
  dp_merge_prompt_template :: "string option"
  dp_metadata :: "json pydict"

record fan_out_result =
  fo_child_job_ids :: "string list"
  fo_join_handle_id :: string
  fo_continuation_job_id :: string

text \<open>The reasons of a \<open>DagValidationError\<close>; \<open>DagKeyError\<close> is a failed dict lookup.\<close>

datatype dag_error =
    DuplicateIds
  | UnknownDependency string string
  | SelfDependency string string
  | CycleDetected string string
  | DagKeyError string

subsection \<open>Validation\<close>

text \<open>The first offending dependency, subtask by subtask.\<close>

fun check_deps :: "string list \<Rightarrow> string \<Rightarrow> string list \<Rightarrow> dag_error + unit" where
  "check_deps ids sid [] = Inr ()"
| "check_deps ids sid (dep # deps) =
     (if dep \<notin> set ids then Inl (UnknownDependency sid dep)
      else if dep = sid then Inl (SelfDependency sid dep)
      else check_deps ids sid deps)"

fun check_all_deps :: "string list \<Rightarrow> subtask_spec list \<Rightarrow> dag_error + unit" where
  "check_all_deps ids [] = Inr ()"
| "check_all_deps ids (s # ss) =
     (case check_deps ids (st_id s) (st_depends_on s) of
        Inl e \<Rightarrow> Inl e
      | Inr _ \<Rightarrow> check_all_deps ids ss)"

definition build_adjacency :: "subtask_spec list \<Rightarrow> string list pydict" where
  "build_adjacency subtasks = fold (\<lambda>s adj. dict_set adj (st_id s) (st_depends_on s)) subtasks []"

datatype visit_state = UNVISITED | VISITING | VISITED

fun dfs ::
  "nat \<Rightarrow> string list pydict \<Rightarrow> string \<Rightarrow> visit_state pydict
   \<Rightarrow> (dag_error + visit_state pydict) option"
and dfs_deps ::
  "nat \<Rightarrow> string list pydict \<Rightarrow> string \<Rightarrow> string list \<Rightarrow> visit_state pydict
   \<Rightarrow> (dag_error + visit_state pydict) option"
where
  "dfs 0 adj node state = None"
| "dfs (Suc fuel) adj node state =
     (case dfs_deps fuel adj node (dict_get_or adj node []) (dict_set state node VISITING) of
        None \<Rightarrow> None
      | Some (Inl e) \<Rightarrow> Some (Inl e)
      | Some (Inr state) \<Rightarrow> Some (Inr (dict_set state node VISITED)))"
| "dfs_deps fuel adj node [] state = Some (Inr state)"
| "dfs_deps fuel adj node (dep # deps) state =
     (case dict_get state dep of
        None \<Rightarrow> Some (Inl (DagKeyError dep))
      | Some VISITING \<Rightarrow> Some (Inl (CycleDetected node dep))
      | Some UNVISITED \<Rightarrow>
          (case dfs fuel adj dep state of
             None \<Rightarrow> None
           | Some (Inl e) \<Rightarrow> Some (Inl e)
           | Some (Inr state) \<Rightarrow> dfs_deps fuel adj node deps state)
      | Some VISITED \<Rightarrow> dfs_deps fuel adj node deps state)"

fun dfs_all ::
  "nat \<Rightarrow> string list pydict \<Rightarrow> string list \<Rightarrow> visit_state pydict
   \<Rightarrow> (dag_error + visit_state pydict) option"
where
  "dfs_all fuel adj [] state = Some (Inr state)"
| "dfs_all fuel adj (sid # sids) state =
     (case dict_get state sid of
        None \<Rightarrow> Some (Inl (DagKeyError sid))
      | Some UNVISITED \<Rightarrow>
          (case dfs fuel adj sid state of
             None \<Rightarrow> None
           | Some (Inl e) \<Rightarrow> Some (Inl e)
           | Some (Inr state) \<Rightarrow> dfs_all fuel adj sids state)
      | Some _ \<Rightarrow> dfs_all fuel adj sids state)"

definition check_cycles :: "subtask_spec list \<Rightarrow> (dag_error + unit) option" where
  "check_cycles subtasks =
     (let adjacency = build_adjacency subtasks;
          state = fold (\<lambda>s st. dict_set st (st_id s) UNVISITED) subtasks []
      in case dfs_all (length subtasks) adjacency (map st_id subtasks) state of
           None \<Rightarrow> None
         | Some (Inl e) \<Rightarrow> Some (Inl e)
         | Some (Inr _) \<Rightarrow> Some (Inr ()))"

definition validate_dag :: "subtask_spec list \<Rightarrow> (dag_error + unit) option" where
  "validate_dag subtasks =
     (let ids = remdups (map st_id subtasks)
      in if length ids \<noteq> length subtasks then Some (Inl DuplicateIds)
         else (case check_all_deps ids subtasks of
                 Inl e \<Rightarrow> Some (Inl e)
               | Inr _ \<Rightarrow> check_cycles subtasks))"

subsection \<open>Topological sort\<close>

fun visit ::
  "nat \<Rightarrow> subtask_spec pydict \<Rightarrow> string \<Rightarrow> string list \<times> subtask_spec list
   \<Rightarrow> (dag_error + string list \<times> subtask_spec list) option"
and visit_deps ::
  "nat \<Rightarrow> subtask_spec pydict \<Rightarrow> string list \<Rightarrow> string list \<times> subtask_spec list
   \<Rightarrow> (dag_error + string list \<times> subtask_spec list) option"
where
  "visit fuel id_map node_id (visited, result) =
     (if node_id \<in> set visited then Some (Inr (visited, result))
      else (case fuel of
          0 \<Rightarrow> None
        | Suc fuel \<Rightarrow>
            (case dict_get id_map node_id of
               None \<Rightarrow> Some (Inl (DagKeyError node_id))
             | Some node \<Rightarrow>
                 (case visit_deps fuel id_map (st_depends_on node) (node_id # visited, result) of
                    None \<Rightarrow> None
                  | Some (Inl e) \<Rightarrow> Some (Inl e)
                  | Some (Inr (visited, result)) \<Rightarrow> Some (Inr (visited, result @ [node]))))))"
| "visit_deps fuel id_map [] s = Some (Inr s)"
| "visit_deps fuel id_map (dep # deps) s =
     (case visit fuel id_map dep s of
        None \<Rightarrow> None
      | Some (Inl e) \<Rightarrow> Some (Inl e)
      | Some (Inr s) \<Rightarrow> visit_deps fuel id_map deps s)"

definition topological_sort :: "subtask_spec list \<Rightarrow> (dag_error + subtask_spec list) option" where
  "topological_sort subtasks =
     (case validate_dag subtasks of
        None \<Rightarrow> None
      | Some (Inl e) \<Rightarrow> Some (Inl e)
      | Some (Inr _) \<Rightarrow>
          let id_map = fold (\<lambda>s m. dict_set m (st_id s) s) subtasks []
          in case visit_deps (length subtasks) id_map (map st_id subtasks) ([], []) of
               None \<Rightarrow> None
             | Some (Inl e) \<Rightarrow> Some (Inl e)
             | Some (Inr (_, result)) \<Rightarrow> Some (Inr result))"

subsection \<open>Colours and orders\<close>

definition succs :: "string list pydict \<Rightarrow> string \<Rightarrow> string list" where
  "succs adj x = dict_get_or adj x []"

definition edges :: "string list pydict \<Rightarrow> (string \<times> string) set" where
  "edges adj = {(x, d). d \<in> set (succs adj x)}"

definition coloured :: "visit_state pydict \<Rightarrow> visit_state \<Rightarrow> string set" where
  "coloured st c = {x. dict_get st x = Some c}"

text \<open>Every element comes after its successors.\<close>

definition topo_ok :: "('a \<Rightarrow> 'b set) \<Rightarrow> ('a \<Rightarrow> 'b) \<Rightarrow> 'a list \<Rightarrow> bool" where
  "topo_ok deps name xs \<longleftrightarrow>
     (\<forall>i < length xs. deps (xs ! i) \<subseteq> name ` set (take i xs))"

lemma topo_ok_Nil [simp]: "topo_ok deps name []"
  by (simp add: topo_ok_def)

lemma topo_ok_snoc [simp]:
  "topo_ok deps name (xs @ [x]) \<longleftrightarrow> topo_ok deps name xs \<and> deps x \<subseteq> name ` set xs"
  by (auto simp: topo_ok_def nth_append less_Suc_eq)

text \<open>A set with such an order carries no cycle: the position of the first occurrence decreases.\<close>

lemma topo_ok_rank:
  assumes "topo_ok (\<lambda>x. set (succs adj x)) id order" "x \<in> set order" "d \<in> set (succs adj x)"
  shows "d \<in> set order \<and> length (takeWhile (\<lambda>y. y \<noteq> d) order) < length (takeWhile (\<lambda>y. y \<noteq> x) order)"
proof -
  let ?i = "length (takeWhile (\<lambda>y. y \<noteq> x) order)"
  have i: "?i < length order" "order ! ?i = x"
  proof -
    have "dropWhile (\<lambda>y. y \<noteq> x) order \<noteq> []" using assms(2) by simp
    then show "?i < length order"
      by (metis length_append length_greater_0_conv less_add_same_cancel1 takeWhile_dropWhile_id)
    then show "order ! ?i = x" using nth_length_takeWhile by fastforce
  qed
  have "set (succs adj (order ! ?i)) \<subseteq> id ` set (take ?i order)"
    using assms(1) i(1) unfolding topo_ok_def by blast
  then have d: "d \<in> set (take ?i order)" using i(2) assms(3) by auto
  then obtain k where k: "k < ?i" "order ! k = d" by (auto simp: in_set_conv_nth)
  have "length (takeWhile (\<lambda>y. y \<noteq> d) order) \<le> k"
  proof (rule ccontr)
    assume "\<not> ?thesis"
    then have "order ! k \<in> set (takeWhile (\<lambda>y. y \<noteq> d) order)"
      by (metis not_le nth_mem takeWhile_nth)
    with k(2) show False by (auto dest: set_takeWhileD)
  qed
  with k(1) d show ?thesis by (auto dest: in_set_takeD)
qed

lemma topo_ok_acyclic:
  assumes "topo_ok (\<lambda>x. set (succs adj x)) id order" "Domain (edges adj) \<subseteq> set order"
  shows "acyclic (edges adj)"
proof -
  let ?rank = "\<lambda>x. length (takeWhile (\<lambda>y. y \<noteq> x) order)"
  have "edges adj \<subseteq> (measure ?rank)\<inverse>"
    using topo_ok_rank [OF assms(1)] assms(2) by (auto simp: edges_def)
  moreover have "acyclic ((measure ?rank)\<inverse>)"
    by (simp add: acyclic_converse wf_acyclic)
  ultimately show ?thesis by (rule acyclic_subset [rotated])
qed

subsection \<open>The depth-first search is correct\<close>

definition dfs_inv :: "string set \<Rightarrow> string list pydict \<Rightarrow> visit_state pydict \<Rightarrow> bool" where
  "dfs_inv V adj st \<longleftrightarrow>
     dom (dict_get st) = V
     \<and> (\<exists>order. set order = coloured st VISITED \<and> topo_ok (\<lambda>x. set (succs adj x)) id order)"

definition graph_ok :: "string set \<Rightarrow> string list pydict \<Rightarrow> bool" where
  "graph_ok V adj \<longleftrightarrow> finite V \<and> (\<forall>x. set (succs adj x) \<subseteq> V)"

lemma coloured_set [simp]:
  "coloured (dict_set st x c) c' = (if c' = c then insert x (coloured st c') else coloured st c' - {x})"
  by (auto simp: coloured_def)

lemma coloured_finite: "dfs_inv V adj st \<Longrightarrow> finite V \<Longrightarrow> finite (coloured st c)"
  by (rule finite_subset [of _ "dom (dict_get st)"]) (auto simp: dfs_inv_def coloured_def)

lemma whites_shrink:
  assumes "dfs_inv V adj st" "dfs_inv V adj st'" "finite V"
    and "coloured st' VISITING = coloured st VISITING" "coloured st VISITED \<subseteq> coloured st' VISITED"
  shows "card (coloured st' UNVISITED) \<le> card (coloured st UNVISITED)"
proof -
  have "coloured s UNVISITED = V - coloured s VISITING - coloured s VISITED" if "dfs_inv V adj s" for s
  proof -
    have dom: "x \<in> V \<longleftrightarrow> dict_get s x \<noteq> None" for x
      using that by (auto simp: dfs_inv_def)
    have "x \<in> coloured s UNVISITED \<longleftrightarrow> x \<in> V - coloured s VISITING - coloured s VISITED" for x
    proof (cases "dict_get s x")
      case None
      with dom show ?thesis by (simp add: coloured_def)
    next
      case (Some c)
      with dom [of x] show ?thesis by (cases c) (simp_all add: coloured_def)
    qed
    then show ?thesis by blast
  qed
  with assms show ?thesis
    by (intro card_mono coloured_finite [OF assms(1,3)]) blast
qed

text \<open>What a search from \<open>st\<close> may end with, having finished the nodes \<open>xs\<close>.\<close>

definition dfs_post ::
  "string set \<Rightarrow> string list pydict \<Rightarrow> visit_state pydict \<Rightarrow> string set
   \<Rightarrow> (dag_error + visit_state pydict) option \<Rightarrow> bool"
where
  "dfs_post V adj st xs r \<longleftrightarrow>
     (case r of
        None \<Rightarrow> False
      | Some (Inl e) \<Rightarrow> \<not> acyclic (edges adj) \<and> (\<exists>a b. e = CycleDetected a b)
      | Some (Inr st') \<Rightarrow> dfs_inv V adj st' \<and> coloured st VISITED \<union> xs \<subseteq> coloured st' VISITED
          \<and> coloured st' VISITING = coloured st VISITING)"

lemma dfs_correct:
  "graph_ok V adj \<Longrightarrow> dfs_inv V adj st \<Longrightarrow> dict_get st node = Some UNVISITED \<Longrightarrow>
     (\<forall>g \<in> coloured st VISITING. (g, node) \<in> (edges adj)\<^sup>*) \<Longrightarrow>
     card (coloured st UNVISITED) \<le> fuel \<Longrightarrow> dfs_post V adj st {node} (dfs fuel adj node st)"
  "graph_ok V adj \<Longrightarrow> dfs_inv V adj st \<Longrightarrow> dict_get st node = Some VISITING \<Longrightarrow>
     set deps \<subseteq> set (succs adj node) \<Longrightarrow>
     (\<forall>g \<in> coloured st VISITING. (g, node) \<in> (edges adj)\<^sup>*) \<Longrightarrow>
     card (coloured st UNVISITED) \<le> fuel \<Longrightarrow>
     dfs_post V adj st (set deps) (dfs_deps fuel adj node deps st)"
proof (induction fuel adj node st and fuel adj node deps st rule: dfs_dfs_deps.induct)
  case (1 adj node st)
  have "finite (coloured st UNVISITED)" using 1(1,2) coloured_finite by (simp add: graph_ok_def)
  moreover have "node \<in> coloured st UNVISITED" using 1(3) by (simp add: coloured_def)
  ultimately have "0 < card (coloured st UNVISITED)" using card_gt_0_iff by blast
  with 1(5) show ?case by simp
next
  case (2 fuel adj node st)
  let ?st1 = "dict_set st node VISITING"
  have white: "node \<in> coloured st UNVISITED" "node \<notin> coloured st VISITED" "node \<notin> coloured st VISITING"
    using 2(4) by (auto simp: coloured_def)
  have V: "node \<in> V" using 2(3,4) by (auto simp: dfs_inv_def)
  obtain order where order: "set order = coloured st VISITED" "topo_ok (\<lambda>x. set (succs adj x)) id order"
    using 2(3) by (auto simp: dfs_inv_def)
  have inv1: "dfs_inv V adj ?st1"
    unfolding dfs_inv_def
  proof (intro conjI exI)
    show "dom (dict_get ?st1) = V" using 2(3) V by (auto simp: dfs_inv_def dom_def)
    show "set order = coloured ?st1 VISITED" using order(1) white by simp
  qed (rule order(2))
  have fin: "finite (coloured st UNVISITED)"
    using 2(2,3) coloured_finite by (simp add: graph_ok_def)
  have card1: "card (coloured ?st1 UNVISITED) \<le> fuel"
    using 2(6) white(1) fin by (simp add: card_Diff_singleton)
  have grey1: "\<forall>g \<in> coloured ?st1 VISITING. (g, node) \<in> (edges adj)\<^sup>*"
    using 2(5) by simp
  have IH: "dfs_post V adj ?st1 (set (succs adj node))
      (dfs_deps fuel adj node (dict_get_or adj node []) ?st1)"
    unfolding succs_def using 2(1) [OF 2(2) inv1 _ _ grey1 card1] by (simp add: succs_def)
  show ?case
  proof (cases "dfs_deps fuel adj node (dict_get_or adj node []) ?st1")
    case None
    with IH show ?thesis by (simp add: dfs_post_def)
  next
    case (Some r)
    show ?thesis
    proof (cases r)
      case (Inl e)
      with Some IH show ?thesis by (simp add: dfs_post_def)
    next
      case (Inr st2)
      with Some IH have p: "dfs_inv V adj st2"
          "coloured ?st1 VISITED \<union> set (succs adj node) \<subseteq> coloured st2 VISITED"
          "coloured st2 VISITING = coloured ?st1 VISITING"
        by (simp_all add: dfs_post_def)
      obtain order2 where order2: "set order2 = coloured st2 VISITED"
          "topo_ok (\<lambda>x. set (succs adj x)) id order2"
        using p(1) by (auto simp: dfs_inv_def)
      have "dfs_inv V adj (dict_set st2 node VISITED)"
        unfolding dfs_inv_def
      proof (intro conjI exI)
        show "dom (dict_get (dict_set st2 node VISITED)) = V"
          using p(1) V by (auto simp: dfs_inv_def dom_def)
        show "set (order2 @ [node]) = coloured (dict_set st2 node VISITED) VISITED"
          using order2(1) by simp
        show "topo_ok (\<lambda>x. set (succs adj x)) id (order2 @ [node])"
          using order2 p(2) by auto
      qed
      moreover have "coloured (dict_set st2 node VISITED) VISITING = coloured st VISITING"
        using p(3) white by auto
      moreover have "coloured st VISITED \<union> {node} \<subseteq> coloured (dict_set st2 node VISITED) VISITED"
        using p(2) white by auto
      ultimately show ?thesis using Some Inr by (simp add: dfs_post_def)
    qed
  qed
next
  case (3 fuel adj node st)
  then show ?case by (simp add: dfs_post_def)
next
  case (4 fuel adj node dep deps st)
  note IH_dfs = 4(1) and IH_white = 4(2) and IH_black = 4(3)
  note prems = 4(4-9)
  have edge: "(node, dep) \<in> edges adj" using prems(4) by (auto simp: edges_def)
  have "dep \<in> V" using prems(1,4) by (auto simp: graph_ok_def)
  then obtain c where c: "dict_get st dep = Some c" using prems(2) by (auto simp: dfs_inv_def)
  show ?case
  proof (cases c)
    case VISITING
    then have "(dep, node) \<in> (edges adj)\<^sup>*" using c prems(5) by (simp add: coloured_def)
    with edge have "(dep, dep) \<in> (edges adj)\<^sup>+" by auto
    then show ?thesis using c VISITING by (auto simp: dfs_post_def acyclic_def)
  next
    case VISITED
    have "dfs_post V adj st (set deps) (dfs_deps fuel adj node deps st)"
      using IH_black c VISITED prems by simp
    moreover have "dep \<in> coloured st VISITED" using c VISITED by (simp add: coloured_def)
    ultimately show ?thesis
      using c VISITED by (auto simp: dfs_post_def split: option.splits sum.splits)
  next
    case UNVISITED
    have grey: "\<forall>g \<in> coloured st VISITING. (g, dep) \<in> (edges adj)\<^sup>*"
      using prems(5) edge by (meson rtrancl.rtrancl_into_rtrancl)
    have one: "dfs_post V adj st {dep} (dfs fuel adj dep st)"
      using IH_dfs c UNVISITED prems grey by simp
    show ?thesis
    proof (cases "dfs fuel adj dep st")
      case None
      with one show ?thesis by (simp add: dfs_post_def)
    next
      case (Some r)
      show ?thesis
      proof (cases r)
        case (Inl e)
        with Some one c UNVISITED show ?thesis by (simp add: dfs_post_def)
      next
        case (Inr st1)
        with Some one have p: "dfs_inv V adj st1" "coloured st VISITED \<union> {dep} \<subseteq> coloured st1 VISITED"
            "coloured st1 VISITING = coloured st VISITING"
          by (simp_all add: dfs_post_def)
        have "card (coloured st1 UNVISITED) \<le> fuel"
          using whites_shrink [OF prems(2) p(1) _ p(3)] p(2) prems(1,6) by (auto simp: graph_ok_def)
        moreover have "dict_get st1 node = Some VISITING"
          using p(3) prems(3) by (auto simp: coloured_def)
        ultimately have "dfs_post V adj st1 (set deps) (dfs_deps fuel adj node deps st1)"
          using IH_white [OF c UNVISITED Some Inr prems(1) p(1)] prems(4,5) p(3) by simp
        with Some Inr c UNVISITED p show ?thesis
          by (auto simp: dfs_post_def split: option.splits sum.splits)
      qed
    qed
  qed
qed

subsection \<open>Validation is exact\<close>

lemma dict_get_fold_set:
  "dict_get (fold (\<lambda>s d. dict_set d (f s) (g s)) ss d) k =
     (case map_of (rev (map (\<lambda>s. (f s, g s)) ss)) k of Some v \<Rightarrow> Some v | None \<Rightarrow> dict_get d k)"
  by (induction ss arbitrary: d) (auto simp: map_add_def split: option.splits)

lemma dict_get_fold_set_distinct:
  assumes "distinct (map f ss)" "s \<in> set ss"
  shows "dict_get (fold (\<lambda>s d. dict_set d (f s) (g s)) ss []) (f s) = Some (g s)"
proof -
  have "distinct (map fst (rev (map (\<lambda>s. (f s, g s)) ss)))"
    using assms(1) by (simp add: comp_def flip: rev_map)
  moreover have "(f s, g s) \<in> set (rev (map (\<lambda>s. (f s, g s)) ss))" using assms(2) by auto
  ultimately have "map_of (rev (map (\<lambda>s. (f s, g s)) ss)) (f s) = Some (g s)"
    by (rule map_of_is_SomeI)
  then show ?thesis by (simp add: dict_get_fold_set)
qed

lemma dict_get_fold_set_absent:
  "k \<notin> f ` set ss \<Longrightarrow> dict_get (fold (\<lambda>s d. dict_set d (f s) (g s)) ss []) k = None"
  by (auto simp: dict_get_fold_set map_of_eq_None_iff split: option.splits dest!: map_of_SomeD)

text \<open>The plan's own graph: from a subtask to what it depends on.\<close>

definition dag_edges :: "subtask_spec list \<Rightarrow> (string \<times> string) set" where
  "dag_edges ss = {(st_id s, d) | s d. s \<in> set ss \<and> d \<in> set (st_depends_on s)}"

definition dag_ids :: "subtask_spec list \<Rightarrow> string set" where
  "dag_ids ss = st_id ` set ss"

lemma succs_build:
  assumes "distinct (map st_id ss)"
  shows "s \<in> set ss \<Longrightarrow> succs (build_adjacency ss) (st_id s) = st_depends_on s"
    and "x \<notin> dag_ids ss \<Longrightarrow> succs (build_adjacency ss) x = []"
  using dict_get_fold_set_distinct [OF assms, of s st_depends_on]
    dict_get_fold_set_absent [of x st_id ss st_depends_on]
  by (simp_all add: succs_def build_adjacency_def dict_get_or_def dag_ids_def)

lemma edges_build:
  assumes "distinct (map st_id ss)"
  shows "edges (build_adjacency ss) = dag_edges ss"
proof -
  have "(x, d) \<in> edges (build_adjacency ss) \<longleftrightarrow> (x, d) \<in> dag_edges ss" for x d
  proof (cases "x \<in> dag_ids ss")
    case True
    then obtain s where s: "s \<in> set ss" "x = st_id s" by (auto simp: dag_ids_def)
    have inj: "inj_on st_id (set ss)" using assms by (simp add: distinct_map)
    have "(x, d) \<in> dag_edges ss \<longleftrightarrow> d \<in> set (st_depends_on s)"
    proof
      assume "(x, d) \<in> dag_edges ss"
      then obtain s' where "s' \<in> set ss" "st_id s' = x" "d \<in> set (st_depends_on s')"
        unfolding dag_edges_def by blast
      with s inj_onD [OF inj] show "d \<in> set (st_depends_on s)" by metis
    next
      assume "d \<in> set (st_depends_on s)"
      with s show "(x, d) \<in> dag_edges ss" unfolding dag_edges_def by blast
    qed
    then show ?thesis using succs_build(1) [OF assms s(1)] s(2) by (simp add: edges_def)
  next
    case False
    with succs_build(2) [OF assms False] show ?thesis
      by (auto simp: edges_def dag_edges_def dag_ids_def)
  qed
  then show ?thesis by auto
qed

lemma dfs_all_correct:
  "graph_ok V adj \<Longrightarrow> dfs_inv V adj st \<Longrightarrow> coloured st VISITING = {} \<Longrightarrow> set sids \<subseteq> V \<Longrightarrow>
     card (coloured st UNVISITED) \<le> fuel \<Longrightarrow>
     dfs_post V adj st (set sids) (dfs_all fuel adj sids st)"
proof (induction sids arbitrary: st)
  case Nil
  then show ?case by (simp add: dfs_post_def)
next
  case (Cons sid sids)
  obtain c where c: "dict_get st sid = Some c" using Cons.prems(2,4) by (auto simp: dfs_inv_def)
  show ?case
  proof (cases c)
    case VISITING
    with c Cons.prems(3) show ?thesis by (auto simp: coloured_def)
  next
    case VISITED
    with c have "sid \<in> coloured st VISITED" by (simp add: coloured_def)
    with Cons.IH [OF Cons.prems(1-3) _ Cons.prems(5)] Cons.prems(4) c VISITED show ?thesis
      by (auto simp: dfs_post_def split: option.splits sum.splits)
  next
    case UNVISITED
    have one: "dfs_post V adj st {sid} (dfs fuel adj sid st)"
      using dfs_correct(1) [OF Cons.prems(1,2)] c UNVISITED Cons.prems(3,5) by simp
    show ?thesis
    proof (cases "dfs fuel adj sid st")
      case None
      with one show ?thesis by (simp add: dfs_post_def)
    next
      case (Some r)
      show ?thesis
      proof (cases r)
        case (Inl e)
        with Some one c UNVISITED show ?thesis by (simp add: dfs_post_def)
      next
        case (Inr st1)
        with Some one have p: "dfs_inv V adj st1" "coloured st VISITED \<union> {sid} \<subseteq> coloured st1 VISITED"
            "coloured st1 VISITING = coloured st VISITING"
          by (simp_all add: dfs_post_def)
        have "card (coloured st1 UNVISITED) \<le> fuel"
          using whites_shrink [OF Cons.prems(2) p(1) _ p(3)] p(2) Cons.prems(1,5)
          by (auto simp: graph_ok_def)
        then have "dfs_post V adj st1 (set sids) (dfs_all fuel adj sids st1)"
          using Cons.IH [OF Cons.prems(1) p(1)] p(3) Cons.prems(3,4) by simp
        with Some Inr c UNVISITED p show ?thesis
          by (auto simp: dfs_post_def split: option.splits sum.splits)
      qed
    qed
  qed
qed

definition dag_closed :: "subtask_spec list \<Rightarrow> bool" where
  "dag_closed ss \<longleftrightarrow> Range (dag_edges ss) \<subseteq> dag_ids ss"

lemma range_dag_edges: "Range (dag_edges ss) = (\<Union>s \<in> set ss. set (st_depends_on s))"
  unfolding dag_edges_def by blast

lemma check_cycles_exact:
  assumes "distinct (map st_id ss)" "dag_closed ss"
  shows "if acyclic (dag_edges ss) then check_cycles ss = Some (Inr ())
    else \<exists>a b. check_cycles ss = Some (Inl (CycleDetected a b))"
proof -
  let ?adj = "build_adjacency ss" and ?V = "dag_ids ss"
  define st0 where "st0 = fold (\<lambda>s st. dict_set st (st_id s) UNVISITED) ss []"
  have get0: "dict_get st0 x = (if x \<in> ?V then Some UNVISITED else None)" for x
    using dict_get_fold_set_distinct [OF assms(1), of _ "\<lambda>_. UNVISITED"]
      dict_get_fold_set_absent [of x st_id ss "\<lambda>_. UNVISITED"]
    by (auto simp: st0_def dag_ids_def)
  have col0: "coloured st0 UNVISITED = ?V" "coloured st0 VISITING = {}" "coloured st0 VISITED = {}"
    by (auto simp: coloured_def get0)
  have "succs ?adj x \<noteq> [] \<Longrightarrow> set (succs ?adj x) \<subseteq> Range (edges ?adj)" for x
    by (auto simp: edges_def)
  then have g: "graph_ok ?V ?adj"
    using assms(2) edges_build [OF assms(1)]
    by (force simp: graph_ok_def dag_closed_def dag_ids_def edges_def)
  have inv0: "dfs_inv ?V ?adj st0"
    unfolding dfs_inv_def by (intro conjI exI [of _ "[]"]) (auto simp: get0 col0 dom_def)
  have "card ?V \<le> length ss" unfolding dag_ids_def
    by (metis card_image_le card_length finite_set order_trans)
  then have post: "dfs_post ?V ?adj st0 (set (map st_id ss)) (dfs_all (length ss) ?adj (map st_id ss) st0)"
    by (intro dfs_all_correct g inv0) (simp_all add: col0 dag_ids_def)
  have c: "check_cycles ss = (case dfs_all (length ss) ?adj (map st_id ss) st0 of
      None \<Rightarrow> None | Some (Inl e) \<Rightarrow> Some (Inl e) | Some (Inr _) \<Rightarrow> Some (Inr ()))"
    by (simp add: check_cycles_def st0_def Let_def)
  show ?thesis
  proof (cases "dfs_all (length ss) ?adj (map st_id ss) st0")
    case None
    with post show ?thesis by (simp add: dfs_post_def)
  next
    case (Some r)
    show ?thesis
    proof (cases r)
      case (Inl e)
      with Some post c edges_build [OF assms(1)] show ?thesis by (auto simp: dfs_post_def)
    next
      case (Inr st')
      with Some post have p: "dfs_inv ?V ?adj st'" "set (map st_id ss) \<subseteq> coloured st' VISITED"
        by (auto simp: dfs_post_def)
      then obtain order where order: "set order = coloured st' VISITED"
          "topo_ok (\<lambda>x. set (succs ?adj x)) id order" by (auto simp: dfs_inv_def)
      have "Domain (edges ?adj) \<subseteq> set order"
        using p(2) order(1) edges_build [OF assms(1)] by (auto simp: dag_edges_def)
      then have "acyclic (dag_edges ss)"
        using topo_ok_acyclic [OF order(2)] edges_build [OF assms(1)] by simp
      with Some Inr c show ?thesis by simp
    qed
  qed
qed

lemma check_deps_ok:
  "check_deps ids sid deps = Inr () \<longleftrightarrow> set deps \<subseteq> set ids \<and> sid \<notin> set deps"
  by (induction deps) auto

lemma check_all_deps_ok:
  "check_all_deps ids ss = Inr () \<longleftrightarrow>
     (\<forall>s \<in> set ss. set (st_depends_on s) \<subseteq> set ids \<and> st_id s \<notin> set (st_depends_on s))"
proof (induction ss)
  case Nil
  then show ?case by simp
next
  case (Cons s ss)
  then show ?case using check_deps_ok [of ids "st_id s" "st_depends_on s"]
    by (auto split: sum.splits)
qed

lemma acyclic_no_self: "acyclic (dag_edges ss) \<Longrightarrow> s \<in> set ss \<Longrightarrow> st_id s \<notin> set (st_depends_on s)"
  by (auto simp: acyclic_def dag_edges_def)

lemma validate_dag_cases:
  "(validate_dag ss = Some (Inr ())) =
     (distinct (map st_id ss) \<and> dag_closed ss \<and> acyclic (dag_edges ss))
   \<and> validate_dag ss \<noteq> None"
proof (cases "distinct (map st_id ss)")
  case False
  then have "length (remdups (map st_id ss)) \<noteq> length ss"
    by (metis length_map length_remdups_eq remdups_id_iff_distinct)
  with False show ?thesis by (simp add: validate_dag_def Let_def)
next
  case True
  then have ids: "remdups (map st_id ss) = map st_id ss" by (simp add: distinct_remdups_id)
  have v: "validate_dag ss = (case check_all_deps (map st_id ss) ss of
      Inl e \<Rightarrow> Some (Inl e) | Inr _ \<Rightarrow> check_cycles ss)"
    unfolding validate_dag_def ids Let_def by simp
  have closed: "dag_closed ss \<longleftrightarrow> (\<forall>s \<in> set ss. set (st_depends_on s) \<subseteq> set (map st_id ss))"
    unfolding dag_closed_def range_dag_edges by (auto simp: dag_ids_def)
  show ?thesis
  proof (cases "check_all_deps (map st_id ss) ss")
    case (Inl e)
    then have "\<not> (dag_closed ss \<and> acyclic (dag_edges ss))"
      using check_all_deps_ok [of "map st_id ss" ss] closed acyclic_no_self by auto
    with Inl v show ?thesis by auto
  next
    case (Inr u)
    then have "dag_closed ss" using check_all_deps_ok [of "map st_id ss" ss] closed by simp
    from check_cycles_exact [OF True this] True this Inr v show ?thesis
      by (auto split: if_splits)
  qed
qed

text \<open>C9: Validation of a plan is exact and always answers: the validator accepts a list of
  subtasks precisely when the ids are distinct, every dependency is the id of a subtask of the list,
  and the dependency graph has no cycle (self-dependencies included); it never runs out of
  recursion depth within the number of subtasks.\<close>

theorem validate_dag_exact:
  "(validate_dag ss = Some (Inr ())) =
     (distinct (map st_id ss) \<and> dag_closed ss \<and> acyclic (dag_edges ss))
   \<and> validate_dag ss \<noteq> None"
  by (rule validate_dag_cases)

subsection \<open>The sort is a dependency order\<close>

text \<open>
  The state of the sort is good for a plan: the result is a dependency order of subtasks of the
  plan, all of them visited, and the visited ones not yet in the result (those on the stack)
  reach \<open>node\<close>.
\<close>

definition sort_inv ::
  "subtask_spec list \<Rightarrow> (string \<Rightarrow> bool) \<Rightarrow> string list \<times> subtask_spec list \<Rightarrow> bool"
where
  "sort_inv ss stack s \<longleftrightarrow>
     (case s of (visited, result) \<Rightarrow>
        distinct visited \<and> set visited \<subseteq> dag_ids ss
        \<and> set result \<subseteq> set ss \<and> distinct (map st_id result)
        \<and> st_id ` set result \<subseteq> set visited
        \<and> (\<forall>v \<in> set visited. v \<notin> st_id ` set result \<longrightarrow> stack v)
        \<and> topo_ok (\<lambda>s. set (st_depends_on s)) st_id result)"

definition sort_post ::
  "subtask_spec list \<Rightarrow> (string \<Rightarrow> bool) \<Rightarrow> string list \<times> subtask_spec list \<Rightarrow> string set
   \<Rightarrow> (dag_error + string list \<times> subtask_spec list) option \<Rightarrow> bool"
where
  "sort_post ss stack s xs r \<longleftrightarrow>
     (\<exists>s'. r = Some (Inr s') \<and> sort_inv ss stack s'
        \<and> set (fst s) \<subseteq> set (fst s') \<and> st_id ` set (snd s) \<union> xs \<subseteq> st_id ` set (snd s')
        \<and> length (fst s) \<le> length (fst s')
        \<and> set (fst s') - st_id ` set (snd s') = set (fst s) - st_id ` set (snd s))"

abbreviation reaches :: "subtask_spec list \<Rightarrow> string \<Rightarrow> string \<Rightarrow> bool" where
  "reaches ss node v \<equiv> (v, node) \<in> (dag_edges ss)\<^sup>*"

lemma sort_inv_mono:
  "sort_inv ss p s \<Longrightarrow> (\<And>v. v \<in> set (fst s) \<Longrightarrow> v \<notin> st_id ` set (snd s) \<Longrightarrow> p v \<Longrightarrow> q v)
   \<Longrightarrow> sort_inv ss q s"
  by (auto simp: sort_inv_def split: prod.splits)

definition id_map_ok :: "subtask_spec list \<Rightarrow> subtask_spec pydict \<Rightarrow> bool" where
  "id_map_ok ss m \<longleftrightarrow> (\<forall>s \<in> set ss. dict_get m (st_id s) = Some s)"

definition plan_ok :: "subtask_spec list \<Rightarrow> bool" where
  "plan_ok ss \<longleftrightarrow> distinct (map st_id ss) \<and> dag_closed ss \<and> acyclic (dag_edges ss)"

lemma card_dag_ids: "distinct (map st_id ss) \<Longrightarrow> card (dag_ids ss) = length ss"
  by (metis dag_ids_def distinct_card length_map set_map)

lemma visit_correct:
  "plan_ok ss \<Longrightarrow> id_map_ok ss m \<Longrightarrow>
     sort_inv ss (\<lambda>v. (v, node_id) \<in> (dag_edges ss)\<^sup>+) s1 \<Longrightarrow>
     node_id \<in> dag_ids ss \<Longrightarrow> length ss \<le> fuel + length (fst s1) \<Longrightarrow>
     sort_post ss (\<lambda>v. (v, node_id) \<in> (dag_edges ss)\<^sup>+) s1 {node_id} (visit fuel m node_id s1)"
  "plan_ok ss \<Longrightarrow> id_map_ok ss m \<Longrightarrow> sort_inv ss stack s \<Longrightarrow> set deps \<subseteq> dag_ids ss \<Longrightarrow>
     (\<forall>d \<in> set deps. \<forall>v. stack v \<longrightarrow> (v, d) \<in> (dag_edges ss)\<^sup>+) \<Longrightarrow>
     length ss \<le> fuel + length (fst s) \<Longrightarrow>
     sort_post ss stack s (set deps) (visit_deps fuel m deps s)"
proof (induction fuel m node_id s1 and fuel m deps s arbitrary: and stack rule: visit_visit_deps.induct)
  case (1 fuel m node_id visited result)
  note IH = 1(1) and prems = 1(2-6)
  let ?E = "dag_edges ss"
  have inv: "distinct visited" "set visited \<subseteq> dag_ids ss" "set result \<subseteq> set ss"
      "distinct (map st_id result)" "st_id ` set result \<subseteq> set visited"
      "\<And>v. v \<in> set visited \<Longrightarrow> v \<notin> st_id ` set result \<Longrightarrow> (v, node_id) \<in> ?E\<^sup>+"
      "topo_ok (\<lambda>s. set (st_depends_on s)) st_id result"
    using prems(3) by (auto simp: sort_inv_def)
  show ?case
  proof (cases "node_id \<in> set visited")
    case True
    with inv(6) prems(1) have "node_id \<in> st_id ` set result" by (auto simp: plan_ok_def acyclic_def)
    with True prems(3) show ?thesis by (simp add: sort_post_def)
  next
    case False
    have "card (insert node_id (set visited)) \<le> card (dag_ids ss)"
      using inv(2) prems(4) by (intro card_mono) (auto simp: dag_ids_def)
    then have "Suc (length visited) \<le> length ss"
      using False inv(1) prems(1) card_dag_ids by (auto simp: plan_ok_def distinct_card)
    then obtain fuel' where f: "fuel = Suc fuel'" using prems(5) by (cases fuel) auto
    obtain n where n: "n \<in> set ss" "st_id n = node_id" using prems(4) by (auto simp: dag_ids_def)
    have look: "dict_get m node_id = Some n" using prems(2) n by (auto simp: id_map_ok_def)
    let ?stack = "\<lambda>v. v = node_id \<or> (v, node_id) \<in> ?E\<^sup>+"
    have edge: "(node_id, d) \<in> ?E" if "d \<in> set (st_depends_on n)" for d
      using n that unfolding dag_edges_def by blast
    have "sort_post ss ?stack (node_id # visited, result) (set (st_depends_on n))
        (visit_deps fuel' m (st_depends_on n) (node_id # visited, result))"
    proof (rule IH [OF False f look prems(1,2)])
      show "sort_inv ss ?stack (node_id # visited, result)"
        using inv False prems(4) by (auto simp: sort_inv_def)
      show "set (st_depends_on n) \<subseteq> dag_ids ss"
        using prems(1) edge by (auto simp: plan_ok_def dag_closed_def)
      show "\<forall>d \<in> set (st_depends_on n). \<forall>v. ?stack v \<longrightarrow> (v, d) \<in> ?E\<^sup>+"
        using edge by (auto intro: trancl_into_trancl)
      show "length ss \<le> fuel' + length (fst (node_id # visited, result))" using prems(5) f by simp
    qed
    then obtain v2 r2 where r: "visit_deps fuel' m (st_depends_on n) (node_id # visited, result)
          = Some (Inr (v2, r2))" and inv2: "sort_inv ss ?stack (v2, r2)"
      and p: "insert node_id (set visited) \<subseteq> set v2" "set (st_depends_on n) \<subseteq> st_id ` set r2"
        "st_id ` set result \<subseteq> st_id ` set r2" "Suc (length visited) \<le> length v2"
        "set v2 - st_id ` set r2 = insert node_id (set visited) - st_id ` set result"
      by (auto simp: sort_post_def)
    have new: "node_id \<in> set v2" "node_id \<notin> st_id ` set r2"
      using p(5) False inv(5) by auto
    have "sort_inv ss (\<lambda>v. (v, node_id) \<in> ?E\<^sup>+) (v2, r2 @ [n])"
      using inv2 new n p(2) by (auto simp: sort_inv_def)
    moreover have "set v2 - st_id ` set (r2 @ [n]) = set visited - st_id ` set result"
      using p(5) new n False inv(5) by auto
    ultimately show ?thesis
      using False f look r p new n by (auto simp: sort_post_def)
  qed
next
  case (2 fuel m s)
  then show ?case by (simp add: sort_post_def)
next
  case (3 fuel m dep deps s)
  note IH1 = 3(1) and IH2 = 3(2) and prems = 3(3-8)
  have "sort_inv ss (\<lambda>v. (v, dep) \<in> (dag_edges ss)\<^sup>+) s"
    using prems(3) by (rule sort_inv_mono) (use prems(5) in auto)
  then have "sort_post ss (\<lambda>v. (v, dep) \<in> (dag_edges ss)\<^sup>+) s {dep} (visit fuel m dep s)"
    using prems by (intro IH1) auto
  then obtain s2 where s2: "visit fuel m dep s = Some (Inr s2)"
      "sort_inv ss (\<lambda>v. (v, dep) \<in> (dag_edges ss)\<^sup>+) s2"
      "set (fst s) \<subseteq> set (fst s2)" "st_id ` set (snd s) \<union> {dep} \<subseteq> st_id ` set (snd s2)"
      "length (fst s) \<le> length (fst s2)"
      "set (fst s2) - st_id ` set (snd s2) = set (fst s) - st_id ` set (snd s)"
    unfolding sort_post_def by blast
  have "sort_inv ss stack s2"
    using s2(2)
  proof (rule sort_inv_mono)
    fix v assume "v \<in> set (fst s2)" "v \<notin> st_id ` set (snd s2)"
    then have "v \<in> set (fst s)" "v \<notin> st_id ` set (snd s)" using s2(6) by blast+
    with prems(3) show "stack v" by (auto simp: sort_inv_def split: prod.splits)
  qed
  then have "sort_post ss stack s2 (set deps) (visit_deps fuel m deps s2)"
    using prems s2(5) by (intro IH2 [OF s2(1) refl]) auto
  then obtain s3 where s3: "visit_deps fuel m deps s2 = Some (Inr s3)" "sort_inv ss stack s3"
      "set (fst s2) \<subseteq> set (fst s3)" "st_id ` set (snd s2) \<union> set deps \<subseteq> st_id ` set (snd s3)"
      "length (fst s2) \<le> length (fst s3)"
      "set (fst s3) - st_id ` set (snd s3) = set (fst s2) - st_id ` set (snd s2)"
    unfolding sort_post_def by blast
  show ?case
    unfolding sort_post_def
  proof (intro exI conjI)
    show "visit_deps fuel m (dep # deps) s = Some (Inr s3)" using s2(1) s3(1) by simp
    show "sort_inv ss stack s3" by (rule s3(2))
    show "set (fst s) \<subseteq> set (fst s3)" using s2(3) s3(3) by blast
    have "dep \<in> st_id ` set (snd s3)" using s2(4) s3(4) by blast
    then show "st_id ` set (snd s) \<union> set (dep # deps) \<subseteq> st_id ` set (snd s3)"
      using s2(4) s3(4) unfolding list.set by blast
    show "length (fst s) \<le> length (fst s3)" using s2(5) s3(5) by simp
    show "set (fst s3) - st_id ` set (snd s3) = set (fst s) - st_id ` set (snd s)"
      using s2(6) s3(6) by simp
  qed
qed

text \<open>C10: The topological sort is one: for every plan the validator accepts it returns, within the
  recursion depth, a permutation of the plan's subtasks in which each subtask comes after all the
  subtasks it depends on; for any other plan it returns the validator's error.\<close>

theorem topological_sort_correct:
  "(validate_dag ss = Some (Inr ()) \<and>
      (case topological_sort ss of
         Some (Inr r) \<Rightarrow> mset r = mset ss \<and> topo_ok (\<lambda>s. set (st_depends_on s)) st_id r
       | _ \<Rightarrow> False))
   \<or> (\<exists>e. validate_dag ss = Some (Inl e) \<and> topological_sort ss = Some (Inl e))"
proof (cases "validate_dag ss = Some (Inr ())")
  case False
  moreover obtain r where "validate_dag ss = Some r" using validate_dag_cases [of ss] by auto
  ultimately obtain e where "validate_dag ss = Some (Inl e)" by (cases r) auto
  then show ?thesis by (simp add: topological_sort_def)
next
  case True
  then have ok: "plan_ok ss" using validate_dag_cases [of ss] by (simp add: plan_ok_def)
  define m where "m = fold (\<lambda>s m. dict_set m (st_id s) s) ss []"
  have d: "distinct (map st_id ss)" using ok by (simp add: plan_ok_def)
  have m: "id_map_ok ss m"
    using dict_get_fold_set_distinct [OF d, of _ "\<lambda>s. s"] by (simp add: id_map_ok_def m_def)
  have "sort_post ss (\<lambda>_. False) ([], []) (set (map st_id ss))
      (visit_deps (length ss) m (map st_id ss) ([], []))"
    by (rule visit_correct(2) [OF ok m]) (auto simp: sort_inv_def dag_ids_def)
  then obtain v r where vr: "visit_deps (length ss) m (map st_id ss) ([], []) = Some (Inr (v, r))"
    and inv: "sort_inv ss (\<lambda>_. False) (v, r)" and all: "st_id ` set ss \<subseteq> st_id ` set r"
    by (auto simp: sort_post_def)
  have r: "set r \<subseteq> set ss" "distinct (map st_id r)" "topo_ok (\<lambda>s. set (st_depends_on s)) st_id r"
    using inv by (auto simp: sort_inv_def)
  have "set r = set ss"
  proof
    show "set ss \<subseteq> set r"
    proof
      fix s assume s: "s \<in> set ss"
      then have "st_id s \<in> st_id ` set r" using all by blast
      then obtain t where t: "t \<in> set r" "st_id t = st_id s" by (metis imageE)
      have "inj_on st_id (set ss)" using d by (simp add: distinct_map)
      then have "t = s" using inj_onD [of st_id "set ss" t s] s t r(1) by blast
      with t(1) show "s \<in> set r" by simp
    qed
  qed (rule r(1))
  then have "mset r = mset ss"
    using r(2) d set_eq_iff_mset_eq_distinct [of r ss] by (simp add: distinct_map)
  with True vr r(3) show ?thesis by (simp add: topological_sort_def m_def Let_def)
qed

end
