(* ===== verification/Merge.thy ===== *)
theory Merge
  imports Prelude
begin

text \<open>
  The fan-in merge strategies of \<^verbatim>\<open>agent/decomposition/merge.py\<close>.  Child results are dicts in
  insertion order; the registry of custom strategies holds callables of the application, so it is
  an argument.  The length of a text is its number of characters: texts here are ASCII.
\<close>

subsection \<open>Data\<close>

record merge_result =
  mr_output :: json
  mr_strategy :: string
  mr_selected :: "string option"
  mr_satisfaction_gap :: "string option"
  mr_child_summaries :: "json pydict"

definition new_merge_result :: "json \<Rightarrow> string \<Rightarrow> json pydict \<Rightarrow> merge_result" where
  "new_merge_result output strategy summaries =
     \<lparr>mr_output = output, mr_strategy = strategy, mr_selected = None, mr_satisfaction_gap = None,
      mr_child_summaries = summaries\<rparr>"

type_synonym child_results = "json pydict pydict"

type_synonym merge_fn = "child_results \<Rightarrow> string \<Rightarrow> merge_result result"

definition MergeError :: "string \<Rightarrow> pyexn" where
  "MergeError msg = PyExn ''src.agent.decomposition.merge'' ''MergeError'' msg"

abbreviation newline :: string where
  "newline \<equiv> [CHR 0x0A]"

definition join_with :: "string \<Rightarrow> string list \<Rightarrow> string" where
  "join_with sep xs = (case xs of [] \<Rightarrow> [] | x # ys \<Rightarrow> x @ concat (map (\<lambda>y. sep @ y) ys))"

subsection \<open>Helpers\<close>

text \<open>\<open>text.rsplit(" ", 1)[0]\<close>: up to the last blank, or all of a text without one.\<close>

definition rsplit_head :: "string \<Rightarrow> string" where
  "rsplit_head s =
     (if CHR '' '' \<in> set s then rev (tl (dropWhile (\<lambda>c. c \<noteq> CHR '' '') (rev s))) else s)"

definition summarize_text :: "nat \<Rightarrow> string \<Rightarrow> string" where
  "summarize_text max_chars text =
     (if length text \<le> max_chars then text else rsplit_head (take max_chars text) @ ''...'')"

text \<open>
  \<open>_summarize\<close> on any JSON value: a short container is returned as it is, a long one fails at the
  slice (a dict) or at \<open>rsplit\<close> (a list).
\<close>

definition summarize :: "json \<Rightarrow> json result" where
  "summarize v =
     (case json_len v of
        Inl e \<Rightarrow> Inl e
      | Inr n \<Rightarrow>
          (case v of
             JStr s \<Rightarrow> Inr (JStr (summarize_text 120 s))
           | JList xs \<Rightarrow>
               if n \<le> 120 then Inr v
               else Inl (PyExn ''builtins'' ''AttributeError''
                      (quoted ''list'' @ '' object has no attribute '' @ quoted ''rsplit''))
           | _ \<Rightarrow> if n \<le> 120 then Inr v
                  else Inl (TypeError (''unhashable type: '' @ quoted ''slice''))))"

fun summarize_all :: "(string \<times> json) list \<Rightarrow> json pydict result" where
  "summarize_all [] = Inr []"
| "summarize_all ((k, v) # kvs) =
     (case summarize v of
        Inl e \<Rightarrow> Inl e
      | Inr s \<Rightarrow> (case summarize_all kvs of Inl e \<Rightarrow> Inl e | Inr rest \<Rightarrow> Inr ((k, s) # rest)))"

definition output_or_result :: "'a env_scheme \<Rightarrow> json pydict \<Rightarrow> json" where
  "output_or_result e r =
     dict_get_or r ''output'' (dict_get_or r ''result'' (JStr (py_str e (JObj r))))"

definition output_or_text :: "'a env_scheme \<Rightarrow> json pydict \<Rightarrow> json" where
  "output_or_text e r = dict_get_or r ''output'' (JStr (py_str e (JObj r)))"

definition format_results :: "'a env_scheme \<Rightarrow> child_results \<Rightarrow> string" where
  "format_results e children =
     join_with (newline @ newline)
       (map (\<lambda>(subtask_id, r).
          ''Subtask: '' @ subtask_id @ newline @ ''Output:'' @ newline
          @ py_str e (output_or_result e r) @ newline
          @ concat (replicate 40 [CHR 0xE2, CHR 0x94, CHR 0x80])) children)"

subsection \<open>Strategies\<close>

definition merge_concat :: "'a env_scheme \<Rightarrow> child_results \<Rightarrow> merge_result result" where
  "merge_concat e children =
     (case summarize_all (map (\<lambda>(k, r). (k, output_or_result e r)) children) of
        Inl err \<Rightarrow> Inl err
      | Inr summaries \<Rightarrow>
          Inr (new_merge_result
             (JStr (join_with (newline @ newline)
                (map (\<lambda>(k, r). ''## '' @ k @ newline @ py_str e (output_or_result e r)) children)))
             ''concat'' summaries))"

definition merge_summarize_llm :: "'a env_scheme \<Rightarrow> child_results \<Rightarrow> merge_result result" where
  "merge_summarize_llm e children =
     (case summarize_all (map (\<lambda>(k, r). (k, output_or_text e r)) children) of
        Inl err \<Rightarrow> Inl err
      | Inr summaries \<Rightarrow>
          Inr ((new_merge_result (JStr (format_results e children)) ''summarize_llm'' summaries)
             \<lparr>mr_satisfaction_gap := Some (''LLM merge not executed '' @ em_dash
                @ '' requires AgentRuntime. Call execute_llm_merge() with the agent runtime.'')\<rparr>))"

text \<open>\<open>max(keys, key=len)\<close>: the first of the longest, every length computed.\<close>

fun best_child :: "child_results \<Rightarrow> (string \<times> nat) option \<Rightarrow> string option result" where
  "best_child [] best = Inr (map_option fst best)"
| "best_child ((k, r) # rest) best =
     (case json_len (dict_get_or r ''output'' (JStr [])) of
        Inl e \<Rightarrow> Inl e
      | Inr n \<Rightarrow>
          best_child rest
            (case best of
               None \<Rightarrow> Some (k, n)
             | Some (k', n') \<Rightarrow> if n' < n then Some (k, n) else Some (k', n')))"

definition merge_select_best :: "'a env_scheme \<Rightarrow> child_results \<Rightarrow> merge_result result" where
  "merge_select_best e children =
     (case best_child children None of
        Inl err \<Rightarrow> Inl err
      | Inr None \<Rightarrow> Inr (new_merge_result (JStr []) ''select_best'' [])
      | Inr (Some best_id) \<Rightarrow>
          (case summarize_all (map (\<lambda>(k, r). (k, output_or_text e r)) children) of
             Inl err \<Rightarrow> Inl err
           | Inr summaries \<Rightarrow>
               Inr ((new_merge_result (output_or_text e (dict_get_or children best_id []))
                       ''select_best'' summaries)\<lparr>mr_selected := Some best_id\<rparr>)))"

definition execute_merge ::
  "'a env_scheme \<Rightarrow> merge_fn pydict \<Rightarrow> string \<Rightarrow> child_results \<Rightarrow> string \<Rightarrow> merge_result result"
where
  "execute_merge e registry strategy children parent_task =
     (if strategy = ''concat'' then merge_concat e children
      else if strategy = ''summarize_llm'' then merge_summarize_llm e children
      else if strategy = ''select_best'' then merge_select_best e children
      else (case dict_get registry strategy of
              Some fn \<Rightarrow> fn children parent_task
            | None \<Rightarrow> Inl (MergeError (''Unknown merge strategy: '' @ quoted strategy))))"

subsection \<open>Lemmas\<close>

lemma rsplit_head_length: "length (rsplit_head s) \<le> length s"
proof -
  have "length (tl (dropWhile p (rev s))) \<le> length s" for p
    using length_dropWhile_le [of p "rev s"] by simp
  then show ?thesis by (simp add: rsplit_head_def)
qed

lemma summarize_text_length: "length (summarize_text n text) \<le> n + 3"
  using rsplit_head_length [of "take n text"] by (auto simp: summarize_text_def)

lemma summarize_all_keys: "summarize_all kvs = Inr ss \<Longrightarrow> map fst ss = map fst kvs"
  by (induction kvs arbitrary: ss rule: summarize_all.induct) (auto split: sum.splits)

lemma best_child_spec:
  "best_child children best = Inr r \<Longrightarrow>
     (\<forall>kr \<in> set children. \<exists>n. json_len (dict_get_or (snd kr) ''output'' (JStr [])) = Inr n) \<and>
     (case r of
        None \<Rightarrow> children = [] \<and> best = None
      | Some k \<Rightarrow> \<exists>n. (best = Some (k, n)
            \<or> (\<exists>c. (k, c) \<in> set children \<and> json_len (dict_get_or c ''output'' (JStr [])) = Inr n))
          \<and> (\<forall>k' n'. best = Some (k', n') \<longrightarrow> n' \<le> n)
          \<and> (\<forall>kr \<in> set children. \<forall>n'.
               json_len (dict_get_or (snd kr) ''output'' (JStr [])) = Inr n' \<longrightarrow> n' \<le> n))"
proof (induction children best rule: best_child.induct)
  case (1 best)
  then show ?case by (auto split: option.splits)
next
  case (2 k c rest best)
  then obtain n where n: "json_len (dict_get_or c ''output'' (JStr [])) = Inr n"
    by (auto split: sum.splits)
  define best' where "best' = (case best of
               None \<Rightarrow> Some (k, n)
             | Some (k', n') \<Rightarrow> if n' < n then Some (k, n) else Some (k', n'))"
  have r: "best_child rest best' = Inr r" using 2(2) n by (simp add: best'_def)
  from 2(1) [OF n, folded best'_def, OF r] obtain k0 n0 where
      rest: "\<forall>kr \<in> set rest. \<exists>n. json_len (dict_get_or (snd kr) ''output'' (JStr [])) = Inr n"
    and k0: "r = Some k0" "best' = Some (k0, n0)
            \<or> (\<exists>c. (k0, c) \<in> set rest \<and> json_len (dict_get_or c ''output'' (JStr [])) = Inr n0)"
      "\<forall>k' n'. best' = Some (k', n') \<longrightarrow> n' \<le> n0"
      "\<forall>kr \<in> set rest. \<forall>n'. json_len (dict_get_or (snd kr) ''output'' (JStr [])) = Inr n' \<longrightarrow> n' \<le> n0"
    by (auto simp: best'_def split: option.splits if_splits)
  have le: "n \<le> n0" "\<forall>k' n'. best = Some (k', n') \<longrightarrow> n' \<le> n0"
    using k0(3) by (auto simp: best'_def split: option.splits if_splits)
  have frm: "best = Some (k0, n0)
      \<or> (\<exists>c'. (k0, c') \<in> set ((k, c) # rest) \<and> json_len (dict_get_or c' ''output'' (JStr [])) = Inr n0)"
    using k0(2) n by (auto simp: best'_def split: option.splits if_splits)
  show ?case
    using rest k0(1,4) le frm n by (auto intro!: exI [of _ n0])
qed

text \<open>Merging keeps every child: a concatenation that succeeds starts with a section for each
  child in insertion order and summarises exactly the children, each text in at most 123
  characters; selection returns the output of a child whose output is longest.\<close>

lemma merge_keeps_children:
  "(case merge_concat e children of
      Inl err \<Rightarrow> True
    | Inr m \<Rightarrow> mr_output m = JStr (join_with (newline @ newline)
          (map (\<lambda>(k, r). ''## '' @ k @ newline @ py_str e (output_or_result e r)) children))
        \<and> dict_keys (mr_child_summaries m) = dict_keys children)
   \<and> length (summarize_text 120 text) \<le> 123
   \<and> (case merge_select_best e children of
        Inl err \<Rightarrow> True
      | Inr m \<Rightarrow>
          (case mr_selected m of
             None \<Rightarrow> children = []
           | Some k \<Rightarrow> mr_output m = output_or_text e (dict_get_or children k [])
               \<and> (\<exists>c n. (k, c) \<in> set children
                    \<and> json_len (dict_get_or c ''output'' (JStr [])) = Inr n
                    \<and> list_all (\<lambda>kr. case json_len (dict_get_or (snd kr) ''output'' (JStr [])) of
                          Inl _ \<Rightarrow> False | Inr n' \<Rightarrow> n' \<le> n) children)))"
proof (intro conjI)
  show "case merge_concat e children of
      Inl err \<Rightarrow> True
    | Inr m \<Rightarrow> mr_output m = JStr (join_with (newline @ newline)
          (map (\<lambda>(k, r). ''## '' @ k @ newline @ py_str e (output_or_result e r)) children))
        \<and> dict_keys (mr_child_summaries m) = dict_keys children"
    using summarize_all_keys [of "map (\<lambda>(k, r). (k, output_or_result e r)) children"]
    by (auto simp: merge_concat_def new_merge_result_def comp_def case_prod_beta split: sum.splits)
  show "length (summarize_text 120 text) \<le> 123"
    using summarize_text_length [of 120 "text"] by simp
  show "case merge_select_best e children of
        Inl err \<Rightarrow> True
      | Inr m \<Rightarrow>
          (case mr_selected m of
             None \<Rightarrow> children = []
           | Some k \<Rightarrow> mr_output m = output_or_text e (dict_get_or children k [])
               \<and> (\<exists>c n. (k, c) \<in> set children
                    \<and> json_len (dict_get_or c ''output'' (JStr [])) = Inr n
                    \<and> list_all (\<lambda>kr. case json_len (dict_get_or (snd kr) ''output'' (JStr [])) of
                          Inl _ \<Rightarrow> False | Inr n' \<Rightarrow> n' \<le> n) children))"
  proof (cases "best_child children None")
    case (Inl err)
    then show ?thesis by (simp add: merge_select_best_def)
  next
    case (Inr r)
    note spec = best_child_spec [OF Inr]
    show ?thesis
    proof (cases r)
      case None
      with spec Inr show ?thesis by (simp add: merge_select_best_def new_merge_result_def)
    next
      case (Some k)
      with spec obtain c n where best: "(k, c) \<in> set children"
          "json_len (dict_get_or c ''output'' (JStr [])) = Inr n"
        and len: "\<forall>kr \<in> set children. \<exists>n. json_len (dict_get_or (snd kr) ''output'' (JStr [])) = Inr n"
        and max: "\<forall>kr \<in> set children. \<forall>n'.
               json_len (dict_get_or (snd kr) ''output'' (JStr [])) = Inr n' \<longrightarrow> n' \<le> n"
        by auto
      have all: "list_all (\<lambda>kr. case json_len (dict_get_or (snd kr) ''output'' (JStr [])) of
                          Inl _ \<Rightarrow> False | Inr n' \<Rightarrow> n' \<le> n) children"
        unfolding list_all_iff
      proof
        fix kr
        assume kr: "kr \<in> set children"
        with len obtain n' where n': "json_len (dict_get_or (snd kr) ''output'' (JStr [])) = Inr n'"
          by blast
        with max kr have "n' \<le> n" by blast
        with n' show "case json_len (dict_get_or (snd kr) ''output'' (JStr [])) of
            Inl _ \<Rightarrow> False | Inr n' \<Rightarrow> n' \<le> n" by simp
      qed
      show ?thesis
      proof (cases "summarize_all (map (\<lambda>(k, r). (k, output_or_text e r)) children)")
        case (Inl err)
        with Some \<open>best_child children None = Inr r\<close> show ?thesis
          by (simp add: merge_select_best_def)
      next
        case (Inr ss)
        with Some \<open>best_child children None = Inr r\<close> have "merge_select_best e children =
            Inr ((new_merge_result (output_or_text e (dict_get_or children k []))
                    ''select_best'' ss)\<lparr>mr_selected := Some k\<rparr>)"
          by (simp add: merge_select_best_def)
        with best all show ?thesis by (auto simp: new_merge_result_def)
      qed
    qed
  qed
qed

end
