(* ===== verification/Dependency.thy ===== *)
theory Dependency
  imports ControlPlane
begin

text \<open>
  Dependency resolution between the jobs of a plan, \<^verbatim>\<open>runtime/scheduling/dependency.py\<close>: what
  the completion of a child does to its join handle, to the siblings it unblocks and to the
  siblings it cancels.  Loops over a store's listing run over the snapshot \<open>list()\<close> takes; each
  in-place update of a handle reads the clock once.
\<close>

subsection \<open>Operations\<close>

definition find_join_handle :: "string \<Rightarrow> join_store \<Rightarrow> string option" where
  "find_join_handle plan_id s =
     map_option jh_id
       (find (\<lambda>h. jh_plan_id h = plan_id)
         (List.map_filter (\<lambda>(hid, _). join_get s hid) (join_list s)))"

definition all_deps_satisfied :: "job \<Rightarrow> job_store \<Rightarrow> bool" where
  "all_deps_satisfied j s =
     list_all (\<lambda>dep_id. case job_get s dep_id of
         None \<Rightarrow> False
       | Some dep \<Rightarrow> j_state dep = SUCCEEDED) (j_depends_on j)"

text \<open>One turn of the loop that unblocks siblings; \<open>BLOCKED\<close> to \<open>PENDING\<close> is allowed.\<close>

definition unblock_sibling :: "string option \<Rightarrow> string \<Rightarrow> rt \<Rightarrow> rt" where
  "unblock_sibling plan_id jid w =
     (case job_get (rt_store w) jid of
        None \<Rightarrow> w
      | Some sibling \<Rightarrow>
          if j_plan_id sibling \<noteq> plan_id then w
          else if j_state sibling \<noteq> BLOCKED then w
          else if j_depends_on sibling = [] then w
          else if all_deps_satisfied sibling (rt_store w) then
            (case transition (j_state sibling) PENDING of
               Inl _ \<Rightarrow> w
             | Inr s \<Rightarrow>
                 let sibling = sibling\<lparr>j_state := s\<rparr>
                 in w\<lparr>rt_store := job_save (rt_store w) sibling,
                      rt_queue := queue_push (rt_queue w) sibling\<rparr>)
          else w)"

definition handle_child_success :: "string \<Rightarrow> rt \<Rightarrow> rt" where
  "handle_child_success child_id w =
     (case job_get (rt_store w) child_id of
        None \<Rightarrow> w
      | Some child \<Rightarrow>
          (case j_plan_id child of
             None \<Rightarrow> w
           | Some plan \<Rightarrow>
               (case find_join_handle plan (rt_joins w) of
                  None \<Rightarrow> w
                | Some hid \<Rightarrow>
                    let (now, w) = utc_now w;
                        w = w\<lparr>rt_joins := record_child_completed (rt_joins w) hid child_id now\<rparr>
                    in fold (unblock_sibling (j_plan_id child))
                         (map fst (job_list (rt_store w))) w)))"

text \<open>One turn of the loop that cancels siblings; both transitions to \<open>FAILED\<close> are allowed.\<close>

definition cancel_sibling :: "string \<Rightarrow> string \<Rightarrow> string \<Rightarrow> rt \<Rightarrow> rt" where
  "cancel_sibling hid child_id sibling_id w =
     (if sibling_id = child_id then w
      else (case job_get (rt_store w) sibling_id of
          None \<Rightarrow> w
        | Some sibling \<Rightarrow>
            if j_state sibling \<in> {BLOCKED, PENDING} then
              (case transition (j_state sibling) FAILED of
                 Inl _ \<Rightarrow> w
               | Inr s \<Rightarrow>
                   let w = w\<lparr>rt_store := job_save (rt_store w) (sibling\<lparr>j_state := s\<rparr>)\<rparr>;
                       (now, w) = utc_now w
                   in w\<lparr>rt_joins := record_child_failed (rt_joins w) hid sibling_id now\<rparr>)
            else w))"

definition handle_child_failure :: "string \<Rightarrow> rt \<Rightarrow> rt" where
  "handle_child_failure child_id w =
     (case job_get (rt_store w) child_id of
        None \<Rightarrow> w
      | Some child \<Rightarrow>
          (case j_plan_id child of
             None \<Rightarrow> w
           | Some plan \<Rightarrow>
               (case find_join_handle plan (rt_joins w) of
                  None \<Rightarrow> w
                | Some hid \<Rightarrow>
                    let (now, w) = utc_now w;
                        w = w\<lparr>rt_joins := record_child_failed (rt_joins w) hid child_id now\<rparr>
                    in (case join_get (rt_joins w) hid of
                          None \<Rightarrow> w
                        | Some h \<Rightarrow> fold (cancel_sibling hid child_id) (jh_child_job_ids h) w))))"

subsection \<open>Unblocking\<close>

text \<open>The siblings a success releases, judged on one store.\<close>

definition released :: "string option \<Rightarrow> job_store \<Rightarrow> job \<Rightarrow> bool" where
  "released plan s j \<longleftrightarrow>
     j_plan_id j = plan \<and> j_state j = BLOCKED \<and> j_depends_on j \<noteq> [] \<and> all_deps_satisfied j s"

definition unblocked :: "job \<Rightarrow> job" where
  "unblocked j = j\<lparr>j_state := PENDING\<rparr>"

text \<open>Releasing a blocked job never satisfies a dependency of another.\<close>

lemma all_deps_satisfied_cong:
  assumes "\<And>k. (\<exists>j. job_get s k = Some j \<and> j_state j = SUCCEEDED)
      \<longleftrightarrow> (\<exists>j. job_get s' k = Some j \<and> j_state j = SUCCEEDED)"
  shows "all_deps_satisfied j s = all_deps_satisfied j s'"
proof -
  have "(case job_get s k of None \<Rightarrow> False | Some dep \<Rightarrow> j_state dep = SUCCEEDED)
      = (case job_get s' k of None \<Rightarrow> False | Some dep \<Rightarrow> j_state dep = SUCCEEDED)" for k
    using assms [of k] by (auto split: option.splits)
  then show ?thesis by (simp add: all_deps_satisfied_def)
qed

lemma unblock_sibling_eq:
  assumes ok: "job_store_ok (rt_store w)"
  shows "unblock_sibling plan k w =
    (case job_get (rt_store w) k of
       Some j \<Rightarrow> if released plan (rt_store w) j
         then w\<lparr>rt_store := job_save (rt_store w) (unblocked j),
                rt_queue := queue_push (rt_queue w) (unblocked j)\<rparr>
         else w
     | None \<Rightarrow> w)"
  by (auto simp: unblock_sibling_def released_def unblocked_def can_transition_cases Let_def
      split: option.splits)

text \<open>
  The loop over distinct ids: every listed job that is released on the store at the start is
  unblocked and pushed, in the order of the list, and nothing else changes.
\<close>

lemma unblock_fold:
  assumes "job_store_ok (rt_store w)" "distinct ks"
  shows "let w' = fold (unblock_sibling plan) ks w;
             ready = filter (released plan (rt_store w)) (List.map_filter (job_get (rt_store w)) ks)
         in job_store_ok (rt_store w')
          \<and> (\<forall>k. job_get (rt_store w') k = (case job_get (rt_store w) k of
                 Some j \<Rightarrow> if k \<in> set ks \<and> released plan (rt_store w) j then Some (unblocked j) else Some j
               | None \<Rightarrow> None))
          \<and> q_items (rt_queue w') = q_items (rt_queue w) @ map unblocked ready
          \<and> rt_joins w' = rt_joins w"
  using assms
proof (induction ks arbitrary: w)
  case Nil
  then show ?case by (simp add: List.map_filter_def split: option.splits)
next
  case (Cons k ks)
  define w1 where "w1 = unblock_sibling plan k w"
  have w1: "job_store_ok (rt_store w1)"
      "\<And>i. job_get (rt_store w1) i = (case job_get (rt_store w) i of
         Some j \<Rightarrow> if i = k \<and> released plan (rt_store w) j then Some (unblocked j) else Some j
       | None \<Rightarrow> None)"
      "q_items (rt_queue w1) = q_items (rt_queue w) @ map unblocked
         (filter (released plan (rt_store w)) (List.map_filter (job_get (rt_store w)) [k]))"
      "rt_joins w1 = rt_joins w"
  proof -
    have key: "job_get (rt_store w) k = Some j \<Longrightarrow> j_id j = k" for j
      using Cons.prems(1) jst.keyed by blast
    note eq = unblock_sibling_eq [OF Cons.prems(1), of plan k]
    show "job_store_ok (rt_store w1)"
      using Cons.prems(1) by (auto simp: w1_def eq job_save_ok split: option.splits)
    show "q_items (rt_queue w1) = q_items (rt_queue w) @ map unblocked
         (filter (released plan (rt_store w)) (List.map_filter (job_get (rt_store w)) [k]))"
      by (auto simp: w1_def eq queue_push_def List.map_filter_def split: option.splits)
    show "rt_joins w1 = rt_joins w" by (auto simp: w1_def eq split: option.splits)
    show "job_get (rt_store w1) i = (case job_get (rt_store w) i of
         Some j \<Rightarrow> if i = k \<and> released plan (rt_store w) j then Some (unblocked j) else Some j
       | None \<Rightarrow> None)" for i
      using key by (auto simp: w1_def eq jst.get_save unblocked_def split: option.splits)
  qed
  have same: "released plan (rt_store w1) = released plan (rt_store w)"
  proof (rule ext)
    fix j
    have "all_deps_satisfied j (rt_store w1) = all_deps_satisfied j (rt_store w)"
      by (rule all_deps_satisfied_cong)
        (auto simp: w1(2) unblocked_def released_def split: option.splits if_splits)
    then show "released plan (rt_store w1) j = released plan (rt_store w) j"
      by (simp add: released_def)
  qed
  have rest: "List.map_filter (job_get (rt_store w1)) ks = List.map_filter (job_get (rt_store w)) ks"
    using Cons.prems(2) by (auto simp: List.map_filter_def w1(2) split: option.splits
        intro!: map_cong filter_cong)
  have IH: "let w' = fold (unblock_sibling plan) ks w1;
             ready = filter (released plan (rt_store w1)) (List.map_filter (job_get (rt_store w1)) ks)
         in job_store_ok (rt_store w')
          \<and> (\<forall>k. job_get (rt_store w') k = (case job_get (rt_store w1) k of
                 Some j \<Rightarrow> if k \<in> set ks \<and> released plan (rt_store w1) j then Some (unblocked j) else Some j
               | None \<Rightarrow> None))
          \<and> q_items (rt_queue w') = q_items (rt_queue w1) @ map unblocked ready
          \<and> rt_joins w' = rt_joins w1"
    using Cons.prems(2) by (intro Cons.IH w1(1)) simp
  define w' where "w' = fold (unblock_sibling plan) ks w1"
  have fold: "fold (unblock_sibling plan) (k # ks) w = w'" by (simp add: w'_def w1_def)
  have IH':
      "job_store_ok (rt_store w')"
      "\<And>i. job_get (rt_store w') i = (case job_get (rt_store w1) i of
         Some j \<Rightarrow> if i \<in> set ks \<and> released plan (rt_store w) j then Some (unblocked j) else Some j
       | None \<Rightarrow> None)"
      "q_items (rt_queue w') = q_items (rt_queue w1) @ map unblocked
         (filter (released plan (rt_store w)) (List.map_filter (job_get (rt_store w)) ks))"
      "rt_joins w' = rt_joins w1"
    using IH unfolding Let_def same rest w'_def [symmetric] by blast+
  have store: "job_get (rt_store w') i = (case job_get (rt_store w) i of
         Some j \<Rightarrow> if i \<in> set (k # ks) \<and> released plan (rt_store w) j then Some (unblocked j) else Some j
       | None \<Rightarrow> None)" for i
    using Cons.prems(2) by (auto simp: IH'(2) w1(2) split: option.splits)
  have items: "q_items (rt_queue w') = q_items (rt_queue w) @ map unblocked
         (filter (released plan (rt_store w)) (List.map_filter (job_get (rt_store w)) (k # ks)))"
    by (cases "job_get (rt_store w) k") (simp_all add: IH'(3) w1(3) List.map_filter_simps)
  have "rt_joins w' = rt_joins w" using IH'(4) w1(4) by simp
  then show ?case
    unfolding Let_def fold by (intro conjI allI IH'(1) store items)
qed

lemma map_filter_store:
  assumes "job_store_ok s"
  shows "List.map_filter (job_get s) (map fst (job_list s)) = map snd s"
  using map_filter_dict [of s] assms
  by (simp only: job_list_ids [OF assms]) (simp add: job_store_ok_def job_get_def [abs_def])

text \<open>What one report does to a store of handles.\<close>

definition apply_report :: "string \<Rightarrow> report \<Rightarrow> join_store \<Rightarrow> join_store" where
  "apply_report hid r s =
     (case r of (now, cid, ok) \<Rightarrow>
        if ok then record_child_completed s hid cid now else record_child_failed s hid cid now)"

lemma apply_report_get:
  assumes "join_store_ok s"
  shows "join_get (apply_report hid r s) k =
      (if k = hid then map_option (run_report r) (join_get s hid) else join_get s k)
    \<and> join_store_ok (apply_report hid r s)"
proof -
  obtain now cid ok where r: "r = (now, cid, ok)" by (cases r)
  have e: "apply_report hid r s =
      (case join_get s hid of None \<Rightarrow> s | Some h \<Rightarrow> join_save s (run_report r h))"
    unfolding apply_report_def r prod.case by (rule record_child_eq_run_report [OF assms])
  show ?thesis
  proof (cases "join_get s hid")
    case None
    then show ?thesis using assms e by auto
  next
    case (Some h)
    then have "jh_id (run_report r h) = hid" using hst.keyed [OF assms Some] by simp
    with Some e show ?thesis by (simp add: hst.get_save join_save_ok [OF assms])
  qed
qed

lemma child_success_effect:
  assumes "job_store_ok (rt_store w)" "join_store_ok (rt_joins w)"
    and "job_get (rt_store w) cid = Some child" "j_plan_id child = Some plan"
    and "find_join_handle plan (rt_joins w) = Some hid"
    and "w' = handle_child_success cid w"
  shows "(\<forall>k. job_get (rt_store w') k =
        map_option (\<lambda>j. if released (Some plan) (rt_store w) j then unblocked j else j)
          (job_get (rt_store w) k))
    \<and> q_items (rt_queue w') = q_items (rt_queue w)
        @ map unblocked (filter (released (Some plan) (rt_store w)) (map snd (rt_store w)))
    \<and> (\<exists>now. \<forall>k. join_get (rt_joins w') k =
          (if k = hid then map_option (run_report (now, cid, True)) (join_get (rt_joins w) hid)
           else join_get (rt_joins w) k))"
proof -
  obtain now w0 where t: "utc_now w = (now, w0)" by (metis surj_pair)
  then have w0: "rt_store w0 = rt_store w" "rt_joins w0 = rt_joins w" "rt_queue w0 = rt_queue w"
    by (auto simp: utc_now_def)
  define w1 where "w1 = w0\<lparr>rt_joins := apply_report hid (now, cid, True) (rt_joins w)\<rparr>"
  have e: "w' = fold (unblock_sibling (Some plan)) (map fst (job_list (rt_store w))) w1"
    using assms(3-6) t w0 by (simp add: handle_child_success_def w1_def apply_report_def Let_def)
  have s1: "rt_store w1 = rt_store w" "rt_queue w1 = rt_queue w" by (simp_all add: w1_def w0)
  have d: "distinct (map fst (job_list (rt_store w)))"
    using assms(1) by (rule jst.listing_distinct)
  have "job_store_ok (rt_store w1)" using assms(1) s1 by simp
  note u = unblock_fold [OF this d, where plan = "Some plan", unfolded Let_def e [symmetric] s1]
  have mem: "k \<in> set (map fst (job_list (rt_store w)))" if "job_get (rt_store w) k = Some j" for k j
    using jst.listing_set [OF assms(1)] that by auto
  have "job_get (rt_store w') k =
        map_option (\<lambda>j. if released (Some plan) (rt_store w) j then unblocked j else j)
          (job_get (rt_store w) k)" for k
    using u mem [of k] by (cases "job_get (rt_store w) k") auto
  moreover have "rt_joins w' = rt_joins w1" using u by blast
  then have "join_get (rt_joins w') k =
          (if k = hid then map_option (run_report (now, cid, True)) (join_get (rt_joins w) hid)
           else join_get (rt_joins w) k)" for k
    using apply_report_get [OF assms(2)] by (simp add: w1_def)
  ultimately show ?thesis
    using u map_filter_store [OF assms(1)] by auto
qed

lemma child_success_ok:
  assumes "job_store_ok (rt_store w)" "join_store_ok (rt_joins w)"
  shows "job_store_ok (rt_store (handle_child_success cid w))
    \<and> join_store_ok (rt_joins (handle_child_success cid w))"
proof -
  let ?P = "\<lambda>w. job_store_ok (rt_store w) \<and> join_store_ok (rt_joins w)"
  have "join_store_ok (record_child_completed (rt_joins w) hid cid now)" for hid now
    using apply_report_get [OF assms(2), of hid "(now, cid, True)"] by (simp add: apply_report_def)
  then have w: "?P (w\<lparr>e_tick := n, rt_joins := record_child_completed (rt_joins w) hid cid now\<rparr>)"
    for n hid now
    using assms(1) by simp
  have "?P (unblock_sibling plan k w)" if "?P w" for plan k and w :: rt
  proof -
    have "job_store_ok (rt_store w)" using that by simp
    from unblock_sibling_eq [OF this] that show ?thesis
      by (simp add: job_save_ok split: option.split)
  qed
  note keeps = fold_keeps [where P = ?P and f = "unblock_sibling plan" for plan, OF this w]
  show ?thesis
    unfolding handle_child_success_def utc_now_def Let_def prod.case
    by (simp add: assms keeps split: option.split)
qed

lemma map_filter_joins:
  assumes "join_store_ok s"
  shows "List.map_filter (join_get s) (map fst (join_list s)) = map snd s"
  using map_filter_dict [of s] assms
  by (simp only: join_list_ids [OF assms]) (simp add: join_store_ok_def join_get_def [abs_def])

lemma find_join_handle_unique:
  assumes "join_store_ok s" "join_get s hid = Some h" "jh_plan_id h = plan"
    and "\<And>k g. join_get s k = Some g \<Longrightarrow> jh_plan_id g = plan \<Longrightarrow> k = hid"
  shows "find_join_handle plan s = Some hid"
proof -
  have e: "List.map_filter (\<lambda>(hid, _). join_get s hid) (join_list s) = map snd s"
    using map_filter_joins [OF assms(1)]
    by (simp add: List.map_filter_def comp_def split_def filter_map)
  have "h \<in> set (map snd s)"
    using dict_get_SomeD [of s hid h] assms(2) by (force simp: join_get_def)
  then obtain g where g: "find (\<lambda>h. jh_plan_id h = plan) (map snd s) = Some g"
    using assms(3) by (cases "find (\<lambda>h. jh_plan_id h = plan) (map snd s)") (auto simp: find_None_iff)
  then have "g \<in> set (map snd s)" "jh_plan_id g = plan" by (auto simp: find_Some_iff)
  moreover from this(1) obtain k where "(k, g) \<in> set s" by auto
  then have "join_get s k = Some g"
    using assms(1) by (simp add: join_get_def dict_get_def join_store_ok_def)
  ultimately have "k = hid" "jh_id g = k" using assms(4) hst.keyed [OF assms(1)] by auto
  then show ?thesis by (simp add: find_join_handle_def e g)
qed

text \<open>C14: A child's success releases exactly the siblings it completes: the join handle of the
  child's plan gets one completion report; every blocked job of the plan whose dependencies have
  all succeeded, and no other, becomes pending and is pushed, once, in store order; nothing else in
  the stores changes.\<close>

theorem child_success_releases:
  assumes "job_store_ok (rt_store w)" "join_store_ok (rt_joins w)"
    and "job_get (rt_store w) cid = Some child" "j_plan_id child = Some plan"
    and "find_join_handle plan (rt_joins w) = Some hid"
    and "w' = handle_child_success cid w"
  shows "(\<forall>k. job_get (rt_store w') k =
        map_option (\<lambda>j. if released (Some plan) (rt_store w) j then unblocked j else j)
          (job_get (rt_store w) k))
    \<and> q_items (rt_queue w') = q_items (rt_queue w)
        @ map unblocked (filter (released (Some plan) (rt_store w)) (map snd (rt_store w)))
    \<and> (\<exists>now. \<forall>k. join_get (rt_joins w') k =
          (if k = hid then map_option (run_report (now, cid, True)) (join_get (rt_joins w) hid)
           else join_get (rt_joins w) k))"
  using assms by (rule child_success_effect)

subsection \<open>Cancelling\<close>

definition cancellable :: "string \<Rightarrow> job_store \<Rightarrow> string \<Rightarrow> bool" where
  "cancellable cid s k \<longleftrightarrow>
     k \<noteq> cid \<and> (case job_get s k of None \<Rightarrow> False | Some j \<Rightarrow> j_state j \<in> {BLOCKED, PENDING})"

lemma cancel_sibling_eq:
  "cancel_sibling hid cid k w =
     (if cancellable cid (rt_store w) k then
        w\<lparr>rt_store := job_save (rt_store w) ((the (job_get (rt_store w) k))\<lparr>j_state := FAILED\<rparr>),
          e_tick := Suc (e_tick w),
          rt_joins := apply_report hid (e_clock w (e_tick w), k, False) (rt_joins w)\<rparr>
      else w)"
  by (auto simp: cancel_sibling_def cancellable_def can_transition_cases utc_now_def Let_def
      apply_report_def split: option.splits)

lemma cancel_fold:
  assumes "job_store_ok (rt_store w)" "join_store_ok (rt_joins w)" "distinct ks"
    and "join_get (rt_joins w) hid = Some h"
  shows "\<exists>rs. job_store_ok (rt_store (fold (cancel_sibling hid cid) ks w))
    \<and> (\<forall>k. job_get (rt_store (fold (cancel_sibling hid cid) ks w)) k =
          map_option (\<lambda>j. if k \<in> set ks \<and> cancellable cid (rt_store w) k
              then j\<lparr>j_state := FAILED\<rparr> else j) (job_get (rt_store w) k))
    \<and> (\<forall>k. join_get (rt_joins (fold (cancel_sibling hid cid) ks w)) k =
          (if k = hid then Some (run_reports rs h) else join_get (rt_joins w) k))
    \<and> report_ids rs = filter (cancellable cid (rt_store w)) ks \<and> reported True rs = []
    \<and> rt_queue (fold (cancel_sibling hid cid) ks w) = rt_queue w"
  using assms
proof (induction ks arbitrary: w h)
  case Nil
  then show ?case by (intro exI [of _ "[]"]) (simp add: option.map_ident)
next
  case (Cons k ks)
  show ?case
  proof (cases "cancellable cid (rt_store w) k")
    case False
    then have "cancel_sibling hid cid k w = w" by (simp add: cancel_sibling_eq)
    moreover obtain rs where "job_store_ok (rt_store (fold (cancel_sibling hid cid) ks w))
    \<and> (\<forall>k. job_get (rt_store (fold (cancel_sibling hid cid) ks w)) k =
          map_option (\<lambda>j. if k \<in> set ks \<and> cancellable cid (rt_store w) k
              then j\<lparr>j_state := FAILED\<rparr> else j) (job_get (rt_store w) k))
    \<and> (\<forall>k. join_get (rt_joins (fold (cancel_sibling hid cid) ks w)) k =
          (if k = hid then Some (run_reports rs h) else join_get (rt_joins w) k))
    \<and> report_ids rs = filter (cancellable cid (rt_store w)) ks \<and> reported True rs = []
    \<and> rt_queue (fold (cancel_sibling hid cid) ks w) = rt_queue w"
      using Cons.IH [OF Cons.prems(1,2) _ Cons.prems(4)] Cons.prems(3) by auto
    moreover have "(i \<in> set (k # ks) \<and> cancellable cid (rt_store w) i)
        = (i \<in> set ks \<and> cancellable cid (rt_store w) i)" for i
      using False by auto
    ultimately show ?thesis using False by (intro exI [of _ rs]) simp
  next
    case True
    then obtain j where j: "job_get (rt_store w) k = Some j" and st: "j_state j \<in> {BLOCKED, PENDING}"
      by (auto simp: cancellable_def split: option.splits)
    have jid: "j_id j = k" using jst.keyed [OF Cons.prems(1) j] .
    let ?r = "(e_clock w (e_tick w), k, False)"
    define w1 where "w1 = cancel_sibling hid cid k w"
    have w1: "rt_store w1 = job_save (rt_store w) (j\<lparr>j_state := FAILED\<rparr>)" "rt_queue w1 = rt_queue w"
        "rt_joins w1 = apply_report hid ?r (rt_joins w)"
      using True j by (simp_all add: w1_def cancel_sibling_eq)
    have g1: "job_get (rt_store w1) i = (if i = k then Some (j\<lparr>j_state := FAILED\<rparr>)
        else job_get (rt_store w) i)" for i
      by (simp add: w1(1) jst.get_save jid)
    have c1: "cancellable cid (rt_store w1) i = cancellable cid (rt_store w) i" if "i \<noteq> k" for i
      using that by (simp add: cancellable_def g1)
    have ok1: "job_store_ok (rt_store w1)" "join_store_ok (rt_joins w1)"
      using Cons.prems(1,2) apply_report_get by (simp_all add: w1 job_save_ok)
    have h1: "join_get (rt_joins w1) hid = Some (run_report ?r h)"
      using apply_report_get [OF Cons.prems(2)] Cons.prems(4) by (simp add: w1(3))
    obtain rs where rs: "job_store_ok (rt_store (fold (cancel_sibling hid cid) ks w1))"
      "\<And>i. job_get (rt_store (fold (cancel_sibling hid cid) ks w1)) i =
          map_option (\<lambda>j. if i \<in> set ks \<and> cancellable cid (rt_store w1) i
              then j\<lparr>j_state := FAILED\<rparr> else j) (job_get (rt_store w1) i)"
      "\<And>i. join_get (rt_joins (fold (cancel_sibling hid cid) ks w1)) i =
          (if i = hid then Some (run_reports rs (run_report ?r h)) else join_get (rt_joins w1) i)"
      "report_ids rs = filter (cancellable cid (rt_store w1)) ks" "reported True rs = []"
      "rt_queue (fold (cancel_sibling hid cid) ks w1) = rt_queue w1"
      using Cons.IH [OF ok1 _ h1] Cons.prems(3) by auto
    have f: "fold (cancel_sibling hid cid) (k # ks) w = fold (cancel_sibling hid cid) ks w1"
      by (simp add: w1_def)
    have ids: "report_ids (?r # rs) = filter (cancellable cid (rt_store w)) (k # ks)"
    proof -
      have "filter (cancellable cid (rt_store w1)) ks = filter (cancellable cid (rt_store w)) ks"
        by (rule filter_cong [OF refl], rule c1) (use Cons.prems(3) in auto)
      with rs(4) True show ?thesis by (simp add: report_ids_def)
    qed
    show ?thesis
    proof (intro exI [of _ "?r # rs"] conjI allI)
      fix i
      show "job_get (rt_store (fold (cancel_sibling hid cid) (k # ks) w)) i =
          map_option (\<lambda>j. if i \<in> set (k # ks) \<and> cancellable cid (rt_store w) i
              then j\<lparr>j_state := FAILED\<rparr> else j) (job_get (rt_store w) i)"
        using Cons.prems(3) True j c1 [of i] unfolding f rs(2) g1 by auto
      show "join_get (rt_joins (fold (cancel_sibling hid cid) (k # ks) w)) i =
          (if i = hid then Some (run_reports (?r # rs) h) else join_get (rt_joins w) i)"
        using apply_report_get [OF Cons.prems(2), of hid ?r i] unfolding f rs(3) w1(3) by simp
    qed (use rs(1,5,6) w1(2) ids in \<open>simp_all add: reported_def flip: w1_def\<close>)
  qed
qed

text \<open>C15: A child's failure cancels the rest of the plan: the failed child and then every sibling
  that is still blocked or pending are reported failed to the join handle, in that order, those
  siblings become failed in the store, and nothing else changes, no job is pushed.  When the handle
  is fresh and no tracked sibling has started, the handle is therefore \<open>FAILED\<close> at once.\<close>

theorem child_failure_cancels:
  assumes "job_store_ok (rt_store w)" "join_store_ok (rt_joins w)"
    and "job_get (rt_store w) cid = Some child" "j_plan_id child = Some plan"
    and "find_join_handle plan (rt_joins w) = Some hid"
    and "join_get (rt_joins w) hid = Some h" "distinct (jh_child_job_ids h)"
    and "w' = handle_child_failure cid w"
  shows "\<exists>rs. (\<forall>k. job_get (rt_store w') k =
        map_option (\<lambda>j. if k \<in> set (jh_child_job_ids h) \<and> cancellable cid (rt_store w) k
            then j\<lparr>j_state := FAILED\<rparr> else j) (job_get (rt_store w) k))
    \<and> (\<forall>k. join_get (rt_joins w') k =
          (if k = hid then Some (run_reports rs h) else join_get (rt_joins w) k))
    \<and> report_ids rs = cid # filter (cancellable cid (rt_store w)) (jh_child_job_ids h)
    \<and> reported True rs = [] \<and> rt_queue w' = rt_queue w
    \<and> (jh_completed_ids h = [] \<and> jh_failed_ids h = [] \<and> jh_state h = JWaiting
        \<and> cid \<in> set (jh_child_job_ids h)
        \<and> list_all (\<lambda>k. k = cid \<or> cancellable cid (rt_store w) k) (jh_child_job_ids h)
        \<longrightarrow> jh_state (run_reports rs h) = JFailed)"
proof -
  obtain now w0 where t: "utc_now w = (now, w0)" by (metis surj_pair)
  then have w0: "rt_store w0 = rt_store w" "rt_joins w0 = rt_joins w" "rt_queue w0 = rt_queue w"
    by (auto simp: utc_now_def)
  let ?r = "(now, cid, False)"
  define w1 where "w1 = w0\<lparr>rt_joins := apply_report hid ?r (rt_joins w)\<rparr>"
  have h1: "join_get (rt_joins w1) hid = Some (run_report ?r h)" and ok1: "join_store_ok (rt_joins w1)"
    using apply_report_get [OF assms(2)] assms(6) by (simp_all add: w1_def)
  have e: "w' = fold (cancel_sibling hid cid) (jh_child_job_ids h) w1"
    using assms(3-5,8) t w0 h1 run_report_frame(1) [of ?r h]
    by (simp add: handle_child_failure_def w1_def apply_report_def Let_def)
  have s1: "rt_store w1 = rt_store w" "rt_queue w1 = rt_queue w" by (simp_all add: w1_def w0)
  have "job_store_ok (rt_store w1)" using assms(1) s1 by simp
  from cancel_fold [OF this ok1 assms(7) h1, of cid, unfolded e [symmetric] s1]
  obtain rs where rs: "\<And>k. job_get (rt_store w') k =
          map_option (\<lambda>j. if k \<in> set (jh_child_job_ids h) \<and> cancellable cid (rt_store w) k
              then j\<lparr>j_state := FAILED\<rparr> else j) (job_get (rt_store w) k)"
      "\<And>k. join_get (rt_joins w') k =
          (if k = hid then Some (run_reports rs (run_report ?r h)) else join_get (rt_joins w1) k)"
      "report_ids rs = filter (cancellable cid (rt_store w)) (jh_child_job_ids h)"
      "reported True rs = []" "rt_queue w' = rt_queue w" by blast
  have ids: "report_ids (?r # rs) = cid # filter (cancellable cid (rt_store w)) (jh_child_job_ids h)"
    using rs(3) by (simp add: report_ids_def)
  have failed: "jh_state (run_reports (?r # rs) h) = JFailed"
    if fresh: "jh_completed_ids h = []" "jh_failed_ids h = []" "jh_state h = JWaiting"
      and c: "cid \<in> set (jh_child_job_ids h)"
        "list_all (\<lambda>k. k = cid \<or> cancellable cid (rt_store w) k) (jh_child_job_ids h)"
  proof -
    have "distinct (report_ids (?r # rs))" "set (report_ids (?r # rs)) \<subseteq> set (jh_child_job_ids h)"
        "set (jh_child_job_ids h) \<subseteq> set (report_ids (?r # rs))"
      unfolding ids using assms(7) c by (auto simp: cancellable_def list_all_iff)
    moreover have "reported False (?r # rs) \<noteq> []" by (simp add: reported_def)
    ultimately show ?thesis
      using run_reports_lists [OF fresh assms(7), of "?r # rs"] by (auto simp: join_spec_def)
  qed
  show ?thesis
  proof (intro exI [of _ "?r # rs"] conjI allI impI)
    show "join_get (rt_joins w') k =
          (if k = hid then Some (run_reports (?r # rs) h) else join_get (rt_joins w) k)" for k
      using apply_report_get [OF assms(2), of hid ?r k] unfolding rs(2) w1_def by simp
  qed (use rs(1,4,5) ids failed in \<open>simp_all add: reported_def\<close>)
qed

subsection \<open>Examples\<close>

text \<open>A plan of two children, where \<open>b\<close> waits for \<open>a\<close>.\<close>

definition plan_job :: "string \<Rightarrow> job_state \<Rightarrow> string list \<Rightarrow> job" where
  "plan_job i st deps = (sample_job i)\<lparr>j_state := st, j_plan_id := Some ''p'', j_depends_on := deps\<rparr>"

definition sample_plan :: "job_state \<Rightarrow> rt" where
  "sample_plan st = sample_rt
     \<lparr>rt_store := [(''a'', plan_job ''a'' st []), (''b'', plan_job ''b'' BLOCKED [''a''])],
      rt_joins := [(''h'', new_join_handle ''h'' ''parent'' ''p'' [''a'', ''b''] ''concat'' None 0)]\<rparr>"

lemma plan_job_simps [simp]:
  "j_id (plan_job i st deps) = i" "j_state (plan_job i st deps) = st"
  "j_plan_id (plan_job i st deps) = Some ''p''" "j_depends_on (plan_job i st deps) = deps"
  by (simp_all add: plan_job_def)

lemma sample_plan_simps [simp]:
  "job_store_ok (rt_store (sample_plan st))" "join_store_ok (rt_joins (sample_plan st))"
  "job_get (rt_store (sample_plan st)) ''a'' = Some (plan_job ''a'' st [])"
  "job_get (rt_store (sample_plan st)) ''b'' = Some (plan_job ''b'' BLOCKED [''a''])"
  "find_join_handle ''p'' (rt_joins (sample_plan st)) = Some ''h''"
  "join_get (rt_joins (sample_plan st)) ''h'' =
     Some (new_join_handle ''h'' ''parent'' ''p'' [''a'', ''b''] ''concat'' None 0)"
  by (simp_all add: sample_plan_def job_store_ok_def join_store_ok_def new_join_handle_def job_get_def
      join_get_def dict_get_def find_join_handle_def join_list_def List.map_filter_simps)

theorem child_success_releases_witness:
  "job_get (rt_store (handle_child_success ''a'' (sample_plan SUCCEEDED))) ''b''
     = Some (plan_job ''b'' PENDING [''a''])"
  using child_success_releases
    [of "sample_plan SUCCEEDED" "''a''" "plan_job ''a'' SUCCEEDED []" "''p''" "''h''", OF _ _ _ _ _ refl]
  by (simp add: released_def all_deps_satisfied_def unblocked_def plan_job_def)

theorem child_failure_cancels_witness:
  "map_option j_state (job_get (rt_store (handle_child_failure ''a'' (sample_plan FAILED))) ''b'')
     = Some FAILED"
proof -
  have "distinct (jh_child_job_ids (new_join_handle ''h'' ''parent'' ''p'' [''a'', ''b''] ''concat'' None 0))"
    by (simp add: new_join_handle_def)
  from child_failure_cancels [of "sample_plan FAILED" "''a''" "plan_job ''a'' FAILED []" "''p''" "''h''",
      OF _ _ _ _ _ _ this refl]
  have "job_get (rt_store (handle_child_failure ''a'' (sample_plan FAILED))) ''b''
      = map_option (\<lambda>j. if cancellable ''a'' (rt_store (sample_plan FAILED)) ''b''
            then j\<lparr>j_state := FAILED\<rparr> else j) (job_get (rt_store (sample_plan FAILED)) ''b'')"
    by (auto simp: new_join_handle_def)
  then show ?thesis by (simp add: cancellable_def)
qed

end
