(* ===== verification/Decomposition.thy ===== *)
theory Decomposition
  imports Dag Merge Dependency
begin

text \<open>
  Decomposition of a job into subtasks: fan-out, fan-in and cancellation
  (\<^verbatim>\<open>agent/decomposition/orchestrator.py\<close>), the callback that turns a job dict into a registered
  job and the hook that runs after every job (\<^verbatim>\<open>agent/composition_root.py\<close>), and the two
  executors of decomposition jobs (\<^verbatim>\<open>subtask_worker.py\<close>, \<^verbatim>\<open>continuation_worker.py\<close>).
  \<^item> The job dict is a record whose fields are options: \<open>None\<close> is a missing key, or a key whose
    value is \<open>None\<close> where the reader's default is \<open>None\<close> too;
  \<^item> agents and tools are callables of the application, arguments of the definitions;
  \<^item> fan-out is the one of an orchestrator that was given a callback to enqueue with, as the
    composition root builds it; the synthetic ids it makes for tests when it has none are left out;
  \<^item> the polling loop of \<open>parallelize\<close> waits for other threads and is not modelled.
\<close>

subsection \<open>Data\<close>

record job_dict =
  jd_job_id :: "string option"
  jd_job_type :: "string option"
  jd_parent_job_id :: "string option"
  jd_plan_id :: "string option"
  jd_subtask_id :: "string option"
  jd_subtask_description :: "string option"
  jd_target_agent_id :: "string option"
  jd_target_skill_id :: "string option"
  jd_arguments :: "json pydict option"
  jd_join_handle_id :: "string option"
  jd_merge_strategy :: "string option"
  jd_merge_agent_id :: "string option"
  jd_merge_prompt_template :: "string option"
  jd_depends_on :: "string list option"
  jd_priority :: "int option"
  jd_max_retries :: "int option"
  jd_timeout_seconds :: "int option"

definition get_or :: "'a option \<Rightarrow> 'a \<Rightarrow> 'a" where
  "get_or x d = (case x of None \<Rightarrow> d | Some v \<Rightarrow> v)"

definition json_opt :: "string option \<Rightarrow> json" where
  "json_opt x = (case x of None \<Rightarrow> JNull | Some s \<Rightarrow> JStr s)"

datatype decomp_error =
    DagInvalid dag_error
  | DecompExn pyexn

subsection \<open>Enqueueing\<close>

definition decomp_payload :: "job_dict \<Rightarrow> channel_message" where
  "decomp_payload d =
     \<lparr>cm_input = JObj
        [(''subtask_description'', JStr (get_or (jd_subtask_description d) [])),
         (''target_agent_id'', json_opt (jd_target_agent_id d)),
         (''target_skill_id'', json_opt (jd_target_skill_id d)),
         (''arguments'', JObj (get_or (jd_arguments d) []))],
      cm_metadata = JObj
        [(''source'', JStr ''decomposition''),
         (''job_type'', JStr (get_or (jd_job_type d) ''default'')),
         (''plan_id'', json_opt (jd_plan_id d)),
         (''join_handle_id'', json_opt (jd_join_handle_id d)),
         (''merge_strategy'', json_opt (jd_merge_strategy d)),
         (''merge_agent_id'', json_opt (jd_merge_agent_id d)),
         (''merge_prompt_template'', json_opt (jd_merge_prompt_template d)),
         (''subtask_description'', JStr (get_or (jd_subtask_description d) []))],
      cm_channel = ''planner''\<rparr>"

text \<open>
  The default of \<open>job_dict.get("job_id", str(uuid4()))\<close> is evaluated whether or not it is used.
\<close>

definition decomp_job :: "job_dict \<Rightarrow> rt \<Rightarrow> job \<times> rt" where
  "decomp_job d w =
     (let (fresh, w) = new_uuid w;
          (now, w) = utc_now w
      in ((new_job (get_or (jd_job_id d) fresh) now (decomp_payload d))
            \<lparr>j_job_type := get_or (jd_job_type d) ''default'',
             j_parent_job_id := jd_parent_job_id d,
             j_priority := get_or (jd_priority d) 0,
             j_max_retries := get_or (jd_max_retries d) 0,
             j_timeout_seconds := get_or (jd_timeout_seconds d) 300,
             j_plan_id := jd_plan_id d,
             j_subtask_id := jd_subtask_id d,
             j_depends_on := get_or (jd_depends_on d) []\<rparr>, w))"

definition decomp_enqueue :: "job_dict \<Rightarrow> rt \<Rightarrow> (string \<times> rt) result" where
  "decomp_enqueue d w =
     (let (j, w) = decomp_job d w
      in case register_job j w of
           Inl e \<Rightarrow> Inl e
         | Inr (j, w) \<Rightarrow>
             if j_depends_on j \<noteq> [] then
               (case transition (j_state j) BLOCKED of
                  Inl e \<Rightarrow> Inl e
                | Inr s \<Rightarrow>
                    let (j, w) = save_checkpoint (j\<lparr>j_state := s\<rparr>) w
                    in Inr (j_id j, w))
             else Inr (j_id j, w\<lparr>rt_queue := queue_push (rt_queue w) j\<rparr>))"

subsection \<open>Fan-out\<close>

definition subtask_dict :: "decomposition_plan \<Rightarrow> string \<Rightarrow> string \<Rightarrow> subtask_spec \<Rightarrow> job_dict" where
  "subtask_dict plan parent jid s =
     \<lparr>jd_job_id = Some jid, jd_job_type = Some ''subtask'', jd_parent_job_id = Some parent,
      jd_plan_id = Some (dp_plan_id plan), jd_subtask_id = Some (st_id s),
      jd_subtask_description = Some (st_description s),
      jd_target_agent_id = st_target_agent_id s, jd_target_skill_id = st_target_skill_id s,
      jd_arguments = Some (st_arguments s), jd_join_handle_id = None, jd_merge_strategy = None,
      jd_merge_agent_id = None, jd_merge_prompt_template = None,
      jd_depends_on = Some (st_depends_on s), jd_priority = Some (st_priority s),
      jd_max_retries = Some (st_max_retries s), jd_timeout_seconds = Some (st_timeout_seconds s)\<rparr>"

definition continuation_dict ::
  "decomposition_plan \<Rightarrow> string \<Rightarrow> string \<Rightarrow> string \<Rightarrow> string list \<Rightarrow> job_dict"
where
  "continuation_dict plan parent jid hid children =
     \<lparr>jd_job_id = Some jid, jd_job_type = Some ''continuation'', jd_parent_job_id = Some parent,
      jd_plan_id = Some (dp_plan_id plan), jd_subtask_id = None, jd_subtask_description = None,
      jd_target_agent_id = None, jd_target_skill_id = None, jd_arguments = None,
      jd_join_handle_id = Some hid, jd_merge_strategy = Some (dp_merge_strategy plan),
      jd_merge_agent_id = dp_merge_agent_id plan,
      jd_merge_prompt_template = dp_merge_prompt_template plan,
      jd_depends_on = Some children, jd_priority = None, jd_max_retries = None,
      jd_timeout_seconds = None\<rparr>"

fun enqueue_subtasks ::
  "decomposition_plan \<Rightarrow> string \<Rightarrow> subtask_spec list \<Rightarrow> rt \<Rightarrow> (string list \<times> rt) result"
where
  "enqueue_subtasks plan parent [] w = Inr ([], w)"
| "enqueue_subtasks plan parent (s # ss) w =
     (let (jid, w) = new_uuid w
      in case decomp_enqueue (subtask_dict plan parent jid s) w of
           Inl e \<Rightarrow> Inl e
         | Inr (i, w) \<Rightarrow>
             (case enqueue_subtasks plan parent ss w of
                Inl e \<Rightarrow> Inl e
              | Inr (is, w) \<Rightarrow> Inr (i # is, w)))"

definition enqueue_continuation ::
  "decomposition_plan \<Rightarrow> string \<Rightarrow> string \<Rightarrow> string list \<Rightarrow> rt \<Rightarrow> (string \<times> rt) result"
where
  "enqueue_continuation plan parent hid children w =
     (let (jid, w) = new_uuid w
      in decomp_enqueue (continuation_dict plan parent jid hid children) w)"

text \<open>\<open>None\<close> would mean that the validator ran out of fuel, which it never does.\<close>

definition fan_out ::
  "decomposition_plan \<Rightarrow> string \<Rightarrow> rt \<Rightarrow> (decomp_error + fan_out_result \<times> rt) option"
where
  "fan_out plan parent w =
     (case validate_dag (dp_subtasks plan) of
        None \<Rightarrow> None
      | Some (Inl e) \<Rightarrow> Some (Inl (DagInvalid e))
      | Some (Inr _) \<Rightarrow>
          Some (case enqueue_subtasks plan parent (dp_subtasks plan) w of
             Inl e \<Rightarrow> Inl (DecompExn e)
           | Inr (children, w) \<Rightarrow>
               let (hid, w) = new_uuid w;
                   (now, w) = utc_now w;
                   h = new_join_handle hid parent (dp_plan_id plan) children
                         (dp_merge_strategy plan) (dp_merge_agent_id plan) now;
                   w = w\<lparr>rt_joins := join_save (rt_joins w) h\<rparr>
               in case enqueue_continuation plan parent (jh_id h) children w of
                    Inl e \<Rightarrow> Inl (DecompExn e)
                  | Inr (cont, w) \<Rightarrow>
                      Inr (\<lparr>fo_child_job_ids = children, fo_join_handle_id = jh_id h,
                            fo_continuation_job_id = cont\<rparr>, w)))"

subsection \<open>Fan-in and cancellation\<close>

fun join_state_value :: "join_state \<Rightarrow> string" where
  "join_state_value JWaiting = ''waiting''"
| "join_state_value JCompleted = ''completed''"
| "join_state_value JFailed = ''failed''"

definition fan_in ::
  "merge_fn pydict \<Rightarrow> string \<Rightarrow> child_results \<Rightarrow> string pydict option \<Rightarrow> rt
   \<Rightarrow> (merge_result \<times> rt) result"
where
  "fan_in registry hid results parent_context w =
     (case join_get (rt_joins w) hid of
        None \<Rightarrow> Inl (ValueError (''JoinHandle not found: '' @ hid))
      | Some h \<Rightarrow>
          if jh_state h = JWaiting then
            Inl (ValueError (''Cannot fan-in on JoinHandle '' @ hid
              @ '': children not yet complete (state='' @ join_state_value (jh_state h) @ '')''))
          else
            let parent_task = (case parent_context of
                  None \<Rightarrow> [] | Some ctx \<Rightarrow> dict_get_or ctx ''task'' [])
            in case execute_merge w registry (jh_merge_strategy h) results parent_task of
                 Inl e \<Rightarrow> Inl e
               | Inr m \<Rightarrow>
                   Inr (m, w\<lparr>rt_joins := join_save (rt_joins w) (h\<lparr>jh_state := JCompleted\<rparr>)\<rparr>))"

text \<open>One entry of the listing; \<open>cancel\<close> collects the children of every handle of the plan.\<close>

definition cancel_entry :: "string \<Rightarrow> string \<Rightarrow> string list \<times> join_store \<Rightarrow> string list \<times> join_store" where
  "cancel_entry plan_id hid acc =
     (let (cancelled, s) = acc
      in case join_get s hid of
           None \<Rightarrow> (cancelled, s)
         | Some h \<Rightarrow>
             if jh_plan_id h \<noteq> plan_id then (cancelled, s)
             else (cancelled @ jh_child_job_ids h,
                   if jh_state h = JWaiting then join_save s (h\<lparr>jh_state := JFailed\<rparr>) else s))"

definition cancel :: "string \<Rightarrow> rt \<Rightarrow> string list \<times> rt" where
  "cancel plan_id w =
     (let (cancelled, s) =
        fold (cancel_entry plan_id) (map fst (join_list (rt_joins w))) ([], rt_joins w)
      in (cancelled, w\<lparr>rt_joins := s\<rparr>))"

subsection \<open>The completion hook\<close>

definition on_decomp_job_complete :: "job \<Rightarrow> rt \<Rightarrow> rt" where
  "on_decomp_job_complete j w =
     (if j_state j = SUCCEEDED then handle_child_success (j_id j) w
      else if j_state j \<in> {FAILED, POISON} then handle_child_failure (j_id j) w
      else w)"

subsection \<open>Executors\<close>

definition json_dict :: "json \<Rightarrow> json pydict" where
  "json_dict v = (case v of JObj kvs \<Rightarrow> kvs | _ \<Rightarrow> [])"

definition error_result :: "string \<Rightarrow> json" where
  "error_result msg =
     JObj [(''output'', JStr msg), (''status'', JStr ''error''), (''done'', JBool True)]"

text \<open>
  A job's result is a dict or \<open>None\<close>; \<open>metadata\<close> and \<open>input\<close> of a channel message are dicts.
\<close>

definition collect_child ::
  "job_store \<Rightarrow> string \<Rightarrow> child_results \<Rightarrow> child_results"
where
  "collect_child s child acc =
     (case job_get s child of
        None \<Rightarrow> acc
      | Some j \<Rightarrow>
          dict_set acc
            (case j_subtask_id j of None \<Rightarrow> child | Some i \<Rightarrow> if i = [] then child else i)
            (case j_result j of None \<Rightarrow> [] | Some r \<Rightarrow> json_dict r))"

definition continuation_worker ::
  "merge_fn pydict \<Rightarrow> channel_message \<Rightarrow> rt \<Rightarrow> json"
where
  "continuation_worker registry payload w =
     (let md = json_dict (cm_metadata payload);
          hid = dict_get_or md ''join_handle_id'' JNull;
          strategy = dict_get_or md ''merge_strategy'' (JStr ''concat'');
          parent_task = dict_get_or md ''subtask_description'' (JStr [])
      in if \<not> json_truthy hid then error_result ''No join_handle_id in continuation metadata.''
         else case join_get (rt_joins w) (py_str w hid) of
           None \<Rightarrow> error_result (''JoinHandle '' @ py_str w hid @ '' not found.'')
         | Some h \<Rightarrow>
             let results = fold (collect_child (rt_store w)) (jh_child_job_ids h) []
             in case (case strategy of
                        JStr st \<Rightarrow> execute_merge w registry st results (py_str w parent_task)
                      | _ \<Rightarrow> Inl (MergeError (''Unknown merge strategy: '' @ py_str w strategy))) of
                  Inl e \<Rightarrow> error_result (''Merge failed: '' @ exn_message e)
                | Inr m \<Rightarrow>
                    JObj [(''output'', mr_output m), (''status'', JStr ''success''),
                          (''done'', JBool True), (''merge_strategy'', strategy)])"

definition subtask_worker ::
  "(json \<Rightarrow> json \<Rightarrow> json result) \<Rightarrow> (json \<Rightarrow> json pydict option result) option
   \<Rightarrow> channel_message \<Rightarrow> 'a env_scheme \<Rightarrow> json result"
where
  "subtask_worker run_temp_agent inline_tool_executor payload e =
     (let inp = json_dict (cm_input payload);
          description = dict_get_or inp ''subtask_description'' (JStr []);
          agent = dict_get_or inp ''target_agent_id'' JNull;
          skill = dict_get_or inp ''target_skill_id'' JNull;
          arguments = dict_get_or inp ''arguments'' (JObj [])
      in if \<not> json_truthy description then
           Inr (error_result (''No subtask_description provided '' @ em_dash @ '' nothing to do.''))
         else if json_truthy agent then run_temp_agent agent description
         else case inline_tool_executor of
           Some execute \<Rightarrow>
             if json_truthy skill then
               (case arguments of
                  JObj args \<Rightarrow>
                    (case execute (JObj [(''tool_name'', skill),
                        (''arguments'', JObj (dict_set args ''instruction'' description))]) of
                       Inl err \<Rightarrow> Inl err
                     | Inr None \<Rightarrow> Inr (error_result
                         (''Skill '' @ py_str e skill @ '' returned no result.''))
                     | Inr (Some result) \<Rightarrow> Inr (JObj
                         [(''output'', dict_get_or result ''output'' (JStr (py_str e (JObj result)))),
                          (''status'', JStr ''success''), (''done'', JBool True)]))
                | _ \<Rightarrow> Inl (TypeError (quoted (json_type_name arguments)
                         @ '' object is not a mapping'')))
             else Inr (error_result (''Neither target_agent_id nor target_skill_id provided ''
                    @ em_dash @ '' cannot route subtask.''))
         | None \<Rightarrow> Inr (error_result (''Neither target_agent_id nor target_skill_id provided ''
                    @ em_dash @ '' cannot route subtask.'')))"

definition decomposition_executor ::
  "merge_fn pydict \<Rightarrow> (json \<Rightarrow> json \<Rightarrow> json result)
   \<Rightarrow> (json \<Rightarrow> json pydict option result) option \<Rightarrow> channel_message \<Rightarrow> rt \<Rightarrow> json result"
where
  "decomposition_executor registry run_temp_agent inline_tool_executor payload w =
     (if dict_get_or (json_dict (cm_metadata payload)) ''job_type'' (JStr ''subtask'')
           = JStr ''continuation''
      then Inr (continuation_worker registry payload w)
      else subtask_worker run_temp_agent inline_tool_executor payload w)"


subsection \<open>What enqueueing does\<close>

text \<open>The job a dict describes: its identity, its dependencies and the state it starts in.\<close>

definition describes :: "job_dict \<Rightarrow> string \<Rightarrow> job \<Rightarrow> bool" where
  "describes d i j \<longleftrightarrow>
     j_id j = i \<and> j_payload j = decomp_payload d
     \<and> j_job_type j = get_or (jd_job_type d) ''default''
     \<and> j_parent_job_id j = jd_parent_job_id d \<and> j_plan_id j = jd_plan_id d
     \<and> j_subtask_id j = jd_subtask_id d \<and> j_depends_on j = get_or (jd_depends_on d) []
     \<and> j_priority j = get_or (jd_priority d) 0 \<and> j_max_retries j = get_or (jd_max_retries d) 0
     \<and> j_timeout_seconds j = get_or (jd_timeout_seconds d) 300
     \<and> j_state j = (if get_or (jd_depends_on d) [] = [] then PENDING else BLOCKED)"

lemma save_checkpoint_eq:
  "save_checkpoint j w =
     (let j' = j\<lparr>j_trace := j_trace j
                 @ [Lifecycle (e_clock w (e_tick w)) ''dehydrate_execution_context'' (JObj [])]\<rparr>
      in (j', w\<lparr>e_tick := Suc (e_tick w), rt_store := job_save (job_save (rt_store w) j') j'\<rparr>))"
  by (simp add: save_checkpoint_def append_lifecycle_event_def utc_now_def Let_def)

lemma decomp_enqueue_effect:
  assumes "jd_job_id d = Some i"
  shows "\<exists>j w'. decomp_enqueue d w = Inr (i, w') \<and> describes d i j
    \<and> (\<forall>k. job_get (rt_store w') k = (if k = i then Some j else job_get (rt_store w) k))
    \<and> (job_store_ok (rt_store w) \<longrightarrow> job_store_ok (rt_store w'))
    \<and> rt_queue w' = (if j_depends_on j = [] then queue_push (rt_queue w) j else rt_queue w)
    \<and> rt_joins w' = rt_joins w \<and> e_uuid w' = e_uuid w \<and> e_uuid_n w' = Suc (e_uuid_n w)"
  using assms
  by (cases "get_or (jd_depends_on d) [] = []";
      intro exI [of _ "the (job_get (rt_store (snd (projr (decomp_enqueue d w)))) i)"]
        exI [of _ "snd (projr (decomp_enqueue d w))"];
      simp add: decomp_enqueue_def decomp_job_def new_uuid_def utc_now_def Let_def
      register_job_def new_job_def save_checkpoint_eq describes_def jst.get_save
      job_save_ok can_transition_cases get_or_def)

text \<open>The jobs of a list of subtasks, one per subtask, in order.\<close>

definition subtask_jobs ::
  "decomposition_plan \<Rightarrow> string \<Rightarrow> string list \<Rightarrow> subtask_spec list \<Rightarrow> job list \<Rightarrow> bool"
where
  "subtask_jobs plan parent ids ss js \<longleftrightarrow>
     length ids = length ss
     \<and> list_all2 (\<lambda>(i, s) j. describes (subtask_dict plan parent i s) i j) (zip ids ss) js"

lemma subtask_jobs_ids:
  "subtask_jobs plan parent ids ss js \<Longrightarrow> map j_id js = ids \<and> length js = length ss"
proof (induction ids arbitrary: ss js)
  case Nil
  then show ?case by (auto simp: subtask_jobs_def)
next
  case (Cons i ids)
  then obtain s ss' where ss: "ss = s # ss'" by (cases ss) (auto simp: subtask_jobs_def)
  with Cons.prems obtain j js' where js: "js = j # js'"
      and j: "describes (subtask_dict plan parent i s) i j"
      and rest: "subtask_jobs plan parent ids ss' js'"
    by (auto simp: subtask_jobs_def list_all2_Cons1)
  from Cons.IH [OF rest] j ss js show ?case by (simp add: describes_def)
qed

definition drawn :: "rt \<Rightarrow> nat \<Rightarrow> string list" where
  "drawn w n = map (\<lambda>i. e_uuid w (e_uuid_n w + 2 * i)) [0..<n]"

lemma drawn_simps [simp]:
  "drawn w 0 = []"
  "drawn w (Suc n) = e_uuid w (e_uuid_n w) # drawn (w\<lparr>e_uuid_n := Suc (Suc (e_uuid_n w))\<rparr>) n"
  "length (drawn w n) = n"
  by (simp_all add: drawn_def upt_conv_Cons map_Suc_upt [symmetric] comp_def del: upt_Suc)

lemma enqueue_subtasks_effect:
  "\<exists>js w'. enqueue_subtasks plan parent ss w = Inr (drawn w (length ss), w')
    \<and> subtask_jobs plan parent (drawn w (length ss)) ss js
    \<and> (\<forall>k. job_get (rt_store w') k =
          (job_get (rt_store w) ++ map_of (rev (map (\<lambda>j. (j_id j, j)) js))) k)
    \<and> (job_store_ok (rt_store w) \<longrightarrow> job_store_ok (rt_store w'))
    \<and> q_items (rt_queue w') = q_items (rt_queue w) @ filter (\<lambda>j. j_depends_on j = []) js
    \<and> q_in_flight (rt_queue w') = q_in_flight (rt_queue w)
    \<and> rt_joins w' = rt_joins w \<and> e_uuid w' = e_uuid w
    \<and> e_uuid_n w' = e_uuid_n w + 2 * length ss"
proof (induction ss arbitrary: w)
  case Nil
  then show ?case by (simp add: subtask_jobs_def)
next
  case (Cons s ss)
  let ?i = "e_uuid w (e_uuid_n w)" and ?w = "w\<lparr>e_uuid_n := Suc (e_uuid_n w)\<rparr>"
  have "jd_job_id (subtask_dict plan parent ?i s) = Some ?i" by (simp add: subtask_dict_def)
  from decomp_enqueue_effect [OF this, of ?w] obtain j w1 where
      e: "decomp_enqueue (subtask_dict plan parent ?i s) ?w = Inr (?i, w1)"
    and j: "describes (subtask_dict plan parent ?i s) ?i j"
    and s1: "\<And>k. job_get (rt_store w1) k = (if k = ?i then Some j else job_get (rt_store w) k)"
    and ok1: "job_store_ok (rt_store w) \<longrightarrow> job_store_ok (rt_store w1)"
    and q1: "rt_queue w1 = (if j_depends_on j = [] then queue_push (rt_queue w) j else rt_queue w)"
    and r1: "rt_joins w1 = rt_joins w" "e_uuid w1 = e_uuid w" "e_uuid_n w1 = Suc (Suc (e_uuid_n w))"
    by auto
  have d: "drawn w (length (s # ss)) = ?i # drawn w1 (length ss)"
    using r1 by (simp only: length_Cons drawn_simps) (simp add: drawn_def)
  obtain js w2 where IH: "enqueue_subtasks plan parent ss w1 = Inr (drawn w1 (length ss), w2)"
      "subtask_jobs plan parent (drawn w1 (length ss)) ss js"
      "\<And>k. job_get (rt_store w2) k =
          (job_get (rt_store w1) ++ map_of (rev (map (\<lambda>j. (j_id j, j)) js))) k"
      "job_store_ok (rt_store w1) \<longrightarrow> job_store_ok (rt_store w2)"
      "q_items (rt_queue w2) = q_items (rt_queue w1) @ filter (\<lambda>j. j_depends_on j = []) js"
      "q_in_flight (rt_queue w2) = q_in_flight (rt_queue w1)"
      "rt_joins w2 = rt_joins w1" "e_uuid w2 = e_uuid w1"
      "e_uuid_n w2 = e_uuid_n w1 + 2 * length ss"
    using Cons.IH [of w1] by blast
  have jid: "j_id j = ?i" using j by (simp add: describes_def)
  show ?case
  proof (intro exI [of _ "j # js"] exI [of _ w2] conjI allI impI)
    show "enqueue_subtasks plan parent (s # ss) w = Inr (drawn w (length (s # ss)), w2)"
      using e IH(1) by (simp only: d) (simp add: new_uuid_def)
    show "subtask_jobs plan parent (drawn w (length (s # ss))) (s # ss) (j # js)"
      using j IH(2) unfolding d by (simp add: subtask_jobs_def)
    show "job_get (rt_store w2) k =
          (job_get (rt_store w) ++ map_of (rev (map (\<lambda>j. (j_id j, j)) (j # js)))) k" for k
      unfolding IH(3) by (simp add: map_add_def s1 jid split: option.splits)
  qed (use IH(4-9) ok1 q1 r1 in \<open>auto simp: queue_push_def\<close>)
qed

subsection \<open>What fan-out does\<close>

text \<open>
  The contract of a fan-out of \<open>plan\<close> from the runtime \<open>w\<close>: identifiers are the next draws, two
  per enqueued job (the second is the unused default of the enqueue callback) and one for the
  handle; \<open>js\<close> are the subtasks' jobs and \<open>c\<close> the continuation.
\<close>

definition fan_out_spec ::
  "decomposition_plan \<Rightarrow> string \<Rightarrow> rt \<Rightarrow> fan_out_result \<Rightarrow> rt \<Rightarrow> job list \<Rightarrow> job \<Rightarrow> bool"
where
  "fan_out_spec plan parent w r w' js c \<longleftrightarrow>
     (let n = length (dp_subtasks plan); children = drawn w n;
          hid = e_uuid w (e_uuid_n w + 2 * n); cont = e_uuid w (Suc (e_uuid_n w + 2 * n))
      in fo_child_job_ids r = children \<and> fo_join_handle_id r = hid
       \<and> fo_continuation_job_id r = cont
       \<and> subtask_jobs plan parent children (dp_subtasks plan) js
       \<and> describes (continuation_dict plan parent cont hid children) cont c
       \<and> (\<forall>k. job_get (rt_store w') k = (if k = cont then Some c
              else (job_get (rt_store w) ++ map_of (rev (map (\<lambda>j. (j_id j, j)) js))) k))
       \<and> (\<exists>now. \<forall>k. join_get (rt_joins w') k =
            (if k = hid then Some (new_join_handle hid parent (dp_plan_id plan) children
                 (dp_merge_strategy plan) (dp_merge_agent_id plan) now)
             else join_get (rt_joins w) k))
       \<and> q_items (rt_queue w') = q_items (rt_queue w) @ filter (\<lambda>j. j_depends_on j = []) js
            @ (if children = [] then [c] else [])
       \<and> q_in_flight (rt_queue w') = q_in_flight (rt_queue w))"

lemma fan_out_effect:
  assumes "validate_dag (dp_subtasks plan) = Some (Inr ())"
  shows "\<exists>r w' js c. fan_out plan parent w = Some (Inr (r, w')) \<and> fan_out_spec plan parent w r w' js c
    \<and> (job_store_ok (rt_store w) \<longrightarrow> job_store_ok (rt_store w'))
    \<and> (\<exists>h. rt_joins w' = join_save (rt_joins w) h)"
proof -
  let ?n = "length (dp_subtasks plan)"
  obtain js w1 where s: "enqueue_subtasks plan parent (dp_subtasks plan) w = Inr (drawn w ?n, w1)"
      "subtask_jobs plan parent (drawn w ?n) (dp_subtasks plan) js"
      "\<And>k. job_get (rt_store w1) k =
          (job_get (rt_store w) ++ map_of (rev (map (\<lambda>j. (j_id j, j)) js))) k"
      "job_store_ok (rt_store w) \<longrightarrow> job_store_ok (rt_store w1)"
      "q_items (rt_queue w1) = q_items (rt_queue w) @ filter (\<lambda>j. j_depends_on j = []) js"
      "q_in_flight (rt_queue w1) = q_in_flight (rt_queue w)"
      "rt_joins w1 = rt_joins w" "e_uuid w1 = e_uuid w" "e_uuid_n w1 = e_uuid_n w + 2 * ?n"
    using enqueue_subtasks_effect [of plan parent "dp_subtasks plan" w] by blast
  let ?hid = "e_uuid w (e_uuid_n w + 2 * ?n)" and ?cont = "e_uuid w (Suc (e_uuid_n w + 2 * ?n))"
  let ?h = "new_join_handle ?hid parent (dp_plan_id plan) (drawn w ?n) (dp_merge_strategy plan)
      (dp_merge_agent_id plan) (e_clock w1 (e_tick w1))"
  let ?d = "continuation_dict plan parent ?cont ?hid (drawn w ?n)"
  define w2 where "w2 = w1\<lparr>e_uuid_n := Suc (e_uuid_n w1), e_tick := Suc (e_tick w1),
      rt_joins := join_save (rt_joins w1) ?h\<rparr>"
  have "jd_job_id ?d = Some ?cont" by (simp add: continuation_dict_def)
  from decomp_enqueue_effect [OF this, of "w2\<lparr>e_uuid_n := Suc (e_uuid_n w2)\<rparr>"] obtain c w3 where c:
      "decomp_enqueue ?d (w2\<lparr>e_uuid_n := Suc (e_uuid_n w2)\<rparr>) = Inr (?cont, w3)"
      "describes ?d ?cont c"
      "\<And>k. job_get (rt_store w3) k = (if k = ?cont then Some c else job_get (rt_store w1) k)"
      "job_store_ok (rt_store w1) \<longrightarrow> job_store_ok (rt_store w3)"
      "rt_queue w3 = (if j_depends_on c = [] then queue_push (rt_queue w1) c else rt_queue w1)"
      "rt_joins w3 = join_save (rt_joins w1) ?h"
    by (auto simp: w2_def)
  have cont: "enqueue_continuation plan parent ?hid (drawn w ?n) w2 = Inr (?cont, w3)"
    using c(1) s(8,9) by (simp add: enqueue_continuation_def new_uuid_def w2_def)
  have hid: "jh_id ?h = ?hid" by (simp add: new_join_handle_def)
  define r where "r = \<lparr>fo_child_job_ids = drawn w ?n, fo_join_handle_id = ?hid,
      fo_continuation_job_id = ?cont\<rparr>"
  have "fan_out plan parent w = Some (Inr (r, w3))"
    using assms s(1,8,9) cont hid by (simp add: fan_out_def new_uuid_def utc_now_def Let_def w2_def r_def)
  moreover have "fan_out_spec plan parent w r w3 js c"
    unfolding fan_out_spec_def Let_def
  proof (intro conjI allI exI)
    show "join_get (rt_joins w3) k = (if k = ?hid then Some ?h else join_get (rt_joins w) k)" for k
      by (simp add: c(6) s(7) hst.get_save hid)
    have "j_depends_on c = drawn w ?n"
      using c(2) by (simp add: describes_def continuation_dict_def get_or_def)
    then show "q_items (rt_queue w3) = q_items (rt_queue w) @ filter (\<lambda>j. j_depends_on j = []) js
            @ (if drawn w ?n = [] then [c] else [])"
      using s(5) c(5) by (simp add: queue_push_def)
  qed (use s c in \<open>auto simp: r_def queue_push_def\<close>)
  moreover have "job_store_ok (rt_store w) \<longrightarrow> job_store_ok (rt_store w3)" using s(4) c(4) by blast
  moreover have "rt_joins w3 = join_save (rt_joins w) ?h" using c(6) s(7) by simp
  ultimately show ?thesis by (intro exI [of _ r] exI [of _ w3] exI [of _ js] exI [of _ c]) auto
qed

text \<open>C4: Fan-out does what its contract says: a valid plan becomes one job per subtask in plan
  order, the independent ones pending and queued, the others blocked and not queued, a waiting join
  handle over exactly those jobs, and a continuation that waits for all of them; an invalid plan is
  refused before anything is enqueued; the validator never runs out of fuel.\<close>

theorem fan_out_implements_spec:
  "case validate_dag (dp_subtasks plan) of
     Some (Inr _) \<Rightarrow> \<exists>r w' js c. fan_out plan parent w = Some (Inr (r, w'))
         \<and> fan_out_spec plan parent w r w' js c
   | Some (Inl e) \<Rightarrow> fan_out plan parent w = Some (Inl (DagInvalid e))
   | None \<Rightarrow> False"
proof (cases "validate_dag (dp_subtasks plan)")
  case None
  then show ?thesis using validate_dag_cases by blast
next
  case (Some v)
  then show ?thesis
  proof (cases v)
    case (Inl e)
    with Some show ?thesis by (simp add: fan_out_def)
  next
    case (Inr u)
    with Some have "validate_dag (dp_subtasks plan) = Some (Inr ())" by simp
    from fan_out_effect [OF this, of parent w] Inr Some show ?thesis by auto
  qed
qed

text \<open>The jobs of a fan-out are found under their own ids.\<close>

lemma distinct_drawn:
  assumes "inj (e_uuid w)"
  shows "distinct (drawn w n)" "e_uuid w (Suc (e_uuid_n w + 2 * m)) \<notin> set (drawn w n)"
proof -
  have "inj_on (\<lambda>i. e_uuid w (e_uuid_n w + 2 * i)) A" for A
    using injD [OF assms] by (intro inj_onI) force
  then show "distinct (drawn w n)" by (simp add: drawn_def distinct_map)
  have "e_uuid w (Suc (e_uuid_n w + 2 * m)) \<noteq> e_uuid w (e_uuid_n w + 2 * i)" for i
  proof
    assume "e_uuid w (Suc (e_uuid_n w + 2 * m)) = e_uuid w (e_uuid_n w + 2 * i)"
    then have "Suc (e_uuid_n w + 2 * m) = e_uuid_n w + 2 * i" by (rule injD [OF assms])
    then show False by presburger
  qed
  then show "e_uuid w (Suc (e_uuid_n w + 2 * m)) \<notin> set (drawn w n)" by (auto simp: drawn_def)
qed

lemma fan_out_spec_jobs:
  assumes "fan_out_spec plan parent w r w' js c" "inj (e_uuid w)" "j \<in> set js"
  shows "job_get (rt_store w') (j_id j) = Some j"
proof -
  let ?n = "length (dp_subtasks plan)"
  have ids: "map j_id js = drawn w ?n"
    using assms(1) subtask_jobs_ids unfolding fan_out_spec_def Let_def by blast
  have "j_id j \<in> set (drawn w ?n)" unfolding ids [symmetric] using assms(3) by simp
  then have cont: "j_id j \<noteq> e_uuid w (Suc (e_uuid_n w + 2 * ?n))"
    using distinct_drawn(2) [OF assms(2)] by metis
  have "distinct (map j_id js)" unfolding ids by (rule distinct_drawn(1) [OF assms(2)])
  then have "distinct (map fst (rev (map (\<lambda>j. (j_id j, j)) js)))"
    by (simp add: rev_map [symmetric] comp_def)
  then have "map_of (rev (map (\<lambda>j. (j_id j, j)) js)) (j_id j) = Some j"
    by (rule map_of_is_SomeI) (use assms(3) in auto)
  then show ?thesis using assms(1) cont by (simp add: fan_out_spec_def Let_def map_add_def)
qed

subsection \<open>Blocked jobs whose dependencies are not jobs\<close>

text \<open>A job of the plan finishes: the worker stores it and calls the completion hook.\<close>

definition decomp_finish :: "job \<Rightarrow> rt \<Rightarrow> rt" where
  "decomp_finish j w =
     on_decomp_job_complete j (w\<lparr>rt_store := job_save (rt_store w) j\<rparr>)"

text \<open>The job \<open>i\<close> waits for an id outside the keys \<open>D\<close> of the store.\<close>

definition stuck :: "string \<Rightarrow> string set \<Rightarrow> rt \<Rightarrow> bool" where
  "stuck i D w \<longleftrightarrow>
     job_store_ok (rt_store w) \<and> dom (job_get (rt_store w)) = D
     \<and> (\<exists>j. job_get (rt_store w) i = Some j \<and> j_state j \<in> {BLOCKED, FAILED}
          \<and> (\<exists>d \<in> set (j_depends_on j). d \<notin> D))
     \<and> i \<notin> j_id ` set (q_items (rt_queue w))"

lemma stuck_frame:
  "stuck i D (w\<lparr>rt_joins := js\<rparr>) = stuck i D w" "stuck i D (w\<lparr>e_tick := n\<rparr>) = stuck i D w"
  by (simp_all add: stuck_def)

lemma stuck_save:
  assumes "stuck i D w" "j_id j \<in> D"
    and "j_id j = i \<longrightarrow> (\<exists>j'. job_get (rt_store w) i = Some j' \<and> j_depends_on j = j_depends_on j')
      \<and> j_state j \<in> {BLOCKED, FAILED}"
  shows "stuck i D (w\<lparr>rt_store := job_save (rt_store w) j\<rparr>)"
proof -
  have "dom (job_get (job_save (rt_store w) j)) = D"
    using assms(1,2) by (auto simp: stuck_def jst.get_save dom_def)
  with assms show ?thesis by (auto simp: stuck_def jst.get_save job_save_ok)
qed

lemma stuck_keyed: "stuck i D w \<Longrightarrow> job_get (rt_store w) k = Some j \<Longrightarrow> j_id j = k \<and> k \<in> D"
  using jst.keyed by (auto simp: stuck_def)

lemma stuck_not_satisfied:
  assumes "stuck i D w" "job_get (rt_store w) i = Some j"
  shows "\<not> all_deps_satisfied j (rt_store w)"
proof -
  from assms obtain d where d: "d \<in> set (j_depends_on j)" "job_get (rt_store w) d = None"
    by (auto simp: stuck_def)
  then show ?thesis by (auto simp: all_deps_satisfied_def list_all_iff intro!: bexI [of _ d])
qed

lemma stuck_unblock_sibling: 
  assumes "stuck i D w"
  shows "stuck i D (unblock_sibling plan k w)"
proof -
  have ok: "job_store_ok (rt_store w)" using assms by (simp add: stuck_def)
  show ?thesis
  proof (cases "\<exists>j. job_get (rt_store w) k = Some j \<and> released plan (rt_store w) j")
    case False
    then have "unblock_sibling plan k w = w"
      by (auto simp: unblock_sibling_eq [OF ok] split: option.splits)
    with assms show ?thesis by simp
  next
    case True
    then obtain j where j: "job_get (rt_store w) k = Some j" "released plan (rt_store w) j" by blast
    have k: "j_id j = k" "k \<in> D" using stuck_keyed [OF assms j(1)] by auto
    have "k \<noteq> i" using j stuck_not_satisfied [OF assms] by (auto simp: released_def)
    then have "stuck i D (w\<lparr>rt_store := job_save (rt_store w) (unblocked j)\<rparr>)"
      using k by (intro stuck_save [OF assms]) (auto simp: unblocked_def)
    moreover have "unblock_sibling plan k w = w\<lparr>rt_store := job_save (rt_store w) (unblocked j),
        rt_queue := queue_push (rt_queue w) (unblocked j)\<rparr>"
      using j by (simp add: unblock_sibling_eq [OF ok])
    ultimately show ?thesis
      using k \<open>k \<noteq> i\<close> by (auto simp: stuck_def queue_push_def unblocked_def)
  qed
qed

lemma stuck_cancel_sibling:
  assumes "stuck i D w"
  shows "stuck i D (cancel_sibling hid cid k w)"
proof (cases "cancellable cid (rt_store w) k")
  case False
  then show ?thesis using assms by (simp add: cancel_sibling_eq)
next
  case True
  then obtain j where j: "job_get (rt_store w) k = Some j"
    by (auto simp: cancellable_def split: option.splits)
  note k = stuck_keyed [OF assms j]
  have "stuck i D (w\<lparr>rt_store := job_save (rt_store w) (j\<lparr>j_state := FAILED\<rparr>)\<rparr>)"
    using k j by (intro stuck_save [OF assms]) auto
  with True j show ?thesis by (simp add: cancel_sibling_eq stuck_def)
qed

lemma stuck_hook:
  assumes "stuck i D w"
  shows "stuck i D (on_decomp_job_complete j w)"
proof -
  have w: "stuck i D (w\<lparr>e_tick := n, rt_joins := js\<rparr>)" for n js
    using assms by (simp add: stuck_frame)
  note unblock = fold_keeps [where P = "stuck i D" and f = "unblock_sibling plan" for plan,
      OF stuck_unblock_sibling w]
  note cancel = fold_keeps [where P = "stuck i D" and f = "cancel_sibling hid cid" for hid cid,
      OF stuck_cancel_sibling w]
  have "stuck i D (handle_child_success cid w)" for cid
    unfolding handle_child_success_def utc_now_def Let_def prod.case
    by (simp add: assms unblock split: option.split)
  moreover have "stuck i D (handle_child_failure cid w)" for cid
    unfolding handle_child_failure_def utc_now_def Let_def prod.case
    by (simp add: assms w cancel split: option.split)
  ultimately show ?thesis using assms by (simp add: on_decomp_job_complete_def)
qed

lemma stuck_finish:
  assumes "stuck i D w" "j_id j \<in> D" "j_id j \<noteq> i"
  shows "stuck i D (decomp_finish j w)"
  unfolding decomp_finish_def using assms by (intro stuck_hook stuck_save) auto

lemma stuck_finishes:
  "stuck i D w \<Longrightarrow> list_all (\<lambda>j. j_id j \<in> D \<and> j_id j \<noteq> i) js \<Longrightarrow> stuck i D (fold decomp_finish js w)"
  by (induction js arbitrary: w) (auto intro: stuck_finish)

lemma fan_out_InrD:
  assumes "fan_out plan parent w = Some (Inr (r, w'))"
  shows "validate_dag (dp_subtasks plan) = Some (Inr ())
    \<and> (\<exists>js c. fan_out_spec plan parent w r w' js c)
    \<and> (job_store_ok (rt_store w) \<longrightarrow> job_store_ok (rt_store w'))
    \<and> (join_store_ok (rt_joins w) \<longrightarrow> join_store_ok (rt_joins w'))"
proof -
  have v: "validate_dag (dp_subtasks plan) = Some (Inr ())"
  proof (cases "validate_dag (dp_subtasks plan)")
    case None
    with assms show ?thesis by (simp add: fan_out_def)
  next
    case (Some x)
    with assms show ?thesis by (cases x) (simp_all add: fan_out_def)
  qed
  from fan_out_effect [OF v, of parent w] assms v show ?thesis by (auto simp: join_save_ok)
qed

lemma valid_dependency:
  assumes "validate_dag ss = Some (Inr ())" "s \<in> set ss" "d \<in> set (st_depends_on s)"
  shows "d \<in> st_id ` set ss"
proof -
  have "dag_closed ss" using assms(1) validate_dag_cases by blast
  then have "\<forall>s \<in> set ss. set (st_depends_on s) \<subseteq> set (map st_id ss)"
    unfolding dag_closed_def range_dag_edges by (auto simp: dag_ids_def)
  with assms show ?thesis by auto
qed

text \<open>C16: A dependent subtask is never released: a plan's dependencies name subtasks, the store
  names jobs, so after fan-out, whichever jobs of the store then finish, in any order and however
  often, the job of a subtask with a dependency is still blocked (or cancelled) and was never
  queued.\<close>

theorem dependent_subtask_never_released:
  assumes "fan_out plan parent w = Some (Inr (r, w1))"
    and "job_store_ok (rt_store w)" "inj (e_uuid w)"
    and "k < length (dp_subtasks plan)" "st_depends_on (dp_subtasks plan ! k) \<noteq> []"
    and "\<forall>s \<in> set (dp_subtasks plan). job_get (rt_store w1) (st_id s) = None"
    and "i = fo_child_job_ids r ! k" "i \<notin> j_id ` set (q_items (rt_queue w))"
    and "list_all (\<lambda>j. job_get (rt_store w1) (j_id j) \<noteq> None \<and> j_id j \<noteq> i) js"
    and "w2 = fold decomp_finish js w1"
  shows "(\<exists>j. job_get (rt_store w2) i = Some j \<and> j_state j \<in> {BLOCKED, FAILED})
    \<and> i \<notin> j_id ` set (q_items (rt_queue w2))"
proof -
  let ?s = "dp_subtasks plan ! k" and ?D = "dom (job_get (rt_store w1))"
  let ?n = "length (dp_subtasks plan)"
  from fan_out_InrD [OF assms(1)] assms(2) obtain cs c where
      v: "validate_dag (dp_subtasks plan) = Some (Inr ())"
    and spec: "fan_out_spec plan parent w r w1 cs c" and ok: "job_store_ok (rt_store w1)" by blast
  have children: "fo_child_job_ids r = drawn w ?n"
    and sj: "subtask_jobs plan parent (drawn w ?n) (dp_subtasks plan) cs"
    and q: "q_items (rt_queue w1) = q_items (rt_queue w) @ filter (\<lambda>j. j_depends_on j = []) cs
        @ (if drawn w ?n = [] then [c] else [])"
    using spec unfolding fan_out_spec_def Let_def by auto
  note ids = subtask_jobs_ids [OF sj]
  have k: "k < length cs" using ids assms(4) by simp
  have i: "i = drawn w ?n ! k" using assms(7) children by simp
  have j: "describes (subtask_dict plan parent i ?s) i (cs ! k)"
    using sj k assms(4) i by (auto simp: subtask_jobs_def list_all2_conv_all_nth)
  have get: "job_get (rt_store w1) i = Some (cs ! k)"
    using fan_out_spec_jobs [OF spec assms(3), of "cs ! k"] k j by (simp add: describes_def)
  obtain d where d: "d \<in> set (st_depends_on ?s)" using assms(5) by (cases "st_depends_on ?s") auto
  have "d \<notin> ?D"
    using valid_dependency [OF v _ d] assms(4,6) by (fastforce simp: domIff)
  moreover have "j_depends_on (cs ! k) = st_depends_on ?s" "j_state (cs ! k) = BLOCKED"
    using j assms(5) by (simp_all add: describes_def subtask_dict_def get_or_def)
  moreover have "i \<notin> j_id ` set (q_items (rt_queue w1))"
  proof
    assume "i \<in> j_id ` set (q_items (rt_queue w1))"
    then obtain j' where j': "j' \<in> set cs" "j_depends_on j' = []" "j_id j' = i"
      using assms(4,8) by (auto simp: q drawn_def)
    then have "j' = cs ! k" using fan_out_spec_jobs [OF spec assms(3) j'(1)] get by simp
    with j'(2) assms(5) j show False by (simp add: describes_def subtask_dict_def get_or_def)
  qed
  ultimately have "stuck i ?D w1" using ok get d by (auto simp: stuck_def)
  moreover have "list_all (\<lambda>j. j_id j \<in> ?D \<and> j_id j \<noteq> i) js"
    using assms(9) by (auto simp: list_all_iff)
  ultimately have "stuck i ?D w2" unfolding assms(10) by (rule stuck_finishes)
  then show ?thesis by (auto simp: stuck_def)
qed

subsection \<open>Fan-in and cancellation\<close>

text \<open>Fan-in waits for every child and then forgets failures: on a handle that fan-out
  created and that has received the reports \<open>rs\<close>, fan-in is refused exactly while a child is
  unreported (always, for a plan without subtasks); afterwards it is the merge of the plan's
  strategy, and when that succeeds the handle reads \<open>COMPLETED\<close> even if a child had failed.  A
  refused or failed fan-in changes nothing.\<close>

lemma fan_in_after_reports:
  assumes "join_store_ok (rt_joins w)" "distinct children" "distinct (report_ids rs)"
    and "set (report_ids rs) \<subseteq> set children"
    and "h = run_reports rs (new_join_handle hid parent plan children strategy agent now)"
    and "join_get (rt_joins w) hid = Some h"
  shows "if rs = [] \<or> \<not> set children \<subseteq> set (report_ids rs)
    then \<exists>e. fan_in registry hid results ctx w = Inl e \<and> exn_type e = ''ValueError''
    else (case execute_merge w registry (jh_merge_strategy h) results
              (case ctx of None \<Rightarrow> [] | Some c \<Rightarrow> dict_get_or c ''task'' []) of
            Inl e \<Rightarrow> fan_in registry hid results ctx w = Inl e
          | Inr m \<Rightarrow> \<exists>w'. fan_in registry hid results ctx w = Inr (m, w')
              \<and> (\<forall>k. join_get (rt_joins w') k =
                    (if k = hid then Some (h\<lparr>jh_state := JCompleted\<rparr>) else join_get (rt_joins w) k))
              \<and> rt_store w' = rt_store w \<and> rt_queue w' = rt_queue w)"
proof -
  let ?h0 = "new_join_handle hid parent plan children strategy agent now"
  have st: "jh_state h = join_spec children rs"
    unfolding assms(5)
    using run_reports_lists [of ?h0 rs] assms(2-4) by (simp add: new_join_handle_def)
  have hid: "jh_id h = hid" using hst.keyed [OF assms(1,6)] .
  have waiting: "jh_state h = JWaiting \<longleftrightarrow> rs = [] \<or> \<not> set children \<subseteq> set (report_ids rs)"
    by (auto simp: st join_spec_def)
  show ?thesis
    using assms(6) hid waiting
    by (auto simp: fan_in_def Let_def ValueError_def hst.get_save split: sum.splits)
qed

lemma cancel_fold_spec:
  assumes "join_store_ok s" "distinct ks" "\<forall>k \<in> set ks. join_get s k \<noteq> None"
  shows "let (ids, s') = fold (cancel_entry plan) ks (ids0, s)
    in ids = ids0 @ concat (map jh_child_job_ids
          (filter (\<lambda>h. jh_plan_id h = plan) (List.map_filter (join_get s) ks)))
     \<and> (\<forall>k. join_get s' k = map_option (\<lambda>h. if k \<in> set ks \<and> jh_plan_id h = plan
            \<and> jh_state h = JWaiting then h\<lparr>jh_state := JFailed\<rparr> else h) (join_get s k))"
  using assms
proof (induction ks arbitrary: ids0 s)
  case Nil
  then show ?case by (simp add: List.map_filter_simps option.map_ident)
next
  case (Cons k ks)
  from Cons.prems(3) obtain h where h: "join_get s k = Some h" by auto
  have key: "jh_id h = k" using hst.keyed [OF Cons.prems(1) h] .
  define s1 where "s1 = (if jh_plan_id h = plan \<and> jh_state h = JWaiting
      then join_save s (h\<lparr>jh_state := JFailed\<rparr>) else s)"
  define ids1 where "ids1 = ids0 @ (if jh_plan_id h = plan then jh_child_job_ids h else [])"
  have e: "cancel_entry plan k (ids0, s) = (ids1, s1)"
    by (simp add: cancel_entry_def h s1_def ids1_def)
  have ok1: "join_store_ok s1" using Cons.prems(1) by (simp add: s1_def join_save_ok)
  have g1: "join_get s1 i = (if i = k \<and> jh_plan_id h = plan \<and> jh_state h = JWaiting
      then Some (h\<lparr>jh_state := JFailed\<rparr>) else join_get s i)" for i
    by (simp add: s1_def hst.get_save key)
  have same: "List.map_filter (join_get s1) ks = List.map_filter (join_get s) ks"
    using Cons.prems(2) by (auto simp: List.map_filter_def g1 intro!: map_cong filter_cong)
  obtain ids' s' where f: "fold (cancel_entry plan) ks (ids1, s1) = (ids', s')" by (metis surj_pair)
  have "\<forall>i \<in> set ks. join_get s1 i \<noteq> None" using Cons.prems(3) by (auto simp: g1)
  note IH = Cons.IH [OF ok1 _ this, of ids1, unfolded Let_def]
  have "distinct ks" using Cons.prems(2) by simp
  note IH = IH [OF this]
  have "ids' = ids1 @ concat (map jh_child_job_ids
          (filter (\<lambda>h. jh_plan_id h = plan) (List.map_filter (join_get s1) ks)))"
    and g: "\<And>i. join_get s' i = map_option (\<lambda>h. if i \<in> set ks \<and> jh_plan_id h = plan
            \<and> jh_state h = JWaiting then h\<lparr>jh_state := JFailed\<rparr> else h) (join_get s1 i)"
    using IH unfolding f by simp_all
  moreover have "map_option (\<lambda>h. if i \<in> set ks \<and> jh_plan_id h = plan
            \<and> jh_state h = JWaiting then h\<lparr>jh_state := JFailed\<rparr> else h) (join_get s1 i)
      = map_option (\<lambda>h. if i \<in> set (k # ks) \<and> jh_plan_id h = plan
            \<and> jh_state h = JWaiting then h\<lparr>jh_state := JFailed\<rparr> else h) (join_get s i)" for i
    using Cons.prems(2) h by (cases "i = k") (auto simp: g1)
  moreover have "fold (cancel_entry plan) (k # ks) (ids0, s) = (ids', s')" by (simp add: e f)
  ultimately show ?case
    by (simp only: Let_def prod.case) (simp add: same ids1_def List.map_filter_simps h)
qed

text \<open>Cancelling a plan only closes its handles: it returns the children of every handle of the
  plan in store order and turns the waiting ones \<open>FAILED\<close>; the job store and the queue keep
  every one of those jobs as they were, so the jobs it reports cancelled still run.\<close>

lemma cancel_leaves_jobs:
  assumes "join_store_ok (rt_joins w)"
  shows "fst (cancel plan w) =
      concat (map jh_child_job_ids (filter (\<lambda>h. jh_plan_id h = plan) (map snd (rt_joins w))))
    \<and> (\<forall>k. join_get (rt_joins (snd (cancel plan w))) k =
        map_option (\<lambda>h. if jh_plan_id h = plan \<and> jh_state h = JWaiting
            then h\<lparr>jh_state := JFailed\<rparr> else h) (join_get (rt_joins w) k))
    \<and> rt_store (snd (cancel plan w)) = rt_store w \<and> rt_queue (snd (cancel plan w)) = rt_queue w"
proof -
  let ?ks = "map fst (join_list (rt_joins w))"
  have mem: "set ?ks = dom (join_get (rt_joins w))" by (rule hst.listing_set [OF assms])
  obtain ids s where f: "fold (cancel_entry plan) ?ks ([], rt_joins w) = (ids, s)"
    by (metis surj_pair)
  from cancel_fold_spec [OF assms hst.listing_distinct [OF assms], of plan "[]"] mem f
  have "ids = concat (map jh_child_job_ids
          (filter (\<lambda>h. jh_plan_id h = plan) (List.map_filter (join_get (rt_joins w)) ?ks)))"
    and g: "\<And>k. join_get s k = map_option (\<lambda>h. if k \<in> set ?ks \<and> jh_plan_id h = plan
            \<and> jh_state h = JWaiting then h\<lparr>jh_state := JFailed\<rparr> else h) (join_get (rt_joins w) k)"
    by (auto simp: domIff)
  moreover have "(k \<in> set ?ks) = (join_get (rt_joins w) k \<noteq> None)" for k
    unfolding mem by (simp add: domIff)
  then have "join_get s k = map_option (\<lambda>h. if jh_plan_id h = plan
            \<and> jh_state h = JWaiting then h\<lparr>jh_state := JFailed\<rparr> else h) (join_get (rt_joins w) k)"
    for k
    unfolding g by (cases "join_get (rt_joins w) k") auto
  ultimately show ?thesis
    by (simp add: cancel_def f map_filter_joins [OF assms])
qed

subsection \<open>A plan without dependencies completes\<close>

text \<open>
  A run of the children of a fan-out, as the sequence of the jobs their workers store: each of a
  tracked child of the plan, not yet succeeded, and at the end all have succeeded.
\<close>

fun child_runs :: "string list \<Rightarrow> string \<Rightarrow> string list \<Rightarrow> job list \<Rightarrow> bool" where
  "child_runs children plan dn [] = (set children \<subseteq> set dn)"
| "child_runs children plan dn (j # js) =
     (j_id j \<in> set children \<and> j_id j \<notin> set dn \<and> j_plan_id j = Some plan
      \<and> j_state j \<in> {PENDING, RUNNING, SUCCEEDED}
      \<and> child_runs children plan (if j_state j = SUCCEEDED then dn @ [j_id j] else dn) js)"

text \<open>The state of the runtime when the children \<open>dn\<close> have succeeded.\<close>

definition fan_run ::
  "string list \<Rightarrow> string \<Rightarrow> string \<Rightarrow> join_handle \<Rightarrow> job \<Rightarrow> job list \<Rightarrow> string list \<Rightarrow> rt \<Rightarrow> bool"
where
  "fan_run children plan hid h c q dn w \<longleftrightarrow>
     job_store_ok (rt_store w) \<and> join_store_ok (rt_joins w)
     \<and> distinct dn \<and> set dn \<subseteq> set children
     \<and> (\<forall>k g. join_get (rt_joins w) k = Some g \<longrightarrow> jh_plan_id g = plan \<longrightarrow> k = hid)
     \<and> (\<exists>rs. join_get (rt_joins w) hid = Some (run_reports rs h) \<and> report_ids rs = dn
          \<and> reported False rs = [])
     \<and> job_get (rt_store w) (j_id c) = Some (if set children \<subseteq> set dn then unblocked c else c)
     \<and> q_items (rt_queue w) = q @ (if set children \<subseteq> set dn then [unblocked c] else [])
     \<and> (\<forall>i \<in> set children. \<exists>j. job_get (rt_store w) i = Some j \<and> j_state j \<noteq> BLOCKED
          \<and> (j_state j = SUCCEEDED \<longleftrightarrow> i \<in> set dn))
     \<and> (\<forall>k j. job_get (rt_store w) k = Some j \<longrightarrow> j_plan_id j = Some plan
          \<longrightarrow> k \<in> set children \<or> k = j_id c)"

text \<open>The continuation is the only job of the plan that a success can release.\<close>

lemma fan_run_released:
  assumes run: "fan_run children plan hid h c q dn w"
    and c: "j_state c = BLOCKED" "j_plan_id c = Some plan" "j_depends_on c = children"
      "j_id c \<notin> set children" "children \<noteq> []"
    and dn: "\<not> set children \<subseteq> set dn"
    and i: "i \<in> set children" "i \<notin> set dn"
    and j: "j_id j = i" "j_state j = SUCCEEDED"
    and s: "s = job_save (rt_store w) j" "job_get s k = Some k'"
  shows "released (Some plan) s k' \<longleftrightarrow> k = j_id c \<and> set children \<subseteq> set (dn @ [i])"
proof -
  have get: "job_get s x = (if x = i then Some j else job_get (rt_store w) x)" for x
    by (simp add: s(1) jst.get_save j(1))
  have all: "all_deps_satisfied c s \<longleftrightarrow> set children \<subseteq> set (dn @ [i])"
  proof -
    have "(case job_get s x of None \<Rightarrow> False | Some d \<Rightarrow> j_state d = SUCCEEDED)
        \<longleftrightarrow> x \<in> set (dn @ [i])" if "x \<in> set children" for x
    proof (cases "x = i")
      case True
      then show ?thesis using j by (simp add: get)
    next
      case False
      from run that obtain g where "job_get (rt_store w) x = Some g"
          "j_state g = SUCCEEDED \<longleftrightarrow> x \<in> set dn"
        unfolding fan_run_def by blast
      with False show ?thesis by (simp add: get)
    qed
    then show ?thesis by (auto simp: all_deps_satisfied_def c(3) list_all_iff)
  qed
  consider "k = j_id c" | "k \<in> set children" | "k \<noteq> j_id c" "k \<notin> set children" by blast
  then show ?thesis
  proof cases
    case 1
    have "job_get (rt_store w) (j_id c) = Some c" using run dn unfolding fan_run_def by simp
    then have "k' = c" using s(2) 1 c(4) i(1) by (auto simp: get split: if_splits)
    then show ?thesis using 1 c all by (auto simp: released_def)
  next
    case 2
    then have "j_state k' \<noteq> BLOCKED" "k \<noteq> j_id c"
      using run s(2) j c(4) unfolding fan_run_def get by (auto split: if_splits)
    then show ?thesis by (simp add: released_def)
  next
    case 3
    then have "j_plan_id k' \<noteq> Some plan"
      using run s(2) i(1) unfolding fan_run_def get by (auto split: if_splits)
    then show ?thesis using 3 by (simp add: released_def)
  qed
qed

lemma fan_run_finish:
  assumes run: "fan_run children plan hid h c q dn w"
    and h: "jh_plan_id h = plan"
    and c: "j_state c = BLOCKED" "j_plan_id c = Some plan" "j_depends_on c = children"
      "j_id c \<notin> set children" "children \<noteq> []"
    and j: "j_id j \<in> set children" "j_id j \<notin> set dn" "j_plan_id j = Some plan" "j_state j = SUCCEEDED"
  shows "fan_run children plan hid h c q (dn @ [j_id j]) (decomp_finish j w)"
proof -
  define w1 where "w1 = w\<lparr>rt_store := job_save (rt_store w) j\<rparr>"
  define w' where "w' = decomp_finish j w"
  have e: "w' = handle_child_success (j_id j) w1"
    using j(4) by (simp add: w'_def decomp_finish_def on_decomp_job_complete_def w1_def)
  have dn: "\<not> set children \<subseteq> set dn" using j by auto
  let ?all = "set children \<subseteq> set (dn @ [j_id j])"
  have ok: "job_store_ok (rt_store w1)" "join_store_ok (rt_joins w1)"
    using run by (simp_all add: fan_run_def w1_def job_save_ok)
  have get: "job_get (rt_store w1) k = (if k = j_id j then Some j else job_get (rt_store w) k)" for k
    by (simp add: w1_def jst.get_save)
  obtain rs where rs: "join_get (rt_joins w1) hid = Some (run_reports rs h)" "report_ids rs = dn"
      "reported False rs = []"
    using run by (auto simp: fan_run_def w1_def)
  have hid: "find_join_handle plan (rt_joins w1) = Some hid"
    by (rule find_join_handle_unique [OF ok(2) rs(1)])
      (use run h in \<open>auto simp: fan_run_def w1_def\<close>)
  have rel: "released (Some plan) (rt_store w1) k' \<longleftrightarrow> k = j_id c \<and> ?all"
    if "job_get (rt_store w1) k = Some k'" for k k'
    by (rule fan_run_released [OF run c dn j(1,2) refl j(4) _ that]) (simp add: w1_def)
  have cget: "job_get (rt_store w1) (j_id c) = Some c"
    using run dn j(1) c(4) by (auto simp: fan_run_def get)
  from child_success_effect [OF ok _ j(3) hid e] get
  have store: "\<And>k. job_get (rt_store w') k =
        map_option (\<lambda>j. if released (Some plan) (rt_store w1) j then unblocked j else j)
          (job_get (rt_store w1) k)"
    and queue: "q_items (rt_queue w') = q_items (rt_queue w1)
        @ map unblocked (filter (released (Some plan) (rt_store w1)) (map snd (rt_store w1)))"
    and joins: "\<exists>now. \<forall>k. join_get (rt_joins w') k =
          (if k = hid then map_option (run_report (now, j_id j, True)) (join_get (rt_joins w1) hid)
           else join_get (rt_joins w1) k)"
    by simp_all
  obtain now where upd: "\<forall>k. join_get (rt_joins w') k =
          (if k = hid then map_option (run_report (now, j_id j, True)) (join_get (rt_joins w1) hid)
           else join_get (rt_joins w1) k)"
    using joins by blast
  have now: "join_get (rt_joins w') k =
      (if k = hid then Some (run_reports (rs @ [(now, j_id j, True)]) h) else join_get (rt_joins w) k)"
    for k
    using upd rs(1) by (simp add: w1_def)
  have store': "job_get (rt_store w') k = (if k = j_id c \<and> ?all then Some (unblocked c)
      else job_get (rt_store w1) k)" for k
    using rel [of k] cget unfolding store by (cases "job_get (rt_store w1) k") auto
  have filt: "filter (released (Some plan) (rt_store w1)) (map snd (rt_store w1))
      = (if ?all then [c] else [])"
  proof (cases ?all)
    case True
    have "filter (released (Some plan) (rt_store w1)) (map snd (rt_store w1)) = [c]"
      by (rule filter_values_single [of _ "j_id c"])
        (use ok(1) cget rel True in \<open>auto simp: job_store_ok_def job_get_def\<close>)
    with True show ?thesis by simp
  next
    case False
    have "\<not> released (Some plan) (rt_store w1) x" if "x \<in> set (map snd (rt_store w1))" for x
    proof -
      from that obtain k where "(k, x) \<in> set (rt_store w1)" by auto
      then have "job_get (rt_store w1) k = Some x"
        using ok(1) by (simp add: job_get_def dict_get_def job_store_ok_def)
      from rel [OF this] False show ?thesis by simp
    qed
    with False show ?thesis by (auto simp: filter_empty_conv)
  qed
  have children: "\<exists>g. job_get (rt_store w') i = Some g \<and> j_state g \<noteq> BLOCKED
        \<and> (j_state g = SUCCEEDED \<longleftrightarrow> i \<in> set (dn @ [j_id j]))" if "i \<in> set children" for i
  proof (cases "i = j_id j")
    case True
    with j c(4) that show ?thesis by (auto simp: store' get)
  next
    case False
    from run that obtain g where "job_get (rt_store w) i = Some g" "j_state g \<noteq> BLOCKED"
        "j_state g = SUCCEEDED \<longleftrightarrow> i \<in> set dn" unfolding fan_run_def by blast
    with False c(4) that show ?thesis by (auto simp: store' get)
  qed
  have "job_store_ok (rt_store w')" "join_store_ok (rt_joins w')"
    using child_success_ok [OF ok] e by simp_all
  moreover have "\<exists>rs. join_get (rt_joins w') hid = Some (run_reports rs h)
      \<and> report_ids rs = dn @ [j_id j] \<and> reported False rs = []"
    by (rule exI [of _ "rs @ [(now, j_id j, True)]"]) (simp add: now rs)
  moreover have "k = hid" if "join_get (rt_joins w') k = Some g" "jh_plan_id g = plan" for k g
    using run that by (auto simp: now fan_run_def split: if_splits)
  moreover have "job_get (rt_store w') (j_id c) = Some (if ?all then unblocked c else c)"
    by (simp add: store' cget)
  moreover have "q_items (rt_queue w') = q @ (if ?all then [unblocked c] else [])"
    using run dn unfolding queue filt by (simp add: fan_run_def w1_def)
  moreover have "k \<in> set children \<or> k = j_id c"
    if "job_get (rt_store w') k = Some g" "j_plan_id g = Some plan" for k g
    using run that j(1) by (auto simp: store' get fan_run_def split: if_splits)
  ultimately show ?thesis
    using run j(1,2) children unfolding fan_run_def w'_def [symmetric] by simp
qed

lemma fan_run_store:
  assumes run: "fan_run children plan hid h c q dn w"
    and c: "j_id c \<notin> set children"
    and j: "j_id j \<in> set children" "j_id j \<notin> set dn" "j_plan_id j = Some plan"
      "j_state j \<in> {PENDING, RUNNING}"
  shows "fan_run children plan hid h c q dn (decomp_finish j w)"
proof -
  have e: "decomp_finish j w = w\<lparr>rt_store := job_save (rt_store w) j\<rparr>"
    using j(4) by (auto simp: decomp_finish_def on_decomp_job_complete_def)
  have "j_id c \<noteq> j_id j" using c j(1) by metis
  with run j show ?thesis
    unfolding e fan_run_def by (auto simp: job_save_ok jst.get_save)
qed

definition succeeded :: "job list \<Rightarrow> string list" where
  "succeeded js = map j_id (filter (\<lambda>j. j_state j = SUCCEEDED) js)"

lemma succeeded_simps [simp]:
  "succeeded [] = []"
  "succeeded (j # js) = (if j_state j = SUCCEEDED then [j_id j] else []) @ succeeded js"
  by (simp_all add: succeeded_def)

lemma fan_run_all:
  assumes "fan_run children plan hid h c q dn w" "child_runs children plan dn (ps @ qs)"
    and "jh_plan_id h = plan" "j_state c = BLOCKED" "j_plan_id c = Some plan"
      "j_depends_on c = children" "j_id c \<notin> set children" "children \<noteq> []"
  shows "fan_run children plan hid h c q (dn @ succeeded ps) (fold decomp_finish ps w)"
  using assms(1,2)
proof (induction ps arbitrary: dn w)
  case Nil
  then show ?case by simp
next
  case (Cons j js)
  then have j: "j_id j \<in> set children" "j_id j \<notin> set dn" "j_plan_id j = Some plan"
      "j_state j \<in> {PENDING, RUNNING, SUCCEEDED}" by auto
  show ?case
  proof (cases "j_state j = SUCCEEDED")
    case True
    with Cons.IH [OF fan_run_finish [OF Cons.prems(1) assms(3-8) j(1-3)]] Cons.prems(2)
    show ?thesis by simp
  next
    case False
    with Cons.IH [OF fan_run_store [OF Cons.prems(1) assms(7) j(1-3)]] Cons.prems(2) j(4)
    show ?thesis by simp
  qed
qed

text \<open>All children have succeeded at the end of a run and not before.\<close>

lemma child_runs_done:
  assumes "child_runs children plan dn (ps @ qs)" "\<not> set children \<subseteq> set dn"
  shows "set children \<subseteq> set (dn @ succeeded ps) \<longleftrightarrow> qs = []"
  using assms
proof (induction ps arbitrary: dn)
  case Nil
  then show ?case by auto
next
  case (Cons j js)
  let ?dn = "if j_state j = SUCCEEDED then dn @ [j_id j] else dn"
  from Cons.prems(1) have run: "child_runs children plan ?dn (js @ qs)" by simp
  have all: "dn @ succeeded (j # js) = ?dn @ succeeded js" by simp
  show ?case
  proof (cases "set children \<subseteq> set ?dn")
    case False
    from Cons.IH [OF run False] show ?thesis by (simp only: all)
  next
    case True
    then have "js @ qs = []" using run by (cases "js @ qs") auto
    then show ?thesis unfolding all using True by auto
  qed
qed

lemma fan_run_start:
  assumes "fan_out plan parent w = Some (Inr (r, w1))" "inj (e_uuid w)"
    and "job_store_ok (rt_store w)" "join_store_ok (rt_joins w)"
    and "dp_subtasks plan \<noteq> []" "\<forall>s \<in> set (dp_subtasks plan). st_depends_on s = []"
    and "\<forall>k g. join_get (rt_joins w) k = Some g \<longrightarrow> jh_plan_id g \<noteq> dp_plan_id plan"
    and "\<forall>k j. job_get (rt_store w) k = Some j \<longrightarrow> j_plan_id j \<noteq> Some (dp_plan_id plan)"
  shows "\<exists>c now. let children = fo_child_job_ids r; hid = fo_join_handle_id r;
         h = new_join_handle hid parent (dp_plan_id plan) children (dp_merge_strategy plan)
               (dp_merge_agent_id plan) now
       in fan_run children (dp_plan_id plan) hid h c (q_items (rt_queue w1)) [] w1
        \<and> distinct children \<and> children \<noteq> [] \<and> j_id c = fo_continuation_job_id r
        \<and> j_state c = BLOCKED \<and> j_plan_id c = Some (dp_plan_id plan) \<and> j_depends_on c = children
        \<and> j_id c \<notin> set children"
proof -
  let ?n = "length (dp_subtasks plan)"
  let ?children = "drawn w ?n" and ?p = "dp_plan_id plan"
  let ?hid = "e_uuid w (e_uuid_n w + 2 * ?n)" and ?cont = "e_uuid w (Suc (e_uuid_n w + 2 * ?n))"
  from fan_out_InrD [OF assms(1)] assms(3,4) obtain cs c where
      spec: "fan_out_spec plan parent w r w1 cs c"
    and ok: "job_store_ok (rt_store w1)" "join_store_ok (rt_joins w1)" by blast
  obtain now where r: "fo_child_job_ids r = ?children" "fo_join_handle_id r = ?hid"
      "fo_continuation_job_id r = ?cont"
    and sj: "subtask_jobs plan parent ?children (dp_subtasks plan) cs"
    and c: "describes (continuation_dict plan parent ?cont ?hid ?children) ?cont c"
    and store: "\<And>k. job_get (rt_store w1) k = (if k = ?cont then Some c
              else (job_get (rt_store w) ++ map_of (rev (map (\<lambda>j. (j_id j, j)) cs))) k)"
    and joins: "\<And>k. join_get (rt_joins w1) k =
            (if k = ?hid then Some (new_join_handle ?hid parent ?p ?children
                 (dp_merge_strategy plan) (dp_merge_agent_id plan) now)
             else join_get (rt_joins w) k)"
    using spec unfolding fan_out_spec_def Let_def by blast
  note d = distinct_drawn [OF assms(2)]
  note ids = subtask_jobs_ids [OF sj]
  have ne: "?children \<noteq> []" using assms(5) by (metis drawn_simps(3) length_0_conv)
  have c': "j_id c = ?cont" "j_state c = BLOCKED" "j_plan_id c = Some ?p" "j_depends_on c = ?children"
    using c ne by (simp_all add: describes_def continuation_dict_def get_or_def)
  have child: "\<exists>j. job_get (rt_store w1) i = Some j \<and> j_state j = PENDING"
    if "i \<in> set ?children" for i
  proof -
    from that ids obtain k where k: "k < ?n" "k < length cs" "i = ?children ! k"
      by (metis drawn_simps(3) in_set_conv_nth)
    then have "describes (subtask_dict plan parent i (dp_subtasks plan ! k)) i (cs ! k)"
      using sj by (auto simp: subtask_jobs_def list_all2_conv_all_nth)
    then have "j_id (cs ! k) = i" "j_state (cs ! k) = PENDING"
      using assms(6) k(1) by (auto simp: describes_def subtask_dict_def get_or_def)
    with fan_out_spec_jobs [OF spec assms(2), of "cs ! k"] k(2) show ?thesis by auto
  qed
  have own: "k \<in> set ?children \<or> k = ?cont"
    if "job_get (rt_store w1) k = Some j" "j_plan_id j = Some ?p" for k j
  proof (rule ccontr)
    assume *: "\<not> (k \<in> set ?children \<or> k = ?cont)"
    then have "k \<notin> fst ` set (rev (map (\<lambda>j. (j_id j, j)) cs))"
      using ids by (metis (no_types, lifting) fst_conv image_cong image_image list.set_map set_rev)
    then have "job_get (rt_store w1) k = job_get (rt_store w) k"
      using * by (simp add: store map_add_def map_of_eq_None_iff [THEN iffD2])
    with that assms(8) show False by metis
  qed
  have "fan_run ?children ?p ?hid (new_join_handle ?hid parent ?p ?children
      (dp_merge_strategy plan) (dp_merge_agent_id plan) now) c (q_items (rt_queue w1)) [] w1"
    unfolding fan_run_def c'(1)
  proof (intro conjI)
    show "\<exists>rs. join_get (rt_joins w1) ?hid = Some (run_reports rs (new_join_handle ?hid parent ?p
        ?children (dp_merge_strategy plan) (dp_merge_agent_id plan) now))
        \<and> report_ids rs = [] \<and> reported False rs = []"
      by (rule exI [of _ "[]"]) (simp add: joins)
    show "\<forall>i \<in> set ?children. \<exists>j. job_get (rt_store w1) i = Some j \<and> j_state j \<noteq> BLOCKED
          \<and> (j_state j = SUCCEEDED \<longleftrightarrow> i \<in> set [])"
      using child by fastforce
    show "\<forall>k g. join_get (rt_joins w1) k = Some g \<longrightarrow> jh_plan_id g = ?p \<longrightarrow> k = ?hid"
      using assms(7) by (auto simp: joins)
  qed (use ok ne own in \<open>auto simp: store\<close>)
  with d(1) d(2) ne c' r show ?thesis by (auto simp: Let_def intro!: exI [of _ c] exI [of _ now])
qed

text \<open>C3: A plan with subtasks and without dependencies completes: after its fan-out under a plan id
  that no job and no handle of the stores has yet, whatever the order in which its children run and
  succeed, as long as one child has not succeeded the continuation is \<open>BLOCKED\<close>, nothing is added to
  the queue and the join handle is not \<open>COMPLETED\<close>; after the last child, the handle is \<open>COMPLETED\<close>
  and the continuation is pending and was queued exactly once.\<close>

theorem independent_plan_completes:
  assumes "fan_out plan parent w = Some (Inr (r, w1))" "inj (e_uuid w)"
    and "job_store_ok (rt_store w)" "join_store_ok (rt_joins w)"
    and "dp_subtasks plan \<noteq> []" "\<forall>s \<in> set (dp_subtasks plan). st_depends_on s = []"
    and "\<forall>k g. join_get (rt_joins w) k = Some g \<longrightarrow> jh_plan_id g \<noteq> dp_plan_id plan"
    and "\<forall>k j. job_get (rt_store w) k = Some j \<longrightarrow> j_plan_id j \<noteq> Some (dp_plan_id plan)"
    and "child_runs (fo_child_job_ids r) (dp_plan_id plan) [] (ps @ qs)"
    and "w2 = fold decomp_finish ps w1"
  shows "\<exists>c. job_get (rt_store w1) (fo_continuation_job_id r) = Some c \<and> j_state c = BLOCKED
    \<and> j_depends_on c = fo_child_job_ids r
    \<and> (if qs \<noteq> [] then
         job_get (rt_store w2) (fo_continuation_job_id r) = Some c
         \<and> q_items (rt_queue w2) = q_items (rt_queue w1)
         \<and> map_option jh_state (join_get (rt_joins w2) (fo_join_handle_id r)) = Some JWaiting
       else
         job_get (rt_store w2) (fo_continuation_job_id r) = Some (unblocked c)
         \<and> q_items (rt_queue w2) = q_items (rt_queue w1) @ [unblocked c]
         \<and> map_option jh_state (join_get (rt_joins w2) (fo_join_handle_id r)) = Some JCompleted)"
proof -
  let ?children = "fo_child_job_ids r" and ?hid = "fo_join_handle_id r" and ?p = "dp_plan_id plan"
  obtain c now where start: "fan_run ?children ?p ?hid (new_join_handle ?hid parent ?p ?children
        (dp_merge_strategy plan) (dp_merge_agent_id plan) now) c (q_items (rt_queue w1)) [] w1"
      (is "fan_run _ _ _ ?h _ _ _ _")
    and d: "distinct ?children" "?children \<noteq> []" and cid: "j_id c = fo_continuation_job_id r"
    and c: "j_state c = BLOCKED" "j_plan_id c = Some ?p" "j_depends_on c = ?children"
      "j_id c \<notin> set ?children"
    using fan_run_start [OF assms(1-8), unfolded Let_def] by blast
  have "jh_plan_id ?h = ?p" by (simp add: new_join_handle_def)
  from fan_run_all [OF start assms(9) this c d(2)]
  have run: "fan_run ?children ?p ?hid ?h c (q_items (rt_queue w1)) (succeeded ps) w2"
    by (simp add: assms(10))
  have "\<not> set ?children \<subseteq> set []" using d(2) by simp
  from child_runs_done [OF assms(9) this]
  have all: "set ?children \<subseteq> set (succeeded ps) \<longleftrightarrow> qs = []" by simp
  obtain rs where rs: "join_get (rt_joins w2) ?hid = Some (run_reports rs ?h)"
      "report_ids rs = succeeded ps" "reported False rs = []"
    using run unfolding fan_run_def by blast
  have spec: "jh_state (run_reports rs ?h) = join_spec ?children rs"
    using run_reports_lists [of ?h rs] d(1) run rs(2) by (simp add: new_join_handle_def fan_run_def)
  have first: "job_get (rt_store w1) (j_id c) = Some c" using start d(2) by (simp add: fan_run_def)
  have stored: "job_get (rt_store w2) (j_id c) = Some (if qs = [] then unblocked c else c)"
    "q_items (rt_queue w2) = q_items (rt_queue w1) @ (if qs = [] then [unblocked c] else [])"
    using run unfolding fan_run_def all by blast+
  have "jh_state (run_reports rs ?h) = (if qs = [] then JCompleted else JWaiting)"
  proof (cases "qs = []")
    case True
    then have "rs \<noteq> []" using all rs(2) d(2) by (cases rs) (auto simp: report_ids_def)
    with True all rs(2,3) show ?thesis by (simp add: spec join_spec_def)
  next
    case False
    with all rs(2) show ?thesis by (auto simp: spec join_spec_def)
  qed
  with first stored rs(1) c(1,3) show ?thesis by (auto simp: cid)
qed

subsection \<open>The continuation\<close>

lemma collect_children:
  assumes "list_all2 (\<lambda>i j. job_get s i = Some j) is js"
    and "list_all2 (\<lambda>j sid. j_subtask_id j = Some sid \<and> sid \<noteq> []) js sids"
    and "distinct sids" "set sids \<inter> set (dict_keys acc) = {}"
  shows "fold (collect_child s) is acc =
    acc @ zip sids (map (\<lambda>j. case j_result j of None \<Rightarrow> [] | Some r \<Rightarrow> json_dict r) js)"
  using assms
proof (induction "is" arbitrary: js sids acc)
  case Nil
  then show ?case by simp
next
  case (Cons i "is")
  from Cons.prems(1) obtain j js' where js: "js = j # js'" "job_get s i = Some j"
      "list_all2 (\<lambda>i j. job_get s i = Some j) is js'" by (auto simp: list_all2_Cons1)
  from Cons.prems(2) js(1) obtain sid sids' where sids: "sids = sid # sids'"
      "j_subtask_id j = Some sid" "sid \<noteq> []"
      "list_all2 (\<lambda>j sid. j_subtask_id j = Some sid \<and> sid \<noteq> []) js' sids'"
    by (auto simp: list_all2_Cons1)
  let ?res = "case j_result j of None \<Rightarrow> [] | Some r \<Rightarrow> json_dict r"
  have "dict_set acc sid ?res = acc @ [(sid, ?res)]"
    by (rule dict_set_fresh) (use Cons.prems(4) sids(1) in auto)
  then have "collect_child s i acc = acc @ [(sid, ?res)]"
    using js(2) sids(2,3) by (simp add: collect_child_def)
  with Cons.IH [OF js(3) sids(4), of "acc @ [(sid, ?res)]"] Cons.prems(3,4) sids(1) js(1)
  show ?case by auto
qed

text \<open>The continuation merges what the children produced: with every child of its handle in the
  store, it returns the merge, by the plan's strategy, of the children's results in the order of
  the plan, each under its subtask's id; if the merge fails it returns the error as an output, so
  the job does not fail.\<close>

lemma continuation_merges_children:
  assumes "join_get (rt_joins w) hid = Some h" "hid \<noteq> []"
    and "list_all2 (\<lambda>i j. job_get (rt_store w) i = Some j) (jh_child_job_ids h) js"
    and "list_all2 (\<lambda>j sid. j_subtask_id j = Some sid \<and> sid \<noteq> []) js sids" "distinct sids"
  shows "decomposition_executor registry run_agent tools
      (decomp_payload (continuation_dict plan parent jid hid children)) w =
    Inr (case execute_merge w registry (dp_merge_strategy plan)
        (zip sids (map (\<lambda>j. case j_result j of None \<Rightarrow> [] | Some r \<Rightarrow> json_dict r) js)) [] of
      Inl e \<Rightarrow> error_result (''Merge failed: '' @ exn_message e)
    | Inr m \<Rightarrow> JObj [(''output'', mr_output m), (''status'', JStr ''success''),
          (''done'', JBool True), (''merge_strategy'', JStr (dp_merge_strategy plan))])"
  using collect_children [OF assms(3-5), of "[]"] assms(1,2)
  by (simp add: decomposition_executor_def continuation_worker_def decomp_payload_def json_dict_def
      continuation_dict_def get_or_def json_opt_def dict_get_or_def dict_get_def py_str_def Let_def
      split: sum.split)

subsection \<open>Examples\<close>

definition fan_rt :: rt where
  "fan_rt = sample_rt\<lparr>e_uuid := (\<lambda>n. replicate (Suc n) (CHR ''u''))\<rparr>"

definition sample_subtask :: "string \<Rightarrow> string list \<Rightarrow> subtask_spec" where
  "sample_subtask i deps =
     \<lparr>st_id = i, st_description = ''work'', st_target_agent_id = None, st_target_skill_id = None,
      st_arguments = [], st_depends_on = deps, st_priority = 0, st_timeout_seconds = 300,
      st_max_retries = 2\<rparr>"

definition sample_dplan :: "subtask_spec list \<Rightarrow> decomposition_plan" where
  "sample_dplan ss =
     \<lparr>dp_plan_id = ''p'', dp_parent_task = ''task'', dp_subtasks = ss, dp_merge_strategy = ''concat'',
      dp_merge_agent_id = None, dp_merge_prompt_template = None, dp_metadata = []\<rparr>"

definition chain_plan :: decomposition_plan where
  "chain_plan = sample_dplan [sample_subtask ''a'' [], sample_subtask ''b'' [''a'']]"

definition flat_plan :: decomposition_plan where
  "flat_plan = sample_dplan [sample_subtask ''a'' [], sample_subtask ''b'' []]"

lemma fan_rt_simps [simp]:
  "inj (e_uuid fan_rt)" "rt_store fan_rt = []" "rt_joins fan_rt = []" "q_items (rt_queue fan_rt) = []"
  "job_store_ok []" "join_store_ok []" "job_get [] k = None" "join_get [] k = None"
  "drawn fan_rt 2 = [''u'', ''uuu'']" "e_uuid_n fan_rt = 0"
  "e_uuid fan_rt n = replicate (Suc n) (CHR ''u'')"
proof -
  show "inj (e_uuid fan_rt)"
    by (rule injI) (simp add: fan_rt_def del: replicate.simps)
  show "drawn fan_rt 2 = [''u'', ''uuu'']"
    by (simp add: drawn_def fan_rt_def sample_rt_def eval_nat_numeral)
qed (simp_all add: fan_rt_def sample_rt_def empty_queue_def job_store_ok_def join_store_ok_def
    job_get_def join_get_def)

lemma sample_plan_subtasks [simp]:
  "dp_subtasks chain_plan = [sample_subtask ''a'' [], sample_subtask ''b'' [''a'']]"
  "dp_subtasks flat_plan = [sample_subtask ''a'' [], sample_subtask ''b'' []]"
  "dp_plan_id chain_plan = ''p''" "dp_plan_id flat_plan = ''p''"
  "st_id (sample_subtask i deps) = i" "st_depends_on (sample_subtask i deps) = deps"
  by (simp_all add: chain_plan_def flat_plan_def sample_dplan_def sample_subtask_def)

lemma sample_plans_valid:
  "validate_dag (dp_subtasks chain_plan) = Some (Inr ())"
  "validate_dag (dp_subtasks flat_plan) = Some (Inr ())"
  by (simp_all add: validate_dag_def check_cycles_def build_adjacency_def dict_set_def
      dict_get_def dict_get_or_def Let_def)

text \<open>The fan-out of a two-subtask plan from \<open>fan_rt\<close>.\<close>

lemma sample_fan_out:
  assumes "validate_dag (dp_subtasks plan) = Some (Inr ())" "dp_subtasks plan = [s, t]"
  shows "\<exists>r w1 a b. fan_out plan ''parent'' fan_rt = Some (Inr (r, w1))
    \<and> fo_child_job_ids r = [''u'', ''uuu'']
    \<and> job_get (rt_store w1) ''u'' = Some a \<and> job_get (rt_store w1) ''uuu'' = Some b
    \<and> j_id a = ''u'' \<and> j_id b = ''uuu''
    \<and> j_plan_id a = Some (dp_plan_id plan) \<and> j_plan_id b = Some (dp_plan_id plan)
    \<and> (\<forall>i. CHR ''u'' \<notin> set i \<longrightarrow> job_get (rt_store w1) i = None)"
proof -
  from fan_out_effect [OF assms(1), of "''parent''" fan_rt] obtain r w1 cs c where
      f: "fan_out plan ''parent'' fan_rt = Some (Inr (r, w1))"
    and spec: "fan_out_spec plan ''parent'' fan_rt r w1 cs c" by blast
  have children: "fo_child_job_ids r = [''u'', ''uuu'']"
    and sj: "subtask_jobs plan ''parent'' [''u'', ''uuu''] [s, t] cs"
    using spec assms(2) by (simp_all add: fan_out_spec_def Let_def)
  from sj obtain a b where cs: "cs = [a, b]"
    and a: "describes (subtask_dict plan ''parent'' ''u'' s) ''u'' a"
    and b: "describes (subtask_dict plan ''parent'' ''uuu'' t) ''uuu'' b"
    by (auto simp: subtask_jobs_def list_all2_Cons1)
  have ids: "j_id a = ''u''" "j_id b = ''uuu''" using a b by (simp_all add: describes_def)
  have "job_get (rt_store w1) ''u'' = Some a" "job_get (rt_store w1) ''uuu'' = Some b"
    using fan_out_spec_jobs [OF spec fan_rt_simps(1)] cs ids by fastforce+
  moreover have "job_get (rt_store w1) i = None" if "CHR ''u'' \<notin> set i" for i
    using spec assms(2) that ids by (auto simp: fan_out_spec_def Let_def cs map_add_def)
  ultimately show ?thesis
    using f children ids a b
    by (intro exI [of _ r] exI [of _ w1] exI [of _ a] exI [of _ b])
      (simp add: describes_def subtask_dict_def)
qed

theorem dependent_subtask_never_released_witness:
  "\<exists>r w1 a. fan_out chain_plan ''parent'' fan_rt = Some (Inr (r, w1))
    \<and> job_get (rt_store w1) ''u'' = Some a
    \<and> (\<exists>j. job_get (rt_store (decomp_finish (a\<lparr>j_state := SUCCEEDED\<rparr>) w1)) ''uuu'' = Some j
        \<and> j_state j \<in> {BLOCKED, FAILED})"
proof -
  from sample_fan_out [OF sample_plans_valid(1)] obtain r w1 a b where
      f: "fan_out chain_plan ''parent'' fan_rt = Some (Inr (r, w1))"
    and "fo_child_job_ids r = [''u'', ''uuu'']" and a: "job_get (rt_store w1) ''u'' = Some a"
    and "j_id a = ''u''" "\<forall>i. CHR ''u'' \<notin> set i \<longrightarrow> job_get (rt_store w1) i = None"
    by force
  then have "(\<exists>j. job_get (rt_store (decomp_finish (a\<lparr>j_state := SUCCEEDED\<rparr>) w1)) ''uuu'' = Some j
        \<and> j_state j \<in> {BLOCKED, FAILED})"
    using dependent_subtask_never_released
      [OF f, where k = 1 and i = "''uuu''" and js = "[a\<lparr>j_state := SUCCEEDED\<rparr>]" and ?w2.0 = "decomp_finish (a\<lparr>j_state := SUCCEEDED\<rparr>) w1"]
    by simp
  with f a show ?thesis by blast
qed

theorem independent_plan_completes_witness:
  "\<exists>r w1 a b. fan_out flat_plan ''parent'' fan_rt = Some (Inr (r, w1))
    \<and> job_get (rt_store w1) ''u'' = Some a \<and> job_get (rt_store w1) ''uuu'' = Some b
    \<and> map_option jh_state (join_get (rt_joins (decomp_finish (a\<lparr>j_state := SUCCEEDED\<rparr>)
          (decomp_finish (b\<lparr>j_state := SUCCEEDED\<rparr>) w1))) (fo_join_handle_id r)) = Some JCompleted"
proof -
  from sample_fan_out [OF sample_plans_valid(2)] obtain r w1 a b where
      f: "fan_out flat_plan ''parent'' fan_rt = Some (Inr (r, w1))"
    and r: "fo_child_job_ids r = [''u'', ''uuu'']"
    and ab: "job_get (rt_store w1) ''u'' = Some a" "job_get (rt_store w1) ''uuu'' = Some b"
      "j_id a = ''u''" "j_id b = ''uuu''" "j_plan_id a = Some ''p''" "j_plan_id b = Some ''p''"
    by force
  have "child_runs (fo_child_job_ids r) (dp_plan_id flat_plan) []
      ([b\<lparr>j_state := SUCCEEDED\<rparr>, a\<lparr>j_state := SUCCEEDED\<rparr>] @ [])"
    using r ab by simp
  from independent_plan_completes [OF f _ _ _ _ _ _ _ this refl]
  have "map_option jh_state (join_get (rt_joins (decomp_finish (a\<lparr>j_state := SUCCEEDED\<rparr>)
          (decomp_finish (b\<lparr>j_state := SUCCEEDED\<rparr>) w1))) (fo_join_handle_id r)) = Some JCompleted"
    by auto
  with f ab show ?thesis by blast
qed

text \<open>A handle over one child that failed; its fan-in succeeds.\<close>

definition failed_handle :: join_handle where
  "failed_handle = run_reports [(5, ''c'', False)]
     (new_join_handle ''h'' ''parent'' ''p'' [''c''] ''concat'' None 0)"

lemma failed_handle_simps [simp]:
  "jh_state failed_handle = JFailed" "jh_id failed_handle = ''h''"
  "jh_merge_strategy failed_handle = ''concat''" "jh_child_job_ids failed_handle = [''c'']"
  "jh_plan_id failed_handle = ''p''"
  by (simp_all add: failed_handle_def new_join_handle_def mark_child_failed_def jh_advance_def
      is_ready_def all_succeeded_def Let_def)

definition failed_rt :: rt where
  "failed_rt = fan_rt\<lparr>rt_joins := [(''h'', failed_handle)]\<rparr>"

lemma failed_rt_simps [simp]:
  "join_store_ok (rt_joins failed_rt)" "join_get (rt_joins failed_rt) ''h'' = Some failed_handle"
  by (simp_all add: failed_rt_def join_store_ok_def join_get_def dict_get_def)

lemma fan_in_after_reports_example:
  "case fan_in [] ''h'' [] None failed_rt of
     Inl _ \<Rightarrow> False
   | Inr (m, w) \<Rightarrow> map_option jh_state (join_get (rt_joins w) ''h'') = Some JCompleted"
proof -
  have "execute_merge failed_rt [] ''concat'' [] [] = Inr (new_merge_result (JStr []) ''concat'' [])"
    by (simp add: execute_merge_def merge_concat_def join_with_def)
  then show ?thesis
    using fan_in_after_reports [where w = failed_rt and children = "[''c'']" and rs = "[(5, ''c'', False)]"
        and hid = "''h''" and parent = "''parent''" and plan = "''p''" and strategy = "''concat''"
        and agent = None and now = 0 and registry = "[]" and results = "[]" and ctx = None,
        OF _ _ _ _ failed_handle_def]
    by (auto simp: report_ids_def)
qed

lemma cancel_leaves_jobs_example:
  "fst (cancel ''p'' failed_rt) = [''c'']"
  using cancel_leaves_jobs [OF failed_rt_simps(1), of "''p''"] by (simp add: failed_rt_def)

definition done_rt :: rt where
  "done_rt = failed_rt\<lparr>rt_store := [(''c'', (sample_job ''c'')\<lparr>j_subtask_id := Some ''s'',
      j_result := Some (JObj [(''output'', JStr ''hi'')])\<rparr>)]\<rparr>"

lemma continuation_merges_children_example:
  "decomposition_executor [] (\<lambda>_ _. Inr JNull) None
      (decomp_payload (continuation_dict flat_plan ''parent'' ''j'' ''h'' [''c''])) done_rt =
    Inr (JObj [(''output'', JStr (''## s'' @ newline @ ''hi'')), (''status'', JStr ''success''),
          (''done'', JBool True), (''merge_strategy'', JStr ''concat'')])"
proof -
  let ?j = "(sample_job ''c'')\<lparr>j_subtask_id := Some ''s'',
      j_result := Some (JObj [(''output'', JStr ''hi'')])\<rparr>"
  have 1: "join_get (rt_joins done_rt) ''h'' = Some failed_handle" by (simp add: done_rt_def)
  have 2: "list_all2 (\<lambda>i j. job_get (rt_store done_rt) i = Some j) (jh_child_job_ids failed_handle) [?j]"
    by (simp add: done_rt_def job_get_def dict_get_def)
  have 3: "execute_merge done_rt [] ''concat'' [(''s'', [(''output'', JStr ''hi'')])] [] =
      Inr (new_merge_result (JStr (''## s'' @ newline @ ''hi'')) ''concat'' [(''s'', JStr ''hi'')])"
    by (simp add: execute_merge_def merge_concat_def output_or_result_def dict_get_or_def dict_get_def
        summarize_def summarize_text_def join_with_def py_str_def)
  have 4: "dp_merge_strategy flat_plan = ''concat''" by (simp add: flat_plan_def sample_dplan_def)
  show ?thesis
    using continuation_merges_children [OF 1 _ 2, of "[''s'']" "[]" "\<lambda>_ _. Inr JNull" None flat_plan
        "''parent''" "''j''" "[''c'']"] 3 4
    by (simp add: json_dict_def new_merge_result_def)
qed

end
