(* ===== verification/Supervisor.thy ===== *)
theory Supervisor
  imports Prelude
begin

text \<open>
  The supervisor of the worker pool: \<^verbatim>\<open>platform/supervisor/supervisor_loop.py\<close>, and the cycle the
  pool drives it with, \<^verbatim>\<open>platform/runtime/worker_pool/pool.py\<close>.  Times are seconds.
  \<^item> A Python set is iterated in an unspecified order; a set argument is a list of distinct ids in
    that order;
  \<^item> logging, metrics, traces and asynchronous alerts are left out: nothing reads them back;
  \<^item> worker threads are not modelled: the supervisor never touches them.
\<close>

subsection \<open>Data\<close>

definition HEALTHY :: string where "HEALTHY = ''healthy''"
definition DEGRADED :: string where "DEGRADED = ''degraded''"
definition UNRESPONSIVE :: string where "UNRESPONSIVE = ''unresponsive''"

lemmas status_defs = HEALTHY_def DEGRADED_def UNRESPONSIVE_def

record worker_heartbeat =
  wh_worker_id :: string
  wh_timestamp :: rat
  wh_status :: string
  wh_job_id :: "string option"

record worker_health =
  hl_worker_id :: string
  hl_status :: string
  hl_last_seen :: rat
  hl_reason :: "string option"

record worker_restart_event =
  wr_event :: string
  wr_old_worker_id :: string
  wr_new_worker_id :: string
  wr_reason :: string
  wr_timestamp :: string

definition restart_event_to_dict :: "worker_restart_event \<Rightarrow> json pydict" where
  "restart_event_to_dict ev =
     [(''event'', JStr (wr_event ev)), (''old_worker_id'', JStr (wr_old_worker_id ev)),
      (''new_worker_id'', JStr (wr_new_worker_id ev)), (''reason'', JStr (wr_reason ev)),
      (''timestamp'', JStr (wr_timestamp ev))]"

record supervisor_escalation =
  se_event :: string
  se_severity :: string
  se_timestamp :: string
  se_reason :: string

definition supervisor_escalation_to_dict :: "supervisor_escalation \<Rightarrow> json pydict" where
  "supervisor_escalation_to_dict ev =
     [(''event'', JStr (se_event ev)), (''severity'', JStr (se_severity ev)),
      (''timestamp'', JStr (se_timestamp ev)), (''reason'', JStr (se_reason ev))]"

record supervisor_config =
  sc_heartbeat_timeout :: rat
  sc_check_interval :: rat
  sc_pool_concurrency :: int
  sc_max_restarts :: int
  sc_restart_window :: rat
  sc_max_worker_restarts :: int

definition default_supervisor_config :: supervisor_config where
  "default_supervisor_config =
     \<lparr>sc_heartbeat_timeout = 30, sc_check_interval = 5, sc_pool_concurrency = 1,
      sc_max_restarts = 5, sc_restart_window = 60, sc_max_worker_restarts = 3\<rparr>"

record supervisor_decision =
  sd_restarts :: "worker_restart_event list"
  sd_escalations :: "supervisor_escalation list"
  sd_health_map :: "worker_health pydict"
  sd_pool_full :: bool
  sd_pool_worker_ids :: "string list"
  sd_active_unhealthy :: nat

record supervisor_loop =
  sl_config :: supervisor_config
  sl_heartbeats :: "worker_heartbeat pydict"
  sl_restart_count :: int
  sl_restart_timestamps :: "rat list"
  sl_worker_restart_counts :: "int pydict"
  sl_next_worker_id :: nat

definition new_supervisor_loop :: "supervisor_config \<Rightarrow> supervisor_loop" where
  "new_supervisor_loop cfg =
     \<lparr>sl_config = cfg, sl_heartbeats = [], sl_restart_count = 0, sl_restart_timestamps = [],
      sl_worker_restart_counts = [], sl_next_worker_id = 0\<rparr>"

definition iso_timestamp :: "'a env_scheme \<Rightarrow> rat \<Rightarrow> string" where
  "iso_timestamp e ts = e_strftime e ''%Y-%m-%dT%H:%M:%SZ'' ts"

subsection \<open>Heartbeats\<close>

definition collect_heartbeat :: "worker_heartbeat \<Rightarrow> supervisor_loop \<Rightarrow> supervisor_loop" where
  "collect_heartbeat hb s =
     (if (case dict_get (sl_heartbeats s) (wh_worker_id hb) of
            None \<Rightarrow> True | Some existing \<Rightarrow> wh_timestamp hb > wh_timestamp existing)
      then s\<lparr>sl_heartbeats := dict_set (sl_heartbeats s) (wh_worker_id hb) hb\<rparr>
      else s)"

definition collect_heartbeats :: "worker_heartbeat list \<Rightarrow> supervisor_loop \<Rightarrow> supervisor_loop" where
  "collect_heartbeats hbs s = fold collect_heartbeat hbs s"

definition get_heartbeat :: "supervisor_loop \<Rightarrow> string \<Rightarrow> worker_heartbeat option" where
  "get_heartbeat s wid = dict_get (sl_heartbeats s) wid"

definition remove_worker :: "string \<Rightarrow> supervisor_loop \<Rightarrow> supervisor_loop" where
  "remove_worker wid s =
     s\<lparr>sl_heartbeats := dict_del (sl_heartbeats s) wid,
       sl_worker_restart_counts := dict_del (sl_worker_restart_counts s) wid\<rparr>"

definition evaluate_health ::
  "'a env_scheme \<Rightarrow> supervisor_loop \<Rightarrow> string \<Rightarrow> rat \<Rightarrow> worker_health"
where
  "evaluate_health e s wid now =
     (case dict_get (sl_heartbeats s) wid of
        None \<Rightarrow> \<lparr>hl_worker_id = wid, hl_status = UNRESPONSIVE, hl_last_seen = 0,
                 hl_reason = Some ''No heartbeat ever received''\<rparr>
      | Some hb \<Rightarrow>
          let elapsed = now - wh_timestamp hb; limit = sc_heartbeat_timeout (sl_config s)
          in if elapsed > limit then
               \<lparr>hl_worker_id = wid, hl_status = UNRESPONSIVE, hl_last_seen = wh_timestamp hb,
                hl_reason = Some (''Last heartbeat '' @ e_float_fmt e ''.1f'' elapsed
                  @ ''s ago (timeout '' @ e_float_fmt e ''.0f'' limit @ ''s)'')\<rparr>
             else if wh_status hb = DEGRADED then
               \<lparr>hl_worker_id = wid, hl_status = DEGRADED, hl_last_seen = wh_timestamp hb,
                hl_reason = Some ''Worker reported degraded status''\<rparr>
             else
               \<lparr>hl_worker_id = wid, hl_status = HEALTHY, hl_last_seen = wh_timestamp hb,
                hl_reason = Some ''ok''\<rparr>)"

definition missing_health :: "string \<Rightarrow> worker_health" where
  "missing_health wid =
     \<lparr>hl_worker_id = wid, hl_status = UNRESPONSIVE, hl_last_seen = 0,
      hl_reason = Some ''Worker in active set but no heartbeat''\<rparr>"

definition evaluate_all_health ::
  "'a env_scheme \<Rightarrow> supervisor_loop \<Rightarrow> rat \<Rightarrow> string list option \<Rightarrow> worker_health pydict"
where
  "evaluate_all_health e s now active =
     (let m = fold (\<lambda>wid m. dict_set m wid (evaluate_health e s wid now))
                (dict_keys (sl_heartbeats s)) []
      in case active of
           None \<Rightarrow> m
         | Some ids \<Rightarrow>
             fold (\<lambda>wid m. if dict_get m wid = None then dict_set m wid (missing_health wid) else m)
               ids m)"

subsection \<open>Restarts\<close>

definition fresh_worker_id :: "supervisor_loop \<Rightarrow> string \<times> supervisor_loop" where
  "fresh_worker_id s =
     (''worker-'' @ int_str (int (sl_next_worker_id s)),
      s\<lparr>sl_next_worker_id := Suc (sl_next_worker_id s)\<rparr>)"

definition schedule_restart ::
  "'a env_scheme \<Rightarrow> string \<Rightarrow> string \<Rightarrow> rat \<Rightarrow> supervisor_loop
   \<Rightarrow> worker_restart_event \<times> supervisor_loop"
where
  "schedule_restart e wid reason ts s =
     (let (new_id, s) = fresh_worker_id s;
          counts = sl_worker_restart_counts s;
          s = s\<lparr>sl_worker_restart_counts := dict_set counts wid (dict_get_or counts wid 0 + 1)\<rparr>;
          s = remove_worker wid s
      in (\<lparr>wr_event = ''worker_restarted'', wr_old_worker_id = wid, wr_new_worker_id = new_id,
           wr_reason = reason, wr_timestamp = iso_timestamp e ts\<rparr>, s))"

fun restart_unhealthy ::
  "'a env_scheme \<Rightarrow> rat \<Rightarrow> (string \<times> worker_health) list \<Rightarrow> supervisor_loop
   \<Rightarrow> worker_restart_event list \<times> supervisor_loop"
where
  "restart_unhealthy e ts [] s = ([], s)"
| "restart_unhealthy e ts ((wid, health) # rest) s =
     (let (ev, s) = schedule_restart e wid (hl_status health) ts s;
          (evs, s) = restart_unhealthy e ts rest s
      in (ev # evs, s))"

text \<open>The loop over \<open>range(missing_after_restart)\<close>, empty for a negative bound.\<close>

fun fill_slots ::
  "'a env_scheme \<Rightarrow> rat \<Rightarrow> nat \<Rightarrow> supervisor_loop \<Rightarrow> worker_restart_event list \<times> supervisor_loop"
where
  "fill_slots e ts 0 s = ([], s)"
| "fill_slots e ts (Suc n) s =
     (let (new_id, s) = fresh_worker_id s;
          ev = \<lparr>wr_event = ''worker_restarted'', wr_old_worker_id = [], wr_new_worker_id = new_id,
                wr_reason = ''pool_maintenance'', wr_timestamp = iso_timestamp e ts\<rparr>;
          (evs, s) = fill_slots e ts n s
      in (ev # evs, s))"

definition record_restarts :: "rat \<Rightarrow> supervisor_loop \<Rightarrow> supervisor_loop" where
  "record_restarts ts s =
     (let cutoff = ts - sc_restart_window (sl_config s)
      in s\<lparr>sl_restart_count := sl_restart_count s + 1,
           sl_restart_timestamps :=
             filter (\<lambda>t. t \<ge> cutoff) (sl_restart_timestamps s @ [ts])\<rparr>)"

definition escalation :: "'a env_scheme \<Rightarrow> rat \<Rightarrow> string \<Rightarrow> supervisor_escalation" where
  "escalation e ts reason =
     \<lparr>se_event = ''supervisor_escalation'', se_severity = ''critical'',
      se_timestamp = iso_timestamp e ts, se_reason = reason\<rparr>"

definition check_escalation ::
  "'a env_scheme \<Rightarrow> rat \<Rightarrow> supervisor_loop \<Rightarrow> supervisor_escalation list"
where
  "check_escalation e ts s =
     (let cfg = sl_config s; recent = int (length (sl_restart_timestamps s))
      in (if recent > sc_max_restarts cfg
          then [escalation e ts (''Burst restart: '' @ int_str recent @ '' restarts in ''
                  @ e_float_fmt e ''.0f'' (sc_restart_window cfg) @ ''s (max ''
                  @ int_str (sc_max_restarts cfg) @ '')'')]
          else [])
       @ map (\<lambda>(wid, count). escalation e ts (''Worker '' @ wid @ '' restarted '' @ int_str count
                @ '' times (max '' @ int_str (sc_max_worker_restarts cfg) @ '')''))
           (filter (\<lambda>(_, count). count > sc_max_worker_restarts cfg)
             (sl_worker_restart_counts s)))"

subsection \<open>The evaluation cycle\<close>

definition is_unhealthy :: "worker_health \<Rightarrow> bool" where
  "is_unhealthy h \<longleftrightarrow> hl_status h = UNRESPONSIVE \<or> hl_status h = DEGRADED"

definition global_escalation ::
  "'a env_scheme \<Rightarrow> rat \<Rightarrow> string list option \<Rightarrow> worker_health pydict
   \<Rightarrow> supervisor_escalation list"
where
  "global_escalation e ts active health_map =
     (case active of
        None \<Rightarrow> []
      | Some ids \<Rightarrow>
          if length ids > 0
             \<and> length (filter (\<lambda>(_, h). hl_status h = HEALTHY) health_map) = 0
          then [escalation e ts (''All '' @ int_str (int (length ids))
                  @ '' workers unhealthy; heartbeats stopped globally'')]
          else [])"

definition evaluate ::
  "'a env_scheme \<Rightarrow> rat \<Rightarrow> string list option \<Rightarrow> supervisor_loop
   \<Rightarrow> supervisor_decision \<times> supervisor_loop"
where
  "evaluate e ts active s =
     (let health_map = evaluate_all_health e s ts active;
          unhealthy = filter (\<lambda>(_, h). is_unhealthy h) health_map;
          (restarts, s) = restart_unhealthy e ts unhealthy s;
          concurrency = sc_pool_concurrency (sl_config s);
          (fills, s, pool_ids, pool_full) =
            (case active of
               Some ids \<Rightarrow>
                 let missing = concurrency - int (length ids);
                     (fills, s) = fill_slots e ts (nat (missing + int (length unhealthy))) s
                 in (fills, s, ids, missing \<le> 0)
             | None \<Rightarrow> ([], s, dict_keys health_map, int (length health_map) \<ge> concurrency));
          restarts = restarts @ fills;
          s = (if restarts \<noteq> [] then record_restarts ts s else s);
          burst = (if restarts \<noteq> [] then check_escalation e ts s else []);
          global = global_escalation e ts active health_map
      in (\<lparr>sd_restarts = restarts, sd_escalations = burst @ global, sd_health_map = health_map,
           sd_pool_full = pool_full, sd_pool_worker_ids = pool_ids,
           sd_active_unhealthy = length unhealthy\<rparr>, s))"

subsection \<open>The pool's cycle\<close>

text \<open>\<open>ids\<close> are the numbers of the pool's worker threads.\<close>

definition worker_name :: "nat \<Rightarrow> string" where
  "worker_name n = ''worker-'' @ int_str (int n)"

definition apply_decision :: "supervisor_decision \<Rightarrow> supervisor_loop \<Rightarrow> supervisor_loop" where
  "apply_decision d s =
     fold (\<lambda>r s. if wr_old_worker_id r \<noteq> [] then remove_worker (wr_old_worker_id r) s else s)
       (sd_restarts d) s"

definition run_supervisor_cycle ::
  "'a env_scheme \<Rightarrow> nat list \<Rightarrow> rat \<Rightarrow> supervisor_loop \<Rightarrow> supervisor_decision \<times> supervisor_loop"
where
  "run_supervisor_cycle e ids now s =
     (let s = fold (\<lambda>i. collect_heartbeat \<lparr>wh_worker_id = worker_name i, wh_timestamp = now,
                wh_status = ''healthy'', wh_job_id = None\<rparr>) ids s;
          (d, s) = evaluate e now (Some (map worker_name ids)) s
      in (d, apply_decision d s))"

subsection \<open>What the loops do\<close>

lemma worker_name_inj: "worker_name m = worker_name n \<Longrightarrow> m = n"
  by (auto simp: worker_name_def int_str_def dest: nat_digits_inj)

definition names_from :: "nat \<Rightarrow> nat \<Rightarrow> string list" where
  "names_from n k = map worker_name [n..<n + k]"

lemma names_from_simps [simp]:
  "names_from n 0 = []"
  "names_from n (Suc k) = worker_name n # names_from (Suc n) k"
  "length (names_from n k) = k"
  by (simp_all add: names_from_def upt_conv_Cons del: upt_Suc)

lemma names_from_append: "names_from n (k + m) = names_from n k @ names_from (n + k) m"
  using upt_add_eq_append [of n "n + k" m] by (simp add: names_from_def add.assoc)

lemma names_from_range: "set (names_from n k) = worker_name ` {n..<n + k}"
  by (auto simp: names_from_def)

lemma distinct_names_from: "distinct (names_from n k)"
  unfolding names_from_def distinct_map by (auto simp: inj_on_def dest: worker_name_inj)

lemma schedule_restart_eq:
  "schedule_restart e wid reason ts s =
     (\<lparr>wr_event = ''worker_restarted'', wr_old_worker_id = wid,
       wr_new_worker_id = worker_name (sl_next_worker_id s), wr_reason = reason,
       wr_timestamp = iso_timestamp e ts\<rparr>,
      s\<lparr>sl_next_worker_id := Suc (sl_next_worker_id s),
        sl_heartbeats := dict_del (sl_heartbeats s) wid,
        sl_worker_restart_counts := dict_del (sl_worker_restart_counts s) wid\<rparr>)"
proof -
  have "dict_del (dict_set d wid v) wid = dict_del d wid" for d :: "int pydict" and v
    unfolding dict_del_def dict_set_def by (induction d) auto
  then show ?thesis
    by (simp add: schedule_restart_def fresh_worker_id_def remove_worker_def worker_name_def Let_def)
qed

lemma restart_unhealthy_effect:
  "restart_unhealthy e ts us s = (evs, s') \<Longrightarrow>
     map wr_old_worker_id evs = map fst us
     \<and> map wr_new_worker_id evs = names_from (sl_next_worker_id s) (length us)
     \<and> map wr_reason evs = map (hl_status \<circ> snd) us
     \<and> s' = s\<lparr>sl_next_worker_id := sl_next_worker_id s + length us,
          sl_heartbeats := fold (\<lambda>wid d. dict_del d wid) (map fst us) (sl_heartbeats s),
          sl_worker_restart_counts :=
            fold (\<lambda>wid d. dict_del d wid) (map fst us) (sl_worker_restart_counts s)\<rparr>"
proof (induction us arbitrary: s evs s')
  case Nil
  then show ?case by simp
next
  case (Cons u us)
  obtain wid h where u: "u = (wid, h)" by (cases u)
  define s1 where "s1 = snd (schedule_restart e wid (hl_status h) ts s)"
  obtain evs2 where rest: "restart_unhealthy e ts us s1 = (evs2, s')"
      and evs: "evs = fst (schedule_restart e wid (hl_status h) ts s) # evs2"
    using Cons.prems by (auto simp: u s1_def split: prod.splits)
  from Cons.IH [OF rest] show ?case by (simp add: evs u s1_def schedule_restart_eq)
qed

lemma fill_slots_effect:
  "fill_slots e ts n s = (evs, s') \<Longrightarrow>
     map wr_old_worker_id evs = replicate n [] \<and> length evs = n
     \<and> map wr_new_worker_id evs = names_from (sl_next_worker_id s) n
     \<and> s' = s\<lparr>sl_next_worker_id := sl_next_worker_id s + n\<rparr>"
proof (induction n arbitrary: s evs s')
  case 0
  then show ?case by simp
next
  case (Suc n)
  define s1 where "s1 = s\<lparr>sl_next_worker_id := Suc (sl_next_worker_id s)\<rparr>"
  obtain evs2 where rest: "fill_slots e ts n s1 = (evs2, s')"
      and evs: "evs = \<lparr>wr_event = ''worker_restarted'', wr_old_worker_id = [],
          wr_new_worker_id = worker_name (sl_next_worker_id s),
          wr_reason = ''pool_maintenance'', wr_timestamp = iso_timestamp e ts\<rparr> # evs2"
    using Suc.prems by (auto simp: s1_def fresh_worker_id_def worker_name_def split: prod.splits)
  from Suc.IH [OF rest] show ?case by (simp add: evs s1_def)
qed

text \<open>A cycle in closed form.\<close>

definition unhealthy_of ::
  "'a env_scheme \<Rightarrow> supervisor_loop \<Rightarrow> rat \<Rightarrow> string list option \<Rightarrow> (string \<times> worker_health) list"
where
  "unhealthy_of e s ts active = filter (\<lambda>(_, h). is_unhealthy h) (evaluate_all_health e s ts active)"

definition slots_to_fill :: "'a env_scheme \<Rightarrow> supervisor_loop \<Rightarrow> rat \<Rightarrow> string list option \<Rightarrow> nat" where
  "slots_to_fill e s ts active =
     (case active of
        None \<Rightarrow> 0
      | Some ids \<Rightarrow> nat (sc_pool_concurrency (sl_config s) - int (length ids)
                        + int (length (unhealthy_of e s ts active))))"

lemma evaluate_parts:
  assumes "evaluate e ts active s = (d, s')"
  obtains evs s1 fills s2 where
    "restart_unhealthy e ts (unhealthy_of e s ts active) s = (evs, s1)"
    "fill_slots e ts (slots_to_fill e s ts active) s1 = (fills, s2)"
    "sd_restarts d = evs @ fills"
    "s' = (if evs @ fills \<noteq> [] then record_restarts ts s2 else s2)"
    "sd_health_map d = evaluate_all_health e s ts active"
    "sd_active_unhealthy d = length (unhealthy_of e s ts active)"
    "sd_escalations d = (if evs @ fills \<noteq> [] then check_escalation e ts s' else [])
       @ global_escalation e ts active (evaluate_all_health e s ts active)"
proof -
  define us where "us = unhealthy_of e s ts active"
  define k where "k = slots_to_fill e s ts active"
  obtain evs s1 where r: "restart_unhealthy e ts us s = (evs, s1)" by (metis surj_pair)
  obtain fills s2 where f: "fill_slots e ts k s1 = (fills, s2)" by (metis surj_pair)
  have cfg: "sl_config s1 = sl_config s" using restart_unhealthy_effect [OF r] by simp
  obtain pool_ids pool_full where p: "(case active of
               Some ids \<Rightarrow>
                 let missing = sc_pool_concurrency (sl_config s1) - int (length ids);
                     (fills, s) = fill_slots e ts (nat (missing + int (length us))) s1
                 in (fills, s, ids, missing \<le> 0)
             | None \<Rightarrow> ([], s1, dict_keys (evaluate_all_health e s ts active),
                 int (length (evaluate_all_health e s ts active)) \<ge> sc_pool_concurrency (sl_config s1)))
      = (fills, s2, pool_ids, pool_full)"
  proof (cases active)
    case None
    with f that show ?thesis by (simp add: k_def slots_to_fill_def)
  next
    case (Some ids)
    then have "k = nat (sc_pool_concurrency (sl_config s1) - int (length ids) + int (length us))"
      by (simp add: k_def slots_to_fill_def us_def cfg)
    with f Some that show ?thesis by (simp add: Let_def)
  qed
  have "(d, s') = (\<lparr>sd_restarts = evs @ fills,
      sd_escalations = (if evs @ fills \<noteq> []
          then check_escalation e ts (if evs @ fills \<noteq> [] then record_restarts ts s2 else s2)
          else []) @ global_escalation e ts active (evaluate_all_health e s ts active),
      sd_health_map = evaluate_all_health e s ts active, sd_pool_full = pool_full,
      sd_pool_worker_ids = pool_ids, sd_active_unhealthy = length us\<rparr>,
      if evs @ fills \<noteq> [] then record_restarts ts s2 else s2)"
    unfolding assms [symmetric] evaluate_def Let_def us_def [unfolded unhealthy_of_def, symmetric]
      r prod.case p [unfolded Let_def] ..
  then show ?thesis
    using that r f unfolding us_def k_def by simp
qed

subsection \<open>Runs of the supervisor\<close>

datatype supervisor_op =
    OpHeartbeat worker_heartbeat
  | OpEvaluate rat "string list option"
  | OpRemove string

fun sup_run ::
  "'a env_scheme \<Rightarrow> supervisor_op list \<Rightarrow> supervisor_loop
   \<Rightarrow> supervisor_decision list \<times> supervisor_loop"
where
  "sup_run e [] s = ([], s)"
| "sup_run e (OpHeartbeat hb # ops) s = sup_run e ops (collect_heartbeat hb s)"
| "sup_run e (OpEvaluate ts active # ops) s =
     (let (d, s) = evaluate e ts active s; (ds, s) = sup_run e ops s in (d # ds, s))"
| "sup_run e (OpRemove wid # ops) s = sup_run e ops (remove_worker wid s)"

lemma fold_dict_del_empty [simp]: "fold (\<lambda>wid d. dict_del d wid) ks [] = []"
  by (induction ks) (simp_all add: dict_del_def)

lemma record_restarts_length:
  "length (sl_restart_timestamps (record_restarts ts s)) \<le> Suc (length (sl_restart_timestamps s))"
  unfolding record_restarts_def Let_def
  using length_filter_le [of "\<lambda>t. t \<ge> ts - sc_restart_window (sl_config s)"
      "sl_restart_timestamps s @ [ts]"]
  by (simp del: filter_append)

lemma new_supervisor_loop_simps [simp]:
  "sl_worker_restart_counts (new_supervisor_loop cfg) = []"
  "sl_restart_timestamps (new_supervisor_loop cfg) = []"
  "sl_heartbeats (new_supervisor_loop cfg) = []" "sl_config (new_supervisor_loop cfg) = cfg"
  by (simp_all add: new_supervisor_loop_def)

text \<open>What one cycle does to the counters.\<close>

lemma evaluate_effect:
  assumes "evaluate e ts active s = (d, s')"
  shows "sl_config s' = sl_config s"
    and "map wr_old_worker_id (sd_restarts d) =
      map fst (unhealthy_of e s ts active) @ replicate (slots_to_fill e s ts active) []"
    and "map wr_new_worker_id (sd_restarts d) =
      names_from (sl_next_worker_id s) (length (sd_restarts d))"
    and "sl_next_worker_id s' = sl_next_worker_id s + length (sd_restarts d)"
    and "sl_worker_restart_counts s = [] \<Longrightarrow> sl_worker_restart_counts s' = []"
    and "length (sl_restart_timestamps s') \<le>
      length (sl_restart_timestamps s) + (if sd_restarts d = [] then 0 else 1)"
proof -
  obtain evs s1 fills s2 where
      r: "restart_unhealthy e ts (unhealthy_of e s ts active) s = (evs, s1)"
    and f: "fill_slots e ts (slots_to_fill e s ts active) s1 = (fills, s2)"
    and d: "sd_restarts d = evs @ fills"
      "s' = (if evs @ fills \<noteq> [] then record_restarts ts s2 else s2)"
    by (rule evaluate_parts [OF assms])
  note r' = restart_unhealthy_effect [OF r] and f' = fill_slots_effect [OF f]
  have len: "length evs = length (unhealthy_of e s ts active)" using r' by (metis length_map)
  show "sl_config s' = sl_config s" using r' f' by (simp add: d record_restarts_def Let_def)
  show "map wr_old_worker_id (sd_restarts d) =
      map fst (unhealthy_of e s ts active) @ replicate (slots_to_fill e s ts active) []"
    using r' f' by (simp add: d)
  show "map wr_new_worker_id (sd_restarts d) =
      names_from (sl_next_worker_id s) (length (sd_restarts d))"
    using r' f' len by (simp add: d names_from_append)
  show "sl_next_worker_id s' = sl_next_worker_id s + length (sd_restarts d)"
    using r' f' len by (simp add: d record_restarts_def Let_def)
  show "sl_worker_restart_counts s' = []" if "sl_worker_restart_counts s = []"
    using r' f' that by (simp add: d record_restarts_def Let_def)
  have "sl_restart_timestamps s2 = sl_restart_timestamps s" using r' f' by simp
  then show "length (sl_restart_timestamps s') \<le>
      length (sl_restart_timestamps s) + (if sd_restarts d = [] then 0 else 1)"
    using record_restarts_length [of ts s2] by (auto simp: d)
qed

lemma sup_run_ids:
  "sup_run e ops s = (ds, s') \<Longrightarrow>
     concat (map (\<lambda>d. map wr_new_worker_id (sd_restarts d)) ds) =
       names_from (sl_next_worker_id s) (sl_next_worker_id s' - sl_next_worker_id s)
     \<and> sl_next_worker_id s \<le> sl_next_worker_id s'"
proof (induction e ops s arbitrary: ds s' rule: sup_run.induct)
  case (1 e s)
  then show ?case by simp
next
  case (2 e hb ops s)
  then show ?case by (simp add: collect_heartbeat_def split: if_splits)
next
  case (3 e ts active ops s)
  obtain d s1 where ev: "evaluate e ts active s = (d, s1)" by (metis surj_pair)
  with 3(2) obtain ds' where rest: "sup_run e ops s1 = (ds', s')" and ds: "ds = d # ds'"
    by (auto split: prod.splits)
  from 3(1) [OF ev [symmetric] refl rest] evaluate_effect(3,4) [OF ev]
  show ?case by (simp add: ds names_from_append [symmetric])
next
  case (4 e wid ops s)
  then show ?case by (simp add: remove_worker_def)
qed

text \<open>A worker id is handed out once: over any sequence of heartbeats, evaluations and removals,
  the ids that the restart events of all cycles give to new workers are pairwise distinct.\<close>

lemma supervisor_ids_distinct:
  "distinct (concat (map (\<lambda>d. map wr_new_worker_id (sd_restarts d))
     (fst (sup_run e ops (new_supervisor_loop cfg)))))"
  using sup_run_ids [of e ops "new_supervisor_loop cfg"] distinct_names_from
  by (metis surj_pair fst_conv)

text \<open>The escalation on one worker, told by its text.\<close>

definition is_worker_escalation :: "supervisor_escalation \<Rightarrow> bool" where
  "is_worker_escalation x \<longleftrightarrow> take 7 (se_reason x) = ''Worker ''"

lemma is_worker_escalation_hd: "is_worker_escalation x \<Longrightarrow> hd (se_reason x) = CHR ''W''"
  unfolding is_worker_escalation_def by (cases "se_reason x") auto

lemma check_escalation_reasons:
  assumes "sl_worker_restart_counts s = []"
  shows "\<not> list_ex is_worker_escalation (check_escalation e ts s)"
    and "\<not> list_ex is_worker_escalation (global_escalation e ts active m)"
  using assms
  by (auto simp: check_escalation_def global_escalation_def escalation_def Let_def
      split: option.splits if_splits dest: is_worker_escalation_hd)

lemma sup_run_escalations:
  "sup_run e ops s = (ds, s') \<Longrightarrow> sl_worker_restart_counts s = [] \<Longrightarrow>
     sl_worker_restart_counts s' = []
     \<and> list_all (\<lambda>d. \<not> list_ex is_worker_escalation (sd_escalations d)) ds
     \<and> length (sl_restart_timestamps s') \<le>
         length (sl_restart_timestamps s) + length (filter (\<lambda>d. sd_restarts d \<noteq> []) ds)"
proof (induction e ops s arbitrary: ds s' rule: sup_run.induct)
  case (1 e s)
  then show ?case by simp
next
  case (2 e hb ops s)
  then show ?case by (simp add: collect_heartbeat_def split: if_splits)
next
  case (3 e ts active ops s)
  obtain d s1 where ev: "evaluate e ts active s = (d, s1)" by (metis surj_pair)
  with 3(2) obtain ds' where rest: "sup_run e ops s1 = (ds', s')" and ds: "ds = d # ds'"
    by (auto split: prod.splits)
  have c1: "sl_worker_restart_counts s1 = []" using evaluate_effect(5) [OF ev 3(3)] .
  have "\<not> list_ex is_worker_escalation (sd_escalations d)"
  proof -
    obtain started where "sd_escalations d = (if started then check_escalation e ts s1 else [])
        @ global_escalation e ts active (evaluate_all_health e s ts active)"
      by (rule evaluate_parts [OF ev]) blast
    then show ?thesis by (simp add: check_escalation_reasons [OF c1])
  qed
  with 3(1) [OF ev [symmetric] refl rest c1] evaluate_effect(6) [OF ev] show ?case
    by (simp add: ds split: if_splits)
next
  case (4 e wid ops s)
  then show ?case by (simp add: remove_worker_def dict_del_def)
qed

text \<open>The escalation on a worker that keeps being restarted is dead code: a restart forgets
  the count it has just incremented, so no sequence of operations ever counts a worker restart or
  raises that escalation; and the burst threshold counts cycles, not workers: the supervisor never
  holds more restart timestamps than there were cycles that restarted anything.\<close>

lemma worker_escalation_unreachable:
  "case sup_run e ops (new_supervisor_loop cfg) of (ds, s) \<Rightarrow>
     sl_worker_restart_counts s = []
     \<and> list_all (\<lambda>d. \<not> list_ex is_worker_escalation (sd_escalations d)) ds
     \<and> length (sl_restart_timestamps s) \<le> length (filter (\<lambda>d. sd_restarts d \<noteq> []) ds)"
proof -
  obtain ds s where r: "sup_run e ops (new_supervisor_loop cfg) = (ds, s)" by (metis surj_pair)
  from sup_run_escalations [OF r] show ?thesis by (simp add: r)
qed

subsection \<open>Health and restarts of a cycle\<close>

lemma missing_fold_get:
  "dict_get (fold (\<lambda>wid m. if dict_get m wid = None then dict_set m wid (f wid) else m) ids m) k =
     (case dict_get m k of Some v \<Rightarrow> Some v | None \<Rightarrow> if k \<in> set ids then Some (f k) else None)"
  by (induction ids arbitrary: m) (auto split: option.splits)

lemma all_health_get:
  "dict_get (evaluate_all_health e s ts active) wid =
     (if wid \<in> set (dict_keys (sl_heartbeats s)) then Some (evaluate_health e s wid ts)
      else if active \<noteq> None \<and> wid \<in> set (the active) then Some (missing_health wid)
      else None)"
  by (auto simp: evaluate_all_health_def Let_def missing_fold_get split: option.splits)

text \<open>What a cycle restarts: the health map of a cycle over the pool \<open>ids\<close> has an entry for
  exactly the workers heard from or expected, unresponsive ones when no heartbeat or too old a one
  is known, degraded ones by their own report; every unhealthy worker is restarted, in the map's
  order, and then the empty slots are filled, where an unhealthy worker counts once more, so in a
  full pool each unhealthy worker starts two new ones.\<close>

lemma cycle_restarts:
  "case evaluate e ts (Some ids) s of (d, s') \<Rightarrow>
     (\<forall>wid. dict_get (sd_health_map d) wid =
        (case dict_get (sl_heartbeats s) wid of
           Some hb \<Rightarrow> Some (evaluate_health e s wid ts)
         | None \<Rightarrow> if wid \<in> set ids then Some (missing_health wid) else None))
     \<and> map wr_old_worker_id (sd_restarts d) =
         map fst (filter (\<lambda>(_, h). is_unhealthy h) (sd_health_map d))
         @ replicate (nat (sc_pool_concurrency (sl_config s) - int (length ids)
             + int (sd_active_unhealthy d))) []
     \<and> sd_active_unhealthy d = length (filter (\<lambda>(_, h). is_unhealthy h) (sd_health_map d))"
proof -
  obtain d s' where ev: "evaluate e ts (Some ids) s = (d, s')" by (metis surj_pair)
  have m: "sd_health_map d = evaluate_all_health e s ts (Some ids)"
    and u: "sd_active_unhealthy d = length (unhealthy_of e s ts (Some ids))"
    using evaluate_parts [OF ev] by metis+
  have "dict_get (sd_health_map d) wid =
        (case dict_get (sl_heartbeats s) wid of
           Some hb \<Rightarrow> Some (evaluate_health e s wid ts)
         | None \<Rightarrow> if wid \<in> set ids then Some (missing_health wid) else None)" for wid
    using dict_get_None_iff [of "sl_heartbeats s" wid]
    by (auto simp: m all_health_get split: option.splits)
  then show ?thesis
    using evaluate_effect(2) [OF ev] u
    by (simp add: ev m unhealthy_of_def slots_to_fill_def)
qed

subsection \<open>The pool's supervision\<close>

text \<open>Cycles of one pool at the given times.\<close>

fun pool_run ::
  "'a env_scheme \<Rightarrow> nat list \<Rightarrow> rat list \<Rightarrow> supervisor_loop \<Rightarrow> supervisor_decision list"
where
  "pool_run e ids [] s = []"
| "pool_run e ids (t # ts) s =
     (let (d, s) = run_supervisor_cycle e ids t s in d # pool_run e ids ts s)"

text \<open>Every heartbeat known is a healthy one of a pool worker, not from the future.\<close>

definition pool_inv :: "nat list \<Rightarrow> rat \<Rightarrow> supervisor_loop \<Rightarrow> bool" where
  "pool_inv ids now s \<longleftrightarrow>
     (\<forall>wid hb. dict_get (sl_heartbeats s) wid = Some hb \<longrightarrow>
        wid \<in> worker_name ` set ids \<and> wh_status hb = HEALTHY \<and> wh_timestamp hb \<le> now)"

definition pool_beat :: "rat \<Rightarrow> nat \<Rightarrow> supervisor_loop \<Rightarrow> supervisor_loop" where
  "pool_beat now i =
     collect_heartbeat \<lparr>wh_worker_id = worker_name i, wh_timestamp = now,
       wh_status = ''healthy'', wh_job_id = None\<rparr>"

lemma pool_beat_step:
  assumes "pool_inv ids now s" "i \<in> set ids"
  shows "pool_inv ids now (pool_beat now i s) \<and> sl_config (pool_beat now i s) = sl_config s
    \<and> (\<forall>wid. (if wid = worker_name i
         then \<exists>hb. dict_get (sl_heartbeats (pool_beat now i s)) wid = Some hb \<and> wh_timestamp hb = now
         else dict_get (sl_heartbeats (pool_beat now i s)) wid = dict_get (sl_heartbeats s) wid))"
proof (cases "dict_get (sl_heartbeats s) (worker_name i)")
  case None
  with assms show ?thesis by (auto simp: pool_beat_def collect_heartbeat_def pool_inv_def status_defs)
next
  case (Some hb)
  with assms(1) have "wh_timestamp hb < now \<or> wh_timestamp hb = now"
    by (auto simp: pool_inv_def order_le_less)
  with Some assms show ?thesis
    by (auto simp: pool_beat_def collect_heartbeat_def pool_inv_def status_defs)
qed

lemma pool_beats:
  assumes "pool_inv ids now s" "set is \<subseteq> set ids"
  shows "pool_inv ids now (fold (pool_beat now) is s)
    \<and> sl_config (fold (pool_beat now) is s) = sl_config s
    \<and> (\<forall>wid. (wid \<in> worker_name ` set is
          \<or> (\<exists>hb. dict_get (sl_heartbeats s) wid = Some hb \<and> wh_timestamp hb = now)) \<longrightarrow>
        (\<exists>hb. dict_get (sl_heartbeats (fold (pool_beat now) is s)) wid = Some hb \<and> wh_timestamp hb = now))"
  using assms
proof (induction "is" arbitrary: s)
  case Nil
  then show ?case by simp
next
  case (Cons i "is")
  then have i: "i \<in> set ids" by simp
  note b = pool_beat_step [OF Cons.prems(1) i]
  from b have inv: "pool_inv ids now (pool_beat now i s)" by blast
  from Cons.prems(2) have "set is \<subseteq> set ids" by simp
  note IH = Cons.IH [OF inv this]
  have "(\<exists>hb. dict_get (sl_heartbeats (pool_beat now i s)) wid = Some hb \<and> wh_timestamp hb = now)"
    if "wid = worker_name i \<or> (\<exists>hb. dict_get (sl_heartbeats s) wid = Some hb \<and> wh_timestamp hb = now)"
    for wid
    using b that by (metis (full_types))
  then show ?case using IH b by auto
qed

lemma pool_cycle:
  assumes inv: "pool_inv ids now s"
    and cfg: "sc_heartbeat_timeout (sl_config s) \<ge> 0"
      "sc_pool_concurrency (sl_config s) \<le> int (length ids)"
    and cycle: "run_supervisor_cycle e ids now s = (d, s')"
  shows "sd_restarts d = [] \<and> sd_escalations d = [] \<and> pool_inv ids now s'
    \<and> sl_config s' = sl_config s"
proof -
  define s1 where "s1 = fold (pool_beat now) ids s"
  have c: "run_supervisor_cycle e ids now s =
      (let (d, s) = evaluate e now (Some (map worker_name ids)) s1 in (d, apply_decision d s))"
    by (simp add: run_supervisor_cycle_def s1_def pool_beat_def [abs_def])
  obtain s2 where ev: "evaluate e now (Some (map worker_name ids)) s1 = (d, s2)"
      and s': "s' = apply_decision d s2"
    using cycle unfolding c by (auto split: prod.splits)
  have inv1: "pool_inv ids now s1" and cfg1: "sl_config s1 = sl_config s"
    and beat: "\<And>wid. wid \<in> worker_name ` set ids \<Longrightarrow>
        \<exists>hb. dict_get (sl_heartbeats s1) wid = Some hb \<and> wh_timestamp hb = now"
    using pool_beats [OF inv order_refl] by (simp_all add: s1_def)
  let ?m = "evaluate_all_health e s1 now (Some (map worker_name ids))"
  have known: "wid \<in> set (dict_keys (sl_heartbeats s1))" if "wid \<in> worker_name ` set ids" for wid
    using beat [OF that] dict_get_in_keys by fastforce
  have m: "?m = fold (\<lambda>wid m. dict_set m wid (evaluate_health e s1 wid now))
      (dict_keys (sl_heartbeats s1)) []"
  proof -
    define m0 where "m0 = fold (\<lambda>wid m. dict_set m wid (evaluate_health e s1 wid now))
      (dict_keys (sl_heartbeats s1)) []"
    have "fold (\<lambda>wid m. if dict_get m wid = None then dict_set m wid (missing_health wid) else m) xs m0
        = m0" if "set xs \<subseteq> worker_name ` set ids" for xs
      using that
    proof (induction xs)
      case Nil
      then show ?case by simp
    next
      case (Cons x xs)
      have "dict_get m0 x \<noteq> None" using known [of x] Cons.prems by (simp add: m0_def)
      with Cons.IH Cons.prems show ?case by (auto simp del: not_None_eq)
    qed
    then show ?thesis by (simp add: evaluate_all_health_def Let_def m0_def)
  qed
  have healthy: "hl_status h = HEALTHY" if "(wid, h) \<in> set ?m" for wid h
  proof -
    have "wid \<in> set (dict_keys (sl_heartbeats s1))" and h: "h = evaluate_health e s1 wid now"
      using that set_fold_dict_set [of "\<lambda>wid. evaluate_health e s1 wid now"
          "dict_keys (sl_heartbeats s1)" "[]"] unfolding m by auto
    then obtain hb where hb: "dict_get (sl_heartbeats s1) wid = Some hb"
      using dict_get_None_iff [of "sl_heartbeats s1" wid] by auto
    then have "wid \<in> worker_name ` set ids" "wh_status hb = HEALTHY"
      using inv1 by (auto simp: pool_inv_def)
    moreover from beat [OF this(1)] hb have "wh_timestamp hb = now" by simp
    ultimately show ?thesis
      using cfg(1) hb by (simp add: h evaluate_health_def Let_def cfg1 status_defs)
  qed
  have us: "unhealthy_of e s1 now (Some (map worker_name ids)) = []"
    using healthy by (auto simp: unhealthy_of_def filter_empty_conv is_unhealthy_def status_defs)
  have k: "slots_to_fill e s1 now (Some (map worker_name ids)) = 0"
    using cfg(2) by (simp add: slots_to_fill_def us cfg1)
  have global: "global_escalation e now (Some (map worker_name ids)) ?m = []"
  proof (cases ids)
    case Nil
    then show ?thesis by (simp add: global_escalation_def)
  next
    case (Cons i rest)
    then have "dict_get ?m (worker_name i) \<noteq> None"
      using known [of "worker_name i"] by (simp add: all_health_get)
    then obtain h where "(worker_name i, h) \<in> set ?m" using dict_get_SomeD by fastforce
    with healthy have "(worker_name i, h) \<in> set (filter (\<lambda>(_, h). hl_status h = HEALTHY) ?m)" by auto
    then have "filter (\<lambda>(_, h). hl_status h = HEALTHY) ?m \<noteq> []" by (metis empty_iff list.set(1))
    then show ?thesis by (simp add: global_escalation_def)
  qed
  obtain evs s3 fills s4 where p:
      "restart_unhealthy e now (unhealthy_of e s1 now (Some (map worker_name ids))) s1 = (evs, s3)"
      "fill_slots e now (slots_to_fill e s1 now (Some (map worker_name ids))) s3 = (fills, s4)"
      "sd_restarts d = evs @ fills" "s2 = (if evs @ fills \<noteq> [] then record_restarts now s4 else s4)"
      "sd_escalations d = (if evs @ fills \<noteq> [] then check_escalation e now s2 else [])
         @ global_escalation e now (Some (map worker_name ids)) ?m"
    by (rule evaluate_parts [OF ev]) blast
  have 1: "evs = [] \<and> s3 = s1" using p(1) unfolding us by simp
  have "fills = [] \<and> s4 = s3" using p(2) unfolding k by simp
  with 1 have "evs = []" "fills = []" "s3 = s1" "s4 = s1" by simp_all
  then have "sd_restarts d = []" "s2 = s1" "sd_escalations d = []"
    using p(3-5) global by simp_all
  then show ?thesis using inv1 cfg1 by (simp add: s' apply_decision_def)
qed

text \<open>The pool's supervision never acts: the pool reports every one of its own worker slots as
  healthy right before it asks for the evaluation, so over any cycles at non-decreasing times, with a
  timeout that is not negative and no more workers configured than the pool has, no cycle restarts a
  worker or raises an escalation, whatever the worker threads do.\<close>

lemma pool_supervision_never_acts:
  assumes "sorted ts" "sc_heartbeat_timeout cfg \<ge> 0" "sc_pool_concurrency cfg \<le> int (length ids)"
  shows "list_all (\<lambda>d. sd_restarts d = [] \<and> sd_escalations d = [])
    (pool_run e ids ts (new_supervisor_loop cfg))"
proof -
  have "list_all (\<lambda>d. sd_restarts d = [] \<and> sd_escalations d = []) (pool_run e ids ts s)"
    if "sorted ts" "sl_config s = cfg" "\<forall>t \<in> set ts. pool_inv ids t s" for s
    using that
  proof (induction ts arbitrary: s)
    case Nil
    then show ?case by simp
  next
    case (Cons t ts)
    obtain d s' where c: "run_supervisor_cycle e ids t s = (d, s')" by (metis surj_pair)
    have "pool_inv ids t s" using Cons.prems(3) by simp
    from pool_cycle [OF this _ _ c] Cons.prems(2) assms(2,3)
    have d: "sd_restarts d = []" "sd_escalations d = []"
      and s': "pool_inv ids t s'" "sl_config s' = cfg" by simp_all
    have "\<forall>t' \<in> set ts. pool_inv ids t' s'"
    proof
      fix t'
      assume "t' \<in> set ts"
      then have "t \<le> t'" using Cons.prems(1) by simp
      with s'(1) show "pool_inv ids t' s'" unfolding pool_inv_def by (meson order_trans)
    qed
    with Cons.IH [OF _ s'(2)] Cons.prems(1) d show ?case by (simp add: c)
  qed
  then show ?thesis using assms(1) by (simp add: pool_inv_def)
qed

lemma pool_supervision_never_acts_example:
  "list_all (\<lambda>d. sd_restarts d = [] \<and> sd_escalations d = [])
    (pool_run sample_env [0, 1] [1, 5] (new_supervisor_loop default_supervisor_config))"
  by (rule pool_supervision_never_acts) (simp_all add: default_supervisor_config_def)

end
