(* ===== verification/QueueSupervisor.thy ===== *)
theory QueueSupervisor
  imports Prelude
begin

text \<open>
  The queue supervisor, \<^verbatim>\<open>platform/supervisor/queue_supervisor.py\<close>: stuck jobs, backpressure and
  escalation, from a snapshot of the queue.  Ages and rates are rationals, in the units of the code.
\<close>

subsection \<open>Data\<close>

record queue_metrics =
  qm_queue_length :: int
  qm_in_flight_count :: int
  qm_enqueue_rate :: rat
  qm_dequeue_rate :: rat
  qm_queued_jobs :: "(string \<times> rat) list"
  qm_in_flight_jobs :: "(string \<times> rat) list"

record stuck_job_event =
  sj_event :: string
  sj_job_id :: string
  sj_state :: string
  sj_age_ms :: rat
  sj_timeout_ms :: rat
  sj_timestamp :: string

definition stuck_job_to_dict :: "stuck_job_event \<Rightarrow> json pydict" where
  "stuck_job_to_dict ev =
     [(''event'', JStr (sj_event ev)), (''job_id'', JStr (sj_job_id ev)),
      (''state'', JStr (sj_state ev)), (''age_ms'', JNum (sj_age_ms ev)),
      (''timeout_ms'', JNum (sj_timeout_ms ev)), (''timestamp'', JStr (sj_timestamp ev))]"

record backpressure_event =
  bp_event :: string
  bp_queue_length :: int
  bp_avg_job_age_ms :: rat
  bp_enqueue_rate :: rat
  bp_dequeue_rate :: rat
  bp_timestamp :: string

definition backpressure_to_dict :: "backpressure_event \<Rightarrow> json pydict" where
  "backpressure_to_dict ev =
     [(''event'', JStr (bp_event ev)), (''queue_length'', JInt (bp_queue_length ev)),
      (''avg_job_age_ms'', JNum (bp_avg_job_age_ms ev)),
      (''enqueue_rate'', JNum (bp_enqueue_rate ev)), (''dequeue_rate'', JNum (bp_dequeue_rate ev)),
      (''timestamp'', JStr (bp_timestamp ev))]"

record queue_escalation =
  qe_event :: string
  qe_severity :: string
  qe_reason :: string
  qe_timestamp :: string

definition queue_escalation_to_dict :: "queue_escalation \<Rightarrow> json pydict" where
  "queue_escalation_to_dict ev =
     [(''event'', JStr (qe_event ev)), (''severity'', JStr (qe_severity ev)),
      (''reason'', JStr (qe_reason ev)), (''timestamp'', JStr (qe_timestamp ev))]"

record queue_supervisor_config =
  qc_max_processing_time_ms :: rat
  qc_max_queue_age_ms :: rat
  qc_ack_timeout_ms :: rat
  qc_backpressure_queue_length_threshold :: int
  qc_backpressure_avg_age_ms :: rat
  qc_backpressure_ratio :: rat
  qc_backpressure_consecutive_intervals :: int
  qc_critical_stuck_job_threshold :: int
  qc_critical_queue_length :: int
  qc_critical_job_age_ms :: rat

definition default_queue_supervisor_config :: queue_supervisor_config where
  "default_queue_supervisor_config =
     \<lparr>qc_max_processing_time_ms = 30000, qc_max_queue_age_ms = 60000, qc_ack_timeout_ms = 10000,
      qc_backpressure_queue_length_threshold = 100, qc_backpressure_avg_age_ms = 30000,
      qc_backpressure_ratio = 3 / 2, qc_backpressure_consecutive_intervals = 3,
      qc_critical_stuck_job_threshold = 5, qc_critical_queue_length = 200,
      qc_critical_job_age_ms = 120000\<rparr>"

record queue_decision =
  qd_stuck_jobs :: "stuck_job_event list"
  qd_backpressure_events :: "backpressure_event list"
  qd_escalations :: "queue_escalation list"
  qd_has_backpressure :: bool
  qd_consecutive_backpressure_intervals :: int
  qd_queue_length :: int
  qd_avg_job_age_ms :: rat

record queue_supervisor =
  qs_config :: queue_supervisor_config
  qs_backpressure_count :: int
  qs_stuck_job_count :: int

definition new_queue_supervisor :: "queue_supervisor_config \<Rightarrow> queue_supervisor" where
  "new_queue_supervisor cfg =
     \<lparr>qs_config = cfg, qs_backpressure_count = 0, qs_stuck_job_count = 0\<rparr>"

subsection \<open>Helpers\<close>

definition queue_iso_timestamp :: "'a env_scheme \<Rightarrow> rat \<Rightarrow> string" where
  "queue_iso_timestamp e ts = e_strftime e ''%Y-%m-%dT%H:%M:%SZ'' ts"

definition avg_age_ms :: "(string \<times> rat) list \<Rightarrow> rat" where
  "avg_age_ms jobs =
     (if jobs = [] then 0
      else (let total = sum_list (map snd jobs) in (total / of_nat (length jobs)) * 1000))"

subsection \<open>Detection\<close>

definition stuck_event ::
  "'a env_scheme \<Rightarrow> rat \<Rightarrow> string \<Rightarrow> string \<Rightarrow> rat \<Rightarrow> rat \<Rightarrow> stuck_job_event"
where
  "stuck_event e ts job_id state age timeout =
     \<lparr>sj_event = ''job_stuck'', sj_job_id = job_id, sj_state = state, sj_age_ms = age,
      sj_timeout_ms = timeout, sj_timestamp = queue_iso_timestamp e ts\<rparr>"

definition queued_stuck ::
  "'a env_scheme \<Rightarrow> queue_supervisor_config \<Rightarrow> rat \<Rightarrow> string \<times> rat \<Rightarrow> stuck_job_event list"
where
  "queued_stuck e cfg ts job =
     (case job of (job_id, age_s) \<Rightarrow>
        let age = age_s * 1000
        in if age > qc_max_queue_age_ms cfg
           then [stuck_event e ts job_id ''queued'' age (qc_max_queue_age_ms cfg)] else [])"

definition in_flight_stuck ::
  "'a env_scheme \<Rightarrow> queue_supervisor_config \<Rightarrow> rat \<Rightarrow> string \<times> rat \<Rightarrow> stuck_job_event list"
where
  "in_flight_stuck e cfg ts job =
     (case job of (job_id, age_s) \<Rightarrow>
        let age = age_s * 1000
        in if age > qc_max_processing_time_ms cfg
           then [stuck_event e ts job_id ''processing'' age (qc_max_processing_time_ms cfg)]
           else if age > qc_ack_timeout_ms cfg
           then [stuck_event e ts job_id ''processing'' age (qc_ack_timeout_ms cfg)]
           else [])"

definition detect_stuck_jobs ::
  "'a env_scheme \<Rightarrow> queue_metrics \<Rightarrow> queue_supervisor_config \<Rightarrow> rat \<Rightarrow> stuck_job_event list"
where
  "detect_stuck_jobs e m cfg ts =
     concat (map (queued_stuck e cfg ts) (qm_queued_jobs m))
     @ concat (map (in_flight_stuck e cfg ts) (qm_in_flight_jobs m))"

definition detect_backpressure ::
  "'a env_scheme \<Rightarrow> queue_metrics \<Rightarrow> queue_supervisor_config \<Rightarrow> rat
   \<Rightarrow> backpressure_event list \<times> bool"
where
  "detect_backpressure e m cfg ts =
     (let avg = avg_age_ms (qm_queued_jobs m);
          detected = False;
          detected = (if qm_queue_length m > qc_backpressure_queue_length_threshold cfg
                      then True else detected);
          detected = (if avg > qc_backpressure_avg_age_ms cfg then True else detected);
          detected = (if qm_enqueue_rate m > 0 \<and> qm_dequeue_rate m > 0
                         \<and> qm_enqueue_rate m / qm_dequeue_rate m > qc_backpressure_ratio cfg
                      then True else detected)
      in (if detected
          then [\<lparr>bp_event = ''queue_backpressure'', bp_queue_length = qm_queue_length m,
                 bp_avg_job_age_ms = avg, bp_enqueue_rate = qm_enqueue_rate m,
                 bp_dequeue_rate = qm_dequeue_rate m, bp_timestamp = queue_iso_timestamp e ts\<rparr>]
          else [], detected))"

definition queue_escalate :: "'a env_scheme \<Rightarrow> rat \<Rightarrow> string \<Rightarrow> queue_escalation" where
  "queue_escalate e ts reason =
     \<lparr>qe_event = ''queue_supervisor_escalation'', qe_severity = ''critical'', qe_reason = reason,
      qe_timestamp = queue_iso_timestamp e ts\<rparr>"

definition queue_check_escalation ::
  "'a env_scheme \<Rightarrow> queue_metrics \<Rightarrow> rat \<Rightarrow> queue_supervisor \<Rightarrow> queue_escalation list"
where
  "queue_check_escalation e m ts s =
     (let cfg = qs_config s
      in (if qs_stuck_job_count s > qc_critical_stuck_job_threshold cfg
          then [queue_escalate e ts (''Stuck job threshold exceeded: ''
                  @ int_str (qs_stuck_job_count s) @ '' stuck jobs (max ''
                  @ int_str (qc_critical_stuck_job_threshold cfg) @ '')'')]
          else [])
       @ (if qs_backpressure_count s > 0
             \<and> qs_backpressure_count s \<ge> qc_backpressure_consecutive_intervals cfg
          then [queue_escalate e ts (''Backpressure persisted for ''
                  @ int_str (qs_backpressure_count s) @ '' consecutive intervals (threshold ''
                  @ int_str (qc_backpressure_consecutive_intervals cfg) @ '')'')]
          else [])
       @ (if qm_queue_length m > qc_critical_queue_length cfg
          then [queue_escalate e ts (''Critical queue length: '' @ int_str (qm_queue_length m)
                  @ '' jobs (max '' @ int_str (qc_critical_queue_length cfg) @ '')'')]
          else [])
       @ (case find (\<lambda>(_, age_s). age_s * 1000 > qc_critical_job_age_ms cfg) (qm_queued_jobs m) of
            None \<Rightarrow> []
          | Some (job_id, age_s) \<Rightarrow>
              [queue_escalate e ts (''Critical job age: job '' @ job_id @ '' age ''
                 @ e_float_fmt e ''.0f'' (age_s * 1000) @ ''ms (max ''
                 @ e_float_fmt e ''.0f'' (qc_critical_job_age_ms cfg) @ ''ms)'')]))"

subsection \<open>The cycle\<close>

definition queue_evaluate ::
  "'a env_scheme \<Rightarrow> queue_metrics \<Rightarrow> rat \<Rightarrow> queue_supervisor \<Rightarrow> queue_decision \<times> queue_supervisor"
where
  "queue_evaluate e m ts s =
     (let cfg = qs_config s;
          stuck = detect_stuck_jobs e m cfg ts;
          s = s\<lparr>qs_stuck_job_count := int (length stuck)\<rparr>;
          (events, detected) = detect_backpressure e m cfg ts;
          s = (if detected then s\<lparr>qs_backpressure_count := qs_backpressure_count s + 1\<rparr>
               else s\<lparr>qs_backpressure_count := 0\<rparr>)
      in (\<lparr>qd_stuck_jobs = stuck, qd_backpressure_events = events,
           qd_escalations = queue_check_escalation e m ts s, qd_has_backpressure = detected,
           qd_consecutive_backpressure_intervals = qs_backpressure_count s,
           qd_queue_length = qm_queue_length m,
           qd_avg_job_age_ms = avg_age_ms (qm_queued_jobs m)\<rparr>, s))"

definition queue_supervisor_reset :: "queue_supervisor \<Rightarrow> queue_supervisor" where
  "queue_supervisor_reset s = s\<lparr>qs_backpressure_count := 0, qs_stuck_job_count := 0\<rparr>"

subsection \<open>Runs\<close>

fun queue_cycles ::
  "'a env_scheme \<Rightarrow> (queue_metrics \<times> rat) list \<Rightarrow> queue_supervisor \<Rightarrow> queue_decision list"
where
  "queue_cycles e [] s = []"
| "queue_cycles e ((m, ts) # rest) s =
     (let (d, s) = queue_evaluate e m ts s in d # queue_cycles e rest s)"

text \<open>When a snapshot shows backpressure, and the number of snapshots at the end that do.\<close>

definition pressed :: "queue_supervisor_config \<Rightarrow> queue_metrics \<Rightarrow> bool" where
  "pressed cfg m \<longleftrightarrow>
     qm_queue_length m > qc_backpressure_queue_length_threshold cfg
     \<or> avg_age_ms (qm_queued_jobs m) > qc_backpressure_avg_age_ms cfg
     \<or> qm_enqueue_rate m > 0 \<and> qm_dequeue_rate m > 0
        \<and> qm_enqueue_rate m / qm_dequeue_rate m > qc_backpressure_ratio cfg"

definition pressed_streak :: "queue_supervisor_config \<Rightarrow> queue_metrics list \<Rightarrow> nat" where
  "pressed_streak cfg ms = length (takeWhile (pressed cfg) (rev ms))"

lemma pressed_streak_snoc [simp]:
  "pressed_streak cfg [] = 0"
  "pressed_streak cfg (ms @ [m]) = (if pressed cfg m then Suc (pressed_streak cfg ms) else 0)"
  by (simp_all add: pressed_streak_def)

lemma detect_backpressure_pressed: "snd (detect_backpressure e m cfg ts) = pressed cfg m"
  by (simp add: detect_backpressure_def pressed_def Let_def)

lemma queue_evaluate_effect:
  assumes "queue_evaluate e m ts s = (d, s')"
  shows "qs_config s' = qs_config s"
    and "qs_backpressure_count s' = (if pressed (qs_config s) m then qs_backpressure_count s + 1 else 0)"
    and "qs_stuck_job_count s' = int (length (qd_stuck_jobs d))"
    and "qd_consecutive_backpressure_intervals d = qs_backpressure_count s'"
    and "qd_stuck_jobs d = detect_stuck_jobs e m (qs_config s) ts"
    and "qd_escalations d = queue_check_escalation e m ts s'"
    and "qd_has_backpressure d = pressed (qs_config s) m"
  using assms detect_backpressure_pressed [of e m "qs_config s" ts]
  by (auto simp: queue_evaluate_def Let_def split: prod.splits)

definition persisted :: "queue_escalation \<Rightarrow> bool" where
  "persisted x \<longleftrightarrow> take 12 (qe_reason x) = ''Backpressure''"

lemma persisted_hd: "persisted x \<Longrightarrow> hd (qe_reason x) = CHR ''B''"
  unfolding persisted_def by (cases "qe_reason x") auto

lemma persisted_escalation:
  "list_ex persisted (queue_check_escalation e m ts s) \<longleftrightarrow>
     qs_backpressure_count s > 0
     \<and> qs_backpressure_count s \<ge> qc_backpressure_consecutive_intervals (qs_config s)"
proof -
  have "persisted (queue_escalate e ts (''Backpressure persisted for '' @ y))" for y
    by (simp add: persisted_def queue_escalate_def)
  moreover have "\<not> persisted (queue_escalate e ts (''Stuck job threshold exceeded: '' @ y))"
    "\<not> persisted (queue_escalate e ts (''Critical queue length: '' @ y))"
    "\<not> persisted (queue_escalate e ts (''Critical job age: job '' @ y))" for y
    by (auto simp: queue_escalate_def dest: persisted_hd)
  ultimately show ?thesis
    by (auto simp: queue_check_escalation_def Let_def simp del: append.simps split: option.splits)
qed

text \<open>Escalation on backpressure counts consecutive intervals: over any cycles of a fresh
  supervisor, the counter after each is the length of the current streak of pressed snapshots, and
  the persistence escalation is raised exactly in the cycles whose streak has reached the configured
  number of intervals.\<close>

lemma backpressure_streak:
  "map (\<lambda>d. (qd_has_backpressure d, qd_consecutive_backpressure_intervals d,
             list_ex persisted (qd_escalations d)))
     (queue_cycles e ms (new_queue_supervisor cfg)) =
   map (\<lambda>i. let streak = int (pressed_streak cfg (map fst (take (Suc i) ms)))
            in (pressed cfg (fst (ms ! i)), streak,
                streak > 0 \<and> streak \<ge> qc_backpressure_consecutive_intervals cfg))
     [0..<length ms]"
proof -
  have "map (\<lambda>d. (qd_has_backpressure d, qd_consecutive_backpressure_intervals d,
             list_ex persisted (qd_escalations d))) (queue_cycles e ms s) =
   map (\<lambda>i. let streak = int (pressed_streak cfg (before @ map fst (take (Suc i) ms)))
            in (pressed cfg (fst (ms ! i)), streak,
                streak > 0 \<and> streak \<ge> qc_backpressure_consecutive_intervals cfg))
     [0..<length ms]"
    if "qs_config s = cfg" "qs_backpressure_count s = int (pressed_streak cfg before)" for s before
    using that
  proof (induction ms arbitrary: s before)
    case Nil
    then show ?case by simp
  next
    case (Cons mt ms)
    obtain m ts where mt: "mt = (m, ts)" by (cases mt)
    obtain d s' where ev: "queue_evaluate e m ts s = (d, s')" by (metis surj_pair)
    note eff = queue_evaluate_effect [OF ev]
    have s': "qs_config s' = cfg"
        "qs_backpressure_count s' = int (pressed_streak cfg (before @ [m]))"
      using eff(1,2) Cons.prems by simp_all
    from Cons.IH [OF s'] show ?case
      using eff(4,6,7) Cons.prems(1) s'
      by (simp add: mt ev persisted_escalation upt_conv_Cons map_Suc_upt [symmetric] comp_def
          Let_def del: upt_Suc)
  qed
  from this [of "new_queue_supervisor cfg" "[]"] show ?thesis by (simp add: new_queue_supervisor_def)
qed

subsection \<open>Stuck jobs\<close>

lemma queued_stuck_ids:
  "map sj_job_id (concat (map (queued_stuck e cfg ts) jobs)) =
     map fst (filter (\<lambda>(_, age_s). age_s * 1000 > qc_max_queue_age_ms cfg) jobs)"
  by (induction jobs) (auto simp: queued_stuck_def stuck_event_def Let_def)

lemma in_flight_stuck_ids:
  "map sj_job_id (concat (map (in_flight_stuck e cfg ts) jobs)) =
     map fst (filter (\<lambda>(_, age_s). age_s * 1000 >
       min (qc_max_processing_time_ms cfg) (qc_ack_timeout_ms cfg)) jobs)"
  by (induction jobs)
    (auto simp: in_flight_stuck_def stuck_event_def Let_def min_less_iff_disj split: if_splits)

text \<open>Stuck jobs are reported exactly: the events name, in the order of the snapshot, the queued
  jobs older than the queue limit and then the leased ones older than the smaller of the processing
  limit and the acknowledgement timeout, each once; every event carries a limit its age exceeds; and
  the escalation on their number is raised exactly when there are more than the configured limit.\<close>

lemma stuck_jobs_exact:
  "case queue_evaluate e m ts s of (d, s') \<Rightarrow>
     map sj_job_id (qd_stuck_jobs d) =
       map fst (filter (\<lambda>(_, age_s). age_s * 1000 > qc_max_queue_age_ms (qs_config s))
         (qm_queued_jobs m))
       @ map fst (filter (\<lambda>(_, age_s). age_s * 1000 >
           min (qc_max_processing_time_ms (qs_config s)) (qc_ack_timeout_ms (qs_config s)))
         (qm_in_flight_jobs m))
     \<and> list_all (\<lambda>ev. sj_age_ms ev > sj_timeout_ms ev) (qd_stuck_jobs d)
     \<and> list_ex (\<lambda>x. take 5 (qe_reason x) = ''Stuck'') (qd_escalations d) =
         (int (length (qd_stuck_jobs d)) > qc_critical_stuck_job_threshold (qs_config s))"
proof -
  obtain d s' where ev: "queue_evaluate e m ts s = (d, s')" by (metis surj_pair)
  note eff = queue_evaluate_effect [OF ev]
  have "list_all (\<lambda>ev. sj_age_ms ev > sj_timeout_ms ev) (qd_stuck_jobs d)"
    unfolding eff(5) detect_stuck_jobs_def
    by (auto simp: list_all_iff queued_stuck_def in_flight_stuck_def stuck_event_def Let_def
        split: if_splits)
  moreover have "list_ex (\<lambda>x. take 5 (qe_reason x) = ''Stuck'') (queue_check_escalation e m ts s') =
      (qs_stuck_job_count s' > qc_critical_stuck_job_threshold (qs_config s'))"
  proof -
    have 1: "take 5 (qe_reason (queue_escalate e ts (''Stuck job threshold exceeded: '' @ y))) = ''Stuck''"
      for y by (simp add: queue_escalate_def)
    have hd: "take 5 r = ''Stuck'' \<Longrightarrow> hd r = CHR ''S''" for r by (cases r) auto
    have 2: "take 5 (qe_reason (queue_escalate e ts (''Backpressure persisted for '' @ y))) \<noteq> ''Stuck''"
      "take 5 (qe_reason (queue_escalate e ts (''Critical queue length: '' @ y))) \<noteq> ''Stuck''"
      "take 5 (qe_reason (queue_escalate e ts (''Critical job age: job '' @ y))) \<noteq> ''Stuck''" for y
      by (auto simp: queue_escalate_def dest: hd)
    show ?thesis
      using 1 2 by (auto simp: queue_check_escalation_def Let_def simp del: append.simps
          split: option.splits)
  qed
  ultimately show ?thesis
    using eff by (simp add: ev detect_stuck_jobs_def queued_stuck_ids in_flight_stuck_ids)
qed

end
