(* ===== verification/Consistency.thy ===== *)
theory Consistency
  imports Prelude JobState
begin

text \<open>
  The control-plane supervisor, \<^verbatim>\<open>platform/supervisor/control_plane_supervisor.py\<close>: it compares
  what the job store (S2), the scheduler (S3) and the workers (S4) say of each job, proposes a
  deterministic repair where one is allowed, and escalates otherwise.  The set of active workers is
  a list; only membership is asked.
\<close>

subsection \<open>Data\<close>

definition S2_STATE_QUEUED :: string where "S2_STATE_QUEUED = ''queued''"
definition S2_STATE_PROCESSING :: string where "S2_STATE_PROCESSING = ''processing''"
definition S2_STATE_SUCCEEDED :: string where "S2_STATE_SUCCEEDED = ''succeeded''"
definition S2_STATE_FAILED :: string where "S2_STATE_FAILED = ''failed''"

lemmas s2_defs = S2_STATE_QUEUED_def S2_STATE_PROCESSING_def S2_STATE_SUCCEEDED_def
  S2_STATE_FAILED_def

record job_state_snapshot =
  sn_job_id :: string
  sn_s2_state :: string
  sn_s3_has_job :: bool
  sn_s3_worker_id :: "string option"
  sn_s4_worker_ids :: "string list"

record inconsistency_event =
  ic_event :: string
  ic_job_id :: string
  ic_s2_state :: string
  ic_s3_state :: string
  ic_s4_state :: string
  ic_timestamp :: string
  ic_reason :: string

definition inconsistency_to_dict :: "inconsistency_event \<Rightarrow> json pydict" where
  "inconsistency_to_dict ev =
     [(''event'', JStr (ic_event ev)), (''job_id'', JStr (ic_job_id ev)),
      (''s2_state'', JStr (ic_s2_state ev)), (''s3_state'', JStr (ic_s3_state ev)),
      (''s4_state'', JStr (ic_s4_state ev)), (''timestamp'', JStr (ic_timestamp ev)),
      (''reason'', JStr (ic_reason ev))]"

record auto_repair_event =
  ar_event :: string
  ar_job_id :: string
  ar_old_state :: string
  ar_new_state :: string
  ar_timestamp :: string
  ar_reason :: string

definition auto_repair_to_dict :: "auto_repair_event \<Rightarrow> json pydict" where
  "auto_repair_to_dict ev =
     [(''event'', JStr (ar_event ev)), (''job_id'', JStr (ar_job_id ev)),
      (''old_state'', JStr (ar_old_state ev)), (''new_state'', JStr (ar_new_state ev)),
      (''timestamp'', JStr (ar_timestamp ev)), (''reason'', JStr (ar_reason ev))]"

record control_plane_escalation =
  ce_event :: string
  ce_severity :: string
  ce_job_id :: string
  ce_reason :: string
  ce_timestamp :: string

definition control_plane_escalation_to_dict :: "control_plane_escalation \<Rightarrow> json pydict" where
  "control_plane_escalation_to_dict ev =
     [(''event'', JStr (ce_event ev)), (''severity'', JStr (ce_severity ev)),
      (''job_id'', JStr (ce_job_id ev)), (''reason'', JStr (ce_reason ev)),
      (''timestamp'', JStr (ce_timestamp ev))]"

record consistency_config =
  cc_max_inconsistencies_per_window :: int
  cc_escalation_window_seconds :: rat
  cc_repair_enabled :: bool

definition default_consistency_config :: consistency_config where
  "default_consistency_config =
     \<lparr>cc_max_inconsistencies_per_window = 10, cc_escalation_window_seconds = 60,
      cc_repair_enabled = True\<rparr>"

text \<open>\<open>repaired_job_ids\<close> is a set.\<close>

record consistency_decision =
  cd_inconsistencies :: "inconsistency_event list"
  cd_auto_repairs :: "auto_repair_event list"
  cd_escalations :: "control_plane_escalation list"
  cd_repaired_job_ids :: "string set"

definition naive_iso_timestamp :: "'a env_scheme \<Rightarrow> rat \<Rightarrow> string" where
  "naive_iso_timestamp e now = e_strftime e ''%Y-%m-%dT%H:%M:%S'' now"

subsection \<open>Descriptions\<close>

definition join_comma :: "string list \<Rightarrow> string" where
  "join_comma xs = (case xs of [] \<Rightarrow> [] | x # ys \<Rightarrow> x @ concat (map (\<lambda>y. '','' @ y) ys))"

definition s3_state_str :: "job_state_snapshot \<Rightarrow> string" where
  "s3_state_str snap =
     (if \<not> sn_s3_has_job snap then ''not_scheduled''
      else case sn_s3_worker_id snap of
             None \<Rightarrow> ''queued''
           | Some w \<Rightarrow> if w \<noteq> [] then ''assigned_to_'' @ w else ''queued'')"

definition s4_state_str :: "job_state_snapshot \<Rightarrow> string" where
  "s4_state_str snap =
     (if sn_s4_worker_ids snap = [] then ''not_claimed''
      else ''claimed_by_'' @ join_comma (sn_s4_worker_ids snap))"

subsection \<open>Detection, repair, escalation\<close>

definition inconsistency ::
  "'a env_scheme \<Rightarrow> rat \<Rightarrow> job_state_snapshot \<Rightarrow> string \<Rightarrow> inconsistency_event"
where
  "inconsistency e ts snap reason =
     \<lparr>ic_event = ''job_inconsistent'', ic_job_id = sn_job_id snap, ic_s2_state = sn_s2_state snap,
      ic_s3_state = s3_state_str snap, ic_s4_state = s4_state_str snap,
      ic_timestamp = naive_iso_timestamp e ts, ic_reason = reason\<rparr>"

definition detect_inconsistencies ::
  "'a env_scheme \<Rightarrow> job_state_snapshot \<Rightarrow> string list \<Rightarrow> rat \<Rightarrow> inconsistency_event option"
where
  "detect_inconsistencies e snap active ts =
     (let workers = length (sn_s4_worker_ids snap); s2 = sn_s2_state snap;
          w3 = (case sn_s3_worker_id snap of None \<Rightarrow> [] | Some w \<Rightarrow> w)
      in if sn_s3_worker_id snap \<noteq> None \<and> w3 \<notin> set active then
           Some (inconsistency e ts snap (''S3 assigned to nonexistent worker '' @ w3))
         else if s2 = S2_STATE_QUEUED \<and> sn_s3_has_job snap \<and> sn_s3_worker_id snap \<noteq> None then
           Some (inconsistency e ts snap (''S2 queued but S3 assigned to '' @ w3))
         else if s2 = S2_STATE_PROCESSING \<and> workers = 0 then
           Some (inconsistency e ts snap ''S2 processing but no worker claims job'')
         else if s2 = S2_STATE_PROCESSING \<and> workers > 1 then
           Some (inconsistency e ts snap (''S2 processing but '' @ int_str (int workers)
             @ '' workers claim it''))
         else if (s2 = S2_STATE_SUCCEEDED \<or> s2 = S2_STATE_FAILED) \<and> sn_s3_has_job snap then
           Some (inconsistency e ts snap (''S2 '' @ s2 @ '' but S3 still holds job''))
         else if workers > 0 \<and> s2 = S2_STATE_QUEUED then
           Some (inconsistency e ts snap ''S4 claims job but S2 reports queued'')
         else None)"

definition repair_event ::
  "'a env_scheme \<Rightarrow> rat \<Rightarrow> job_state_snapshot \<Rightarrow> string \<Rightarrow> string \<Rightarrow> string \<Rightarrow> auto_repair_event"
where
  "repair_event e ts snap old new reason =
     \<lparr>ar_event = ''job_auto_repaired'', ar_job_id = sn_job_id snap, ar_old_state = old,
      ar_new_state = new, ar_timestamp = naive_iso_timestamp e ts, ar_reason = reason\<rparr>"

definition attempt_auto_repair ::
  "'a env_scheme \<Rightarrow> consistency_config \<Rightarrow> job_state_snapshot \<Rightarrow> rat \<Rightarrow> auto_repair_event option"
where
  "attempt_auto_repair e cfg snap ts =
     (let workers = length (sn_s4_worker_ids snap); s2 = sn_s2_state snap
      in if \<not> cc_repair_enabled cfg then None
         else if s2 = S2_STATE_QUEUED \<and> (sn_s3_has_job snap \<or> workers > 0) then
           Some (repair_event e ts snap S2_STATE_QUEUED S2_STATE_QUEUED
             ''S3/S4 diverged from S2; resetting S3/S4 to match S2 queued'')
         else if s2 = S2_STATE_PROCESSING \<and> workers = 0 then
           Some (repair_event e ts snap S2_STATE_PROCESSING S2_STATE_QUEUED
             ''Job stuck in processing with no active worker; resetting to queued'')
         else if (s2 = S2_STATE_SUCCEEDED \<or> s2 = S2_STATE_FAILED) \<and> sn_s3_has_job snap then
           Some (repair_event e ts snap s2 s2
             (''Job '' @ s2 @ '' but S3 still holds; removing from scheduler''))
         else None)"

definition build_escalation :: "'a env_scheme \<Rightarrow> string \<Rightarrow> string \<Rightarrow> rat \<Rightarrow> control_plane_escalation" where
  "build_escalation e job_id reason ts =
     \<lparr>ce_event = ''control_plane_escalation'', ce_severity = ''critical'', ce_job_id = job_id,
      ce_reason = reason, ce_timestamp = naive_iso_timestamp e ts\<rparr>"

text \<open>One turn of the loop over the snapshots.\<close>

definition check_snapshot ::
  "'a env_scheme \<Rightarrow> consistency_config \<Rightarrow> string list \<Rightarrow> rat \<Rightarrow> job_state_snapshot
   \<Rightarrow> consistency_decision \<Rightarrow> consistency_decision"
where
  "check_snapshot e cfg active ts snap d =
     (case detect_inconsistencies e snap active ts of
        None \<Rightarrow> d
      | Some inc \<Rightarrow>
          let d = d\<lparr>cd_inconsistencies := cd_inconsistencies d @ [inc]\<rparr>
          in case attempt_auto_repair e cfg snap ts of
               Some repair \<Rightarrow>
                 d\<lparr>cd_auto_repairs := cd_auto_repairs d @ [repair],
                   cd_repaired_job_ids := insert (sn_job_id snap) (cd_repaired_job_ids d)\<rparr>
             | None \<Rightarrow>
                 d\<lparr>cd_escalations := cd_escalations d
                     @ [build_escalation e (sn_job_id snap)
                          (''Unsafe/cannot repair: '' @ ic_reason inc) ts]\<rparr>)"

definition consistency_evaluate ::
  "'a env_scheme \<Rightarrow> consistency_config \<Rightarrow> job_state_snapshot list \<Rightarrow> string list \<Rightarrow> rat
   \<Rightarrow> consistency_decision"
where
  "consistency_evaluate e cfg snaps active ts =
     (let d = fold (check_snapshot e cfg active ts) snaps
                \<lparr>cd_inconsistencies = [], cd_auto_repairs = [], cd_escalations = [],
                 cd_repaired_job_ids = {}\<rparr>;
          n = int (length (cd_inconsistencies d))
      in if n > cc_max_inconsistencies_per_window cfg
         then d\<lparr>cd_escalations := cd_escalations d
                  @ [build_escalation e [] (''Inconsistencies exceeded threshold: '' @ int_str n
                       @ '' > '' @ int_str (cc_max_inconsistencies_per_window cfg)) ts]\<rparr>
         else d)"

subsection \<open>The contract\<close>

text \<open>A snapshot on which the three layers agree.\<close>

definition consistent :: "string list \<Rightarrow> job_state_snapshot \<Rightarrow> bool" where
  "consistent active snap \<longleftrightarrow>
     (case sn_s3_worker_id snap of None \<Rightarrow> True | Some w \<Rightarrow> w \<in> set active)
     \<and> (sn_s2_state snap = ''queued'' \<longrightarrow>
          sn_s4_worker_ids snap = [] \<and> \<not> (sn_s3_has_job snap \<and> sn_s3_worker_id snap \<noteq> None))
     \<and> (sn_s2_state snap = ''processing'' \<longrightarrow> length (sn_s4_worker_ids snap) = 1)
     \<and> (sn_s2_state snap \<in> {''succeeded'', ''failed''} \<longrightarrow> \<not> sn_s3_has_job snap)"

text \<open>An inconsistency whose repair the code allows.\<close>

definition repairable :: "job_state_snapshot \<Rightarrow> bool" where
  "repairable snap \<longleftrightarrow>
     sn_s2_state snap = ''queued'' \<and> (sn_s3_has_job snap \<or> sn_s4_worker_ids snap \<noteq> [])
     \<or> sn_s2_state snap = ''processing'' \<and> sn_s4_worker_ids snap = []
     \<or> sn_s2_state snap \<in> {''succeeded'', ''failed''} \<and> sn_s3_has_job snap"

lemma detect_inconsistencies_iff:
  "detect_inconsistencies e snap active ts = None \<longleftrightarrow> consistent active snap"
  "detect_inconsistencies e snap active ts = Some inc \<Longrightarrow> ic_job_id inc = sn_job_id snap"
proof -
  consider "length (sn_s4_worker_ids snap) = 0" | "length (sn_s4_worker_ids snap) = 1"
    | "length (sn_s4_worker_ids snap) > 1" by linarith
  then show "detect_inconsistencies e snap active ts = None \<longleftrightarrow> consistent active snap"
    by cases (auto simp: detect_inconsistencies_def consistent_def s2_defs Let_def split: option.split)
  assume "detect_inconsistencies e snap active ts = Some inc"
  then show "ic_job_id inc = sn_job_id snap"
    by (auto simp: detect_inconsistencies_def inconsistency_def Let_def split: if_splits)
qed

lemma attempt_auto_repair_iff:
  "attempt_auto_repair e cfg snap ts \<noteq> None \<longleftrightarrow> cc_repair_enabled cfg \<and> repairable snap"
  "attempt_auto_repair e cfg snap ts = Some r \<Longrightarrow> ar_job_id r = sn_job_id snap"
  by (auto simp: attempt_auto_repair_def repairable_def repair_event_def s2_defs Let_def
      split: if_splits)

lemma check_snapshots:
  assumes "d' = fold (check_snapshot e cfg active ts) snaps d"
  shows "map ic_job_id (cd_inconsistencies d') = map ic_job_id (cd_inconsistencies d)
      @ map sn_job_id (filter (\<lambda>s. \<not> consistent active s) snaps)
    \<and> map ar_job_id (cd_auto_repairs d') = map ar_job_id (cd_auto_repairs d)
      @ map sn_job_id (filter (\<lambda>s. \<not> consistent active s \<and> cc_repair_enabled cfg \<and> repairable s) snaps)
    \<and> map ce_job_id (cd_escalations d') = map ce_job_id (cd_escalations d)
      @ map sn_job_id (filter (\<lambda>s. \<not> consistent active s \<and> \<not> (cc_repair_enabled cfg \<and> repairable s)) snaps)
    \<and> cd_repaired_job_ids d' = cd_repaired_job_ids d
      \<union> sn_job_id ` set (filter (\<lambda>s. \<not> consistent active s \<and> cc_repair_enabled cfg \<and> repairable s) snaps)"
  using assms
proof (induction snaps arbitrary: d)
  case Nil
  then show ?case by simp
next
  case (Cons snap snaps)
  let ?d1 = "check_snapshot e cfg active ts snap d"
  have d': "d' = fold (check_snapshot e cfg active ts) snaps ?d1" using Cons.prems by simp
  note IH = Cons.IH [OF d']
  show ?case
  proof (cases "detect_inconsistencies e snap active ts")
    case None
    then have "?d1 = d" by (simp add: check_snapshot_def)
    moreover have "consistent active snap" using None detect_inconsistencies_iff(1) by blast
    ultimately show ?thesis using IH by simp
  next
    case (Some inc)
    then have bad: "\<not> consistent active snap" "ic_job_id inc = sn_job_id snap"
      using detect_inconsistencies_iff [of e snap active ts] by auto
    show ?thesis
    proof (cases "attempt_auto_repair e cfg snap ts")
      case None
      then have "\<not> (cc_repair_enabled cfg \<and> repairable snap)"
        using attempt_auto_repair_iff(1) [of e cfg snap ts] by simp
      with IH Some None bad show ?thesis by (auto simp: check_snapshot_def build_escalation_def)
    next
      case (Some r)
      then have "cc_repair_enabled cfg \<and> repairable snap" "ar_job_id r = sn_job_id snap"
        using attempt_auto_repair_iff [of e cfg snap ts] by auto
      with IH Some bad \<open>detect_inconsistencies e snap active ts = Some inc\<close> show ?thesis
        by (auto simp: check_snapshot_def)
    qed
  qed
qed

text \<open>Every disagreement between the layers is answered exactly once: the inconsistencies name, in
  order, precisely the jobs whose snapshots are not consistent, and each of them gets either the one
  allowed repair, when repair is enabled and its shape is one of the three repairable ones, or an
  escalation under its id; a last escalation without id is added precisely when there are more
  inconsistencies than the limit.\<close>

lemma consistency_partition:
  "let d = consistency_evaluate e cfg snaps active ts;
       bad = filter (\<lambda>s. \<not> consistent active s) snaps;
       fixed = (\<lambda>s. cc_repair_enabled cfg \<and> repairable s)
   in map ic_job_id (cd_inconsistencies d) = map sn_job_id bad
    \<and> map ar_job_id (cd_auto_repairs d) = map sn_job_id (filter fixed bad)
    \<and> cd_repaired_job_ids d = sn_job_id ` set (filter fixed bad)
    \<and> map ce_job_id (cd_escalations d) = map sn_job_id (filter (\<lambda>s. \<not> fixed s) bad)
        @ (if int (length bad) > cc_max_inconsistencies_per_window cfg then [[]] else [])"
proof -
  let ?d0 = "\<lparr>cd_inconsistencies = [], cd_auto_repairs = [], cd_escalations = [],
      cd_repaired_job_ids = {}\<rparr>"
  note c = check_snapshots [OF refl, of e cfg active ts snaps ?d0]
  have "length (cd_inconsistencies (fold (check_snapshot e cfg active ts) snaps ?d0))
      = length (filter (\<lambda>s. \<not> consistent active s) snaps)"
    using c by (metis append_Nil length_map list.map(1) consistency_decision.select_convs(1))
  with c show ?thesis
    by (simp add: consistency_evaluate_def Let_def build_escalation_def conj_ac)
qed

text \<open>The supervisor does not speak the store's language: it compares the store's state with
  \<open>queued\<close> and \<open>processing\<close>, which are no values of \<open>JobState\<close>, so on a snapshot that holds the
  state of a stored job, with its assigned worker alive, the only thing it ever finds inconsistent is
  a succeeded or failed job the scheduler still holds; a running job no worker claims, or two claim,
  passes.\<close>

lemma store_states_not_checked:
  "(detect_inconsistencies e
      \<lparr>sn_job_id = i, sn_s2_state = state_value st, sn_s3_has_job = held, sn_s3_worker_id = w,
       sn_s4_worker_ids = claims\<rparr> (case w of None \<Rightarrow> active | Some x \<Rightarrow> x # active) ts \<noteq> None) =
   ((st = SUCCEEDED \<or> st = FAILED) \<and> held)"
  by (cases st; cases w) (simp_all add: detect_inconsistencies_iff(1) consistent_def)

end
