(* ===== verification/WorkflowGraph.thy ===== *)
theory WorkflowGraph
  imports Prelude
begin

text \<open>
  Workflow definitions and their registry: the models and validators of
  \<^verbatim>\<open>agent/workflow/workflow_definition.py\<close> and \<^verbatim>\<open>agent/workflow/registry.py\<close>.  A definition is a
  graph of steps; the validation asks that every transition target exists and runs Kahn's
  algorithm over the \<open>on_success\<close> edges.  The errors pydantic collects while it validates the
  fields are a list; \<open>LiteralError\<close> is the entry it makes for a \<open>step_type\<close> outside the literal.
\<close>

subsection \<open>Data\<close>

record workflow_step =
  ws_step_id :: string
  ws_step_type :: string
  ws_label :: string
  ws_description :: "string option"
  ws_config :: "json pydict"
  ws_transitions :: "string pydict"
  ws_timeout_seconds :: "rat option"
  ws_retry_policy :: "json pydict option"

record workflow_definition =
  wd_workflow_id :: string
  wd_name :: string
  wd_description :: string
  wd_version :: string
  wd_trigger_on :: "string list"
  wd_input_schema :: "json pydict option"
  wd_steps :: "workflow_step pydict"
  wd_start_step :: string
  wd_shared_context_schema :: "json pydict option"
  wd_timeout :: "rat option"
  wd_required_agent_tags :: "string list"

definition VALID_STEP_TYPES :: "string list" where
  "VALID_STEP_TYPES =
     [''llm_call'', ''tool_execute'', ''sub_workflow'', ''user_input'', ''condition'',
      ''apply_pattern'', ''council_deliberate'']"

definition END_TARGET :: string where
  "END_TARGET = ''__end__''"

datatype validation_error =
    LiteralError string
  | FieldError string pyexn
  | GraphError pyexn

subsection \<open>Field validators\<close>

definition step_id_not_empty :: "string \<Rightarrow> string result" where
  "step_id_not_empty v =
     (if v = [] then Inl (ValueError ''step_id must be non-empty'') else Inr v)"

definition label_not_empty :: "string \<Rightarrow> string result" where
  "label_not_empty v = (if v = [] then Inl (ValueError ''label must be non-empty'') else Inr v)"

definition transition_keys :: "string list" where
  "transition_keys = [''on_cancel'', ''on_failure'', ''on_success'', ''on_timeout'']"

text \<open>The text of a list of strings.\<close>

fun comma_quoted :: "string list \<Rightarrow> string" where
  "comma_quoted [] = []"
| "comma_quoted [s] = quoted s"
| "comma_quoted (s # ss) = quoted s @ '', '' @ comma_quoted ss"

definition validate_transitions :: "string pydict \<Rightarrow> string pydict result" where
  "validate_transitions v =
     (if v = [] then
        Inl (ValueError (''transitions must contain at least one of '' @
          ''on_success, on_failure, on_timeout, on_cancel''))
      else (case filter (\<lambda>key. key \<notin> set transition_keys) (dict_keys v) of
          key # _ \<Rightarrow>
            Inl (ValueError (''invalid transition key '' @ quoted key @ ''; valid: ['' @
              comma_quoted transition_keys @ '']''))
        | [] \<Rightarrow> Inr v))"

definition field_error :: "string \<Rightarrow> 'a result \<Rightarrow> validation_error list" where
  "field_error field r = (case r of Inl e \<Rightarrow> [FieldError field e] | Inr _ \<Rightarrow> [])"

text \<open>A validator of a field with a default runs only where the field is given, so a step whose
  transitions are left out gets none and no error.  \<open>given\<close> says whether the mapping of the step has
  the key.\<close>

definition step_errors :: "bool \<Rightarrow> workflow_step \<Rightarrow> validation_error list" where
  "step_errors given s =
     field_error ''step_id'' (step_id_not_empty (ws_step_id s)) @
     (if ws_step_type s \<in> set VALID_STEP_TYPES then [] else [LiteralError ''step_type'']) @
     field_error ''label'' (label_not_empty (ws_label s)) @
     (if given then field_error ''transitions'' (validate_transitions (ws_transitions s)) else [])"

definition wf_id_not_empty :: "string \<Rightarrow> string result" where
  "wf_id_not_empty v =
     (if v = [] then Inl (ValueError ''workflow_id must be non-empty'') else Inr v)"

definition name_not_empty :: "string \<Rightarrow> string result" where
  "name_not_empty v = (if v = [] then Inl (ValueError ''name must be non-empty'') else Inr v)"

definition steps_not_empty :: "workflow_step pydict \<Rightarrow> workflow_step pydict result" where
  "steps_not_empty v = (if v = [] then Inl (ValueError ''steps dict must not be empty'') else Inr v)"

definition start_step_not_empty :: "string \<Rightarrow> string result" where
  "start_step_not_empty v =
     (if v = [] then Inl (ValueError ''start_step must be non-empty'') else Inr v)"

definition start_step_exists :: "workflow_step pydict \<Rightarrow> string \<Rightarrow> string result" where
  "start_step_exists steps v =
     (if v \<notin> set (dict_keys steps)
      then Inl (ValueError (''start_step '' @ quoted v @ '' does not exist in steps'')) else Inr v)"

text \<open>The errors of \<open>steps\<close>: those of the nested steps, else those of its own validator.\<close>

definition steps_errors ::
  "(string \<Rightarrow> bool) \<Rightarrow> workflow_step pydict \<Rightarrow> validation_error list"
where
  "steps_errors given steps =
     (case concat (map (\<lambda>(sid, s). step_errors (given sid) s) steps) of
        [] \<Rightarrow> field_error ''steps'' (steps_not_empty steps)
      | es \<Rightarrow> es)"

text \<open>\<open>steps\<close> is in the validated data of \<open>start_step\<close> only if it has no error of its own.\<close>

definition start_step_errors ::
  "(string \<Rightarrow> bool) \<Rightarrow> workflow_step pydict \<Rightarrow> string \<Rightarrow> validation_error list"
where
  "start_step_errors given steps v =
     (case start_step_not_empty v of
        Inl e \<Rightarrow> [FieldError ''start_step'' e]
      | Inr v \<Rightarrow>
          if steps_errors given steps = [] then field_error ''start_step'' (start_step_exists steps v)
          else [])"

definition field_errors :: "(string \<Rightarrow> bool) \<Rightarrow> workflow_definition \<Rightarrow> validation_error list" where
  "field_errors given d =
     field_error ''workflow_id'' (wf_id_not_empty (wd_workflow_id d)) @
     field_error ''name'' (name_not_empty (wd_name d)) @
     steps_errors given (wd_steps d) @
     start_step_errors given (wd_steps d) (wd_start_step d)"

subsection \<open>Graph validation\<close>

fun check_targets :: "workflow_step pydict \<Rightarrow> string \<Rightarrow> (string \<times> string) list \<Rightarrow> unit result" where
  "check_targets steps step_id [] = Inr ()"
| "check_targets steps step_id ((key, target) # ts) =
     (if target = END_TARGET then check_targets steps step_id ts
      else if target \<notin> set (dict_keys steps) then
        Inl (ValueError (''step '' @ quoted step_id @ '' transitions.'' @ key @
          '' references non-existent step '' @ quoted target))
      else check_targets steps step_id ts)"

fun check_all_targets ::
  "workflow_step pydict \<Rightarrow> (string \<times> workflow_step) list \<Rightarrow> unit result"
where
  "check_all_targets steps [] = Inr ()"
| "check_all_targets steps ((step_id, s) # rest) =
     (case check_targets steps step_id (ws_transitions s) of
        Inl e \<Rightarrow> Inl e
      | Inr _ \<Rightarrow> check_all_targets steps rest)"

definition validate_no_orphan_steps :: "workflow_step pydict \<Rightarrow> unit result" where
  "validate_no_orphan_steps steps = check_all_targets steps steps"

definition validate_no_duplicate_ids :: "workflow_step pydict \<Rightarrow> unit result" where
  "validate_no_duplicate_ids steps = Inr ()"

text \<open>The adjacency lists and in-degrees of the \<open>on_success\<close> edges.\<close>

definition add_edge ::
  "string \<times> workflow_step \<Rightarrow> string list pydict \<times> int pydict \<Rightarrow> string list pydict \<times> int pydict"
where
  "add_edge = (\<lambda>(step_id, s) (adjacency, in_degree).
     (case dict_get (ws_transitions s) ''on_success'' of
        None \<Rightarrow> (adjacency, in_degree)
      | Some target \<Rightarrow>
          if target \<noteq> [] \<and> target \<noteq> END_TARGET \<and> target \<in> set (dict_keys adjacency) then
            (dict_set adjacency step_id (dict_get_or adjacency step_id [] @ [target]),
             dict_set in_degree target (dict_get_or in_degree target 0 + 1))
          else (adjacency, in_degree)))"

definition build_graph :: "workflow_step pydict \<Rightarrow> string list pydict \<times> int pydict" where
  "build_graph steps =
     fold add_edge steps (map (\<lambda>(sid, _). (sid, [])) steps, map (\<lambda>(sid, _). (sid, 0)) steps)"

fun relax :: "string list \<Rightarrow> int pydict \<Rightarrow> string list \<Rightarrow> int pydict \<times> string list" where
  "relax [] in_degree queue = (in_degree, queue)"
| "relax (neighbor # ns) in_degree queue =
     (let in_degree = dict_set in_degree neighbor (dict_get_or in_degree neighbor 0 - 1)
      in relax ns in_degree
           (if dict_get_or in_degree neighbor 0 = 0 then queue @ [neighbor] else queue))"

text \<open>The loop over the queue; a node enters the queue at most once, so the number of steps is
  enough fuel.\<close>

fun kahn ::
  "nat \<Rightarrow> string list pydict \<Rightarrow> int pydict \<Rightarrow> string list \<Rightarrow> nat \<Rightarrow> (int pydict \<times> nat) option"
where
  "kahn fuel adjacency in_degree [] visited = Some (in_degree, visited)"
| "kahn 0 adjacency in_degree (current # queue) visited = None"
| "kahn (Suc fuel) adjacency in_degree (current # queue) visited =
     (case relax (dict_get_or adjacency current []) in_degree queue of
        (in_degree, queue) \<Rightarrow> kahn fuel adjacency in_degree queue (Suc visited))"

definition cycle_error :: "nat \<Rightarrow> nat \<Rightarrow> pyexn" where
  "cycle_error visited n =
     ValueError (''workflow graph contains a cycle '' @ em_dash @ '' topological sort visited '' @
       nat_digits visited @ ''/'' @ nat_digits n @ '' nodes'')"

definition validate_graph_is_acyclic :: "workflow_step pydict \<Rightarrow> unit result option" where
  "validate_graph_is_acyclic steps =
     (let (adjacency, in_degree) = build_graph steps;
          queue = filter (\<lambda>sid. dict_get_or in_degree sid 0 = 0) (dict_keys in_degree)
      in case kahn (length steps) adjacency in_degree queue 0 of
           None \<Rightarrow> None
         | Some (in_degree, visited) \<Rightarrow>
             Some (if visited \<noteq> length steps then
                     let unvisited = filter (\<lambda>(sid, _). dict_get_or in_degree sid 0 \<noteq> 0) steps
                     in if \<not> list_ex (\<lambda>(_, s). ws_step_type s = ''condition'') unvisited
                        then Inl (cycle_error visited (length steps))
                        else Inr ()
                   else Inr ()))"

definition model_post_init :: "workflow_definition \<Rightarrow> unit result option" where
  "model_post_init d =
     (case validate_no_orphan_steps (wd_steps d) of
        Inl e \<Rightarrow> Some (Inl e)
      | Inr _ \<Rightarrow>
          (case validate_no_duplicate_ids (wd_steps d) of
             Inl e \<Rightarrow> Some (Inl e)
           | Inr _ \<Rightarrow> validate_graph_is_acyclic (wd_steps d)))"

text \<open>The defaults of the transitions that are not given.\<close>

definition with_defaults :: "(string \<Rightarrow> bool) \<Rightarrow> workflow_definition \<Rightarrow> workflow_definition" where
  "with_defaults given d =
     d\<lparr>wd_steps := map (\<lambda>(sid, s). (sid, if given sid then s else s\<lparr>ws_transitions := []\<rparr>)) (wd_steps d)\<rparr>"

text \<open>\<open>WorkflowDefinition.model_validate\<close> of a mapping with the declared fields, in which the steps
  may or may not have transitions.\<close>

definition model_validate ::
  "(string \<Rightarrow> bool) \<Rightarrow> workflow_definition \<Rightarrow> (validation_error list + workflow_definition) option"
where
  "model_validate given raw =
     (let d = with_defaults given raw
      in case field_errors given d of
           e # es \<Rightarrow> Some (Inl (e # es))
         | [] \<Rightarrow>
             (case model_post_init d of
                None \<Rightarrow> None
              | Some (Inl e) \<Rightarrow> Some (Inl [GraphError e])
              | Some (Inr _) \<Rightarrow> Some (Inr d)))"

subsection \<open>The registry\<close>

type_synonym workflow_registry = "workflow_definition pydict"

definition DuplicateWorkflowError :: "string \<Rightarrow> pyexn" where
  "DuplicateWorkflowError wid =
     PyExn ''src.agent.workflow.registry'' ''DuplicateWorkflowError''
       (''workflow '' @ quoted wid @ '' already registered'')"

definition registry_register ::
  "workflow_definition \<Rightarrow> workflow_registry \<Rightarrow> workflow_registry result"
where
  "registry_register defn reg =
     (case dict_get reg (wd_workflow_id defn) of
        Some existing \<Rightarrow>
          if existing = defn then Inr reg
          else Inl (DuplicateWorkflowError (wd_workflow_id defn))
      | None \<Rightarrow> Inr (dict_set reg (wd_workflow_id defn) defn))"

definition registry_get :: "workflow_registry \<Rightarrow> string \<Rightarrow> workflow_definition option" where
  "registry_get reg workflow_id = dict_get reg workflow_id"

definition registry_list :: "workflow_registry \<Rightarrow> workflow_definition list" where
  "registry_list reg = map snd reg"

definition find_by_trigger :: "workflow_registry \<Rightarrow> string \<Rightarrow> workflow_definition list" where
  "find_by_trigger reg event_type =
     filter (\<lambda>defn. event_type \<in> set (wd_trigger_on defn)) (map snd reg)"

definition workflow_count :: "workflow_registry \<Rightarrow> nat" where
  "workflow_count reg = length reg"

definition has_workflow :: "workflow_registry \<Rightarrow> string \<Rightarrow> bool" where
  "has_workflow reg workflow_id \<longleftrightarrow> workflow_id \<in> set (dict_keys reg)"

subsection \<open>Kahn's algorithm on a graph of out-degree one\<close>

text \<open>Where every node of a finite set has a predecessor in it and no node has two successors,
  every node lies on a cycle.\<close>

lemma backward_closed_cyclic:
  assumes fin: "finite R" and sv: "single_valued E"
    and pred: "\<And>v. v \<in> R \<Longrightarrow> \<exists>u \<in> R. (u, v) \<in> E"
    and v: "v \<in> R"
  shows "(v, v) \<in> E\<^sup>+"
proof -
  define f where "f u = (if u \<in> R \<and> (\<exists>w. (u, w) \<in> E) then THE w. (u, w) \<in> E else u)" for u
  have f: "f u = w" if "u \<in> R" "(u, w) \<in> E" for u w
  proof -
    have "(THE w. (u, w) \<in> E) = w"
      using that sv by (intro the_equality) (auto dest: single_valuedD)
    with that show ?thesis by (auto simp: f_def)
  qed
  have "R \<subseteq> f ` R" using pred f by (metis image_eqI subsetI)
  then have inj: "inj_on f R" by (rule finite_surj_inj [OF fin])
  have surj: "f ` R = R"
    using card_seteq [OF finite_imageI [OF fin] \<open>R \<subseteq> f ` R\<close>] card_image_le [OF fin, of f] by simp
  have edge: "(u, f u) \<in> E" if "u \<in> R" for u
  proof -
    from that surj obtain w where w: "w \<in> R" "f u = w" by blast
    from pred [OF w(1)] obtain u' where u': "u' \<in> R" "(u', w) \<in> E" by blast
    then have "f u' = f u" using f w by simp
    with inj u' that have "u' = u" by (auto dest: inj_onD)
    with u' w show ?thesis by simp
  qed
  have inj_UNIV: "inj f"
  proof (rule injI)
    fix x y
    assume eq: "f x = f y"
    have out: "u \<notin> R \<Longrightarrow> f u = u" for u by (simp add: f_def)
    show "x = y"
      using eq inj surj out by (metis imageI inj_onD)
  qed
  have stay: "(f ^^ n) v \<in> R" for n
    using v surj by (induction n) auto
  have "finite {y. \<exists>n. y = (f ^^ n) v}"
    using fin stay by (auto intro: finite_subset [of _ R])
  then obtain n where n: "n > 0" "(f ^^ n) v = v"
    using funpow_inj_finite [OF inj_UNIV] by metis
  have "(v, (f ^^ Suc m) v) \<in> E\<^sup>+" for m
  proof (induction m)
    case 0
    then show ?case using edge [OF v] by auto
  next
    case (Suc m)
    with edge [OF stay [of "Suc m"]] show ?case by (metis funpow.simps(2) o_apply trancl.trancl_into_trancl)
  qed
  from this [of "n - 1"] n show ?thesis by simp
qed

lemma cycle_predecessor:
  assumes "(v, v) \<in> E\<^sup>+"
  obtains u where "(u, v) \<in> E" "(u, u) \<in> E\<^sup>+"
  using assms by (metis tranclD2 rtrancl_into_trancl2)

definition unprocessed :: "'a set \<Rightarrow> ('a \<times> 'a) set \<Rightarrow> 'a set \<Rightarrow> 'a \<Rightarrow> 'a set" where
  "unprocessed V E D v = {u \<in> V - D. (u, v) \<in> E}"

definition kahn_inv ::
  "string set \<Rightarrow> (string \<times> string) set \<Rightarrow> int pydict \<Rightarrow> string list \<Rightarrow> string set \<Rightarrow> bool"
where
  "kahn_inv V E deg queue D \<longleftrightarrow>
     D \<subseteq> V \<and> set queue \<subseteq> V \<and> distinct queue \<and> set queue \<inter> D = {} \<and>
     (\<forall>v \<in> V. dict_get deg v = Some (int (card (unprocessed V E D v)))) \<and>
     (\<forall>v \<in> V. v \<in> D \<union> set queue \<longleftrightarrow> card (unprocessed V E D v) = 0) \<and>
     (\<forall>v \<in> D. (v, v) \<notin> E\<^sup>+)"

definition adjacency_ok :: "string set \<Rightarrow> (string \<times> string) set \<Rightarrow> string list pydict \<Rightarrow> bool" where
  "adjacency_ok V E adj \<longleftrightarrow>
     E \<subseteq> V \<times> V \<and> (\<forall>a \<in> V. \<exists>bs. dict_get adj a = Some bs \<and> set bs = E `` {a} \<and> length bs \<le> 1)"

lemma adjacency_single_valued:
  assumes "adjacency_ok V E adj"
  shows "single_valued E"
proof (rule single_valuedI)
  fix a b c
  assume ab: "(a, b) \<in> E" and ac: "(a, c) \<in> E"
  with assms have "a \<in> V" by (auto simp: adjacency_ok_def)
  with assms obtain bs where "set bs = E `` {a}" "length bs \<le> 1"
    unfolding adjacency_ok_def by blast
  then have "b \<in> set bs" "c \<in> set bs" using ab ac by auto
  with \<open>length bs \<le> 1\<close> show "b = c" by (cases bs) auto
qed

lemma unprocessed_insert:
  "unprocessed V E (insert c D) v = unprocessed V E D v - {c}"
  by (auto simp: unprocessed_def)

lemma relax_inv:
  assumes adj: "adjacency_ok V E adj" and fin: "finite V"
    and inv: "kahn_inv V E deg (c # queue) D"
    and run: "relax (dict_get_or adj c []) deg queue = (deg', queue')"
  shows "kahn_inv V E deg' queue' (insert c D)"
proof -
  note I = inv [unfolded kahn_inv_def]
  have c: "c \<in> V" "c \<notin> D" "c \<notin> set queue" using I by auto
  have fu: "finite (unprocessed V E D v)" for v
    using fin by (auto simp: unprocessed_def)
  have c0: "unprocessed V E D c = {}" using I c fu by auto
  have nocyc: "(c, c) \<notin> E\<^sup>+"
  proof
    assume "(c, c) \<in> E\<^sup>+"
    then obtain u where u: "(u, c) \<in> E" "(u, u) \<in> E\<^sup>+" by (rule cycle_predecessor)
    with c0 adj have "u \<in> D" by (auto simp: unprocessed_def adjacency_ok_def)
    with u I show False by blast
  qed
  from adj c obtain bs where bs: "dict_get adj c = Some bs" "set bs = E `` {c}" "length bs \<le> 1"
    by (auto simp: adjacency_ok_def)
  show ?thesis
  proof (cases bs)
    case Nil
    then have "(c, v) \<notin> E" for v using bs by auto
    then have same: "unprocessed V E (insert c D) v = unprocessed V E D v" for v
      by (auto simp: unprocessed_def)
    from run bs Nil have "deg' = deg" "queue' = queue" by (simp_all add: dict_get_or_def)
    then show ?thesis using I c nocyc by (auto simp: kahn_inv_def same)
  next
    case (Cons b bs')
    then have b: "bs = [b]" using bs(3) by simp
    have "E `` {c} = set bs" using bs(2) by (rule sym)
    also have "\<dots> = {b}" using b by simp
    finally have succ: "E `` {c} = {b}" .
    have cb: "(c, b) \<in> E" using succ Image_singleton_iff [of b E c] by simp
    have only: "v = b" if "(c, v) \<in> E" for v
      using that succ Image_singleton_iff [of v E c] by simp
    have bV: "b \<in> V" using adj cb by (auto simp: adjacency_ok_def)
    have cin: "c \<in> unprocessed V E D b" using c cb by (simp add: unprocessed_def)
    then have pos: "card (unprocessed V E D b) > 0" using fu by (auto simp: card_gt_0_iff)
    then have bnew: "b \<notin> D" "b \<noteq> c" "b \<notin> set queue" using I bV c0 cin by auto
    have new: "card (unprocessed V E (insert c D) v) =
        (if v = b then card (unprocessed V E D b) - 1 else card (unprocessed V E D v))" for v
    proof (cases "v = b")
      case True
      then show ?thesis using cin fu by (simp add: unprocessed_insert card_Diff_singleton)
    next
      case False
      then have "c \<notin> unprocessed V E D v" using only by (auto simp: unprocessed_def)
      with False show ?thesis by (simp add: unprocessed_insert)
    qed
    have degb: "dict_get_or deg b 0 = int (card (unprocessed V E D b))"
      using I bV by (simp add: dict_get_or_def)
    have deg': "deg' = dict_set deg b (int (card (unprocessed V E D b)) - 1)"
      and queue': "queue' = (if card (unprocessed V E D b) = 1 then queue @ [b] else queue)"
      using run bs b degb by (auto simp: dict_get_or_def [of adj] Let_def split: if_splits)
    show ?thesis
      unfolding kahn_inv_def new
    proof (intro conjI)
      show "insert c D \<subseteq> V" "set queue' \<subseteq> V" "distinct queue'" "set queue' \<inter> insert c D = {}"
        using I c bV bnew by (auto simp: queue')
      show "\<forall>v \<in> V. dict_get deg' v = Some (int (if v = b then card (unprocessed V E D b) - 1
          else card (unprocessed V E D v)))"
        using I pos by (auto simp: deg' of_nat_diff)
      show "\<forall>v \<in> V. (v \<in> insert c D \<union> set queue') =
          ((if v = b then card (unprocessed V E D b) - 1 else card (unprocessed V E D v)) = 0)"
        using I pos bnew c0 by (auto simp: queue')
      show "\<forall>v \<in> insert c D. (v, v) \<notin> E\<^sup>+" using I nocyc by auto
    qed
  qed
qed

lemma kahn_correct:
  assumes "adjacency_ok V E adj" "finite V" "kahn_inv V E deg queue D" "card V \<le> fuel + card D"
  shows "\<exists>deg' D'. kahn fuel adj deg queue (card D) = Some (deg', card D') \<and> kahn_inv V E deg' [] D'"
  using assms(3,4)
proof (induction fuel arbitrary: deg queue D)
  case 0
  then have D: "D \<subseteq> V" "card D = card V"
    using assms(2) card_mono [of V D] by (auto simp: kahn_inv_def)
  then have "D = V" using assms(2) by (simp add: card_subset_eq)
  then have "queue = []" using "0.prems" by (cases queue) (auto simp: kahn_inv_def)
  with "0.prems" show ?case by auto
next
  case (Suc fuel)
  show ?case
  proof (cases queue)
    case Nil
    with Suc.prems show ?thesis by auto
  next
    case (Cons c q)
    obtain deg' q' where run: "relax (dict_get_or adj c []) deg q = (deg', q')" by fastforce
    have inv: "kahn_inv V E deg' q' (insert c D)"
      using relax_inv [OF assms(1,2) _ run] Suc.prems(1) Cons by simp
    have "c \<notin> D" "finite D"
      using Suc.prems(1) Cons assms(2) by (auto simp: kahn_inv_def intro: finite_subset)
    then have "card (insert c D) = Suc (card D)" by simp
    with Suc.IH [OF inv] Suc.prems(2) Cons run show ?thesis by simp
  qed
qed

lemma kahn_end:
  assumes adj: "adjacency_ok V E adj" and fin: "finite V" and inv: "kahn_inv V E deg [] D"
  shows "V - D = {v. (v, v) \<in> E\<^sup>+}"
    and "v \<in> V \<Longrightarrow> dict_get_or deg v 0 \<noteq> 0 \<longleftrightarrow> (v, v) \<in> E\<^sup>+"
proof -
  note I = inv [unfolded kahn_inv_def]
  have sub: "(v, v) \<in> E\<^sup>+ \<Longrightarrow> v \<in> V" for v
    using adj by (auto simp: adjacency_ok_def dest!: tranclD)
  show R: "V - D = {v. (v, v) \<in> E\<^sup>+}"
  proof (intro equalityI subsetI)
    fix v
    assume v: "v \<in> V - D"
    have "(v, v) \<in> E\<^sup>+"
    proof (rule backward_closed_cyclic [OF _ adjacency_single_valued [OF adj] _ v])
      show "finite (V - D)" using fin by simp
      fix w
      assume "w \<in> V - D"
      with I have "card (unprocessed V E D w) \<noteq> 0" by auto
      then have "unprocessed V E D w \<noteq> {}" by (metis card.empty)
      then show "\<exists>u \<in> V - D. (u, w) \<in> E" by (auto simp: unprocessed_def)
    qed
    then show "v \<in> {v. (v, v) \<in> E\<^sup>+}" by simp
  next
    fix v
    assume "v \<in> {v. (v, v) \<in> E\<^sup>+}"
    with sub I show "v \<in> V - D" by blast
  qed
  assume "v \<in> V"
  then have "dict_get_or deg v 0 \<noteq> 0 \<longleftrightarrow> v \<in> V - D"
    using I by (auto simp: dict_get_or_def)
  with R show "dict_get_or deg v 0 \<noteq> 0 \<longleftrightarrow> (v, v) \<in> E\<^sup>+" by auto
qed

subsection \<open>What the graph validation accepts\<close>

definition success_target :: "workflow_step \<Rightarrow> string option" where
  "success_target s =
     (case dict_get (ws_transitions s) ''on_success'' of
        None \<Rightarrow> None
      | Some t \<Rightarrow> if t \<noteq> [] \<and> t \<noteq> END_TARGET then Some t else None)"

definition success_edges :: "workflow_step pydict \<Rightarrow> (string \<times> string) set" where
  "success_edges steps =
     {(a, b). \<exists>s. dict_get steps a = Some s \<and> success_target s = Some b \<and> b \<in> set (dict_keys steps)}"

definition on_cycle :: "workflow_step pydict \<Rightarrow> string set" where
  "on_cycle steps = {a. (a, a) \<in> (success_edges steps)\<^sup>+}"

lemma success_edges_sub: "success_edges steps \<subseteq> set (dict_keys steps) \<times> set (dict_keys steps)"
  by (auto simp: success_edges_def dest: dict_get_in_keys)

lemma on_cycle_sub: "on_cycle steps \<subseteq> set (dict_keys steps)"
  using success_edges_sub by (fastforce simp: on_cycle_def dest: tranclD)

definition partial_edges :: "workflow_step pydict \<Rightarrow> string set \<Rightarrow> (string \<times> workflow_step) list \<Rightarrow> (string \<times> string) set" where
  "partial_edges steps V xs = {(a, b). \<exists>s. (a, s) \<in> set xs \<and> success_target s = Some b \<and> b \<in> V}"

lemma dict_get_const:
  "dict_get (map (\<lambda>(k, _). (k, c)) d) a = (if a \<in> set (dict_keys d) then Some c else None)"
  unfolding dict_get_def by (induction d) auto

lemma dict_keys_const: "dict_keys (map (\<lambda>(k, _). (k, c)) d) = dict_keys d"
  by (induction d) auto

lemma add_edge_eq:
  "add_edge (a, s) (adj, deg) =
     (case success_target s of
        None \<Rightarrow> (adj, deg)
      | Some t \<Rightarrow>
          if t \<in> set (dict_keys adj) then
            (dict_set adj a (dict_get_or adj a [] @ [t]), dict_set deg t (dict_get_or deg t 0 + 1))
          else (adj, deg))"
  by (simp add: add_edge_def success_target_def split: option.split)

lemma partial_edges_snoc:
  "partial_edges steps V (xs @ [(a, s)]) = partial_edges steps V xs \<union>
     (case success_target s of None \<Rightarrow> {} | Some b \<Rightarrow> if b \<in> V then {(a, b)} else {})"
  by (auto simp: partial_edges_def split: option.split)

lemma build_graph_inv:
  assumes V: "V = set (dict_keys steps)" and ok: "dict_ok xs" and sub: "set (dict_keys xs) \<subseteq> V"
    and run: "fold add_edge xs (map (\<lambda>(sid, _). (sid, [])) steps, map (\<lambda>(sid, _). (sid, 0)) steps) =
      (adj, deg)"
  shows "dict_keys adj = dict_keys steps \<and> dict_keys deg = dict_keys steps \<and>
     (\<forall>a \<in> V. \<exists>bs. dict_get adj a = Some bs \<and> set bs = partial_edges steps V xs `` {a} \<and>
        length bs \<le> 1) \<and>
     (\<forall>v \<in> V. dict_get deg v = Some (int (card {u. (u, v) \<in> partial_edges steps V xs})))"
  using ok sub run
proof (induction xs arbitrary: adj deg rule: rev_induct)
  case Nil
  have "adj = map (\<lambda>(sid, _). (sid, [])) steps" "deg = map (\<lambda>(sid, _). (sid, 0)) steps"
    using Nil.prems(3) by simp_all
  then show ?case
    by (simp add: dict_get_const dict_keys_const V partial_edges_def del: map_map)
next
  case (snoc x xs)
  obtain a s where x: "x = (a, s)" by (cases x)
  obtain adj1 deg1 where run1: "fold add_edge xs
      (map (\<lambda>(sid, _). (sid, [])) steps, map (\<lambda>(sid, _). (sid, 0)) steps) = (adj1, deg1)"
    by fastforce
  note IH = snoc.IH [OF _ _ run1]
  have fresh: "a \<notin> set (dict_keys xs)" and aV: "a \<in> V" using snoc.prems x by auto
  have I: "dict_keys adj1 = dict_keys steps" "dict_keys deg1 = dict_keys steps"
    and Ia: "\<And>a. a \<in> V \<Longrightarrow> \<exists>bs. dict_get adj1 a = Some bs \<and>
        set bs = partial_edges steps V xs `` {a} \<and> length bs \<le> 1"
    and Id: "\<And>v. v \<in> V \<Longrightarrow> dict_get deg1 v = Some (int (card {u. (u, v) \<in> partial_edges steps V xs}))"
    using IH snoc.prems by auto
  have step: "(adj, deg) = add_edge (a, s) (adj1, deg1)"
    using snoc.prems(3) run1 x by simp
  have none: "(a, b) \<notin> partial_edges steps V xs" for b
    using fresh by (force simp: partial_edges_def)
  have fin: "finite {u. (u, v) \<in> partial_edges steps V xs}" for v
    by (rule finite_subset [of _ "set (dict_keys xs)"]) (force simp: partial_edges_def)+
  show ?case
  proof (cases "\<exists>b. success_target s = Some b \<and> b \<in> V")
    case False
    then have "(adj, deg) = (adj1, deg1)"
      using step I V by (auto simp: add_edge_eq split: option.split)
    moreover have "partial_edges steps V (xs @ [x]) = partial_edges steps V xs"
      using False by (auto simp: x partial_edges_snoc split: option.split)
    ultimately show ?thesis using I Ia Id by simp
  next
    case True
    then obtain b where b: "success_target s = Some b" "b \<in> V" by blast
    have pe: "partial_edges steps V (xs @ [x]) = insert (a, b) (partial_edges steps V xs)"
      using b by (simp add: x partial_edges_snoc)
    obtain bs where bs: "dict_get adj1 a = Some bs" "set bs = partial_edges steps V xs `` {a}"
      using Ia [OF aV] by blast
    have "set bs = {}" unfolding bs(2) using none by auto
    then have "bs = []" by simp
    then have new: "adj = dict_set adj1 a [b]" "deg = dict_set deg1 b (dict_get_or deg1 b 0 + 1)"
      using step b bs(1) I V by (simp_all add: add_edge_eq dict_get_or_def)
    have keys: "dict_keys adj = dict_keys steps" "dict_keys deg = dict_keys steps"
      using I aV b(2) V by (simp_all add: new dict_keys_set)
    have A: "\<exists>bs. dict_get adj c = Some bs \<and> set bs = partial_edges steps V (xs @ [x]) `` {c} \<and>
        length bs \<le> 1" if "c \<in> V" for c
    proof (cases "c = a")
      case True
      have "partial_edges steps V (xs @ [x]) `` {a} = {b}" unfolding pe using none by auto
      with True show ?thesis by (simp add: new)
    next
      case False
      then have "partial_edges steps V (xs @ [x]) `` {c} = partial_edges steps V xs `` {c}"
        unfolding pe by auto
      with False Ia [OF that] show ?thesis by (simp add: new)
    qed
    have D: "dict_get deg v = Some (int (card {u. (u, v) \<in> partial_edges steps V (xs @ [x])}))"
      if "v \<in> V" for v
    proof (cases "v = b")
      case True
      have "{u. (u, b) \<in> partial_edges steps V (xs @ [x])} =
          insert a {u. (u, b) \<in> partial_edges steps V xs}"
        unfolding pe by auto
      then have "card {u. (u, b) \<in> partial_edges steps V (xs @ [x])} =
          Suc (card {u. (u, b) \<in> partial_edges steps V xs})"
        using none fin by simp
      with True show ?thesis using Id [OF b(2)] by (simp add: new dict_get_or_def)
    next
      case False
      then have "{u. (u, v) \<in> partial_edges steps V (xs @ [x])} =
          {u. (u, v) \<in> partial_edges steps V xs}"
        unfolding pe by auto
      with False show ?thesis using Id [OF that] by (simp add: new)
    qed
    from keys A D show ?thesis by blast
  qed
qed

lemma partial_edges_all:
  assumes "dict_ok steps"
  shows "partial_edges steps (set (dict_keys steps)) steps = success_edges steps"
  using assms by (auto simp: partial_edges_def success_edges_def dict_get_Some_iff)

lemma build_graph_correct:
  assumes ok: "dict_ok steps" and run: "build_graph steps = (adj, deg)"
  shows "adjacency_ok (set (dict_keys steps)) (success_edges steps) adj"
    and "kahn_inv (set (dict_keys steps)) (success_edges steps) deg
           (filter (\<lambda>sid. dict_get_or deg sid 0 = 0) (dict_keys deg)) {}"
proof -
  let ?V = "set (dict_keys steps)" and ?E = "success_edges steps"
  note I = build_graph_inv [OF refl ok subset_refl run [unfolded build_graph_def],
      unfolded partial_edges_all [OF ok]]
  show "adjacency_ok ?V ?E adj"
    using I success_edges_sub by (auto simp: adjacency_ok_def)
  obtain V E where V: "V = ?V" and E: "E = ?E" by simp
  have un: "unprocessed V E {} v = {u. (u, v) \<in> E}" for v
    unfolding V E using success_edges_sub by (auto simp: unprocessed_def)
  have keys: "set (dict_keys deg) = V" "distinct (dict_keys deg)" using I ok V by auto
  have get: "dict_get deg v = Some (int (card {u. (u, v) \<in> E}))" if "v \<in> V" for v
    using I that unfolding V E by blast
  have "kahn_inv V E deg (filter (\<lambda>sid. dict_get_or deg sid 0 = 0) (dict_keys deg)) {}"
    unfolding kahn_inv_def un by (simp add: keys get dict_get_or_def del: set_map)
  then show "kahn_inv ?V ?E deg (filter (\<lambda>sid. dict_get_or deg sid 0 = 0) (dict_keys deg)) {}"
    by (simp only: V E)
qed

text \<open>The validation terminates; it rejects exactly when the \<^verbatim>\<open>on_success\<close> edges have a cycle
  and no condition step lies on any cycle, and its error counts the steps outside the cycles.\<close>

lemma graph_validation_result:
  assumes ok: "dict_ok steps"
  shows "validate_graph_is_acyclic steps = Some
    (if on_cycle steps = {} \<or>
        (\<exists>a \<in> on_cycle steps. \<exists>s. dict_get steps a = Some s \<and> ws_step_type s = ''condition'')
     then Inr ()
     else Inl (cycle_error (length steps - card (on_cycle steps)) (length steps)))"
proof -
  let ?V = "set (dict_keys steps)" and ?E = "success_edges steps"
  obtain adj deg where g: "build_graph steps = (adj, deg)" by fastforce
  note G = build_graph_correct [OF ok g]
  have n: "card ?V = length steps" using distinct_card [OF ok] by simp
  obtain deg' D where run: "kahn (length steps) adj deg
        (filter (\<lambda>sid. dict_get_or deg sid 0 = 0) (dict_keys deg)) 0 = Some (deg', card D)"
    and inv: "kahn_inv ?V ?E deg' [] D"
    using kahn_correct [OF G(1) _ G(2), of "length steps"] n by auto
  note E = kahn_end [OF G(1) _ inv, folded on_cycle_def]
  have D: "D \<subseteq> ?V" using inv by (simp add: kahn_inv_def)
  have cyc: "?V - D = on_cycle steps" using E(1) by (simp add: on_cycle_def)
  have cD: "card D = length steps - card (on_cycle steps)"
  proof -
    have fin: "finite ?V" "finite D" using finite_subset [OF D] by simp_all
    have "card (on_cycle steps) = card ?V - card D"
      unfolding cyc [symmetric] by (rule card_Diff_subset [OF fin(2) D])
    moreover have "card D \<le> card ?V" by (rule card_mono [OF fin(1) D])
    ultimately show ?thesis unfolding n by arith
  qed
  have all: "card D = length steps \<longleftrightarrow> on_cycle steps = {}"
  proof
    assume "card D = length steps"
    with n have "D = ?V" by (intro card_subset_eq [OF _ D]) simp_all
    then show "on_cycle steps = {}" unfolding cyc [symmetric] by blast
  next
    assume "on_cycle steps = {}"
    then have "D = ?V" using cyc D by blast
    then show "card D = length steps" using n by simp
  qed
  have guard: "list_ex (\<lambda>(_, s). ws_step_type s = ''condition'')
        (filter (\<lambda>(sid, _). dict_get_or deg' sid 0 \<noteq> 0) steps) \<longleftrightarrow>
      (\<exists>a \<in> on_cycle steps. \<exists>s. dict_get steps a = Some s \<and> ws_step_type s = ''condition'')"
  proof -
    have mem: "dict_get_or deg' a 0 \<noteq> 0 \<longleftrightarrow> a \<in> on_cycle steps" if "(a, s) \<in> set steps" for a s
      using E(2) [of a] that by (force simp: on_cycle_def)
    have "list_ex (\<lambda>(_, s). ws_step_type s = ''condition'')
          (filter (\<lambda>(sid, _). dict_get_or deg' sid 0 \<noteq> 0) steps) \<longleftrightarrow>
        (\<exists>a s. (a, s) \<in> set steps \<and> dict_get_or deg' a 0 \<noteq> 0 \<and> ws_step_type s = ''condition'')"
      by (auto simp: list_ex_iff)
    also have "\<dots> \<longleftrightarrow> (\<exists>a s. (a, s) \<in> set steps \<and> a \<in> on_cycle steps \<and> ws_step_type s = ''condition'')"
      using mem by blast
    finally show ?thesis by (auto simp only: dict_get_Some_iff [OF ok])
  qed
  show ?thesis
    by (simp add: validate_graph_is_acyclic_def g run guard all [unfolded cD] cD)
qed

subsection \<open>Accepted definitions\<close>

definition accepted :: "workflow_definition \<Rightarrow> bool" where
  "accepted d \<longleftrightarrow> (\<exists>given raw. model_validate given raw = Some (Inr d))"

lemma field_error_Nil [simp]: "field_error f r = [] \<longleftrightarrow> \<not> isl r"
  by (cases r) (auto simp: field_error_def)

lemma model_validate_Inr:
  "model_validate given raw = Some (Inr d) \<longleftrightarrow>
     d = with_defaults given raw \<and> field_errors given d = [] \<and> model_post_init d = Some (Inr ())"
  by (auto simp: model_validate_def Let_def split: list.splits option.splits sum.splits)

lemma acceptedI: "model_validate (\<lambda>_. True) d = Some (Inr d) \<Longrightarrow> accepted d"
  unfolding accepted_def by blast

lemma accepted_parts:
  assumes "accepted d"
  shows "\<exists>given. field_errors given d = []" "validate_no_orphan_steps (wd_steps d) = Inr ()"
    "validate_graph_is_acyclic (wd_steps d) = Some (Inr ())"
proof -
  from assms have "model_post_init d = Some (Inr ())" by (auto simp: accepted_def model_validate_Inr)
  then show "validate_no_orphan_steps (wd_steps d) = Inr ()"
    "validate_graph_is_acyclic (wd_steps d) = Some (Inr ())"
    by (auto simp: model_post_init_def validate_no_duplicate_ids_def split: sum.splits)
  show "\<exists>given. field_errors given d = []" using assms by (auto simp: accepted_def model_validate_Inr)
qed

lemma check_targets_Inr:
  "check_targets steps sid ts = Inr () \<longleftrightarrow>
     (\<forall>(k, t) \<in> set ts. t = END_TARGET \<or> t \<in> set (dict_keys steps))"
  by (induction steps sid ts rule: check_targets.induct) auto

lemma check_all_targets_Inr:
  "check_all_targets steps xs = Inr () \<longleftrightarrow>
     (\<forall>(sid, s) \<in> set xs. check_targets steps sid (ws_transitions s) = Inr ())"
  by (induction steps xs rule: check_all_targets.induct) (auto split: sum.splits)

lemma accepted_target:
  assumes "accepted d" "dict_get (wd_steps d) a = Some s" "dict_get (ws_transitions s) k = Some t"
  shows "t = END_TARGET \<or> t \<in> set (dict_keys (wd_steps d))"
proof -
  have "check_targets (wd_steps d) a (ws_transitions s) = Inr ()"
    using accepted_parts(2) [OF assms(1)] dict_get_SomeD [OF assms(2)]
    by (auto simp: validate_no_orphan_steps_def check_all_targets_Inr)
  with dict_get_SomeD [OF assms(3)] show ?thesis by (auto simp: check_targets_Inr)
qed

lemma accepted_step_type:
  assumes "accepted d" "(a, s) \<in> set (wd_steps d)"
  shows "ws_step_type s \<in> set VALID_STEP_TYPES"
proof -
  obtain given where "steps_errors given (wd_steps d) = []"
    using accepted_parts(1) [OF assms(1)] by (auto simp: field_errors_def)
  then have "concat (map (\<lambda>(sid, s). step_errors (given sid) s) (wd_steps d)) = []"
    by (auto simp: steps_errors_def split: list.splits)
  with assms(2) have "step_errors (given a) s = []" by (auto simp: concat_eq_Nil_conv)
  then show ?thesis by (simp add: step_errors_def split: if_splits)
qed

lemma accepted_start:
  assumes "accepted d"
  shows "wd_start_step d \<in> set (dict_keys (wd_steps d))"
proof -
  obtain given where "start_step_errors given (wd_steps d) (wd_start_step d) = []"
      "steps_errors given (wd_steps d) = []"
    using accepted_parts(1) [OF assms] by (auto simp: field_errors_def)
  then show ?thesis
    by (auto simp: start_step_errors_def start_step_exists_def start_step_not_empty_def
        split: if_splits)
qed

lemma accepted_cycles:
  assumes "accepted d" "dict_ok (wd_steps d)"
  shows "on_cycle (wd_steps d) = {} \<or>
    (\<exists>a \<in> on_cycle (wd_steps d). \<exists>s. dict_get (wd_steps d) a = Some s \<and>
       ws_step_type s = ''condition'')"
  using accepted_parts(3) [OF assms(1)] graph_validation_result [OF assms(2)]
  by (auto split: if_splits)

definition step_ok :: "workflow_step pydict \<Rightarrow> workflow_step \<Rightarrow> bool" where
  "step_ok steps s \<longleftrightarrow>
     ws_step_id s \<noteq> [] \<and> ws_label s \<noteq> [] \<and> ws_step_type s \<in> set VALID_STEP_TYPES \<and>
     (\<forall>(k, t) \<in> set (ws_transitions s).
        k \<in> set transition_keys \<and> (t = END_TARGET \<or> t \<in> set (dict_keys steps)))"

lemma step_errors_Nil:
  "step_errors given s = [] \<longleftrightarrow> ws_step_id s \<noteq> [] \<and> ws_label s \<noteq> [] \<and>
     ws_step_type s \<in> set VALID_STEP_TYPES \<and>
     (given \<longrightarrow> ws_transitions s \<noteq> [] \<and> (\<forall>(k, t) \<in> set (ws_transitions s). k \<in> set transition_keys))"
proof -
  have "\<not> isl (validate_transitions v) \<longleftrightarrow>
      v \<noteq> [] \<and> filter (\<lambda>key. key \<notin> set transition_keys) (dict_keys v) = []" for v
    by (auto simp: validate_transitions_def split: list.split)
  then have "\<not> isl (validate_transitions v) \<longleftrightarrow> v \<noteq> [] \<and> (\<forall>(k, t) \<in> set v. k \<in> set transition_keys)" for v
    by (auto simp: filter_empty_conv)
  then show ?thesis
    by (auto simp: step_errors_def step_id_not_empty_def label_not_empty_def)
qed

lemma steps_errors_Nil:
  "steps_errors given steps = [] \<longleftrightarrow>
     steps \<noteq> [] \<and> (\<forall>(sid, s) \<in> set steps. step_errors (given sid) s = [])"
proof -
  obtain es where es: "es = concat (map (\<lambda>(sid, s). step_errors (given sid) s) steps)" by simp
  have "es = [] \<longleftrightarrow> (\<forall>(sid, s) \<in> set steps. step_errors (given sid) s = [])"
    by (auto simp: es concat_eq_Nil_conv)
  then show ?thesis
    unfolding steps_errors_def es [symmetric]
    by (cases es) (auto simp: steps_not_empty_def)
qed

lemma with_defaults_simps [simp]:
  "wd_workflow_id (with_defaults given d) = wd_workflow_id d" "wd_name (with_defaults given d) = wd_name d"
  "wd_start_step (with_defaults given d) = wd_start_step d"
  "dict_keys (wd_steps (with_defaults given d)) = dict_keys (wd_steps d)"
  by (simp_all add: with_defaults_def case_prod_beta comp_def)

lemma with_defaults_steps:
  "(sid, s) \<in> set (wd_steps (with_defaults given d)) \<Longrightarrow> given sid \<or> ws_transitions s = []"
  by (auto simp: with_defaults_def split: if_splits)

lemma with_defaults_id:
  "\<forall>(sid, s) \<in> set (wd_steps d). given sid \<or> ws_transitions s = [] \<Longrightarrow> with_defaults given d = d"
  by (cases d) (auto simp: with_defaults_def intro!: map_idI)

text \<open>C6: a mapping is accepted exactly when its ids, name, labels and steps are not empty, it
  starts at one of its steps, every step has a known type, the transitions of a step are left out
  or a non-empty dict of known keys, every transition target is a step or the end, and either the
  \<^verbatim>\<open>on_success\<close> edges have no cycle or a condition step lies on one of the cycles.  The validation
  always answers, and what it accepts is the mapping with no transitions where they were left out.
  One guarded loop thus excuses every other loop of the definition, and \<^verbatim>\<open>on_failure\<close> loops are
  never looked at.\<close>

theorem model_validate_exact:
  assumes ok: "dict_ok (wd_steps raw)" and d: "d = with_defaults given raw"
  shows "model_validate given raw \<noteq> None \<and>
    (\<forall>d'. model_validate given raw = Some (Inr d') \<longrightarrow> d' = d) \<and>
    (model_validate given raw = Some (Inr d) \<longleftrightarrow>
       wd_workflow_id d \<noteq> [] \<and> wd_name d \<noteq> [] \<and> wd_start_step d \<noteq> [] \<and>
       wd_start_step d \<in> set (dict_keys (wd_steps d)) \<and>
       (\<forall>(sid, s) \<in> set (wd_steps d).
          step_ok (wd_steps d) s \<and> (given sid \<longrightarrow> ws_transitions s \<noteq> [])) \<and>
       (on_cycle (wd_steps d) = {} \<or>
        (\<exists>a \<in> on_cycle (wd_steps d). \<exists>s. dict_get (wd_steps d) a = Some s \<and>
           ws_step_type s = ''condition'')))"
proof -
  have okd: "dict_ok (wd_steps d)" using ok by (simp only: d with_defaults_simps)
  note R = graph_validation_result [OF okd]
  have closed: "validate_no_orphan_steps (wd_steps d) = Inr () \<longleftrightarrow>
      (\<forall>(sid, s) \<in> set (wd_steps d). \<forall>(k, t) \<in> set (ws_transitions s).
         t = END_TARGET \<or> t \<in> set (dict_keys (wd_steps d)))"
    by (auto simp: validate_no_orphan_steps_def check_all_targets_Inr check_targets_Inr)
  have post: "model_post_init d \<noteq> None"
    "model_post_init d = Some (Inr ()) \<longleftrightarrow> validate_no_orphan_steps (wd_steps d) = Inr () \<and>
       validate_graph_is_acyclic (wd_steps d) = Some (Inr ())"
    by (auto simp: model_post_init_def validate_no_duplicate_ids_def R split: sum.split)
  have fields: "field_errors given d = [] \<longleftrightarrow>
      wd_workflow_id d \<noteq> [] \<and> wd_name d \<noteq> [] \<and> steps_errors given (wd_steps d) = [] \<and>
      wd_start_step d \<noteq> [] \<and> wd_start_step d \<in> set (dict_keys (wd_steps d))"
    by (auto simp: field_errors_def wf_id_not_empty_def name_not_empty_def start_step_errors_def
        start_step_not_empty_def start_step_exists_def split: if_splits)
  have answers: "model_validate given raw \<noteq> None"
    using post(1) by (auto simp: model_validate_def Let_def d split: list.split option.split sum.split)
  have same: "\<forall>d'. model_validate given raw = Some (Inr d') \<longrightarrow> d' = d"
    by (simp add: model_validate_Inr d)
  have "model_validate given raw = Some (Inr d) \<longleftrightarrow>
      field_errors given d = [] \<and> model_post_init d = Some (Inr ())"
    by (simp add: model_validate_Inr d)
  moreover have "wd_start_step d \<in> set (dict_keys (wd_steps d)) \<Longrightarrow> wd_steps d \<noteq> []"
    by auto
  moreover have "(\<forall>(sid, s) \<in> set (wd_steps d).
        step_ok (wd_steps d) s \<and> (given sid \<longrightarrow> ws_transitions s \<noteq> [])) \<longleftrightarrow>
      (\<forall>(sid, s) \<in> set (wd_steps d). step_errors (given sid) s = []) \<and>
      validate_no_orphan_steps (wd_steps d) = Inr ()"
  proof -
    have none: "given sid \<or> ws_transitions s = []" if "(sid, s) \<in> set (wd_steps d)" for sid s
      using that by (simp add: d with_defaults_steps)
    show ?thesis
      unfolding step_ok_def step_errors_Nil closed by (fastforce dest: none)
  qed
  moreover have "validate_graph_is_acyclic (wd_steps d) = Some (Inr ()) \<longleftrightarrow>
      on_cycle (wd_steps d) = {} \<or>
        (\<exists>a \<in> on_cycle (wd_steps d). \<exists>s. dict_get (wd_steps d) a = Some s \<and>
           ws_step_type s = ''condition'')"
    unfolding R by (simp only: option.inject if_splits) (simp split: if_split)
  ultimately show ?thesis
    unfolding post(2) fields steps_errors_Nil by (intro conjI answers same) argo
qed

subsection \<open>Examples\<close>

definition demo_step :: "string \<Rightarrow> string \<Rightarrow> string pydict \<Rightarrow> workflow_step" where
  "demo_step sid ty transitions =
     \<lparr>ws_step_id = sid, ws_step_type = ty, ws_label = sid, ws_description = None, ws_config = [],
      ws_transitions = transitions, ws_timeout_seconds = None, ws_retry_policy = None\<rparr>"

definition demo_definition :: "(string \<times> workflow_step) list \<Rightarrow> string \<Rightarrow> workflow_definition" where
  "demo_definition steps start =
     \<lparr>wd_workflow_id = ''w'', wd_name = ''w'', wd_description = ''w'', wd_version = ''1.0.0'',
      wd_trigger_on = [], wd_input_schema = None, wd_steps = steps, wd_start_step = start,
      wd_shared_context_schema = None, wd_timeout = None, wd_required_agent_tags = []\<rparr>"

text \<open>A loop of one tool step, and a condition step that loops on itself beside it.\<close>

definition two_loops :: workflow_definition where
  "two_loops = demo_definition
     [(''spin'', demo_step ''spin'' ''tool_execute'' [(''on_success'', ''spin'')]),
      (''test'', demo_step ''test'' ''condition''
         [(''on_success'', ''test''), (''on_failure'', END_TARGET)])] ''spin''"

lemma two_loops_simps:
  "wd_steps two_loops =
     [(''spin'', demo_step ''spin'' ''tool_execute'' [(''on_success'', ''spin'')]),
      (''test'', demo_step ''test'' ''condition''
         [(''on_success'', ''test''), (''on_failure'', END_TARGET)])]"
  "wd_start_step two_loops = ''spin''"
  by (simp_all add: two_loops_def demo_definition_def)

lemma two_loops_spin: "(''spin'', ''spin'') \<in> success_edges (wd_steps two_loops)"
  by (simp add: success_edges_def two_loops_simps dict_get_def demo_step_def success_target_def
      END_TARGET_def)

theorem model_validate_exact_witness: "model_validate (\<lambda>_. True) two_loops = Some (Inr two_loops)"
proof -
  let ?steps = "wd_steps two_loops"
  have "(''test'', ''test'') \<in> success_edges ?steps"
    by (simp add: success_edges_def two_loops_simps dict_get_def demo_step_def success_target_def
        END_TARGET_def)
  then have "''test'' \<in> on_cycle ?steps" by (auto simp: on_cycle_def)
  moreover have "dict_get ?steps ''test'' = Some (demo_step ''test'' ''condition''
      [(''on_success'', ''test''), (''on_failure'', END_TARGET)])"
    by (simp add: two_loops_simps dict_get_def)
  ultimately have "\<exists>a \<in> on_cycle ?steps. \<exists>s. dict_get ?steps a = Some s \<and>
      ws_step_type s = ''condition''"
    by (intro bexI [of _ "''test''"] exI) (auto simp: demo_step_def)
  moreover have "\<forall>(sid, s) \<in> set ?steps. step_ok ?steps s \<and> (True \<longrightarrow> ws_transitions s \<noteq> [])"
    by (simp add: two_loops_simps step_ok_def demo_step_def VALID_STEP_TYPES_def transition_keys_def)
  moreover have "wd_workflow_id two_loops \<noteq> []" "wd_name two_loops \<noteq> []"
    by (simp_all add: two_loops_def demo_definition_def)
  moreover have "wd_start_step two_loops \<noteq> []"
    "wd_start_step two_loops \<in> set (dict_keys ?steps)" "dict_ok ?steps"
    by (simp_all add: two_loops_simps)
  moreover have "two_loops = with_defaults (\<lambda>_. True) two_loops" by (simp add: with_defaults_id)
  ultimately show ?thesis
    using model_validate_exact [of two_loops two_loops "\<lambda>_. True"] by blast
qed

text \<open>A step without transitions: accepted where the key is left out, refused where it is an empty
  dict.\<close>

lemma transitions_left_out_example:
  "model_validate (\<lambda>_. False) (demo_definition [(''a'', demo_step ''a'' ''llm_call'' [])] ''a'') =
     Some (Inr (demo_definition [(''a'', demo_step ''a'' ''llm_call'' [])] ''a''))"
  "model_validate (\<lambda>_. True) (demo_definition [(''a'', demo_step ''a'' ''llm_call'' [])] ''a'') =
     Some (Inl [FieldError ''transitions'' (ValueError (''transitions must contain at least one of '' @
       ''on_success, on_failure, on_timeout, on_cancel''))])"
  by code_simp+

end
