(* ===== verification/WorkflowEngine.thy ===== *)
theory WorkflowEngine
  imports WorkflowGraph
begin

text \<open>
  The workflow engine of \<^verbatim>\<open>agent/workflow/engine.py\<close>: a navigator of the step graph that returns
  what its caller is to do next.  Python's \<open>eval\<close> (with the rewrites of \<open>re.sub\<close> before it) and
  \<open>json.loads\<close> are parameters of the run, the fields \<open>we_eval\<close> and \<open>we_json_loads\<close> of the
  environment; an exception of \<open>json.loads\<close> is \<open>None\<close>.
\<close>

subsection \<open>Data\<close>

datatype workflow_status =
    WF_PENDING
  | WF_RUNNING
  | WF_WAITING_FOR_INPUT
  | WF_COMPLETED
  | WF_FAILED
  | WF_CANCELLED

fun wf_status_value :: "workflow_status \<Rightarrow> string" where
  "wf_status_value WF_PENDING = ''pending''"
| "wf_status_value WF_RUNNING = ''running''"
| "wf_status_value WF_WAITING_FOR_INPUT = ''waiting_for_input''"
| "wf_status_value WF_COMPLETED = ''completed''"
| "wf_status_value WF_FAILED = ''failed''"
| "wf_status_value WF_CANCELLED = ''cancelled''"

record workflow_execution_state =
  wx_execution_id :: string
  wx_workflow_id :: string
  wx_status :: workflow_status
  wx_current_step_id :: "string option"
  wx_context :: "json pydict"
  wx_step_results :: "json pydict"
  wx_error :: "string option"

datatype outcome_type =
    OUT_LLM_CALL
  | OUT_TOOL_EXECUTE
  | OUT_SUB_WORKFLOW
  | OUT_WAITING_FOR_INPUT
  | OUT_CONTINUE
  | OUT_COMPLETED
  | OUT_FAILED
  | OUT_TIMEOUT
  | OUT_COUNCIL_DELIBERATE

text \<open>\<open>workflow_id\<close> is what the step's config holds, of whatever type.\<close>

record step_outcome =
  so_type :: outcome_type
  so_step_id :: string
  so_next_step_id :: "string option"
  so_config :: "json pydict"
  so_workflow_id :: "json option"
  so_error :: "string option"

definition new_outcome :: "outcome_type \<Rightarrow> step_outcome" where
  "new_outcome t =
     \<lparr>so_type = t, so_step_id = [], so_next_step_id = None, so_config = [],
      so_workflow_id = None, so_error = None\<rparr>"

record pattern_definition =
  pd_pattern_id :: string
  pd_name :: string
  pd_instructions :: string

text \<open>The engine and its registries; of a council only its presence matters here.\<close>

record workflow_engine =
  en_registry :: workflow_registry
  en_pattern_registry :: "pattern_definition pydict option"
  en_council_registry :: "json pydict option"

record wf_env = env +
  we_eval :: "string \<Rightarrow> json pydict \<Rightarrow> bool result"
  we_json_loads :: "string \<Rightarrow> json option"

subsection \<open>Helpers\<close>

text \<open>\<open>dict.get\<close> with a key of any JSON type: lists and dicts cannot be hashed.\<close>

definition get_by_value :: "'v pydict \<Rightarrow> json \<Rightarrow> 'v option result" where
  "get_by_value d k =
     (case k of
        JStr s \<Rightarrow> Inr (dict_get d s)
      | JList _ \<Rightarrow> Inl (TypeError (''unhashable type: '' @ quoted ''list''))
      | JObj _ \<Rightarrow> Inl (TypeError (''unhashable type: '' @ quoted ''dict''))
      | _ \<Rightarrow> Inr None)"

definition wf_terminal :: "workflow_status \<Rightarrow> bool" where
  "wf_terminal s \<longleftrightarrow> s \<in> {WF_COMPLETED, WF_FAILED, WF_CANCELLED}"

text \<open>\<open>_complete\<close>, \<open>_fail\<close>, \<open>_advance_on\<close> and \<open>_advance\<close>.\<close>

definition wf_complete ::
  "workflow_execution_state \<Rightarrow> workflow_execution_state \<times> step_outcome"
where
  "wf_complete s =
     (s\<lparr>wx_status := WF_COMPLETED, wx_current_step_id := None\<rparr>, new_outcome OUT_COMPLETED)"

definition wf_fail ::
  "workflow_execution_state \<Rightarrow> string \<Rightarrow> workflow_execution_state \<times> step_outcome"
where
  "wf_fail s err =
     (s\<lparr>wx_status := WF_FAILED, wx_error := Some err\<rparr>, (new_outcome OUT_FAILED)\<lparr>so_error := Some err\<rparr>)"

definition advance_on ::
  "workflow_execution_state \<Rightarrow> workflow_step \<Rightarrow> string \<Rightarrow> step_outcome
   \<Rightarrow> workflow_execution_state \<times> step_outcome"
where
  "advance_on s step key outcome =
     (let target = dict_get_or (ws_transitions step) key END_TARGET
      in (s\<lparr>wx_current_step_id := (if target = END_TARGET then None else Some target)\<rparr>, outcome))"

definition advance ::
  "workflow_execution_state \<Rightarrow> workflow_step \<Rightarrow> step_outcome
   \<Rightarrow> workflow_execution_state \<times> step_outcome"
where
  "advance s step outcome = advance_on s step ''on_success'' outcome"

text \<open>Python's \<open>eval\<close> of the expression of a condition step.\<close>

definition evaluate_expression :: "'a wf_env_scheme \<Rightarrow> json \<Rightarrow> json pydict \<Rightarrow> bool result" where
  "evaluate_expression e expression context =
     (case expression of
        JStr x \<Rightarrow>
          (let x = py_strip x;
               x = (if take 2 x = ''{{'' \<and> drop (length x - 2) x = ''}}''
                    then py_strip (take (length x - 4) (drop 2 x)) else x)
           in we_eval e x context)
      | v \<Rightarrow> Inl (PyExn ''builtins'' ''AttributeError''
               (quoted (json_type_name v) @ '' object has no attribute '' @ quoted ''strip'')))"

subsection \<open>Step handlers\<close>

type_synonym wf_handler_result = "(workflow_execution_state \<times> step_outcome) result"

definition handle_llm_call ::
  "workflow_execution_state \<Rightarrow> workflow_step \<Rightarrow> workflow_execution_state \<times> step_outcome"
where
  "handle_llm_call s step =
     advance s step
       ((new_outcome OUT_LLM_CALL)\<lparr>so_step_id := ws_step_id step, so_config := ws_config step\<rparr>)"

definition handle_tool_execute ::
  "workflow_execution_state \<Rightarrow> workflow_step \<Rightarrow> workflow_execution_state \<times> step_outcome"
where
  "handle_tool_execute s step =
     advance s step
       ((new_outcome OUT_TOOL_EXECUTE)\<lparr>so_step_id := ws_step_id step, so_config := ws_config step\<rparr>)"

definition handle_sub_workflow ::
  "workflow_execution_state \<Rightarrow> workflow_step \<Rightarrow> workflow_execution_state \<times> step_outcome"
where
  "handle_sub_workflow s step =
     (let sub_wf_id = dict_get_or (ws_config step) ''workflow_id'' JNull
      in if sub_wf_id = JNull then
           wf_fail s (''sub_workflow step '' @ quoted (ws_step_id step) @
             '' missing config.workflow_id'')
         else
           advance s step
             ((new_outcome OUT_SUB_WORKFLOW)\<lparr>so_step_id := ws_step_id step,
                so_workflow_id := Some sub_wf_id, so_config := ws_config step\<rparr>))"

definition handle_apply_pattern ::
  "'a wf_env_scheme \<Rightarrow> workflow_engine \<Rightarrow> workflow_execution_state \<Rightarrow> workflow_step \<Rightarrow> wf_handler_result"
where
  "handle_apply_pattern e en s step =
     (let pattern_id = dict_get_or (ws_config step) ''pattern_id'' JNull;
          label = ''apply_pattern step '' @ quoted (ws_step_id step)
      in if \<not> json_truthy pattern_id then Inr (wf_fail s (label @ '' missing config.pattern_id''))
         else (case en_pattern_registry en of
             None \<Rightarrow> Inr (wf_fail s (label @ '': no pattern_registry configured''))
           | Some reg \<Rightarrow>
               (case get_by_value reg pattern_id of
                  Inl x \<Rightarrow> Inl x
                | Inr None \<Rightarrow>
                    Inr (wf_fail s (label @ '': pattern '' @ py_repr e pattern_id @
                      '' not found in registry''))
                | Inr (Some p) \<Rightarrow>
                    Inr (advance s step
                      ((new_outcome OUT_LLM_CALL)\<lparr>so_step_id := ws_step_id step,
                         so_config := dict_set (ws_config step) ''pattern_instructions''
                           (JList [JObj [(''pattern_id'', JStr (pd_pattern_id p)),
                              (''name'', JStr (pd_name p)),
                              (''instructions'', JStr (pd_instructions p))]])\<rparr>)))))"

text \<open>The handler writes out the move that \<open>_advance\<close> makes.\<close>

definition handle_user_input ::
  "workflow_execution_state \<Rightarrow> workflow_step \<Rightarrow> workflow_execution_state \<times> step_outcome"
where
  "handle_user_input s step =
     (let target = dict_get (ws_transitions step) ''on_success'';
          target_state =
            (if target = None \<or> target = Some END_TARGET
             then s\<lparr>wx_status := WF_WAITING_FOR_INPUT, wx_current_step_id := None\<rparr>
             else s\<lparr>wx_status := WF_WAITING_FOR_INPUT, wx_current_step_id := target\<rparr>)
      in (target_state,
          (new_outcome OUT_WAITING_FOR_INPUT)\<lparr>so_step_id := ws_step_id step,
             so_config := ws_config step\<rparr>))"

definition handle_condition ::
  "'a wf_env_scheme \<Rightarrow> workflow_execution_state \<Rightarrow> workflow_step
   \<Rightarrow> workflow_execution_state \<times> step_outcome"
where
  "handle_condition e s step =
     (let expression = dict_get_or (ws_config step) ''expression'' (JStr ''True'');
          eval_context = dict_set (wx_context s) ''steps'' (JObj (wx_step_results s))
      in case evaluate_expression e expression eval_context of
           Inl exc \<Rightarrow>
             wf_fail s (''condition evaluation failed in step '' @ quoted (ws_step_id step) @
               '': '' @ exn_message exc)
         | Inr result \<Rightarrow>
             (let key = (if result then ''on_success'' else ''on_failure'')
              in advance_on s step key
                   ((new_outcome OUT_CONTINUE)\<lparr>so_step_id := ws_step_id step,
                      so_next_step_id :=
                        Some (dict_get_or (ws_transitions step) key END_TARGET)\<rparr>)))"

definition handle_council_deliberate ::
  "'a wf_env_scheme \<Rightarrow> workflow_engine \<Rightarrow> workflow_execution_state \<Rightarrow> workflow_step \<Rightarrow> wf_handler_result"
where
  "handle_council_deliberate e en s step =
     (let council_id = dict_get_or (ws_config step) ''council_id'' JNull;
          label = ''council_deliberate step '' @ quoted (ws_step_id step)
      in if \<not> json_truthy council_id then Inr (wf_fail s (label @ '' missing config.council_id''))
         else (case en_council_registry en of
             None \<Rightarrow> Inr (wf_fail s (label @ '': no council_registry configured''))
           | Some reg \<Rightarrow>
               (case get_by_value reg council_id of
                  Inl x \<Rightarrow> Inl x
                | Inr None \<Rightarrow>
                    Inr (wf_fail s (label @ '': council '' @ py_repr e council_id @
                      '' not found in registry''))
                | Inr (Some _) \<Rightarrow>
                    (let p = dict_get_or (ws_config step) ''problem'' JNull;
                         problem = (if json_truthy p then p
                           else dict_get_or (wx_context s) ''problem'' (JStr []))
                     in Inr (advance s step
                          ((new_outcome OUT_COUNCIL_DELIBERATE)\<lparr>so_step_id := ws_step_id step,
                             so_config := [(''council_id'', council_id), (''problem'', problem)]\<rparr>))))))"

text \<open>The table \<open>_STEP_HANDLERS\<close>.\<close>

definition STEP_HANDLERS ::
  "'a wf_env_scheme \<Rightarrow> workflow_engine
   \<Rightarrow> (workflow_execution_state \<Rightarrow> workflow_step \<Rightarrow> wf_handler_result) pydict"
where
  "STEP_HANDLERS e en =
     [(''llm_call'', \<lambda>s step. Inr (handle_llm_call s step)),
      (''tool_execute'', \<lambda>s step. Inr (handle_tool_execute s step)),
      (''sub_workflow'', \<lambda>s step. Inr (handle_sub_workflow s step)),
      (''user_input'', \<lambda>s step. Inr (handle_user_input s step)),
      (''condition'', \<lambda>s step. Inr (handle_condition e s step)),
      (''apply_pattern'', handle_apply_pattern e en),
      (''council_deliberate'', handle_council_deliberate e en)]"

subsection \<open>Public API\<close>

definition start_workflow ::
  "workflow_engine \<Rightarrow> string \<Rightarrow> json pydict option \<Rightarrow> 'a wf_env_scheme
   \<Rightarrow> workflow_execution_state result \<times> 'a wf_env_scheme"
where
  "start_workflow en workflow_id context e =
     (case registry_get (en_registry en) workflow_id of
        None \<Rightarrow>
          (Inl (ValueError (''workflow '' @ quoted workflow_id @ '' not found in registry'')), e)
      | Some defn \<Rightarrow>
          (let (execution_id, e) = new_uuid e
           in (Inr \<lparr>wx_execution_id = execution_id, wx_workflow_id = workflow_id,
                    wx_status = WF_RUNNING, wx_current_step_id = Some (wd_start_step defn),
                    wx_context = (case context of None \<Rightarrow> [] | Some c \<Rightarrow> c),
                    wx_step_results = [], wx_error = None\<rparr>, e)))"

definition wf_step ::
  "'a wf_env_scheme \<Rightarrow> workflow_engine \<Rightarrow> workflow_execution_state \<Rightarrow> wf_handler_result"
where
  "wf_step e en s =
     (if wf_terminal (wx_status s) then
        Inr (s, (new_outcome (if wx_status s = WF_COMPLETED then OUT_COMPLETED else OUT_FAILED))
               \<lparr>so_error := wx_error s\<rparr>)
      else (case wx_current_step_id s of
          None \<Rightarrow> Inr (wf_complete s)
        | Some sid \<Rightarrow>
            (case registry_get (en_registry en) (wx_workflow_id s) of
               None \<Rightarrow>
                 Inr (wf_fail s (''workflow '' @ quoted (wx_workflow_id s) @ '' not found in registry''))
             | Some defn \<Rightarrow>
                 (case dict_get (wd_steps defn) sid of
                    None \<Rightarrow>
                      Inr (wf_fail s (''current step '' @ quoted sid @ '' not found in workflow '' @
                        quoted (wx_workflow_id s)))
                  | Some step \<Rightarrow>
                      (case dict_get (STEP_HANDLERS e en) (ws_step_type step) of
                         None \<Rightarrow>
                           Inr (wf_fail s (''unknown step type '' @ quoted (ws_step_type step) @
                             '' in step '' @ quoted (ws_step_id step)))
                       | Some handler \<Rightarrow> handler s step)))))"

definition resume_with_input ::
  "'a wf_env_scheme \<Rightarrow> workflow_execution_state \<Rightarrow> string \<Rightarrow> string option
   \<Rightarrow> workflow_execution_state \<times> step_outcome"
where
  "resume_with_input e s user_input step_id =
     (let source_step =
            (case step_id of
               Some (c # cs) \<Rightarrow> c # cs
             | _ \<Rightarrow> (case wx_current_step_id s of None \<Rightarrow> [] | Some i \<Rightarrow> i));
          parsed = (case we_json_loads e user_input of None \<Rightarrow> JStr user_input | Some v \<Rightarrow> v)
      in (s\<lparr>wx_status := WF_RUNNING,
            wx_context := dict_set (wx_context s) ''_user_input'' (JStr user_input),
            wx_step_results := dict_set (wx_step_results s) source_step (JObj [(''result'', parsed)])\<rparr>,
          (new_outcome OUT_CONTINUE)\<lparr>so_step_id :=
             (case wx_current_step_id s of None \<Rightarrow> [] | Some i \<Rightarrow> i)\<rparr>))"

definition last_output :: "'a wf_env_scheme \<Rightarrow> json \<Rightarrow> string" where
  "last_output e v =
     (case v of
        JObj kvs \<Rightarrow>
          (let m = dict_get_or kvs ''message'' JNull
           in py_str e (if json_truthy m then m else v))
      | _ \<Rightarrow> py_str e v)"

definition resume_with_result ::
  "'a wf_env_scheme \<Rightarrow> workflow_execution_state \<Rightarrow> string \<Rightarrow> json
   \<Rightarrow> workflow_execution_state \<times> step_outcome"
where
  "resume_with_result e s step_id v =
     (s\<lparr>wx_status := WF_RUNNING,
        wx_context := dict_set (dict_set (wx_context s) ''result'' v) ''last_output''
          (JStr (last_output e v)),
        wx_step_results := dict_set (wx_step_results s) step_id v\<rparr>,
      (new_outcome OUT_CONTINUE)\<lparr>so_step_id := step_id\<rparr>)"

text \<open>The part that \<open>fail_step\<close> and \<open>handle_timeout\<close> share: follow \<open>on_failure\<close>, else fail.\<close>

definition follow_failure ::
  "workflow_engine \<Rightarrow> workflow_execution_state \<Rightarrow> string \<Rightarrow> string
   \<Rightarrow> workflow_execution_state \<times> step_outcome"
where
  "follow_failure en s step_id err =
     (case registry_get (en_registry en) (wx_workflow_id s) of
        None \<Rightarrow> wf_fail s err
      | Some defn \<Rightarrow>
          (case dict_get (wd_steps defn) step_id of
             None \<Rightarrow> wf_fail s err
           | Some step \<Rightarrow>
               (case dict_get (ws_transitions step) ''on_failure'' of
                  None \<Rightarrow> wf_fail s err
                | Some target \<Rightarrow>
                    if target = END_TARGET then
                      (s\<lparr>wx_status := WF_COMPLETED, wx_current_step_id := None\<rparr>,
                       new_outcome OUT_COMPLETED)
                    else
                      (s\<lparr>wx_status := WF_RUNNING, wx_current_step_id := Some target\<rparr>,
                       (new_outcome OUT_CONTINUE)\<lparr>so_next_step_id := Some target\<rparr>))))"

definition fail_step ::
  "workflow_engine \<Rightarrow> workflow_execution_state \<Rightarrow> string \<Rightarrow> string
   \<Rightarrow> workflow_execution_state \<times> step_outcome"
where
  "fail_step en s step_id err =
     follow_failure en
       (s\<lparr>wx_step_results := dict_set (wx_step_results s) step_id
          (JObj [(''error'', JStr err), (''status'', JStr ''failed'')])\<rparr>) step_id err"

definition wf_cancel :: "workflow_execution_state \<Rightarrow> workflow_execution_state" where
  "wf_cancel s = s\<lparr>wx_status := WF_CANCELLED\<rparr>"

definition handle_timeout ::
  "workflow_engine \<Rightarrow> workflow_execution_state \<Rightarrow> string
   \<Rightarrow> workflow_execution_state \<times> step_outcome"
where
  "handle_timeout en s step_id =
     (let err = ''Step '' @ quoted step_id @ '' timed out waiting for user input''
      in follow_failure en
           (s\<lparr>wx_step_results := dict_set (wx_step_results s) step_id
              (JObj [(''error'', JStr err), (''status'', JStr ''timeout'')])\<rparr>) step_id err)"

subsection \<open>An example\<close>

definition ask_and_run :: workflow_definition where
  "ask_and_run = demo_definition
     [(''ask'', demo_step ''ask'' ''user_input'' [(''on_success'', ''run'')]),
      (''run'', demo_step ''run'' ''tool_execute'' [(''on_success'', END_TARGET)])] ''ask''"

definition demo_engine :: "workflow_definition \<Rightarrow> workflow_engine" where
  "demo_engine d =
     \<lparr>en_registry = [(''w'', d)], en_pattern_registry = None, en_council_registry = None\<rparr>"

definition demo_env :: wf_env where
  "demo_env =
     \<lparr>e_uuid = (\<lambda>n. ''u'' @ nat_digits n), e_uuid_n = 0, e_clock = int, e_tick = 0,
      e_float_fmt = (\<lambda>_ _. ''1.0''), e_isoformat = int_str, e_py_str = (\<lambda>_. ''...''),
      e_strftime = (\<lambda>fmt _. fmt), we_eval = (\<lambda>_ _. Inr True), we_json_loads = (\<lambda>_. None)\<rparr>"

definition demo_state :: "string \<Rightarrow> workflow_execution_state" where
  "demo_state sid =
     \<lparr>wx_execution_id = ''u0'', wx_workflow_id = ''w'', wx_status = WF_RUNNING,
      wx_current_step_id = Some sid, wx_context = [], wx_step_results = [], wx_error = None\<rparr>"

definition engine_ok :: "workflow_engine \<Rightarrow> bool" where
  "engine_ok en \<longleftrightarrow> (\<forall>(wid, d) \<in> set (en_registry en). accepted d)"

lemma demo_get [simp]: "registry_get (en_registry (demo_engine d)) ''w'' = Some d"
  by (simp add: registry_get_def demo_engine_def dict_get_def)

lemma demo_engine_ok: "accepted d \<Longrightarrow> engine_ok (demo_engine d)"
  by (simp add: engine_ok_def demo_engine_def)

lemma demo_start:
  "fst (start_workflow (demo_engine d) ''w'' None demo_env) = Inr (demo_state (wd_start_step d))"
  by (simp add: start_workflow_def new_uuid_def demo_env_def demo_state_def nat_digits.simps)
    code_simp

subsection \<open>Executions stay on the graph\<close>

text \<open>The states an execution can reach: any operation, with any arguments, in any order.
  \<open>retry_instance\<close> of the operations API is the last of them.\<close>

inductive wf_reach :: "workflow_engine \<Rightarrow> workflow_execution_state \<Rightarrow> bool" for en where
  reach_start: "fst (start_workflow en wid ctx (e :: wf_env)) = Inr s \<Longrightarrow> wf_reach en s"
| reach_step: "wf_reach en s \<Longrightarrow> wf_step (e :: wf_env) en s = Inr (s', out) \<Longrightarrow> wf_reach en s'"
| reach_input: "wf_reach en s \<Longrightarrow> wf_reach en (fst (resume_with_input (e :: wf_env) s txt sid))"
| reach_result: "wf_reach en s \<Longrightarrow> wf_reach en (fst (resume_with_result (e :: wf_env) s sid' v))"
| reach_fail: "wf_reach en s \<Longrightarrow> wf_reach en (fst (fail_step en s sid' err))"
| reach_timeout: "wf_reach en s \<Longrightarrow> wf_reach en (fst (handle_timeout en s sid'))"
| reach_cancel: "wf_reach en s \<Longrightarrow> wf_reach en (wf_cancel s)"
| reach_retry: "wf_reach en s \<Longrightarrow> wx_status s = WF_FAILED \<Longrightarrow>
    wf_reach en (s\<lparr>wx_status := WF_RUNNING, wx_error := None\<rparr>)"

definition on_graph :: "workflow_engine \<Rightarrow> workflow_execution_state \<Rightarrow> bool" where
  "on_graph en s \<longleftrightarrow>
     (\<exists>d. registry_get (en_registry en) (wx_workflow_id s) = Some d \<and>
        (\<forall>sid. wx_current_step_id s = Some sid \<longrightarrow> sid \<in> set (dict_keys (wd_steps d))))"

lemma engine_ok_get:
  "engine_ok en \<Longrightarrow> registry_get (en_registry en) wid = Some d \<Longrightarrow> accepted d"
  by (auto simp: engine_ok_def registry_get_def dest: dict_get_SomeD)

lemma on_graph_move:
  assumes "engine_ok en" "on_graph en s" "registry_get (en_registry en) (wx_workflow_id s) = Some d"
    and "dict_get (wd_steps d) sid = Some step" "wx_workflow_id s' = wx_workflow_id s"
    and "wx_current_step_id s' = None \<or> wx_current_step_id s' = wx_current_step_id s \<or>
      (\<exists>k t. dict_get (ws_transitions step) k = Some t \<and> t \<noteq> END_TARGET \<and>
         wx_current_step_id s' = Some t)"
  shows "on_graph en s'"
  using assms accepted_target [OF engine_ok_get [OF assms(1,3)] assms(4)]
  unfolding on_graph_def by fastforce

text \<open>Where an operation may leave the execution: where it was, at the end, or at the target of a
  transition of the step.\<close>

definition moved ::
  "workflow_step \<Rightarrow> workflow_execution_state \<Rightarrow> workflow_execution_state \<Rightarrow> bool"
where
  "moved step s s' \<longleftrightarrow> wx_workflow_id s' = wx_workflow_id s \<and>
     (wx_current_step_id s' = None \<or> wx_current_step_id s' = wx_current_step_id s \<or>
      (\<exists>k t. dict_get (ws_transitions step) k = Some t \<and> t \<noteq> END_TARGET \<and>
         wx_current_step_id s' = Some t))"

lemma moved_fail [simp]: "moved step s (fst (wf_fail s err))"
  by (simp add: moved_def wf_fail_def)

lemma moved_advance_on [simp]: "moved step s (fst (advance_on s step k out))"
  by (auto simp: moved_def advance_on_def Let_def dict_get_or_def split: option.split)

lemma moved_advance [simp]: "moved step s (fst (advance s step out))"
  by (simp add: advance_def)

lemma moved_user_input: "moved step s (fst (handle_user_input s step))"
proof (cases "dict_get (ws_transitions step) ''on_success''")
  case None
  then show ?thesis by (simp add: moved_def handle_user_input_def)
next
  case (Some t)
  then show ?thesis by (auto simp: moved_def handle_user_input_def)
qed

lemma moved_handlers:
  assumes "dict_get (STEP_HANDLERS e en) ty = Some h" "h s step = Inr r"
  shows "moved step s (fst r)"
proof -
  have "h \<in> {\<lambda>s step. Inr (handle_llm_call s step), \<lambda>s step. Inr (handle_tool_execute s step),
      \<lambda>s step. Inr (handle_sub_workflow s step), \<lambda>s step. Inr (handle_user_input s step),
      \<lambda>s step. Inr (handle_condition e s step), handle_apply_pattern e en,
      handle_council_deliberate e en}"
    using dict_get_SomeD [OF assms(1)] unfolding STEP_HANDLERS_def by auto
  with assms(2) show ?thesis
    by (auto simp: handle_llm_call_def handle_tool_execute_def handle_sub_workflow_def
        handle_condition_def handle_apply_pattern_def handle_council_deliberate_def Let_def
        moved_user_input split: sum.splits option.splits if_splits)
qed

lemma valid_type_handled:
  "ty \<in> set VALID_STEP_TYPES \<Longrightarrow> \<exists>h. dict_get (STEP_HANDLERS e en) ty = Some h"
  unfolding VALID_STEP_TYPES_def STEP_HANDLERS_def dict_get_def by auto

lemma follow_failure_on_graph:
  assumes "engine_ok en" "on_graph en s"
  shows "on_graph en (fst (follow_failure en s sid err))"
proof -
  from assms(2) obtain d where d: "registry_get (en_registry en) (wx_workflow_id s) = Some d"
    by (auto simp: on_graph_def)
  show ?thesis
  proof (cases "dict_get (wd_steps d) sid")
    case None
    with d assms show ?thesis by (simp add: follow_failure_def wf_fail_def on_graph_def)
  next
    case (Some step)
    have "moved step s (fst (follow_failure en s sid err))"
      using d Some by (auto simp: follow_failure_def moved_def wf_fail_def split: option.split)
    then show ?thesis
      using on_graph_move [OF assms d Some] by (simp add: moved_def)
  qed
qed

lemma on_graph_simps [simp]:
  "on_graph en (s\<lparr>wx_status := st\<rparr>) = on_graph en s"
  "on_graph en (s\<lparr>wx_context := c\<rparr>) = on_graph en s"
  "on_graph en (s\<lparr>wx_step_results := rs\<rparr>) = on_graph en s"
  "on_graph en (s\<lparr>wx_error := x\<rparr>) = on_graph en s"
  by (simp_all add: on_graph_def)

lemma wf_step_dispatch:
  assumes "engine_ok en" "on_graph en s" "\<not> wf_terminal (wx_status s)"
  shows "(wx_current_step_id s = None \<and> wf_step e en s = Inr (wf_complete s)) \<or>
    (\<exists>sid d step h. wx_current_step_id s = Some sid \<and>
       registry_get (en_registry en) (wx_workflow_id s) = Some d \<and>
       dict_get (wd_steps d) sid = Some step \<and>
       dict_get (STEP_HANDLERS e en) (ws_step_type step) = Some h \<and>
       wf_step e en s = h s step)"
proof (cases "wx_current_step_id s")
  case None
  with assms(3) show ?thesis by (simp add: wf_step_def)
next
  case (Some sid)
  with assms(2) obtain d where d: "registry_get (en_registry en) (wx_workflow_id s) = Some d"
    and "sid \<in> set (dict_keys (wd_steps d))"
    by (auto simp: on_graph_def)
  then obtain step where step: "dict_get (wd_steps d) sid = Some step"
    by (cases "dict_get (wd_steps d) sid") (auto simp: dict_get_None_iff)
  have "ws_step_type step \<in> set VALID_STEP_TYPES"
    using accepted_step_type [OF engine_ok_get [OF assms(1) d] dict_get_SomeD [OF step]] .
  then obtain h where h: "dict_get (STEP_HANDLERS e en) (ws_step_type step) = Some h"
    using valid_type_handled by blast
  with Some d step assms(3) show ?thesis by (auto simp: wf_step_def)
qed

lemma wf_step_on_graph:
  assumes "engine_ok en" "on_graph en s" "wf_step e en s = Inr (s', out)"
  shows "on_graph en s'"
proof (cases "wf_terminal (wx_status s)")
  case True
  with assms show ?thesis by (simp add: wf_step_def)
next
  case False
  from wf_step_dispatch [OF assms(1,2) False, of e] show ?thesis
  proof (elim disjE exE conjE)
    assume "wx_current_step_id s = None" "wf_step e en s = Inr (wf_complete s)"
    with assms(2,3) show ?thesis by (auto simp: wf_complete_def on_graph_def)
  next
    fix sid d step h
    assume d: "registry_get (en_registry en) (wx_workflow_id s) = Some d"
      and step: "dict_get (wd_steps d) sid = Some step"
      and h: "dict_get (STEP_HANDLERS e en) (ws_step_type step) = Some h"
      and run: "wf_step e en s = h s step"
    from run assms(3) have "h s step = Inr (s', out)" by simp
    from moved_handlers [OF h this] show ?thesis
      using on_graph_move [OF assms(1,2) d step] by (simp add: moved_def)
  qed
qed

lemma wf_reach_on_graph:
  assumes "engine_ok en" "wf_reach en s"
  shows "on_graph en s"
  using assms(2)
proof (induction rule: wf_reach.induct)
  case (reach_start wid ctx e s)
  then show ?case
    using accepted_start engine_ok_get [OF assms(1)]
    by (auto simp: start_workflow_def on_graph_def Let_def split: option.splits prod.splits)
next
  case (reach_step s e s' out)
  then show ?case using wf_step_on_graph [OF assms(1)] by blast
qed (simp_all add: resume_with_input_def resume_with_result_def fail_step_def handle_timeout_def
    wf_cancel_def Let_def follow_failure_on_graph [OF assms(1)])

text \<open>C7: over a registry of accepted definitions, in every state an execution can reach by any
  operations in any order, the current step is a step of its workflow and has a handler: the engine
  never reports a missing workflow, a missing step or an unknown type; it either reports the
  terminal status, completes, or runs the handler of the current step.\<close>

theorem engine_stays_on_graph:
  assumes "engine_ok en" "wf_reach en s" "\<not> wf_terminal (wx_status s)"
  shows "(wx_current_step_id s = None \<and> wf_step e en s = Inr (wf_complete s)) \<or>
    (\<exists>sid d step h. wx_current_step_id s = Some sid \<and>
       registry_get (en_registry en) (wx_workflow_id s) = Some d \<and>
       dict_get (wd_steps d) sid = Some step \<and>
       dict_get (STEP_HANDLERS e en) (ws_step_type step) = Some h \<and>
       wf_step e en s = h s step)"
  by (rule wf_step_dispatch [OF assms(1) wf_reach_on_graph [OF assms(1,2)] assms(3)])

lemma ask_and_run_accepted: "accepted ask_and_run"
  by (rule acceptedI) code_simp

theorem engine_stays_on_graph_witness:
  "(wx_current_step_id (demo_state ''ask'') = None \<and>
      wf_step demo_env (demo_engine ask_and_run) (demo_state ''ask'') =
        Inr (wf_complete (demo_state ''ask''))) \<or>
    (\<exists>sid d step h. wx_current_step_id (demo_state ''ask'') = Some sid \<and>
       registry_get (en_registry (demo_engine ask_and_run)) (wx_workflow_id (demo_state ''ask'')) =
         Some d \<and>
       dict_get (wd_steps d) sid = Some step \<and>
       dict_get (STEP_HANDLERS demo_env (demo_engine ask_and_run)) (ws_step_type step) = Some h \<and>
       wf_step demo_env (demo_engine ask_and_run) (demo_state ''ask'') = h (demo_state ''ask'') step)"
proof (rule engine_stays_on_graph)
  show "engine_ok (demo_engine ask_and_run)" by (rule demo_engine_ok [OF ask_and_run_accepted])
  have "fst (start_workflow (demo_engine ask_and_run) ''w'' None demo_env) =
      Inr (demo_state ''ask'')"
    unfolding demo_start by (simp add: ask_and_run_def demo_definition_def)
  then show "wf_reach (demo_engine ask_and_run) (demo_state ''ask'')" by (rule reach_start)
  show "\<not> wf_terminal (wx_status (demo_state ''ask''))"
    by (simp add: demo_state_def wf_terminal_def)
qed

end
