(* ===== verification/WorkflowOps.thy ===== *)
theory WorkflowOps
  imports WorkflowEngine Stores "HOL-Library.Multiset" "HOL-Library.Option_ord"
begin

text \<open>
  Workflow instances and their operations: the store of \<^verbatim>\<open>agent/workflow/instance_store.py\<close>, the
  operations API of \<^verbatim>\<open>agent/workflow/ops.py\<close>, the trigger router and event bus of
  \<^verbatim>\<open>agent/workflow/trigger_router.py\<close> and \<^verbatim>\<open>event_bus.py\<close>, and the dict form in which an agent
  keeps an execution (\<open>_freeze_wf_state\<close> and \<open>_restore_wf_state\<close> of
  \<^verbatim>\<open>agent/workflow_invoker.py\<close>).  A handler that raises is swallowed by the bus; its effects up
  to the exception remain.
\<close>

subsection \<open>The instance store\<close>

record wf_instance_record =
  wi_state :: workflow_execution_state
  wi_created_at :: datetime
  wi_updated_at :: datetime

type_synonym wf_store = "wf_instance_record pydict"

definition wf_save_at :: "datetime \<Rightarrow> wf_store \<Rightarrow> workflow_execution_state \<Rightarrow> wf_store" where
  "wf_save_at now st inst =
     (case dict_get st (wx_execution_id inst) of
        None \<Rightarrow>
          dict_set st (wx_execution_id inst)
            \<lparr>wi_state = inst, wi_created_at = now, wi_updated_at = now\<rparr>
      | Some existing \<Rightarrow>
          dict_set st (wx_execution_id inst) (existing\<lparr>wi_state := inst, wi_updated_at := now\<rparr>))"

definition wf_save ::
  "workflow_execution_state \<Rightarrow> wf_store \<Rightarrow> 'a env_scheme \<Rightarrow> wf_store \<times> 'a env_scheme"
where
  "wf_save inst st e = (let (now, e) = utc_now e in (wf_save_at now st inst, e))"

definition wf_get :: "wf_store \<Rightarrow> string \<Rightarrow> workflow_execution_state option" where
  "wf_get st execution_id = map_option wi_state (dict_get st execution_id)"

text \<open>Newest first; \<open>reverse=True\<close> keeps the order of equal keys.\<close>

definition wf_list_instances ::
  "wf_store \<Rightarrow> string option \<Rightarrow> workflow_status option \<Rightarrow> workflow_execution_state list"
where
  "wf_list_instances st workflow_id status =
     (let results = map wi_state (filter (\<lambda>r.
            (case workflow_id of None \<Rightarrow> True | Some w \<Rightarrow> wx_workflow_id (wi_state r) = w) \<and>
            (case status of None \<Rightarrow> True | Some s \<Rightarrow> wx_status (wi_state r) = s)) (map snd st))
      in rev (sort_key (\<lambda>s. map_option wi_created_at (dict_get st (wx_execution_id s)))
           (rev results)))"

definition wf_delete :: "wf_store \<Rightarrow> string \<Rightarrow> bool \<times> wf_store" where
  "wf_delete st execution_id =
     (if dict_get st execution_id \<noteq> None then (True, dict_del st execution_id) else (False, st))"

subsection \<open>The operations API\<close>

definition wf_statuses :: "workflow_status list" where
  "wf_statuses = [WF_PENDING, WF_RUNNING, WF_WAITING_FOR_INPUT, WF_COMPLETED, WF_FAILED, WF_CANCELLED]"

text \<open>\<open>WorkflowStatus(v)\<close>.\<close>

definition wf_status_of :: "string \<Rightarrow> workflow_status result" where
  "wf_status_of v =
     (case filter (\<lambda>s. wf_status_value s = v) wf_statuses of
        s # _ \<Rightarrow> Inr s
      | [] \<Rightarrow> Inl (ValueError (quoted v @ '' is not a valid WorkflowStatus'')))"

text \<open>\<open>str.lower\<close> on ASCII; no other character has a lower case among the status values.\<close>

definition ascii_lower :: "char \<Rightarrow> char" where
  "ascii_lower c =
     (let n = of_char c :: nat in if 65 \<le> n \<and> n \<le> 90 then char_of (n + 32) else c)"

definition ops_list_instances :: "wf_store \<Rightarrow> string option \<Rightarrow> workflow_execution_state list" where
  "ops_list_instances st state =
     (case state of
        None \<Rightarrow> wf_list_instances st None None
      | Some v \<Rightarrow>
          (case wf_status_of (map ascii_lower v) of
             Inl _ \<Rightarrow> []
           | Inr s \<Rightarrow> wf_list_instances st None (Some s)))"

definition ops_get_instance :: "wf_store \<Rightarrow> string \<Rightarrow> workflow_execution_state option" where
  "ops_get_instance st execution_id = wf_get st execution_id"

definition cancel_instance ::
  "string \<Rightarrow> wf_store \<Rightarrow> 'a env_scheme \<Rightarrow> bool \<times> wf_store \<times> 'a env_scheme"
where
  "cancel_instance execution_id st e =
     (case wf_get st execution_id of
        None \<Rightarrow> (False, st, e)
      | Some s \<Rightarrow>
          if wx_status s = WF_COMPLETED \<or> wx_status s = WF_FAILED \<or> wx_status s = WF_CANCELLED
          then (False, st, e)
          else (let (st, e) = wf_save (wf_cancel s) st e in (True, st, e)))"

definition retry_instance ::
  "string \<Rightarrow> wf_store \<Rightarrow> 'a env_scheme \<Rightarrow> bool \<times> wf_store \<times> 'a env_scheme"
where
  "retry_instance execution_id st e =
     (case wf_get st execution_id of
        None \<Rightarrow> (False, st, e)
      | Some s \<Rightarrow>
          if wx_status s \<noteq> WF_FAILED then (False, st, e)
          else (let (st, e) = wf_save (s\<lparr>wx_status := WF_RUNNING, wx_error := None\<rparr>) st e
                in (True, st, e)))"

definition dead_letter_queue :: "wf_store \<Rightarrow> workflow_execution_state list" where
  "dead_letter_queue st = wf_list_instances st None (Some WF_FAILED)"

subsection \<open>The trigger router and the event bus\<close>

record workflow_event =
  we_event_type :: string
  we_payload :: "json pydict"
  we_correlation_id :: string
  we_timestamp :: rat

definition DEVSQUAD_EVENT_TYPES :: "string list" where
  "DEVSQUAD_EVENT_TYPES =
     [''sprint.init'', ''prd.completed'', ''solution.completed'', ''delivery_plan.completed'',
      ''implementation.completed'', ''task_block.completed'', ''review.completed'',
      ''sprint.completed'', ''sprint.rejected'', ''workflow.external_input'']"

definition START_EVENT_TYPES :: "string list" where
  "START_EVENT_TYPES = [''workflow.start'', ''workflow.scheduled_trigger''] @ DEVSQUAD_EVENT_TYPES"

text \<open>\<open>handle_event\<close> starts every match; only the id of the last one started is kept.\<close>

fun start_matches ::
  "workflow_engine \<Rightarrow> workflow_event \<Rightarrow> workflow_definition list \<Rightarrow> string option
   \<Rightarrow> 'a wf_env_scheme \<Rightarrow> string option \<times> 'a wf_env_scheme"
where
  "start_matches en event [] last_id e = (last_id, e)"
| "start_matches en event (defn # matches) last_id e =
     (let context = we_payload event;
          context =
            (if we_correlation_id event \<noteq> [] \<and> dict_get context ''correlation_id'' = None
             then dict_set context ''correlation_id'' (JStr (we_correlation_id event)) else context)
      in case start_workflow en (wd_workflow_id defn) (Some context) e of
           (Inl _, e) \<Rightarrow> start_matches en event matches last_id e
         | (Inr s, e) \<Rightarrow> start_matches en event matches (Some (wx_execution_id s)) e)"

definition handle_event ::
  "workflow_engine \<Rightarrow> workflow_event \<Rightarrow> 'a wf_env_scheme \<Rightarrow> string option \<times> 'a wf_env_scheme"
where
  "handle_event en event e =
     (if we_event_type event \<notin> set START_EVENT_TYPES then (None, e)
      else start_matches en event (find_by_trigger (en_registry en) (we_event_type event)) None e)"

definition resume_workflow ::
  "'a wf_env_scheme \<Rightarrow> workflow_execution_state \<Rightarrow> string \<Rightarrow> string \<Rightarrow> workflow_execution_state"
where
  "resume_workflow e s user_input correlation_id =
     (let s = (if correlation_id \<noteq> [] \<and> dict_get (wx_context s) ''correlation_id'' = None
               then s\<lparr>wx_context := dict_set (wx_context s) ''correlation_id'' (JStr correlation_id)\<rparr>
               else s)
      in fst (resume_with_input e s user_input None))"

type_synonym 'h event_bus = "'h list pydict"

definition bus_subscribe :: "string \<Rightarrow> 'h \<Rightarrow> 'h event_bus \<Rightarrow> 'h event_bus" where
  "bus_subscribe event_type handler bus =
     dict_set bus event_type (dict_get_or bus event_type [] @ [handler])"

definition bus_unsubscribe :: "string \<Rightarrow> 'h \<Rightarrow> 'h event_bus \<Rightarrow> 'h event_bus" where
  "bus_unsubscribe event_type handler bus =
     (case dict_get bus event_type of
        None \<Rightarrow> bus
      | Some handlers \<Rightarrow> dict_set bus event_type (remove1 handler handlers))"

definition resolve_event ::
  "string \<Rightarrow> json pydict option \<Rightarrow> string option \<Rightarrow> workflow_event option \<Rightarrow> 'a env_scheme
   \<Rightarrow> workflow_event \<times> 'a env_scheme"
where
  "resolve_event event_type payload correlation_id event e =
     (case event of
        Some ev \<Rightarrow> (ev, e)
      | None \<Rightarrow>
          (let (cid, e) = (case correlation_id of
                 Some (c # cs) \<Rightarrow> (c # cs, e)
               | _ \<Rightarrow> (let (u, e) = new_uuid e in (filter (\<lambda>c. c \<noteq> CHR ''-'') u, e)));
               (now, e) = time_now e
           in (\<lparr>we_event_type = event_type,
                we_payload = (case payload of None \<Rightarrow> [] | Some p \<Rightarrow> p),
                we_correlation_id = cid, we_timestamp = now\<rparr>, e)))"

definition bus_publish ::
  "('h \<Rightarrow> workflow_event \<Rightarrow> 'w \<Rightarrow> 'w) \<Rightarrow> workflow_event \<Rightarrow> 'h event_bus \<Rightarrow> 'w \<Rightarrow> 'w"
where
  "bus_publish run event bus w =
     fold (\<lambda>handler w. run handler event w) (dict_get_or bus (we_event_type event) []) w"

definition subscriber_count :: "'h event_bus \<Rightarrow> nat" where
  "subscriber_count bus = sum_list (map (\<lambda>(_, hs). length hs) bus)"

text \<open>\<open>subscribe_to\<close> and \<open>subscribe_all\<close> of the router, whose handler is \<open>h\<close>.\<close>

definition subscribe_to :: "'h \<Rightarrow> string list \<Rightarrow> 'h event_bus \<Rightarrow> 'h event_bus" where
  "subscribe_to h event_types bus = fold (\<lambda>et. bus_subscribe et h) event_types bus"

definition subscribe_all :: "'h \<Rightarrow> workflow_registry \<Rightarrow> 'h event_bus \<Rightarrow> 'h event_bus" where
  "subscribe_all h reg bus =
     snd (fold (\<lambda>trigger (seen, bus).
            if trigger \<in> set seen then (seen, bus)
            else (seen @ [trigger], bus_subscribe trigger h bus))
          (concat (map wd_trigger_on (registry_list reg))) ([], bus))"

subsection \<open>The dict form of an execution\<close>

definition json_opt :: "string option \<Rightarrow> json" where
  "json_opt v = (case v of None \<Rightarrow> JNull | Some s \<Rightarrow> JStr s)"

definition freeze_wf_state :: "workflow_execution_state \<Rightarrow> json pydict" where
  "freeze_wf_state s =
     [(''execution_id'', JStr (wx_execution_id s)),
      (''workflow_id'', JStr (wx_workflow_id s)),
      (''current_step_id'', json_opt (wx_current_step_id s)),
      (''context'', JObj (wx_context s)),
      (''step_results'', JObj (wx_step_results s)),
      (''status'', JStr (wf_status_value (wx_status s))),
      (''error'', json_opt (wx_error s))]"

text \<open>Reading the dict back.  A value of another type than the field's, which Python would store
  unseen, is outside the model and ends in \<open>untyped\<close>.\<close>

definition untyped :: "string \<Rightarrow> 'v result" where
  "untyped k = Inl (PyExn ''model'' ''Untyped'' k)"

definition get_str :: "json pydict \<Rightarrow> string \<Rightarrow> string result" where
  "get_str d k =
     (case dict_get d k of None \<Rightarrow> Inl (KeyError k) | Some (JStr s) \<Rightarrow> Inr s | Some _ \<Rightarrow> untyped k)"

definition get_opt_str :: "json pydict \<Rightarrow> string \<Rightarrow> string option result" where
  "get_opt_str d k =
     (case dict_get d k of
        None \<Rightarrow> Inr None | Some JNull \<Rightarrow> Inr None | Some (JStr s) \<Rightarrow> Inr (Some s)
      | Some _ \<Rightarrow> untyped k)"

definition get_items :: "json pydict \<Rightarrow> string \<Rightarrow> json pydict result" where
  "get_items d k =
     (case dict_get d k of
        None \<Rightarrow> Inr []
      | Some (JObj kvs) \<Rightarrow> Inr kvs
      | Some v \<Rightarrow> Inl (PyExn ''builtins'' ''AttributeError''
          (quoted (json_type_name v) @ '' object has no attribute '' @ quoted ''items'')))"

definition restore_wf_state :: "json pydict \<Rightarrow> workflow_execution_state result" where
  "restore_wf_state d =
     (case get_str d ''execution_id'' of Inl x \<Rightarrow> Inl x | Inr eid \<Rightarrow>
     (case get_str d ''workflow_id'' of Inl x \<Rightarrow> Inl x | Inr wid \<Rightarrow>
     (case get_opt_str d ''current_step_id'' of Inl x \<Rightarrow> Inl x | Inr cur \<Rightarrow>
     (case get_items d ''context'' of Inl x \<Rightarrow> Inl x | Inr ctx \<Rightarrow>
     (case get_items d ''step_results'' of Inl x \<Rightarrow> Inl x | Inr rs \<Rightarrow>
     (case get_str d ''status'' of Inl x \<Rightarrow> Inl x | Inr v \<Rightarrow>
     (case wf_status_of v of Inl x \<Rightarrow> Inl x | Inr st \<Rightarrow>
     (case get_opt_str d ''error'' of Inl x \<Rightarrow> Inl x | Inr err \<Rightarrow>
        Inr \<lparr>wx_execution_id = eid, wx_workflow_id = wid, wx_status = st,
             wx_current_step_id = cur, wx_context = ctx, wx_step_results = rs,
             wx_error = err\<rparr>))))))))"

subsection \<open>The store keeps its contract\<close>

definition wf_store_ok :: "wf_store \<Rightarrow> bool" where
  "wf_store_ok st \<longleftrightarrow> dict_ok st \<and> (\<forall>kv \<in> set st. wx_execution_id (wi_state (snd kv)) = fst kv)"

lemma wf_save_at_ok: "wf_store_ok st \<Longrightarrow> wf_store_ok (wf_save_at now st s)"
  using set_dict_set [of st "wx_execution_id s"]
  by (auto simp: wf_store_ok_def wf_save_at_def split: option.split) fastforce+

lemma wf_delete_ok: "wf_store_ok st \<Longrightarrow> wf_store_ok (snd (wf_delete st k))"
  using set_dict_del [of st k] by (auto simp: wf_store_ok_def wf_delete_def)

lemma wf_get_save_at:
  "wf_get (wf_save_at now st s) k = (if k = wx_execution_id s then Some s else wf_get st k)"
  by (auto simp: wf_get_def wf_save_at_def split: option.split)

interpretation ist: keyed_store "wf_save_at now" wf_get "\<lambda>st k. snd (wf_delete st k)"
    "\<lambda>st. dict_keys st" length wx_execution_id wf_store_ok
  for now
proof unfold_locales
  fix st k v assume ok: "wf_store_ok st" and "wf_get st k = Some v"
  then obtain r where "dict_get st k = Some r" "v = wi_state r" by (auto simp: wf_get_def)
  with ok show "wx_execution_id v = k"
    using dict_get_SomeD [of st k r] unfolding wf_store_ok_def by fastforce
next
  fix st assume ok: "wf_store_ok st"
  have "dom (wf_get st) = dom (dict_get st)" by (auto simp: wf_get_def dom_def)
  then show "set (dict_keys st) = dom (wf_get st)" by (simp only: set_dict_keys_get)
  from ok show "distinct (dict_keys st)" by (simp add: wf_store_ok_def)
next
  fix st k k'
  show "wf_get (snd (wf_delete st k)) k' = (if k' = k then None else wf_get st k')"
    by (auto simp: wf_get_def wf_delete_def)
qed (simp_all add: wf_get_save_at wf_save_at_ok wf_delete_ok)

lemma wf_get_save: "wf_get (fst (wf_save s st e)) k = (if k = wx_execution_id s then Some s else wf_get st k)"
  by (simp add: wf_save_def utc_now_def ist.get_save)

text \<open>A listing is the selected instances, newest first.\<close>

lemma wf_list_instances_mset:
  "mset (wf_list_instances st wid status) =
     mset (map wi_state (filter (\<lambda>r.
       (case wid of None \<Rightarrow> True | Some w \<Rightarrow> wx_workflow_id (wi_state r) = w) \<and>
       (case status of None \<Rightarrow> True | Some s \<Rightarrow> wx_status (wi_state r) = s)) (map snd st)))"
  by (simp add: wf_list_instances_def Let_def)

lemma dead_letter_set:
  "wf_store_ok st \<Longrightarrow> set (dead_letter_queue st) = {s. \<exists>k. wf_get st k = Some s \<and> wx_status s = WF_FAILED}"
proof -
  assume ok: "wf_store_ok st"
  have "set (dead_letter_queue st) = {wi_state r | k r. (k, r) \<in> set st \<and> wx_status (wi_state r) = WF_FAILED}"
    unfolding dead_letter_queue_def set_mset_mset [symmetric] wf_list_instances_mset
    by (force simp: image_iff)
  then show ?thesis
    using ok by (auto simp: wf_store_ok_def wf_get_def dict_get_Some_iff)
qed

subsection \<open>What the operations do\<close>

lemma wf_status_of_value: "wf_status_of (wf_status_value s) = Inr s"
  by (cases s) (simp_all add: wf_status_of_def wf_statuses_def)

text \<open>C22: an execution that an agent keeps in its metadata while it waits is the execution it
  froze: restoring the dict gives back every field.\<close>

theorem restore_freeze: "restore_wf_state (freeze_wf_state s) = Inr s"
proof -
  have opt: "get_opt_str d k = Inr v" if "dict_get d k = Some (json_opt v)" for d k v
    using that by (cases v) (simp_all add: get_opt_str_def json_opt_def)
  have "dict_get (freeze_wf_state s) ''current_step_id'' = Some (json_opt (wx_current_step_id s))"
    "dict_get (freeze_wf_state s) ''error'' = Some (json_opt (wx_error s))"
    by (simp_all add: freeze_wf_state_def dict_get_def)
  note o = this [THEN opt]
  show ?thesis
    unfolding restore_wf_state_def o
    by (simp add: freeze_wf_state_def get_str_def get_items_def dict_get_def wf_status_of_value)
qed

text \<open>Where a step that leaves by \<^verbatim>\<open>on_success\<close> goes.\<close>

definition success_move :: "workflow_step \<Rightarrow> string option" where
  "success_move step =
     (let t = dict_get_or (ws_transitions step) ''on_success'' END_TARGET
      in if t = END_TARGET then None else Some t)"

lemma advance_move: "advance s step out = (s\<lparr>wx_current_step_id := success_move step\<rparr>, out)"
  by (simp add: advance_def advance_on_def success_move_def Let_def)

definition blocking_type :: "string \<Rightarrow> bool" where
  "blocking_type ty \<longleftrightarrow> ty = ''llm_call'' \<or> ty = ''tool_execute''"

lemma wf_step_at:
  assumes "\<not> wf_terminal (wx_status s)" "wx_current_step_id s = Some sid"
    and "registry_get (en_registry en) (wx_workflow_id s) = Some d"
    and "dict_get (wd_steps d) sid = Some step"
    and "dict_get (STEP_HANDLERS e en) (ws_step_type step) = Some h"
  shows "wf_step e en s = h s step"
  using assms by (simp add: wf_step_def)

lemma STEP_HANDLERS_simps [simp]:
  "dict_get (STEP_HANDLERS e en) ''llm_call'' = Some (\<lambda>s step. Inr (handle_llm_call s step))"
  "dict_get (STEP_HANDLERS e en) ''tool_execute'' = Some (\<lambda>s step. Inr (handle_tool_execute s step))"
  "dict_get (STEP_HANDLERS e en) ''sub_workflow'' = Some (\<lambda>s step. Inr (handle_sub_workflow s step))"
  "dict_get (STEP_HANDLERS e en) ''user_input'' = Some (\<lambda>s step. Inr (handle_user_input s step))"
  "dict_get (STEP_HANDLERS e en) ''condition'' = Some (\<lambda>s step. Inr (handle_condition e s step))"
  by (simp_all add: STEP_HANDLERS_def dict_get_def)

lemma wf_step_blocking:
  assumes "\<not> wf_terminal (wx_status s)" "wx_current_step_id s = Some sid"
    and "registry_get (en_registry en) (wx_workflow_id s) = Some d"
    and "dict_get (wd_steps d) sid = Some step" "blocking_type (ws_step_type step)"
  shows "\<exists>out. wf_step e en s = Inr (s\<lparr>wx_current_step_id := success_move step\<rparr>, out) \<and>
    so_type out = (if ws_step_type step = ''llm_call'' then OUT_LLM_CALL else OUT_TOOL_EXECUTE) \<and>
    so_step_id out = ws_step_id step \<and> so_config out = ws_config step"
  using assms
  by (auto simp: blocking_type_def wf_step_at handle_llm_call_def handle_tool_execute_def advance_move
      new_outcome_def)

text \<open>C18: a failed step is not run again by a retry.  The engine has already moved on when the
  caller reports the failure of an LLM call or a tool step without \<^verbatim>\<open>on_failure\<close>: the failed
  execution stands at the step after it, \<open>retry_instance\<close> sets it running there, and where the
  failed step was the last one the retried execution completes without having run it.\<close>

theorem retry_skips_failed_step:
  assumes run: "\<not> wf_terminal (wx_status s)" "wx_current_step_id s = Some sid"
    and reg: "registry_get (en_registry en) (wx_workflow_id s) = Some d"
    and step: "dict_get (wd_steps d) sid = Some step" "blocking_type (ws_step_type step)"
      "ws_step_id step = sid" "dict_get (ws_transitions step) ''on_failure'' = None"
    and stepped: "wf_step e en s = Inr (s1, out)"
    and failed: "s2 = fst (fail_step en s1 (so_step_id out) err)"
    and saved: "wf_get st (wx_execution_id s) = Some s2"
    and retried: "retry_instance (wx_execution_id s) st e' = (ok, st', e'')"
  shows "wx_status s2 = WF_FAILED \<and> ok \<and>
    (\<exists>s3. wf_get st' (wx_execution_id s) = Some s3 \<and> wx_status s3 = WF_RUNNING \<and>
       wx_current_step_id s3 = success_move step \<and>
       dict_get (wx_step_results s3) sid =
         Some (JObj [(''error'', JStr err), (''status'', JStr ''failed'')]) \<and>
       (success_move step = None \<longrightarrow>
          wf_step e en s3 = Inr (s3\<lparr>wx_status := WF_COMPLETED\<rparr>, new_outcome OUT_COMPLETED)))"
proof -
  from wf_step_blocking [OF run reg step(1,2), of e] stepped step(3)
  have s1: "s1 = s\<lparr>wx_current_step_id := success_move step\<rparr>" and sid: "so_step_id out = sid" by auto
  have s2: "s2 = s\<lparr>wx_current_step_id := success_move step, wx_status := WF_FAILED,
      wx_error := Some err, wx_step_results := dict_set (wx_step_results s) sid
        (JObj [(''error'', JStr err), (''status'', JStr ''failed'')])\<rparr>"
    unfolding failed s1 sid using reg step by (simp add: fail_step_def follow_failure_def wf_fail_def)
  define s3 where "s3 = s2\<lparr>wx_status := WF_RUNNING, wx_error := None\<rparr>"
  have ok: "ok" and st': "st' = fst (wf_save s3 st e')"
    using retried saved by (auto simp: retry_instance_def s2 s3_def split: prod.splits)
  have "wf_get st' (wx_execution_id s) = Some s3"
    unfolding st' wf_get_save by (simp add: s3_def s2)
  moreover have "wf_step e en s3 = Inr (s3\<lparr>wx_status := WF_COMPLETED\<rparr>, new_outcome OUT_COMPLETED)"
    if "success_move step = None"
    using that by (simp add: s3_def s2 wf_step_def wf_terminal_def wf_complete_def)
  ultimately show ?thesis using ok by (simp add: s2 s3_def)
qed

text \<open>an answer is filed under the wrong step.  A user-input step moves on before it waits, so
  an answer that is resumed without naming the step is recorded under the id of the step after it
  (or under the empty id at the end), and the asking step has no result.\<close>

lemma input_recorded_under_next_step:
  assumes run: "\<not> wf_terminal (wx_status s)" "wx_current_step_id s = Some sid"
    and reg: "registry_get (en_registry en) (wx_workflow_id s) = Some d"
    and step: "dict_get (wd_steps d) sid = Some step" "ws_step_type step = ''user_input''"
    and elsewhere: "success_move step \<noteq> Some sid" "sid \<noteq> []"
    and stepped: "wf_step e en s = Inr (s1, out)"
  shows "so_type out = OUT_WAITING_FOR_INPUT \<and> wx_status s1 = WF_WAITING_FOR_INPUT \<and>
    (let s2 = resume_workflow e s1 txt cid;
         slot = (case success_move step of None \<Rightarrow> [] | Some t \<Rightarrow> t)
     in wx_status s2 = WF_RUNNING \<and> wx_current_step_id s2 = success_move step \<and>
        dict_get (wx_step_results s2) slot = Some (JObj [(''result'',
          case we_json_loads e txt of None \<Rightarrow> JStr txt | Some v \<Rightarrow> v)]) \<and>
        dict_get (wx_step_results s2) sid = dict_get (wx_step_results s) sid)"
proof -
  have move: "success_move step = None \<longleftrightarrow> dict_get (ws_transitions step) ''on_success'' = None \<or>
      dict_get (ws_transitions step) ''on_success'' = Some END_TARGET"
    "success_move step = Some t \<Longrightarrow> dict_get (ws_transitions step) ''on_success'' = Some t" for t
    by (auto simp: success_move_def dict_get_or_def Let_def split: option.splits if_splits)
  have "wf_step e en s = Inr (handle_user_input s step)"
    using wf_step_at [OF run reg step(1)] step(2) by simp
  then have h: "handle_user_input s step = (s1, out)" using stepped by simp
  have s1: "s1 = s\<lparr>wx_status := WF_WAITING_FOR_INPUT, wx_current_step_id := success_move step\<rparr>"
    and out: "so_type out = OUT_WAITING_FOR_INPUT"
    using h move by (cases "success_move step"; auto simp: handle_user_input_def Let_def new_outcome_def)+
  show ?thesis
    using elsewhere out
    by (cases "success_move step") (simp_all add: s1 resume_workflow_def resume_with_input_def Let_def)
qed

definition run_step :: workflow_step where
  "run_step = demo_step ''run'' ''tool_execute'' [(''on_success'', END_TARGET)]"

lemma run_step_simps:
  "dict_get (wd_steps ask_and_run) ''run'' = Some run_step"
  "ws_step_id run_step = ''run''" "ws_step_type run_step = ''tool_execute''"
  "success_move run_step = None" "dict_get (ws_transitions run_step) ''on_failure'' = None"
  by (simp_all add: run_step_def ask_and_run_def demo_definition_def demo_step_def dict_get_def
      success_move_def dict_get_or_def)

definition run_failed :: workflow_execution_state where
  "run_failed = fst (fail_step (demo_engine ask_and_run)
     ((demo_state ''run'')\<lparr>wx_current_step_id := None\<rparr>) ''run'' ''boom'')"

theorem retry_skips_failed_step_witness:
  "wx_status run_failed = WF_FAILED \<and>
   (\<exists>s3. wf_get (fst (snd (retry_instance ''u0''
        [(''u0'', \<lparr>wi_state = run_failed, wi_created_at = 0, wi_updated_at = 0\<rparr>)] demo_env))) ''u0''
        = Some s3 \<and>
      wf_step demo_env (demo_engine ask_and_run) s3 =
        Inr (s3\<lparr>wx_status := WF_COMPLETED\<rparr>, new_outcome OUT_COMPLETED))"
proof -
  let ?en = "demo_engine ask_and_run" and ?s = "demo_state ''run''"
  let ?st = "[(''u0'', \<lparr>wi_state = run_failed, wi_created_at = 0, wi_updated_at = 0\<rparr>)]"
  have run: "\<not> wf_terminal (wx_status ?s)" "wx_current_step_id ?s = Some ''run''"
    "registry_get (en_registry ?en) (wx_workflow_id ?s) = Some ask_and_run"
    by (simp_all add: demo_state_def wf_terminal_def)
  have bl: "blocking_type (ws_step_type run_step)" by (simp add: run_step_simps blocking_type_def)
  obtain out where stepped:
      "wf_step demo_env ?en ?s = Inr (?s\<lparr>wx_current_step_id := None\<rparr>, out)"
    and out: "so_step_id out = ''run''"
    using wf_step_blocking [OF run run_step_simps(1) bl, of demo_env] run_step_simps by auto
  have failed: "run_failed =
      fst (fail_step ?en (?s\<lparr>wx_current_step_id := None\<rparr>) (so_step_id out) ''boom'')"
    by (simp add: run_failed_def out)
  have saved: "wf_get ?st (wx_execution_id ?s) = Some run_failed"
    by (simp add: wf_get_def dict_get_def demo_state_def)
  obtain ok st' e'' where retried: "retry_instance (wx_execution_id ?s) ?st demo_env = (ok, st', e'')"
    by (cases "retry_instance (wx_execution_id ?s) ?st demo_env")
  have eid: "wx_execution_id ?s = ''u0''" by (simp add: demo_state_def)
  from retry_skips_failed_step
      [OF run run_step_simps(1) bl run_step_simps(2,5) stepped failed saved retried]
    retried run_step_simps(4)
  show ?thesis unfolding eid by auto
qed

definition ask_step :: workflow_step where
  "ask_step = demo_step ''ask'' ''user_input'' [(''on_success'', ''run'')]"

lemma ask_step_simps:
  "dict_get (wd_steps ask_and_run) ''ask'' = Some ask_step"
  "ws_step_type ask_step = ''user_input''" "success_move ask_step = Some ''run''"
  "dict_get (ws_transitions ask_step) ''on_success'' = Some ''run''"
  by (simp_all add: ask_step_def ask_and_run_def demo_definition_def demo_step_def dict_get_def
      success_move_def dict_get_or_def END_TARGET_def)

lemma input_recorded_under_next_step_example:
  "\<exists>s1. let s2 = resume_workflow demo_env s1 ''yes'' [] in
     dict_get (wx_step_results s2) ''run'' = Some (JObj [(''result'', JStr ''yes'')]) \<and>
     dict_get (wx_step_results s2) ''ask'' = None"
proof -
  let ?en = "demo_engine ask_and_run" and ?s = "demo_state ''ask''"
  have run: "\<not> wf_terminal (wx_status ?s)" "wx_current_step_id ?s = Some ''ask''"
    "registry_get (en_registry ?en) (wx_workflow_id ?s) = Some ask_and_run"
    by (simp_all add: demo_state_def wf_terminal_def)
  obtain s1 out where stepped: "wf_step demo_env ?en ?s = Inr (s1, out)"
    using wf_step_at [OF run ask_step_simps(1), of demo_env] ask_step_simps(2)
    by (cases "handle_user_input ?s ask_step") auto
  from input_recorded_under_next_step [OF run ask_step_simps(1,2) _ _ stepped, of "''yes''" "[]"]
  show ?thesis
    by (auto simp: ask_step_simps Let_def demo_env_def demo_state_def intro!: exI [of _ s1])
qed

end
