(* ===== verification/AgentRegistry.thy ===== *)
theory AgentRegistry
  imports Prelude
begin

text \<open>
  The agents of the system: their declarations and the registry (\<^verbatim>\<open>agent/registry.py\<close>), the choice of
  an agent for a workflow step (\<^verbatim>\<open>agent/selection.py\<close>), and the context an agent is activated with
  (\<^verbatim>\<open>agent/activation.py\<close>).
\<close>

subsection \<open>Versions\<close>

fun split_on :: "char \<Rightarrow> string \<Rightarrow> string list" where
  "split_on c [] = [[]]"
| "split_on c (x # xs) =
     (if x = c then [] # split_on c xs
      else (case split_on c xs of [] \<Rightarrow> [[x]] | p # ps \<Rightarrow> (x # p) # ps))"

text \<open>What \<open>int(s)\<close> accepts, of ASCII digits.\<close>

fun int_digits :: "string \<Rightarrow> bool"
and int_digits_more :: "string \<Rightarrow> bool" where
  "int_digits [] = False"
| "int_digits (c # cs) = (c \<in> set ''0123456789'' \<and> int_digits_more cs)"
| "int_digits_more [] = True"
| "int_digits_more (c # cs) =
     (if c = CHR ''_'' then int_digits cs else c \<in> set ''0123456789'' \<and> int_digits_more cs)"

definition int_literal :: "string \<Rightarrow> bool" where
  "int_literal s =
     (case py_strip s of
        [] \<Rightarrow> False
      | c # cs \<Rightarrow> if c = CHR ''+'' \<or> c = CHR ''-'' then int_digits cs else int_digits (c # cs))"

definition validate_semver :: "string \<Rightarrow> unit result" where
  "validate_semver version =
     (if version = [] then
        Inl (ValueError (''version must be a non-empty string, got '' @ quoted version))
      else
        (let parts = split_on CHR ''.'' version
         in if length parts < 3 then
              Inl (ValueError (''version must be MAJOR.MINOR.PATCH, got '' @ quoted version))
            else if \<exists>part \<in> set (take 3 parts). \<not> int_literal part then
              Inl (ValueError (''version must be MAJOR.MINOR.PATCH, non-numeric component in '' @
                quoted version))
            else Inr ()))"

subsection \<open>Declarations\<close>

record agent_identity =
  ai_agent_id :: string
  ai_name :: string
  ai_description :: string
  ai_version :: string
  ai_provenance :: string

record agent_constraints =
  ac_max_tokens :: int
  ac_max_iterations :: int
  ac_timeout_ms :: int
  ac_sandbox :: string

record agent_metadata =
  am_identity :: agent_identity
  am_persona :: string
  am_skills :: "string list"
  am_tools :: "string list"
  am_workflows :: "string list"
  am_patterns :: "string list"
  am_councils :: "string list"
  am_defer_to :: "string list"
  am_inputs :: "string list"
  am_outputs :: "string list"
  am_constraints :: agent_constraints

definition list_repr :: "string list \<Rightarrow> string" where
  "list_repr ss = ''['' @ joined '', '' (map quoted ss) @ '']''"

text \<open>The sorted provenances and sandbox levels.\<close>

definition VALID_PROVENANCES :: "string list" where
  "VALID_PROVENANCES = [''built-in'', ''system'', ''user-defined'']"

definition VALID_SANDBOX_LEVELS :: "string list" where
  "VALID_SANDBOX_LEVELS = [''container'', ''none'', ''process'']"

definition check_identity :: "agent_identity \<Rightarrow> agent_identity result" where
  "check_identity i =
     (if ai_agent_id i = [] then Inl (ValueError ''agent_id must be non-empty'')
      else if ai_name i = [] then Inl (ValueError ''name must be non-empty'')
      else if ai_version i = [] then Inl (ValueError ''version must be non-empty'')
      else if ai_provenance i \<notin> set VALID_PROVENANCES then
        Inl (ValueError (''provenance must be one of '' @ list_repr VALID_PROVENANCES @ '', got '' @
          quoted (ai_provenance i)))
      else (case validate_semver (ai_version i) of Inl x \<Rightarrow> Inl x | Inr _ \<Rightarrow> Inr i))"

definition check_constraints :: "agent_constraints \<Rightarrow> agent_constraints result" where
  "check_constraints c =
     (if ac_max_tokens c < 0 then
        Inl (ValueError (''max_tokens must be >= 0, got '' @ int_str (ac_max_tokens c)))
      else if ac_max_iterations c < 0 then
        Inl (ValueError (''max_iterations must be >= 0, got '' @ int_str (ac_max_iterations c)))
      else if ac_timeout_ms c < 0 then
        Inl (ValueError (''timeout_ms must be >= 0, got '' @ int_str (ac_timeout_ms c)))
      else if ac_sandbox c \<notin> set VALID_SANDBOX_LEVELS then
        Inl (ValueError (''sandbox must be one of '' @ list_repr VALID_SANDBOX_LEVELS @ '', got '' @
          quoted (ac_sandbox c)))
      else Inr c)"

subsection \<open>The registry\<close>

type_synonym agent_registry = "agent_metadata pydict"

record agent_handle =
  ah_agent_id :: string
  ah_metadata :: agent_metadata

definition registry_exn :: "string \<Rightarrow> string \<Rightarrow> pyexn" where
  "registry_exn ty m = PyExn ''src.agent.registry'' ty m"

abbreviation agent_id_of :: "agent_metadata \<Rightarrow> string" where
  "agent_id_of m \<equiv> ai_agent_id (am_identity m)"

definition register_agent ::
  "agent_metadata \<Rightarrow> agent_registry \<Rightarrow> agent_handle result \<times> agent_registry"
where
  "register_agent m reg =
     (let handle = \<lparr>ah_agent_id = agent_id_of m, ah_metadata = m\<rparr>
      in case dict_get reg (agent_id_of m) of
           Some existing \<Rightarrow>
             if existing = m then (Inr handle, reg)
             else (Inl (registry_exn ''DuplicateAgentError''
                    (''agent '' @ quoted (agent_id_of m) @ '' already registered'')), reg)
         | None \<Rightarrow> (Inr handle, dict_set reg (agent_id_of m) m))"

definition get_agent :: "agent_registry \<Rightarrow> string \<Rightarrow> agent_metadata result" where
  "get_agent reg agent_id =
     (case dict_get reg agent_id of
        None \<Rightarrow> Inl (registry_exn ''AgentNotFoundError'' (''agent '' @ quoted agent_id @ '' not found''))
      | Some m \<Rightarrow> Inr m)"

definition list_agents :: "agent_registry \<Rightarrow> agent_metadata list" where
  "list_agents reg = map snd reg"

definition find_agents_by_skill :: "agent_registry \<Rightarrow> string \<Rightarrow> agent_metadata list" where
  "find_agents_by_skill reg skill = filter (\<lambda>a. skill \<in> set (am_skills a)) (map snd reg)"

definition find_agents_by_workflow :: "agent_registry \<Rightarrow> string \<Rightarrow> agent_metadata list" where
  "find_agents_by_workflow reg workflow = filter (\<lambda>a. workflow \<in> set (am_workflows a)) (map snd reg)"

definition find_agents_by_pattern :: "agent_registry \<Rightarrow> string \<Rightarrow> agent_metadata list" where
  "find_agents_by_pattern reg pat = filter (\<lambda>a. pat \<in> set (am_patterns a)) (map snd reg)"

definition agent_count :: "agent_registry \<Rightarrow> nat" where
  "agent_count reg = length reg"

definition has_agent :: "agent_registry \<Rightarrow> string \<Rightarrow> bool" where
  "has_agent reg agent_id \<longleftrightarrow> dict_get reg agent_id \<noteq> None"

text \<open>Every agent is registered once, under its own id.\<close>

definition registry_ok :: "agent_registry \<Rightarrow> bool" where
  "registry_ok reg \<longleftrightarrow> dict_ok reg \<and> (\<forall>(k, m) \<in> set reg. k = agent_id_of m)"

lemma registry_ok_empty: "registry_ok []"
  by (simp add: registry_ok_def)

lemma register_agent_ok: "registry_ok reg \<Longrightarrow> registry_ok (snd (register_agent m reg))"
  using set_dict_set [of reg "agent_id_of m" m]
  by (fastforce simp: register_agent_def registry_ok_def Let_def split: option.splits)

lemma get_agent_id: "registry_ok reg \<Longrightarrow> get_agent reg i = Inr m \<Longrightarrow> agent_id_of m = i"
  by (auto simp: get_agent_def registry_ok_def dest!: dict_get_SomeD split: option.splits)

lemma registry_ids: "registry_ok reg \<Longrightarrow> map agent_id_of (list_agents reg) = dict_keys reg"
  by (auto simp: registry_ok_def list_agents_def)

text \<open>The registrations of the start-up, one after the other; a duplicate is refused.\<close>

definition register_all :: "agent_metadata list \<Rightarrow> agent_registry" where
  "register_all ms = fold (\<lambda>m reg. snd (register_agent m reg)) ms []"

lemma register_all_ok: "registry_ok (register_all ms)"
proof -
  have "registry_ok reg \<Longrightarrow> registry_ok (fold (\<lambda>m reg. snd (register_agent m reg)) ms reg)" for reg
    by (induction ms arbitrary: reg) (auto intro: register_agent_ok)
  then show ?thesis by (simp add: register_all_def registry_ok_empty)
qed

text \<open>The declaration of an agent, for the examples.\<close>

definition demo_metadata :: "string \<Rightarrow> string list \<Rightarrow> agent_metadata" where
  "demo_metadata agent_id defer_to =
     \<lparr>am_identity = \<lparr>ai_agent_id = agent_id, ai_name = agent_id, ai_description = [],
        ai_version = ''1.0.0'', ai_provenance = ''built-in''\<rparr>,
      am_persona = [], am_skills = [], am_tools = [], am_workflows = [], am_patterns = [],
      am_councils = [], am_defer_to = defer_to, am_inputs = [], am_outputs = [],
      am_constraints = \<lparr>ac_max_tokens = 0, ac_max_iterations = 10, ac_timeout_ms = 5,
        ac_sandbox = ''none''\<rparr>\<rparr>"

subsection \<open>Selection for a workflow step\<close>

text \<open>\<open>x and has_agent(x)\<close> for any JSON value: only a string can be the id of an agent, lists and dicts
  cannot be hashed.\<close>

definition explicit_agent :: "agent_registry \<Rightarrow> json \<Rightarrow> string option result" where
  "explicit_agent reg v =
     (if \<not> json_truthy v then Inr None
      else (case v of
          JStr s \<Rightarrow> Inr (if has_agent reg s then Some s else None)
        | JList _ \<Rightarrow> Inl (TypeError (''unhashable type: '' @ quoted ''list''))
        | JObj _ \<Rightarrow> Inl (TypeError (''unhashable type: '' @ quoted ''dict''))
        | _ \<Rightarrow> Inr None))"

definition match_by_persona :: "agent_registry \<Rightarrow> json \<Rightarrow> string option result" where
  "match_by_persona reg profile =
     (case str_method ''lower'' py_lower profile of
        Inl x \<Rightarrow> Inl x
      | Inr p \<Rightarrow> Inr (map_option agent_id_of
          (List.find (\<lambda>m. contains p (py_lower (am_persona m))) (list_agents reg))))"

definition select_default :: "agent_registry \<Rightarrow> string \<Rightarrow> string result" where
  "select_default reg default_agent_id =
     (if \<not> has_agent reg default_agent_id then
        Inl (registry_exn ''AgentNotFoundError''
          (''default agent '' @ quoted default_agent_id @ '' is not registered''))
      else Inr default_agent_id)"

definition select_agent :: "agent_registry \<Rightarrow> string \<Rightarrow> json pydict \<Rightarrow> string result" where
  "select_agent reg default_agent_id step_config =
     (case explicit_agent reg (dict_get_or step_config ''agent_id'' JNull) of
        Inl x \<Rightarrow> Inl x
      | Inr (Some i) \<Rightarrow> Inr i
      | Inr None \<Rightarrow>
          (let profile = dict_get_or step_config ''agent_profile'' JNull
           in case (if json_truthy profile then match_by_persona reg profile else Inr None) of
                Inl x \<Rightarrow> Inl x
              | Inr (Some i) \<Rightarrow> Inr i
              | Inr None \<Rightarrow> select_default reg default_agent_id))"

definition select_metadata ::
  "agent_registry \<Rightarrow> string \<Rightarrow> json pydict \<Rightarrow> agent_metadata result"
where
  "select_metadata reg default_agent_id step_config =
     (case select_agent reg default_agent_id step_config of
        Inl x \<Rightarrow> Inl x
      | Inr i \<Rightarrow> get_agent reg i)"

text \<open>Whatever a step asks for, the agent that is chosen is registered.\<close>

lemma select_registered:
  assumes "registry_ok reg" "select_agent reg dflt cfg = Inr i"
  shows "has_agent reg i"
proof -
  have found: "has_agent reg (agent_id_of m)" if "m \<in> set (list_agents reg)" for m
  proof -
    from that assms(1) have "agent_id_of m \<in> set (dict_keys reg)"
      by (metis registry_ids image_eqI list.set_map)
    then show ?thesis using dict_get_None_iff by (auto simp: has_agent_def)
  qed
  have explicit: "has_agent reg s" if "explicit_agent reg v = Inr (Some s)" for v s
    using that by (auto simp: explicit_agent_def split: json.splits if_splits)
  show ?thesis
    using assms(2) explicit
    by (auto simp: select_agent_def Let_def match_by_persona_def select_default_def
        find_Some_iff intro!: found split: sum.splits if_splits option.splits)
qed

text \<open>An explicit agent that is not registered is not reported: the step goes to the default agent.\<close>

lemma unknown_explicit_falls_back:
  "\<not> has_agent reg s \<Longrightarrow> dict_get cfg ''agent_profile'' = None \<Longrightarrow>
     select_agent reg dflt (dict_set cfg ''agent_id'' (JStr s)) = select_default reg dflt"
  by (simp add: select_agent_def explicit_agent_def dict_get_or_def)

subsection \<open>Activation\<close>

record agent_message =
  ms_message :: string
  ms_context :: "json pydict"
  ms_capabilities :: "string list"
  ms_contract_version :: string

text \<open>The check of a message; what is nested deeper than fifty levels is refused.\<close>

fun first_error :: "string option list \<Rightarrow> string option" where
  "first_error [] = None"
| "first_error (r # rs) = (case r of None \<Rightarrow> first_error rs | Some m \<Rightarrow> Some m)"

function json_incompatible :: "json \<Rightarrow> string \<Rightarrow> nat \<Rightarrow> string option" where
  "json_incompatible v path depth =
     (if depth > 50 then Some (path @ '' exceeds maximum nesting depth of 50'')
      else (case v of
          JList vs \<Rightarrow> first_error (map (\<lambda>(i, x).
            json_incompatible x (path @ ''['' @ nat_digits i @ '']'') (depth + 1)) (enumerate 0 vs))
        | JObj kvs \<Rightarrow> first_error (map (\<lambda>kx.
            json_incompatible (snd kx) (path @ ''.'' @ fst kx) (depth + 1)) kvs)
        | _ \<Rightarrow> None))"
  by pat_completeness auto
termination by (relation "measure (\<lambda>(_, _, depth). 51 - depth)") auto

definition check_message :: "agent_message \<Rightarrow> agent_message result" where
  "check_message m =
     (if ms_message m = [] then Inl (ValueError ''message must be non-empty'')
      else if ms_contract_version m = [] then Inl (ValueError ''contract_version must be non-empty'')
      else (case first_error [json_incompatible (JObj (ms_context m)) ''context'' 0,
                json_incompatible (JList (map JStr (ms_capabilities m))) ''capabilities'' 0] of
              Some msg \<Rightarrow> Inl (ValueError msg)
            | None \<Rightarrow> Inr m))"

definition new_message :: "string \<Rightarrow> json pydict \<Rightarrow> agent_message result" where
  "new_message text context =
     check_message \<lparr>ms_message = text, ms_context = context, ms_capabilities = [],
       ms_contract_version = ''1.0''\<rparr>"

record activation_envelope =
  ae_agent_id :: string
  ae_message :: agent_message
  ae_activation_context :: "json pydict"

record activation_context =
  ax_agent_metadata :: agent_metadata
  ax_conversation_history :: "json pydict list"
  ax_routing_hints :: "json pydict"
  ax_channel_metadata :: "json pydict"
  ax_system_constraints :: "json pydict"

record activated_agent_context =
  aa_envelope :: activation_envelope
  aa_context :: activation_context

definition activation_exn :: "string \<Rightarrow> string \<Rightarrow> pyexn" where
  "activation_exn ty m = PyExn ''src.agent.activation'' ty m"

text \<open>The sorted channels; all of them may activate an agent.\<close>

definition VALID_CHANNELS :: "string list" where
  "VALID_CHANNELS = [''cli'', ''http'', ''system'', ''tui'', ''web'']"

definition ACTIVATION_AUTHORIZED_CHANNELS :: "string list" where
  "ACTIVATION_AUTHORIZED_CHANNELS = [''cli'', ''http'', ''system'', ''tui'', ''web'']"

definition check_envelope :: "activation_envelope \<Rightarrow> activation_envelope result" where
  "check_envelope v =
     (if ae_agent_id v = [] then Inl (ValueError ''agent_id must be non-empty'')
      else (case dict_get_or (ae_activation_context v) ''channel'' (JStr []) of
          JStr c \<Rightarrow>
            if c \<noteq> [] \<and> c \<notin> set VALID_CHANNELS then
              Inl (ValueError (''channel must be one of '' @ list_repr VALID_CHANNELS @ '', got '' @
                quoted c))
            else Inr v
        | _ \<Rightarrow> Inr v))"

text \<open>\<open>x or fresh\<close>, where the fresh identifier is drawn only if needed.\<close>

definition or_uuid :: "string option \<Rightarrow> 'a env_scheme \<Rightarrow> string \<times> 'a env_scheme" where
  "or_uuid x e = (case x of Some (c # cs) \<Rightarrow> (c # cs, e) | _ \<Rightarrow> new_uuid e)"

definition system_constraints :: "agent_constraints \<Rightarrow> json pydict" where
  "system_constraints c =
     [(''max_tokens'', JInt (ac_max_tokens c)), (''timeout_ms'', JInt (ac_timeout_ms c)),
      (''sandbox'', JStr (ac_sandbox c))]"

definition s52_activate_agent ::
  "string \<Rightarrow> agent_message \<Rightarrow> agent_registry \<Rightarrow> string \<Rightarrow> string option \<Rightarrow> string option
   \<Rightarrow> json pydict list \<Rightarrow> json pydict \<Rightarrow> json pydict \<Rightarrow> 'a env_scheme
   \<Rightarrow> activated_agent_context result \<times> 'a env_scheme"
where
  "s52_activate_agent agent_id message reg channel correlation_id trace_id history hints ch_meta e =
     (if channel \<notin> set ACTIVATION_AUTHORIZED_CHANNELS then
        (Inl (activation_exn ''UnauthorizedChannelError''
           (''channel '' @ quoted channel @ '' is not authorized to activate S5; authorized channels: '' @
            list_repr ACTIVATION_AUTHORIZED_CHANNELS)), e)
      else (case get_agent reg agent_id of
          Inl _ \<Rightarrow>
            (Inl (activation_exn ''ActivationError''
               (''cannot activate unknown agent '' @ quoted agent_id)), e)
        | Inr m \<Rightarrow>
            (let (now, e) = utc_now e;
                 (cid, e) = or_uuid correlation_id e;
                 (tid, e) = or_uuid trace_id e;
                 injected = \<lparr>ax_agent_metadata = m, ax_conversation_history = history,
                   ax_routing_hints = hints, ax_channel_metadata = ch_meta,
                   ax_system_constraints = system_constraints (am_constraints m)\<rparr>
             in (case check_envelope \<lparr>ae_agent_id = agent_id, ae_message = message,
                      ae_activation_context =
                        [(''timestamp'', JStr (e_isoformat e now)), (''channel'', JStr channel),
                         (''correlation_id'', JStr cid), (''trace_id'', JStr tid)]\<rparr> of
                   Inl x \<Rightarrow> (Inl x, e)
                 | Inr v \<Rightarrow> (Inr \<lparr>aa_envelope = v, aa_context = injected\<rparr>, e)))))"

text \<open>Activation fails only for a channel or an agent that is unknown.\<close>

lemma activation_succeeds_iff:
  "(\<exists>ctx. fst (s52_activate_agent i msg reg channel cid tid h hints cm e) = Inr ctx) \<longleftrightarrow>
     channel \<in> set VALID_CHANNELS \<and> has_agent reg i \<and> i \<noteq> []"
  by (auto simp: s52_activate_agent_def check_envelope_def has_agent_def get_agent_def
      ACTIVATION_AUTHORIZED_CHANNELS_def VALID_CHANNELS_def dict_get_or_def dict_get_def split_beta
      split: option.splits sum.splits if_splits)

lemma activated_context:
  assumes "s52_activate_agent i msg reg channel cid tid h hints cm e = (Inr ctx, e')"
  shows "get_agent reg i = Inr (ax_agent_metadata (aa_context ctx))"
    and "ax_conversation_history (aa_context ctx) = h" "ae_message (aa_envelope ctx) = msg"
  using assms
  by (auto simp: s52_activate_agent_def check_envelope_def split_beta split: sum.splits if_splits json.splits)

end
