(* ===== verification/AgentLifecycle.thy ===== *)
theory AgentLifecycle
  imports AgentRegistry
begin

text \<open>
  The agent's runtime state and its lifecycle: \<^verbatim>\<open>agent/interfaces/agent_state.py\<close>, the response
  of \<^verbatim>\<open>agent/contracts.py\<close>, the route of \<^verbatim>\<open>agent/router.py\<close>, the dispatch of
  \<^verbatim>\<open>agent/job_interface.py\<close>, the in-memory store of \<^verbatim>\<open>agent/adapters/memory_agent_state_store.py\<close>
  and the lifecycle operations of \<^verbatim>\<open>agent/supervisor.py\<close>, over the registry and the activation of
  \<open>AgentRegistry\<close>.  A state is immutable in the source, so it is a value here.
\<close>

subsection \<open>Data\<close>

datatype lifecycle_state =
    LCREATED
  | LACTIVATED
  | LRUNNING
  | LWAITING
  | LSUSPENDED
  | LCOMPLETED
  | LFAILED
  | LAWAITING_CHILDREN

fun lifecycle_value :: "lifecycle_state \<Rightarrow> string" where
  "lifecycle_value LCREATED = ''created''"
| "lifecycle_value LACTIVATED = ''activated''"
| "lifecycle_value LRUNNING = ''running''"
| "lifecycle_value LWAITING = ''waiting''"
| "lifecycle_value LSUSPENDED = ''suspended''"
| "lifecycle_value LCOMPLETED = ''completed''"
| "lifecycle_value LFAILED = ''failed''"
| "lifecycle_value LAWAITING_CHILDREN = ''awaiting_children''"

definition is_terminal :: "lifecycle_state \<Rightarrow> bool" where
  "is_terminal s \<longleftrightarrow> s = LCOMPLETED \<or> s = LFAILED"

definition is_active :: "lifecycle_state \<Rightarrow> bool" where
  "is_active s \<longleftrightarrow> (s = LRUNNING \<or> s = LWAITING) \<and> s \<noteq> LAWAITING_CHILDREN"

record lifecycle_event =
  le_timestamp :: datetime
  le_from_state :: "lifecycle_state option"
  le_to_state :: lifecycle_state
  le_reason :: string
  le_details :: "json pydict"

text \<open>The constructor with its checks; a timestamp is never empty.\<close>

definition new_lifecycle_event ::
  "datetime \<Rightarrow> lifecycle_state option \<Rightarrow> lifecycle_state \<Rightarrow> string \<Rightarrow> json pydict
   \<Rightarrow> lifecycle_event result"
where
  "new_lifecycle_event now from_state to_state reason details =
     (if reason = [] then Inl (ValueError ''reason must be non-empty'')
      else Inr \<lparr>le_timestamp = now, le_from_state = from_state, le_to_state = to_state,
                le_reason = reason, le_details = details\<rparr>)"

record route =
  ro_destination :: string
  ro_payload :: "json pydict"
  ro_agent_id :: string
  ro_confidence :: rat

record job_dispatch_result =
  jd_dispatched_jobs :: "string pydict"
  jd_errors :: "(string \<times> string) list"

record agent_response =
  ar_reply :: "string option"
  ar_metadata :: "json pydict"
  ar_contract_version :: string

record agent_state =
  as_agent_id :: string
  as_lifecycle_state :: lifecycle_state
  as_activation_snapshot :: "activated_agent_context option"
  as_route_result :: "route option"
  as_dispatch_result :: "job_dispatch_result option"
  as_final_response :: "agent_response option"
  as_errors :: "json pydict list"
  as_timestamps :: "datetime pydict"
  as_correlation_id :: string
  as_trace_id :: string
  as_version :: int
  as_supervisor_metadata :: "json pydict"
  as_decomposition_result :: "json pydict option"
  as_conversation_history :: "json pydict list"
  as_lifecycle_history :: "lifecycle_event list"

text \<open>\<open>AgentState.__post_init__\<close>; the field types it checks are the record's.\<close>

definition check_agent_state :: "agent_state \<Rightarrow> agent_state result" where
  "check_agent_state s =
     (if as_agent_id s = [] then Inl (ValueError ''agent_id must be non-empty'')
      else if as_version s < 1 then
        Inl (ValueError (''version must be >= 1, got '' @ int_str (as_version s)))
      else if list_ex (\<lambda>entry. dict_get entry ''role'' = None \<or> dict_get entry ''content'' = None)
          (as_conversation_history s) then
        Inl (ValueError (''each conversation_history entry must have '' @ quoted ''role'' @
          '' and '' @ quoted ''content'' @ '' keys''))
      else Inr s)"

definition setdefault :: "'v pydict \<Rightarrow> string \<Rightarrow> 'v \<Rightarrow> 'v pydict" where
  "setdefault d k v = (case dict_get d k of None \<Rightarrow> dict_set d k v | Some _ \<Rightarrow> d)"

definition stamp ::
  "datetime \<Rightarrow> lifecycle_state \<Rightarrow> lifecycle_state \<Rightarrow> datetime pydict \<Rightarrow> datetime pydict"
where
  "stamp now old new ts =
     (let ts = (if old = LCREATED \<and> new = LACTIVATED then dict_set ts ''activated_at'' now else ts);
          ts = (if new = LRUNNING
                then dict_set (setdefault ts ''first_run_at'' now) ''last_run_at'' now else ts);
          ts = (if new = LCOMPLETED then dict_set ts ''completed_at'' now else ts);
          ts = (if new = LFAILED then dict_set ts ''failed_at'' now else ts)
      in if new = LSUSPENDED then dict_set ts ''suspended_at'' now else ts)"

text \<open>\<open>AgentState.with_\<close>: \<open>changes\<close> assigns the given fields.  The history, the timestamps and the
  version are computed from the old state.\<close>

definition with_changes ::
  "(agent_state \<Rightarrow> agent_state) \<Rightarrow> string \<Rightarrow> json pydict \<Rightarrow> agent_state \<Rightarrow> 'e env_scheme
   \<Rightarrow> agent_state result \<times> 'e env_scheme"
where
  "with_changes changes reason details s e =
     (let (now, e) = utc_now e;
          d = changes s;
          new_state = as_lifecycle_state d
      in (case (if new_state \<noteq> as_lifecycle_state s
                then (case new_lifecycle_event now (Some (as_lifecycle_state s)) new_state reason details of
                        Inl x \<Rightarrow> Inl x
                      | Inr ev \<Rightarrow> Inr (d\<lparr>as_lifecycle_history := as_lifecycle_history s @ [ev]\<rparr>))
                else Inr d) of
            Inl x \<Rightarrow> Inl x
          | Inr d \<Rightarrow>
              check_agent_state
                (d\<lparr>as_timestamps := stamp now (as_lifecycle_state s) new_state (as_timestamps s),
                   as_version := as_version s + 1\<rparr>), e))"

subsection \<open>The store and the supervisor's lifecycle operations\<close>

record agent_world = env +
  aw_store :: "agent_state pydict"
  aw_auto_persist :: bool
  aw_registry :: agent_registry

definition StoreError :: "string \<Rightarrow> pyexn" where
  "StoreError m = PyExn ''src.agent.interfaces.agent_state_store'' ''StoreError'' m"

definition store_save ::
  "string \<Rightarrow> agent_state \<Rightarrow> agent_state pydict \<Rightarrow> agent_state pydict result"
where
  "store_save agent_id s st =
     (if agent_id = [] then Inl (StoreError ''agent_id must be non-empty'')
      else Inr (dict_set st agent_id s))"

definition store_load :: "string \<Rightarrow> agent_state pydict \<Rightarrow> agent_state option" where
  "store_load agent_id st = dict_get st agent_id"

definition list_agent_ids :: "agent_state pydict \<Rightarrow> string list" where
  "list_agent_ids st = dict_keys st"

definition supervisor_exn :: "string \<Rightarrow> string \<Rightarrow> pyexn" where
  "supervisor_exn ty m = PyExn ''src.agent.supervisor'' ty m"

definition persist_agent ::
  "agent_state result \<times> 'e agent_world_scheme \<Rightarrow> agent_state result \<times> 'e agent_world_scheme"
where
  "persist_agent = (\<lambda>(r, w).
     (case r of
        Inl x \<Rightarrow> (Inl x, w)
      | Inr s \<Rightarrow>
          if aw_auto_persist w then
            (case store_save (as_agent_id s) s (aw_store w) of
               Inl x \<Rightarrow> (Inl x, w)
             | Inr st \<Rightarrow> (Inr s, w\<lparr>aw_store := st\<rparr>))
          else (Inr s, w)))"

definition require_not_terminal :: "agent_state \<Rightarrow> unit result" where
  "require_not_terminal s =
     (if is_terminal (as_lifecycle_state s) then
        Inl (supervisor_exn ''AgentInTerminalStateError''
          (''agent '' @ quoted (as_agent_id s) @ '' is in terminal state '' @
           lifecycle_value (as_lifecycle_state s) @ ''; no further transitions allowed''))
      else Inr ())"

definition create_agent ::
  "string \<Rightarrow> 'e agent_world_scheme \<Rightarrow> agent_state result \<times> 'e agent_world_scheme"
where
  "create_agent agent_id w =
     (if agent_id = [] then
        (Inl (supervisor_exn ''SupervisorError'' ''agent_id must be non-empty''), w)
      else (case get_agent (aw_registry w) agent_id of
          Inl _ \<Rightarrow>
            (Inl (supervisor_exn ''SupervisorError''
               (''cannot create runtime state for unknown agent '' @ quoted agent_id)), w)
        | Inr m \<Rightarrow>
            (let (now, w) = utc_now w;
                 (cid, w) = new_uuid w;
                 (tid, w) = new_uuid w
             in persist_agent
               (case new_lifecycle_event now None LCREATED
                   (''Agent runtime state created for '' @ quoted agent_id) [] of
                  Inl x \<Rightarrow> Inl x
                | Inr ev \<Rightarrow> check_agent_state
                    \<lparr>as_agent_id = agent_id, as_lifecycle_state = LCREATED,
                     as_activation_snapshot = None, as_route_result = None,
                     as_dispatch_result = None, as_final_response = None, as_errors = [],
                     as_timestamps = [(''created_at'', now)], as_correlation_id = cid,
                     as_trace_id = tid, as_version = 1,
                     as_supervisor_metadata =
                       [(''timeout_ms'', JInt (ac_timeout_ms (am_constraints m))),
                        (''total_routes'', JInt 0)],
                     as_decomposition_result = None, as_conversation_history = [],
                     as_lifecycle_history = [ev]\<rparr>, w))))"

text \<open>\<open>x or y\<close> for an optional string.\<close>

definition or_str :: "string option \<Rightarrow> string \<Rightarrow> string" where
  "or_str x y = (case x of Some (c # cs) \<Rightarrow> c # cs | _ \<Rightarrow> y)"

definition activate_agent ::
  "agent_message \<Rightarrow> string \<Rightarrow> string option \<Rightarrow> string option \<Rightarrow> json pydict list \<Rightarrow> json pydict
   \<Rightarrow> json pydict \<Rightarrow> agent_state \<Rightarrow> 'e agent_world_scheme \<Rightarrow> agent_state result \<times> 'e agent_world_scheme"
where
  "activate_agent message channel correlation_id trace_id history hints ch_meta s w =
     (case require_not_terminal s of
        Inl x \<Rightarrow> (Inl x, w)
      | Inr _ \<Rightarrow>
          (case s52_activate_agent (as_agent_id s) message (aw_registry w) channel
              (Some (or_str correlation_id (as_correlation_id s)))
              (Some (or_str trace_id (as_trace_id s))) history hints ch_meta w of
             (Inl exc, w) \<Rightarrow>
               (Inl (supervisor_exn ''SupervisorError''
                  (''S5.2 activation failed for agent '' @ quoted (as_agent_id s) @ '': '' @
                   exn_message exc)), w)
           | (Inr ctx, w) \<Rightarrow>
               persist_agent (with_changes
                 (\<lambda>s. s\<lparr>as_lifecycle_state := LACTIVATED, as_activation_snapshot := Some ctx,
                    as_correlation_id := or_str correlation_id (as_correlation_id s),
                    as_trace_id := or_str trace_id (as_trace_id s)\<rparr>)
                 (''Agent activated via '' @ channel @ '' channel'') [(''channel'', JStr channel)] s w)))"

definition suspend_agent ::
  "string \<Rightarrow> json pydict option \<Rightarrow> agent_state \<Rightarrow> 'e agent_world_scheme
   \<Rightarrow> agent_state result \<times> 'e agent_world_scheme"
where
  "suspend_agent reason details s w =
     (case require_not_terminal s of
        Inl x \<Rightarrow> (Inl x, w)
      | Inr _ \<Rightarrow>
          if \<not> is_active (as_lifecycle_state s) then
            (Inl (supervisor_exn ''AgentNotActiveError''
               (''cannot suspend agent '' @ quoted (as_agent_id s) @ '' in state '' @
                lifecycle_value (as_lifecycle_state s) @ ''; expected RUNNING or WAITING'')), w)
          else persist_agent (with_changes (\<lambda>s. s\<lparr>as_lifecycle_state := LSUSPENDED\<rparr>) reason
                 (case details of None \<Rightarrow> [] | Some d \<Rightarrow> d) s w))"

definition compute_duration_ms :: "datetime option \<Rightarrow> 'e env_scheme \<Rightarrow> rat \<times> 'e env_scheme" where
  "compute_duration_ms t e =
     (case t of
        None \<Rightarrow> (0, e)
      | Some start \<Rightarrow> (let (now, e) = utc_now e in (rat_of_int (now - start) / 1000, e)))"

definition resume_agent ::
  "agent_state \<Rightarrow> 'e agent_world_scheme \<Rightarrow> agent_state result \<times> 'e agent_world_scheme"
where
  "resume_agent s w =
     (case require_not_terminal s of
        Inl x \<Rightarrow> (Inl x, w)
      | Inr _ \<Rightarrow>
          if as_lifecycle_state s \<noteq> LSUSPENDED then
            (Inl (supervisor_exn ''AgentNotSuspendedError''
               (''cannot resume agent '' @ quoted (as_agent_id s) @ '' from state '' @
                lifecycle_value (as_lifecycle_state s) @ ''; expected SUSPENDED'')), w)
          else (let (ms, w) = compute_duration_ms (dict_get (as_timestamps s) ''suspended_at'') w
                in persist_agent (with_changes (\<lambda>s. s\<lparr>as_lifecycle_state := LRUNNING\<rparr>)
                     ''Agent resumed from suspension'' [(''suspended_duration_ms'', JNum ms)] s w)))"

definition cancel_agent ::
  "string \<Rightarrow> json pydict option \<Rightarrow> agent_state \<Rightarrow> 'e agent_world_scheme
   \<Rightarrow> agent_state result \<times> 'e agent_world_scheme"
where
  "cancel_agent reason details s w =
     (case require_not_terminal s of
        Inl x \<Rightarrow> (Inl x, w)
      | Inr _ \<Rightarrow>
          (let details = (case details of None \<Rightarrow> [] | Some d \<Rightarrow> d);
               err = [(''type'', JStr ''cancellation''), (''message'', JStr reason),
                      (''details'', JObj details)]
           in persist_agent (with_changes
                (\<lambda>s. s\<lparr>as_lifecycle_state := LFAILED, as_errors := as_errors s @ [err]\<rparr>)
                reason details s w)))"

definition complete_agent ::
  "agent_response \<Rightarrow> agent_state \<Rightarrow> 'e agent_world_scheme
   \<Rightarrow> agent_state result \<times> 'e agent_world_scheme"
where
  "complete_agent response s w =
     (case require_not_terminal s of
        Inl x \<Rightarrow> (Inl x, w)
      | Inr _ \<Rightarrow>
          persist_agent (with_changes
            (\<lambda>s. s\<lparr>as_lifecycle_state := LCOMPLETED, as_final_response := Some response\<rparr>)
            ''Agent completed with final response''
            [(''has_reply'', JBool (ar_reply response \<noteq> None))] s w))"

text \<open>The start of \<open>run_agent_step\<close>: its guards and the move to RUNNING, which is not persisted.\<close>

definition begin_agent_step ::
  "agent_state \<Rightarrow> 'e agent_world_scheme \<Rightarrow> agent_state result \<times> 'e agent_world_scheme"
where
  "begin_agent_step s w =
     (if is_terminal (as_lifecycle_state s) then
        (Inl (supervisor_exn ''AgentInTerminalStateError''
           (''cannot run step on terminal agent '' @ quoted (as_agent_id s) @ '' (state='' @
            lifecycle_value (as_lifecycle_state s) @ '')'')), w)
      else if as_lifecycle_state s \<notin> {LACTIVATED, LRUNNING, LWAITING} then
        (Inl (supervisor_exn ''AgentNotActiveError''
           (''cannot run step on agent '' @ quoted (as_agent_id s) @ '' in state '' @
            lifecycle_value (as_lifecycle_state s) @ ''; expected ACTIVATED, RUNNING, or WAITING'')), w)
      else with_changes (\<lambda>s. s\<lparr>as_lifecycle_state := LRUNNING\<rparr>) ''Agent step started'' [] s w)"

definition get_agent_state :: "string \<Rightarrow> 'e agent_world_scheme \<Rightarrow> agent_state result" where
  "get_agent_state agent_id w =
     (case store_load agent_id (aw_store w) of
        None \<Rightarrow> Inl (supervisor_exn ''SupervisorError''
           (''No agent found with id '' @ quoted agent_id))
      | Some s \<Rightarrow> Inr s)"

definition set_tool_result ::
  "string \<Rightarrow> json \<Rightarrow> 'e agent_world_scheme \<Rightarrow> agent_state result \<times> 'e agent_world_scheme"
where
  "set_tool_result agent_id v w =
     (case get_agent_state agent_id w of
        Inl x \<Rightarrow> (Inl x, w)
      | Inr s \<Rightarrow>
          persist_agent (with_changes
            (\<lambda>s. s\<lparr>as_supervisor_metadata :=
                dict_set (as_supervisor_metadata s) ''workflow_last_result'' v\<rparr>)
            ''state transition'' [] s w))"

subsection \<open>Histories\<close>

text \<open>The transitions that some operation can record.\<close>

definition lifecycle_edge :: "lifecycle_state \<Rightarrow> lifecycle_state \<Rightarrow> bool" where
  "lifecycle_edge a b \<longleftrightarrow> \<not> is_terminal a \<and> a \<noteq> b \<and>
     (b \<in> {LACTIVATED, LCOMPLETED, LFAILED} \<or>
      (a, b) \<in> {(LACTIVATED, LRUNNING), (LWAITING, LRUNNING), (LSUSPENDED, LRUNNING),
                (LRUNNING, LWAITING), (LRUNNING, LSUSPENDED), (LWAITING, LSUSPENDED)})"

definition event_follows :: "lifecycle_event \<Rightarrow> lifecycle_event \<Rightarrow> bool" where
  "event_follows a b \<longleftrightarrow>
     le_from_state b = Some (le_to_state a) \<and> lifecycle_edge (le_to_state a) (le_to_state b)"

definition history_ok :: "agent_state \<Rightarrow> bool" where
  "history_ok s \<longleftrightarrow> as_lifecycle_history s \<noteq> [] \<and>
     le_from_state (hd (as_lifecycle_history s)) = None \<and>
     le_to_state (hd (as_lifecycle_history s)) = LCREATED \<and>
     successively event_follows (as_lifecycle_history s) \<and>
     le_to_state (last (as_lifecycle_history s)) = as_lifecycle_state s \<and>
     int (length (as_lifecycle_history s)) \<le> as_version s"

text \<open>An update that leaves the history alone.\<close>

definition keeps_history :: "(agent_state \<Rightarrow> agent_state) \<Rightarrow> bool" where
  "keeps_history f \<longleftrightarrow> (\<forall>s. as_lifecycle_history (f s) = as_lifecycle_history s)"

lemma check_agent_state_Inr: "check_agent_state s = Inr s' \<Longrightarrow> s' = s"
  by (simp add: check_agent_state_def split: if_splits)

lemma with_changes_Inr:
  assumes "fst (with_changes f reason details s e) = Inr s'" "keeps_history f"
  shows "as_version s' = as_version s + 1 \<and> as_lifecycle_state s' = as_lifecycle_state (f s) \<and>
    as_lifecycle_history s' =
      (if as_lifecycle_state (f s) = as_lifecycle_state s then as_lifecycle_history s
       else as_lifecycle_history s @
         [\<lparr>le_timestamp = fst (utc_now e), le_from_state = Some (as_lifecycle_state s),
           le_to_state = as_lifecycle_state (f s), le_reason = reason, le_details = details\<rparr>])"
  using assms
  by (auto simp: with_changes_def new_lifecycle_event_def keeps_history_def Let_def
      split: if_splits prod.splits dest!: check_agent_state_Inr)

lemma with_changes_history:
  assumes run: "fst (with_changes f reason details s e) = Inr s'" and f: "keeps_history f"
    and ok: "history_ok s"
    and edge: "as_lifecycle_state (f s) \<noteq> as_lifecycle_state s \<Longrightarrow>
      lifecycle_edge (as_lifecycle_state s) (as_lifecycle_state (f s))"
  shows "history_ok s'"
proof (cases "as_lifecycle_state (f s) = as_lifecycle_state s")
  case True
  with with_changes_Inr [OF run f] ok show ?thesis by (simp add: history_ok_def)
next
  case False
  with with_changes_Inr [OF run f] ok edge show ?thesis
    by (simp add: history_ok_def successively_append_single event_follows_def)
qed

lemma persist_agent_fst:
  "as_agent_id s \<noteq> [] \<Longrightarrow> fst (persist_agent (Inr s, w)) = Inr s"
  "fst (persist_agent (Inl x, w)) = Inl x"
  by (simp_all add: persist_agent_def store_save_def)

lemma persist_agent_Inr: "fst (persist_agent rw) = Inr s \<Longrightarrow> fst rw = Inr s"
  by (cases rw) (auto simp: persist_agent_def split: sum.splits if_splits)

text \<open>The states the lifecycle operations can return, each applied to any state returned before;
  \<open>reach_end\<close> is the end of an agent step, which leaves RUNNING for the state it sets, and
  \<open>reach_note\<close> an update that sets no lifecycle state.\<close>

inductive agent_reach :: "agent_state \<Rightarrow> bool" where
  reach_create: "fst (create_agent i (w :: agent_world)) = Inr s \<Longrightarrow> agent_reach s"
| reach_activate: "agent_reach s \<Longrightarrow> fst (activate_agent m c ci ti h hi cm s (w :: agent_world)) = Inr s' \<Longrightarrow>
    agent_reach s'"
| reach_begin: "agent_reach s \<Longrightarrow> fst (begin_agent_step s (w :: agent_world)) = Inr s' \<Longrightarrow> agent_reach s'"
| reach_suspend: "agent_reach s \<Longrightarrow> fst (suspend_agent r d s (w :: agent_world)) = Inr s' \<Longrightarrow>
    agent_reach s'"
| reach_resume: "agent_reach s \<Longrightarrow> fst (resume_agent s (w :: agent_world)) = Inr s' \<Longrightarrow> agent_reach s'"
| reach_cancel_agent: "agent_reach s \<Longrightarrow> fst (cancel_agent r d s (w :: agent_world)) = Inr s' \<Longrightarrow>
    agent_reach s'"
| reach_complete: "agent_reach s \<Longrightarrow> fst (complete_agent resp s (w :: agent_world)) = Inr s' \<Longrightarrow>
    agent_reach s'"
| reach_end: "agent_reach s \<Longrightarrow> as_lifecycle_state s = LRUNNING \<Longrightarrow> keeps_history f \<Longrightarrow>
    as_lifecycle_state (f s) \<in> {LRUNNING, LWAITING, LCOMPLETED, LFAILED} \<Longrightarrow>
    fst (with_changes f r ds s (w :: agent_world)) = Inr s' \<Longrightarrow> agent_reach s'"
| reach_note: "agent_reach s \<Longrightarrow> keeps_history f \<Longrightarrow> as_lifecycle_state (f s) = as_lifecycle_state s \<Longrightarrow>
    fst (with_changes f r ds s (w :: agent_world)) = Inr s' \<Longrightarrow> agent_reach s'"

lemma keeps_history_simps [simp]:
  "keeps_history (\<lambda>s. s\<lparr>as_lifecycle_state := l\<rparr>)"
  "keeps_history (\<lambda>s. s\<lparr>as_lifecycle_state := l, as_errors := f s\<rparr>)"
  "keeps_history (\<lambda>s. s\<lparr>as_lifecycle_state := l, as_final_response := r\<rparr>)"
  "keeps_history (\<lambda>s. s\<lparr>as_lifecycle_state := l, as_activation_snapshot := a,
     as_correlation_id := g s, as_trace_id := h s\<rparr>)"
  by (simp_all add: keeps_history_def)

lemma create_agent_ok: "fst (create_agent i w) = Inr s \<Longrightarrow> history_ok s"
  by (auto simp: create_agent_def Let_def new_lifecycle_event_def history_ok_def
      split: if_splits sum.splits prod.splits dest!: persist_agent_Inr check_agent_state_Inr)

text \<open>C20: whatever the order of the lifecycle operations, an agent's history starts with its
  creation, each event starts where the one before ended and follows an edge of the lifecycle, no
  event leaves a terminal state, the last event is the state the agent is in, and the version
  counts at least the events.\<close>

theorem agent_history_sound:
  assumes "agent_reach s"
  shows "history_ok s"
  using assms
proof (induction rule: agent_reach.induct)
  case (reach_create i w s)
  then show ?case by (rule create_agent_ok)
next
  case (reach_activate s m c ci ti h hi cm w s')
  then show ?case
    by (auto simp: activate_agent_def require_not_terminal_def lifecycle_edge_def
        split: if_splits sum.splits prod.splits dest!: persist_agent_Inr elim!: with_changes_history)
next
  case (reach_begin s w s')
  then show ?case
    by (auto simp: begin_agent_step_def lifecycle_edge_def is_terminal_def
        split: if_splits elim!: with_changes_history)
next
  case (reach_suspend s r d w s')
  then show ?case
    by (auto simp: suspend_agent_def require_not_terminal_def lifecycle_edge_def is_active_def
        split: if_splits dest!: persist_agent_Inr elim!: with_changes_history)
next
  case (reach_resume s w s')
  then show ?case
    by (auto simp: resume_agent_def require_not_terminal_def lifecycle_edge_def
        split: if_splits prod.splits dest!: persist_agent_Inr elim!: with_changes_history)
next
  case (reach_cancel_agent s r d w s')
  then show ?case
    by (auto simp: cancel_agent_def require_not_terminal_def lifecycle_edge_def Let_def
        split: if_splits dest!: persist_agent_Inr elim!: with_changes_history)
next
  case (reach_complete s resp w s')
  then show ?case
    by (auto simp: complete_agent_def require_not_terminal_def lifecycle_edge_def
        split: if_splits dest!: persist_agent_Inr elim!: with_changes_history)
next
  case (reach_end s f r ds w s')
  from reach_end.hyps(5,3) reach_end.IH show ?case
    by (rule with_changes_history)
      (use reach_end.hyps(2,4) in \<open>auto simp: lifecycle_edge_def is_terminal_def\<close>)
next
  case (reach_note s f r ds w s')
  from reach_note.hyps(4,2) reach_note.IH show ?case
    by (rule with_changes_history) (use reach_note.hyps(3) in simp)
qed

definition demo_world :: agent_world where
  "demo_world =
     \<lparr>e_uuid = (\<lambda>n. ''u'' @ nat_digits n), e_uuid_n = 0, e_clock = int, e_tick = 0,
      e_float_fmt = (\<lambda>_ _. ''1.0''), e_isoformat = int_str, e_py_str = (\<lambda>_. ''...''),
      e_strftime = (\<lambda>fmt _. fmt), aw_store = [], aw_auto_persist = True,
      aw_registry = register_all [demo_metadata ''a'' []]\<rparr>"

definition demo_agent :: agent_state where
  "demo_agent =
     \<lparr>as_agent_id = ''a'', as_lifecycle_state = LCREATED, as_activation_snapshot = None,
      as_route_result = None, as_dispatch_result = None, as_final_response = None, as_errors = [],
      as_timestamps = [(''created_at'', 0)], as_correlation_id = ''u'' @ nat_digits 0,
      as_trace_id = ''u'' @ nat_digits 1, as_version = 1,
      as_supervisor_metadata = [(''timeout_ms'', JInt 5), (''total_routes'', JInt 0)],
      as_decomposition_result = None, as_conversation_history = [],
      as_lifecycle_history =
        [\<lparr>le_timestamp = 0, le_from_state = None, le_to_state = LCREATED,
          le_reason = ''Agent runtime state created for '' @ quoted ''a'', le_details = []\<rparr>]\<rparr>"

lemma demo_agent_created: "fst (create_agent ''a'' demo_world) = Inr demo_agent"
  by (simp add: create_agent_def utc_now_def new_uuid_def new_lifecycle_event_def persist_agent_def
      store_save_def check_agent_state_def demo_world_def demo_agent_def register_all_def
      register_agent_def get_agent_def demo_metadata_def)

theorem agent_history_sound_witness: "history_ok demo_agent"
  by (rule agent_history_sound [OF reach_create [OF demo_agent_created]])

subsection \<open>Stale snapshots\<close>

lemma persisted_update:
  assumes s: "check_agent_state s = Inr s"
    and f: "as_agent_id (f s) = as_agent_id s"
      "as_conversation_history (f s) = as_conversation_history s"
    and r: "r \<noteq> []" and w: "aw_auto_persist w"
  shows "\<exists>s' w'. persist_agent (with_changes f r ds s w) = (Inr s', w') \<and>
    store_load (as_agent_id s) (aw_store w') = Some s' \<and> aw_auto_persist w' \<and>
    as_lifecycle_state s' = as_lifecycle_state (f s) \<and> as_version s' = as_version s + 1 \<and>
    as_errors s' = as_errors (f s)"
proof -
  from s have "as_agent_id s \<noteq> []" "as_version s \<ge> 1"
    "\<not> list_ex (\<lambda>entry. dict_get entry ''role'' = None \<or> dict_get entry ''content'' = None)
       (as_conversation_history s)"
    by (auto simp: check_agent_state_def split: if_splits)
  with f r w show ?thesis
    by (simp add: with_changes_def utc_now_def new_lifecycle_event_def check_agent_state_def
        persist_agent_def store_save_def store_load_def Let_def)
qed

text \<open>an operation on a stale snapshot undoes a terminal state.  The guard looks at the state
  it is given, not at the stored one, and no version is compared: after a cancellation has been
  stored, completing the snapshot from before it succeeds, overwrites the FAILED agent with a
  COMPLETED one of the same version, and the cancellation error is gone.\<close>

lemma stale_complete_overwrites_cancel:
  assumes s: "\<not> is_terminal (as_lifecycle_state s)" "check_agent_state s = Inr s"
    and w: "aw_auto_persist w" and reason: "reason \<noteq> []"
  shows "\<exists>s1 w1 s2 w2. cancel_agent reason details s w = (Inr s1, w1) \<and>
    store_load (as_agent_id s) (aw_store w1) = Some s1 \<and> as_lifecycle_state s1 = LFAILED \<and>
    length (as_errors s1) = Suc (length (as_errors s)) \<and>
    complete_agent resp s w1 = (Inr s2, w2) \<and>
    store_load (as_agent_id s) (aw_store w2) = Some s2 \<and> as_lifecycle_state s2 = LCOMPLETED \<and>
    as_version s2 = as_version s1 \<and> as_errors s2 = as_errors s"
proof -
  let ?ds = "case details of None \<Rightarrow> [] | Some d \<Rightarrow> d"
  let ?err = "[(''type'', JStr ''cancellation''), (''message'', JStr reason), (''details'', JObj ?ds)]"
  let ?fail = "\<lambda>s. s\<lparr>as_lifecycle_state := LFAILED, as_errors := as_errors s @ [?err]\<rparr>"
  let ?finish = "\<lambda>s. s\<lparr>as_lifecycle_state := LCOMPLETED, as_final_response := Some resp\<rparr>"
  have c: "cancel_agent reason details s w = persist_agent (with_changes ?fail reason ?ds s w)"
    using s(1) by (simp add: cancel_agent_def require_not_terminal_def Let_def)
  from persisted_update [OF s(2) _ _ reason w, of ?fail ?ds]
  obtain s1 w1 where 1: "cancel_agent reason details s w = (Inr s1, w1)"
      "store_load (as_agent_id s) (aw_store w1) = Some s1" "aw_auto_persist w1"
      "as_lifecycle_state s1 = LFAILED" "as_version s1 = as_version s + 1"
      "length (as_errors s1) = Suc (length (as_errors s))"
    unfolding c by auto
  have f: "complete_agent resp s w1 = persist_agent (with_changes ?finish
      ''Agent completed with final response'' [(''has_reply'', JBool (ar_reply resp \<noteq> None))] s w1)"
    using s(1) by (simp add: complete_agent_def require_not_terminal_def)
  from persisted_update [OF s(2) _ _ _ 1(3), of ?finish "''Agent completed with final response''"
      "[(''has_reply'', JBool (ar_reply resp \<noteq> None))]"]
  obtain s2 w2 where "complete_agent resp s w1 = (Inr s2, w2)"
      "store_load (as_agent_id s) (aw_store w2) = Some s2" "as_lifecycle_state s2 = LCOMPLETED"
      "as_version s2 = as_version s + 1" "as_errors s2 = as_errors s"
    unfolding f by auto
  with 1 show ?thesis by auto
qed

lemma stale_complete_overwrites_cancel_example:
  "\<exists>s1 w1 s2 w2. cancel_agent ''stop'' None demo_agent demo_world = (Inr s1, w1) \<and>
    store_load ''a'' (aw_store w1) = Some s1 \<and> as_lifecycle_state s1 = LFAILED \<and>
    complete_agent \<lparr>ar_reply = None, ar_metadata = [], ar_contract_version = ''1.0''\<rparr> demo_agent w1
      = (Inr s2, w2) \<and>
    store_load ''a'' (aw_store w2) = Some s2 \<and> as_lifecycle_state s2 = LCOMPLETED"
proof -
  have "\<not> is_terminal (as_lifecycle_state demo_agent)" "check_agent_state demo_agent = Inr demo_agent"
    "aw_auto_persist demo_world" "''stop'' \<noteq> []" and i: "as_agent_id demo_agent = ''a''"
    by (simp_all add: is_terminal_def check_agent_state_def demo_agent_def demo_world_def)
  from stale_complete_overwrites_cancel [OF this(1-4), of None
      "\<lparr>ar_reply = None, ar_metadata = [], ar_contract_version = ''1.0''\<rparr>"]
  show ?thesis unfolding i by blast
qed

end
