(* ===== verification/WorkflowInvoker.thy ===== *)
theory WorkflowInvoker
  imports WorkflowOps AgentLifecycle
begin

text \<open>
  The step-processing loop of \<^verbatim>\<open>agent/workflow_invoker.py\<close> and the dispatch of
  \<^verbatim>\<open>agent/job_interface.py\<close>.  What the invoker is constructed with (the strategy router, the inline
  tool executor, the job submitter, the council orchestrator, the interaction manager, the agent
  selector with the agent registry, the tool adapters) are functions on the world in the record
  \<open>services\<close>; an optional one is \<open>None\<close>.  Configurations are values, so the update of a nested
  \<open>agent_metadata\<close> that came with the configuration does not reach the registered definition.
\<close>

subsection \<open>Services\<close>

record invoker_world = wf_env +
  iw_store :: wf_store

text \<open>The result of \<open>StrategyRouter.route\<close>: \<open>error\<close> and \<open>output\<close>.\<close>

record route_answer =
  ra_error :: "string option"
  ra_output :: json

record router_outcome =
  rt_type :: string
  rt_payload :: "json pydict"
  rt_step_id :: string

record prompt_template =
  pt_system_prompt :: string
  pt_user_prompt :: string

record agent_card =
  ac_name :: string
  ac_description :: string
  ac_persona :: string

record interaction_ask =
  ia_instance_id :: string
  ia_step_id :: string
  ia_prompt :: json
  ia_schema :: json
  ia_timeout_seconds :: json

record 'w services =
  sv_route :: "router_outcome \<Rightarrow> 'w \<Rightarrow> route_answer result \<times> 'w"
  sv_inline_tool :: "(json pydict \<Rightarrow> 'w \<Rightarrow> json option result \<times> 'w) option"
  sv_submit_job :: "(json pydict \<Rightarrow> 'w \<Rightarrow> string result \<times> 'w) option"
  sv_deliberate :: "(json \<Rightarrow> json \<Rightarrow> agent_state \<Rightarrow> 'w \<Rightarrow> json pydict result \<times> 'w) option"
  sv_request_input :: "(interaction_ask \<Rightarrow> 'w \<Rightarrow> string result \<times> 'w) option"
  sv_select_agent :: "(json pydict \<Rightarrow> 'w \<Rightarrow> string result \<times> 'w) option"
  sv_get_agent :: "string \<Rightarrow> agent_card option"
  sv_workflow_tools :: "json list option"
  sv_primitive_tools :: "json list option"
  sv_prompts :: "prompt_template pydict option"

subsection \<open>Templates\<close>

definition name_char :: "char \<Rightarrow> bool" where
  "name_char c \<longleftrightarrow>
     (let n = of_char c :: nat
      in (97 \<le> n \<and> n \<le> 122) \<or> (65 \<le> n \<and> n \<le> 90) \<or> n = 95 \<or> (48 \<le> n \<and> n \<le> 57))"

text \<open>The name of a placeholder \<open>{namespace.name}\<close> at the start of a text, and the rest.\<close>

definition placeholder :: "string \<Rightarrow> string \<Rightarrow> (string \<times> string) option" where
  "placeholder opening s =
     (if take (length opening) s = opening then
        (let r = drop (length opening) s;
             name = takeWhile name_char r;
             rest = dropWhile name_char r
         in case rest of
              c # rest \<Rightarrow> if name \<noteq> [] \<and> c = CHR ''}'' then Some (name, rest) else None
            | [] \<Rightarrow> None)
      else None)"

lemma placeholder_shorter:
  assumes "placeholder opening s = Some (name, rest)"
  shows "length rest < length s"
proof -
  have "length (dropWhile name_char (drop (length opening) s)) \<le> length s"
    using length_dropWhile_le [of name_char "drop (length opening) s"] by simp
  with assms show ?thesis
    by (auto simp: placeholder_def Let_def split: if_splits list.splits)
qed

definition lookup_text :: "'a env_scheme \<Rightarrow> json pydict \<Rightarrow> string \<Rightarrow> string" where
  "lookup_text e d name = (case dict_get d name of None \<Rightarrow> [] | Some v \<Rightarrow> py_str e v)"

function render_text :: "'a env_scheme \<Rightarrow> json pydict \<Rightarrow> json pydict \<Rightarrow> string \<Rightarrow> string" where
  "render_text e context step_results s =
     (case s of
        [] \<Rightarrow> []
      | c # cs \<Rightarrow>
          (case placeholder ''{context.'' s of
             Some (name, rest) \<Rightarrow>
               lookup_text e context name @ render_text e context step_results rest
           | None \<Rightarrow>
               (case placeholder ''{result.'' s of
                  Some (name, rest) \<Rightarrow>
                    lookup_text e step_results name @ render_text e context step_results rest
                | None \<Rightarrow> c # render_text e context step_results cs)))"
  by pat_completeness auto
termination
  by (relation "measure (\<lambda>(e, context, step_results, s). length s)")
    (auto dest: placeholder_shorter)

declare render_text.simps [simp del]

definition render_context_templates ::
  "'a env_scheme \<Rightarrow> json pydict \<Rightarrow> json pydict \<Rightarrow> json pydict \<Rightarrow> json pydict"
where
  "render_context_templates e config context step_results =
     map (\<lambda>(k, v). (k, case v of JStr s \<Rightarrow> JStr (render_text e context step_results s) | _ \<Rightarrow> v)) config"

text \<open>\<open>str.replace\<close> with a pattern that is not empty.\<close>

function py_replace :: "string \<Rightarrow> string \<Rightarrow> string \<Rightarrow> string" where
  "py_replace old new s =
     (if s = [] then []
      else if old \<noteq> [] \<and> take (length old) s = old
        then new @ py_replace old new (drop (length old) s)
      else hd s # py_replace old new (tl s))"
  by pat_completeness auto
termination
  by (relation "measure (\<lambda>(old, new, s). length s)") auto

declare py_replace.simps [simp del]

definition fill_prompt :: "(string \<times> string) list \<Rightarrow> string \<Rightarrow> string" where
  "fill_prompt values t = fold (\<lambda>(k, v) t. py_replace (''{'' @ k @ ''}'') v t) values t"

text \<open>The merge of the context and the step results that prompts are filled from.\<close>

definition prompt_context :: "'a env_scheme \<Rightarrow> json pydict \<Rightarrow> json pydict \<Rightarrow> string pydict" where
  "prompt_context e context step_results =
     dict_set
       (fold (\<lambda>(k, v) d. dict_set d k (py_str e v)) step_results
         (fold (\<lambda>(k, v) d. dict_set d k (py_str e v)) context []))
       ''project_id'' (py_str e (dict_get_or context ''project_id'' (JStr [])))"

text \<open>The prompt template that a configuration names, resolved into it.\<close>

definition resolve_prompt ::
  "'a env_scheme \<Rightarrow> prompt_template pydict option \<Rightarrow> json pydict \<Rightarrow> json pydict \<Rightarrow> json pydict
   \<Rightarrow> json pydict result"
where
  "resolve_prompt e prompts context step_results rendered =
     (let prompt_id = dict_get_or rendered ''prompt_template'' JNull;
          rendered = dict_del rendered ''prompt_template''
      in if prompt_id = JNull then Inr rendered
         else (case prompts of
             None \<Rightarrow> Inr rendered
           | Some reg \<Rightarrow>
               (case get_by_value reg prompt_id of
                  Inl x \<Rightarrow> Inl x
                | Inr None \<Rightarrow> Inr rendered
                | Inr (Some t) \<Rightarrow>
                    (let values = prompt_context e context step_results
                     in Inr (dict_set
                          (dict_set rendered ''system_prompt'' (JStr (fill_prompt values (pt_system_prompt t))))
                          ''user_prompt'' (JStr (fill_prompt values (pt_user_prompt t))))))))"

subsection \<open>The request to the language model\<close>

definition add_agent :: "string \<Rightarrow> agent_card \<Rightarrow> json pydict \<Rightarrow> json pydict" where
  "add_agent agent_id c rendered =
     setdefault (setdefault rendered ''agent_id'' (JStr agent_id)) ''agent_metadata''
       (JObj [(''name'', JStr (ac_name c)), (''description'', JStr (ac_description c)),
              (''persona'', JStr (ac_persona c))])"

definition merge_patterns :: "json pydict \<Rightarrow> json pydict result" where
  "merge_patterns rendered =
     (let pattern_instructions = dict_get_or rendered ''pattern_instructions'' JNull;
          rendered = dict_del rendered ''pattern_instructions''
      in case (if json_truthy pattern_instructions then dict_get rendered ''agent_metadata'' else None) of
           None \<Rightarrow> Inr rendered
         | Some (JObj metadata) \<Rightarrow>
             (case (pattern_instructions, dict_get_or metadata ''patterns'' (JList [])) of
                (JList new, JList old) \<Rightarrow>
                  Inr (dict_set rendered ''agent_metadata''
                    (JObj (dict_set metadata ''patterns'' (JList (new @ old)))))
              | _ \<Rightarrow> Inl (TypeError ''unsupported operand type(s) for +''))
         | Some v \<Rightarrow> Inl (PyExn ''builtins'' ''AttributeError''
             (quoted (json_type_name v) @ '' object has no attribute '' @ quoted ''get'')))"

definition tool_context :: "'w services \<Rightarrow> json list" where
  "tool_context sv =
     (case sv_workflow_tools sv of None \<Rightarrow> [] | Some ts \<Rightarrow> ts) @
     (case sv_primitive_tools sv of None \<Rightarrow> [] | Some ts \<Rightarrow> ts)"

definition llm_request ::
  "('a invoker_world_scheme) services \<Rightarrow> workflow_execution_state \<Rightarrow> step_outcome
   \<Rightarrow> 'a invoker_world_scheme \<Rightarrow> router_outcome result \<times> 'a invoker_world_scheme"
where
  "llm_request sv s out w =
     (case resolve_prompt w (sv_prompts sv) (wx_context s) (wx_step_results s)
         (render_context_templates w (so_config out) (wx_context s) (wx_step_results s)) of
        Inl x \<Rightarrow> (Inl x, w)
      | Inr rendered \<Rightarrow>
          (let (selected, w) =
             (case sv_select_agent sv of
                None \<Rightarrow> (Inr rendered, w)
              | Some select \<Rightarrow>
                  (case select (so_config out) w of
                     (Inl x, w) \<Rightarrow> (Inl x, w)
                   | (Inr agent_id, w) \<Rightarrow>
                       (Inr (case sv_get_agent sv agent_id of
                          None \<Rightarrow> rendered | Some c \<Rightarrow> add_agent agent_id c rendered), w)))
           in case selected of
                Inl x \<Rightarrow> (Inl x, w)
              | Inr rendered \<Rightarrow>
                  (case merge_patterns rendered of
                     Inl x \<Rightarrow> (Inl x, w)
                   | Inr rendered \<Rightarrow>
                       (Inr \<lparr>rt_type = ''llm_call'',
                          rt_payload = [(''prompt'', JObj rendered),
                            (''backend'', JStr ''conversational''), (''memory'', JObj []),
                            (''plan_context'', JObj []),
                            (''tool_context'', JList (tool_context sv))],
                          rt_step_id = so_step_id out\<rparr>, w))))"

subsection \<open>The loop\<close>

definition WF_MAX_ITERATIONS :: nat where
  "WF_MAX_ITERATIONS = 50"

text \<open>\<open>dispatch_route\<close> of an \<^verbatim>\<open>s4b\<close> route.\<close>

definition DEST_S4B :: string where
  "DEST_S4B = ''s4b''"

definition dispatch_route ::
  "route \<Rightarrow> (json pydict \<Rightarrow> 'w \<Rightarrow> string result \<times> 'w) option \<Rightarrow> 'w \<Rightarrow> job_dispatch_result \<times> 'w"
where
  "dispatch_route r submit_job w =
     (if ro_destination r = DEST_S4B then
        (case submit_job of
           None \<Rightarrow>
             (\<lparr>jd_dispatched_jobs = [],
               jd_errors = [(''s4b'', ''No submit_job_callable provided'')]\<rparr>, w)
         | Some submit \<Rightarrow>
             (case submit (ro_payload r) w of
                (Inr job_id, w) \<Rightarrow>
                  (\<lparr>jd_dispatched_jobs = [(job_id, ro_destination r)], jd_errors = []\<rparr>, w)
              | (Inl x, w) \<Rightarrow>
                  (\<lparr>jd_dispatched_jobs = [], jd_errors = [(ro_destination r, exn_message x)]\<rparr>, w)))
      else (\<lparr>jd_dispatched_jobs = [], jd_errors = []\<rparr>, w))"

text \<open>What the loop is called with: the agent, the route, the caller's metadata and the callback
  that persists the agent.\<close>

record 'w invocation =
  iv_agent :: agent_state
  iv_route :: route
  iv_meta :: "json pydict"
  iv_persist :: "agent_state \<Rightarrow> 'w \<Rightarrow> agent_state result \<times> 'w"

text \<open>An iteration returns the agent or goes on with an execution and the errors so far.\<close>

datatype flow =
    Return "agent_state result"
  | Next workflow_execution_state "json pydict list"

definition save_instance ::
  "workflow_execution_state \<Rightarrow> 'a invoker_world_scheme \<Rightarrow> 'a invoker_world_scheme"
where
  "save_instance s w = (let (st, w) = wf_save s (iw_store w) w in w\<lparr>iw_store := st\<rparr>)"

text \<open>\<open>return persist(state.with_(...))\<close>.\<close>

definition leave ::
  "('a invoker_world_scheme) invocation \<Rightarrow> (agent_state \<Rightarrow> agent_state) \<Rightarrow> string \<Rightarrow> json pydict
   \<Rightarrow> 'a invoker_world_scheme \<Rightarrow> flow \<times> 'a invoker_world_scheme"
where
  "leave iv changes reason details w =
     (case with_changes changes reason details (iv_agent iv) w of
        (Inl x, w) \<Rightarrow> (Return (Inl x), w)
      | (Inr agent, w) \<Rightarrow> (let (r, w) = iv_persist iv agent w in (Return r, w)))"

definition go_on ::
  "workflow_execution_state \<Rightarrow> json pydict list \<Rightarrow> 'a invoker_world_scheme
   \<Rightarrow> flow \<times> 'a invoker_world_scheme"
where
  "go_on s errs w = (Next s errs, save_instance s w)"

definition clear_meta :: "json pydict \<Rightarrow> json pydict" where
  "clear_meta m = dict_del (dict_del m ''workflow_state'') ''workflow_waiting_for''"

text \<open>\<open>a or b or text\<close> over the final context.\<close>

definition final_message :: "workflow_execution_state \<Rightarrow> json" where
  "final_message s =
     (let r = dict_get_or (wx_context s) ''_workflow_result'' JNull;
          v = dict_get_or (wx_context s) ''result'' JNull
      in if json_truthy r then r else if json_truthy v then v
         else JStr ''Workflow completed successfully.'')"

definition on_completed ::
  "('a invoker_world_scheme) invocation \<Rightarrow> workflow_execution_state
   \<Rightarrow> 'a invoker_world_scheme \<Rightarrow> flow \<times> 'a invoker_world_scheme"
where
  "on_completed iv s w =
     (let a = iv_agent iv
      in leave iv
        (\<lambda>a'. a'\<lparr>as_lifecycle_state := LCOMPLETED, as_route_result := Some (iv_route iv),
           as_final_response := Some
             \<lparr>ar_reply = Some (py_str w (final_message s)),
              ar_metadata =
                [(''correlation_id'', JStr (as_correlation_id a)), (''trace_id'', JStr (as_trace_id a)),
                 (''agent_id'', JStr (as_agent_id a)), (''workflow_id'', JStr (wx_workflow_id s)),
                 (''route_destination'', JStr (ro_destination (iv_route iv)))],
              ar_contract_version = ''1.0''\<rparr>,
           as_supervisor_metadata := clear_meta (iv_meta iv)\<rparr>)
        ''Workflow completed''
        [(''workflow_id'', JStr (wx_workflow_id s)), (''execution_id'', JStr (wx_execution_id s))] w)"

definition opt_text :: "string option \<Rightarrow> string" where
  "opt_text v = (case v of None \<Rightarrow> ''None'' | Some s \<Rightarrow> s)"

definition on_failed ::
  "('a invoker_world_scheme) invocation \<Rightarrow> workflow_execution_state \<Rightarrow> step_outcome
   \<Rightarrow> json pydict list \<Rightarrow> 'a invoker_world_scheme \<Rightarrow> flow \<times> 'a invoker_world_scheme"
where
  "on_failed iv s out errs w =
     leave iv
       (\<lambda>a. a\<lparr>as_lifecycle_state := LFAILED, as_route_result := Some (iv_route iv),
          as_errors := as_errors a @ errs @
            [[(''type'', JStr ''workflow_step_failed''), (''step_id'', JStr (so_step_id out)),
              (''message'', JStr (case so_error out of
                 Some (c # cs) \<Rightarrow> c # cs | _ \<Rightarrow> ''Unknown workflow error''))]],
          as_supervisor_metadata := clear_meta (iv_meta iv)\<rparr>)
       (''Workflow failed: '' @ opt_text (so_error out))
       [(''workflow_id'', JStr (wx_workflow_id s)), (''step_id'', JStr (so_step_id out))] w"

definition on_llm_call ::
  "('a invoker_world_scheme) services \<Rightarrow> workflow_engine \<Rightarrow> workflow_execution_state
   \<Rightarrow> step_outcome \<Rightarrow> json pydict list \<Rightarrow> 'a invoker_world_scheme
   \<Rightarrow> flow \<times> 'a invoker_world_scheme"
where
  "on_llm_call sv en s out errs w =
     (case llm_request sv s out w of
        (Inl x, w) \<Rightarrow> (Return (Inl x), w)
      | (Inr request, w) \<Rightarrow>
          (case sv_route sv request w of
             (Inl x, w) \<Rightarrow> (Return (Inl x), w)
           | (Inr answer, w) \<Rightarrow>
               (case ra_error answer of
                  None \<Rightarrow> go_on (fst (resume_with_result w s (so_step_id out) (ra_output answer))) errs w
                | Some err \<Rightarrow> go_on (fst (fail_step en s (so_step_id out) err)) errs w)))"

text \<open>The tool run inline where there is an executor: its value, or \<open>None\<close> where it raises or
  declines.\<close>

definition run_inline ::
  "('a invoker_world_scheme) services \<Rightarrow> json pydict \<Rightarrow> 'a invoker_world_scheme
   \<Rightarrow> json option \<times> 'a invoker_world_scheme"
where
  "run_inline sv config w =
     (case sv_inline_tool sv of
        None \<Rightarrow> (None, w)
      | Some run \<Rightarrow> (case run config w of (Inl _, w) \<Rightarrow> (None, w) | (Inr v, w) \<Rightarrow> (v, w)))"

definition on_tool_execute ::
  "('a invoker_world_scheme) services \<Rightarrow> workflow_engine \<Rightarrow> ('a invoker_world_scheme) invocation
   \<Rightarrow> workflow_execution_state \<Rightarrow> step_outcome \<Rightarrow> json pydict list \<Rightarrow> 'a invoker_world_scheme
   \<Rightarrow> flow \<times> 'a invoker_world_scheme"
where
  "on_tool_execute sv en iv s out errs w =
     (case run_inline sv (so_config out) w of
        (Some v, w) \<Rightarrow> go_on (fst (resume_with_result w s (so_step_id out) v)) errs w
      | (None, w) \<Rightarrow>
          (case dispatch_route
              \<lparr>ro_destination = DEST_S4B, ro_payload = so_config out,
               ro_agent_id = as_agent_id (iv_agent iv), ro_confidence = 1\<rparr> (sv_submit_job sv) w of
             (d, w) \<Rightarrow>
               (let errs = errs @ map (\<lambda>(_, m). [(''type'', JStr ''workflow_dispatch_error''),
                      (''step_id'', JStr (so_step_id out)), (''message'', JStr m)]) (jd_errors d)
                in if jd_dispatched_jobs d \<noteq> [] then
                     leave iv
                       (\<lambda>a. a\<lparr>as_lifecycle_state := LWAITING, as_route_result := Some (iv_route iv),
                          as_dispatch_result := Some d, as_errors := as_errors a @ errs,
                          as_supervisor_metadata :=
                            dict_set (dict_set (dict_set (dict_set (iv_meta iv)
                              ''workflow_state'' (JObj (freeze_wf_state s)))
                              ''workflow_waiting_for'' (JStr ''tool_result''))
                              ''workflow_last_step_id'' (JStr (so_step_id out)))
                              ''workflow_last_result'' (JObj [])\<rparr>)
                       (''Workflow dispatched '' @ nat_digits (length (jd_dispatched_jobs d)) @ '' jobs'')
                       [(''workflow_id'', JStr (wx_workflow_id s)),
                        (''step_id'', JStr (so_step_id out))] w
                   else
                     go_on (fst (fail_step en s (so_step_id out) ''tool_execute dispatched zero jobs''))
                       errs w)))"

definition on_council ::
  "('a invoker_world_scheme) services \<Rightarrow> workflow_engine \<Rightarrow> ('a invoker_world_scheme) invocation
   \<Rightarrow> workflow_execution_state \<Rightarrow> step_outcome \<Rightarrow> json pydict list \<Rightarrow> 'a invoker_world_scheme
   \<Rightarrow> flow \<times> 'a invoker_world_scheme"
where
  "on_council sv en iv s out errs w =
     (case sv_deliberate sv of
        None \<Rightarrow>
          go_on (fst (fail_step en s (so_step_id out)
            ''council_deliberate step but no council_orchestrator configured'')) errs w
      | Some deliberate \<Rightarrow>
          (let council_id = dict_get_or (so_config out) ''council_id'' (JStr []);
               problem = dict_get_or (so_config out) ''problem'' (JStr [])
           in case (case en_council_registry en of
                      None \<Rightarrow> Inr None
                    | Some reg \<Rightarrow> get_by_value reg council_id) of
                Inl x \<Rightarrow> (Return (Inl x), w)
              | Inr None \<Rightarrow>
                  go_on (fst (fail_step en s (so_step_id out)
                    (''council '' @ py_repr w council_id @ '' not found in registry''))) errs w
              | Inr (Some council) \<Rightarrow>
                  (case deliberate council problem (iv_agent iv) w of
                     (Inr v, w) \<Rightarrow> go_on (fst (resume_with_result w s (so_step_id out) (JObj v))) errs w
                   | (Inl x, w) \<Rightarrow>
                       go_on (fst (fail_step en s (so_step_id out)
                         (''Council deliberation failed: '' @ exn_message x))) errs w)))"

definition on_waiting ::
  "('a invoker_world_scheme) services \<Rightarrow> ('a invoker_world_scheme) invocation
   \<Rightarrow> workflow_execution_state \<Rightarrow> step_outcome \<Rightarrow> json pydict list \<Rightarrow> 'a invoker_world_scheme
   \<Rightarrow> flow \<times> 'a invoker_world_scheme"
where
  "on_waiting sv iv s out errs w =
     (let meta = dict_set (dict_set (dict_set (iv_meta iv)
            ''workflow_state'' (JObj (freeze_wf_state s)))
            ''workflow_waiting_for'' (JStr ''user_input''))
            ''workflow_waiting_step_id'' (JStr (so_step_id out));
          prompt = dict_get_or (so_config out) ''prompt'' (JStr ''Please provide input:'');
          schema = dict_get_or (so_config out) ''input_schema'' (JObj []);
          asked =
            (case sv_request_input sv of
               None \<Rightarrow> (Inr meta, w)
             | Some request \<Rightarrow>
                 (case request \<lparr>ia_instance_id = wx_workflow_id s, ia_step_id = so_step_id out,
                     ia_prompt = prompt, ia_schema = schema,
                     ia_timeout_seconds = dict_get_or (so_config out) ''timeout_seconds'' JNull\<rparr> w of
                    (Inl x, w) \<Rightarrow> (Inl x, w)
                  | (Inr request_id, w) \<Rightarrow>
                      (Inr (dict_set (dict_set (dict_set meta
                         ''workflow_interaction_request_id'' (JStr request_id))
                         ''workflow_interaction_prompt'' prompt)
                         ''workflow_interaction_schema'' schema), w)))
      in case asked of
           (Inl x, w) \<Rightarrow> (Return (Inl x), w)
         | (Inr meta, w) \<Rightarrow>
             leave iv
               (\<lambda>a. a\<lparr>as_lifecycle_state := LWAITING, as_route_result := Some (iv_route iv),
                  as_errors := as_errors a @ errs, as_supervisor_metadata := meta\<rparr>)
               ''Workflow waiting for user input''
               [(''workflow_id'', JStr (wx_workflow_id s)), (''step_id'', JStr (so_step_id out))] w)"

text \<open>A sub-workflow takes the place of the execution; an error that is not a \<open>ValueError\<close>
  escapes.\<close>

definition on_sub_workflow ::
  "workflow_engine \<Rightarrow> workflow_execution_state \<Rightarrow> step_outcome \<Rightarrow> json pydict list
   \<Rightarrow> 'a invoker_world_scheme \<Rightarrow> flow \<times> 'a invoker_world_scheme"
where
  "on_sub_workflow en s out errs w =
     (let sub = (case so_workflow_id out of None \<Rightarrow> JNull | Some v \<Rightarrow> v);
          sub = (if json_truthy sub then sub else JStr [])
      in case get_by_value (en_registry en) sub of
           Inl x \<Rightarrow> (Return (Inl x), w)
         | Inr None \<Rightarrow>
             go_on (fst (fail_step en s (so_step_id out)
               (''sub-workflow '' @ py_repr w sub @ '': workflow '' @ py_repr w sub @
                '' not found in registry''))) errs w
         | Inr (Some _) \<Rightarrow>
             (case start_workflow en (case sub of JStr i \<Rightarrow> i | _ \<Rightarrow> []) (Some (wx_context s)) w of
                (Inr s', w) \<Rightarrow> go_on s' errs w
              | (Inl x, w) \<Rightarrow>
                  go_on (fst (fail_step en s (so_step_id out)
                    (''sub-workflow '' @ py_repr w sub @ '': '' @ exn_message x))) errs w))"

definition on_unknown ::
  "('a invoker_world_scheme) invocation \<Rightarrow> json pydict list \<Rightarrow> 'a invoker_world_scheme
   \<Rightarrow> flow \<times> 'a invoker_world_scheme"
where
  "on_unknown iv errs w =
     leave iv
       (\<lambda>a. a\<lparr>as_lifecycle_state := LFAILED, as_route_result := Some (iv_route iv),
          as_errors := as_errors a @ errs @
            [[(''type'', JStr ''workflow_unknown_outcome''),
              (''message'', JStr (''Unknown outcome type '' @ quoted ''timeout''))]],
          as_supervisor_metadata := clear_meta (iv_meta iv)\<rparr>)
       (''Unknown outcome type '' @ quoted ''timeout'') [] w"

definition loop_iteration ::
  "('a invoker_world_scheme) services \<Rightarrow> workflow_engine \<Rightarrow> ('a invoker_world_scheme) invocation
   \<Rightarrow> workflow_execution_state \<Rightarrow> json pydict list \<Rightarrow> 'a invoker_world_scheme
   \<Rightarrow> flow \<times> 'a invoker_world_scheme"
where
  "loop_iteration sv en iv s errs w =
     (case wf_step w en s of
        Inl x \<Rightarrow> (Return (Inl x), w)
      | Inr (s, out) \<Rightarrow>
          (let w = save_instance s w
           in case so_type out of
                OUT_CONTINUE \<Rightarrow> (Next s errs, w)
              | OUT_COMPLETED \<Rightarrow> on_completed iv s w
              | OUT_FAILED \<Rightarrow> on_failed iv s out errs w
              | OUT_LLM_CALL \<Rightarrow> on_llm_call sv en s out errs w
              | OUT_TOOL_EXECUTE \<Rightarrow> on_tool_execute sv en iv s out errs w
              | OUT_COUNCIL_DELIBERATE \<Rightarrow> on_council sv en iv s out errs w
              | OUT_WAITING_FOR_INPUT \<Rightarrow> on_waiting sv iv s out errs w
              | OUT_SUB_WORKFLOW \<Rightarrow> on_sub_workflow en s out errs w
              | OUT_TIMEOUT \<Rightarrow> on_unknown iv errs w))"

definition iteration_limit ::
  "('a invoker_world_scheme) invocation \<Rightarrow> json pydict list \<Rightarrow> 'a invoker_world_scheme
   \<Rightarrow> flow \<times> 'a invoker_world_scheme"
where
  "iteration_limit iv errs w =
     leave iv
       (\<lambda>a. a\<lparr>as_lifecycle_state := LFAILED, as_route_result := Some (iv_route iv),
          as_errors := as_errors a @ errs @
            [[(''type'', JStr ''workflow_iteration_limit''),
              (''message'', JStr (''Workflow exceeded '' @ nat_digits WF_MAX_ITERATIONS @ '' iterations''))]],
          as_supervisor_metadata := clear_meta (iv_meta iv)\<rparr>)
       (''Exceeded '' @ nat_digits WF_MAX_ITERATIONS @ '' step iterations'') [] w"

text \<open>The loop with the iterations it has left, and \<open>run_workflow_loop\<close>, which starts with all.\<close>

fun workflow_loop ::
  "nat \<Rightarrow> ('a invoker_world_scheme) services \<Rightarrow> workflow_engine
   \<Rightarrow> ('a invoker_world_scheme) invocation \<Rightarrow> workflow_execution_state \<Rightarrow> json pydict list
   \<Rightarrow> 'a invoker_world_scheme \<Rightarrow> flow \<times> 'a invoker_world_scheme"
where
  "workflow_loop 0 sv en iv s errs w = iteration_limit iv errs w"
| "workflow_loop (Suc n) sv en iv s errs w =
     (case loop_iteration sv en iv s errs w of
        (Return r, w) \<Rightarrow> (Return r, w)
      | (Next s errs, w) \<Rightarrow> workflow_loop n sv en iv s errs w)"

definition run_workflow_loop ::
  "('a invoker_world_scheme) services \<Rightarrow> workflow_engine \<Rightarrow> ('a invoker_world_scheme) invocation
   \<Rightarrow> workflow_execution_state \<Rightarrow> json pydict list \<Rightarrow> 'a invoker_world_scheme
   \<Rightarrow> flow \<times> 'a invoker_world_scheme"
where
  "run_workflow_loop sv en iv s new_errors w =
     workflow_loop WF_MAX_ITERATIONS sv en iv s new_errors w"

subsection \<open>Leaving the loop\<close>

text \<open>The loop ended by persisting an agent in the given lifecycle state.\<close>

definition ends_as ::
  "('a invoker_world_scheme) invocation \<Rightarrow> lifecycle_state \<Rightarrow> flow \<times> 'a invoker_world_scheme \<Rightarrow> bool"
where
  "ends_as iv ls fw \<longleftrightarrow>
     (\<exists>agent w. as_lifecycle_state agent = ls \<and> as_agent_id agent = as_agent_id (iv_agent iv) \<and>
        as_version agent = as_version (iv_agent iv) + 1 \<and>
        fw = (case iv_persist iv agent w of (r, w) \<Rightarrow> (Return r, w)))"

lemma leave_ends:
  assumes a: "check_agent_state (iv_agent iv) = Inr (iv_agent iv)"
    and f: "as_lifecycle_state (f (iv_agent iv)) = ls"
      "as_agent_id (f (iv_agent iv)) = as_agent_id (iv_agent iv)"
      "as_conversation_history (f (iv_agent iv)) = as_conversation_history (iv_agent iv)"
    and r: "reason \<noteq> []"
  shows "ends_as iv ls (leave iv f reason details w)"
proof -
  have "\<exists>agent w'. with_changes f reason details (iv_agent iv) w = (Inr agent, w') \<and>
      as_lifecycle_state agent = ls \<and> as_agent_id agent = as_agent_id (iv_agent iv) \<and>
      as_version agent = as_version (iv_agent iv) + 1"
    using a f r
    by (auto simp: with_changes_def new_lifecycle_event_def check_agent_state_def Let_def
        utc_now_def split: if_splits)
  then obtain agent w' where "with_changes f reason details (iv_agent iv) w = (Inr agent, w')"
    "as_lifecycle_state agent = ls" "as_agent_id agent = as_agent_id (iv_agent iv)"
    "as_version agent = as_version (iv_agent iv) + 1" by blast
  then show ?thesis
    unfolding ends_as_def by (intro exI [of _ agent] exI [of _ w']) (simp add: leave_def)
qed

lemma completed_ends:
  "check_agent_state (iv_agent iv) = Inr (iv_agent iv) \<Longrightarrow> ends_as iv LCOMPLETED (on_completed iv s w)"
  unfolding on_completed_def Let_def by (rule leave_ends) simp_all

lemma limit_ends:
  "check_agent_state (iv_agent iv) = Inr (iv_agent iv) \<Longrightarrow> ends_as iv LFAILED (iteration_limit iv errs w)"
  unfolding iteration_limit_def by (rule leave_ends) simp_all

lemma ends_as_Return: "ends_as iv ls fw \<Longrightarrow> \<exists>r w. fw = (Return r, w)"
  by (auto simp: ends_as_def case_prod_beta)

subsection \<open>Workflows of tool steps\<close>

text \<open>The step \<open>k\<close> successes after \<open>c\<close>.\<close>

fun follow :: "workflow_step pydict \<Rightarrow> nat \<Rightarrow> string option \<Rightarrow> string option" where
  "follow steps 0 c = c"
| "follow steps (Suc k) c =
     follow steps k (case c of
         None \<Rightarrow> None
       | Some a \<Rightarrow> (case dict_get steps a of None \<Rightarrow> None | Some s \<Rightarrow> success_move s))"

text \<open>The inline tools answer, and \<open>calls\<close> reads off the world which calls they got so far; only the
  tools change that record, and they leave the store of executions alone.\<close>

definition tools_answer ::
  "('a invoker_world_scheme) services \<Rightarrow> ('a \<Rightarrow> json pydict list) \<Rightarrow> bool"
where
  "tools_answer sv calls \<longleftrightarrow>
     (\<exists>run. sv_inline_tool sv = Some run \<and>
        (\<forall>c w. \<exists>v w'. run c w = (Inr (Some v), w') \<and> iw_store w' = iw_store w \<and>
           calls (invoker_world.more w') = calls (invoker_world.more w) @ [c]))"

text \<open>The steps on the way of successes from \<open>c\<close>, the first \<open>n\<close> of them.\<close>

fun walk :: "workflow_step pydict \<Rightarrow> nat \<Rightarrow> string option \<Rightarrow> workflow_step list" where
  "walk steps 0 c = []"
| "walk steps (Suc n) c =
     (case c of
        None \<Rightarrow> []
      | Some a \<Rightarrow> (case dict_get steps a of None \<Rightarrow> [] | Some s \<Rightarrow> s # walk steps n (success_move s)))"

text \<open>\<open>ss\<close> are the steps from \<open>c\<close> to the end, each one the success of the one before.\<close>

fun success_path :: "workflow_step pydict \<Rightarrow> string option \<Rightarrow> workflow_step list \<Rightarrow> bool" where
  "success_path steps c [] \<longleftrightarrow> c = None"
| "success_path steps c (s # ss) \<longleftrightarrow>
     (\<exists>a. c = Some a \<and> dict_get steps a = Some s \<and> success_path steps (success_move s) ss)"

text \<open>Every step on the way of successes from \<open>c\<close> is a tool step.\<close>

definition tool_path :: "workflow_step pydict \<Rightarrow> string option \<Rightarrow> bool" where
  "tool_path steps c \<longleftrightarrow>
     (\<forall>k a s. follow steps k c = Some a \<longrightarrow> dict_get steps a = Some s \<longrightarrow>
        ws_step_type s = ''tool_execute'')"

lemma success_move_known:
  assumes "accepted d" "dict_get (wd_steps d) a = Some s" "success_move s = Some b"
  shows "b \<in> set (dict_keys (wd_steps d))"
proof -
  have "dict_get (ws_transitions s) ''on_success'' = Some b \<and> b \<noteq> END_TARGET"
    using assms(3) by (auto simp: success_move_def dict_get_or_def Let_def split: option.splits if_splits)
  with accepted_target [OF assms(1,2)] show ?thesis by blast
qed

lemma save_instance_frame [simp]:
  "wf_get (iw_store (save_instance x v)) k =
     (if k = wx_execution_id x then Some x else wf_get (iw_store v) k)"
  "invoker_world.more (save_instance x v) = invoker_world.more v"
  "e_uuid (save_instance x v) = e_uuid v" "e_uuid_n (save_instance x v) = e_uuid_n v"
  for v :: "'a invoker_world_scheme"
  using wf_get_save [of x "iw_store v" v k]
  by (cases "wf_save x (iw_store v) v"; simp add: save_instance_def)
    (simp_all add: save_instance_def wf_save_def utc_now_def)

text \<open>One step: the tool is called once, and only the entry of the execution is written.\<close>

lemma tool_iteration:
  assumes sv: "tools_answer sv calls" and ty: "ws_step_type step = ''tool_execute''"
    and reg: "registry_get (en_registry en) (wx_workflow_id s) = Some d"
    and s: "wx_status s = WF_RUNNING" "wx_current_step_id s = Some a"
    and step: "dict_get (wd_steps d) a = Some step"
  shows "\<exists>s' w'. loop_iteration sv en iv s errs w = (Next s' errs, w') \<and>
    wx_status s' = WF_RUNNING \<and> wx_workflow_id s' = wx_workflow_id s \<and>
    wx_execution_id s' = wx_execution_id s \<and> wx_current_step_id s' = success_move step \<and>
    calls (invoker_world.more w') = calls (invoker_world.more w) @ [ws_config step] \<and>
    (\<forall>k. k \<noteq> wx_execution_id s \<longrightarrow> wf_get (iw_store w') k = wf_get (iw_store w) k)"
proof -
  have run: "\<not> wf_terminal (wx_status s)" using s(1) by (simp add: wf_terminal_def)
  have "wf_step w en s = Inr (handle_tool_execute s step)"
    using wf_step_at [OF run s(2) reg step] ty by simp
  then have st: "wf_step w en s = Inr (s\<lparr>wx_current_step_id := success_move step\<rparr>,
      (new_outcome OUT_TOOL_EXECUTE)\<lparr>so_step_id := ws_step_id step, so_config := ws_config step\<rparr>)"
    by (simp add: handle_tool_execute_def advance_move)
  let ?s = "s\<lparr>wx_current_step_id := success_move step\<rparr>"
  from sv obtain run where "sv_inline_tool sv = Some run"
    and run: "\<And>c w. \<exists>v w'. run c w = (Inr (Some v), w') \<and> iw_store w' = iw_store w \<and>
      calls (invoker_world.more w') = calls (invoker_world.more w) @ [c]"
    unfolding tools_answer_def by blast
  moreover from run [of "ws_config step" "save_instance ?s w"] obtain v w' where
    v: "run (ws_config step) (save_instance ?s w) = (Inr (Some v), w')"
      "iw_store w' = iw_store (save_instance ?s w)"
      "calls (invoker_world.more w') = calls (invoker_world.more w) @ [ws_config step]"
    by auto
  ultimately have inline: "run_inline sv (ws_config step) (save_instance ?s w) = (Some v, w')"
    by (simp add: run_inline_def)
  show ?thesis
    by (simp add: loop_iteration_def st new_outcome_def on_tool_execute_def inline go_on_def
        resume_with_result_def s v)
qed

lemma end_iteration:
  assumes "wx_status s = WF_RUNNING" "wx_current_step_id s = None"
  shows "loop_iteration sv en iv s errs w =
    on_completed iv (fst (wf_complete s)) (save_instance (fst (wf_complete s)) w)"
  using assms
  by (auto simp: loop_iteration_def wf_step_def wf_terminal_def wf_complete_def new_outcome_def)

text \<open>Where the loop gets to: the end of the path within \<open>n\<close> iterations, or the limit.\<close>

lemma tool_loop:
  assumes sv: "tools_answer sv calls" and d: "accepted d"
    and iv: "check_agent_state (iv_agent iv) = Inr (iv_agent iv)"
    and reg: "registry_get (en_registry en) (wx_workflow_id s) = Some d"
    and s: "wx_status s = WF_RUNNING"
      "\<And>a. wx_current_step_id s = Some a \<Longrightarrow> a \<in> set (dict_keys (wd_steps d))"
      "tool_path (wd_steps d) (wx_current_step_id s)"
  shows "\<exists>s' w'. workflow_loop n sv en iv s errs w =
      (if \<exists>k < n. follow (wd_steps d) k (wx_current_step_id s) = None
       then on_completed iv s' w' else iteration_limit iv errs w') \<and>
    wx_workflow_id s' = wx_workflow_id s \<and> wx_execution_id s' = wx_execution_id s \<and>
    calls (invoker_world.more w') = calls (invoker_world.more w) @
      map ws_config (walk (wd_steps d) n (wx_current_step_id s)) \<and>
    (\<forall>k. k \<noteq> wx_execution_id s \<longrightarrow> wf_get (iw_store w') k = wf_get (iw_store w) k)"
  using reg s
proof (induction n arbitrary: s w)
  case 0
  then show ?case by (auto intro!: exI [of _ s])
next
  case (Suc n)
  show ?case
  proof (cases "wx_current_step_id s")
    case None
    let ?c = "fst (wf_complete s)"
    note it = end_iteration [OF Suc.prems(2) None, of sv en iv errs w]
    from ends_as_Return [OF completed_ends [OF iv, of ?c "save_instance ?c w"]]
    have "workflow_loop (Suc n) sv en iv s errs w = on_completed iv ?c (save_instance ?c w)"
      by (auto simp: it)
    moreover have "\<exists>k < Suc n. follow (wd_steps d) k (wx_current_step_id s) = None"
      using None by (intro exI [of _ 0]) simp
    ultimately show ?thesis
      using None by (intro exI [of _ ?c] exI [of _ "save_instance ?c w"]) (simp add: wf_complete_def)
  next
    case (Some a)
    then have "a \<in> set (dict_keys (wd_steps d))" by (rule Suc.prems(3))
    then obtain step where step: "dict_get (wd_steps d) a = Some step"
      by (cases "dict_get (wd_steps d) a") (auto simp: dict_get_None_iff)
    have follow_next: "follow (wd_steps d) (Suc k) (wx_current_step_id s) =
        follow (wd_steps d) k (success_move step)" for k
      using Some step by simp
    have ty: "ws_step_type step = ''tool_execute''"
      using Suc.prems(4) Some step unfolding tool_path_def by (metis follow.simps(1))
    have path: "tool_path (wd_steps d) (success_move step)"
      using Suc.prems(4) unfolding tool_path_def by (metis follow_next)
    from tool_iteration [OF sv ty Suc.prems(1,2) Some step] obtain s' w' where
      it: "loop_iteration sv en iv s errs w = (Next s' errs, w')"
      and s': "wx_status s' = WF_RUNNING" "wx_workflow_id s' = wx_workflow_id s"
        "wx_current_step_id s' = success_move step" "wx_execution_id s' = wx_execution_id s"
      and w': "calls (invoker_world.more w') = calls (invoker_world.more w) @ [ws_config step]"
        "\<forall>k. k \<noteq> wx_execution_id s \<longrightarrow> wf_get (iw_store w') k = wf_get (iw_store w) k"
      by blast
    have known: "\<And>b. wx_current_step_id s' = Some b \<Longrightarrow> b \<in> set (dict_keys (wd_steps d))"
      using success_move_known [OF d step] s'(3) by simp
    have shift: "(\<exists>k < Suc n. follow (wd_steps d) k (wx_current_step_id s) = None) \<longleftrightarrow>
        (\<exists>k < n. follow (wd_steps d) k (wx_current_step_id s') = None)"
    proof
      assume "\<exists>k < Suc n. follow (wd_steps d) k (wx_current_step_id s) = None"
      then obtain k where k: "k < Suc n" "follow (wd_steps d) k (wx_current_step_id s) = None" by blast
      then show "\<exists>k < n. follow (wd_steps d) k (wx_current_step_id s') = None"
        using Some step s'(3) by (cases k) auto
    next
      assume "\<exists>k < n. follow (wd_steps d) k (wx_current_step_id s') = None"
      then obtain k where "k < n" "follow (wd_steps d) k (wx_current_step_id s') = None" by blast
      then show "\<exists>k < Suc n. follow (wd_steps d) k (wx_current_step_id s) = None"
        using Some step s'(3) by (intro exI [of _ "Suc k"]) simp
    qed
    have "walk (wd_steps d) (Suc n) (wx_current_step_id s) =
        step # walk (wd_steps d) n (wx_current_step_id s')"
      using Some step s'(3) by simp
    with Suc.IH [OF _ s'(1) known, of w'] Suc.prems(1) s'(2-4) path w' show ?thesis
      unfolding shift by (simp add: it)
  qed
qed

lemma walk_path:
  "(\<And>a s b. dict_get steps a = Some s \<Longrightarrow> success_move s = Some b \<Longrightarrow> b \<in> set (dict_keys steps)) \<Longrightarrow>
     (\<And>a. c = Some a \<Longrightarrow> a \<in> set (dict_keys steps)) \<Longrightarrow>
     \<exists>k \<le> n. follow steps k c = None \<Longrightarrow> success_path steps c (walk steps n c)"
proof (induction n arbitrary: c)
  case 0
  then show ?case by simp
next
  case (Suc n)
  show ?case
  proof (cases c)
    case None
    then show ?thesis by simp
  next
    case (Some a)
    with Suc.prems(2) obtain s where s: "dict_get steps a = Some s"
      by (cases "dict_get steps a") (auto simp: dict_get_None_iff)
    from Suc.prems(3) obtain k where "k \<le> Suc n" "follow steps k c = None" by blast
    with Some s have "\<exists>k \<le> n. follow steps k (success_move s) = None" by (cases k) auto
    with Suc.IH [of "success_move s"] Suc.prems(1) s have
      "success_path steps (success_move s) (walk steps n (success_move s))" by blast
    with Some s show ?thesis by simp
  qed
qed

lemma walk_length:
  "(\<And>a s b. dict_get steps a = Some s \<Longrightarrow> success_move s = Some b \<Longrightarrow> b \<in> set (dict_keys steps)) \<Longrightarrow>
     (\<And>a. c = Some a \<Longrightarrow> a \<in> set (dict_keys steps)) \<Longrightarrow>
     \<forall>k \<le> n. follow steps k c \<noteq> None \<Longrightarrow> length (walk steps n c) = n"
proof (induction n arbitrary: c)
  case 0
  then show ?case by simp
next
  case (Suc n)
  from Suc.prems(3) [rule_format, of 0] obtain a where a: "c = Some a" by auto
  with Suc.prems(2) obtain s where s: "dict_get steps a = Some s"
    by (cases "dict_get steps a") (auto simp: dict_get_None_iff)
  have "\<forall>k \<le> n. follow steps k (success_move s) \<noteq> None"
  proof (intro allI impI)
    fix k
    assume "k \<le> n"
    then show "follow steps k (success_move s) \<noteq> None"
      using Suc.prems(3) [rule_format, of "Suc k"] a s by simp
  qed
  with Suc.IH [of "success_move s"] Suc.prems(1) a s show ?case by auto
qed

lemma follow_Suc:
  "follow steps (Suc k) c =
     (case follow steps k c of
        None \<Rightarrow> None
      | Some a \<Rightarrow> (case dict_get steps a of None \<Rightarrow> None | Some s \<Rightarrow> success_move s))"
proof (induction k arbitrary: c)
  case 0
  then show ?case by simp
next
  case (Suc k)
  show ?case using Suc [of "case c of None \<Rightarrow> None | Some a \<Rightarrow>
      (case dict_get steps a of None \<Rightarrow> None | Some s \<Rightarrow> success_move s)"]
    by simp
qed

lemma follow_edge:
  assumes "accepted d" "[] \<notin> set (dict_keys (wd_steps d))"
    and "follow (wd_steps d) k c = Some a" "follow (wd_steps d) (Suc k) c = Some b"
  shows "(a, b) \<in> success_edges (wd_steps d)"
proof -
  obtain s where s: "dict_get (wd_steps d) a = Some s" "success_move s = Some b"
    using assms(3,4) by (auto simp only: follow_Suc split: option.splits)
  have b: "b \<in> set (dict_keys (wd_steps d))" by (rule success_move_known [OF assms(1) s])
  with assms(2) have "b \<noteq> []" by blast
  with s(2) have "success_target s = Some b"
    by (auto simp: success_move_def success_target_def dict_get_or_def Let_def
        split: option.splits if_splits)
  with s(1) b show ?thesis by (auto simp: success_edges_def)
qed

lemma follow_path:
  assumes d: "accepted d" "[] \<notin> set (dict_keys (wd_steps d))"
    and a: "follow (wd_steps d) i c = Some a" and b: "follow (wd_steps d) j c = Some b" and ij: "i < j"
  shows "(a, b) \<in> (success_edges (wd_steps d))\<^sup>+"
  using b ij
proof (induction j arbitrary: b)
  case 0
  then show ?case by simp
next
  case (Suc j)
  from Suc.prems(1) obtain m where m: "follow (wd_steps d) j c = Some m"
    by (auto simp only: follow_Suc split: option.splits)
  note e = follow_edge [OF d m Suc.prems(1)]
  show ?case
  proof (cases "i = j")
    case True
    with a m e show ?thesis by auto
  next
    case False
    with Suc.IH [OF m] Suc.prems(2) e show ?thesis by (simp add: trancl.trancl_into_trancl)
  qed
qed

lemma follow_ends:
  assumes d: "accepted d" "[] \<notin> set (dict_keys (wd_steps d))" and acyc: "on_cycle (wd_steps d) = {}"
  shows "\<exists>k \<le> length (wd_steps d). follow (wd_steps d) k (Some (wd_start_step d)) = None"
proof (rule ccontr)
  let ?V = "set (dict_keys (wd_steps d))" and ?n = "length (wd_steps d)"
  assume "\<not> (\<exists>k \<le> ?n. follow (wd_steps d) k (Some (wd_start_step d)) = None)"
  then have some: "\<exists>a. follow (wd_steps d) k (Some (wd_start_step d)) = Some a" if "k \<le> ?n" for k
    using that by auto
  define v where "v k = the (follow (wd_steps d) k (Some (wd_start_step d)))" for k
  have v: "follow (wd_steps d) k (Some (wd_start_step d)) = Some (v k)" if "k \<le> ?n" for k
    using some [OF that] by (auto simp: v_def)
  have inj: "inj_on v {..?n}"
  proof (rule inj_onI)
    fix i j
    assume ij: "i \<in> {..?n}" "j \<in> {..?n}" "v i = v j"
    have "(v i, v i) \<notin> (success_edges (wd_steps d))\<^sup>+"
      using acyc by (auto simp: on_cycle_def)
    then show "i = j"
      using follow_path [OF d v v, of i j] follow_path [OF d v v, of j i] ij
      by (cases i j rule: linorder_cases) auto
  qed
  have "v k \<in> ?V" if "k \<le> ?n" for k
  proof (cases k)
    case 0
    with v [OF that] accepted_start [OF d(1)] show ?thesis by simp
  next
    case (Suc m)
    with that have "(v m, v k) \<in> success_edges (wd_steps d)"
      using follow_edge [OF d v [of m]] v [OF that] by simp
    with success_edges_sub show ?thesis by blast
  qed
  then have "v ` {..?n} \<subseteq> ?V" by auto
  then have "card (v ` {..?n}) \<le> card ?V" by (intro card_mono) auto
  also have "card ?V \<le> ?n" using card_length [of "dict_keys (wd_steps d)"] by simp
  finally show False using inj by (simp add: card_image)
qed

lemma follow_cycle:
  assumes "a \<in> on_cycle (wd_steps d)"
  shows "\<exists>b \<in> on_cycle (wd_steps d). follow (wd_steps d) k (Some a) = Some b"
proof (induction k)
  case 0
  with assms show ?case by simp
next
  case (Suc k)
  then obtain b where b: "(b, b) \<in> (success_edges (wd_steps d))\<^sup>+"
    "follow (wd_steps d) k (Some a) = Some b"
    by (auto simp: on_cycle_def)
  from tranclD [OF b(1)] obtain c where c: "(b, c) \<in> success_edges (wd_steps d)"
    "(c, b) \<in> (success_edges (wd_steps d))\<^sup>*" by blast
  then have "c \<in> on_cycle (wd_steps d)" by (auto simp: on_cycle_def)
  moreover from c(1) obtain s where "dict_get (wd_steps d) b = Some s" "success_target s = Some c"
    by (auto simp: success_edges_def)
  then have "follow (wd_steps d) (Suc k) (Some a) = Some c"
    by (simp add: follow_Suc b(2) del: follow.simps(2))
      (auto simp: success_target_def success_move_def dict_get_or_def split: option.splits if_splits)
  ultimately show ?case by blast
qed

text \<open>A tool workflow from its start, with \<open>n\<close> iterations left.\<close>

lemma tool_workflow_loop:
  assumes "tools_answer sv calls" "accepted d" "[] \<notin> set (dict_keys (wd_steps d))"
    and "on_cycle (wd_steps d) = {}" "length (wd_steps d) < n"
    and "tool_path (wd_steps d) (Some (wd_start_step d))"
    and "check_agent_state (iv_agent iv) = Inr (iv_agent iv)"
    and "registry_get (en_registry en) (wx_workflow_id s) = Some d"
    and "wx_status s = WF_RUNNING" "wx_current_step_id s = Some (wd_start_step d)"
  shows "\<exists>s' w' ss. workflow_loop n sv en iv s errs w = on_completed iv s' w' \<and>
    wx_workflow_id s' = wx_workflow_id s \<and> success_path (wd_steps d) (Some (wd_start_step d)) ss \<and>
    calls (invoker_world.more w') = calls (invoker_world.more w) @ map ws_config ss \<and>
    (\<forall>k. k \<noteq> wx_execution_id s \<longrightarrow> wf_get (iw_store w') k = wf_get (iw_store w) k)"
proof -
  obtain k where k: "k < n" "follow (wd_steps d) k (Some (wd_start_step d)) = None"
    using follow_ends [OF assms(2,3,4)] assms(5) by (meson le_less_trans)
  then have "success_path (wd_steps d) (Some (wd_start_step d)) (walk (wd_steps d) n (Some (wd_start_step d)))"
    using success_move_known [OF assms(2)] accepted_start [OF assms(2)] less_imp_le
    by (intro walk_path) blast+
  moreover from k have "\<exists>k < n. follow (wd_steps d) k (wx_current_step_id s) = None"
    unfolding assms(10) by blast
  ultimately show ?thesis
    using tool_loop [OF assms(1,2,7,8,9), of n errs w] assms(6) accepted_start [OF assms(2)]
    by (simp add: assms(10)) blast
qed

text \<open>C8: a workflow of tool steps without a loop and with fewer steps than the iteration limit
  finishes: if the inline tools answer, one call of the loop calls the tools of exactly the steps on
  the path of successes from the start to the end, each once and in this order, and then completes
  the agent.\<close>

theorem tool_workflow_completes:
  assumes "tools_answer sv calls" "accepted d" "[] \<notin> set (dict_keys (wd_steps d))"
    and "on_cycle (wd_steps d) = {}" "length (wd_steps d) < WF_MAX_ITERATIONS"
    and "tool_path (wd_steps d) (Some (wd_start_step d))"
    and "check_agent_state (iv_agent iv) = Inr (iv_agent iv)"
    and "registry_get (en_registry en) wid = Some d"
    and "fst (start_workflow en wid ctx e) = Inr s"
  shows "\<exists>s' w' ss. run_workflow_loop sv en iv s errs w = on_completed iv s' w' \<and>
    ends_as iv LCOMPLETED (run_workflow_loop sv en iv s errs w) \<and>
    success_path (wd_steps d) (Some (wd_start_step d)) ss \<and>
    calls (invoker_world.more w') = calls (invoker_world.more w) @ map ws_config ss"
proof -
  have "wx_workflow_id s = wid" "wx_status s = WF_RUNNING" "wx_current_step_id s = Some (wd_start_step d)"
    using assms(8,9) by (auto simp: start_workflow_def Let_def split: prod.splits)
  with assms(8) tool_workflow_loop [OF assms(1-7), of en s errs w] obtain s' w' ss where
    "run_workflow_loop sv en iv s errs w = on_completed iv s' w'"
    "success_path (wd_steps d) (Some (wd_start_step d)) ss"
    "calls (invoker_world.more w') = calls (invoker_world.more w) @ map ws_config ss"
    by (auto simp: run_workflow_loop_def)
  with completed_ends [OF assms(7), of s' w'] show ?thesis by metis
qed

text \<open>C17: an accepted definition may loop for ever.  The graph validation lets every loop pass as
  soon as one loop of the definition holds a condition step; a start inside a loop of tool steps is
  then run to the iteration limit: the tools are called for the first \<open>WF_MAX_ITERATIONS\<close> steps of
  the walk round the loop, all of them answer, and the agent is FAILED by the iteration limit.\<close>

theorem unguarded_loop_exhausts:
  assumes "tools_answer sv calls" "accepted d"
    and "wd_start_step d \<in> on_cycle (wd_steps d)"
    and "tool_path (wd_steps d) (Some (wd_start_step d))"
    and "check_agent_state (iv_agent iv) = Inr (iv_agent iv)"
    and "registry_get (en_registry en) wid = Some d"
    and "fst (start_workflow en wid ctx e) = Inr s"
  shows "\<exists>w'. run_workflow_loop sv en iv s errs w = iteration_limit iv errs w' \<and>
    ends_as iv LFAILED (run_workflow_loop sv en iv s errs w) \<and>
    calls (invoker_world.more w') = calls (invoker_world.more w) @
      map ws_config (walk (wd_steps d) WF_MAX_ITERATIONS (Some (wd_start_step d))) \<and>
    length (walk (wd_steps d) WF_MAX_ITERATIONS (Some (wd_start_step d))) = WF_MAX_ITERATIONS"
proof -
  have s: "wx_workflow_id s = wid" "wx_status s = WF_RUNNING"
    "wx_current_step_id s = Some (wd_start_step d)"
    using assms(6,7) by (auto simp: start_workflow_def Let_def split: prod.splits)
  have never: "follow (wd_steps d) k (Some (wd_start_step d)) \<noteq> None" for k
    using follow_cycle [OF assms(3), of k] by auto
  have "length (walk (wd_steps d) WF_MAX_ITERATIONS (Some (wd_start_step d))) = WF_MAX_ITERATIONS"
    using success_move_known [OF assms(2)] accepted_start [OF assms(2)] never
    by (intro walk_length) blast+
  moreover obtain w' where "run_workflow_loop sv en iv s errs w = iteration_limit iv errs w'"
    "calls (invoker_world.more w') = calls (invoker_world.more w) @
      map ws_config (walk (wd_steps d) WF_MAX_ITERATIONS (Some (wd_start_step d)))"
    using tool_loop [OF assms(1,2,5), of en s WF_MAX_ITERATIONS errs w] accepted_start [OF assms(2)]
      assms(4,6) never
    by (auto simp: s run_workflow_loop_def)
  ultimately show ?thesis using limit_ends [OF assms(5), of errs w'] by metis
qed

subsection \<open>Sub-workflows\<close>

text \<open>C19: a sub-workflow replaces the workflow that called it.  The loop goes on with the child
  execution alone: the parent stays in the store, running at the step after the call, without a
  result for it, and the end of the child is the end of the agent: as soon as the child has no step
  left its iteration completes the agent, and a child of tool steps (without a loop and short enough)
  is run to this end, with the parent in the store as it was left.\<close>

theorem sub_workflow_replaces_parent:
  assumes run: "\<not> wf_terminal (wx_status s)" "wx_current_step_id s = Some sid"
    and reg: "registry_get (en_registry en) (wx_workflow_id s) = Some d"
    and step: "dict_get (wd_steps d) sid = Some step" "ws_step_type step = ''sub_workflow''"
      "dict_get (ws_config step) ''workflow_id'' = Some (JStr i)" "i \<noteq> []"
    and child: "registry_get (en_registry en) i = Some d'"
    and fresh: "e_uuid w (e_uuid_n w) \<noteq> wx_execution_id s"
    and iv: "check_agent_state (iv_agent iv) = Inr (iv_agent iv)"
  shows "\<exists>s' w'. loop_iteration sv en iv s errs w = (Next s' errs, w') \<and>
    wx_workflow_id s' = i \<and> wx_status s' = WF_RUNNING \<and>
    wx_current_step_id s' = Some (wd_start_step d') \<and> wx_context s' = wx_context s \<and>
    wx_execution_id s' \<noteq> wx_execution_id s \<and>
    wf_get (iw_store w') (wx_execution_id s) = Some (s\<lparr>wx_current_step_id := success_move step\<rparr>) \<and>
    workflow_loop (Suc n) sv en iv s errs w = workflow_loop n sv en iv s' errs w' \<and>
    (\<forall>c v. wx_execution_id c = wx_execution_id s' \<longrightarrow> wx_status c = WF_RUNNING \<longrightarrow>
       wx_current_step_id c = None \<longrightarrow> ends_as iv LCOMPLETED (loop_iteration sv en iv c errs v)) \<and>
    (\<forall>calls. tools_answer sv calls \<and> accepted d' \<and> [] \<notin> set (dict_keys (wd_steps d')) \<and>
       on_cycle (wd_steps d') = {} \<and> length (wd_steps d') < n \<and>
       tool_path (wd_steps d') (Some (wd_start_step d')) \<longrightarrow>
       (\<exists>c v. workflow_loop (Suc n) sv en iv s errs w = on_completed iv c v \<and> wx_workflow_id c = i \<and>
          ends_as iv LCOMPLETED (workflow_loop (Suc n) sv en iv s errs w) \<and>
          wf_get (iw_store v) (wx_execution_id s) = Some (s\<lparr>wx_current_step_id := success_move step\<rparr>)))"
proof -
  let ?s1 = "s\<lparr>wx_current_step_id := success_move step\<rparr>"
  have "wf_step w en s = Inr (handle_sub_workflow s step)"
    using wf_step_at [OF run reg step(1)] step(2) by simp
  then have st: "wf_step w en s = Inr (?s1, (new_outcome OUT_SUB_WORKFLOW)
      \<lparr>so_step_id := ws_step_id step, so_workflow_id := Some (JStr i), so_config := ws_config step\<rparr>)"
    using step(3) by (simp add: handle_sub_workflow_def dict_get_or_def advance_move)
  have get: "get_by_value (en_registry en) (JStr i) = Inr (Some d')"
    using child by (simp add: get_by_value_def registry_get_def)
  obtain s' w' where it: "loop_iteration sv en iv s errs w = (Next s' errs, w')"
    and s': "wx_workflow_id s' = i" "wx_status s' = WF_RUNNING"
      "wx_current_step_id s' = Some (wd_start_step d')" "wx_context s' = wx_context s"
      "wx_execution_id s' \<noteq> wx_execution_id s"
    and parent: "wf_get (iw_store w') (wx_execution_id s) = Some ?s1"
    using fresh child step(4)
    by (simp add: loop_iteration_def st new_outcome_def on_sub_workflow_def get start_workflow_def
        new_uuid_def go_on_def)
  have loop: "workflow_loop (Suc n) sv en iv s errs w = workflow_loop n sv en iv s' errs w'"
    by (simp add: it)
  have ends: "ends_as iv LCOMPLETED (loop_iteration sv en iv c errs v)"
    if "wx_status c = WF_RUNNING" "wx_current_step_id c = None" for c v
    unfolding end_iteration [OF that] by (rule completed_ends [OF iv])
  have tools: "\<exists>c v. workflow_loop n sv en iv s' errs w' = on_completed iv c v \<and> wx_workflow_id c = i \<and>
      ends_as iv LCOMPLETED (workflow_loop n sv en iv s' errs w') \<and>
      wf_get (iw_store v) (wx_execution_id s) = Some ?s1"
    if "tools_answer sv calls" "accepted d'" "[] \<notin> set (dict_keys (wd_steps d'))"
      "on_cycle (wd_steps d') = {}" "length (wd_steps d') < n"
      "tool_path (wd_steps d') (Some (wd_start_step d'))" for calls
  proof -
    from child s'(1) have "registry_get (en_registry en) (wx_workflow_id s') = Some d'" by simp
    from tool_workflow_loop [OF that iv this s'(2,3), of errs w'] obtain c v where
      c: "workflow_loop n sv en iv s' errs w' = on_completed iv c v" "wx_workflow_id c = i"
        "\<forall>k. k \<noteq> wx_execution_id s' \<longrightarrow> wf_get (iw_store v) k = wf_get (iw_store w') k"
      using s'(1) by auto
    with completed_ends [OF iv, of c v] parent s'(5) show ?thesis by metis
  qed
  show ?thesis
    by (intro exI conjI, rule it, (rule s' parent loop)+) (use ends tools loop in auto)
qed

subsection \<open>Examples\<close>

definition demo_services :: "invoker_world services" where
  "demo_services =
     \<lparr>sv_route = (\<lambda>_ w. (Inr \<lparr>ra_error = None, ra_output = JNull\<rparr>, w)),
      sv_inline_tool = Some (\<lambda>_ w. (Inr (Some (JStr ''ok'')), w)), sv_submit_job = None,
      sv_deliberate = None, sv_request_input = None, sv_select_agent = None,
      sv_get_agent = (\<lambda>_. None), sv_workflow_tools = None, sv_primitive_tools = None,
      sv_prompts = None\<rparr>"

definition demo_invoker_world :: invoker_world where
  "demo_invoker_world =
     \<lparr>e_uuid = (\<lambda>n. ''u'' @ nat_digits n), e_uuid_n = 1, e_clock = int, e_tick = 0,
      e_float_fmt = (\<lambda>_ _. ''1.0''), e_isoformat = int_str, e_py_str = (\<lambda>_. ''...''),
      e_strftime = (\<lambda>fmt _. fmt), we_eval = (\<lambda>_ _. Inr True), we_json_loads = (\<lambda>_. None),
      iw_store = []\<rparr>"

text \<open>The same in a world that holds the calls of the tools.\<close>

type_synonym logged_world = "json pydict list invoker_world_scheme"

definition logging_services :: "logged_world services" where
  "logging_services =
     \<lparr>sv_route = (\<lambda>_ w. (Inr \<lparr>ra_error = None, ra_output = JNull\<rparr>, w)),
      sv_inline_tool = Some (\<lambda>c w. (Inr (Some (JStr ''ok'')), invoker_world.more_update (\<lambda>cs. cs @ [c]) w)),
      sv_submit_job = None, sv_deliberate = None, sv_request_input = None, sv_select_agent = None,
      sv_get_agent = (\<lambda>_. None), sv_workflow_tools = None, sv_primitive_tools = None,
      sv_prompts = None\<rparr>"

definition logged_world :: logged_world where
  "logged_world = invoker_world.extend demo_invoker_world []"

lemma logging_tools_answer: "tools_answer logging_services (\<lambda>cs. cs)"
  by (simp add: tools_answer_def logging_services_def)

lemma logged_world_simps [simp]:
  "invoker_world.more logged_world = []" "e_uuid logged_world (e_uuid_n logged_world) = ''u1''"
  by (simp_all add: logged_world_def invoker_world.defs demo_invoker_world_def nat_digits.simps) code_simp

definition demo_invocation :: "'w invocation" where
  "demo_invocation =
     \<lparr>iv_agent = demo_agent\<lparr>as_lifecycle_state := LRUNNING\<rparr>,
      iv_route = \<lparr>ro_destination = ''workflow'', ro_payload = [], ro_agent_id = ''a'', ro_confidence = 1\<rparr>,
      iv_meta = [], iv_persist = (\<lambda>a w. (Inr a, w))\<rparr>"

lemma demo_invocation_ok: "check_agent_state (iv_agent demo_invocation) = Inr (iv_agent demo_invocation)"
  by (simp add: demo_invocation_def check_agent_state_def demo_agent_def)

text \<open>Two tool steps in a row.\<close>

definition two_tools :: workflow_definition where
  "two_tools = demo_definition
     [(''one'', demo_step ''one'' ''tool_execute'' [(''on_success'', ''two'')]),
      (''two'', demo_step ''two'' ''tool_execute'' [(''on_success'', END_TARGET)])] ''one''"

lemma two_accepted: "accepted two_tools" "accepted two_loops"
  by (rule acceptedI, code_simp)+

lemma two_tools_simps:
  "wd_steps two_tools =
     [(''one'', demo_step ''one'' ''tool_execute'' [(''on_success'', ''two'')]),
      (''two'', demo_step ''two'' ''tool_execute'' [(''on_success'', END_TARGET)])]"
  "wd_start_step two_tools = ''one''"
  by (simp_all add: two_tools_def demo_definition_def)

lemma two_tools_edges: "success_edges (wd_steps two_tools) = {(''one'', ''two'')}"
  by (auto simp: success_edges_def two_tools_simps dict_get_def demo_step_def success_target_def
      END_TARGET_def split: if_splits)

lemma two_tools_acyclic: "on_cycle (wd_steps two_tools) = {}"
proof -
  have "a = ''one'' \<and> b = ''two''" if "(a, b) \<in> {(''one'', ''two'')}\<^sup>+" for a b :: string
    using that by (induction rule: trancl_induct) auto
  then show ?thesis unfolding on_cycle_def two_tools_edges by force
qed

lemma two_tools_path: "tool_path (wd_steps two_tools) c"
  by (auto simp: tool_path_def two_tools_simps dict_get_def demo_step_def split: if_splits)

lemma two_loops_follow: "follow (wd_steps two_loops) k (Some ''spin'') = Some ''spin''"
  by (induction k)
    (simp_all add: two_loops_simps dict_get_def demo_step_def success_move_def dict_get_or_def
      END_TARGET_def)

theorem tool_workflow_completes_witness:
  "\<exists>s' w' ss. run_workflow_loop logging_services (demo_engine two_tools) demo_invocation
      (demo_state ''one'') [] logged_world = on_completed demo_invocation s' w' \<and>
    success_path (wd_steps two_tools) (Some ''one'') ss \<and>
    invoker_world.more w' = map ws_config ss"
proof -
  have "[] \<notin> set (dict_keys (wd_steps two_tools))" "length (wd_steps two_tools) < WF_MAX_ITERATIONS"
    by (simp_all add: two_tools_simps WF_MAX_ITERATIONS_def)
  moreover have "fst (start_workflow (demo_engine two_tools) ''w'' None demo_env) = Inr (demo_state ''one'')"
    unfolding demo_start by (simp add: two_tools_simps)
  ultimately show ?thesis
    using tool_workflow_completes [OF logging_tools_answer two_accepted(1) _ two_tools_acyclic _
        two_tools_path demo_invocation_ok demo_get, of None demo_env "demo_state ''one''" "[]" logged_world]
    by (auto simp: two_tools_simps(2))
qed

theorem unguarded_loop_exhausts_witness:
  "\<exists>w'. run_workflow_loop logging_services (demo_engine two_loops) demo_invocation
      (demo_state ''spin'') [] logged_world = iteration_limit demo_invocation [] w' \<and>
    length (invoker_world.more w') = WF_MAX_ITERATIONS"
proof -
  have "wd_start_step two_loops \<in> on_cycle (wd_steps two_loops)"
    using two_loops_spin by (auto simp: on_cycle_def two_loops_simps(2))
  moreover have "tool_path (wd_steps two_loops) (Some (wd_start_step two_loops))"
    unfolding tool_path_def two_loops_simps(2) two_loops_follow
    by (simp add: two_loops_simps(1) dict_get_def demo_step_def)
  moreover have "fst (start_workflow (demo_engine two_loops) ''w'' None demo_env) = Inr (demo_state ''spin'')"
    unfolding demo_start by (simp add: two_loops_simps)
  ultimately show ?thesis
    using unguarded_loop_exhausts [OF logging_tools_answer two_accepted(2) _ _ demo_invocation_ok
        demo_get, of None demo_env "demo_state ''spin''" "[]" logged_world] by force
qed

text \<open>A workflow that calls the one of two tools before its last step.\<close>

definition call_step :: workflow_step where
  "call_step = (demo_step ''call'' ''sub_workflow'' [(''on_success'', ''after'')])
     \<lparr>ws_config := [(''workflow_id'', JStr ''v'')]\<rparr>"

definition caller :: workflow_definition where
  "caller = demo_definition
     [(''call'', call_step), (''after'', demo_step ''after'' ''tool_execute'' [(''on_success'', END_TARGET)])]
     ''call''"

definition calling_engine :: workflow_engine where
  "calling_engine =
     \<lparr>en_registry = [(''w'', caller), (''v'', two_tools)], en_pattern_registry = None,
      en_council_registry = None\<rparr>"

theorem sub_workflow_replaces_parent_witness:
  "\<exists>c v. workflow_loop 10 logging_services calling_engine demo_invocation (demo_state ''call'') [] logged_world =
      on_completed demo_invocation c v \<and> wx_workflow_id c = ''v'' \<and>
    wf_get (iw_store v) ''u0'' = Some ((demo_state ''call'')\<lparr>wx_current_step_id := Some ''after''\<rparr>)"
proof -
  let ?s = "demo_state ''call''"
  have run: "\<not> wf_terminal (wx_status ?s)" "wx_current_step_id ?s = Some ''call''"
    "registry_get (en_registry calling_engine) (wx_workflow_id ?s) = Some caller"
    by (simp_all add: demo_state_def wf_terminal_def calling_engine_def registry_get_def dict_get_def)
  have step: "dict_get (wd_steps caller) ''call'' = Some call_step"
    "ws_step_type call_step = ''sub_workflow''"
    "dict_get (ws_config call_step) ''workflow_id'' = Some (JStr ''v'')" "''v'' \<noteq> []"
    by (simp_all add: caller_def demo_definition_def call_step_def demo_step_def dict_get_def)
  have child: "registry_get (en_registry calling_engine) ''v'' = Some two_tools"
    by (simp add: calling_engine_def registry_get_def dict_get_def)
  have fresh: "e_uuid logged_world (e_uuid_n logged_world) \<noteq> wx_execution_id ?s"
    by (simp add: demo_state_def)
  have move: "success_move call_step = Some ''after''" "wx_execution_id ?s = ''u0''"
    by (simp_all add: call_step_def demo_step_def success_move_def dict_get_or_def dict_get_def
        END_TARGET_def demo_state_def)
  have tools: "tools_answer logging_services (\<lambda>cs. cs) \<and> accepted two_tools \<and>
      [] \<notin> set (dict_keys (wd_steps two_tools)) \<and> on_cycle (wd_steps two_tools) = {} \<and>
      length (wd_steps two_tools) < 9 \<and> tool_path (wd_steps two_tools) (Some (wd_start_step two_tools))"
    using logging_tools_answer two_accepted(1) two_tools_acyclic two_tools_path
    by (simp add: two_tools_simps(1))
  have "(10 :: nat) = Suc 9" by simp
  with sub_workflow_replaces_parent [OF run step child fresh demo_invocation_ok,
      of logging_services "[]" 9] tools
  show ?thesis unfolding move by metis
qed

end
