(* ===== verification/WorkflowDirectives.thy ===== *)
theory WorkflowDirectives
  imports WorkflowInvoker
begin

text \<open>
  The \<^verbatim>\<open>/invoke-workflow\<close> directives of an LLM reply: \<open>handle_invoke_workflow\<close> and
  \<open>parse_invoke_params\<close> of \<^verbatim>\<open>agent/workflow_invoker.py\<close>.  The two regular expressions are written
  out as scanners over ASCII white space and word characters.
\<close>

subsection \<open>Scanning\<close>

definition newline :: char where
  "newline = CHR 0x0A"

definition directive_word :: string where
  "directive_word = ''/invoke-workflow''"

text \<open>A directive at the start of a text: the workflow id, the parameters and the rest.  The white
  space between id and parameters may hold line breaks; at the end of the text only white space
  can be left for the parameters, which is the same as none.\<close>

definition directive_at :: "string \<Rightarrow> (string \<times> string \<times> string) option" where
  "directive_at s =
     (if take (length directive_word) s = directive_word then
        (let r = drop (length directive_word) s;
             after = dropWhile py_space r;
             wf_id = takeWhile (\<lambda>c. \<not> py_space c) after;
             params = dropWhile py_space (dropWhile (\<lambda>c. \<not> py_space c) after)
         in if takeWhile py_space r \<noteq> [] \<and> wf_id \<noteq> []
            then Some (wf_id, takeWhile (\<lambda>c. c \<noteq> newline) params,
                   dropWhile (\<lambda>c. c \<noteq> newline) params)
            else None)
      else None)"

lemma directive_at_shorter:
  assumes "directive_at s = Some (i, p, rest)"
  shows "length rest < length s"
proof -
  let ?r = "drop (length directive_word) s"
  let ?a = "dropWhile py_space ?r"
  let ?b = "dropWhile (\<lambda>c. \<not> py_space c) ?a"
  have pre: "take (length directive_word) s = directive_word"
    and rest: "rest = dropWhile (\<lambda>c. c \<noteq> newline) (dropWhile py_space ?b)"
    using assms by (auto simp: directive_at_def Let_def split: if_splits)
  have "length (take (length directive_word) s) = length directive_word" using pre by simp
  then have "length directive_word \<le> length s" by simp
  moreover have "0 < length directive_word" by (simp add: directive_word_def)
  moreover have "length rest \<le> length ?r"
    unfolding rest by (meson length_dropWhile_le order_trans)
  moreover have "length ?r = length s - length directive_word" by simp
  ultimately show ?thesis by linarith
qed

function find_directives :: "bool \<Rightarrow> string \<Rightarrow> (string \<times> string) list" where
  "find_directives line_start s =
     (case s of
        [] \<Rightarrow> []
      | c # cs \<Rightarrow>
          (case (if line_start then directive_at s else None) of
             Some (wf_id, params, rest) \<Rightarrow> (wf_id, params) # find_directives False rest
           | None \<Rightarrow> find_directives (c = newline) cs))"
  by pat_completeness auto
termination
  by (relation "measure (\<lambda>(b, s). length s)") (auto dest: directive_at_shorter split: if_splits)

declare find_directives.simps [simp del]

text \<open>The quoted value of a parameter, from behind its opening quote: the raw text up to the
  closing quote, and the rest.\<close>

fun quoted_value :: "string \<Rightarrow> (string \<times> string) option" where
  "quoted_value [] = None"
| "quoted_value (c # cs) =
     (if c = CHR 0x22 then Some ([], cs)
      else if c = CHR 0x5C then
        (case cs of
           [] \<Rightarrow> None
         | c' # cs' \<Rightarrow>
             if c' = newline then None
             else map_option (\<lambda>(v, r). (c # c' # v, r)) (quoted_value cs'))
      else map_option (\<lambda>(v, r). (c # v, r)) (quoted_value cs))"

fun unescape :: "string \<Rightarrow> string" where
  "unescape [] = []"
| "unescape [c] = [c]"
| "unescape (c # c' # cs) =
     (if c = CHR 0x5C \<and> c' \<noteq> newline then c' # unescape cs else c # unescape (c' # cs))"

definition param_at :: "string \<Rightarrow> (string \<times> string \<times> string) option" where
  "param_at s =
     (let name = takeWhile name_char s;
          r = dropWhile name_char s
      in if name \<noteq> [] \<and> take 2 r = [CHR ''='', CHR 0x22] then
           map_option (\<lambda>(v, rest). (name, v, rest)) (quoted_value (drop 2 r))
         else None)"

lemma quoted_value_shorter: "quoted_value s = Some (v, r) \<Longrightarrow> length r < length s"
  by (induction s arbitrary: v r rule: quoted_value.induct)
    (auto split: if_splits list.splits simp: less_SucI)

lemma param_at_shorter:
  assumes "param_at s = Some (n, v, rest)"
  shows "length rest < length s"
proof -
  have "length rest < length (drop 2 (dropWhile name_char s))"
    using assms by (auto simp: param_at_def Let_def split: if_splits dest: quoted_value_shorter)
  also have "\<dots> \<le> length s"
    using length_dropWhile_le [of name_char s] by simp
  finally show ?thesis .
qed

text \<open>The value of a parameter: JSON where it looks like a list or an object and parses.\<close>

definition param_value :: "'a wf_env_scheme \<Rightarrow> string \<Rightarrow> json" where
  "param_value e raw =
     (let v = unescape raw
      in if v \<noteq> [] \<and> (hd v = CHR ''{'' \<or> hd v = CHR ''['') then
           (case we_json_loads e v of None \<Rightarrow> JStr v | Some j \<Rightarrow> j)
         else JStr v)"

function parse_invoke_params :: "'a wf_env_scheme \<Rightarrow> string \<Rightarrow> json pydict \<Rightarrow> json pydict" where
  "parse_invoke_params e s acc =
     (case s of
        [] \<Rightarrow> acc
      | c # cs \<Rightarrow>
          (case param_at s of
             Some (name, raw, rest) \<Rightarrow>
               parse_invoke_params e rest (dict_set acc name (param_value e raw))
           | None \<Rightarrow> parse_invoke_params e cs acc))"
  by pat_completeness auto
termination
  by (relation "measure (\<lambda>(e, s, acc). length s)") (auto dest: param_at_shorter)

declare parse_invoke_params.simps [simp del]

subsection \<open>Running a directive\<close>

definition strip_prefix :: "string \<Rightarrow> string" where
  "strip_prefix i =
     (if take (length ''workflow.execute.'') i = ''workflow.execute.''
      then drop (length ''workflow.execute.'') i
      else if take (length ''workflow.'') i = ''workflow.'' then drop (length ''workflow.'') i
      else i)"

text \<open>How the inner loop ends: with an exception, or with a result and texts for the reply.\<close>

datatype inline_end =
    InlineRaised pyexn
  | InlineResult json "string list"

definition inline_llm ::
  "('a invoker_world_scheme) services \<Rightarrow> workflow_engine \<Rightarrow> workflow_execution_state
   \<Rightarrow> step_outcome \<Rightarrow> 'a invoker_world_scheme
   \<Rightarrow> workflow_execution_state result \<times> 'a invoker_world_scheme"
where
  "inline_llm sv en s out w =
     (case resolve_prompt w (sv_prompts sv) (wx_context s) (wx_step_results s)
         (render_context_templates w (so_config out) (wx_context s) (wx_step_results s)) of
        Inl x \<Rightarrow> (Inl x, w)
      | Inr rendered \<Rightarrow>
          (case sv_route sv \<lparr>rt_type = ''llm_call'', rt_payload = rendered,
              rt_step_id = so_step_id out\<rparr> w of
             (Inl x, w) \<Rightarrow> (Inl x, w)
           | (Inr answer, w) \<Rightarrow>
               (let s = (case ra_error answer of
                      None \<Rightarrow> fst (resume_with_result w s (so_step_id out) (ra_output answer))
                    | Some err \<Rightarrow> fst (fail_step en s (so_step_id out) err))
                in (Inr s, save_instance s w))))"

definition inline_sub ::
  "workflow_engine \<Rightarrow> workflow_execution_state \<Rightarrow> step_outcome \<Rightarrow> 'a invoker_world_scheme
   \<Rightarrow> workflow_execution_state result \<times> 'a invoker_world_scheme"
where
  "inline_sub en s out w =
     (let sub = (case so_workflow_id out of None \<Rightarrow> JNull | Some v \<Rightarrow> v);
          sub = (if json_truthy sub then sub else JStr []);
          missing = ''workflow '' @ py_repr w sub @ '' not found in registry''
      in case get_by_value (en_registry en) sub of
           Inl x \<Rightarrow> (Inl x, w)
         | Inr None \<Rightarrow>
             (let s = fst (fail_step en s (so_step_id out) missing) in (Inr s, save_instance s w))
         | Inr (Some _) \<Rightarrow>
             (case start_workflow en (case sub of JStr i \<Rightarrow> i | _ \<Rightarrow> []) (Some (wx_context s)) w of
                (Inr s', w) \<Rightarrow> (Inr s', save_instance s' w)
              | (Inl x, w) \<Rightarrow>
                  (let s = fst (fail_step en s (so_step_id out) (exn_message x))
                   in (Inr s, save_instance s w))))"

text \<open>The loop of one directive.  \<open>StepOutcome\<close> has no attribute \<open>prompt\<close>, and a council step has
  no branch: the loop just goes on.\<close>

definition no_prompt :: pyexn where
  "no_prompt = PyExn ''builtins'' ''AttributeError''
     (quoted ''StepOutcome'' @ '' object has no attribute '' @ quoted ''prompt'')"

text \<open>One iteration: the end of the loop, or the execution it goes on with.\<close>

definition inline_turn ::
  "('a invoker_world_scheme) services \<Rightarrow> workflow_engine \<Rightarrow> string
   \<Rightarrow> workflow_execution_state \<Rightarrow> 'a invoker_world_scheme
   \<Rightarrow> (inline_end + workflow_execution_state) \<times> 'a invoker_world_scheme"
where
  "inline_turn sv en wf_id s w =
     (case wf_step w en s of
        Inl x \<Rightarrow> (Inl (InlineRaised x), w)
      | Inr (s, out) \<Rightarrow>
          (let w = save_instance s w
           in case so_type out of
                OUT_COMPLETED \<Rightarrow> (Inl (InlineResult (final_message s) []), w)
              | OUT_FAILED \<Rightarrow>
                  (Inl (InlineResult (JStr (''Workflow failed: '' @
                     (case so_error out of Some (c # cs) \<Rightarrow> c # cs | _ \<Rightarrow> ''Unknown error''))) []), w)
              | OUT_WAITING_FOR_INPUT \<Rightarrow> (Inl (InlineRaised no_prompt), w)
              | OUT_LLM_CALL \<Rightarrow>
                  (case inline_llm sv en s out w of
                     (Inl x, w) \<Rightarrow> (Inl (InlineRaised x), w)
                   | (Inr s, w) \<Rightarrow> (Inr s, w))
              | OUT_TOOL_EXECUTE \<Rightarrow>
                  (case run_inline sv (so_config out) w of
                     (Some v, w) \<Rightarrow>
                       (let s = fst (resume_with_result w s (so_step_id out) v)
                        in (Inr s, save_instance s w))
                   | (None, w) \<Rightarrow>
                       (Inl (InlineResult (JStr ''Tool execution deferred.'')
                          [[newline, newline] @ ''[Workflow '' @ quoted wf_id @ '' reached tool_execute '' @
                           em_dash @ '' dispatch not available in tool context]'']), w))
              | OUT_SUB_WORKFLOW \<Rightarrow>
                  (case inline_sub en s out w of
                     (Inl x, w) \<Rightarrow> (Inl (InlineRaised x), w)
                   | (Inr s, w) \<Rightarrow> (Inr s, w))
              | _ \<Rightarrow> (Inr s, w)))"

fun inline_loop ::
  "nat \<Rightarrow> ('a invoker_world_scheme) services \<Rightarrow> workflow_engine \<Rightarrow> string
   \<Rightarrow> workflow_execution_state \<Rightarrow> 'a invoker_world_scheme \<Rightarrow> inline_end \<times> 'a invoker_world_scheme"
where
  "inline_loop 0 sv en wf_id s w =
     (InlineResult (JStr (''Workflow exceeded '' @ nat_digits WF_MAX_ITERATIONS @ '' iterations'')) [], w)"
| "inline_loop (Suc n) sv en wf_id s w =
     (case inline_turn sv en wf_id s w of
        (Inl r, w) \<Rightarrow> (r, w)
      | (Inr s, w) \<Rightarrow> inline_loop n sv en wf_id s w)"

text \<open>One directive: what it adds to the reply.\<close>

definition run_directive ::
  "('a invoker_world_scheme) services \<Rightarrow> workflow_engine \<Rightarrow> json pydict \<Rightarrow> string \<times> string
   \<Rightarrow> 'a invoker_world_scheme \<Rightarrow> string list result \<times> 'a invoker_world_scheme"
where
  "run_directive sv en wf_context = (\<lambda>(raw_id, raw_params) w.
     (let wf_id = strip_prefix raw_id;
          context = fold (\<lambda>(k, v) d. dict_set d k v) (parse_invoke_params w raw_params []) wf_context
      in case start_workflow en wf_id (Some context) w of
           (Inl exc, w) \<Rightarrow>
             (Inr [[newline, newline] @ ''[Workflow '' @ quoted wf_id @ '' not found: '' @
                exn_message exc @ '']''], w)
         | (Inr s, w) \<Rightarrow>
             (case inline_loop WF_MAX_ITERATIONS sv en wf_id s (save_instance s w) of
                (InlineRaised x, w) \<Rightarrow> (Inl x, w)
              | (InlineResult v parts, w) \<Rightarrow>
                  (Inr (parts @ [[newline, newline] @ ''---'' @ [newline] @ ''**Workflow '' @
                     quoted wf_id @ '' result:** '' @ py_str w v]), w))))"

fun run_directives ::
  "('a invoker_world_scheme) services \<Rightarrow> workflow_engine \<Rightarrow> json pydict \<Rightarrow> (string \<times> string) list
   \<Rightarrow> string list \<Rightarrow> 'a invoker_world_scheme \<Rightarrow> string list result \<times> 'a invoker_world_scheme"
where
  "run_directives sv en wf_context [] parts w = (Inr parts, w)"
| "run_directives sv en wf_context (d # ds) parts w =
     (case run_directive sv en wf_context d w of
        (Inl x, w) \<Rightarrow> (Inl x, w)
      | (Inr ps, w) \<Rightarrow> run_directives sv en wf_context ds (parts @ ps) w)"

definition handle_invoke_workflow ::
  "('a invoker_world_scheme) services \<Rightarrow> workflow_engine option \<Rightarrow> string \<Rightarrow> json pydict option
   \<Rightarrow> 'a invoker_world_scheme \<Rightarrow> string result \<times> 'a invoker_world_scheme"
where
  "handle_invoke_workflow sv engine reply wf_context w =
     (case engine of
        None \<Rightarrow> (Inr reply, w)
      | Some en \<Rightarrow>
          (case run_directives sv en (case wf_context of None \<Rightarrow> [] | Some c \<Rightarrow> c)
              (find_directives True reply) [reply] w of
             (Inl x, w) \<Rightarrow> (Inl x, w)
           | (Inr parts, w) \<Rightarrow> (Inr (concat parts), w)))"

subsection \<open>What directives do\<close>

definition plain_id :: "string \<Rightarrow> bool" where
  "plain_id i \<longleftrightarrow> i \<noteq> [] \<and> list_all (\<lambda>c. \<not> py_space c) i"

lemma takeWhile_plain: "list_all (\<lambda>c. \<not> py_space c) i \<Longrightarrow> takeWhile (\<lambda>c. \<not> py_space c) (i @ newline # r) = i"
  by (induction i) (auto simp: newline_def py_space_def)

lemma dropWhile_plain:
  "list_all (\<lambda>c. \<not> py_space c) i \<Longrightarrow> dropWhile (\<lambda>c. \<not> py_space c) (i @ newline # r) = newline # r"
  by (induction i) (auto simp: newline_def py_space_def)

lemma newline_space: "py_space newline" "py_space CHR '' ''" "\<not> py_space CHR ''/''"
  by (simp_all add: newline_def py_space_def)

lemma no_newline:
  assumes "list_all (\<lambda>c. \<not> py_space c) i"
  shows "takeWhile (\<lambda>c. c \<noteq> newline) i = i" "dropWhile (\<lambda>c. c \<noteq> newline) i = []"
proof -
  have "\<forall>c \<in> set i. c \<noteq> newline" using assms newline_space(1) by (auto simp: list_all_iff)
  then show "takeWhile (\<lambda>c. c \<noteq> newline) i = i" "dropWhile (\<lambda>c. c \<noteq> newline) i = []"
    by (simp_all add: takeWhile_eq_all_conv dropWhile_eq_Nil_conv)
qed

lemma find_directives_found:
  assumes "directive_at s = Some (i, p, rest)"
  shows "find_directives True s = (i, p) # find_directives False rest"
proof -
  have "directive_at [] = None" by (simp add: directive_at_def directive_word_def)
  with assms have "s \<noteq> []" by auto
  with assms show ?thesis
    by (cases s) (simp_all add: find_directives.simps [of True])
qed

lemma find_directives_Nil: "find_directives b [] = []"
  by (simp add: find_directives.simps)

lemma directive_at_word:
  "directive_at (directive_word @ r) =
     (let after = dropWhile py_space r;
          wf_id = takeWhile (\<lambda>c. \<not> py_space c) after;
          params = dropWhile py_space (dropWhile (\<lambda>c. \<not> py_space c) after)
      in if takeWhile py_space r \<noteq> [] \<and> wf_id \<noteq> []
         then Some (wf_id, takeWhile (\<lambda>c. c \<noteq> newline) params,
                dropWhile (\<lambda>c. c \<noteq> newline) params)
         else None)"
  by (simp add: directive_at_def Let_def)

text \<open>of two directives on consecutive lines, the first without parameters, only the first is
  seen: the white space before its parameters runs over the line break, and the second directive
  becomes the parameters of the first.\<close>

lemma adjacent_directive_swallowed:
  assumes "plain_id a" "plain_id b"
  shows "find_directives True
      (directive_word @ '' '' @ a @ [newline] @ directive_word @ '' '' @ b) =
    [(a, directive_word @ '' '' @ b)]"
proof -
  let ?tail = "directive_word @ '' '' @ b"
  let ?s = "directive_word @ '' '' @ a @ [newline] @ ?tail"
  obtain c cs where a: "a = c # cs" "\<not> py_space c"
    using assms(1) by (cases a) (auto simp: plain_id_def)
  have after: "dropWhile py_space ('' '' @ a @ [newline] @ ?tail) = a @ newline # ?tail"
    using a by (simp add: newline_space)
  obtain t where head: "?tail = CHR ''/'' # t" by (simp add: directive_word_def)
  have tail: "dropWhile py_space (newline # ?tail) = ?tail"
    unfolding head by (simp add: newline_space)
  have line: "takeWhile (\<lambda>c. c \<noteq> newline) ?tail = ?tail" "dropWhile (\<lambda>c. c \<noteq> newline) ?tail = []"
    using assms(2) no_newline [of b]
    by (simp_all add: plain_id_def directive_word_def newline_def)
  have plain: "list_all (\<lambda>c. \<not> py_space c) a" "a \<noteq> []" using assms(1) by (simp_all add: plain_id_def)
  have ws: "takeWhile py_space ('' '' @ a @ [newline] @ ?tail) \<noteq> []" by (simp add: newline_space)
  have "directive_at ?s = Some (a, ?tail, [])"
    unfolding directive_at_word Let_def after takeWhile_plain [OF plain(1)]
      dropWhile_plain [OF plain(1)] tail line
    using ws plain(2) by simp
  from find_directives_found [OF this] show ?thesis by (simp add: find_directives_Nil)
qed

lemma adjacent_directive_swallowed_example:
  "find_directives True (directive_word @ '' '' @ ''a'' @ [newline] @ directive_word @ '' '' @ ''b'') =
     [(''a'', directive_word @ '' '' @ ''b'')]"
  by (rule adjacent_directive_swallowed) (simp_all add: plain_id_def py_space_def)

text \<open>The execution is at a user-input step of its workflow.\<close>

definition at_input :: "workflow_engine \<Rightarrow> workflow_execution_state \<Rightarrow> bool" where
  "at_input en s \<longleftrightarrow> \<not> wf_terminal (wx_status s) \<and>
     (case wx_current_step_id s of
        None \<Rightarrow> False
      | Some sid \<Rightarrow>
          (case registry_get (en_registry en) (wx_workflow_id s) of
             None \<Rightarrow> False
           | Some d \<Rightarrow>
               (case dict_get (wd_steps d) sid of
                  None \<Rightarrow> False
                | Some step \<Rightarrow> ws_step_type step = ''user_input'')))"

text \<open>One of the next \<open>n\<close> iterations is at a user-input step, of this workflow or of one it calls.\<close>

fun asks ::
  "nat \<Rightarrow> ('a invoker_world_scheme) services \<Rightarrow> workflow_engine \<Rightarrow> string
   \<Rightarrow> workflow_execution_state \<Rightarrow> 'a invoker_world_scheme \<Rightarrow> bool"
where
  "asks 0 sv en wf_id s w = False"
| "asks (Suc n) sv en wf_id s w \<longleftrightarrow> at_input en s \<or>
     (case inline_turn sv en wf_id s w of
        (Inl _, w) \<Rightarrow> False
      | (Inr s, w) \<Rightarrow> asks n sv en wf_id s w)"

definition directive_asks ::
  "('a invoker_world_scheme) services \<Rightarrow> workflow_engine \<Rightarrow> json pydict \<Rightarrow> string \<times> string
   \<Rightarrow> 'a invoker_world_scheme \<Rightarrow> bool"
where
  "directive_asks sv en wf_context = (\<lambda>(raw_id, raw_params) w.
     (case start_workflow en (strip_prefix raw_id)
         (Some (fold (\<lambda>(k, v) d. dict_set d k v) (parse_invoke_params w raw_params []) wf_context)) w of
        (Inl _, w) \<Rightarrow> False
      | (Inr s, w) \<Rightarrow> asks WF_MAX_ITERATIONS sv en (strip_prefix raw_id) s (save_instance s w)))"

lemma input_turn:
  assumes "at_input en s"
  shows "fst (inline_turn sv en wf_id s w) = Inl (InlineRaised no_prompt)"
proof -
  from assms obtain sid d step where s: "\<not> wf_terminal (wx_status s)" "wx_current_step_id s = Some sid"
    "registry_get (en_registry en) (wx_workflow_id s) = Some d" "dict_get (wd_steps d) sid = Some step"
    "ws_step_type step = ''user_input''"
    by (auto simp: at_input_def split: option.splits)
  from wf_step_at [OF s(1-4), of w] s(5) have "wf_step w en s = Inr (handle_user_input s step)" by simp
  moreover have "so_type (snd (handle_user_input s step)) = OUT_WAITING_FOR_INPUT"
    by (simp add: handle_user_input_def Let_def new_outcome_def)
  ultimately show ?thesis by (cases "handle_user_input s step") (simp add: inline_turn_def Let_def)
qed

lemma asking_loop_raises:
  "asks n sv en wf_id s w \<Longrightarrow> fst (inline_loop n sv en wf_id s w) = InlineRaised no_prompt"
proof (induction n arbitrary: s w)
  case 0
  then show ?case by simp
next
  case (Suc n)
  show ?case
  proof (cases "at_input en s")
    case True
    from input_turn [OF this, of sv wf_id w] show ?thesis
      by (cases "inline_turn sv en wf_id s w") simp
  next
    case False
    with Suc show ?thesis
      by (auto split: prod.splits sum.splits)
  qed
qed

lemma asking_directive_raises:
  assumes "directive_asks sv en c d w"
  shows "fst (run_directive sv en c d w) = Inl no_prompt"
proof -
  obtain i params where d: "d = (i, params)" by (cases d)
  let ?ctx = "fold (\<lambda>(k, v) d. dict_set d k v) (parse_invoke_params w params []) c"
  from assms obtain s w' where s: "start_workflow en (strip_prefix i) (Some ?ctx) w = (Inr s, w')"
    "asks WF_MAX_ITERATIONS sv en (strip_prefix i) s (save_instance s w')"
    by (auto simp: directive_asks_def d split: prod.splits sum.splits)
  from asking_loop_raises [OF s(2)] s(1) show ?thesis
    by (cases "inline_loop WF_MAX_ITERATIONS sv en (strip_prefix i) s (save_instance s w')")
      (simp add: run_directive_def d)
qed

lemma run_directives_append:
  "run_directives sv en c (ds @ ds') parts w =
     (case run_directives sv en c ds parts w of
        (Inl x, w) \<Rightarrow> (Inl x, w)
      | (Inr parts, w) \<Rightarrow> run_directives sv en c ds' parts w)"
  by (induction ds arbitrary: parts w) (auto split: prod.splits sum.splits)

text \<open>C23: a directive whose workflow asks the user raises.  Whichever directive of a reply it is, as
  soon as its loop gets to a user-input step, at the start or later, in the workflow named or in a
  sub-workflow, it reads \<^verbatim>\<open>outcome.prompt\<close>, which no outcome has: the reply, with what the directives
  before it added, is lost with an \<open>AttributeError\<close> instead of a request for input.\<close>

theorem directive_input_raises:
  assumes "find_directives True reply = before @ d # after"
    and "run_directives sv en (case ctx of None \<Rightarrow> [] | Some c \<Rightarrow> c) before [reply] w = (Inr parts, w')"
    and "directive_asks sv en (case ctx of None \<Rightarrow> [] | Some c \<Rightarrow> c) d w'"
  shows "fst (handle_invoke_workflow sv (Some en) reply ctx w) = Inl no_prompt"
proof -
  let ?c = "case ctx of None \<Rightarrow> [] | Some c \<Rightarrow> c"
  obtain w'' where "run_directive sv en ?c d w' = (Inl no_prompt, w'')"
    using asking_directive_raises [OF assms(3)] by (cases "run_directive sv en ?c d w'") simp
  with assms(1,2) show ?thesis
    by (simp add: handle_invoke_workflow_def run_directives_append)
qed

lemma one_directive: "find_directives True (directive_word @ '' w'') = [(''w'', [])]"
proof -
  have "directive_at (directive_word @ '' w'') = Some (''w'', [], [])"
    unfolding directive_at_word by (simp add: Let_def py_space_def)
  from find_directives_found [OF this] show ?thesis by (simp add: find_directives_Nil)
qed

text \<open>A workflow that runs a tool before it asks.\<close>

definition run_and_ask :: workflow_definition where
  "run_and_ask = demo_definition
     [(''run'', demo_step ''run'' ''tool_execute'' [(''on_success'', ''ask'')]),
      (''ask'', demo_step ''ask'' ''user_input'' [(''on_success'', END_TARGET)])] ''run''"

theorem directive_input_raises_witness:
  "fst (handle_invoke_workflow demo_services (Some (demo_engine run_and_ask)) (directive_word @ '' w'')
     None demo_invoker_world) = Inl no_prompt"
proof (rule directive_input_raises)
  show "find_directives True (directive_word @ '' w'') = [] @ (''w'', []) # []"
    by (simp add: one_directive)
  show "run_directives demo_services (demo_engine run_and_ask) (case None of None \<Rightarrow> [] | Some c \<Rightarrow> c) []
      [directive_word @ '' w''] demo_invoker_world = (Inr [directive_word @ '' w''], demo_invoker_world)"
    by simp
  show "directive_asks demo_services (demo_engine run_and_ask) (case None of None \<Rightarrow> [] | Some c \<Rightarrow> c)
      (''w'', []) demo_invoker_world"
    by code_simp
qed

end
