(* ===== verification/MemoryTypes.thy ===== *)
theory MemoryTypes
  imports Prelude "HOL-Library.Char_ord" "HOL-Library.List_Lexorder"
    "HOL-Library.Product_Lexorder" "HOL-Library.Multiset"
begin

text \<open>
  The value types of the agent memory (\<^verbatim>\<open>agent/memory/types\<close>): canonical JSON and its hash,
  subgoals and their two lifecycle engines, plan segments, behavioural signals.
  \<^item> \<open>payload\<close> is the value of a field annotated \<open>Dict[str, Any]\<close>, whose entries are any Python
    values.  \<open>json.dumps\<close> takes more of them (tuples, dicts under numbers) than \<open>to_canonical\<close>, so a
    field may pass the purity check and still not be hashed;
  \<^item> the other fields that are hashed hold strings, numbers and lists of JSON values, on which
    \<open>stable_hash\<close> cannot raise: there it is \<open>json_hash\<close>, as lemma \<open>stable_hash_json\<close> shows;
  \<^item> \<open>sha256\<close> over the dumped canonical value is the parameter \<open>me_digest\<close>, and
    \<open>datetime.fromisoformat\<close>, UTC for a time without zone, then \<open>isoformat\<close> the parameter \<open>me_iso\<close>: their results are
    opaque to the program;
  \<^item> a frozen dataclass with a computed field is a record without it, and the field a function.
\<close>

record mem_env = env +
  me_digest :: "json \<Rightarrow> string"
  me_iso :: "string \<Rightarrow> string option"

subsection \<open>JSON purity, canonical values, hashes\<close>

text \<open>
  A Python value, as far as \<open>json.dumps\<close> and \<open>to_canonical\<close> tell values apart.  \<open>PyOddDict\<close> is a dict
  with a key that is not a string and \<open>PyOther\<close> a value of any other type; both carry the text of
  the error \<open>json.dumps\<close> raises on them, None when it prints them.  The second argument of
  \<open>PyOddDict\<close> is the text of the \<open>TypeError\<close> that the sorting of such keys or the check of the first
  one raises, that of \<open>PyOther\<close> the name of the type.
\<close>

datatype pyvalue =
    PyNull
  | PyBool bool
  | PyInt int
  | PyNum rat
  | PyStr string
  | PyList "pyvalue list"
  | PyDict "(string \<times> pyvalue) list"
  | PyOddDict "string option" string
  | PyOther "string option" string

datatype payload = Fields "pyvalue pydict" | OddKeys "string option" string

fun payload_value :: "payload \<Rightarrow> pyvalue" where
  "payload_value (Fields kvs) = PyDict kvs"
| "payload_value (OddKeys err msg) = PyOddDict err msg"

text \<open>The error \<open>json.dumps\<close> stops at, if it does.\<close>

fun first_text :: "string option list \<Rightarrow> string option" where
  "first_text [] = None"
| "first_text (None # es) = first_text es"
| "first_text (Some e # _) = Some e"

fun dumps_error :: "pyvalue \<Rightarrow> string option" where
  "dumps_error (PyList vs) = first_text (map dumps_error vs)"
| "dumps_error (PyDict kvs) = first_text (map (\<lambda>(_, v). dumps_error v) kvs)"
| "dumps_error (PyOddDict err _) = err"
| "dumps_error (PyOther err _) = err"
| "dumps_error _ = None"

definition ensure_json_pure :: "payload \<Rightarrow> unit result" where
  "ensure_json_pure p =
     (case dumps_error (payload_value p) of
        None \<Rightarrow> Inr ()
      | Some err \<Rightarrow> Inl (TypeError (''Value is not JSON-serializable: '' @ err)))"

text \<open>A loop that evaluates each item and stops at the first exception.\<close>

fun traverse :: "('a \<Rightarrow> 'b result) \<Rightarrow> 'a list \<Rightarrow> 'b list result" where
  "traverse f [] = Inr []"
| "traverse f (x # xs) =
     (case f x of
        Inl e \<Rightarrow> Inl e
      | Inr y \<Rightarrow> (case traverse f xs of Inl e \<Rightarrow> Inl e | Inr ys \<Rightarrow> Inr (y # ys)))"

lemma traverse_cong [fundef_cong]:
  "xs = ys \<Longrightarrow> (\<And>x. x \<in> set ys \<Longrightarrow> f x = g x) \<Longrightarrow> traverse f xs = traverse g ys"
  by (induction ys arbitrary: xs) (auto split: sum.split)

text \<open>The hyphen of the messages of \<^verbatim>\<open>canonical.py\<close>, U+2011, in UTF-8.\<close>

definition nb_hyphen :: string where
  "nb_hyphen = [CHR 0xE2, CHR 0x80, CHR 0x91]"

function (sequential) to_canonical :: "pyvalue \<Rightarrow> json result" where
  "to_canonical PyNull = Inr JNull"
| "to_canonical (PyBool b) = Inr (JBool b)"
| "to_canonical (PyInt i) = Inr (JInt i)"
| "to_canonical (PyNum q) = Inr (JNum q)"
| "to_canonical (PyStr s) = Inr (JStr s)"
| "to_canonical (PyList vs) =
     (case traverse to_canonical vs of Inl x \<Rightarrow> Inl x | Inr ws \<Rightarrow> Inr (JList ws))"
| "to_canonical (PyDict kvs) =
     (case traverse (\<lambda>kv. case to_canonical (snd kv) of Inl x \<Rightarrow> Inl x | Inr w \<Rightarrow> Inr (fst kv, w))
             (sort_key fst kvs) of
        Inl x \<Rightarrow> Inl x
      | Inr items \<Rightarrow> Inr (JObj items))"
| "to_canonical (PyOddDict _ msg) = Inl (TypeError msg)"
| "to_canonical (PyOther _ name) =
     Inl (TypeError (''Non'' @ nb_hyphen @ ''canonical type: '' @ name))"
  by pat_completeness auto

termination
proof (relation "measure size")
  fix kvs :: "(string \<times> pyvalue) list" and kv
  assume "kv \<in> set (sort_key fst kvs)"
  then have "kv \<in> set kvs" by simp
  then have "size_prod (\<lambda>_. 0) size kv \<le> size_list (size_prod (\<lambda>_. 0) size) kvs"
    by (rule size_list_estimation') simp
  then show "(snd kv, PyDict kvs) \<in> measure size" by (cases kv) simp
qed (auto dest!: size_list_estimation' [where f = size, OF _ order_refl])

definition stable_hash :: "'a mem_env_scheme \<Rightarrow> pyvalue \<Rightarrow> string result" where
  "stable_hash e v =
     (case to_canonical v of Inl x \<Rightarrow> Inl x | Inr c \<Rightarrow> Inr (me_digest e c))"

text \<open>JSON values among the Python values, and the canonical form and hash they have.\<close>

fun py_of :: "json \<Rightarrow> pyvalue" where
  "py_of JNull = PyNull"
| "py_of (JBool b) = PyBool b"
| "py_of (JInt i) = PyInt i"
| "py_of (JNum q) = PyNum q"
| "py_of (JStr s) = PyStr s"
| "py_of (JList vs) = PyList (map py_of vs)"
| "py_of (JObj kvs) = PyDict (map (\<lambda>(k, v). (k, py_of v)) kvs)"

fun canonical_json :: "json \<Rightarrow> json" where
  "canonical_json (JList vs) = JList (map canonical_json vs)"
| "canonical_json (JObj kvs) = JObj (sort_key fst (map (\<lambda>(k, v). (k, canonical_json v)) kvs))"
| "canonical_json v = v"

definition json_hash :: "'a mem_env_scheme \<Rightarrow> json \<Rightarrow> string" where
  "json_hash e v = me_digest e (canonical_json v)"

definition opt_str :: "string option \<Rightarrow> json" where
  "opt_str s = (case s of None \<Rightarrow> JNull | Some t \<Rightarrow> JStr t)"

text \<open>Milliseconds since the epoch, \<open>int(time.time() * 1000)\<close>.\<close>

definition now_ms :: "'a env_scheme \<Rightarrow> int \<times> 'a env_scheme" where
  "now_ms e = (e_clock e (e_tick e) div 1000, e\<lparr>e_tick := Suc (e_tick e)\<rparr>)"

subsection \<open>Subgoals\<close>

datatype subgoal_state =
    SG_PENDING | SG_ACTIVE | SG_SATISFIED | SG_ABANDONED | SG_CLOSED
  | SG_CREATED | SG_VALIDATED | SG_READY | SG_RUNNING | SG_SUCCESS | SG_FAILED | SG_BLOCKED
  | SG_RETRYING

fun sg_state_value :: "subgoal_state \<Rightarrow> string" where
  "sg_state_value SG_PENDING = ''pending''"
| "sg_state_value SG_ACTIVE = ''active''"
| "sg_state_value SG_SATISFIED = ''satisfied''"
| "sg_state_value SG_ABANDONED = ''abandoned''"
| "sg_state_value SG_CLOSED = ''closed''"
| "sg_state_value SG_CREATED = ''created''"
| "sg_state_value SG_VALIDATED = ''validated''"
| "sg_state_value SG_READY = ''ready''"
| "sg_state_value SG_RUNNING = ''running''"
| "sg_state_value SG_SUCCESS = ''success''"
| "sg_state_value SG_FAILED = ''failed''"
| "sg_state_value SG_BLOCKED = ''blocked''"
| "sg_state_value SG_RETRYING = ''retrying''"

definition subgoal_states :: "subgoal_state list" where
  "subgoal_states =
     [SG_PENDING, SG_ACTIVE, SG_SATISFIED, SG_ABANDONED, SG_CLOSED, SG_CREATED, SG_VALIDATED,
      SG_READY, SG_RUNNING, SG_SUCCESS, SG_FAILED, SG_BLOCKED, SG_RETRYING]"

text \<open>\<open>SubgoalLifecycleState(v)\<close>.\<close>

definition subgoal_state_of :: "string \<Rightarrow> subgoal_state result" where
  "subgoal_state_of v =
     (case find (\<lambda>s. sg_state_value s = v) subgoal_states of
        Some s \<Rightarrow> Inr s
      | None \<Rightarrow> Inl (ValueError (quoted v @ '' is not a valid SubgoalLifecycleState'')))"

record sub_goal =
  sg_subgoal_id :: string
  sg_goal :: string
  sg_context :: payload
  sg_metadata :: payload
  sg_parent_id :: "string option"
  sg_state :: subgoal_state
  sg_created_at :: int

definition subgoal_value :: "sub_goal \<Rightarrow> pyvalue" where
  "subgoal_value s =
     PyDict
       [(''subgoal_id'', PyStr (sg_subgoal_id s)), (''goal'', PyStr (sg_goal s)),
        (''context'', payload_value (sg_context s)), (''metadata'', payload_value (sg_metadata s)),
        (''parent_id'', py_of (opt_str (sg_parent_id s))),
        (''state'', PyStr (sg_state_value (sg_state s)))]"

definition subgoal_canonical_hash :: "'a mem_env_scheme \<Rightarrow> sub_goal \<Rightarrow> string result" where
  "subgoal_canonical_hash e s = stable_hash e (subgoal_value s)"

text \<open>
  The constructor, with its \<open>__post_init__\<close>: the purity checks, then the hash, which raises what
  bringing the fields into canonical form raises.
\<close>

definition mk_subgoal ::
  "string \<Rightarrow> string \<Rightarrow> payload \<Rightarrow> payload \<Rightarrow> string option \<Rightarrow> subgoal_state \<Rightarrow> int \<Rightarrow> sub_goal result"
where
  "mk_subgoal sid goal ctx meta parent st created =
     (case ensure_json_pure ctx of
        Inl x \<Rightarrow> Inl x
      | Inr _ \<Rightarrow>
          (case ensure_json_pure meta of
             Inl x \<Rightarrow> Inl x
           | Inr _ \<Rightarrow>
               (let s = \<lparr>sg_subgoal_id = sid, sg_goal = goal, sg_context = ctx, sg_metadata = meta,
                         sg_parent_id = parent, sg_state = st, sg_created_at = created\<rparr>
                in case to_canonical (subgoal_value s) of
                     Inl x \<Rightarrow> Inl x
                   | Inr _ \<Rightarrow> Inr s)))"

definition subgoal_new ::
  "string \<Rightarrow> payload \<Rightarrow> payload \<Rightarrow> string option \<Rightarrow> 'a mem_env_scheme
   \<Rightarrow> sub_goal result \<times> 'a mem_env_scheme"
where
  "subgoal_new goal ctx meta parent e =
     (case ensure_json_pure ctx of
        Inl x \<Rightarrow> (Inl x, e)
      | Inr _ \<Rightarrow>
          (case ensure_json_pure meta of
             Inl x \<Rightarrow> (Inl x, e)
           | Inr _ \<Rightarrow>
               (let (ts, e) = now_ms e
                in case stable_hash e (PyDict
                      [(''goal'', PyStr goal), (''context'', payload_value ctx),
                       (''metadata'', payload_value meta), (''parent_id'', py_of (opt_str parent)),
                       (''ts'', PyInt ts)]) of
                     Inl x \<Rightarrow> (Inl x, e)
                   | Inr sid \<Rightarrow>
                       (let (created, e) = now_ms e
                        in (mk_subgoal sid goal ctx meta parent SG_PENDING created, e)))))"

definition with_state :: "sub_goal \<Rightarrow> subgoal_state \<Rightarrow> sub_goal" where
  "with_state s st = s\<lparr>sg_state := st\<rparr>"

subsection \<open>The lifecycle engines\<close>

datatype subgoal_event =
  EV_VALIDATE | EV_ACTIVATE | EV_START | EV_SUCCEED | EV_FAIL | EV_BLOCK | EV_UNBLOCK | EV_RETRY
  | EV_RESUME

definition ALLOWED_TRANSITIONS :: "((subgoal_state \<times> subgoal_state) \<times> string) list" where
  "ALLOWED_TRANSITIONS =
     [((SG_CREATED, SG_VALIDATED), ''Subgoal passed validation''),
      ((SG_VALIDATED, SG_READY), ''Subgoal is ready to run''),
      ((SG_READY, SG_RUNNING), ''Subgoal execution started''),
      ((SG_RUNNING, SG_SUCCESS), ''Subgoal completed successfully''),
      ((SG_RUNNING, SG_FAILED), ''Subgoal execution failed''),
      ((SG_RUNNING, SG_BLOCKED), ''Subgoal is blocked''),
      ((SG_BLOCKED, SG_READY), ''Subgoal unblocked, returning to ready''),
      ((SG_FAILED, SG_RETRYING), ''Subgoal scheduled for retry''),
      ((SG_RETRYING, SG_RUNNING), ''Subgoal retry execution started'')]"

definition EVENT_TRANSITIONS :: "((subgoal_state \<times> subgoal_event) \<times> subgoal_state) list" where
  "EVENT_TRANSITIONS =
     [((SG_CREATED, EV_VALIDATE), SG_VALIDATED),
      ((SG_VALIDATED, EV_ACTIVATE), SG_READY),
      ((SG_READY, EV_START), SG_RUNNING),
      ((SG_RUNNING, EV_SUCCEED), SG_SUCCESS),
      ((SG_RUNNING, EV_FAIL), SG_FAILED),
      ((SG_RUNNING, EV_BLOCK), SG_BLOCKED),
      ((SG_BLOCKED, EV_UNBLOCK), SG_READY),
      ((SG_FAILED, EV_RETRY), SG_RETRYING),
      ((SG_RETRYING, EV_RESUME), SG_RUNNING)]"

definition is_allowed :: "subgoal_state \<Rightarrow> subgoal_state \<Rightarrow> bool" where
  "is_allowed from_state to_state \<longleftrightarrow> map_of ALLOWED_TRANSITIONS (from_state, to_state) \<noteq> None"

definition IllegalSubgoalTransitionError :: "string \<Rightarrow> pyexn" where
  "IllegalSubgoalTransitionError msg =
     PyExn ''src.agent.memory.types.subgoal_errors'' ''IllegalSubgoalTransitionError'' msg"

definition assert_allowed :: "subgoal_state \<Rightarrow> subgoal_state \<Rightarrow> unit result" where
  "assert_allowed from_state to_state =
     (if is_allowed from_state to_state then Inr ()
      else Inl (IllegalSubgoalTransitionError (''Transition '' @ quoted (sg_state_value from_state) @
        '' '' @ arrow @ '' '' @ quoted (sg_state_value to_state) @ '' is not allowed'')))"

fun event_value :: "subgoal_event \<Rightarrow> string" where
  "event_value EV_VALIDATE = ''validate''"
| "event_value EV_ACTIVATE = ''activate''"
| "event_value EV_START = ''start''"
| "event_value EV_SUCCEED = ''succeed''"
| "event_value EV_FAIL = ''fail''"
| "event_value EV_BLOCK = ''block''"
| "event_value EV_UNBLOCK = ''unblock''"
| "event_value EV_RETRY = ''retry''"
| "event_value EV_RESUME = ''resume''"

definition next_state :: "subgoal_state \<Rightarrow> subgoal_event \<Rightarrow> subgoal_state result" where
  "next_state current event =
     (case map_of EVENT_TRANSITIONS (current, event) of
        Some st \<Rightarrow> Inr st
      | None \<Rightarrow> Inl (IllegalSubgoalTransitionError (''No transition from '' @
          quoted (sg_state_value current) @ '' on event '' @ quoted (event_value event))))"

text \<open>\<open>LifecycleTransitionEngine\<close>.\<close>

definition LEGAL_TRANSITIONS :: "(subgoal_state \<times> subgoal_state list) list" where
  "LEGAL_TRANSITIONS =
     [(SG_PENDING, [SG_ACTIVE]),
      (SG_ACTIVE, [SG_SATISFIED, SG_FAILED, SG_ABANDONED]),
      (SG_SATISFIED, [SG_CLOSED]),
      (SG_FAILED, [SG_CLOSED]),
      (SG_ABANDONED, [SG_CLOSED]),
      (SG_CLOSED, [])]"

definition is_legal :: "subgoal_state \<Rightarrow> subgoal_state \<Rightarrow> bool" where
  "is_legal current new =
     (case map_of LEGAL_TRANSITIONS current of None \<Rightarrow> False | Some allowed \<Rightarrow> new \<in> set allowed)"

definition legal_transitions :: "subgoal_state \<Rightarrow> subgoal_state list" where
  "legal_transitions current =
     (case map_of LEGAL_TRANSITIONS current of None \<Rightarrow> [] | Some allowed \<Rightarrow> allowed)"

subsection \<open>Plan segments and behavioural signals\<close>

record plan_segment =
  ps_subgoal_id :: string
  ps_steps :: "json list"
  ps_context :: payload
  ps_metadata :: payload
  ps_skills :: "string list"
  ps_created_at :: string

definition segment_id :: "'a mem_env_scheme \<Rightarrow> plan_segment \<Rightarrow> string" where
  "segment_id e s =
     json_hash e (JObj
       [(''subgoal_id'', JStr (ps_subgoal_id s)), (''steps'', JList (ps_steps s)),
        (''skills'', JList (map JStr (ps_skills s)))])"

definition segment_value :: "plan_segment \<Rightarrow> pyvalue" where
  "segment_value s =
     PyDict
       [(''subgoal_id'', PyStr (ps_subgoal_id s)), (''steps'', PyList (map py_of (ps_steps s))),
        (''skills'', PyList (map PyStr (ps_skills s))),
        (''context'', payload_value (ps_context s)),
        (''metadata'', payload_value (ps_metadata s))]"

definition segment_canonical_hash :: "'a mem_env_scheme \<Rightarrow> plan_segment \<Rightarrow> string result" where
  "segment_canonical_hash e s = stable_hash e (segment_value s)"

definition mk_plan_segment ::
  "string \<Rightarrow> json list \<Rightarrow> payload \<Rightarrow> payload \<Rightarrow> string list \<Rightarrow> string \<Rightarrow> plan_segment result"
where
  "mk_plan_segment sid steps ctx meta skills created =
     (case ensure_json_pure ctx of
        Inl x \<Rightarrow> Inl x
      | Inr _ \<Rightarrow>
          (case ensure_json_pure meta of
             Inl x \<Rightarrow> Inl x
           | Inr _ \<Rightarrow>
               (let s = \<lparr>ps_subgoal_id = sid, ps_steps = steps, ps_context = ctx, ps_metadata = meta,
                         ps_skills = skills, ps_created_at = created\<rparr>
                in case to_canonical (segment_value s) of
                     Inl x \<Rightarrow> Inl x
                   | Inr _ \<Rightarrow> Inr s)))"

datatype behavioural_signal_type =
  WRONG_CAPABILITY | WRONG_OUTPUT_SHAPE | WRONG_OUTPUT_SEMANTICS | UNEXPECTED_SIDE_EFFECT

fun signal_type_value :: "behavioural_signal_type \<Rightarrow> string" where
  "signal_type_value WRONG_CAPABILITY = ''wrong_capability''"
| "signal_type_value WRONG_OUTPUT_SHAPE = ''wrong_output_shape''"
| "signal_type_value WRONG_OUTPUT_SEMANTICS = ''wrong_output_semantics''"
| "signal_type_value UNEXPECTED_SIDE_EFFECT = ''unexpected_side_effect''"

record behavioural_signal =
  bs_signal_type :: behavioural_signal_type
  bs_segment_id :: string
  bs_subgoal_id :: string
  bs_details :: "json pydict"
  bs_timestamp :: string

subsection \<open>Lemmas\<close>

lemma sg_state_value_inj [simp]: "sg_state_value s = sg_state_value t \<longleftrightarrow> s = t"
  by (cases s; cases t) simp_all

lemma subgoal_state_of_value [simp]: "subgoal_state_of (sg_state_value s) = Inr s"
  by (cases s) (simp_all add: subgoal_state_of_def subgoal_states_def)

lemma subgoal_state_of_Inr: "subgoal_state_of v = Inr s \<Longrightarrow> v = sg_state_value s"
  by (auto simp: subgoal_state_of_def find_Some_iff split: option.splits)

text \<open>The event table has one event for every allowed transition, and no other.\<close>

lemma event_table_complete:
  "is_allowed s t \<longleftrightarrow> (\<exists>ev. next_state s ev = Inr t)"
proof
  show "is_allowed s t \<Longrightarrow> \<exists>ev. next_state s ev = Inr t"
    unfolding is_allowed_def ALLOWED_TRANSITIONS_def next_state_def EVENT_TRANSITIONS_def
    by (cases s; cases t) (simp_all; blast?)+
  show "\<exists>ev. next_state s ev = Inr t \<Longrightarrow> is_allowed s t"
    unfolding is_allowed_def ALLOWED_TRANSITIONS_def next_state_def EVENT_TRANSITIONS_def
    by (auto split: if_splits)
qed

text \<open>Every JSON value has a canonical form and a hash; it is the fields of other types that fail.\<close>

lemma traverse_map_Inr: "(\<And>x. x \<in> set xs \<Longrightarrow> f x = Inr (g x)) \<Longrightarrow> traverse f xs = Inr (map g xs)"
  by (induction xs) auto

lemma traverse_map: "traverse f (map g xs) = traverse (\<lambda>x. f (g x)) xs"
  by (induction xs) (auto split: sum.split)

lemma sort_fst_map: "sort_key fst (map (\<lambda>(k, v). (k, f v)) kvs) = map (\<lambda>(k, v). (k, f v)) (sort_key fst kvs)"
proof (rule properties_for_sort_key)
  show "mset (map (\<lambda>(k, v). (k, f v)) (sort_key fst kvs)) = mset (map (\<lambda>(k, v). (k, f v)) kvs)" by simp
  show "sorted (map fst (map (\<lambda>(k, v). (k, f v)) (sort_key fst kvs)))"
    using sorted_sort_key [of fst kvs] by (simp add: comp_def case_prod_unfold)
  fix k
  show "filter (\<lambda>y. fst k = fst y) (map (\<lambda>(k, v). (k, f v)) (sort_key fst kvs)) =
      filter (\<lambda>y. fst k = fst y) (map (\<lambda>(k, v). (k, f v)) kvs)"
    using sort_key_stable [of fst "fst k" kvs]
    by (simp add: filter_map comp_def case_prod_unfold eq_commute [of "fst k"])
qed

lemma fst_entry: "fst (case kv of (k, v) \<Rightarrow> (k, f v)) = fst kv"
  and snd_entry: "snd (case kv of (k, v) \<Rightarrow> (k, f v)) = f (snd kv)"
  by (simp_all add: case_prod_unfold)

lemma to_canonical_py_of [simp]: "to_canonical (py_of v) = Inr (canonical_json v)"
proof (induction v)
  case (JList vs)
  then have "traverse to_canonical (map py_of vs) = Inr (map canonical_json vs)"
    by (simp add: traverse_map traverse_map_Inr)
  then show ?case by simp
next
  case (JObj kvs)
  have "traverse (\<lambda>kv. case to_canonical (py_of (snd kv)) of Inl x \<Rightarrow> Inl x | Inr w \<Rightarrow> Inr (fst kv, w))
      (sort_key fst kvs) = Inr (map (\<lambda>(k, v). (k, canonical_json v)) (sort_key fst kvs))"
    using JObj by (intro traverse_map_Inr) (auto simp: case_prod_unfold)
  then show ?case
    by (simp only: py_of.simps to_canonical.simps sort_fst_map traverse_map canonical_json.simps
        fst_entry snd_entry sum.case)
qed simp_all

lemma stable_hash_json: "stable_hash e (py_of v) = Inr (json_hash e v)"
  by (simp add: stable_hash_def json_hash_def)

text \<open>\<open>has_canonical v\<close>: hashing \<open>v\<close> does not raise.  What has a canonical form is JSON pure.\<close>

definition has_canonical :: "pyvalue \<Rightarrow> bool" where
  "has_canonical v = (case to_canonical v of Inl _ \<Rightarrow> False | Inr _ \<Rightarrow> True)"

lemma has_canonical_iff: "has_canonical v \<longleftrightarrow> (\<exists>c. to_canonical v = Inr c)"
  by (auto simp: has_canonical_def split: sum.split)

definition json_pure :: "payload \<Rightarrow> bool" where
  "json_pure p \<longleftrightarrow> dumps_error (payload_value p) = None"

lemma ensure_pure [simp]: "json_pure p \<Longrightarrow> ensure_json_pure p = Inr ()"
  by (simp add: ensure_json_pure_def json_pure_def)

lemma traverse_Inr_iff: "(\<exists>ys. traverse f xs = Inr ys) \<longleftrightarrow> (\<forall>x \<in> set xs. \<exists>y. f x = Inr y)"
  by (induction xs) (auto split: sum.split)

lemma has_canonical_simps [simp]:
  "has_canonical (py_of v)"
  "has_canonical (PyStr s)"
  "has_canonical (PyList vs) \<longleftrightarrow> (\<forall>v \<in> set vs. has_canonical v)"
  "has_canonical (PyDict kvs) \<longleftrightarrow> (\<forall>kv \<in> set kvs. has_canonical (snd kv))"
  "\<not> has_canonical (PyOddDict err msg)"
  "\<not> has_canonical (PyOther err name)"
proof -
  show "has_canonical (PyList vs) \<longleftrightarrow> (\<forall>v \<in> set vs. has_canonical v)"
    using traverse_Inr_iff [of to_canonical vs]
    by (auto simp: has_canonical_iff split: sum.splits)
  let ?f = "\<lambda>kv. case to_canonical (snd kv) of Inl x \<Rightarrow> Inl x | Inr w \<Rightarrow> Inr (fst kv, w)"
  have "has_canonical (PyDict kvs) \<longleftrightarrow> (\<exists>ys. traverse ?f (sort_key fst kvs) = Inr ys)"
    by (auto simp: has_canonical_iff split: sum.splits)
  also have "\<dots> \<longleftrightarrow> (\<forall>kv \<in> set kvs. \<exists>y. ?f kv = Inr y)"
    using traverse_Inr_iff [of ?f "sort_key fst kvs"] by simp
  finally show "has_canonical (PyDict kvs) \<longleftrightarrow> (\<forall>kv \<in> set kvs. has_canonical (snd kv))"
    by (simp add: has_canonical_iff split: sum.split) (metis Inl_Inr_False sumE)
qed (auto simp: has_canonical_iff)

lemma first_text_None: "first_text es = None \<longleftrightarrow> set es \<subseteq> {None}"
  by (induction es rule: first_text.induct) auto

lemma canonical_dumps: "has_canonical v \<Longrightarrow> dumps_error v = None"
  by (induction v rule: dumps_error.induct) (auto simp: first_text_None)

abbreviation hashable :: "payload \<Rightarrow> bool" where
  "hashable p \<equiv> has_canonical (payload_value p)"

lemma hashable_pure: "hashable p \<Longrightarrow> json_pure p"
  by (simp add: json_pure_def canonical_dumps)

lemma traverse_Inl: "traverse f xs = Inl x \<Longrightarrow> \<exists>y \<in> set xs. f y = Inl x"
  by (induction xs) (auto split: sum.splits)

lemma to_canonical_raises: "to_canonical v = Inl x \<Longrightarrow> \<exists>msg. x = TypeError msg"
proof (induction v rule: to_canonical.induct)
  case (6 vs)
  from 6(2) obtain y where "y \<in> set vs" "to_canonical y = Inl x"
    by (auto split: sum.splits dest: traverse_Inl)
  with 6(1) show ?case by blast
next
  case (7 kvs)
  from 7(2) obtain kv where "kv \<in> set (sort_key fst kvs)" "to_canonical (snd kv) = Inl x"
    by (auto split: sum.splits dest!: traverse_Inl)
  with 7(1) show ?case by blast
qed auto

text \<open>What the constructors accept, and what they raise on the rest.\<close>

lemma value_canonical [simp]:
  "has_canonical (subgoal_value s) \<longleftrightarrow> hashable (sg_context s) \<and> hashable (sg_metadata s)"
  "has_canonical (segment_value g) \<longleftrightarrow> hashable (ps_context g) \<and> hashable (ps_metadata g)"
  by (simp_all add: subgoal_value_def segment_value_def)

lemma constructed:
  assumes "hashable ctx" "hashable meta"
  shows "mk_subgoal sid goal ctx meta parent st created =
      Inr \<lparr>sg_subgoal_id = sid, sg_goal = goal, sg_context = ctx, sg_metadata = meta,
           sg_parent_id = parent, sg_state = st, sg_created_at = created\<rparr>" (is "_ = Inr ?s")
    and "mk_plan_segment sid steps ctx meta skills at_time =
      Inr \<lparr>ps_subgoal_id = sid, ps_steps = steps, ps_context = ctx, ps_metadata = meta,
           ps_skills = skills, ps_created_at = at_time\<rparr>" (is "_ = Inr ?g")
proof -
  have e: "ensure_json_pure ctx = Inr ()" "ensure_json_pure meta = Inr ()"
    using assms by (simp_all add: hashable_pure)
  have "has_canonical (subgoal_value ?s)" "has_canonical (segment_value ?g)" using assms by simp_all
  then obtain c d where "to_canonical (subgoal_value ?s) = Inr c" "to_canonical (segment_value ?g) = Inr d"
    by (auto simp: has_canonical_iff)
  with e show "mk_subgoal sid goal ctx meta parent st created = Inr ?s"
    "mk_plan_segment sid steps ctx meta skills at_time = Inr ?g"
    by (simp_all add: mk_subgoal_def mk_plan_segment_def)
qed

lemma purity_raises: "ensure_json_pure p = Inl x \<Longrightarrow> \<exists>msg. x = TypeError msg"
  by (auto simp: ensure_json_pure_def split: option.splits)

lemma refused:
  assumes "\<not> (hashable ctx \<and> hashable meta)"
  shows "\<exists>msg. mk_subgoal sid goal ctx meta parent st created = Inl (TypeError msg)"
    and "\<exists>msg. mk_plan_segment sid steps ctx meta skills at_time = Inl (TypeError msg)"
proof -
  let ?s = "\<lparr>sg_subgoal_id = sid, sg_goal = goal, sg_context = ctx, sg_metadata = meta,
           sg_parent_id = parent, sg_state = st, sg_created_at = created\<rparr>"
  let ?g = "\<lparr>ps_subgoal_id = sid, ps_steps = steps, ps_context = ctx, ps_metadata = meta,
           ps_skills = skills, ps_created_at = at_time\<rparr>"
  have "\<not> has_canonical (subgoal_value ?s)" "\<not> has_canonical (segment_value ?g)" using assms by simp_all
  then obtain x y where "to_canonical (subgoal_value ?s) = Inl x" "to_canonical (segment_value ?g) = Inl y"
    by (metis has_canonical_iff sumE)
  then show "\<exists>msg. mk_subgoal sid goal ctx meta parent st created = Inl (TypeError msg)"
    "\<exists>msg. mk_plan_segment sid steps ctx meta skills at_time = Inl (TypeError msg)"
    by (auto simp: mk_subgoal_def mk_plan_segment_def
        dest!: to_canonical_raises dest: purity_raises split: sum.split)
qed

text \<open>
  Two JSON values are the same to Python's \<open>==\<close> when they differ in the order of dict keys only,
  at any depth.  The canonical form is the same for both, so the hash is.
\<close>

inductive same_json :: "json \<Rightarrow> json \<Rightarrow> bool" where
  same_scalar: "same_json v v"
| same_list: "list_all2 same_json vs ws \<Longrightarrow> same_json (JList vs) (JList ws)"
| same_obj:
    "list_all2 (\<lambda>a b. fst a = fst b \<and> same_json (snd a) (snd b)) kvs us \<Longrightarrow> dict_ok us \<Longrightarrow>
     mset us = mset kvs' \<Longrightarrow> same_json (JObj kvs) (JObj kvs')"

lemma sort_fst_perm:
  assumes "dict_ok us" "mset us = mset (us' :: (string \<times> 'a) list)"
  shows "sort_key fst us = sort_key fst us'"
proof (rule sort_key_inj_key_eq [symmetric])
  show "mset us' = mset (sort_key fst us)" using assms by simp
  show "inj_on fst (set us')" using assms by (metis distinct_map mset_eq_setD)
qed simp

lemma same_json_canonical: "same_json v w \<Longrightarrow> canonical_json v = canonical_json w"
proof (induction rule: same_json.induct)
  case (same_list vs ws)
  then have "map canonical_json vs = map canonical_json ws"
    by (simp add: list_all2_conv_all_nth list_eq_iff_nth_eq)
  then show ?case by simp
next
  case (same_obj kvs us kvs')
  let ?c = "map (\<lambda>(k, v). (k, canonical_json v)) :: (string \<times> json) list \<Rightarrow> (string \<times> json) list"
  have "?c kvs = ?c us"
    using same_obj.IH
    by (auto simp: list_all2_conv_all_nth list_eq_iff_nth_eq split: prod.splits)
  moreover have "sort_key fst (?c us) = sort_key fst (?c kvs')"
  proof (rule sort_fst_perm)
    show "dict_ok (?c us)" using same_obj.hyps(1) by (simp add: case_prod_unfold comp_def)
    show "mset (?c us) = mset (?c kvs')" using same_obj.hyps(2) by simp
  qed
  ultimately show ?case by simp
qed simp

lemma same_json_hash: "same_json v w \<Longrightarrow> json_hash e v = json_hash e w"
  by (simp add: json_hash_def same_json_canonical)

end

