(* ===== verification/MemoryStores.thy ===== *)
theory MemoryStores
  imports MemoryTypes Stores
begin

text \<open>
  The four stores of the agent memory: \<^verbatim>\<open>subgoal_memory.py\<close>, \<^verbatim>\<open>segment_memory.py\<close>,
  \<^verbatim>\<open>plan_memory.py\<close> (dicts of records under their ids) and \<^verbatim>\<open>drift_memory.py\<close> (a ring buffer),
  with the record types of the \<^verbatim>\<open>_types.py\<close> files.  A store is an ordered dict; \<open>deepcopy\<close> is the
  identity on values.  The locale \<open>snapshot_store\<close> is what a client may expect of taking a
  snapshot and loading it again; \<open>norm\<close> is what a snapshot does to a record, the identity except
  for segments, whose snapshot goes through \<open>dataclasses.asdict\<close>.
\<close>

subsection \<open>Records\<close>

record subgoal_record =
  sr_subgoal_id :: string
  sr_parent_id :: "string option"
  sr_state :: string
  sr_goal :: string
  sr_context :: payload
  sr_metadata :: payload
  sr_created_at :: int

text \<open>An entry of \<open>behavioural_signals\<close>: a signal, or the dict \<open>asdict\<close> made of one.\<close>

datatype signal_entry = Signal behavioural_signal | SignalDict "json pydict"

record segment_record =
  gr_segment_id :: string
  gr_parent_id :: "string option"
  gr_subgoal_id :: string
  gr_state :: "string option"
  gr_content :: "json list"
  gr_created_at :: string
  gr_context :: payload
  gr_metadata :: payload
  gr_skills :: "string list"
  gr_last_output :: "json option"
  gr_previous_output :: "json option"
  gr_behavioural_delta :: "json pydict option"
  gr_behavioural_signals :: "signal_entry list"
  gr_error :: "string option"

text \<open>A plan (\<^verbatim>\<open>agent/types/plan.py\<close>) and its record.\<close>

record plan =
  pl_intent :: string
  pl_targetskillid :: string
  pl_arguments :: payload
  pl_reasoning_summary :: string

record plan_record =
  pr_plan_id :: string
  pr_subgoal_id :: string
  pr_segments :: "string list"
  pr_created_at :: string
  pr_metadata :: payload
  pr_intent :: string
  pr_targetskillid :: string
  pr_arguments :: payload
  pr_reasoning_summary :: string

record drift_event =
  de_timestamp :: int
  de_subgoal_id :: string
  de_segment_id :: "string option"
  de_step_id :: "string option"
  de_signal_type :: string
  de_confidence :: rat
  de_details :: payload

text \<open>The constructor of a drift event, with the checks of \<open>__post_init__\<close>.\<close>

definition mk_drift_event ::
  "'a env_scheme \<Rightarrow> int \<Rightarrow> string \<Rightarrow> string option \<Rightarrow> string option \<Rightarrow> string \<Rightarrow> rat \<Rightarrow> payload
   \<Rightarrow> drift_event result"
where
  "mk_drift_event e ts sid gid step sig conf details =
     (if ts < 0 then Inl (ValueError (''timestamp must be >= 0, got '' @ int_str ts))
      else if \<not> (0 \<le> conf \<and> conf \<le> 1) then
        Inl (ValueError (''confidence must be in [0.0, 1.0], got '' @ e_float_fmt e [] conf))
      else if sid = [] then Inl (ValueError ''subgoal_id must be non-empty'')
      else (case ensure_json_pure details of
              Inl x \<Rightarrow> Inl x
            | Inr _ \<Rightarrow> Inr \<lparr>de_timestamp = ts, de_subgoal_id = sid, de_segment_id = gid,
                            de_step_id = step, de_signal_type = sig, de_confidence = conf,
                            de_details = details\<rparr>))"

subsection \<open>Operations the record stores share\<close>

text \<open>\<open>for rid in record_ids: self._store.pop(rid, None)\<close>.\<close>

definition records_remove :: "'r pydict \<Rightarrow> string list \<Rightarrow> 'r pydict" where
  "records_remove s ids = fold (\<lambda>rid s. dict_del s rid) ids s"

text \<open>\<open>{r.id: r for r in records}\<close>.\<close>

definition records_load :: "('r \<Rightarrow> string) \<Rightarrow> 'r list \<Rightarrow> 'r pydict" where
  "records_load rid rs = fold (\<lambda>r s. dict_set s (rid r) r) rs []"

text \<open>
  \<open>get_chain\<close>: from a record up the \<open>parent_id\<close> links while the id is set, stored and not
  visited.
\<close>

function (sequential) chain_up ::
  "('r \<Rightarrow> string option) \<Rightarrow> 'r pydict \<Rightarrow> string option \<Rightarrow> string list \<Rightarrow> 'r list"
where
  "chain_up parent s None visited = []"
| "chain_up parent s (Some i) visited =
     (if i = [] \<or> i \<in> set visited then []
      else (case dict_get s i of
              None \<Rightarrow> []
            | Some r \<Rightarrow> r # chain_up parent s (parent r) (i # visited)))"
  by pat_completeness auto

termination
proof (relation "measure (\<lambda>(_, s, _, visited). card (set (dict_keys s) - set visited))")
  fix parent :: "'r \<Rightarrow> string option" and s :: "'r pydict" and i visited r
  assume new: "\<not> (i = [] \<or> i \<in> set visited)" and got: "dict_get s i = Some r"
  have "i \<in> set (dict_keys s)" using got by (rule dict_get_in_keys)
  with new have "set (dict_keys s) - set (i # visited) \<subset> set (dict_keys s) - set visited" by auto
  then have "card (set (dict_keys s) - set (i # visited)) < card (set (dict_keys s) - set visited)"
    by (intro psubset_card_mono) auto
  then show "((parent, s, parent r, i # visited), parent, s, Some i, visited)
      \<in> measure (\<lambda>(_, s, _, visited). card (set (dict_keys s) - set visited))" by simp
qed simp

definition records_chain :: "('r \<Rightarrow> string option) \<Rightarrow> 'r pydict \<Rightarrow> string \<Rightarrow> 'r list" where
  "records_chain parent s i = rev (chain_up parent s (Some i) [])"

definition records_ok :: "('r \<Rightarrow> string) \<Rightarrow> 'r pydict \<Rightarrow> bool" where
  "records_ok rid s \<longleftrightarrow> dict_ok s \<and> (\<forall>kv \<in> set s. rid (snd kv) = fst kv)"

subsection \<open>Subgoal memory\<close>

type_synonym subgoal_store = "subgoal_record pydict"

definition subgoal_to_record :: "sub_goal \<Rightarrow> subgoal_record" where
  "subgoal_to_record s =
     \<lparr>sr_subgoal_id = sg_subgoal_id s, sr_parent_id = sg_parent_id s,
      sr_state = sg_state_value (sg_state s), sr_goal = sg_goal s, sr_context = sg_context s,
      sr_metadata = sg_metadata s, sr_created_at = sg_created_at s\<rparr>"

definition subgoal_put :: "subgoal_store \<Rightarrow> sub_goal \<Rightarrow> subgoal_store" where
  "subgoal_put s g = dict_set s (sg_subgoal_id g) (subgoal_to_record g)"

definition record_to_subgoal :: "subgoal_record \<Rightarrow> sub_goal result" where
  "record_to_subgoal r =
     (case subgoal_state_of (sr_state r) of
        Inl e \<Rightarrow> Inl e
      | Inr st \<Rightarrow> mk_subgoal (sr_subgoal_id r) (sr_goal r) (sr_context r) (sr_metadata r)
                    (sr_parent_id r) st (sr_created_at r))"

definition subgoal_get_record :: "subgoal_store \<Rightarrow> string \<Rightarrow> subgoal_record option" where
  "subgoal_get_record s i = dict_get s i"

definition subgoal_get :: "subgoal_store \<Rightarrow> string \<Rightarrow> sub_goal option result" where
  "subgoal_get s i =
     (case dict_get s i of
        None \<Rightarrow> Inr None
      | Some r \<Rightarrow> (case record_to_subgoal r of Inl e \<Rightarrow> Inl e | Inr g \<Rightarrow> Inr (Some g)))"

definition subgoal_exists :: "subgoal_store \<Rightarrow> string \<Rightarrow> bool" where
  "subgoal_exists s i \<longleftrightarrow> i \<in> set (dict_keys s)"

definition subgoal_order :: "subgoal_record \<Rightarrow> int \<times> string" where
  "subgoal_order r = (sr_created_at r, sr_subgoal_id r)"

definition subgoal_list_all :: "subgoal_store \<Rightarrow> sub_goal list result" where
  "subgoal_list_all s = traverse record_to_subgoal (sort_key subgoal_order (map snd s))"

definition subgoal_get_chain :: "subgoal_store \<Rightarrow> string \<Rightarrow> subgoal_record list" where
  "subgoal_get_chain s i = records_chain sr_parent_id s i"

definition subgoal_get_children :: "subgoal_store \<Rightarrow> string \<Rightarrow> subgoal_record list" where
  "subgoal_get_children s p =
     sort_key subgoal_order (filter (\<lambda>r. sr_parent_id r = Some p) (map snd s))"

definition subgoal_remove :: "subgoal_store \<Rightarrow> string list \<Rightarrow> subgoal_store" where
  "subgoal_remove s ids = records_remove s ids"

definition subgoal_snapshot :: "subgoal_store \<Rightarrow> subgoal_record list" where
  "subgoal_snapshot s = sort_key subgoal_order (map snd s)"

definition subgoal_load_snapshot :: "subgoal_record list \<Rightarrow> subgoal_store" where
  "subgoal_load_snapshot rs = records_load sr_subgoal_id rs"

subsection \<open>Segment memory\<close>

type_synonym segment_store = "segment_record pydict"

text \<open>
  \<open>put\<close> rebuilds the segment from copies of its fields, so the id is the hash of what is stored;
  the observation fields of a record that is overwritten are kept.
\<close>

definition segment_put ::
  "'a mem_env_scheme \<Rightarrow> segment_store \<Rightarrow> plan_segment \<Rightarrow> string option \<Rightarrow> segment_store"
where
  "segment_put e s g parent =
     (let i = segment_id e g; prev = dict_get s i
      in dict_set s i
          \<lparr>gr_segment_id = i, gr_parent_id = parent, gr_subgoal_id = ps_subgoal_id g,
           gr_state = None, gr_content = ps_steps g, gr_created_at = ps_created_at g,
           gr_context = ps_context g, gr_metadata = ps_metadata g,
           gr_skills = ps_skills g,
           gr_last_output = (case prev of None \<Rightarrow> None | Some p \<Rightarrow> gr_last_output p),
           gr_previous_output = (case prev of None \<Rightarrow> None | Some p \<Rightarrow> gr_previous_output p),
           gr_behavioural_delta = (case prev of None \<Rightarrow> None | Some p \<Rightarrow> gr_behavioural_delta p),
           gr_behavioural_signals =
             (case prev of None \<Rightarrow> [] | Some p \<Rightarrow> gr_behavioural_signals p),
           gr_error = (case prev of None \<Rightarrow> None | Some p \<Rightarrow> gr_error p)\<rparr>)"

definition record_to_segment :: "segment_record \<Rightarrow> plan_segment result" where
  "record_to_segment r =
     mk_plan_segment (gr_subgoal_id r) (gr_content r) (gr_context r) (gr_metadata r) (gr_skills r)
       (gr_created_at r)"

definition segment_get :: "segment_store \<Rightarrow> string \<Rightarrow> plan_segment option result" where
  "segment_get s i =
     (case dict_get s i of
        None \<Rightarrow> Inr None
      | Some r \<Rightarrow> (case record_to_segment r of Inl e \<Rightarrow> Inl e | Inr g \<Rightarrow> Inr (Some g)))"

definition segment_get_record :: "segment_store \<Rightarrow> string \<Rightarrow> segment_record option" where
  "segment_get_record s i = dict_get s i"

definition segment_put_record :: "segment_store \<Rightarrow> segment_record \<Rightarrow> segment_store" where
  "segment_put_record s r = dict_set s (gr_segment_id r) r"

definition segment_exists :: "segment_store \<Rightarrow> string \<Rightarrow> bool" where
  "segment_exists s i \<longleftrightarrow> i \<in> set (dict_keys s)"

definition segment_order :: "segment_record \<Rightarrow> string \<times> string" where
  "segment_order r = (gr_created_at r, gr_segment_id r)"

definition segment_list_all :: "segment_store \<Rightarrow> plan_segment list result" where
  "segment_list_all s = traverse record_to_segment (sort_key segment_order (map snd s))"

definition segment_get_chain :: "segment_store \<Rightarrow> string \<Rightarrow> segment_record list" where
  "segment_get_chain s i = records_chain gr_parent_id s i"

definition segment_get_children :: "segment_store \<Rightarrow> string \<Rightarrow> segment_record list" where
  "segment_get_children s p =
     sort_key segment_order (filter (\<lambda>r. gr_parent_id r = Some p) (map snd s))"

definition segment_get_by_subgoal :: "segment_store \<Rightarrow> string \<Rightarrow> segment_record list" where
  "segment_get_by_subgoal s sid =
     sort_key segment_order (filter (\<lambda>r. gr_subgoal_id r = sid) (map snd s))"

definition segment_remove :: "segment_store \<Rightarrow> string list \<Rightarrow> segment_store" where
  "segment_remove s ids = records_remove s ids"

text \<open>\<open>asdict\<close> turns the signals, which are dataclasses, into dicts.\<close>

fun signal_asdict :: "signal_entry \<Rightarrow> signal_entry" where
  "signal_asdict (Signal b) =
     SignalDict
       [(''signal_type'', JStr (signal_type_value (bs_signal_type b))),
        (''segment_id'', JStr (bs_segment_id b)), (''subgoal_id'', JStr (bs_subgoal_id b)),
        (''details'', JObj (bs_details b)), (''timestamp'', JStr (bs_timestamp b))]"
| "signal_asdict (SignalDict d) = SignalDict d"

definition record_asdict :: "segment_record \<Rightarrow> segment_record" where
  "record_asdict r =
     r\<lparr>gr_behavioural_signals := map signal_asdict (gr_behavioural_signals r)\<rparr>"

definition segment_snapshot :: "segment_store \<Rightarrow> segment_record list" where
  "segment_snapshot s = map record_asdict (sort_key segment_order (map snd s))"

definition segment_load_snapshot :: "segment_record list \<Rightarrow> segment_store" where
  "segment_load_snapshot rs = records_load gr_segment_id rs"

definition update_behavioural_signals ::
  "segment_store \<Rightarrow> string \<Rightarrow> behavioural_signal list \<Rightarrow> segment_store"
where
  "update_behavioural_signals s i sigs =
     (case dict_get s i of
        None \<Rightarrow> s
      | Some r \<Rightarrow> dict_set s i (r\<lparr>gr_behavioural_signals := map Signal sigs\<rparr>))"

subsection \<open>Plan memory\<close>

type_synonym plan_store = "plan_record pydict"

definition plan_to_record ::
  "plan \<Rightarrow> string \<Rightarrow> string \<Rightarrow> string list \<Rightarrow> string \<Rightarrow> payload option \<Rightarrow> plan_record"
where
  "plan_to_record p pid sid segs created meta =
     \<lparr>pr_plan_id = pid, pr_subgoal_id = sid, pr_segments = segs, pr_created_at = created,
      pr_metadata = (case meta of None \<Rightarrow> Fields [] | Some m \<Rightarrow> m), pr_intent = pl_intent p,
      pr_targetskillid = pl_targetskillid p, pr_arguments = pl_arguments p,
      pr_reasoning_summary = pl_reasoning_summary p\<rparr>"

definition plan_put ::
  "plan_store \<Rightarrow> plan \<Rightarrow> string \<Rightarrow> string \<Rightarrow> string list \<Rightarrow> string \<Rightarrow> payload option \<Rightarrow> plan_store"
where
  "plan_put s p pid sid segs created meta =
     dict_set s pid (plan_to_record p pid sid segs created meta)"

definition record_to_plan :: "plan_record \<Rightarrow> plan" where
  "record_to_plan r =
     \<lparr>pl_intent = pr_intent r, pl_targetskillid = pr_targetskillid r,
      pl_arguments = pr_arguments r, pl_reasoning_summary = pr_reasoning_summary r\<rparr>"

definition plan_get :: "plan_store \<Rightarrow> string \<Rightarrow> plan option" where
  "plan_get s i = map_option record_to_plan (dict_get s i)"

definition plan_get_record :: "plan_store \<Rightarrow> string \<Rightarrow> plan_record option" where
  "plan_get_record s i = dict_get s i"

definition plan_exists :: "plan_store \<Rightarrow> string \<Rightarrow> bool" where
  "plan_exists s i \<longleftrightarrow> i \<in> set (dict_keys s)"

definition plan_order :: "plan_record \<Rightarrow> string \<times> string" where
  "plan_order r = (pr_created_at r, pr_plan_id r)"

definition plan_list_all :: "plan_store \<Rightarrow> plan list" where
  "plan_list_all s = map record_to_plan (sort_key plan_order (map snd s))"

definition plan_get_by_subgoal :: "plan_store \<Rightarrow> string \<Rightarrow> plan_record list" where
  "plan_get_by_subgoal s sid =
     sort_key plan_order (filter (\<lambda>r. pr_subgoal_id r = sid) (map snd s))"

definition plan_get_segments :: "plan_store \<Rightarrow> string \<Rightarrow> string list" where
  "plan_get_segments s i = (case dict_get s i of None \<Rightarrow> [] | Some r \<Rightarrow> pr_segments r)"

definition plan_get_latest_for_subgoal :: "plan_store \<Rightarrow> string \<Rightarrow> plan_record option" where
  "plan_get_latest_for_subgoal s sid =
     (let candidates = plan_get_by_subgoal s sid
      in if candidates = [] then None else Some (last candidates))"

definition plan_remove :: "plan_store \<Rightarrow> string list \<Rightarrow> plan_store" where
  "plan_remove s ids = records_remove s ids"

definition plan_snapshot :: "plan_store \<Rightarrow> plan_record list" where
  "plan_snapshot s = sort_key plan_order (map snd s)"

definition plan_load_snapshot :: "plan_record list \<Rightarrow> plan_store" where
  "plan_load_snapshot rs = records_load pr_plan_id rs"

subsection \<open>Drift memory\<close>

record drift_memory =
  dm_capacity :: int
  dm_buffer :: "drift_event list"

definition drift_new :: "int \<Rightarrow> drift_memory result" where
  "drift_new capacity =
     (if capacity \<le> 0 then Inl (ValueError (''capacity must be > 0, got '' @ int_str capacity))
      else Inr \<lparr>dm_capacity = capacity, dm_buffer = []\<rparr>)"

text \<open>The last \<open>n\<close> items: what \<open>deque(maxlen=n)\<close> keeps, and \<open>events[-n:]\<close> for \<open>n > 0\<close>.\<close>

definition last_n :: "nat \<Rightarrow> 'b list \<Rightarrow> 'b list" where
  "last_n n xs = drop (length xs - n) xs"

definition drift_record :: "drift_memory \<Rightarrow> drift_event \<Rightarrow> drift_memory" where
  "drift_record m ev = m\<lparr>dm_buffer := last_n (nat (dm_capacity m)) (dm_buffer m @ [ev])\<rparr>"

definition drift_recent :: "drift_memory \<Rightarrow> int \<Rightarrow> drift_event list" where
  "drift_recent m n = (if n \<le> 0 then [] else last_n (nat n) (dm_buffer m))"

definition drift_last :: "drift_memory \<Rightarrow> drift_event option" where
  "drift_last m = (if dm_buffer m = [] then None else Some (last (dm_buffer m)))"

definition drift_clear :: "drift_memory \<Rightarrow> drift_memory" where
  "drift_clear m = m\<lparr>dm_buffer := []\<rparr>"

definition drift_filter_by_subgoal :: "drift_memory \<Rightarrow> string \<Rightarrow> drift_event list" where
  "drift_filter_by_subgoal m sid = filter (\<lambda>e. de_subgoal_id e = sid) (dm_buffer m)"

definition drift_filter_by_signal :: "drift_memory \<Rightarrow> string \<Rightarrow> drift_event list" where
  "drift_filter_by_signal m sig = filter (\<lambda>e. de_signal_type e = sig) (dm_buffer m)"

definition drift_count_recent :: "drift_memory \<Rightarrow> string \<Rightarrow> int \<Rightarrow> nat" where
  "drift_count_recent m sig window =
     (if window \<le> 0 then 0
      else length (filter (\<lambda>e. de_signal_type e = sig) (last_n (nat window) (dm_buffer m))))"

definition drift_load_snapshot :: "drift_memory \<Rightarrow> drift_event list \<Rightarrow> drift_memory" where
  "drift_load_snapshot m evs =
     fold (\<lambda>ev m. drift_record m ev) (last_n (nat (dm_capacity m)) evs) (drift_clear m)"

definition drift_match :: "drift_event \<Rightarrow> int \<times> string \<times> string option \<times> string" where
  "drift_match e = (de_timestamp e, de_subgoal_id e, de_segment_id e, de_signal_type e)"

definition drift_remove_events :: "drift_memory \<Rightarrow> drift_event list \<Rightarrow> drift_memory" where
  "drift_remove_events m evs =
     (if evs = [] then m
      else m\<lparr>dm_buffer := filter (\<lambda>e. drift_match e \<notin> drift_match ` set evs) (dm_buffer m)\<rparr>)"

subsection \<open>The contract of a store with snapshots\<close>

locale snapshot_store = keyed_store save get delete listing size_of key wf
  for save :: "'s \<Rightarrow> 'v \<Rightarrow> 's"
    and get :: "'s \<Rightarrow> string \<Rightarrow> 'v option"
    and delete :: "'s \<Rightarrow> string \<Rightarrow> 's"
    and listing :: "'s \<Rightarrow> string list"
    and size_of :: "'s \<Rightarrow> nat"
    and key :: "'v \<Rightarrow> string"
    and wf :: "'s \<Rightarrow> bool" +
  fixes snapshot :: "'s \<Rightarrow> 'v list"
    and load :: "'v list \<Rightarrow> 's"
    and norm :: "'v \<Rightarrow> 'v"
  assumes snapshot_set: "wf s \<Longrightarrow> set (snapshot s) = norm ` ran (get s)"
    and snapshot_keys: "wf s \<Longrightarrow> distinct (map key (snapshot s))"
    and norm_key: "key (norm v) = key v"
    and get_load: "get (load vs) k = find (\<lambda>v. key v = k) (rev vs)"
    and wf_load: "wf (load vs)"
begin

lemma load_snapshot:
  assumes wf: "wf s"
  shows "get (load (snapshot s)) k = map_option norm (get s k)"
proof (cases "get s k")
  case None
  have "key (norm v) \<noteq> k" if "v \<in> ran (get s)" for v
    using that keyed [OF wf] None by (auto simp: ran_def norm_key)
  then have "find (\<lambda>v. key v = k) (rev (snapshot s)) = None"
    using snapshot_set [OF wf] by (auto simp: find_None_iff)
  with None show ?thesis by (simp add: get_load)
next
  case (Some v)
  then have mem: "norm v \<in> set (snapshot s)" and key: "key (norm v) = k"
    using snapshot_set [OF wf] keyed [OF wf Some] by (auto simp: ran_def norm_key)
  have uniq: "w = norm v" if "w \<in> set (snapshot s)" "key w = k" for w
    using snapshot_keys [OF wf] mem key that by (auto simp: distinct_map dest: inj_onD)
  have "find (\<lambda>v. key v = k) (rev (snapshot s)) \<noteq> None"
    using mem key by (auto simp: find_None_iff)
  then obtain w where w: "find (\<lambda>v. key v = k) (rev (snapshot s)) = Some w" by auto
  then have "w \<in> set (snapshot s)" "key w = k"
    by (auto dest: find_SomeD)
  with uniq w Some show ?thesis by (simp add: get_load)
qed

lemma reload_idempotent:
  assumes "wf s" "\<And>v. norm (norm v) = norm v"
  shows "get (load (snapshot (load (snapshot s)))) = get (load (snapshot s))"
  by (rule ext) (simp add: load_snapshot assms wf_load option.map_comp comp_def)

end

subsection \<open>The stores keep their records under their ids\<close>

lemma records_remove_get:
  "dict_get (records_remove s ids) k = (if k \<in> set ids then None else dict_get s k)"
  unfolding records_remove_def by (induction ids arbitrary: s) auto

lemma records_ok_empty [simp]: "records_ok rid []"
  by (simp add: records_ok_def)

lemma records_ok_set: "records_ok rid s \<Longrightarrow> rid r = k \<Longrightarrow> records_ok rid (dict_set s k r)"
  unfolding records_ok_def using set_dict_set [of s k r] by auto

lemma records_ok_del: "records_ok rid s \<Longrightarrow> records_ok rid (dict_del s k)"
  unfolding records_ok_def using set_dict_del [of s k] by auto

lemma records_ok_remove: "records_ok rid s \<Longrightarrow> records_ok rid (records_remove s ids)"
  unfolding records_remove_def by (rule fold_keeps) (rule records_ok_del)

lemma records_ok_load: "records_ok rid (records_load rid rs)"
  unfolding records_load_def by (rule fold_keeps) (simp_all add: records_ok_set)

lemma records_ok_get: "records_ok rid s \<Longrightarrow> dict_get s k = Some r \<Longrightarrow> rid r = k"
  unfolding records_ok_def using dict_get_SomeD [of s k r] by fastforce

lemma records_ok_values: "records_ok rid s \<Longrightarrow> map rid (map snd s) = dict_keys s"
  by (auto simp: records_ok_def)

lemma records_ok_ran: "records_ok rid s \<Longrightarrow> set (map snd s) = ran (dict_get s)"
  unfolding records_ok_def ran_def using dict_get_Some_iff [of s] by force

lemma dict_get_load:
  "dict_get (records_load rid rs) k = find (\<lambda>r. rid r = k) (rev rs)"
  unfolding records_load_def by (induction rs rule: rev_induct) auto

text \<open>A dict of records under their ids provides the contract.\<close>

lemma dict_keyed_store:
  "keyed_store (\<lambda>s r. dict_set s (rid r) r) dict_get dict_del dict_keys length rid (records_ok rid)"
proof unfold_locales
  fix s :: "'a pydict" and k v
  assume "records_ok rid s" and "dict_get s k = Some v"
  then show "rid v = k" by (rule records_ok_get)
next
  fix s :: "'a pydict"
  show "set (dict_keys s) = dom (dict_get s)" by (rule set_dict_keys_get)
qed (auto simp: records_ok_set records_ok_del, simp add: records_ok_def)

lemma dict_snapshot_store:
  fixes rid :: "'r \<Rightarrow> string" and norm :: "'r \<Rightarrow> 'r"
  assumes "\<And>r. rid (norm r) = rid r"
    and "\<And>s. mset (snapshot s) = mset (map norm (map snd s))"
  shows "snapshot_store (\<lambda>s r. dict_set s (rid r) r) dict_get dict_del dict_keys length rid
    (records_ok rid) snapshot (records_load rid) norm"
proof (intro snapshot_store.intro snapshot_store_axioms.intro dict_keyed_store)
  fix s :: "'r pydict"
  assume ok: "records_ok rid s"
  have "set (snapshot s) = set (map norm (map snd s))" by (rule mset_eq_setD) (rule assms(2))
  then show "set (snapshot s) = norm ` ran (dict_get s)"
    by (simp only: list.set_map [of norm] records_ok_ran [OF ok])
  have "mset (map rid (snapshot s)) = image_mset rid (mset (map norm (map snd s)))"
    by (simp only: mset_map [of rid] assms(2))
  also have "\<dots> = mset (map rid (map snd s))"
    by (simp add: assms(1) multiset.map_comp comp_def)
  finally have "mset (map rid (snapshot s)) = mset (dict_keys s)"
    by (simp only: records_ok_values [OF ok])
  then have "distinct (map rid (snapshot s)) = dict_ok s" by (rule mset_eq_imp_distinct_iff)
  with ok show "distinct (map rid (snapshot s))" by (simp add: records_ok_def)
qed (simp_all add: assms(1) dict_get_load records_ok_load)

interpretation sgm: snapshot_store "\<lambda>s r. dict_set s (sr_subgoal_id r) r" subgoal_get_record
    dict_del dict_keys length sr_subgoal_id "records_ok sr_subgoal_id" subgoal_snapshot
    subgoal_load_snapshot id
proof -
  have eqs: "subgoal_get_record = dict_get" "subgoal_load_snapshot = records_load sr_subgoal_id"
    by (auto simp: fun_eq_iff subgoal_get_record_def subgoal_load_snapshot_def)
  show "snapshot_store (\<lambda>s r. dict_set s (sr_subgoal_id r) r) subgoal_get_record
      dict_del dict_keys length sr_subgoal_id (records_ok sr_subgoal_id) subgoal_snapshot
      subgoal_load_snapshot id"
    unfolding eqs by (rule dict_snapshot_store) (simp_all add: subgoal_snapshot_def)
qed

interpretation plm: snapshot_store "\<lambda>s r. dict_set s (pr_plan_id r) r" plan_get_record
    dict_del dict_keys length pr_plan_id "records_ok pr_plan_id" plan_snapshot
    plan_load_snapshot id
proof -
  have eqs: "plan_get_record = dict_get" "plan_load_snapshot = records_load pr_plan_id"
    by (auto simp: fun_eq_iff plan_get_record_def plan_load_snapshot_def)
  show "snapshot_store (\<lambda>s r. dict_set s (pr_plan_id r) r) plan_get_record
      dict_del dict_keys length pr_plan_id (records_ok pr_plan_id) plan_snapshot
      plan_load_snapshot id"
    unfolding eqs by (rule dict_snapshot_store) (simp_all add: plan_snapshot_def)
qed

interpretation sem: snapshot_store segment_put_record segment_get_record
    dict_del dict_keys length gr_segment_id "records_ok gr_segment_id" segment_snapshot
    segment_load_snapshot record_asdict
proof -
  have eqs: "segment_put_record = (\<lambda>s r. dict_set s (gr_segment_id r) r)"
    "segment_get_record = dict_get" "segment_load_snapshot = records_load gr_segment_id"
    by (auto simp: fun_eq_iff segment_put_record_def segment_get_record_def segment_load_snapshot_def)
  show "snapshot_store segment_put_record segment_get_record
      dict_del dict_keys length gr_segment_id (records_ok gr_segment_id) segment_snapshot
      segment_load_snapshot record_asdict"
    unfolding eqs
    by (rule dict_snapshot_store) (simp_all add: segment_snapshot_def record_asdict_def multiset.map_comp)
qed


subsection \<open>Chains\<close>

lemma chain_up_path:
  assumes "records_ok rid s" "c = chain_up parent s x visited"
  shows "(\<forall>r \<in> set c. dict_get s (rid r) = Some r \<and> rid r \<noteq> [] \<and> rid r \<notin> set visited) \<and>
    distinct (map rid c) \<and> successively (\<lambda>r r'. parent r = Some (rid r')) c \<and>
    (c \<noteq> [] \<longrightarrow> x = Some (rid (hd c)))"
  using assms(1) unfolding assms(2)
proof (induction parent s x visited rule: chain_up.induct)
  case (1 parent s visited)
  then show ?case by simp
next
  case (2 parent s i visited)
  show ?case
  proof (cases "i = [] \<or> i \<in> set visited \<or> dict_get s i = None")
    case True
    then show ?thesis by auto
  next
    case False
    then obtain r where get: "dict_get s i = Some r" by auto
    have rid: "rid r = i" using "2.prems" get by (rule records_ok_get)
    let ?rest = "chain_up parent s (parent r) (i # visited)"
    have IH: "\<forall>r \<in> set ?rest. dict_get s (rid r) = Some r \<and> rid r \<noteq> [] \<and> rid r \<notin> set (i # visited)"
      "distinct (map rid ?rest)" "successively (\<lambda>r r'. parent r = Some (rid r')) ?rest"
      "?rest \<noteq> [] \<longrightarrow> parent r = Some (rid (hd ?rest))"
      using "2.IH" [of r] False get "2.prems" by auto
    have c: "chain_up parent s (Some i) visited = r # ?rest" using False get by simp
    have "\<forall>q \<in> set (r # ?rest). dict_get s (rid q) = Some q \<and> rid q \<noteq> [] \<and> rid q \<notin> set visited"
      using IH(1) get False by (simp add: rid del: chain_up.simps)
    moreover have "distinct (map rid (r # ?rest))"
      using IH(1,2) by (auto simp: rid simp del: chain_up.simps)
    moreover have "successively (\<lambda>r r'. parent r = Some (rid r')) (r # ?rest)"
      using IH(3,4) by (cases ?rest) auto
    ultimately show ?thesis unfolding c by (simp add: rid del: chain_up.simps)
  qed
qed

text \<open>The walk stops only where it must.\<close>

lemma chain_up_stops:
  assumes "records_ok rid s" "chain_up parent s x visited \<noteq> []"
  shows "case parent (last (chain_up parent s x visited)) of
      None \<Rightarrow> True
    | Some p \<Rightarrow> p = [] \<or> dict_get s p = None \<or>
        p \<in> set visited \<union> rid ` set (chain_up parent s x visited)"
  using assms
proof (induction parent s x visited rule: chain_up.induct)
  case (1 parent s visited)
  then show ?case by simp
next
  case (2 parent s i visited)
  then obtain r where get: "dict_get s i = Some r" and new: "\<not> (i = [] \<or> i \<in> set visited)"
    by (auto split: if_splits option.splits)
  have rid: "rid r = i" using "2.prems"(1) get by (rule records_ok_get)
  let ?rest = "chain_up parent s (parent r) (i # visited)"
  have unfold: "chain_up parent s (Some i) visited = r # ?rest" using new get by simp
  show ?case
  proof (cases "?rest = []")
    case False
    with "2.IH" [OF new get "2.prems"(1)] rid show ?thesis
      unfolding unfold by (auto split: option.splits)
  next
    case True
    then have "case parent r of None \<Rightarrow> True
        | Some p \<Rightarrow> p = [] \<or> dict_get s p = None \<or> p \<in> insert i (set visited)"
      by (auto split: option.splits if_splits)
    with True rid show ?thesis unfolding unfold by (auto split: option.splits)
  qed
qed

lemma chain_up_empty:
  "chain_up parent s (Some i) [] = [] \<longleftrightarrow> i = [] \<or> dict_get s i = None"
  by (auto split: option.splits)

lemma successively_rev_iff:
  "successively P (rev xs) \<longleftrightarrow> successively (\<lambda>x y. P y x) xs"
  by (simp add: successively_rev)

text \<open>What \<open>get_chain\<close> returns, for any of the record stores.\<close>

lemma records_chain_path:
  assumes ok: "records_ok rid s" and c_def: "c = records_chain parent s i"
  shows "c = [] \<longleftrightarrow> i = [] \<or> dict_get s i = None"
    and "c \<noteq> [] \<Longrightarrow> dict_get s i = Some (last c)"
    and "\<forall>r \<in> set c. dict_get s (rid r) = Some r"
    and "distinct (map rid c)"
    and "successively (\<lambda>r r'. parent r' = Some (rid r)) c"
    and "c \<noteq> [] \<Longrightarrow> (case parent (hd c) of None \<Rightarrow> True
           | Some p \<Rightarrow> p = [] \<or> dict_get s p = None \<or> p \<in> rid ` set c)"
proof -
  let ?u = "chain_up parent s (Some i) []"
  have c: "c = rev ?u" by (simp add: c_def records_chain_def)
  note path = chain_up_path [OF ok refl, of parent "Some i" "[]"]
  show "c = [] \<longleftrightarrow> i = [] \<or> dict_get s i = None" by (simp only: c rev_is_Nil_conv chain_up_empty)
  show mem: "\<forall>r \<in> set c. dict_get s (rid r) = Some r" using path by (simp only: c set_rev) blast
  show "distinct (map rid c)" using path unfolding c by (simp only: rev_map [symmetric]) simp
  show "successively (\<lambda>r r'. parent r' = Some (rid r)) c"
    using path by (simp only: c successively_rev_iff)
  assume ne: "c \<noteq> []"
  then have ne': "?u \<noteq> []" by (simp only: c rev_is_Nil_conv) simp
  have "rid (last c) = i" using path ne' by (simp only: c last_rev) simp
  moreover have "last c \<in> set c" using ne by simp
  ultimately show "dict_get s i = Some (last c)" using mem by fastforce
  show "case parent (hd c) of None \<Rightarrow> True
      | Some p \<Rightarrow> p = [] \<or> dict_get s p = None \<or> p \<in> rid ` set c"
    using chain_up_stops [OF ok ne'] by (simp only: c hd_rev set_rev) (auto split: option.splits)
qed

subsection \<open>The ring buffer\<close>

lemma last_n_append: "last_n n (last_n n xs @ ys) = last_n n (xs @ ys)"
  by (cases "length xs \<le> n") (simp_all add: last_n_def add.commute)

lemma last_n_last_n: "k \<le> n \<Longrightarrow> last_n k (last_n n xs) = last_n k xs"
  by (cases "length xs \<le> n") (auto simp: last_n_def)

lemma last_n_eq_Nil [simp]: "last_n n xs = [] \<longleftrightarrow> n = 0 \<or> xs = []"
  by (cases xs) (auto simp: last_n_def)

lemma length_last_n [simp]: "length (last_n n xs) = min n (length xs)"
  by (simp add: last_n_def)

lemma drift_record_fold:
  "dm_buffer (fold (\<lambda>ev m. drift_record m ev) evs m) =
     (if evs = [] then dm_buffer m else last_n (nat (dm_capacity m)) (dm_buffer m @ evs))"
proof (induction evs arbitrary: m)
  case Nil
  then show ?case by simp
next
  case (Cons ev evs)
  have cap: "dm_capacity (drift_record m ev) = dm_capacity m" by (simp add: drift_record_def)
  show ?case
  proof (cases "evs = []")
    case True
    then show ?thesis by (simp add: drift_record_def)
  next
    case False
    then show ?thesis
      using last_n_append [of "nat (dm_capacity m)" "dm_buffer m @ [ev]" evs]
      by (simp add: Cons.IH cap) (simp add: drift_record_def)
  qed
qed

subsection \<open>Properties\<close>

text \<open>C26: A snapshot of the subgoal store or of the plan store, loaded again, answers every lookup as
  the store did.  A snapshot of the segment store does not when a record carries behavioural
  signals: \<open>asdict\<close> recurses into them, so what is loaded holds dicts where the store held
  \<open>BehaviouralSignal\<close> objects; everything else of the record comes back.
\<close>

theorem snapshot_reload:
  assumes "records_ok sr_subgoal_id sg" "records_ok pr_plan_id pl" "records_ok gr_segment_id se"
  shows "subgoal_get_record (subgoal_load_snapshot (subgoal_snapshot sg)) i =
      subgoal_get_record sg i \<and>
    plan_get_record (plan_load_snapshot (plan_snapshot pl)) i = plan_get_record pl i \<and>
    segment_get_record (segment_load_snapshot (segment_snapshot se)) i =
      map_option (\<lambda>r. r\<lparr>gr_behavioural_signals := map signal_asdict (gr_behavioural_signals r)\<rparr>)
        (segment_get_record se i) \<and>
    (\<forall>r. segment_get_record se i = Some r \<longrightarrow>
       (segment_get_record (segment_load_snapshot (segment_snapshot se)) i = Some r \<longleftrightarrow>
        (\<forall>b. Signal b \<notin> set (gr_behavioural_signals r))))"
proof (intro conjI)
  have flat: "map signal_asdict xs = xs \<longleftrightarrow> (\<forall>b. Signal b \<notin> set xs)" for xs
  proof (induction xs)
    case (Cons x xs)
    then show ?case by (cases x) auto
  qed simp
  show "subgoal_get_record (subgoal_load_snapshot (subgoal_snapshot sg)) i =
      subgoal_get_record sg i"
    using assms(1) by (simp add: sgm.load_snapshot option.map_id)
  show "plan_get_record (plan_load_snapshot (plan_snapshot pl)) i = plan_get_record pl i"
    using assms(2) by (simp add: plm.load_snapshot option.map_id)
  show seg: "segment_get_record (segment_load_snapshot (segment_snapshot se)) i =
      map_option (\<lambda>r. r\<lparr>gr_behavioural_signals := map signal_asdict (gr_behavioural_signals r)\<rparr>)
        (segment_get_record se i)"
    using assms(3) by (simp add: sem.load_snapshot record_asdict_def [abs_def])
  show "\<forall>r. segment_get_record se i = Some r \<longrightarrow>
       (segment_get_record (segment_load_snapshot (segment_snapshot se)) i = Some r \<longleftrightarrow>
        (\<forall>b. Signal b \<notin> set (gr_behavioural_signals r)))"
  proof (intro allI impI)
    fix r assume r: "segment_get_record se i = Some r"
    have "r\<lparr>gr_behavioural_signals := map signal_asdict (gr_behavioural_signals r)\<rparr> = r \<longleftrightarrow>
        map signal_asdict (gr_behavioural_signals r) = gr_behavioural_signals r"
      by (cases r) simp
    then show "segment_get_record (segment_load_snapshot (segment_snapshot se)) i = Some r \<longleftrightarrow>
        (\<forall>b. Signal b \<notin> set (gr_behavioural_signals r))"
      by (simp add: seg r flat)
  qed
qed

definition demo_segment :: "string \<Rightarrow> string option \<Rightarrow> string \<Rightarrow> segment_record" where
  "demo_segment i parent sid =
     \<lparr>gr_segment_id = i, gr_parent_id = parent, gr_subgoal_id = sid, gr_state = None,
      gr_content = [JStr ''step''], gr_created_at = ''2024-01-01T00:00:00+00:00'',
      gr_context = Fields [], gr_metadata = Fields [], gr_skills = [], gr_last_output = None,
      gr_previous_output = None, gr_behavioural_delta = None, gr_behavioural_signals = [],
      gr_error = None\<rparr>"

definition demo_signal :: behavioural_signal where
  "demo_signal = \<lparr>bs_signal_type = WRONG_CAPABILITY, bs_segment_id = ''a'', bs_subgoal_id = ''g'',
     bs_details = [], bs_timestamp = ''t''\<rparr>"

lemma records_ok_single [simp]: "records_ok rid [(k, r)] \<longleftrightarrow> rid r = k"
  by (simp add: records_ok_def)

theorem snapshot_reload_witness:
  "segment_get_record (segment_load_snapshot (segment_snapshot
     (update_behavioural_signals [(''a'', demo_segment ''a'' None ''g'')] ''a'' [demo_signal]))) ''a''
   \<noteq> segment_get_record
     (update_behavioural_signals [(''a'', demo_segment ''a'' None ''g'')] ''a'' [demo_signal]) ''a''"
proof -
  let ?s = "update_behavioural_signals [(''a'', demo_segment ''a'' None ''g'')] ''a'' [demo_signal]"
  have s: "?s = [(''a'', (demo_segment ''a'' None ''g'')\<lparr>gr_behavioural_signals := [Signal demo_signal]\<rparr>)]"
    by (simp add: update_behavioural_signals_def dict_get_def dict_set_def)
  have "records_ok gr_segment_id ?s" unfolding s by (simp add: demo_segment_def)
  moreover have "segment_get_record ?s ''a'' =
      Some ((demo_segment ''a'' None ''g'')\<lparr>gr_behavioural_signals := [Signal demo_signal]\<rparr>)"
    by (simp add: s segment_get_record_def dict_get_def)
  ultimately show ?thesis
    using snapshot_reload [of "[]" "[]" ?s "''a''"] by (auto simp: s)
qed

text \<open>\<open>get_chain\<close> returns the ancestry of a segment, root first.  It is empty exactly when the id
  is empty or not stored; otherwise it ends with the record asked for, every record of it is the
  stored one, no id occurs twice, each record is the parent of the next, and its first record has
  no parent, a parent that is not stored, or (a cycle) a parent that is already in the chain.
\<close>

lemma segment_chain_is_ancestry:
  assumes "records_ok gr_segment_id s"
  shows "(segment_get_chain s i = [] \<longleftrightarrow> i = [] \<or> segment_get_record s i = None) \<and>
    (segment_get_chain s i \<noteq> [] \<longrightarrow> segment_get_record s i = Some (last (segment_get_chain s i)) \<and>
      (case gr_parent_id (hd (segment_get_chain s i)) of
         None \<Rightarrow> True
       | Some p \<Rightarrow> p = [] \<or> segment_get_record s p = None \<or>
           p \<in> gr_segment_id ` set (segment_get_chain s i))) \<and>
    (\<forall>r \<in> set (segment_get_chain s i). segment_get_record s (gr_segment_id r) = Some r) \<and>
    distinct (map gr_segment_id (segment_get_chain s i)) \<and>
    successively (\<lambda>r r'. gr_parent_id r' = Some (gr_segment_id r)) (segment_get_chain s i)"
  using records_chain_path [OF assms refl, of gr_parent_id i]
  unfolding segment_get_chain_def segment_get_record_def by blast

lemma segment_chain_is_ancestry_example:
  "segment_get_record [(''a'', demo_segment ''a'' None ''g''), (''b'', demo_segment ''b'' (Some ''a'') ''g'')]
     ''b'' = Some (last (segment_get_chain
       [(''a'', demo_segment ''a'' None ''g''), (''b'', demo_segment ''b'' (Some ''a'') ''g'')] ''b''))"
proof -
  let ?s = "[(''a'', demo_segment ''a'' None ''g''), (''b'', demo_segment ''b'' (Some ''a'') ''g'')]"
  have "records_ok gr_segment_id ?s" by (simp add: records_ok_def demo_segment_def)
  from segment_chain_is_ancestry [OF this, of "''b''"] show ?thesis
    by (simp add: segment_get_record_def dict_get_def)
qed

text \<open>The drift buffer is the window of the last \<open>capacity\<close> events: after any run of \<open>record\<close>
  from a new buffer it holds them in order, oldest first, never more than the capacity;
  \<open>recent\<close> and \<open>last\<close> answer as they would on the whole history, and loading a snapshot of any
  length has the same effect as recording its events.
\<close>

lemma drift_buffer_window:
  assumes "drift_new capacity = Inr m0"
    and m_def: "m = fold (\<lambda>ev m. drift_record m ev) evs m0"
  shows "dm_buffer m = last_n (nat capacity) evs \<and>
    length (dm_buffer m) = min (nat capacity) (length evs) \<and>
    (n \<le> capacity \<longrightarrow> drift_recent m n = (if n \<le> 0 then [] else last_n (nat n) evs)) \<and>
    drift_last m = (if evs = [] then None else Some (last evs)) \<and>
    drift_load_snapshot m0 evs = m"
proof -
  have m0: "dm_buffer m0 = []" "dm_capacity m0 = capacity" and pos: "0 < capacity"
    using assms(1) by (auto simp: drift_new_def split: if_splits)
  have buf: "dm_buffer (fold (\<lambda>ev m. drift_record m ev) xs m0) = last_n (nat capacity) xs" for xs
    by (simp add: drift_record_fold m0) (simp add: last_n_def)
  have cap: "dm_capacity (fold (\<lambda>ev m. drift_record m ev) xs m0) = capacity" for xs
    by (rule fold_keeps) (simp_all add: m0 drift_record_def)
  have "last_n (nat n) (last_n (nat capacity) evs) = last_n (nat n) evs" if "n \<le> capacity"
    using that by (intro last_n_last_n) simp
  moreover have "last (last_n (nat capacity) evs) = last evs" if "evs \<noteq> []"
    using that pos by (simp add: last_n_def)
  moreover have "last_n (nat capacity) evs = [] \<longleftrightarrow> evs = []"
    using pos by simp
  moreover have "drift_load_snapshot m0 evs = m"
  proof -
    have "drift_clear m0 = m0" using m0 by (cases m0) (simp add: drift_clear_def)
    moreover have "dm_buffer (fold (\<lambda>ev m. drift_record m ev) (last_n (nat capacity) evs) m0) =
        dm_buffer m"
      unfolding m_def buf using last_n_append [of "nat capacity" evs "[]"] by simp
    moreover have "m1 = m2" if "dm_buffer m1 = dm_buffer m2" "dm_capacity m1 = dm_capacity m2"
      for m1 m2 :: drift_memory using that by (cases m1; cases m2) simp
    ultimately show ?thesis unfolding m_def by (simp add: drift_load_snapshot_def m0 cap)
  qed
  ultimately show ?thesis
    by (simp add: m_def buf drift_recent_def drift_last_def)
qed

definition demo_drift :: "int \<Rightarrow> string \<Rightarrow> string option \<Rightarrow> string \<Rightarrow> drift_event" where
  "demo_drift ts sid gid sig =
     \<lparr>de_timestamp = ts, de_subgoal_id = sid, de_segment_id = gid, de_step_id = None,
      de_signal_type = sig, de_confidence = 1, de_details = Fields []\<rparr>"

lemma drift_buffer_window_example:
  "drift_recent (fold (\<lambda>ev m. drift_record m ev)
      (map (\<lambda>t. demo_drift t ''g'' None ''x'') [1, 2, 3]) \<lparr>dm_capacity = 2, dm_buffer = []\<rparr>) 1 =
    [demo_drift 3 ''g'' None ''x'']"
proof -
  have "drift_new 2 = Inr \<lparr>dm_capacity = 2, dm_buffer = []\<rparr>" by (simp add: drift_new_def)
  from drift_buffer_window [OF this refl, where n = 1 and
      evs = "map (\<lambda>t. demo_drift t ''g'' None ''x'') [1, 2, 3]"] show ?thesis by (simp add: last_n_def)
qed

end
