(* ===== verification/Summaries.thy ===== *)
theory Summaries
  imports MemoryStores
begin

text \<open>
  The structural summaries of \<^verbatim>\<open>agent/memory/summarisation\<close>: the summary types, their fingerprints
  and the staleness test.  A fingerprint is \<open>json_hash\<close> of the fields that drive the summary; what
  the test can tell is stated for a hash without collisions.
\<close>

subsection \<open>Summary types\<close>

record summary_metadata =
  su_generated_at :: int
  su_source_count :: nat
  su_source_fingerprint :: string

record segment_list_summary =
  sl_count :: nat
  sl_first_id :: "string option"
  sl_last_id :: "string option"
  sl_meta :: summary_metadata

record subgoal_chain_summary =
  sc_depth :: nat
  sc_root_id :: "string option"
  sc_leaf_id :: "string option"
  sc_meta :: summary_metadata

record plan_summary =
  pm_segment_count :: nat
  pm_created_at :: string
  pm_has_metadata :: bool
  pm_meta :: summary_metadata

record segment_chain_summary =
  cs_chain_length :: nat
  cs_terminal_state :: string
  cs_meta :: summary_metadata

record drift_summary =
  ds_drift_events :: nat
  ds_last_drift_at :: "int option"
  ds_signal_type_counts :: "nat pydict"
  ds_meta :: summary_metadata

subsection \<open>Fingerprints\<close>

definition segment_list_fingerprint :: "'a mem_env_scheme \<Rightarrow> segment_record list \<Rightarrow> string" where
  "segment_list_fingerprint e rs =
     json_hash e
       (JList (map (\<lambda>r. JList [JStr (gr_segment_id r), JStr (gr_created_at r)]) rs))"

definition subgoal_chain_fingerprint :: "'a mem_env_scheme \<Rightarrow> subgoal_record list \<Rightarrow> string" where
  "subgoal_chain_fingerprint e rs =
     json_hash e
       (JList (map (\<lambda>r. JList [JStr (sr_subgoal_id r), opt_str (sr_parent_id r), JStr (sr_state r)])
          rs))"

text \<open>\<open>bool(record.metadata)\<close>: a dict with an odd key has an entry.\<close>

fun payload_truthy :: "payload \<Rightarrow> bool" where
  "payload_truthy (Fields kvs) = (kvs \<noteq> [])"
| "payload_truthy (OddKeys _ _) = True"

definition plan_fingerprint :: "'a mem_env_scheme \<Rightarrow> plan_record \<Rightarrow> string" where
  "plan_fingerprint e r =
     json_hash e (JObj
       [(''plan_id'', JStr (pr_plan_id r)),
        (''segment_count'', JInt (int (length (pr_segments r)))),
        (''created_at'', JStr (pr_created_at r)),
        (''has_metadata'', JBool (payload_truthy (pr_metadata r)))])"

definition segment_chain_fingerprint :: "'a mem_env_scheme \<Rightarrow> segment_record list \<Rightarrow> string" where
  "segment_chain_fingerprint e rs =
     json_hash e (JList (map (\<lambda>r. JList [JStr (gr_segment_id r), opt_str (gr_state r)]) rs))"

definition drift_fields :: "drift_event \<Rightarrow> json" where
  "drift_fields ev =
     JObj [(''timestamp'', JInt (de_timestamp ev)), (''subgoal_id'', JStr (de_subgoal_id ev)),
           (''segment_id'', opt_str (de_segment_id ev)), (''step_id'', opt_str (de_step_id ev)),
           (''signal_type'', JStr (de_signal_type ev)), (''confidence'', JNum (de_confidence ev))]"

definition drift_fingerprint :: "'a mem_env_scheme \<Rightarrow> drift_event list \<Rightarrow> string" where
  "drift_fingerprint e evs = json_hash e (JList (map drift_fields evs))"

definition make_meta :: "int \<Rightarrow> nat \<Rightarrow> string \<Rightarrow> summary_metadata" where
  "make_meta now n fingerprint =
     \<lparr>su_generated_at = now, su_source_count = n, su_source_fingerprint = fingerprint\<rparr>"

subsection \<open>Summaries\<close>

definition summarise_segment_list ::
  "'a mem_env_scheme \<Rightarrow> segment_record list \<Rightarrow> int \<Rightarrow> segment_list_summary"
where
  "summarise_segment_list e rs now =
     (let sorted_records = sort_key segment_order rs;
          fingerprint = segment_list_fingerprint e sorted_records
      in \<lparr>sl_count = length sorted_records,
          sl_first_id = (case sorted_records of [] \<Rightarrow> None | r # _ \<Rightarrow> Some (gr_segment_id r)),
          sl_last_id = (if sorted_records = [] then None
                        else Some (gr_segment_id (last sorted_records))),
          sl_meta = make_meta now (length sorted_records) fingerprint\<rparr>)"

definition summarise_subgoal_chain ::
  "'a mem_env_scheme \<Rightarrow> subgoal_record list \<Rightarrow> int \<Rightarrow> subgoal_chain_summary"
where
  "summarise_subgoal_chain e rs now =
     \<lparr>sc_depth = length rs,
      sc_root_id = (case rs of [] \<Rightarrow> None | r # _ \<Rightarrow> Some (sr_subgoal_id r)),
      sc_leaf_id = (if rs = [] then None else Some (sr_subgoal_id (last rs))),
      sc_meta = make_meta now (length rs) (subgoal_chain_fingerprint e rs)\<rparr>"

definition summarise_plan :: "'a mem_env_scheme \<Rightarrow> plan_record \<Rightarrow> int \<Rightarrow> plan_summary" where
  "summarise_plan e r now =
     \<lparr>pm_segment_count = length (pr_segments r), pm_created_at = pr_created_at r,
      pm_has_metadata = payload_truthy (pr_metadata r),
      pm_meta = make_meta now 1 (plan_fingerprint e r)\<rparr>"

definition summarise_segment_chain ::
  "'a mem_env_scheme \<Rightarrow> segment_record list \<Rightarrow> int \<Rightarrow> segment_chain_summary"
where
  "summarise_segment_chain e rs now =
     \<lparr>cs_chain_length = length rs,
      cs_terminal_state =
        (if rs = [] then ''pending''
         else (case gr_state (last rs) of None \<Rightarrow> ''pending'' | Some st \<Rightarrow> st)),
      cs_meta = make_meta now (length rs) (segment_chain_fingerprint e rs)\<rparr>"

definition signal_counts :: "drift_event list \<Rightarrow> nat pydict" where
  "signal_counts evs =
     fold (\<lambda>ev counts. dict_set counts (de_signal_type ev)
             (dict_get_or counts (de_signal_type ev) 0 + 1)) evs []"

definition summarise_drift :: "'a mem_env_scheme \<Rightarrow> drift_event list \<Rightarrow> int \<Rightarrow> drift_summary" where
  "summarise_drift e evs now =
     \<lparr>ds_drift_events = length evs,
      ds_last_drift_at = (if evs = [] then None else Some (Max (set (map de_timestamp evs)))),
      ds_signal_type_counts = sort_key fst (signal_counts evs),
      ds_meta = make_meta now (length evs) (drift_fingerprint e evs)\<rparr>"

definition is_stale :: "summary_metadata \<Rightarrow> nat \<Rightarrow> string \<Rightarrow> bool" where
  "is_stale meta current_count current_fingerprint \<longleftrightarrow>
     su_source_count meta \<noteq> current_count \<or> su_source_fingerprint meta \<noteq> current_fingerprint"

subsection \<open>Lemmas\<close>

lemma signal_counts_simps [simp]:
  "signal_counts [] = []"
  "signal_counts (evs @ [ev]) =
     dict_set (signal_counts evs) (de_signal_type ev)
       (Suc (dict_get_or (signal_counts evs) (de_signal_type ev) 0))"
  by (simp_all add: signal_counts_def)

lemma signal_counts_get:
  "dict_get_or (signal_counts evs) sig 0 = count_list (map de_signal_type evs) sig"
  by (induction evs arbitrary: sig rule: rev_induct) (simp_all add: dict_get_or_def [of "[]"])

lemma sum_list_dict_incr:
  "dict_ok d \<Longrightarrow>
   sum_list (map snd (dict_set d k (Suc (dict_get_or d k 0)))) = Suc (sum_list (map snd d))"
  by (induction d) (auto simp: dict_set_def dict_get_or_def dict_get_def split: option.splits)

lemma signal_counts_sum:
  "dict_ok (signal_counts evs) \<and> sum_list (map snd (signal_counts evs)) = length evs"
  by (induction evs rule: rev_induct) (simp_all add: sum_list_dict_incr)

text \<open>The canonical form of a fingerprint's value determines it.\<close>

lemma opt_str_inj [simp]: "opt_str a = opt_str b \<longleftrightarrow> a = b"
  by (auto simp: opt_str_def split: option.splits)

lemma canonical_scalar [simp]: "canonical_json (opt_str s) = opt_str s"
  by (simp add: opt_str_def split: option.splits)

lemma canonical_drift_fields:
  "canonical_json (drift_fields ev) = canonical_json (drift_fields ev') \<longleftrightarrow>
     de_timestamp ev = de_timestamp ev' \<and> de_subgoal_id ev = de_subgoal_id ev' \<and>
     de_segment_id ev = de_segment_id ev' \<and> de_step_id ev = de_step_id ev' \<and>
     de_signal_type ev = de_signal_type ev' \<and> de_confidence ev = de_confidence ev'"
  by (auto simp: drift_fields_def)

subsection \<open>What staleness detects\<close>

abbreviation segment_stamp :: "segment_record \<Rightarrow> string \<times> string" where
  "segment_stamp r \<equiv> (gr_created_at r, gr_segment_id r)"

lemma sort_key_map_comm: "map f (sort_key (\<lambda>x. g (f x)) xs) = sort_key g (map f xs)"
proof (rule properties_for_sort_key [symmetric])
  show "mset (map f (sort_key (\<lambda>x. g (f x)) xs)) = mset (map f xs)" by simp
  show "sorted (map g (map f (sort_key (\<lambda>x. g (f x)) xs)))"
    using sorted_sort_key [of "\<lambda>x. g (f x)" xs] by (simp add: comp_def)
  fix k
  assume "k \<in> set (map f (sort_key (\<lambda>x. g (f x)) xs))"
  show "filter (\<lambda>y. g k = g y) (map f (sort_key (\<lambda>x. g (f x)) xs)) =
      filter (\<lambda>y. g k = g y) (map f xs)"
    using sort_key_stable [of "\<lambda>x. g (f x)" "g k" xs]
    by (simp add: filter_map comp_def eq_commute [of "g k"])
qed

lemma sort_eq_iff_mset: "sort xs = sort ys \<longleftrightarrow> mset xs = mset ys"
proof
  assume "sort xs = sort ys"
  then have "mset (sort xs) = mset (sort ys)" by simp
  then show "mset xs = mset ys" by simp
next
  assume "mset xs = mset ys"
  then show "sort xs = sort ys" by (intro properties_for_sort) simp_all
qed

lemma stamps_sorted:
  "map segment_stamp (sort_key segment_order rs) = sort (map segment_stamp rs)"
  using sort_key_map_comm [of segment_stamp "\<lambda>x. x" rs]
  by (simp add: segment_order_def [abs_def])

definition stamps_value :: "segment_record list \<Rightarrow> json" where
  "stamps_value rs = JList (map (\<lambda>r. JList [JStr (gr_segment_id r), JStr (gr_created_at r)]) rs)"

lemma stamps_value_eq:
  "stamps_value rs = stamps_value rs' \<longleftrightarrow> map segment_stamp rs = map segment_stamp rs'"
proof -
  let ?h = "\<lambda>(c, i). JList [JStr i, JStr c]"
  have "inj ?h" by (auto simp: inj_on_def)
  then have "map ?h (map segment_stamp rs) = map ?h (map segment_stamp rs') \<longleftrightarrow>
      map segment_stamp rs = map segment_stamp rs'" by (rule inj_map_eq_map)
  then show ?thesis by (simp add: stamps_value_def comp_def)
qed

lemma segment_list_fingerprint_digest:
  "segment_list_fingerprint e rs = me_digest e (stamps_value rs)"
  by (simp add: segment_list_fingerprint_def json_hash_def stamps_value_def comp_def)

text \<open>The summary of a segment list is stale for a later list, fingerprinted the way the summary
  was, exactly when the two lists differ as multisets of ids with creation times, provided the
  hash does not collide on the two fingerprinted values.  So neither a reordering of the records nor
  a change that keeps the id (context, metadata, outputs, error) makes a summary stale.
\<close>

lemma segment_summary_staleness:
  assumes "inj_on (me_digest e)
    {stamps_value (sort_key segment_order rs), stamps_value (sort_key segment_order rs')}"
  shows "is_stale (sl_meta (summarise_segment_list e rs now)) (length rs')
      (segment_list_fingerprint e (sort_key segment_order rs')) \<longleftrightarrow>
    image_mset segment_stamp (mset rs) \<noteq> image_mset segment_stamp (mset rs')"
proof -
  have "segment_list_fingerprint e (sort_key segment_order rs) =
      segment_list_fingerprint e (sort_key segment_order rs') \<longleftrightarrow>
      sort (map segment_stamp rs) = sort (map segment_stamp rs')"
    unfolding segment_list_fingerprint_digest
    by (subst inj_on_eq_iff [OF assms]) (simp_all add: stamps_value_eq stamps_sorted)
  moreover have "sort (map segment_stamp rs) = sort (map segment_stamp rs') \<longleftrightarrow>
      mset (map segment_stamp rs) = mset (map segment_stamp rs')"
    by (rule sort_eq_iff_mset)
  moreover have "length rs = length rs'"
    if "mset (map segment_stamp rs) = mset (map segment_stamp rs')"
    using mset_eq_length [OF that] by simp
  moreover have "is_stale (sl_meta (summarise_segment_list e rs now)) (length rs')
        (segment_list_fingerprint e (sort_key segment_order rs')) \<longleftrightarrow>
      length rs \<noteq> length rs' \<or>
      segment_list_fingerprint e (sort_key segment_order rs) \<noteq>
        segment_list_fingerprint e (sort_key segment_order rs')"
    by (simp add: is_stale_def summarise_segment_list_def make_meta_def Let_def)
  ultimately show ?thesis unfolding mset_map [symmetric] by blast
qed

definition demo_mem_env :: mem_env where
  "demo_mem_env = env.extend sample_env
     \<lparr>me_digest = (\<lambda>v. case v of JList vs \<Rightarrow> nat_digits (length vs)
        | JObj kvs \<Rightarrow> (case map_of kvs ''timestamp'' of Some (JInt t) \<Rightarrow> int_str t | _ \<Rightarrow> ''obj'')
        | _ \<Rightarrow> ''other''),
      me_iso = (\<lambda>s. if s = [] then None else Some s)\<rparr>"

lemma segment_summary_staleness_example:
  "is_stale (sl_meta (summarise_segment_list demo_mem_env
       [demo_segment ''a'' None ''g'', demo_segment ''b'' None ''g''] 7)) 1
     (segment_list_fingerprint demo_mem_env
       (sort_key segment_order [demo_segment ''a'' None ''g'']))"
proof -
  let ?rs = "[demo_segment ''a'' None ''g'', demo_segment ''b'' None ''g'']"
  let ?rs' = "[demo_segment ''a'' None ''g'']"
  have digest: "me_digest demo_mem_env (stamps_value xs) = nat_digits (length xs)" for xs
    by (simp add: demo_mem_env_def stamps_value_def mem_env.defs env.defs)
  have "inj_on (me_digest demo_mem_env)
      {stamps_value (sort_key segment_order ?rs), stamps_value (sort_key segment_order ?rs')}"
    unfolding inj_on_def by (simp add: digest) (auto dest: nat_digits_inj)
  from segment_summary_staleness [OF this, of 7] show ?thesis by simp
qed

end
