(* ===== verification/Eviction.thy ===== *)
theory Eviction
  imports Summaries
begin

text \<open>
  Eviction from the memory stores: the rules of \<^verbatim>\<open>agent/memory/eviction/eviction_rules.py\<close> (pure
  functions from data to decisions) and the orchestrator of \<^verbatim>\<open>eviction_orchestrator.py\<close>, which
  takes snapshots, runs a rule and applies its decisions.  A Python set of ids is a set; the
  worklist of \<open>_ancestor_closure\<close> is a list whose last element is popped.  \<open>memory\<close> is the
  environment together with the four stores the orchestrator holds.
\<close>

subsection \<open>Data\<close>

record access_record =
  ar_record_id :: string
  ar_record_type :: string
  ar_access_count :: int
  ar_last_accessed_at :: int

record eviction_decision =
  ed_record_id :: string
  ed_record_type :: string
  ed_reason :: string
  ed_evicted_at :: int
  ed_details :: "json pydict"

record eviction_report =
  er_decisions :: "eviction_decision list"
  er_eviction_count :: nat
  er_generated_at :: int
  er_reason :: string

record drift_eviction_report =
  dr_evicted_drift_events :: "eviction_decision list"
  dr_preserved_segment_id :: "string option"
  dr_generated_at :: int

record completion_summary =
  cm_subgoal_id :: string
  cm_evicted_segments :: "eviction_decision list"
  cm_evicted_drift_events :: "eviction_decision list"
  cm_evicted_plans :: "eviction_decision list"
  cm_generated_at :: int

subsection \<open>Helpers\<close>

definition drift_event_hash :: "'a mem_env_scheme \<Rightarrow> drift_event \<Rightarrow> string" where
  "drift_event_hash e ev = json_hash e (drift_fields ev)"

definition drift_event_id :: "'a mem_env_scheme \<Rightarrow> nat \<Rightarrow> drift_event \<Rightarrow> string" where
  "drift_event_id e ordinal ev = nat_digits ordinal @ '':'' @ drift_event_hash e ev"

definition drift_order :: "drift_event \<Rightarrow> int \<times> string \<times> string" where
  "drift_order ev = (de_timestamp ev, de_subgoal_id ev, de_signal_type ev)"

definition empty_report :: "int \<Rightarrow> string \<Rightarrow> eviction_report" where
  "empty_report now reason =
     \<lparr>er_decisions = [], er_eviction_count = 0, er_generated_at = now, er_reason = reason\<rparr>"

text \<open>The truthy parent of a record: \<open>None\<close> and the empty string are falsy.\<close>

definition truthy_parent :: "string option \<Rightarrow> string list" where
  "truthy_parent p = (case p of None \<Rightarrow> [] | Some i \<Rightarrow> if i = [] then [] else [i])"

definition compute_segment_refs :: "segment_record list \<Rightarrow> plan_record list \<Rightarrow> string set" where
  "compute_segment_refs segments plans =
     set (concat (map (\<lambda>s. truthy_parent (gr_parent_id s)) segments) @
          concat (map pr_segments plans))"

definition compute_subgoal_refs :: "subgoal_record list \<Rightarrow> string set" where
  "compute_subgoal_refs subgoals =
     set (concat (map (\<lambda>s. truthy_parent (sr_parent_id s)) subgoals))"

text \<open>The parent that the closure follows: truthy and in the dict.\<close>

definition closure_parent :: "segment_record pydict \<Rightarrow> string \<Rightarrow> string option" where
  "closure_parent by_id i =
     (case dict_get by_id i of
        None \<Rightarrow> None
      | Some seg \<Rightarrow>
          (case gr_parent_id seg of
             None \<Rightarrow> None
           | Some p \<Rightarrow> if p \<noteq> [] \<and> p \<in> set (dict_keys by_id) then Some p else None))"

lemma closure_parent_key: "closure_parent by_id i = Some p \<Longrightarrow> p \<in> set (dict_keys by_id)"
  by (auto simp: closure_parent_def split: option.splits if_splits)

function closure_loop :: "segment_record pydict \<Rightarrow> string list \<Rightarrow> string list \<Rightarrow> string list" where
  "closure_loop by_id queue closure =
     (if queue = [] then closure
      else (let current_id = last queue; queue = butlast queue
            in case closure_parent by_id current_id of
                 None \<Rightarrow> closure_loop by_id queue closure
               | Some p \<Rightarrow>
                   if p \<notin> set closure then closure_loop by_id (queue @ [p]) (closure @ [p])
                   else closure_loop by_id queue closure))"
  by pat_completeness auto

termination
proof (relation "measures [\<lambda>(by_id, _, closure). card (set (dict_keys by_id) - set closure),
      \<lambda>(_, queue, _). length queue]")
  fix by_id :: "segment_record pydict" and queue closure :: "string list" and x xa p
  assume *: "queue \<noteq> []" "x = last queue" "xa = butlast queue"
    "closure_parent by_id x = Some p" "p \<notin> set closure"
  from *(4) have "p \<in> set (dict_keys by_id)" by (rule closure_parent_key)
  with *(5) have "card (set (dict_keys by_id) - set (closure @ [p])) <
      card (set (dict_keys by_id) - set closure)"
    by (intro psubset_card_mono) auto
  then show "((by_id, xa @ [p], closure @ [p]), by_id, queue, closure)
      \<in> measures [\<lambda>(by_id, _, closure). card (set (dict_keys by_id) - set closure),
          \<lambda>(_, queue, _). length queue]" by simp
qed (auto simp: Let_def)

declare closure_loop.simps [simp del]

definition ancestor_closure :: "string list \<Rightarrow> segment_record pydict \<Rightarrow> string set" where
  "ancestor_closure seed_ids by_id = set (closure_loop by_id seed_ids seed_ids)"

subsection \<open>Strategies\<close>

definition evict_lru ::
  "access_record pydict \<Rightarrow> string set \<Rightarrow> int \<Rightarrow> int \<Rightarrow> eviction_report"
where
  "evict_lru access_log protected n now =
     (if n \<le> 0 then empty_report now ''LRU''
      else (let candidates = map snd (filter (\<lambda>(rec_id, ar). rec_id \<notin> protected) access_log);
                sorted_candidates =
                  sort_key (\<lambda>ar. (ar_last_accessed_at ar, ar_record_id ar)) candidates;
                to_evict = take (nat n) sorted_candidates;
                decisions = map (\<lambda>ar.
                  \<lparr>ed_record_id = ar_record_id ar, ed_record_type = ar_record_type ar,
                   ed_reason = ''LRU'', ed_evicted_at = now,
                   ed_details = [(''last_accessed_at'', JInt (ar_last_accessed_at ar)),
                                 (''access_count'', JInt (ar_access_count ar))]\<rparr>) to_evict
            in \<lparr>er_decisions = decisions, er_eviction_count = length decisions,
                er_generated_at = now, er_reason = ''LRU''\<rparr>))"

definition evict_lfu ::
  "access_record pydict \<Rightarrow> string set \<Rightarrow> int \<Rightarrow> int \<Rightarrow> eviction_report"
where
  "evict_lfu access_log protected n now =
     (if n \<le> 0 then empty_report now ''LFU''
      else (let candidates = map snd (filter (\<lambda>(rec_id, ar). rec_id \<notin> protected) access_log);
                sorted_candidates =
                  sort_key (\<lambda>ar. (ar_access_count ar, ar_last_accessed_at ar, ar_record_id ar))
                    candidates;
                to_evict = take (nat n) sorted_candidates;
                decisions = map (\<lambda>ar.
                  \<lparr>ed_record_id = ar_record_id ar, ed_record_type = ar_record_type ar,
                   ed_reason = ''LFU'', ed_evicted_at = now,
                   ed_details = [(''access_count'', JInt (ar_access_count ar)),
                                 (''last_accessed_at'', JInt (ar_last_accessed_at ar))]\<rparr>) to_evict
            in \<lparr>er_decisions = decisions, er_eviction_count = length decisions,
                er_generated_at = now, er_reason = ''LFU''\<rparr>))"

text \<open>The candidates of a drift eviction that meet an enabled condition, by index.\<close>

definition drift_evict_indices ::
  "drift_event list \<Rightarrow> int \<Rightarrow> int \<Rightarrow> string list \<Rightarrow> int \<Rightarrow> nat list"
where
  "drift_evict_indices candidates threshold_count threshold_age_ms signal_patterns now =
     (let max_keep = max 0 (threshold_count - 1);
          n_by_count = int (length candidates) - max_keep
      in filter (\<lambda>i.
           threshold_count > 0 \<and> int (length candidates) > max_keep \<and> int i < n_by_count \<or>
           threshold_age_ms > 0 \<and> now - de_timestamp (candidates ! i) > threshold_age_ms \<or>
           signal_patterns \<noteq> [] \<and> de_signal_type (candidates ! i) \<in> set signal_patterns)
         [0..<length candidates])"

definition evict_by_drift ::
  "'a mem_env_scheme \<Rightarrow> drift_event list \<Rightarrow> int \<Rightarrow> int \<Rightarrow> string list \<Rightarrow> int \<Rightarrow> drift_eviction_report"
where
  "evict_by_drift e drift_events threshold_count threshold_age_ms signal_patterns now =
     (if drift_events = [] then
        \<lparr>dr_evicted_drift_events = [], dr_preserved_segment_id = None, dr_generated_at = now\<rparr>
      else (let sorted_events = sort_key drift_order drift_events;
                last_event = last sorted_events;
                candidates = butlast sorted_events;
                to_evict = map (\<lambda>i. candidates ! i)
                  (drift_evict_indices candidates threshold_count threshold_age_ms
                     signal_patterns now)
            in \<lparr>dr_evicted_drift_events =
                  map (\<lambda>(i, ev).
                    \<lparr>ed_record_id = drift_event_id e i ev, ed_record_type = ''drift_event'',
                     ed_reason = ''DRIFT'', ed_evicted_at = now,
                     ed_details = [(''timestamp'', JInt (de_timestamp ev)),
                                   (''subgoal_id'', JStr (de_subgoal_id ev)),
                                   (''signal_type'', JStr (de_signal_type ev)),
                                   (''age_ms'', JInt (now - de_timestamp ev))]\<rparr>)
                    (enumerate 0 to_evict),
                dr_preserved_segment_id = de_segment_id last_event, dr_generated_at = now\<rparr>))"

text \<open>The segments of a subgoal that something outside it refers to.\<close>

definition external_refs ::
  "string \<Rightarrow> segment_record list \<Rightarrow> plan_record list \<Rightarrow> string list"
where
  "external_refs subgoal_id segments plans =
     (let target_ids = map gr_segment_id (filter (\<lambda>s. gr_subgoal_id s = subgoal_id) segments)
      in remdups (filter (\<lambda>i. i \<in> set target_ids)
           (concat (map (\<lambda>s. truthy_parent (gr_parent_id s))
              (filter (\<lambda>s. gr_subgoal_id s \<noteq> subgoal_id) segments)) @
            concat (map pr_segments (filter (\<lambda>p. pr_subgoal_id p \<noteq> subgoal_id) plans)))))"

definition safe_to_evict ::
  "string \<Rightarrow> segment_record list \<Rightarrow> plan_record list \<Rightarrow> segment_record list"
where
  "safe_to_evict subgoal_id segments plans =
     (let target_segments = filter (\<lambda>s. gr_subgoal_id s = subgoal_id) segments;
          by_id = records_load gr_segment_id target_segments;
          retained = ancestor_closure (external_refs subgoal_id segments plans) by_id
      in filter (\<lambda>s. gr_segment_id s \<notin> retained) target_segments)"

definition evictable_drift ::
  "string \<Rightarrow> string set \<Rightarrow> drift_event \<Rightarrow> bool"
where
  "evictable_drift subgoal_id safe_ids ev \<longleftrightarrow>
     (case de_segment_id ev of
        Some g \<Rightarrow> g \<in> safe_ids
      | None \<Rightarrow> de_subgoal_id ev = subgoal_id)"

definition completion_decision ::
  "string \<Rightarrow> string \<Rightarrow> int \<Rightarrow> json pydict \<Rightarrow> eviction_decision"
where
  "completion_decision rid rtype now details =
     \<lparr>ed_record_id = rid, ed_record_type = rtype, ed_reason = ''SUBGOAL_COMPLETE'',
      ed_evicted_at = now, ed_details = details\<rparr>"

definition evict_on_subgoal_completion ::
  "'a mem_env_scheme \<Rightarrow> string \<Rightarrow> segment_record list \<Rightarrow> drift_event list \<Rightarrow> plan_record list
   \<Rightarrow> int \<Rightarrow> bool \<Rightarrow> completion_summary"
where
  "evict_on_subgoal_completion e subgoal_id segments drift_events plans now evict_plan =
     (let safe = safe_to_evict subgoal_id segments plans;
          safe_ids = set (map gr_segment_id safe);
          evictable = sort_key drift_order (filter (evictable_drift subgoal_id safe_ids) drift_events)
      in \<lparr>cm_subgoal_id = subgoal_id,
          cm_evicted_segments = map (\<lambda>s.
            completion_decision (gr_segment_id s) ''segment'' now
              [(''subgoal_id'', JStr subgoal_id)]) safe,
          cm_evicted_drift_events = map (\<lambda>(i, ev).
            completion_decision (drift_event_id e i ev) ''drift_event'' now
              [(''segment_id'', opt_str (de_segment_id ev)),
               (''subgoal_id'', JStr (de_subgoal_id ev))]) (enumerate 0 evictable),
          cm_evicted_plans =
            (if evict_plan then
               map (\<lambda>p. completion_decision (pr_plan_id p) ''plan'' now
                      [(''subgoal_id'', JStr subgoal_id)])
                 (filter (\<lambda>p. pr_subgoal_id p = subgoal_id \<and> set (pr_segments p) \<subseteq> safe_ids) plans)
             else []),
          cm_generated_at = now\<rparr>)"

definition evict_by_summary_replacement ::
  "segment_record list \<Rightarrow> summary_metadata \<Rightarrow> string \<Rightarrow> string set \<Rightarrow> int \<Rightarrow> eviction_report"
where
  "evict_by_summary_replacement records meta current_fingerprint protected now =
     (if is_stale meta (length records) current_fingerprint
      then empty_report now ''SUMMARY_REPLACEMENT''
      else (let decisions = map (\<lambda>r.
                  \<lparr>ed_record_id = gr_segment_id r, ed_record_type = ''segment'',
                   ed_reason = ''SUMMARY_REPLACEMENT'', ed_evicted_at = now,
                   ed_details = [(''summary_fingerprint'', JStr current_fingerprint)]\<rparr>)
                  (filter (\<lambda>r. gr_segment_id r \<notin> protected) records)
            in \<lparr>er_decisions = decisions, er_eviction_count = length decisions,
                er_generated_at = now, er_reason = ''SUMMARY_REPLACEMENT''\<rparr>))"

subsection \<open>The orchestrator\<close>

record memory = mem_env +
  mm_segments :: segment_store
  mm_subgoals :: subgoal_store
  mm_plans :: plan_store
  mm_drift :: drift_memory

definition remove_drift_by_decisions ::
  "'a mem_env_scheme \<Rightarrow> eviction_decision list \<Rightarrow> drift_event list \<Rightarrow> drift_memory \<Rightarrow> drift_memory"
where
  "remove_drift_by_decisions e decisions all_events dm =
     (if decisions = [] then dm
      else (let sorted_events = sort_key drift_order all_events;
                decision_ids = set (map ed_record_id decisions);
                events_to_remove = map snd
                  (filter (\<lambda>(i, ev). drift_event_id e i ev \<in> decision_ids) (enumerate 0 sorted_events))
            in drift_remove_events dm events_to_remove))"

definition apply_completion ::
  "completion_summary \<Rightarrow> drift_event list \<Rightarrow> 'a memory_scheme \<Rightarrow> 'a memory_scheme"
where
  "apply_completion summary drift_events m =
     m\<lparr>mm_segments := segment_remove (mm_segments m) (map ed_record_id (cm_evicted_segments summary)),
       mm_plans := plan_remove (mm_plans m) (map ed_record_id (cm_evicted_plans summary)),
       mm_drift := remove_drift_by_decisions m (cm_evicted_drift_events summary) drift_events
                     (mm_drift m)\<rparr>"

text \<open>\<open>now or int(time.time() * 1000)\<close>.\<close>

definition now_or_clock :: "int option \<Rightarrow> 'a env_scheme \<Rightarrow> int \<times> 'a env_scheme" where
  "now_or_clock now e =
     (case now of Some t \<Rightarrow> if t \<noteq> 0 then (t, e) else now_ms e | None \<Rightarrow> now_ms e)"

definition on_subgoal_completed ::
  "string \<Rightarrow> int option \<Rightarrow> bool \<Rightarrow> 'a memory_scheme \<Rightarrow> completion_summary \<times> 'a memory_scheme"
where
  "on_subgoal_completed subgoal_id now evict_plan m =
     (let (now, m) = now_or_clock now m;
          segments = segment_snapshot (mm_segments m);
          drift_events = dm_buffer (mm_drift m);
          plans = plan_snapshot (mm_plans m);
          summary =
            evict_on_subgoal_completion m subgoal_id segments drift_events plans now evict_plan
      in (summary, apply_completion summary drift_events m))"

definition on_drift_overflow ::
  "int option \<Rightarrow> int \<Rightarrow> int \<Rightarrow> string list \<Rightarrow> 'a memory_scheme \<Rightarrow> 'a memory_scheme"
where
  "on_drift_overflow now threshold_count threshold_age_ms signal_patterns m =
     (let (now, m) = now_or_clock now m;
          drift_events = dm_buffer (mm_drift m);
          report = evict_by_drift m drift_events threshold_count threshold_age_ms
                     signal_patterns now
      in m\<lparr>mm_drift := remove_drift_by_decisions m (dr_evicted_drift_events report) drift_events
                         (mm_drift m)\<rparr>)"

definition on_episode_compacted ::
  "string list \<Rightarrow> int option \<Rightarrow> 'a memory_scheme \<Rightarrow> 'a memory_scheme"
where
  "on_episode_compacted compacted_subgoal_ids now m =
     (let (now, m) = now_or_clock now m
      in fold (\<lambda>sid m. snd (on_subgoal_completed sid (Some now) False m))
           (sort (remdups compacted_subgoal_ids)) m)"

subsection \<open>The ancestor closure\<close>

definition parent_steps :: "segment_record pydict \<Rightarrow> (string \<times> string) set" where
  "parent_steps by_id = {(i, p). closure_parent by_id i = Some p}"

lemma last_in_queue: "queue \<noteq> [] \<Longrightarrow> set queue = insert (last queue) (set (butlast queue))"
  by (induction queue rule: rev_induct) auto

lemma closure_loop_reach:
  assumes "set queue \<subseteq> set closure"
    and "\<And>i p. i \<in> set closure - set queue \<Longrightarrow> closure_parent by_id i = Some p \<Longrightarrow> p \<in> set closure"
  shows "set (closure_loop by_id queue closure) = (parent_steps by_id)\<^sup>* `` set closure"
  using assms
proof (induction by_id queue closure rule: closure_loop.induct)
  case (1 by_id queue closure)
  show ?case
  proof (cases "queue = []")
    case True
    then have "parent_steps by_id `` set closure \<subseteq> set closure"
      using "1.prems"(2) by (auto simp: parent_steps_def)
    then show ?thesis by (simp add: True closure_loop.simps Image_closed_trancl)
  next
    case False
    let ?i = "last queue"
    note queue = last_in_queue [OF False]
    show ?thesis
    proof (cases "\<exists>p. closure_parent by_id ?i = Some p \<and> p \<notin> set closure")
      case True
      then obtain p where p: "closure_parent by_id ?i = Some p" "p \<notin> set closure" by auto
      have "set (closure_loop by_id queue closure) =
          set (closure_loop by_id (butlast queue @ [p]) (closure @ [p]))"
        using False p by (simp add: closure_loop.simps [of by_id queue])
      also have "\<dots> = (parent_steps by_id)\<^sup>* `` set (closure @ [p])"
      proof (rule "1.IH"(2) [OF False refl refl p])
        show "set (butlast queue @ [p]) \<subseteq> set (closure @ [p])" using "1.prems"(1) queue by auto
        fix i q
        assume "i \<in> set (closure @ [p]) - set (butlast queue @ [p])"
          and q: "closure_parent by_id i = Some q"
        then have "i = ?i \<or> i \<in> set closure - set queue" using queue by auto
        then show "q \<in> set (closure @ [p])" using "1.prems"(2) q p(1) by auto
      qed
      also have "\<dots> = (parent_steps by_id)\<^sup>* `` set closure"
      proof -
        have "?i \<in> set closure" using "1.prems"(1) queue by auto
        moreover have "(?i, p) \<in> parent_steps by_id" using p(1) by (simp add: parent_steps_def)
        ultimately show ?thesis by (auto intro: converse_rtrancl_into_rtrancl)
      qed
      finally show ?thesis .
    next
      case not_new: False
      have "set (closure_loop by_id queue closure) =
          set (closure_loop by_id (butlast queue) closure)"
        using False not_new
        by (auto simp: closure_loop.simps [of by_id queue] Let_def split: option.splits)
      also have "\<dots> = (parent_steps by_id)\<^sup>* `` set closure"
      proof -
        have sub: "set (butlast queue) \<subseteq> set closure" using "1.prems"(1) queue by auto
        have inv: "q \<in> set closure"
          if "i \<in> set closure - set (butlast queue)" "closure_parent by_id i = Some q" for i q
        proof (cases "i = ?i")
          case True
          with that not_new show ?thesis by auto
        next
          case False
          with that queue have "i \<in> set closure - set queue" by auto
          with that(2) show ?thesis by (rule "1.prems"(2) [rotated])
        qed
        show ?thesis
        proof (cases "closure_parent by_id ?i")
          case None
          show ?thesis by (rule "1.IH"(1) [OF False refl refl None sub]) (rule inv)
        next
          case (Some p)
          with not_new have mem: "\<not> p \<notin> set closure" by auto
          show ?thesis by (rule "1.IH"(3) [OF False refl refl Some mem sub]) (rule inv)
        qed
      qed
      finally show ?thesis .
    qed
  qed
qed

lemma ancestor_closure_reach: "ancestor_closure ids by_id = (parent_steps by_id)\<^sup>* `` set ids"
  unfolding ancestor_closure_def by (rule closure_loop_reach) auto

subsection \<open>What a completed subgoal evicts\<close>

definition owned :: "string \<Rightarrow> segment_store \<Rightarrow> string \<Rightarrow> bool" where
  "owned sid s i \<longleftrightarrow> (\<exists>r. dict_get s i = Some r \<and> gr_subgoal_id r = sid)"

definition referenced :: "string \<Rightarrow> segment_store \<Rightarrow> plan_store \<Rightarrow> string \<Rightarrow> bool" where
  "referenced sid s ps i \<longleftrightarrow>
     (\<exists>r \<in> ran (dict_get s). gr_subgoal_id r \<noteq> sid \<and> gr_parent_id r = Some i \<and> i \<noteq> []) \<or>
     (\<exists>p \<in> ran (dict_get ps). pr_subgoal_id p \<noteq> sid \<and> i \<in> set (pr_segments p))"

definition own_parents :: "string \<Rightarrow> segment_store \<Rightarrow> (string \<times> string) set" where
  "own_parents sid s =
     {(i, p). \<exists>r. dict_get s i = Some r \<and> gr_subgoal_id r = sid \<and> gr_parent_id r = Some p \<and>
        p \<noteq> [] \<and> owned sid s p}"

text \<open>
  The segments of the subgoal that are needed: those something outside the subgoal refers to, and
  their ancestors within the subgoal.
\<close>

definition needed :: "string \<Rightarrow> segment_store \<Rightarrow> plan_store \<Rightarrow> string set" where
  "needed sid s ps = (own_parents sid s)\<^sup>* `` {i. owned sid s i \<and> referenced sid s ps i}"

lemma truthy_parent_iff: "i \<in> set (truthy_parent p) \<longleftrightarrow> p = Some i \<and> i \<noteq> []"
  by (auto simp: truthy_parent_def split: option.splits)

lemma asdict_fields [simp]:
  "gr_segment_id (record_asdict r) = gr_segment_id r"
  "gr_parent_id (record_asdict r) = gr_parent_id r"
  "gr_subgoal_id (record_asdict r) = gr_subgoal_id r"
  by (simp_all add: record_asdict_def)

lemma snapshot_records:
  assumes "records_ok gr_segment_id s"
  shows "set (segment_snapshot s) = record_asdict ` ran (dict_get s)"
  using sem.snapshot_set [OF assms] by (simp add: segment_get_record_def [abs_def])

lemma plan_snapshot_records:
  assumes "records_ok pr_plan_id ps"
  shows "set (plan_snapshot ps) = ran (dict_get ps)"
  using plm.snapshot_set [OF assms] by (simp add: plan_get_record_def [abs_def])

lemma owned_snapshot:
  assumes ok: "records_ok gr_segment_id s"
  shows "(\<exists>r \<in> set (segment_snapshot s). gr_segment_id r = i \<and> gr_subgoal_id r = sid) \<longleftrightarrow>
    owned sid s i"
  unfolding snapshot_records [OF ok] owned_def ran_def
  using records_ok_get [OF ok] by fastforce

lemma by_id_get:
  assumes ok: "records_ok gr_segment_id s"
  shows "dict_get (records_load gr_segment_id
      (filter (\<lambda>r. gr_subgoal_id r = sid) (segment_snapshot s))) i =
    (case dict_get s i of
       None \<Rightarrow> None
     | Some r \<Rightarrow> if gr_subgoal_id r = sid then Some (record_asdict r) else None)"
    (is "dict_get (records_load _ ?targets) i = ?rhs")
proof -
  have uniq: "distinct (map gr_segment_id ?targets)"
    using sem.snapshot_keys [OF ok] by (rule distinct_map_filter)
  have mem: "r \<in> set ?targets \<longleftrightarrow>
      (\<exists>q. dict_get s (gr_segment_id r) = Some q \<and> gr_subgoal_id q = sid \<and> r = record_asdict q)" for r
  proof
    assume "r \<in> set ?targets"
    then obtain q k where "dict_get s k = Some q" "r = record_asdict q" "gr_subgoal_id q = sid"
      using snapshot_records [OF ok] by (auto simp: ran_def)
    moreover from this have "gr_segment_id q = k" using records_ok_get [OF ok] by simp
    ultimately show "\<exists>q. dict_get s (gr_segment_id r) = Some q \<and> gr_subgoal_id q = sid \<and>
        r = record_asdict q" by auto
  qed (auto simp: snapshot_records [OF ok] ran_def)
  show ?thesis
  proof (cases ?rhs)
    case None
    have "gr_segment_id r \<noteq> i" if "r \<in> set ?targets" for r
      using that mem [of r] None by (auto split: option.splits if_splits)
    then have "find (\<lambda>r. gr_segment_id r = i) (rev ?targets) = None" by (auto simp: find_None_iff)
    with None show ?thesis by (simp add: dict_get_load)
  next
    case (Some r)
    then obtain q where q: "dict_get s i = Some q" "gr_subgoal_id q = sid" "r = record_asdict q"
      by (auto split: option.splits if_splits)
    then have id: "gr_segment_id r = i" using records_ok_get [OF ok q(1)] by simp
    with q mem [of r] have r: "r \<in> set ?targets" by auto
    then have "find (\<lambda>r. gr_segment_id r = i) (rev ?targets) \<noteq> None"
      using id by (auto simp: find_None_iff)
    then obtain w where w: "find (\<lambda>r. gr_segment_id r = i) (rev ?targets) = Some w" by auto
    then have "w \<in> set ?targets" "gr_segment_id w = i" by (auto dest: find_SomeD)
    with uniq r id have "w = r" by (auto simp: distinct_map dest: inj_onD)
    with w Some show ?thesis by (simp add: dict_get_load)
  qed
qed

lemma in_concat_map_filter:
  "i \<in> set (concat (map f (filter P xs))) \<longleftrightarrow> (\<exists>x \<in> set xs. P x \<and> i \<in> set (f x))"
  by auto

lemma external_refs_mem:
  "i \<in> set (external_refs sid L PL) \<longleftrightarrow>
     i \<in> gr_segment_id ` {r \<in> set L. gr_subgoal_id r = sid} \<and>
     ((\<exists>r \<in> set L. gr_subgoal_id r \<noteq> sid \<and> i \<in> set (truthy_parent (gr_parent_id r))) \<or>
      (\<exists>p \<in> set PL. pr_subgoal_id p \<noteq> sid \<and> i \<in> set (pr_segments p)))"
  unfolding external_refs_def Let_def set_remdups set_append Un_iff in_concat_map_filter
    set_filter mem_Collect_eq set_map by blast

lemma external_refs_set:
  assumes ok: "records_ok gr_segment_id s" "records_ok pr_plan_id ps"
  shows "set (external_refs sid (segment_snapshot s) (plan_snapshot ps)) =
    {i. owned sid s i \<and> referenced sid s ps i}"
proof -
  have "i \<in> gr_segment_id ` {r \<in> set (segment_snapshot s). gr_subgoal_id r = sid} \<longleftrightarrow>
      owned sid s i" for i
    unfolding owned_snapshot [OF ok(1), symmetric] by auto
  moreover have "(\<exists>r \<in> set (segment_snapshot s). gr_subgoal_id r \<noteq> sid \<and>
        i \<in> set (truthy_parent (gr_parent_id r))) \<longleftrightarrow>
      (\<exists>r \<in> ran (dict_get s). gr_subgoal_id r \<noteq> sid \<and> gr_parent_id r = Some i \<and> i \<noteq> [])" for i
    unfolding snapshot_records [OF ok(1)] truthy_parent_iff by auto
  ultimately show ?thesis
    unfolding set_eq_iff external_refs_mem plan_snapshot_records [OF ok(2)] referenced_def by simp
qed

lemma parent_steps_own:
  assumes ok: "records_ok gr_segment_id s"
  shows "parent_steps (records_load gr_segment_id
      (filter (\<lambda>r. gr_subgoal_id r = sid) (segment_snapshot s))) = own_parents sid s"
proof -
  let ?d = "records_load gr_segment_id (filter (\<lambda>r. gr_subgoal_id r = sid) (segment_snapshot s))"
  have keys: "p \<in> set (dict_keys ?d) \<longleftrightarrow> owned sid s p" for p
    using dict_get_None_iff [of ?d p] unfolding by_id_get [OF ok] owned_def
    by (auto split: option.splits if_splits)
  have "closure_parent ?d i = Some p \<longleftrightarrow> (i, p) \<in> own_parents sid s" for i p
    unfolding closure_parent_def by_id_get [OF ok] keys own_parents_def
    by (auto split: option.splits)
  then show ?thesis by (auto simp: parent_steps_def)
qed

lemma safe_ids:
  assumes ok: "records_ok gr_segment_id s" "records_ok pr_plan_id ps"
  shows "gr_segment_id ` set (safe_to_evict sid (segment_snapshot s) (plan_snapshot ps)) =
    {i. owned sid s i \<and> i \<notin> needed sid s ps}"
proof -
  have "gr_segment_id ` set (safe_to_evict sid (segment_snapshot s) (plan_snapshot ps)) =
      {i. (\<exists>r \<in> set (segment_snapshot s). gr_segment_id r = i \<and> gr_subgoal_id r = sid) \<and>
        i \<notin> needed sid s ps}"
    unfolding safe_to_evict_def Let_def ancestor_closure_reach parent_steps_own [OF ok(1)]
      external_refs_set [OF ok] needed_def [symmetric] by auto
  then show ?thesis unfolding owned_snapshot [OF ok(1)] .
qed

lemma now_or_clock_stores [simp]:
  fixes m :: "'a memory_scheme"
  shows "mm_segments (snd (now_or_clock now m)) = mm_segments m"
    "mm_plans (snd (now_or_clock now m)) = mm_plans m"
    "mm_subgoals (snd (now_or_clock now m)) = mm_subgoals m"
    "mm_drift (snd (now_or_clock now m)) = mm_drift m"
    "me_digest (snd (now_or_clock now m)) = me_digest m"
  by (simp_all add: now_or_clock_def now_ms_def split: option.splits)

lemma on_subgoal_completed_stores:
  fixes m :: "'a memory_scheme"
  assumes ok: "records_ok gr_segment_id (mm_segments m)" "records_ok pr_plan_id (mm_plans m)"
    and m': "m' = snd (on_subgoal_completed sid now evict_plan m)"
  defines "gone \<equiv> \<lambda>i. owned sid (mm_segments m) i \<and> i \<notin> needed sid (mm_segments m) (mm_plans m)"
  shows "dict_get (mm_segments m') i = (if gone i then None else dict_get (mm_segments m) i)"
    and "dict_get (mm_plans m') k =
      (case dict_get (mm_plans m) k of
         None \<Rightarrow> None
       | Some p \<Rightarrow> if evict_plan \<and> pr_subgoal_id p = sid \<and> (\<forall>g \<in> set (pr_segments p). gone g)
                  then None else Some p)"
    and "mm_subgoals m' = mm_subgoals m"
proof -
  obtain t w where tw: "now_or_clock now m = (t, w)" by (cases "now_or_clock now m")
  have w: "mm_segments w = mm_segments m" "mm_plans w = mm_plans m" "mm_subgoals w = mm_subgoals m"
    using now_or_clock_stores [of now m] by (simp_all add: tw)
  let ?safe = "safe_to_evict sid (segment_snapshot (mm_segments m)) (plan_snapshot (mm_plans m))"
  have safe: "i \<in> gr_segment_id ` set ?safe \<longleftrightarrow> gone i" for i
    using safe_ids [OF ok] by (simp add: gone_def)
  show "dict_get (mm_segments m') i = (if gone i then None else dict_get (mm_segments m) i)"
    by (simp add: m' on_subgoal_completed_def tw w Let_def apply_completion_def segment_remove_def
        records_remove_get evict_on_subgoal_completion_def completion_decision_def image_image safe)
  show "mm_subgoals m' = mm_subgoals m"
    by (simp add: m' on_subgoal_completed_def tw w Let_def apply_completion_def)
  have mem: "k \<in> pr_plan_id ` {p \<in> ran (dict_get (mm_plans m)). Q p} \<longleftrightarrow>
      (\<exists>p. dict_get (mm_plans m) k = Some p \<and> Q p)" for Q
    using records_ok_get [OF ok(2)] by (force simp: ran_def)
  have "dict_get (mm_plans m') k =
      (if evict_plan \<and> k \<in> pr_plan_id ` {p \<in> ran (dict_get (mm_plans m)). pr_subgoal_id p = sid \<and>
          set (pr_segments p) \<subseteq> gr_segment_id ` set ?safe} then None else dict_get (mm_plans m) k)"
    by (cases evict_plan)
      (simp_all add: m' on_subgoal_completed_def tw w Let_def apply_completion_def plan_remove_def
        records_remove_get evict_on_subgoal_completion_def completion_decision_def image_image
        plan_snapshot_records [OF ok(2)])
  then show "dict_get (mm_plans m') k =
      (case dict_get (mm_plans m) k of
         None \<Rightarrow> None
       | Some p \<Rightarrow> if evict_plan \<and> pr_subgoal_id p = sid \<and> (\<forall>g \<in> set (pr_segments p). gone g)
                  then None else Some p)"
    unfolding mem subset_eq Ball_def safe by (auto split: option.splits)
qed

subsection \<open>Chains survive a completion\<close>

lemma retained_parent:
  assumes i: "dict_get s i = Some r" "\<not> (owned sid s i \<and> i \<notin> needed sid s ps)"
    and p: "gr_parent_id r = Some p" "p \<noteq> []" "owned sid s p"
  shows "p \<in> needed sid s ps"
proof (cases "gr_subgoal_id r = sid")
  case True
  then have "(i, p) \<in> own_parents sid s" using i(1) p by (auto simp: own_parents_def)
  moreover have "i \<in> needed sid s ps" using i True by (auto simp: owned_def)
  ultimately show ?thesis unfolding needed_def by (auto intro: rtrancl_into_rtrancl)
next
  case False
  then have "referenced sid s ps p" using i(1) p by (auto simp: referenced_def ran_def)
  with p(3) show ?thesis unfolding needed_def by blast
qed

lemma chain_up_sub_store:
  assumes "\<And>i r. dict_get s' i = Some r \<Longrightarrow> dict_get s i = Some r"
    and "\<And>i r p. dict_get s' i = Some r \<Longrightarrow> parent r = Some p \<Longrightarrow> p \<noteq> [] \<Longrightarrow>
      dict_get s' p = dict_get s p"
    and "\<And>i. x = Some i \<Longrightarrow> dict_get s' i = dict_get s i"
  shows "chain_up parent s' x visited = chain_up parent s x visited"
  using assms
proof (induction parent s x visited rule: chain_up.induct)
  case (1 parent s visited)
  then show ?case by simp
next
  case (2 parent s i visited)
  have eq: "dict_get s' i = dict_get s i" using "2.prems"(3) by simp
  show ?case
  proof (cases "i = [] \<or> i \<in> set visited \<or> dict_get s i = None")
    case True
    then show ?thesis using eq by auto
  next
    case False
    then obtain r where r: "dict_get s i = Some r" and new: "\<not> (i = [] \<or> i \<in> set visited)" by auto
    have "chain_up parent s' (parent r) (i # visited) = chain_up parent s (parent r) (i # visited)"
    proof (cases "parent r = Some []")
      case True
      then show ?thesis by simp
    next
      case False
      show ?thesis
      proof (rule "2.IH" [OF new r "2.prems"(1,2)])
        fix j assume "parent r = Some j"
        then show "dict_get s' j = dict_get s j" using "2.prems"(2) [of i r j] False r eq by auto
      qed
    qed
    then show ?thesis using new r eq by simp
  qed
qed

text \<open>C24: Completing a subgoal evicts exactly the segments of the subgoal that nothing needs: a segment
  stays if another subgoal's segment has it as parent, another subgoal's plan lists it, or it is an
  ancestor, within the subgoal, of one that stays for these reasons.  A plan goes only on request,
  and only if it belongs to the subgoal and all its segments go.  The subgoals are untouched.
\<close>

theorem completion_evicts_exactly:
  fixes m :: "'a memory_scheme"
  assumes "records_ok gr_segment_id (mm_segments m)" "records_ok pr_plan_id (mm_plans m)"
  shows "(\<forall>i. dict_get (mm_segments (snd (on_subgoal_completed sid now evict_plan m))) i =
      (if owned sid (mm_segments m) i \<and> i \<notin> needed sid (mm_segments m) (mm_plans m) then None
       else dict_get (mm_segments m) i)) \<and>
    (\<forall>k. dict_get (mm_plans (snd (on_subgoal_completed sid now evict_plan m))) k =
      (case dict_get (mm_plans m) k of
         None \<Rightarrow> None
       | Some p \<Rightarrow>
           if evict_plan \<and> pr_subgoal_id p = sid \<and>
              (\<forall>g \<in> set (pr_segments p). owned sid (mm_segments m) g \<and>
                 g \<notin> needed sid (mm_segments m) (mm_plans m))
           then None else Some p)) \<and>
    mm_subgoals (snd (on_subgoal_completed sid now evict_plan m)) = mm_subgoals m"
  using on_subgoal_completed_stores [OF assms refl] by blast

definition demo_memory :: "segment_record list \<Rightarrow> plan_record list \<Rightarrow> drift_event list \<Rightarrow> memory" where
  "demo_memory segs plans evs =
     mem_env.extend demo_mem_env
       \<lparr>mm_segments = records_load gr_segment_id segs, mm_subgoals = [],
        mm_plans = records_load pr_plan_id plans,
        mm_drift = \<lparr>dm_capacity = 20, dm_buffer = evs\<rparr>\<rparr>"

lemma demo_memory_sel [simp]:
  "mm_segments (demo_memory segs plans evs) = records_load gr_segment_id segs"
  "mm_plans (demo_memory segs plans evs) = records_load pr_plan_id plans"
  "dm_buffer (mm_drift (demo_memory segs plans evs)) = evs"
  "me_digest (demo_memory segs plans evs) = me_digest demo_mem_env"
  by (simp_all add: demo_memory_def memory.defs mem_env.defs)

definition demo_plan_record :: "string \<Rightarrow> string \<Rightarrow> string list \<Rightarrow> plan_record" where
  "demo_plan_record i sid segs =
     \<lparr>pr_plan_id = i, pr_subgoal_id = sid, pr_segments = segs, pr_created_at = ''t'',
      pr_metadata = Fields [], pr_intent = ''do'', pr_targetskillid = ''s'', pr_arguments = Fields [],
      pr_reasoning_summary = []\<rparr>"

theorem completion_evicts_exactly_witness:
  "dict_get (mm_segments (snd (on_subgoal_completed ''g'' None False
     (demo_memory [demo_segment ''a'' None ''g''] [demo_plan_record ''p'' ''g'' [''a'']] [])))) ''a''
   = None"
proof -
  let ?m = "demo_memory [demo_segment ''a'' None ''g''] [demo_plan_record ''p'' ''g'' [''a'']] []"
  have s: "mm_segments ?m = [(''a'', demo_segment ''a'' None ''g'')]"
    and ps: "mm_plans ?m = [(''p'', demo_plan_record ''p'' ''g'' [''a''])]"
    by (simp_all add: records_load_def dict_set_def demo_segment_def demo_plan_record_def)
  have ok: "records_ok gr_segment_id (mm_segments ?m)" "records_ok pr_plan_id (mm_plans ?m)"
    by (simp_all add: records_ok_load)
  have "\<not> referenced ''g'' (mm_segments ?m) (mm_plans ?m) i" for i
    unfolding s ps by (simp add: referenced_def ran_def dict_get_def demo_segment_def
        demo_plan_record_def)
  then have "needed ''g'' (mm_segments ?m) (mm_plans ?m) = {}" by (simp add: needed_def)
  moreover have "owned ''g'' (mm_segments ?m) ''a''"
    unfolding s by (simp add: owned_def dict_get_def demo_segment_def)
  ultimately show ?thesis using completion_evicts_exactly [OF ok, of "''g''" None False] by simp
qed

text \<open>C25: Evicting a completed subgoal never breaks a chain: for every segment that is still stored,
  whichever subgoal it belongs to, \<open>get_chain\<close> returns the same records as before.
\<close>

theorem completion_keeps_chains:
  fixes m :: "'a memory_scheme"
  assumes ok: "records_ok gr_segment_id (mm_segments m)" "records_ok pr_plan_id (mm_plans m)"
    and kept: "segment_exists (mm_segments (snd (on_subgoal_completed sid now evict_plan m))) i"
  shows "segment_get_chain (mm_segments (snd (on_subgoal_completed sid now evict_plan m))) i =
    segment_get_chain (mm_segments m) i"
proof -
  let ?s = "mm_segments m" and ?s' = "mm_segments (snd (on_subgoal_completed sid now evict_plan m))"
  note get = on_subgoal_completed_stores(1) [OF ok refl, of sid now evict_plan]
  have sub: "dict_get ?s j = Some r" and
    parent: "gr_parent_id r = Some p \<Longrightarrow> p \<noteq> [] \<Longrightarrow> dict_get ?s' p = dict_get ?s p"
    if "dict_get ?s' j = Some r" for j r p
  proof -
    show j: "dict_get ?s j = Some r" using that get [of j] by (simp split: if_splits)
    assume "gr_parent_id r = Some p" "p \<noteq> []"
    then have "owned sid ?s p \<Longrightarrow> p \<in> needed sid ?s (mm_plans m)"
      using retained_parent [OF j] that get [of j] by (simp split: if_splits)
    then show "dict_get ?s' p = dict_get ?s p" using get [of p] by auto
  qed
  have "dict_get ?s' i = dict_get ?s i"
    using kept get [of i] dict_get_None_iff [of ?s' i] by (auto simp: segment_exists_def)
  then show ?thesis
    unfolding segment_get_chain_def records_chain_def
    by (intro arg_cong [where f = rev] chain_up_sub_store [OF sub parent]) auto
qed

theorem completion_keeps_chains_witness:
  "segment_get_chain (mm_segments (snd (on_subgoal_completed ''g'' None False
     (demo_memory [demo_segment ''a'' None ''g'', demo_segment ''b'' (Some ''a'') ''h''] [] [])))) ''b''
   = segment_get_chain (mm_segments
     (demo_memory [demo_segment ''a'' None ''g'', demo_segment ''b'' (Some ''a'') ''h''] [] [])) ''b''"
proof -
  let ?m = "demo_memory [demo_segment ''a'' None ''g'', demo_segment ''b'' (Some ''a'') ''h''] [] []"
  have ok: "records_ok gr_segment_id (mm_segments ?m)" "records_ok pr_plan_id (mm_plans ?m)"
    by (simp_all add: records_ok_load)
  have b: "dict_get (mm_segments ?m) ''b'' = Some (demo_segment ''b'' (Some ''a'') ''h'')"
    by (simp add: records_load_def demo_segment_def)
  have "segment_exists (mm_segments (snd (on_subgoal_completed ''g'' None False ?m))) ''b''"
    using on_subgoal_completed_stores(1) [OF ok refl, of "''g''" None False "''b''"] b
      dict_get_in_keys [of "mm_segments (snd (on_subgoal_completed ''g'' None False ?m))" "''b''"]
    by (simp add: segment_exists_def owned_def demo_segment_def)
  then show ?thesis by (rule completion_keeps_chains [OF ok])
qed

subsection \<open>Which drift events go\<close>

lemma colon_not_digit: "CHR '':'' \<notin> set (nat_digits n)"
proof (induction n rule: nat_digits.induct)
  case (1 n)
  have digit: "CHR '':'' \<noteq> char_of (48 + k)" if "k < 10" for k :: nat
  proof
    assume "CHR '':'' = char_of (48 + k)"
    then have "of_char (CHR '':'') = (of_char (char_of (48 + k) :: char) :: nat)" by simp
    with that show False by simp
  qed
  show ?case
    using "1.IH" digit [of n] digit [of "n mod 10"] by (subst nat_digits.simps) (auto split: if_splits)
qed

lemma takeWhile_colon: "takeWhile (\<lambda>c. c \<noteq> CHR '':'') (nat_digits n @ '':'' @ xs) = nat_digits n"
proof -
  have "takeWhile (\<lambda>c. c \<noteq> CHR '':'') (ds @ '':'' @ xs) = ds" if "CHR '':'' \<notin> set ds" for ds
    using that by (induction ds) auto
  then show ?thesis using colon_not_digit by blast
qed

text \<open>The ordinal of an id is the digits before its first colon.\<close>

lemma drift_event_id_eq:
  "drift_event_id e i ev = drift_event_id e' j ev' \<longleftrightarrow>
     i = j \<and> drift_event_hash e ev = drift_event_hash e' ev'"
proof
  assume eq: "drift_event_id e i ev = drift_event_id e' j ev'"
  then have "nat_digits i = nat_digits j"
    unfolding drift_event_id_def by (metis takeWhile_colon)
  with eq show "i = j \<and> drift_event_hash e ev = drift_event_hash e' ev'"
    by (auto simp: drift_event_id_def dest: nat_digits_inj)
qed (auto simp: drift_event_id_def)

text \<open>
  An event is removed when the decision at its own position in the sorted buffer carries its hash.
\<close>

definition matched :: "'a mem_env_scheme \<Rightarrow> drift_event list \<Rightarrow> drift_event list \<Rightarrow> drift_event set" where
  "matched e evs sorted_events =
     {sorted_events ! i | i. i < length sorted_events \<and> i < length evs \<and>
        drift_event_hash e (evs ! i) = drift_event_hash e (sorted_events ! i)}"

lemma decided_events:
  "snd ` set (filter (\<lambda>(i, ev). drift_event_id e i ev \<in>
       (\<lambda>(i, ev). drift_event_id e i ev) ` set (enumerate 0 evs)) (enumerate 0 S)) = matched e evs S"
proof -
  have "snd ` set (filter (\<lambda>(i, ev). drift_event_id e i ev \<in>
        (\<lambda>(i, ev). drift_event_id e i ev) ` set (enumerate 0 evs)) (enumerate 0 S)) =
      {S ! i | i. i < length S \<and>
        drift_event_id e i (S ! i) \<in> (\<lambda>(i, ev). drift_event_id e i ev) ` set (enumerate 0 evs)}"
    by (force simp: in_set_enumerate_eq)
  also have "\<dots> = matched e evs S"
  proof -
    have "drift_event_id e i x \<in> (\<lambda>(i, ev). drift_event_id e i ev) ` set (enumerate 0 evs) \<longleftrightarrow>
        i < length evs \<and> drift_event_hash e (evs ! i) = drift_event_hash e x" for i x
      by (auto simp: in_set_enumerate_eq drift_event_id_eq intro!: rev_image_eqI [of "(i, evs ! i)"])
    then show ?thesis unfolding matched_def by simp
  qed
  finally show ?thesis .
qed

lemma remove_drift_matched:
  assumes ids: "map ed_record_id ds = map (\<lambda>(i, ev). drift_event_id e i ev) (enumerate 0 evs)"
  shows "remove_drift_by_decisions e ds all_events dm =
    dm\<lparr>dm_buffer := filter (\<lambda>ev. drift_match ev \<notin>
        drift_match ` matched e evs (sort_key drift_order all_events)) (dm_buffer dm)\<rparr>"
proof (cases "ds = []")
  case True
  then have "evs = []" using ids by (simp add: enumerate_eq_zip)
  then show ?thesis using True
    by (simp add: remove_drift_by_decisions_def matched_def)
next
  case False
  let ?S = "sort_key drift_order all_events"
  let ?rem = "map snd (filter (\<lambda>(i, ev). drift_event_id e i ev \<in> set (map ed_record_id ds))
      (enumerate 0 ?S))"
  have "set ?rem = matched e evs ?S"
    unfolding ids using decided_events [of e evs ?S] by simp
  moreover have "remove_drift_by_decisions e ds all_events dm = drift_remove_events dm ?rem"
    using False by (simp add: remove_drift_by_decisions_def Let_def)
  moreover have "drift_remove_events dm evs' =
      dm\<lparr>dm_buffer := filter (\<lambda>ev. drift_match ev \<notin> drift_match ` set evs') (dm_buffer dm)\<rparr>" for evs'
    by (simp add: drift_remove_events_def)
  ultimately show ?thesis by simp
qed

lemma matched_prefix: "k \<le> length S \<Longrightarrow> matched e (take k S) S = set (take k S)"
proof -
  assume k: "k \<le> length S"
  then have "matched e (take k S) S = {S ! i | i. i < k}"
    unfolding matched_def by (intro Collect_cong) (auto simp: min_def; blast)
  also have "\<dots> = (\<lambda>i. S ! i) ` {0..<k}" by auto
  finally show ?thesis using k by (simp add: nth_image)
qed

text \<open>The item at a position of a filtered list stands at that position or later in the list.\<close>

lemma filter_nth_index:
  assumes "distinct xs" "j < length (filter P xs)" "n < length xs" "filter P xs ! j = xs ! n"
  shows "j \<le> n"
  using assms
proof (induction xs arbitrary: j n)
  case Nil
  then show ?case by simp
next
  case (Cons x xs)
  show ?case
  proof (cases n)
    case 0
    have "j = 0"
    proof (rule ccontr)
      assume "j \<noteq> 0"
      with Cons.prems(2) have "filter P (x # xs) ! j \<in> set xs"
        by (cases j) (auto split: if_splits dest!: nth_mem)
      with Cons.prems(1,4) 0 show False by simp
    qed
    then show ?thesis by simp
  next
    case (Suc n')
    show ?thesis
    proof (cases "P x \<and> j = 0")
      case False
      then have "(if P x then j - 1 else j) \<le> n'"
        using Cons.prems Suc by (intro Cons.IH) (auto split: if_splits)
      with Suc show ?thesis by (auto split: if_splits)
    qed simp
  qed
qed

lemma matched_filter:
  assumes "distinct S" "inj_on (drift_event_hash e) (set S)"
  shows "matched e (filter P S) S = set (takeWhile P S)"
proof -
  have "matched e (filter P S) S =
      {S ! i | i. i < length S \<and> i < length (filter P S) \<and> filter P S ! i = S ! i}"
  proof -
    have "drift_event_hash e (filter P S ! i) = drift_event_hash e (S ! i) \<longleftrightarrow>
        filter P S ! i = S ! i" if "i < length S" "i < length (filter P S)" for i
      using that assms(2) nth_mem [OF that(2)] by (intro inj_on_eq_iff) auto
    then show ?thesis unfolding matched_def by blast
  qed
  also have "\<dots> = set (takeWhile P S)"
    using assms(1)
  proof (induction S)
    case Nil
    then show ?case by simp
  next
    case (Cons x xs)
    show ?case
    proof (cases "P x")
      case True
      have "{(x # xs) ! i | i. i < length (x # xs) \<and> i < length (filter P (x # xs)) \<and>
            filter P (x # xs) ! i = (x # xs) ! i} =
          insert x {xs ! i | i. i < length xs \<and> i < length (filter P xs) \<and> filter P xs ! i = xs ! i}"
        (is "?L = insert x ?R")
      proof (intro set_eqI iffI)
        fix y assume "y \<in> ?L"
        then obtain i where i: "y = (x # xs) ! i" "i < length (x # xs)"
          "i < length (filter P (x # xs))" "filter P (x # xs) ! i = (x # xs) ! i" by blast
        then show "y \<in> insert x ?R" using True by (cases i) auto
      next
        fix y assume "y \<in> insert x ?R"
        then consider "y = x" | i where "y = xs ! i" "i < length xs" "i < length (filter P xs)"
          "filter P xs ! i = xs ! i" by blast
        then show "y \<in> ?L"
        proof cases
          case 1
          with True show ?thesis by (intro CollectI exI [of _ 0]) simp
        next
          case (2 i)
          with True show ?thesis by (intro CollectI exI [of _ "Suc i"]) simp
        qed
      qed
      with Cons True show ?thesis by simp
    next
      case False
      have no: "filter P xs ! i \<noteq> (x # xs) ! i" if "i < length (filter P xs)" for i
      proof (cases i)
        case 0
        have "filter P xs ! 0 \<in> set (filter P xs)" using that 0 by (intro nth_mem) simp
        with False 0 show ?thesis by auto
      next
        case (Suc k)
        have "k < length xs" using that Suc length_filter_le [of P xs] by linarith
        with filter_nth_index [of xs i P k] that Suc Cons.prems show ?thesis by auto
      qed
      then show ?thesis using False by auto
    qed
  qed
  finally show ?thesis .
qed

lemma filter_less_upt: "filter (\<lambda>i. i < k) [0..<n] = [0..<min k n]"
  by (induction n) (auto simp: min_def not_less dest: le_antisym)

lemma evict_by_drift_count:
  assumes "0 < tc"
  shows "map ed_record_id (dr_evicted_drift_events (evict_by_drift e evs tc 0 [] now)) =
    map (\<lambda>(i, ev). drift_event_id e i ev)
      (enumerate 0 (take (length evs - nat tc) (sort_key drift_order evs)))"
proof (cases "evs = []")
  case True
  then show ?thesis by (simp add: evict_by_drift_def)
next
  case False
  let ?S = "sort_key drift_order evs"
  let ?k = "length evs - nat tc"
  have len: "length (butlast ?S) = length evs - 1" by simp
  have k: "?k \<le> length (butlast ?S)" using assms by simp
  have "drift_evict_indices (butlast ?S) tc 0 [] now = filter (\<lambda>i. i < ?k) [0..<length (butlast ?S)]"
    unfolding drift_evict_indices_def Let_def
    by (rule filter_cong) (use assms False in \<open>auto simp: len\<close>)
  also have "\<dots> = [0..<?k]" using k by (simp add: filter_less_upt min_def)
  finally have "map (\<lambda>i. butlast ?S ! i) (drift_evict_indices (butlast ?S) tc 0 [] now) =
      map (\<lambda>i. butlast ?S ! i) [0..<?k]" by simp
  also have "\<dots> = take ?k ?S"
    using k by (intro nth_equalityI) (auto simp: nth_butlast)
  finally show ?thesis
    using False by (simp add: evict_by_drift_def Let_def case_prod_unfold comp_def)
qed

lemma on_drift_overflow_buffer:
  fixes m :: "'a memory_scheme"
  assumes "0 < tc"
  defines "evs \<equiv> dm_buffer (mm_drift m)"
  shows "mm_drift (on_drift_overflow now tc 0 [] m) = (mm_drift m)\<lparr>dm_buffer :=
      filter (\<lambda>ev. drift_match ev \<notin>
        drift_match ` set (take (length evs - nat tc) (sort_key drift_order evs))) evs\<rparr>"
    and "mm_segments (on_drift_overflow now tc 0 [] m) = mm_segments m"
    and "mm_subgoals (on_drift_overflow now tc 0 [] m) = mm_subgoals m"
    and "mm_plans (on_drift_overflow now tc 0 [] m) = mm_plans m"
proof -
  obtain t w where tw: "now_or_clock now m = (t, w)" by (cases "now_or_clock now m")
  have w: "mm_segments w = mm_segments m" "mm_plans w = mm_plans m" "mm_subgoals w = mm_subgoals m"
    "mm_drift w = mm_drift m"
    using now_or_clock_stores [of now m] by (simp_all add: tw)
  show "mm_drift (on_drift_overflow now tc 0 [] m) = (mm_drift m)\<lparr>dm_buffer :=
      filter (\<lambda>ev. drift_match ev \<notin>
        drift_match ` set (take (length evs - nat tc) (sort_key drift_order evs))) evs\<rparr>"
    using remove_drift_matched [OF evict_by_drift_count [OF assms(1), of w evs t], of evs "mm_drift m"]
    by (simp add: on_drift_overflow_def tw w Let_def evs_def matched_prefix)
qed (simp_all add: on_drift_overflow_def now_or_clock_def now_ms_def Let_def
    split: option.splits prod.splits)

text \<open>Making room in a full drift buffer keeps the newest events.  With a positive count threshold
  and no age or pattern condition (the way \<open>record_drift\<close> calls it, with 5), \<open>on_drift_overflow\<close>
  keeps exactly the last \<open>threshold_count\<close> events in the order of time, subgoal and signal, in the
  order they stand in the buffer, when no two events agree on the four fields removal compares.
  The other stores are untouched.
\<close>

lemma overflow_keeps_newest:
  fixes m :: "'a memory_scheme"
  assumes tc: "0 < threshold_count" and keys: "distinct (map drift_match (dm_buffer (mm_drift m)))"
  shows "dm_buffer (mm_drift (on_drift_overflow now threshold_count 0 [] m)) =
      filter (\<lambda>ev. ev \<in> set (last_n (nat threshold_count)
          (sort_key drift_order (dm_buffer (mm_drift m))))) (dm_buffer (mm_drift m)) \<and>
    length (dm_buffer (mm_drift (on_drift_overflow now threshold_count 0 [] m))) =
      min (nat threshold_count) (length (dm_buffer (mm_drift m))) \<and>
    mm_segments (on_drift_overflow now threshold_count 0 [] m) = mm_segments m \<and>
    mm_subgoals (on_drift_overflow now threshold_count 0 [] m) = mm_subgoals m \<and>
    mm_plans (on_drift_overflow now threshold_count 0 [] m) = mm_plans m"
proof -
  let ?b = "dm_buffer (mm_drift m)" and ?n = "nat threshold_count"
  let ?S = "sort_key drift_order ?b"
  let ?k = "length ?b - ?n"
  have dist: "distinct ?b" and inj: "inj_on drift_match (set ?b)"
    using keys by (simp_all add: distinct_map)
  have parts: "take ?k ?S @ last_n ?n ?S = ?S" by (simp add: last_n_def)
  have "distinct ?S" using dist by simp
  then have disj: "set (take ?k ?S) \<inter> set (last_n ?n ?S) = {}"
    using parts by (metis distinct_append)
  have un: "set (take ?k ?S) \<union> set (last_n ?n ?S) = set ?b"
    using arg_cong [OF parts, of set] by simp
  have "drift_match ev \<notin> drift_match ` set (take ?k ?S) \<longleftrightarrow> ev \<in> set (last_n ?n ?S)"
    if "ev \<in> set ?b" for ev
    using that un disj inj_on_image_mem_iff [OF inj that, of "set (take ?k ?S)"] by blast
  then have buf: "dm_buffer (mm_drift (on_drift_overflow now threshold_count 0 [] m)) =
      filter (\<lambda>ev. ev \<in> set (last_n ?n ?S)) ?b"
    by (simp add: on_drift_overflow_buffer(1) [OF tc] cong: filter_cong)
  have "length (filter (\<lambda>ev. ev \<in> set (last_n ?n ?S)) ?b) = card (set (last_n ?n ?S) \<inter> set ?b)"
    using dist by (simp add: distinct_length_filter)
  also have "\<dots> = card (set (last_n ?n ?S))" using un by (intro arg_cong [where f = card]) blast
  also have "\<dots> = min ?n (length ?b)"
  proof -
    have "distinct (last_n ?n ?S)" unfolding last_n_def using \<open>distinct ?S\<close> by (rule distinct_drop)
    then show ?thesis by (simp add: distinct_card)
  qed
  finally have len: "length (filter (\<lambda>ev. ev \<in> set (last_n ?n ?S)) ?b) = min ?n (length ?b)" .
  show ?thesis unfolding buf len using on_drift_overflow_buffer(2,3,4) [OF tc] by blast
qed

lemma overflow_keeps_newest_example:
  "length (dm_buffer (mm_drift (on_drift_overflow None 2 0 [] (demo_memory [] []
     (map (\<lambda>t. demo_drift t ''g'' None ''x'') [3, 1, 2]))))) = 2"
proof -
  have "distinct (map drift_match (dm_buffer (mm_drift (demo_memory [] []
      (map (\<lambda>t. demo_drift t ''g'' None ''x'') [3, 1, 2])))))"
    by (simp add: drift_match_def demo_drift_def)
  from overflow_keeps_newest [OF _ this, of 2 None, THEN conjunct2, THEN conjunct1]
  show ?thesis by simp
qed

text \<open>Completing a subgoal leaves drift events behind.  The decisions number the evictable events
  among themselves, their application numbers all events, so only those evictable events go that
  stand before every event that is not evictable in the order of time, subgoal and signal (and the
  events equal to one of those on the four fields removal compares).  In particular nothing is
  removed when the first event is not evictable.
\<close>

lemma completion_leaves_drift:
  fixes m :: "'a memory_scheme"
  assumes ok: "records_ok gr_segment_id (mm_segments m)" "records_ok pr_plan_id (mm_plans m)"
    and dist: "distinct (dm_buffer (mm_drift m))"
    and inj: "inj_on (drift_event_hash m) (set (dm_buffer (mm_drift m)))"
  shows "dm_buffer (mm_drift (snd (on_subgoal_completed sid now evict_plan m))) =
    filter (\<lambda>ev. drift_match ev \<notin> drift_match ` set (takeWhile
        (evictable_drift sid {i. owned sid (mm_segments m) i \<and>
           i \<notin> needed sid (mm_segments m) (mm_plans m)})
        (sort_key drift_order (dm_buffer (mm_drift m)))))
      (dm_buffer (mm_drift m))"
proof -
  obtain t w where tw: "now_or_clock now m = (t, w)" by (cases "now_or_clock now m")
  have w: "mm_segments w = mm_segments m" "mm_plans w = mm_plans m" "mm_drift w = mm_drift m"
    "me_digest w = me_digest m"
    using now_or_clock_stores [of now m] by (simp_all add: tw)
  let ?b = "dm_buffer (mm_drift m)"
  let ?P = "evictable_drift sid {i. owned sid (mm_segments m) i \<and>
      i \<notin> needed sid (mm_segments m) (mm_plans m)}"
  let ?sum = "evict_on_subgoal_completion w sid (segment_snapshot (mm_segments m)) ?b
      (plan_snapshot (mm_plans m)) t evict_plan"
  have hash: "drift_event_hash w = drift_event_hash m"
    by (rule ext) (simp add: drift_event_hash_def json_hash_def w)
  have ids: "map ed_record_id (cm_evicted_drift_events ?sum) =
      map (\<lambda>(i, ev). drift_event_id w i ev) (enumerate 0 (filter ?P (sort_key drift_order ?b)))"
    by (simp add: evict_on_subgoal_completion_def Let_def completion_decision_def case_prod_unfold
        comp_def safe_ids [OF ok] filter_sort)
  have "mm_drift (snd (on_subgoal_completed sid now evict_plan m)) =
      remove_drift_by_decisions w (cm_evicted_drift_events ?sum) ?b (mm_drift m)"
    by (simp add: on_subgoal_completed_def tw w Let_def apply_completion_def)
  also have "\<dots> = (mm_drift m)\<lparr>dm_buffer := filter (\<lambda>ev. drift_match ev \<notin> drift_match `
      matched w (filter ?P (sort_key drift_order ?b)) (sort_key drift_order ?b)) ?b\<rparr>"
    by (rule remove_drift_matched [OF ids])
  also have "matched w (filter ?P (sort_key drift_order ?b)) (sort_key drift_order ?b) =
      set (takeWhile ?P (sort_key drift_order ?b))"
    using dist inj by (intro matched_filter) (simp_all add: hash)
  finally show ?thesis by simp
qed

lemma completion_leaves_drift_example:
  "dm_buffer (mm_drift (snd (on_subgoal_completed ''g'' None False
     (demo_memory [] [] [demo_drift 1 ''h'' None ''x'', demo_drift 2 ''g'' None ''x''])))) =
   [demo_drift 1 ''h'' None ''x'', demo_drift 2 ''g'' None ''x'']"
proof -
  let ?b = "[demo_drift 1 ''h'' None ''x'', demo_drift 2 ''g'' None ''x'']"
  let ?m = "demo_memory [] [] ?b"
  have ok: "records_ok gr_segment_id (mm_segments ?m)" "records_ok pr_plan_id (mm_plans ?m)"
    by (simp_all add: records_ok_load)
  have dist: "distinct (dm_buffer (mm_drift ?m))" by (simp add: demo_drift_def)
  have "drift_event_hash ?m (demo_drift t sid None ''x'') = int_str t" for t sid
    by (simp add: drift_event_hash_def json_hash_def drift_fields_def demo_drift_def
        opt_str_def demo_mem_env_def mem_env.defs env.defs)
  moreover have "int_str 1 \<noteq> int_str 2" by (simp add: int_str_def nat_digits.simps)
  ultimately have inj: "inj_on (drift_event_hash ?m) (set (dm_buffer (mm_drift ?m)))"
    by (simp add: inj_on_def)
  have "sort_key drift_order ?b = ?b" by (simp add: drift_order_def demo_drift_def)
  then show ?thesis
    using completion_leaves_drift [OF ok dist inj, of "''g''" None False]
    by (simp add: evictable_drift_def demo_drift_def)
qed

end
