(* ===== verification/Compaction.thy ===== *)
theory Compaction
  imports Summaries
begin

text \<open>
  Compaction of the conversation history (\<^verbatim>\<open>agent/memory/compaction\<close>, with the message counter of
  \<^verbatim>\<open>runtime/llm/token_counter.py\<close>): the triggers, the split into a compactable part and recent
  turns, the prompts, the structured state, the guard against summaries that save nothing.  The
  encoder of tiktoken, which raises a ValueError on a text that holds one of its special tokens, the
  LLM (a function of the prompts so far and of the prompt) and \<open>json.loads\<close> are parameters;
  \<open>ce_prompts\<close> records what the LLM was asked.  The history is mutated in place by the source and
  returned here.
\<close>

subsection \<open>Data\<close>

record compaction_env = mem_env +
  ce_encode :: "string \<Rightarrow> nat result"
  ce_not_text :: "json \<Rightarrow> pyexn"
  ce_llm :: "string list \<Rightarrow> string \<Rightarrow> string result"
  ce_prompts :: "string list"
  ce_json_loads :: "string \<Rightarrow> json option"

type_synonym history = "json pydict list"

datatype compaction_trigger = CONTEXT_PRESSURE | TURN_COUNT | SUBGOAL_CLOSED | MANUAL

fun trigger_value :: "compaction_trigger \<Rightarrow> string" where
  "trigger_value CONTEXT_PRESSURE = ''context_pressure''"
| "trigger_value TURN_COUNT = ''turn_count''"
| "trigger_value SUBGOAL_CLOSED = ''subgoal_closed''"
| "trigger_value MANUAL = ''manual''"

record compaction_config =
  cc_enabled :: bool
  cc_context_pressure_threshold :: rat
  cc_turn_count_threshold :: int
  cc_keep_recent_turns :: int
  cc_summary_style :: string
  cc_min_tokens_for_compaction :: int
  cc_tool_output_threshold :: int

definition default_compaction_config :: compaction_config where
  "default_compaction_config =
     \<lparr>cc_enabled = True, cc_context_pressure_threshold = 8 / 10, cc_turn_count_threshold = 10,
      cc_keep_recent_turns = 4, cc_summary_style = ''prose'', cc_min_tokens_for_compaction = 2000,
      cc_tool_output_threshold = 10000\<rparr>"

record structured_state =
  ss_goal :: json
  ss_current_focus :: json
  ss_completed :: "string list"
  ss_blocked :: "string list"
  ss_next_steps :: "string list"
  ss_important_decisions :: "string list"
  ss_open_questions :: "string list"
  ss_files_created :: "string list"
  ss_files_modified :: "string list"
  ss_errors_encountered :: "string list"

record compaction_result =
  cr_triggered :: bool
  cr_trigger :: "compaction_trigger option"
  cr_turns_before :: nat
  cr_turns_after :: nat
  cr_tokens_before :: nat
  cr_tokens_after :: nat
  cr_summary :: "string option"
  cr_structured_state :: "structured_state option"
  cr_rolled_back :: bool
  cr_compacted_subgoal_ids :: "string list"
  cr_error :: "string option"

text \<open>\<open>CompactionResult()\<close>.\<close>

definition no_compaction :: compaction_result where
  "no_compaction =
     \<lparr>cr_triggered = False, cr_trigger = None, cr_turns_before = 0, cr_turns_after = 0,
      cr_tokens_before = 0, cr_tokens_after = 0, cr_summary = None, cr_structured_state = None,
      cr_rolled_back = False, cr_compacted_subgoal_ids = [], cr_error = None\<rparr>"

text \<open>The orchestrator; a Python set of ids is a list of the ids added.\<close>

record compaction =
  cp_config :: compaction_config
  cp_has_subgoal_memory :: bool
  cp_compacted_subgoal_ids :: "string list"
  cp_notified_subgoal_ids :: "string list"
  cp_last_fingerprint :: "string option"

subsection \<open>Counting tokens\<close>

definition encode_len :: "'a compaction_env_scheme \<Rightarrow> json \<Rightarrow> nat result" where
  "encode_len e v = (case v of JStr s \<Rightarrow> ce_encode e s | _ \<Rightarrow> Inl (ce_not_text e v))"

definition tool_call_tokens :: "'a compaction_env_scheme \<Rightarrow> json \<Rightarrow> nat result" where
  "tool_call_tokens e tc =
     (case json_get tc ''function'' (JObj []) of
        Inl x \<Rightarrow> Inl x
      | Inr func \<Rightarrow>
          (case json_get func ''name'' (JStr []) of
             Inl x \<Rightarrow> Inl x
           | Inr name \<Rightarrow>
               (case encode_len e name of
                  Inl x \<Rightarrow> Inl x
                | Inr n \<Rightarrow>
                    (case json_get func ''arguments'' (JStr ''{}'') of
                       Inl x \<Rightarrow> Inl x
                     | Inr args \<Rightarrow>
                         (case encode_len e args of
                            Inl x \<Rightarrow> Inl x
                          | Inr k \<Rightarrow> Inr (n + k + 4))))))"

definition text_tokens :: "'a compaction_env_scheme \<Rightarrow> json pydict \<Rightarrow> string \<Rightarrow> nat result" where
  "text_tokens e msg key =
     (case dict_get msg key of Some (JStr s) \<Rightarrow> ce_encode e s | _ \<Rightarrow> Inr 0)"

definition count_message :: "'a compaction_env_scheme \<Rightarrow> json pydict \<Rightarrow> nat result" where
  "count_message e msg =
     (case traverse (text_tokens e msg) [''role'', ''content''] of
        Inl x \<Rightarrow> Inl x
      | Inr texts \<Rightarrow>
          (case (case dict_get msg ''tool_calls'' of
                   Some (JList tcs) \<Rightarrow> traverse (tool_call_tokens e) tcs
                 | _ \<Rightarrow> Inr []) of
             Inl x \<Rightarrow> Inl x
           | Inr calls \<Rightarrow>
               (case (case dict_get msg ''tool_call_id'' of
                        None \<Rightarrow> Inr 0
                      | Some v \<Rightarrow> ce_encode e (py_str e v)) of
                  Inl x \<Rightarrow> Inl x
                | Inr k \<Rightarrow> Inr (4 + sum_list texts + sum_list calls + k))))"

definition count_messages :: "'a compaction_env_scheme \<Rightarrow> history \<Rightarrow> nat result" where
  "count_messages e msgs =
     (case traverse (count_message e) msgs of Inl x \<Rightarrow> Inl x | Inr ns \<Rightarrow> Inr (sum_list ns))"

subsection \<open>Text\<close>

definition apos :: string where
  "apos = [CHR 0x27]"

definition dquote :: string where
  "dquote = [CHR 0x22]"

definition history_block :: "string \<Rightarrow> string" where
  "history_block history = ''---'' @ nl @ history @ nl @ ''---''"

definition CONVERSATION_SUMMARY_SYSTEM :: string where
  "CONVERSATION_SUMMARY_SYSTEM =
     ''You are a conversation summarizer. Your task is to condense a long '' @
     ''conversation history into a concise summary that preserves all '' @
     ''information the AI assistant will need to continue working.''"

definition CONVERSATION_SUMMARY_USER :: "string \<Rightarrow> string" where
  "CONVERSATION_SUMMARY_USER history =
     joined nl
       [''Summarize the following conversation history. Keep:'',
        ''- The user'' @ apos @ ''s overall goal'',
        ''- What has been accomplished so far'',
        ''- What is currently in progress'',
        ''- Any open questions or unresolved issues'',
        ''- Important decisions made and their rationale'',
        ''- Current blockers or errors encountered'',
        ''- Files that were created or modified'',
        ''- **Which tools were invoked** (by name) and why they were needed'',
        [],
        ''Discard:'',
        ''- Exact wording, greetings, and acknowledgments'',
        ''- Tool result details (the raw output from tool execution)'',
        ''- Repetitive or redundant statements'',
        [],
        ''IMPORTANT: The AI assistant has access to tool-calling capabilities'',
        ''(file read/write, search, command execution, etc.) and should continue'',
        ''to use them as needed. Make sure your summary conveys enough context'',
        ''that the assistant knows what tools are available and when to use them.'',
        [],
        ''Write a single coherent paragraph. Be concise but thorough.'',
        [],
        history_block history]"

definition STATE_EXTRACTION_SYSTEM :: string where
  "STATE_EXTRACTION_SYSTEM =
     ''You are a state-extraction engine. Analyze the provided conversation '' @
     ''history and extract the current state as structured JSON. '' @
     ''Return ONLY valid JSON with no explanatory text, no markdown fences, '' @
     ''and no trailing punctuation.''"

definition STATE_EXTRACTION_USER :: "string \<Rightarrow> string" where
  "STATE_EXTRACTION_USER history =
     (let dash = '' '' @ em_dash @ '' ''
      in joined nl
       [''Analyze this conversation history and extract the current state. '' @
        ''Return ONLY valid JSON with these fields:'',
        ''- goal: string'' @ dash @ ''the user'' @ apos @ ''s overall goal'',
        ''- current_focus: string'' @ dash @ ''what is being worked on right now'',
        ''- completed: string[]'' @ dash @ ''list of completed items'',
        ''- blocked: string[]'' @ dash @ ''items that can'' @ apos @ ''t proceed'',
        ''- next_steps: string[]'' @ dash @ ''immediate next actions'',
        ''- important_decisions: string[]'' @ dash @ ''decisions made and their rationale'',
        ''- open_questions: string[]'' @ dash @ ''questions not yet answered'',
        ''- files_created: string[]'' @ dash @ ''files that were created'',
        ''- files_modified: string[]'' @ dash @ ''files that were modified'',
        ''- errors_encountered: string[]'' @ dash @ ''errors or blockers encountered'',
        [],
        ''Be concise. Each array item should be a single sentence or less. '' @
        ''If a field has nothing to report, use an empty array [] or empty string '' @
          dquote @ dquote @ ''.'',
        [],
        history_block history])"

definition SUBGOAL_COMPLETION_SYSTEM :: string where
  "SUBGOAL_COMPLETION_SYSTEM =
     ''You are a task summarizer. A subgoal has been completed, and you '' @
     ''need to produce a compact record of what happened.''"

definition SUBGOAL_COMPLETION_USER :: "string \<Rightarrow> string \<Rightarrow> string" where
  "SUBGOAL_COMPLETION_USER goal history =
     joined nl
       [''The subgoal '' @ quoted goal @ '' is complete. Summarize the relevant conversation '' @
        ''history into a compact record covering:'',
        ''- What was accomplished'',
        ''- What files were created or modified'',
        ''- Any issues or blockers encountered'',
        ''- The final status'',
        [],
        ''Write 2-3 concise sentences.'',
        [],
        history_block history]"

definition format_history_for_summary :: "'a env_scheme \<Rightarrow> history \<Rightarrow> string" where
  "format_history_for_summary e entries =
     joined nl (map (\<lambda>entry.
       ''['' @ py_str e (dict_get_or entry ''role'' (JStr ''unknown'')) @ '']'' @ nl @
       py_str e (dict_get_or entry ''content'' (JStr [])) @ nl) entries)"

subsection \<open>Structured state\<close>

definition coerce_str_list :: "'a env_scheme \<Rightarrow> json pydict \<Rightarrow> string \<Rightarrow> string list" where
  "coerce_str_list e d key =
     (case dict_get_or d key (JList []) of
        JList items \<Rightarrow> map (py_str e) (filter (\<lambda>item. item \<noteq> JNull) items)
      | raw \<Rightarrow> if json_truthy raw then [py_str e raw] else [])"

definition structured_state_from_dict :: "'a env_scheme \<Rightarrow> json pydict \<Rightarrow> structured_state" where
  "structured_state_from_dict e d =
     \<lparr>ss_goal = dict_get_or d ''goal'' (JStr []),
      ss_current_focus = dict_get_or d ''current_focus'' (JStr []),
      ss_completed = coerce_str_list e d ''completed'',
      ss_blocked = coerce_str_list e d ''blocked'',
      ss_next_steps = coerce_str_list e d ''next_steps'',
      ss_important_decisions = coerce_str_list e d ''important_decisions'',
      ss_open_questions = coerce_str_list e d ''open_questions'',
      ss_files_created = coerce_str_list e d ''files_created'',
      ss_files_modified = coerce_str_list e d ''files_modified'',
      ss_errors_encountered = coerce_str_list e d ''errors_encountered''\<rparr>"

definition injected_list :: "string \<Rightarrow> string \<Rightarrow> string list \<Rightarrow> string list" where
  "injected_list label sep items = (if items = [] then [] else [label @ '': '' @ joined sep items])"

definition format_for_injection :: "'a env_scheme \<Rightarrow> structured_state \<Rightarrow> string" where
  "format_for_injection e s =
     joined nl
       ([''[CURRENT STATE]''] @
        (if json_truthy (ss_goal s) then [''Goal: '' @ py_str e (ss_goal s)] else []) @
        (if json_truthy (ss_current_focus s) then [''Focus: '' @ py_str e (ss_current_focus s)]
         else []) @
        injected_list ''Completed'' '', '' (ss_completed s) @
        injected_list ''Blocked'' '', '' (ss_blocked s) @
        injected_list ''Next'' '', '' (ss_next_steps s) @
        injected_list ''Decisions'' ''; '' (ss_important_decisions s) @
        injected_list ''Questions'' ''; '' (ss_open_questions s) @
        injected_list ''Created'' '', '' (ss_files_created s) @
        injected_list ''Modified'' '', '' (ss_files_modified s) @
        injected_list ''Errors'' ''; '' (ss_errors_encountered s))"

definition remove_suffix :: "string \<Rightarrow> string \<Rightarrow> string" where
  "remove_suffix p s =
     (if starts_with (rev p) (rev s) then take (length s - length p) s else s)"

definition strip_fences :: "string \<Rightarrow> string" where
  "strip_fences text =
     (if starts_with ''```'' text then
        (case find (\<lambda>fence. starts_with fence text) [''```json'' @ nl, ''```'' @ nl, ''```''] of
           Some fence \<Rightarrow> py_strip (remove_suffix ''```'' (drop (length fence) text))
         | None \<Rightarrow> text)
      else text)"

definition parse_structured_state ::
  "'a compaction_env_scheme \<Rightarrow> string \<Rightarrow> structured_state option"
where
  "parse_structured_state e raw =
     (case ce_json_loads e (strip_fences (py_strip raw)) of
        Some (JObj d) \<Rightarrow> Some (structured_state_from_dict e d)
      | _ \<Rightarrow> None)"

subsection \<open>The orchestrator\<close>

definition new_compaction :: "compaction_config \<Rightarrow> bool \<Rightarrow> compaction" where
  "new_compaction config has_memory =
     \<lparr>cp_config = config, cp_has_subgoal_memory = has_memory, cp_compacted_subgoal_ids = [],
      cp_notified_subgoal_ids = [], cp_last_fingerprint = None\<rparr>"

definition compute_fingerprint :: "'a mem_env_scheme \<Rightarrow> history \<Rightarrow> string" where
  "compute_fingerprint e entries = json_hash e (JList (map JObj entries))"

definition uncompacted :: "compaction \<Rightarrow> subgoal_record \<Rightarrow> bool" where
  "uncompacted co r \<longleftrightarrow>
     py_lower (sr_state r) = ''closed'' \<and> sr_subgoal_id r \<notin> set (cp_compacted_subgoal_ids co)"

text \<open>The trigger of a pass, and the goal of the closed subgoal that fired it.\<close>

definition find_trigger ::
  "compaction \<Rightarrow> subgoal_store \<Rightarrow> rat \<Rightarrow> nat \<Rightarrow> (compaction_trigger \<times> string option) option"
where
  "find_trigger co subgoals context_pressure user_turns =
     (let cfg = cp_config co
      in if context_pressure > 0 \<and> context_pressure \<ge> cc_context_pressure_threshold cfg
         then Some (CONTEXT_PRESSURE, None)
         else if int user_turns \<ge> cc_turn_count_threshold cfg then Some (TURN_COUNT, None)
         else if cp_has_subgoal_memory co then
           (case find (uncompacted co) (subgoal_snapshot subgoals) of
              Some r \<Rightarrow> Some (SUBGOAL_CLOSED, Some (sr_goal r))
            | None \<Rightarrow> None)
         else None)"

text \<open>\<open>history[:-keep]\<close> and \<open>history[-keep:]\<close>; a keep that is not positive counts from the front.\<close>

definition compactable_part :: "int \<Rightarrow> 'b list \<Rightarrow> 'b list" where
  "compactable_part keep xs =
     (if keep > 0 then take (length xs - nat keep) xs else take (nat (- keep)) xs)"

definition recent_part :: "int \<Rightarrow> 'b list \<Rightarrow> 'b list" where
  "recent_part keep xs =
     (if keep > 0 then drop (length xs - nat keep) xs else drop (nat (- keep)) xs)"

definition truthy_goal :: "string option \<Rightarrow> bool" where
  "truthy_goal g \<longleftrightarrow> g \<noteq> None \<and> g \<noteq> Some []"

definition compaction_prompt ::
  "compaction_trigger \<Rightarrow> string option \<Rightarrow> bool \<Rightarrow> string \<Rightarrow> string"
where
  "compaction_prompt trig goal use_structured history_text =
     (if trig = SUBGOAL_CLOSED \<and> truthy_goal goal then
        SUBGOAL_COMPLETION_SYSTEM @ nl @ nl @ SUBGOAL_COMPLETION_USER (the goal) history_text
      else if use_structured then
        STATE_EXTRACTION_SYSTEM @ nl @ nl @ STATE_EXTRACTION_USER history_text
      else CONVERSATION_SUMMARY_SYSTEM @ nl @ nl @ CONVERSATION_SUMMARY_USER history_text)"

definition call_llm ::
  "string \<Rightarrow> 'a compaction_env_scheme \<Rightarrow> string result \<times> 'a compaction_env_scheme"
where
  "call_llm prompt e = (ce_llm e (ce_prompts e) prompt, e\<lparr>ce_prompts := ce_prompts e @ [prompt]\<rparr>)"

definition assistant_entry :: "string \<Rightarrow> json pydict" where
  "assistant_entry content = [(''role'', JStr ''assistant''), (''content'', JStr content)]"

text \<open>The entries that replace the compactable part.\<close>

definition summary_entries ::
  "'a env_scheme \<Rightarrow> compaction_trigger \<Rightarrow> string \<Rightarrow> structured_state option \<Rightarrow> history"
where
  "summary_entries e trig raw st =
     (case st of None \<Rightarrow> [] | Some s \<Rightarrow> [assistant_entry (format_for_injection e s)]) @
     [assistant_entry (''[Compacted summary '' @ em_dash @ '' '' @ trigger_value trig @ '']'' @ nl @
        py_strip raw)]"

definition mark_compacted ::
  "compaction \<Rightarrow> subgoal_store \<Rightarrow> compaction_trigger \<Rightarrow> string option \<Rightarrow> string list"
where
  "mark_compacted co subgoals trig goal =
     (if trig = SUBGOAL_CLOSED \<and> truthy_goal goal
      then map sr_subgoal_id (filter (uncompacted co) (subgoal_snapshot subgoals)) else [])"

text \<open>From the LLM call on.\<close>

definition run_compaction ::
  "compaction_trigger \<Rightarrow> string option \<Rightarrow> history \<Rightarrow> nat \<Rightarrow> string \<Rightarrow> subgoal_store \<Rightarrow> compaction
   \<Rightarrow> 'a compaction_env_scheme
   \<Rightarrow> compaction_result result \<times> history \<times> compaction \<times> 'a compaction_env_scheme"
where
  "run_compaction trig goal hist tokens_before fp subgoals co e =
     (let cfg = cp_config co;
          keep = cc_keep_recent_turns cfg * 2;
          compactable = compactable_part keep hist;
          recent = recent_part keep hist;
          history_text = format_history_for_summary e compactable;
          use_structured = (cc_summary_style cfg = ''structured'' \<and> trig \<noteq> SUBGOAL_CLOSED);
          (raw, e) = call_llm (compaction_prompt trig goal use_structured history_text) e
      in case raw of
           Inl x \<Rightarrow>
             (Inr (no_compaction\<lparr>cr_triggered := True, cr_trigger := Some trig,
                cr_turns_before := length hist, cr_turns_after := length hist,
                cr_tokens_before := tokens_before, cr_tokens_after := tokens_before,
                cr_error := Some (exn_message x)\<rparr>), hist, co, e)
         | Inr raw \<Rightarrow>
             (let st = (if use_structured then parse_structured_state e raw else None);
                  new = summary_entries e trig raw st @ recent
              in case count_messages e new of
                   Inl x \<Rightarrow> (Inl x, new, co, e)
                 | Inr tokens_after \<Rightarrow>
                     if tokens_after \<ge> tokens_before then
                       (Inr (no_compaction\<lparr>cr_triggered := True, cr_trigger := Some trig,
                          cr_turns_before := length compactable + length recent,
                          cr_turns_after := length hist, cr_tokens_before := tokens_before,
                          cr_tokens_after := tokens_before, cr_rolled_back := True\<rparr>), hist, co, e)
                     else
                       (let ids = mark_compacted co subgoals trig goal
                        in (Inr (no_compaction\<lparr>cr_triggered := True, cr_trigger := Some trig,
                              cr_turns_before := length compactable + length recent,
                              cr_turns_after := length recent + (if st = None then 1 else 2),
                              cr_tokens_before := tokens_before, cr_tokens_after := tokens_after,
                              cr_summary := Some (py_strip raw), cr_structured_state := st,
                              cr_compacted_subgoal_ids := ids\<rparr>),
                            new,
                            co\<lparr>cp_last_fingerprint := Some fp,
                               cp_compacted_subgoal_ids := cp_compacted_subgoal_ids co @ ids\<rparr>, e))))"

definition compact_if_needed ::
  "history \<Rightarrow> rat \<Rightarrow> subgoal_store \<Rightarrow> compaction \<Rightarrow> 'a compaction_env_scheme
   \<Rightarrow> compaction_result result \<times> history \<times> compaction \<times> 'a compaction_env_scheme"
where
  "compact_if_needed hist context_pressure subgoals co e =
     (if \<not> cc_enabled (cp_config co) \<or> hist = [] then (Inr no_compaction, hist, co, e)
      else (let user_turns = length (filter (\<lambda>m. dict_get m ''role'' = Some (JStr ''user'')) hist)
            in case count_messages e hist of
                 Inl x \<Rightarrow> (Inl x, hist, co, e)
               | Inr total_tokens \<Rightarrow>
                   (case find_trigger co subgoals context_pressure user_turns of
                      None \<Rightarrow> (Inr no_compaction, hist, co, e)
                    | Some (trig, goal) \<Rightarrow>
                        if int total_tokens < cc_min_tokens_for_compaction (cp_config co)
                        then (Inr no_compaction, hist, co, e)
                        else (let keep = cc_keep_recent_turns (cp_config co) * 2
                              in if keep \<ge> int (length hist) then (Inr no_compaction, hist, co, e)
                                 else (let fp = compute_fingerprint e (compactable_part keep hist)
                                       in if Some fp = cp_last_fingerprint co
                                          then (Inr no_compaction, hist, co, e)
                                          else run_compaction trig goal hist total_tokens fp
                                                 subgoals co e)))))"

definition on_subgoal_closed :: "string \<Rightarrow> compaction \<Rightarrow> compaction_result \<times> compaction" where
  "on_subgoal_closed subgoal_id co =
     (if subgoal_id \<in> set (cp_notified_subgoal_ids co) then (no_compaction, co)
      else (no_compaction\<lparr>cr_triggered := True, cr_trigger := Some SUBGOAL_CLOSED\<rparr>,
            co\<lparr>cp_notified_subgoal_ids := cp_notified_subgoal_ids co @ [subgoal_id]\<rparr>))"

subsection \<open>Lemmas\<close>

lemma split_history: "compactable_part keep xs @ recent_part keep xs = xs"
  by (simp add: compactable_part_def recent_part_def)

lemma traverse_append:
  "traverse f (xs @ ys) =
     (case traverse f xs of
        Inl e \<Rightarrow> Inl e
      | Inr as \<Rightarrow> (case traverse f ys of Inl e \<Rightarrow> Inl e | Inr bs \<Rightarrow> Inr (as @ bs)))"
  by (induction xs) (auto split: sum.splits)

lemma count_messages_append:
  "count_messages e xs = Inr n \<Longrightarrow> count_messages e (xs @ ys) = Inr k \<Longrightarrow>
   \<exists>m. count_messages e ys = Inr m \<and> k = n + m"
  by (auto simp: count_messages_def traverse_append split: sum.splits)

lemma count_messages_suffix:
  "count_messages e (xs @ ys) = Inr k \<Longrightarrow> \<exists>m. count_messages e ys = Inr m \<and> m \<le> k"
  by (auto simp: count_messages_def traverse_append split: sum.splits)

lemma py_str_asked [simp]: "py_str (e\<lparr>ce_prompts := n\<rparr>) = py_str e"
  by (intro ext) (simp add: py_str_def split: json.split)

lemma count_messages_asked [simp]:
  "count_messages (e\<lparr>ce_prompts := n\<rparr>) h = count_messages e h"
proof -
  have "encode_len (e\<lparr>ce_prompts := n\<rparr>) = encode_len e"
    by (intro ext) (simp add: encode_len_def split: json.split)
  then have "tool_call_tokens (e\<lparr>ce_prompts := n\<rparr>) = tool_call_tokens e"
    by (intro ext) (simp only: tool_call_tokens_def)
  moreover have "text_tokens (e\<lparr>ce_prompts := n\<rparr>) = text_tokens e"
    by (intro ext) (simp add: text_tokens_def split: option.split json.split)
  ultimately have "count_message (e\<lparr>ce_prompts := n\<rparr>) = count_message e"
    by (intro ext) (simp add: count_message_def cong: option.case_cong json.case_cong sum.case_cong)
  then show ?thesis by (simp add: count_messages_def)
qed

text \<open>What a pass adds counts for something, whenever it can be counted.\<close>

lemma count_messages_prefix:
  "count_messages e (xs @ ys) = Inr k \<Longrightarrow> \<exists>n m. count_messages e xs = Inr n \<and> count_messages e ys = Inr m \<and> k = n + m"
  by (auto simp: count_messages_def traverse_append split: sum.splits)

lemma count_message_pos: "count_message e m = Inr n \<Longrightarrow> 0 < n"
  by (auto simp: count_message_def split: sum.splits)

lemma count_messages_pos: "count_messages e ms = Inr n \<Longrightarrow> ms \<noteq> [] \<Longrightarrow> 0 < n"
  by (cases ms) (auto simp: count_messages_def dest!: count_message_pos split: sum.splits)

text \<open>The ways a call can end, for the history and the prompts it leaves.\<close>

abbreviation asked_for ::
  "compaction_trigger \<Rightarrow> string option \<Rightarrow> compaction \<Rightarrow> history \<Rightarrow> 'a compaction_env_scheme \<Rightarrow> string"
where
  "asked_for trig goal co hist e \<equiv>
     compaction_prompt trig goal
       (cc_summary_style (cp_config co) = ''structured'' \<and> trig \<noteq> SUBGOAL_CLOSED)
       (format_history_for_summary e
         (compactable_part (cc_keep_recent_turns (cp_config co) * 2) hist))"

lemma run_compaction_cases:
  fixes e :: "'a compaction_env_scheme"
  assumes run: "run_compaction trig goal hist tot fp subgoals co e = (res, hist', co', e')"
  obtains (untouched) r where "res = Inr r" "hist' = hist" "co' = co" "cr_compacted_subgoal_ids r = []"
      "cr_error r \<noteq> None \<or> cr_rolled_back r"
      "e' = e\<lparr>ce_prompts := ce_prompts e @ [asked_for trig goal co hist e]\<rparr>"
  | (compacted) r raw st n where "res = Inr r" "\<not> cr_rolled_back r" "cr_error r = None"
      "hist' = summary_entries e trig raw st @ recent_part (cc_keep_recent_turns (cp_config co) * 2) hist"
      "count_messages e hist' = Inr n" "n < tot" "cr_tokens_after r = n" "cr_tokens_before r = tot"
      "cr_compacted_subgoal_ids r = mark_compacted co subgoals trig goal"
      "co' = co\<lparr>cp_last_fingerprint := Some fp,
          cp_compacted_subgoal_ids := cp_compacted_subgoal_ids co @ mark_compacted co subgoals trig goal\<rparr>"
      "e' = e\<lparr>ce_prompts := ce_prompts e @ [asked_for trig goal co hist e]\<rparr>"
  | (raised) x raw st where "res = Inl x" "co' = co"
      "hist' = summary_entries e trig raw st @ recent_part (cc_keep_recent_turns (cp_config co) * 2) hist"
      "count_messages e hist' = Inl x"
      "e' = e\<lparr>ce_prompts := ce_prompts e @ [asked_for trig goal co hist e]\<rparr>"
proof -
  let ?keep = "cc_keep_recent_turns (cp_config co) * 2"
  let ?recent = "recent_part ?keep hist"
  have fmt: "format_for_injection (e\<lparr>ce_prompts := ps\<rparr>) = format_for_injection e" for ps
    by (intro ext) (simp add: format_for_injection_def cong: if_cong)
  have entries: "summary_entries (e\<lparr>ce_prompts := ps\<rparr>) trig raw st = summary_entries e trig raw st"
    for ps raw st by (simp add: summary_entries_def fmt split: option.split)
  let ?structured = "cc_summary_style (cp_config co) = ''structured'' \<and> trig \<noteq> SUBGOAL_CLOSED"
  let ?e = "e\<lparr>ce_prompts := ce_prompts e @ [asked_for trig goal co hist e]\<rparr>"
  show thesis
  proof (cases "ce_llm e (ce_prompts e) (asked_for trig goal co hist e)")
    case (Inl x)
    with run show thesis
      by (intro untouched) (auto simp: run_compaction_def call_llm_def Let_def no_compaction_def)
  next
    case (Inr raw)
    define st where "st = (if ?structured then parse_structured_state ?e raw else None)"
    let ?new = "summary_entries e trig raw st @ ?recent"
    have step: "run_compaction trig goal hist tot fp subgoals co e =
        (case count_messages e ?new of
           Inl x \<Rightarrow> (Inl x, ?new, co, ?e)
         | Inr n \<Rightarrow>
        if n \<ge> tot then
           (Inr (no_compaction\<lparr>cr_triggered := True, cr_trigger := Some trig,
              cr_turns_before := length (compactable_part ?keep hist) + length ?recent,
              cr_turns_after := length hist, cr_tokens_before := tot,
              cr_tokens_after := tot, cr_rolled_back := True\<rparr>), hist, co, ?e)
         else
           (Inr (no_compaction\<lparr>cr_triggered := True, cr_trigger := Some trig,
              cr_turns_before := length (compactable_part ?keep hist) + length ?recent,
              cr_turns_after := length ?recent + (if st = None then 1 else 2),
              cr_tokens_before := tot, cr_tokens_after := n,
              cr_summary := Some (py_strip raw), cr_structured_state := st,
              cr_compacted_subgoal_ids := mark_compacted co subgoals trig goal\<rparr>), ?new,
            co\<lparr>cp_last_fingerprint := Some fp,
               cp_compacted_subgoal_ids :=
                 cp_compacted_subgoal_ids co @ mark_compacted co subgoals trig goal\<rparr>, ?e))"
      by (cases "count_messages e ?new")
        (simp_all add: run_compaction_def call_llm_def Let_def entries Inr st_def [symmetric])
    show thesis
    proof (cases "count_messages e ?new")
      case (Inl x)
      with run step show thesis by (intro raised [of x raw st]) auto
    next
      case count: (Inr n)
      show thesis
      proof (cases "n \<ge> tot")
        case True
        with run step count show thesis by (intro untouched) (auto simp: no_compaction_def)
      next
        case False
        with run step count show thesis
          by (intro compacted [of _ raw st n]) (auto simp: no_compaction_def)
      qed
    qed
  qed
qed

text \<open>A pass does nothing, or asks the LLM once for its trigger and ends in one of three ways.\<close>

lemma compact_if_needed_cases:
  fixes e :: "'a compaction_env_scheme"
  assumes run: "compact_if_needed hist p subgoals co e = (res, hist', co', e')"
  obtains (idle) "hist' = hist" "co' = co" "e' = e"
      "\<And>r. res = Inr r \<Longrightarrow> cr_compacted_subgoal_ids r = []"
  | (asked) trig goal tot fp where
      "find_trigger co subgoals p
         (length (filter (\<lambda>m. dict_get m ''role'' = Some (JStr ''user'')) hist)) = Some (trig, goal)"
      "count_messages e hist = Inr tot"
      "run_compaction trig goal hist tot fp subgoals co e = (res, hist', co', e')"
proof -
  let ?users = "length (filter (\<lambda>m. dict_get m ''role'' = Some (JStr ''user'')) hist)"
  let ?keep = "cc_keep_recent_turns (cp_config co) * 2"
  note body = run [unfolded compact_if_needed_def Let_def]
  show thesis
  proof (cases "\<exists>tot trig goal. cc_enabled (cp_config co) \<and> hist \<noteq> [] \<and> count_messages e hist = Inr tot
      \<and> find_trigger co subgoals p ?users = Some (trig, goal)
      \<and> int tot \<ge> cc_min_tokens_for_compaction (cp_config co) \<and> ?keep < int (length hist)
      \<and> Some (compute_fingerprint e (compactable_part ?keep hist)) \<noteq> cp_last_fingerprint co")
    case False
    with body show thesis
      by (intro idle)
        (auto simp: no_compaction_def split: if_splits sum.splits option.splits prod.splits)
  next
    case True
    then obtain tot trig goal where go: "cc_enabled (cp_config co)" "hist \<noteq> []"
      "count_messages e hist = Inr tot" "find_trigger co subgoals p ?users = Some (trig, goal)"
      "int tot \<ge> cc_min_tokens_for_compaction (cp_config co)" "?keep < int (length hist)"
      "Some (compute_fingerprint e (compactable_part ?keep hist)) \<noteq> cp_last_fingerprint co"
      by blast
    with body show thesis by (intro asked [OF go(4,3)]) simp
  qed
qed

lemma summary_entries_shape:
  "0 < length (summary_entries e trig raw st)"
  "length (summary_entries e trig raw st) \<le> 2"
  "m \<in> set (summary_entries e trig raw st) \<Longrightarrow> dict_get m ''role'' = Some (JStr ''assistant'')"
  by (auto simp: summary_entries_def assistant_entry_def dict_get_def split: option.splits)

subsection \<open>Properties\<close>

text \<open>C31: a compaction pass never loses the recent turns.  Whatever the LLM answers, the pass
  leaves the history exactly as it was (with the orchestrator), or replaces it by one or two
  assistant entries followed by the recent turns, word for word; then the new history counts strictly
  fewer tokens than the old one and the result reports the two counts, or the encoder raised while
  the new history was counted (the answer holds the text of a special token): that exception leaves
  the pass with the history replaced, neither counted nor rolled back, and nothing marked.\<close>

theorem compaction_keeps_recent_turns:
  assumes "compact_if_needed hist p subgoals co e = (res, hist', co', e')"
  shows "hist' = hist \<and> co' = co \<or>
    (\<exists>pre tot. hist' = pre @ recent_part (cc_keep_recent_turns (cp_config co) * 2) hist
       \<and> 0 < length pre \<and> length pre \<le> 2
       \<and> (\<forall>m\<in>set pre. dict_get m ''role'' = Some (JStr ''assistant''))
       \<and> count_messages e hist = Inr tot
       \<and> (case count_messages e hist' of
            Inr n \<Rightarrow> n < tot \<and> (\<exists>r. res = Inr r \<and> cr_tokens_before r = tot \<and> cr_tokens_after r = n)
          | Inl x \<Rightarrow> res = Inl x \<and> co' = co))"
  using assms
proof (cases rule: compact_if_needed_cases)
  case (asked trig goal tot fp)
  from asked(3) show ?thesis
  proof (cases rule: run_compaction_cases)
    case (compacted r raw st n)
    with asked(2) summary_entries_shape(1,2) [of e trig raw st]
      summary_entries_shape(3) [of _ e trig raw st] show ?thesis
      by (intro disjI2 exI [of _ "summary_entries e trig raw st"] exI [of _ tot] conjI) auto
  next
    case (raised x raw st)
    with asked(2) summary_entries_shape(1,2) [of e trig raw st]
      summary_entries_shape(3) [of _ e trig raw st] show ?thesis
      by (intro disjI2 exI [of _ "summary_entries e trig raw st"] exI [of _ tot] conjI) auto
  qed simp
qed simp

text \<open>\<open>keep_recent_turns = 0\<close> does not mean "keep nothing": Python reads \<open>history[:-0]\<close> as the
  empty list and \<open>history[-0:]\<close> as the whole history, so the summary is put in front of everything,
  saves no token and is rolled back.  With that setting no pass ever compacts anything.\<close>

lemma keep_zero_never_compacts:
  assumes run: "compact_if_needed hist p subgoals co e = (res, hist', co', e')"
    and keep: "cc_keep_recent_turns (cp_config co) = 0"
  shows "co' = co \<and> (hist' = hist \<or> (\<exists>x. res = Inl x))"
  using run
proof (cases rule: compact_if_needed_cases)
  case (asked trig goal tot fp)
  from asked(3) show ?thesis
  proof (cases rule: run_compaction_cases)
    case (compacted r raw st n)
    have "recent_part 0 hist = hist" by (simp add: recent_part_def)
    with compacted keep have "count_messages e (summary_entries e trig raw st @ hist) = Inr n"
      by simp
    from count_messages_prefix [OF this] asked(2) \<open>n < tot\<close> show ?thesis by auto
  qed simp_all
qed simp

lemma uncompacted_marked:
  assumes "cp_compacted_subgoal_ids co' = cp_compacted_subgoal_ids co @
      map sr_subgoal_id (filter (uncompacted co) rs)"
  shows "find (uncompacted co') rs = None"
  using assms by (auto simp: find_None_iff uncompacted_def image_iff)

text \<open>The prompt about a closed subgoal, and what the LLM is asked by passes that follow, each with
  a history and a context pressure of its own.\<close>

abbreviation subgoal_prompt :: "string \<Rightarrow> string \<Rightarrow> string" where
  "subgoal_prompt goal history_text \<equiv>
     SUBGOAL_COMPLETION_SYSTEM @ nl @ nl @ SUBGOAL_COMPLETION_USER goal history_text"

fun later_passes ::
  "subgoal_store \<Rightarrow> (history \<times> rat) list \<Rightarrow> compaction \<Rightarrow> 'a compaction_env_scheme
   \<Rightarrow> 'a compaction_env_scheme"
where
  "later_passes subgoals [] co e = e"
| "later_passes subgoals ((hist, p) # ps) co e =
     (let (_, _, co, e) = compact_if_needed hist p subgoals co e in later_passes subgoals ps co e)"

lemma other_prompt:
  "trig \<noteq> SUBGOAL_CLOSED \<Longrightarrow> compaction_prompt trig goal structured txt \<noteq> subgoal_prompt g txt'"
  by (simp add: compaction_prompt_def SUBGOAL_COMPLETION_SYSTEM_def STATE_EXTRACTION_SYSTEM_def
      CONVERSATION_SUMMARY_SYSTEM_def)

lemma pass_when_marked:
  assumes run: "compact_if_needed hist p subgoals co e = (res, hist', co', e')"
    and marked: "find (uncompacted co) (subgoal_snapshot subgoals) = None"
  obtains new where "ce_prompts e' = ce_prompts e @ new" "\<forall>g txt. subgoal_prompt g txt \<notin> set new"
    "find (uncompacted co') (subgoal_snapshot subgoals) = None"
  using run
proof (cases rule: compact_if_needed_cases)
  case idle
  with marked show thesis by (intro that [of "[]"]) simp_all
next
  case (asked trig goal tot fp)
  have trig: "trig \<noteq> SUBGOAL_CLOSED"
    using asked(1) marked by (auto simp: find_trigger_def Let_def split: if_splits)
  then have ids: "mark_compacted co subgoals trig goal = []" by (simp add: mark_compacted_def)
  have same: "find (uncompacted co') (subgoal_snapshot subgoals) = None"
    if "cp_compacted_subgoal_ids co' = cp_compacted_subgoal_ids co"
    using that marked by (simp add: find_None_iff uncompacted_def)
  from asked(3) have "ce_prompts e' = ce_prompts e @ [asked_for trig goal co hist e] \<and>
      cp_compacted_subgoal_ids co' = cp_compacted_subgoal_ids co"
    by (cases rule: run_compaction_cases) (simp_all add: ids)
  with same show thesis
    by (intro that [of "[asked_for trig goal co hist e]"])
      (simp_all add: other_prompt [OF trig, symmetric])
qed

lemma later_prompts:
  assumes "find (uncompacted co) (subgoal_snapshot subgoals) = None"
  shows "\<exists>new. ce_prompts (later_passes subgoals ps co e) = ce_prompts e @ new \<and>
    (\<forall>g txt. subgoal_prompt g txt \<notin> set new)"
  using assms
proof (induction ps arbitrary: co e)
  case (Cons q ps)
  obtain hist p where q: "q = (hist, p)" by (cases q)
  obtain res hist' co' e' where run: "compact_if_needed hist p subgoals co e = (res, hist', co', e')"
    by (metis prod_cases4)
  from run Cons.prems obtain new where new: "ce_prompts e' = ce_prompts e @ new"
    "\<forall>g txt. subgoal_prompt g txt \<notin> set new"
    and "find (uncompacted co') (subgoal_snapshot subgoals) = None"
    by (rule pass_when_marked)
  then obtain new' where "ce_prompts (later_passes subgoals ps co' e') = ce_prompts e' @ new'"
    "\<forall>g txt. subgoal_prompt g txt \<notin> set new'" using Cons.IH [of co' e'] by blast
  with new show ?case by (intro exI [of _ "new @ new'"]) (auto simp: q run)
qed simp

text \<open>C32: the pass that summarises a closed subgoal asks the LLM exactly once, about the first
  closed subgoal (with the compactable part of the history), and marks every closed subgoal as
  compacted.  No pass that follows, whatever the history and the pressure, asks the LLM about a
  subgoal of the store again: the other closed subgoals are never summarised.\<close>

theorem one_summary_marks_all_closed:
  assumes run: "compact_if_needed hist p subgoals co e = (Inr r, hist', co', e')"
    and marked: "cr_compacted_subgoal_ids r \<noteq> []"
  shows "(\<exists>first. find (uncompacted co) (subgoal_snapshot subgoals) = Some first
       \<and> ce_prompts e' = ce_prompts e @ [subgoal_prompt (sr_goal first)
           (format_history_for_summary e
             (compactable_part (cc_keep_recent_turns (cp_config co) * 2) hist))])
    \<and> cr_compacted_subgoal_ids r =
        map sr_subgoal_id (filter (uncompacted co) (subgoal_snapshot subgoals))
    \<and> (\<exists>new. ce_prompts (later_passes subgoals ps co' e') = ce_prompts e' @ new
         \<and> (\<forall>goal txt. subgoal_prompt goal txt \<notin> set new))"
  using run
proof (cases rule: compact_if_needed_cases)
  case idle
  with marked show ?thesis by simp
next
  case (asked trig goal tot fp)
  from asked(3) show ?thesis
  proof (cases rule: run_compaction_cases)
    case (compacted r' raw st n)
    with marked have trig: "trig = SUBGOAL_CLOSED" "truthy_goal goal"
      and all: "mark_compacted co subgoals trig goal =
        map sr_subgoal_id (filter (uncompacted co) (subgoal_snapshot subgoals))"
      by (auto simp: mark_compacted_def split: if_splits)
    with asked(1) obtain first where first: "goal = Some (sr_goal first)"
      "find (uncompacted co) (subgoal_snapshot subgoals) = Some first"
      by (auto simp: find_trigger_def Let_def split: if_splits option.splits)
    have "find (uncompacted co') (subgoal_snapshot subgoals) = None"
      by (rule uncompacted_marked) (simp add: compacted all)
    from later_prompts [OF this, of ps e'] compacted trig all first show ?thesis
      by (simp add: compaction_prompt_def)
  qed (use marked in simp_all)
qed

subsection \<open>Concrete passes\<close>

definition demo_compaction_env :: compaction_env where
  "demo_compaction_env = mem_env.extend demo_mem_env
     \<lparr>ce_encode = Inr \<circ> length, ce_not_text = (\<lambda>v. PyExn ''builtins'' ''TypeError'' ''not text''),
      ce_llm = (\<lambda>asked prompt. Inr ''ok''), ce_prompts = [], ce_json_loads = (\<lambda>s. None)\<rparr>"

definition demo_message :: "string \<Rightarrow> json pydict" where
  "demo_message role = [(''role'', JStr role), (''content'', JStr (replicate 60 (CHR ''x'')))]"

definition demo_history :: history where
  "demo_history = map demo_message [''user'', ''assistant'', ''user'', ''assistant'']"

definition demo_compaction :: "int \<Rightarrow> int \<Rightarrow> compaction" where
  "demo_compaction keep turns = new_compaction (default_compaction_config
     \<lparr>cc_turn_count_threshold := turns, cc_keep_recent_turns := keep,
      cc_min_tokens_for_compaction := 0\<rparr>) True"

definition demo_closed :: "string \<Rightarrow> subgoal_record" where
  "demo_closed i =
     \<lparr>sr_subgoal_id = i, sr_parent_id = None, sr_state = ''CLOSED'', sr_goal = ''goal '' @ i,
      sr_context = Fields [], sr_metadata = Fields [], sr_created_at = 0\<rparr>"

definition demo_closed_store :: subgoal_store where
  "demo_closed_store = subgoal_load_snapshot [demo_closed ''a'', demo_closed ''b'']"

text \<open>An encoder that refuses the special token which ends a text, and an LLM that answers with one.\<close>

definition special_token :: string where
  "special_token = ''<|endoftext|>''"

definition special_env :: compaction_env where
  "special_env = demo_compaction_env
     \<lparr>ce_encode := (\<lambda>s. if drop (length s - length special_token) s = special_token
                      then Inl (ValueError ''disallowed special token'')
                      else Inr (length s)),
      ce_llm := (\<lambda>asked prompt. Inr special_token)\<rparr>"

theorem compaction_keeps_recent_turns_witness:
  "(\<exists>pre. fst (snd (compact_if_needed demo_history 0 [] (demo_compaction 1 2) demo_compaction_env))
      = pre @ map demo_message [''user'', ''assistant''] \<and> length pre \<le> 2) \<and>
   (\<exists>pre. fst (snd (compact_if_needed demo_history 0 [] (demo_compaction 1 2) special_env))
      = pre @ map demo_message [''user'', ''assistant''] \<and> length pre \<le> 2) \<and>
   fst (compact_if_needed demo_history 0 [] (demo_compaction 1 2) special_env) =
     Inl (ValueError ''disallowed special token'')"
proof -
  let ?run = "compact_if_needed demo_history 0 [] (demo_compaction 1 2)"
  have replaced: "\<exists>pre. fst (snd (?run e)) = pre @ map demo_message [''user'', ''assistant''] \<and>
      length pre \<le> 2" if "fst (snd (?run e)) \<noteq> demo_history" for e :: compaction_env
  proof -
    obtain res hist' co' e' where run: "?run e = (res, hist', co', e')" by (cases "?run e")
    have "recent_part 2 demo_history = map demo_message [''user'', ''assistant'']"
      and "cc_keep_recent_turns (cp_config (demo_compaction 1 2)) = 1" by code_simp+
    with that show ?thesis using compaction_keeps_recent_turns [OF run] by (auto simp: run)
  qed
  have "fst (snd (?run demo_compaction_env)) \<noteq> demo_history"
    "fst (snd (?run special_env)) \<noteq> demo_history" by code_simp+
  moreover have "fst (?run special_env) = Inl (ValueError ''disallowed special token'')" by code_simp
  ultimately show ?thesis using replaced by blast
qed

lemma keep_zero_never_compacts_example:
  "fst (snd (compact_if_needed demo_history 0 [] (demo_compaction 0 2) demo_compaction_env))
     = demo_history
   \<and> length (ce_prompts (snd (snd (snd (compact_if_needed demo_history 0 [] (demo_compaction 0 2)
         demo_compaction_env))))) = 1"
proof -
  let ?run = "compact_if_needed demo_history 0 [] (demo_compaction 0 2) demo_compaction_env"
  obtain res hist' co' e' where run: "?run = (res, hist', co', e')" by (cases ?run)
  have "cc_keep_recent_turns (cp_config (demo_compaction 0 2)) = 0" by code_simp
  moreover have "length (ce_prompts (snd (snd (snd ?run)))) = 1" by code_simp
  moreover have "(case fst ?run of Inl _ \<Rightarrow> False | Inr _ \<Rightarrow> True)" by code_simp
  ultimately show ?thesis using keep_zero_never_compacts [OF run] by (auto simp: run)
qed

theorem one_summary_marks_all_closed_witness:
  "\<exists>r hist' co' e'. compact_if_needed demo_history 0 demo_closed_store (demo_compaction 1 9)
      demo_compaction_env = (Inr r, hist', co', e')
    \<and> cr_compacted_subgoal_ids r = [''a'', ''b'']
    \<and> (\<exists>txt. ce_prompts e' = [subgoal_prompt ''goal a'' txt])
    \<and> (\<forall>txt. subgoal_prompt ''goal b'' txt \<notin> set (ce_prompts
        (later_passes demo_closed_store [(demo_history @ demo_history, 1)] co' e')))"
proof -
  let ?run = "compact_if_needed demo_history 0 demo_closed_store (demo_compaction 1 9)
      demo_compaction_env"
  obtain res hist' co' e' where run: "?run = (res, hist', co', e')" by (cases ?run)
  have "(case fst ?run of Inr r \<Rightarrow> cr_compacted_subgoal_ids r = [''a'', ''b''] | Inl _ \<Rightarrow> False)"
    by code_simp
  then obtain r where r: "res = Inr r" "cr_compacted_subgoal_ids r = [''a'', ''b'']"
    by (auto simp: run split: sum.splits)
  have first: "find (uncompacted (demo_compaction 1 9)) (subgoal_snapshot demo_closed_store) =
      Some (demo_closed ''a'')" "sr_goal (demo_closed ''a'') = ''goal a''"
    "ce_prompts demo_compaction_env = []" by code_simp+
  have other: "subgoal_prompt ''goal b'' s \<noteq> subgoal_prompt ''goal a'' s'" for s s'
    by (simp add: SUBGOAL_COMPLETION_USER_def quoted_def)
  from one_summary_marks_all_closed [OF run [unfolded r(1)], of "[(demo_history @ demo_history, 1)]"]
  obtain s new where "ce_prompts e' = [subgoal_prompt ''goal a'' s]"
    "ce_prompts (later_passes demo_closed_store [(demo_history @ demo_history, 1)] co' e') =
      ce_prompts e' @ new" "\<forall>goal txt. subgoal_prompt goal txt \<notin> set new"
    using r first by auto
  with other r run show ?thesis by (intro exI conjI) auto
qed

end
