(* ===== verification/Governance.thy ===== *)
theory Governance
  imports Eviction Compaction
begin

text \<open>
  The governance layer over the memory stores (\<^verbatim>\<open>agent/memory/governance\<close>): the rules of
  \<^verbatim>\<open>validation.py\<close> and \<^verbatim>\<open>normalisation.py\<close>, which return lists of violations, and the governed
  writes, reads and audit of \<^verbatim>\<open>memory_governance.py\<close>.  \<open>governance\<close> is the memory with the two
  optional orchestrators: whether there is an eviction orchestrator (it has no state of its own),
  and the compaction orchestrator.  A failed operation leaves the state in front of it.
\<close>

subsection \<open>Violations\<close>

record violation =
  vi_rule :: string
  vi_field :: "string option"
  vi_message :: string
  vi_record_id :: "string option"

definition truthy_str :: "string option \<Rightarrow> string list" where
  "truthy_str s = (case s of None \<Rightarrow> [] | Some t \<Rightarrow> if t = [] then [] else [t])"

definition violation_str :: "violation \<Rightarrow> string" where
  "violation_str v =
     joined '' ''
       ([''['' @ vi_rule v @ '']''] @
        map (\<lambda>f. ''field='' @ quoted f) (truthy_str (vi_field v)) @
        map (\<lambda>i. ''id='' @ quoted i) (truthy_str (vi_record_id v)) @ [vi_message v])"

text \<open>
  What a governed operation can raise: \<open>MemoryGovernanceError\<close> with its violations, or an
  exception of the code below it.
\<close>

datatype memory_error = MemoryGovernanceError "violation list" | Raised pyexn

type_synonym 'a governed = "memory_error + 'a"

definition governance_error_str :: "violation list \<Rightarrow> string" where
  "governance_error_str vs = joined ''; '' (map violation_str vs)"

definition mk_governance_error :: "violation list \<Rightarrow> memory_error" where
  "mk_governance_error vs =
     (if vs = [] then
        Raised (ValueError ''MemoryGovernanceError requires at least one violation'')
      else MemoryGovernanceError vs)"

definition raise_if :: "violation list \<Rightarrow> unit governed" where
  "raise_if vs = (if vs \<noteq> [] then Inl (mk_governance_error vs) else Inr ())"

definition lift_result :: "'a result \<Rightarrow> 'a governed" where
  "lift_result r = (case r of Inl x \<Rightarrow> Inl (Raised x) | Inr v \<Rightarrow> Inr v)"

subsection \<open>Timestamps\<close>

text \<open>\<open>value.replace("Z", "+00:00")\<close>.\<close>

definition replace_Z :: "string \<Rightarrow> string" where
  "replace_Z s = concat (map (\<lambda>c. if c = CHR ''Z'' then ''+00:00'' else [c]) s)"

text \<open>None is the exception of \<open>fromisoformat\<close>.\<close>

definition normalise_iso_timestamp :: "'a mem_env_scheme \<Rightarrow> string \<Rightarrow> string option" where
  "normalise_iso_timestamp e value = me_iso e (replace_Z value)"

definition try_normalise_iso_timestamp ::
  "'a mem_env_scheme \<Rightarrow> string \<Rightarrow> string \<Rightarrow> string option \<Rightarrow> string \<times> violation list"
where
  "try_normalise_iso_timestamp e value field rid =
     (case normalise_iso_timestamp e value of
        Some v \<Rightarrow> (v, [])
      | None \<Rightarrow> (value,
          [\<lparr>vi_rule = ''invalid_iso_timestamp'', vi_field = Some field,
            vi_message = ''Cannot parse '' @ quoted field @ '' as ISO 8601: '' @ quoted value,
            vi_record_id = rid\<rparr>]))"

definition normalise_plan_record :: "'a mem_env_scheme \<Rightarrow> plan_record \<Rightarrow> plan_record option" where
  "normalise_plan_record e r =
     (case normalise_iso_timestamp e (pr_created_at r) of
        None \<Rightarrow> None
      | Some canonical \<Rightarrow>
          if canonical = pr_created_at r then Some r else Some (r\<lparr>pr_created_at := canonical\<rparr>))"

subsection \<open>Validation of one record\<close>

definition json_pure_check :: "payload \<Rightarrow> string \<Rightarrow> string option \<Rightarrow> violation list" where
  "json_pure_check value field rid =
     (case ensure_json_pure value of
        Inr _ \<Rightarrow> []
      | Inl x \<Rightarrow>
          [\<lparr>vi_rule = ''not_json_pure'', vi_field = Some field,
            vi_message = ''Field '' @ quoted field @ '' is not JSON-serialisable: '' @ exn_message x,
            vi_record_id = rid\<rparr>])"

definition require_nonempty :: "string \<Rightarrow> string \<Rightarrow> string \<Rightarrow> string option \<Rightarrow> violation list" where
  "require_nonempty value field rule rid =
     (if value = [] then
        [\<lparr>vi_rule = rule, vi_field = Some field,
          vi_message = ''Field '' @ quoted field @ '' must be non-empty'', vi_record_id = rid\<rparr>]
      else [])"

text \<open>\<open>i or None\<close>.\<close>

definition or_none :: "string \<Rightarrow> string option" where
  "or_none i = (if i = [] then None else Some i)"

definition validate_subgoal_record :: "subgoal_record \<Rightarrow> violation list" where
  "validate_subgoal_record r =
     (let rid = or_none (sr_subgoal_id r)
      in require_nonempty (sr_subgoal_id r) ''subgoal_id'' ''subgoal_id_required'' rid @
         require_nonempty (sr_goal r) ''goal'' ''goal_required'' rid @
         (if sr_created_at r < 0 then
            [\<lparr>vi_rule = ''invalid_created_at'', vi_field = Some ''created_at'',
              vi_message = ''created_at must be >= 0, got '' @ int_str (sr_created_at r),
              vi_record_id = rid\<rparr>]
          else []) @
         (case subgoal_state_of (sr_state r) of
            Inr _ \<Rightarrow> []
          | Inl _ \<Rightarrow>
              [\<lparr>vi_rule = ''invalid_state'', vi_field = Some ''state'',
                vi_message =
                  ''state '' @ quoted (sr_state r) @ '' is not a valid SubgoalLifecycleState'',
                vi_record_id = rid\<rparr>]) @
         (if sr_parent_id r = Some (sr_subgoal_id r) then
            [\<lparr>vi_rule = ''self_parent'', vi_field = Some ''parent_id'',
              vi_message = ''parent_id must not equal subgoal_id'', vi_record_id = rid\<rparr>]
          else []) @
         json_pure_check (sr_context r) ''context'' rid @
         json_pure_check (sr_metadata r) ''metadata'' rid)"

fun is_json_str :: "json \<Rightarrow> bool" where
  "is_json_str (JStr _) = True"
| "is_json_str _ = False"

text \<open>\<open>[i for i, v in enumerate(content) if not isinstance(v, str)]\<close> and its text.\<close>

definition non_strings :: "json list \<Rightarrow> nat list" where
  "non_strings content = filter (\<lambda>i. \<not> is_json_str (content ! i)) [0..<length content]"

definition indices_str :: "nat list \<Rightarrow> string" where
  "indices_str is = ''['' @ joined '', '' (map nat_digits is) @ '']''"

definition validate_segment_record :: "'a mem_env_scheme \<Rightarrow> segment_record \<Rightarrow> violation list" where
  "validate_segment_record e r =
     (let rid = or_none (gr_segment_id r)
      in require_nonempty (gr_segment_id r) ''segment_id'' ''segment_id_required'' rid @
         require_nonempty (gr_subgoal_id r) ''subgoal_id'' ''subgoal_id_required'' rid @
         (if gr_content r = [] then
            [\<lparr>vi_rule = ''content_empty'', vi_field = Some ''content'',
              vi_message = ''content must not be empty'', vi_record_id = rid\<rparr>]
          else if non_strings (gr_content r) \<noteq> [] then
            [\<lparr>vi_rule = ''content_not_strings'', vi_field = Some ''content'',
              vi_message = ''content items at indices '' @ indices_str (non_strings (gr_content r)) @
                '' are not strings'',
              vi_record_id = rid\<rparr>]
          else []) @
         snd (try_normalise_iso_timestamp e (gr_created_at r) ''created_at'' rid) @
         (if gr_parent_id r = Some (gr_segment_id r) then
            [\<lparr>vi_rule = ''self_parent'', vi_field = Some ''parent_id'',
              vi_message = ''parent_id must not equal segment_id'', vi_record_id = rid\<rparr>]
          else []) @
         json_pure_check (gr_context r) ''context'' rid @
         json_pure_check (gr_metadata r) ''metadata'' rid)"

text \<open>The ids of a plan's segments are a list of strings here, so the two checks of their type
  find nothing.\<close>

definition validate_plan_record :: "'a mem_env_scheme \<Rightarrow> plan_record \<Rightarrow> violation list" where
  "validate_plan_record e r =
     (let rid = or_none (pr_plan_id r)
      in require_nonempty (pr_plan_id r) ''plan_id'' ''plan_id_required'' rid @
         require_nonempty (pr_subgoal_id r) ''subgoal_id'' ''subgoal_id_required'' rid @
         require_nonempty (pr_intent r) ''intent'' ''intent_required'' rid @
         snd (try_normalise_iso_timestamp e (pr_created_at r) ''created_at'' rid) @
         json_pure_check (pr_metadata r) ''metadata'' rid @
         json_pure_check (pr_arguments r) ''arguments'' rid)"

definition validate_drift_event :: "'a env_scheme \<Rightarrow> drift_event \<Rightarrow> violation list" where
  "validate_drift_event e ev =
     (let rid = or_none (de_subgoal_id ev)
      in (if de_timestamp ev < 0 then
            [\<lparr>vi_rule = ''invalid_timestamp'', vi_field = Some ''timestamp'',
              vi_message = ''timestamp must be >= 0, got '' @ int_str (de_timestamp ev),
              vi_record_id = rid\<rparr>]
          else []) @
         require_nonempty (de_subgoal_id ev) ''subgoal_id'' ''subgoal_id_required'' rid @
         require_nonempty (de_signal_type ev) ''signal_type'' ''signal_type_required'' rid @
         (if \<not> (0 \<le> de_confidence ev \<and> de_confidence ev \<le> 1) then
            [\<lparr>vi_rule = ''invalid_confidence'', vi_field = Some ''confidence'',
              vi_message =
                ''confidence must be in [0.0, 1.0], got '' @ e_float_fmt e [] (de_confidence ev),
              vi_record_id = rid\<rparr>]
          else []) @
         json_pure_check (de_details ev) ''details'' rid)"

subsection \<open>Consistency across stores\<close>

definition unknown_reference :: "string \<Rightarrow> string \<Rightarrow> string \<Rightarrow> string \<Rightarrow> string option \<Rightarrow> violation" where
  "unknown_reference rule field message store rid =
     \<lparr>vi_rule = rule, vi_field = Some field, vi_message = message @ '' not found in '' @ store,
      vi_record_id = rid\<rparr>"

definition check_segment_consistency :: "segment_record \<Rightarrow> string set \<Rightarrow> violation list" where
  "check_segment_consistency r known_subgoals =
     (if gr_subgoal_id r \<notin> known_subgoals then
        [unknown_reference ''unknown_subgoal_reference'' ''subgoal_id''
           (''subgoal_id '' @ quoted (gr_subgoal_id r)) ''SubgoalMemory'' (Some (gr_segment_id r))]
      else [])"

definition check_plan_consistency :: "plan_record \<Rightarrow> string set \<Rightarrow> string set \<Rightarrow> violation list" where
  "check_plan_consistency r known_subgoals known_segments =
     (if pr_subgoal_id r \<notin> known_subgoals then
        [unknown_reference ''unknown_subgoal_reference'' ''subgoal_id''
           (''subgoal_id '' @ quoted (pr_subgoal_id r)) ''SubgoalMemory'' (Some (pr_plan_id r))]
      else []) @
     map (\<lambda>i. unknown_reference ''unknown_segment_reference'' ''segments''
            (''segment_id '' @ quoted i) ''SegmentMemory'' (Some (pr_plan_id r)))
       (filter (\<lambda>i. i \<notin> known_segments) (pr_segments r))"

definition check_drift_consistency :: "drift_event \<Rightarrow> string set \<Rightarrow> string set \<Rightarrow> violation list" where
  "check_drift_consistency ev known_subgoals known_segments =
     (if de_subgoal_id ev \<notin> known_subgoals then
        [unknown_reference ''unknown_subgoal_reference'' ''subgoal_id''
           (''subgoal_id '' @ quoted (de_subgoal_id ev)) ''SubgoalMemory'' None]
      else []) @
     (case de_segment_id ev of
        None \<Rightarrow> []
      | Some i \<Rightarrow>
          if i \<notin> known_segments then
            [unknown_reference ''unknown_segment_reference'' ''segment_id''
               (''segment_id '' @ quoted i) ''SegmentMemory'' None]
          else [])"

subsection \<open>Transitions\<close>

definition disallowed :: "string \<Rightarrow> string \<Rightarrow> string \<Rightarrow> violation" where
  "disallowed rule message rid =
     \<lparr>vi_rule = rule, vi_field = Some ''state'', vi_message = message, vi_record_id = Some rid\<rparr>"

definition is_subgoal_write_allowed ::
  "subgoal_record option \<Rightarrow> subgoal_record \<Rightarrow> bool \<times> violation list"
where
  "is_subgoal_write_allowed existing incoming =
     (case existing of
        None \<Rightarrow> (True, [])
      | Some old \<Rightarrow>
          if sr_state old = sr_state incoming then (True, [])
          else let rid = sr_subgoal_id incoming;
                   unresolved = (\<lambda>x. (False, [disallowed ''invalid_state_value''
                     (''Cannot resolve lifecycle states for transition check: '' @ exn_message x) rid]))
               in case subgoal_state_of (sr_state old) of
                    Inl x \<Rightarrow> unresolved x
                  | Inr from_state \<Rightarrow>
                      (case subgoal_state_of (sr_state incoming) of
                         Inl x \<Rightarrow> unresolved x
                       | Inr to_state \<Rightarrow>
                           if is_allowed from_state to_state \<or> is_legal from_state to_state
                           then (True, [])
                           else (False, [disallowed ''disallowed_state_transition''
                             (''Transition '' @ quoted (sr_state old) @ '' '' @ arrow @ '' '' @
                              quoted (sr_state incoming) @ '' is not permitted by any lifecycle engine'')
                             rid])))"

subsection \<open>The governed memory\<close>

record governance = memory +
  gv_eviction :: bool
  gv_compaction :: "compaction option"

definition known_subgoal_ids :: "'a memory_scheme \<Rightarrow> string set" where
  "known_subgoal_ids m = sr_subgoal_id ` set (subgoal_snapshot (mm_subgoals m))"

definition known_segment_ids :: "'a memory_scheme \<Rightarrow> string set" where
  "known_segment_ids m = gr_segment_id ` set (segment_snapshot (mm_segments m))"

text \<open>Whether a write closes a stored subgoal.\<close>

definition closes :: "subgoal_record option \<Rightarrow> subgoal_record \<Rightarrow> bool" where
  "closes existing incoming =
     (case existing of
        None \<Rightarrow> False
      | Some old \<Rightarrow> py_lower (sr_state old) \<noteq> ''closed'' \<and> py_lower (sr_state incoming) = ''closed'')"

definition put_subgoal ::
  "sub_goal \<Rightarrow> 'a governance_scheme \<Rightarrow> unit governed \<times> 'a governance_scheme"
where
  "put_subgoal s g =
     (let incoming = subgoal_to_record s;
          violations = validate_subgoal_record incoming;
          existing = subgoal_get_record (mm_subgoals g) (sg_subgoal_id s);
          (allowed, trans_violations) = is_subgoal_write_allowed existing incoming;
          violations = (if allowed then violations else violations @ trans_violations)
      in case raise_if violations of
           Inl x \<Rightarrow> (Inl x, g)
         | Inr _ \<Rightarrow>
             (let g = g\<lparr>mm_subgoals := subgoal_put (mm_subgoals g) s\<rparr>;
                  g = (if gv_eviction g \<and> closes existing incoming
                       then snd (on_subgoal_completed (sg_subgoal_id s) None False g) else g);
                  g = (case gv_compaction g of
                         None \<Rightarrow> g
                       | Some co \<Rightarrow>
                           if closes existing incoming
                           then g\<lparr>gv_compaction := Some (snd (on_subgoal_closed (sg_subgoal_id s) co))\<rparr>
                           else g)
              in (Inr (), g)))"

definition put_segment ::
  "plan_segment \<Rightarrow> string option \<Rightarrow> 'a governance_scheme \<Rightarrow> unit governed \<times> 'a governance_scheme"
where
  "put_segment s parent g =
     (let record =
            \<lparr>gr_segment_id = segment_id g s, gr_parent_id = parent, gr_subgoal_id = ps_subgoal_id s,
             gr_state = None, gr_content = ps_steps s, gr_created_at = ps_created_at s,
             gr_context = ps_context s, gr_metadata = ps_metadata s,
             gr_skills = ps_skills s, gr_last_output = None, gr_previous_output = None,
             gr_behavioural_delta = None, gr_behavioural_signals = [], gr_error = None\<rparr>;
          violations = validate_segment_record g record @
            check_segment_consistency record (known_subgoal_ids g)
      in case raise_if violations of
           Inl x \<Rightarrow> (Inl x, g)
         | Inr _ \<Rightarrow> (Inr (), g\<lparr>mm_segments := segment_put g (mm_segments g) s parent\<rparr>))"

definition put_plan ::
  "plan \<Rightarrow> string \<Rightarrow> string \<Rightarrow> string list \<Rightarrow> string \<Rightarrow> payload option \<Rightarrow> 'a governance_scheme
   \<Rightarrow> unit governed \<times> 'a governance_scheme"
where
  "put_plan p plan_id sid segs created meta g =
     (let record = plan_to_record p plan_id sid segs created meta;
          violations = validate_plan_record g record @
            check_plan_consistency record (known_subgoal_ids g) (known_segment_ids g)
      in case raise_if violations of
           Inl x \<Rightarrow> (Inl x, g)
         | Inr _ \<Rightarrow>
             (let (normalised, _) =
                    try_normalise_iso_timestamp g created ''created_at'' (Some plan_id)
              in (Inr (), g\<lparr>mm_plans := plan_put (mm_plans g) p plan_id sid segs normalised meta\<rparr>)))"

text \<open>The defaults of \<open>on_drift_overflow\<close> are 5 events, no age limit and no pattern.\<close>

definition governed_record_drift ::
  "drift_event \<Rightarrow> 'a governance_scheme \<Rightarrow> unit governed \<times> 'a governance_scheme"
where
  "governed_record_drift ev g =
     (let violations = validate_drift_event g ev @
            check_drift_consistency ev (known_subgoal_ids g) (known_segment_ids g)
      in case raise_if violations of
           Inl x \<Rightarrow> (Inl x, g)
         | Inr _ \<Rightarrow>
             (let g = (if gv_eviction g \<and>
                          int (length (dm_buffer (mm_drift g))) \<ge> dm_capacity (mm_drift g)
                       then on_drift_overflow None 5 0 [] g else g)
              in (Inr (), g\<lparr>mm_drift := drift_record (mm_drift g) ev\<rparr>)))"

definition get_subgoal :: "'a memory_scheme \<Rightarrow> string \<Rightarrow> sub_goal option governed" where
  "get_subgoal g i =
     (case subgoal_get_record (mm_subgoals g) i of
        None \<Rightarrow> Inr None
      | Some r \<Rightarrow>
          (case raise_if (validate_subgoal_record r) of
             Inl x \<Rightarrow> Inl x
           | Inr _ \<Rightarrow> lift_result (subgoal_get (mm_subgoals g) i)))"

definition get_segment :: "'a memory_scheme \<Rightarrow> string \<Rightarrow> plan_segment option governed" where
  "get_segment g i = lift_result (segment_get (mm_segments g) i)"

definition get_plan :: "'a memory_scheme \<Rightarrow> string \<Rightarrow> plan option governed" where
  "get_plan g i =
     (case plan_get_record (mm_plans g) i of
        None \<Rightarrow> Inr None
      | Some r \<Rightarrow>
          (case raise_if (validate_plan_record g r) of
             Inl x \<Rightarrow> Inl x
           | Inr _ \<Rightarrow> Inr (plan_get (mm_plans g) i)))"

definition get_plan_record :: "'a memory_scheme \<Rightarrow> string \<Rightarrow> plan_record option" where
  "get_plan_record g i = plan_get_record (mm_plans g) i"

definition check_consistency :: "'a memory_scheme \<Rightarrow> violation list" where
  "check_consistency g =
     (let subgoals = known_subgoal_ids g; segments = known_segment_ids g
      in concat (map validate_subgoal_record (subgoal_snapshot (mm_subgoals g))) @
         concat (map (\<lambda>r. validate_segment_record g r @ check_segment_consistency r subgoals)
           (segment_snapshot (mm_segments g))) @
         concat (map (\<lambda>r. validate_plan_record g r @ check_plan_consistency r subgoals segments)
           (plan_snapshot (mm_plans g))) @
         concat (map (\<lambda>ev. validate_drift_event g ev @ check_drift_consistency ev subgoals segments)
           (dm_buffer (mm_drift g))))"

text \<open>A governed write of a client, and what a sequence of them leaves.\<close>

datatype gov_write =
    PutSubgoal sub_goal
  | PutSegment plan_segment "string option"
  | PutPlan plan string string "string list" string "payload option"
  | RecordDrift drift_event

fun governed_write ::
  "gov_write \<Rightarrow> 'a governance_scheme \<Rightarrow> unit governed \<times> 'a governance_scheme"
where
  "governed_write (PutSubgoal s) g = put_subgoal s g"
| "governed_write (PutSegment s parent) g = put_segment s parent g"
| "governed_write (PutPlan p pid sid segs created meta) g = put_plan p pid sid segs created meta g"
| "governed_write (RecordDrift ev) g = governed_record_drift ev g"

definition governed_writes :: "gov_write list \<Rightarrow> 'a governance_scheme \<Rightarrow> 'a governance_scheme" where
  "governed_writes ws g = fold (\<lambda>w g. snd (governed_write w g)) ws g"

subsection \<open>What the audit says\<close>

text \<open>The stores hold their records under their ids; so every write of the layer leaves them.\<close>

definition stores_ok :: "'a memory_scheme \<Rightarrow> bool" where
  "stores_ok m \<longleftrightarrow> records_ok sr_subgoal_id (mm_subgoals m) \<and>
     records_ok gr_segment_id (mm_segments m) \<and> records_ok pr_plan_id (mm_plans m)"

definition segment_fine :: "'a memory_scheme \<Rightarrow> segment_record \<Rightarrow> bool" where
  "segment_fine m r \<longleftrightarrow> validate_segment_record m r = [] \<and>
     subgoal_exists (mm_subgoals m) (gr_subgoal_id r)"

definition plan_fine :: "'a memory_scheme \<Rightarrow> plan_record \<Rightarrow> bool" where
  "plan_fine m r \<longleftrightarrow> validate_plan_record m r = [] \<and>
     subgoal_exists (mm_subgoals m) (pr_subgoal_id r) \<and>
     (\<forall>i \<in> set (pr_segments r). segment_exists (mm_segments m) i)"

definition drift_fine :: "'a memory_scheme \<Rightarrow> drift_event \<Rightarrow> bool" where
  "drift_fine m ev \<longleftrightarrow> validate_drift_event m ev = [] \<and>
     subgoal_exists (mm_subgoals m) (de_subgoal_id ev) \<and>
     (\<forall>i. de_segment_id ev = Some i \<longrightarrow> segment_exists (mm_segments m) i)"

definition consistent :: "'a memory_scheme \<Rightarrow> bool" where
  "consistent m \<longleftrightarrow>
     (\<forall>i r. dict_get (mm_subgoals m) i = Some r \<longrightarrow> validate_subgoal_record r = []) \<and>
     (\<forall>i r. dict_get (mm_segments m) i = Some r \<longrightarrow> segment_fine m r) \<and>
     (\<forall>i r. dict_get (mm_plans m) i = Some r \<longrightarrow> plan_fine m r) \<and>
     (\<forall>ev \<in> set (dm_buffer (mm_drift m)). drift_fine m ev)"

lemma subgoal_snapshot_records:
  "records_ok sr_subgoal_id s \<Longrightarrow> set (subgoal_snapshot s) = ran (dict_get s)"
  using records_ok_ran [of sr_subgoal_id s] by (simp add: subgoal_snapshot_def)

lemma keys_ids:
  assumes "records_ok rid s"
  shows "rid ` ran (dict_get s) = set (dict_keys s)"
  unfolding records_ok_ran [OF assms, symmetric] records_ok_values [OF assms, symmetric]
  by (simp add: image_image)

lemma known_ids:
  assumes "stores_ok m"
  shows "known_subgoal_ids m = set (dict_keys (mm_subgoals m))"
    and "known_segment_ids m = set (dict_keys (mm_segments m))"
proof -
  have ok: "records_ok sr_subgoal_id (mm_subgoals m)" "records_ok gr_segment_id (mm_segments m)"
    using assms by (simp_all add: stores_ok_def)
  show "known_subgoal_ids m = set (dict_keys (mm_subgoals m))"
    by (simp only: known_subgoal_ids_def subgoal_snapshot_records [OF ok(1)] keys_ids [OF ok(1)])
  show "known_segment_ids m = set (dict_keys (mm_segments m))"
    by (simp only: known_segment_ids_def snapshot_records [OF ok(2)] image_image asdict_fields
        keys_ids [OF ok(2)])
qed

lemma check_nil [simp]:
  "check_segment_consistency r S = [] \<longleftrightarrow> gr_subgoal_id r \<in> S"
  "check_plan_consistency p S G = [] \<longleftrightarrow> pr_subgoal_id p \<in> S \<and> set (pr_segments p) \<subseteq> G"
  "check_drift_consistency ev S G = [] \<longleftrightarrow>
     de_subgoal_id ev \<in> S \<and> (\<forall>i. de_segment_id ev = Some i \<longrightarrow> i \<in> G)"
  by (auto simp: check_segment_consistency_def check_plan_consistency_def
      check_drift_consistency_def filter_empty_conv split: option.splits)

lemma asdict_more [simp]:
  "gr_content (record_asdict r) = gr_content r"
  "gr_created_at (record_asdict r) = gr_created_at r"
  "gr_context (record_asdict r) = gr_context r"
  "gr_metadata (record_asdict r) = gr_metadata r"
  by (simp_all add: record_asdict_def)

lemma validate_asdict [simp]: "validate_segment_record e (record_asdict r) = validate_segment_record e r"
  by (simp only: validate_segment_record_def asdict_more asdict_fields)

lemma check_consistency_iff:
  assumes ok: "stores_ok m"
  shows "check_consistency m = [] \<longleftrightarrow> consistent m"
proof -
  have oks: "records_ok sr_subgoal_id (mm_subgoals m)" "records_ok gr_segment_id (mm_segments m)"
    "records_ok pr_plan_id (mm_plans m)"
    using ok by (simp_all add: stores_ok_def)
  have "check_consistency m = [] \<longleftrightarrow>
      (\<forall>r \<in> ran (dict_get (mm_subgoals m)). validate_subgoal_record r = []) \<and>
      (\<forall>r \<in> ran (dict_get (mm_segments m)). segment_fine m r) \<and>
      (\<forall>r \<in> ran (dict_get (mm_plans m)). plan_fine m r) \<and>
      (\<forall>ev \<in> set (dm_buffer (mm_drift m)). drift_fine m ev)"
    by (simp add: check_consistency_def Let_def known_ids [OF ok] subgoal_snapshot_records [OF oks(1)]
        snapshot_records [OF oks(2)] plan_snapshot_records [OF oks(3)] segment_fine_def plan_fine_def
        drift_fine_def subgoal_exists_def segment_exists_def subset_eq)
  then show ?thesis by (simp add: consistent_def ran_def) blast
qed

text \<open>What validity is; it asks the environment whether timestamps parse, and nothing else.\<close>

lemma validation_nil [simp]:
  "snd (try_normalise_iso_timestamp e v field rid) = [] \<longleftrightarrow> me_iso e (replace_Z v) \<noteq> None"
  "require_nonempty v field rule rid = [] \<longleftrightarrow> v \<noteq> []"
  "json_pure_check p field rid = [] \<longleftrightarrow> json_pure p"
  by (simp_all add: try_normalise_iso_timestamp_def normalise_iso_timestamp_def require_nonempty_def
      json_pure_check_def ensure_json_pure_def json_pure_def split: option.splits)

lemma subgoal_valid:
  "validate_subgoal_record r = [] \<longleftrightarrow>
     sr_subgoal_id r \<noteq> [] \<and> sr_goal r \<noteq> [] \<and> 0 \<le> sr_created_at r \<and>
     (\<exists>s. subgoal_state_of (sr_state r) = Inr s) \<and> sr_parent_id r \<noteq> Some (sr_subgoal_id r) \<and>
     json_pure (sr_context r) \<and> json_pure (sr_metadata r)"
  by (auto simp: validate_subgoal_record_def Let_def split: sum.splits)

lemma segment_valid:
  "validate_segment_record e r = [] \<longleftrightarrow>
     gr_segment_id r \<noteq> [] \<and> gr_subgoal_id r \<noteq> [] \<and> gr_content r \<noteq> [] \<and>
     non_strings (gr_content r) = [] \<and> me_iso e (replace_Z (gr_created_at r)) \<noteq> None \<and>
     gr_parent_id r \<noteq> Some (gr_segment_id r) \<and>
     json_pure (gr_context r) \<and> json_pure (gr_metadata r)"
  by (simp add: validate_segment_record_def Let_def)

lemma plan_valid:
  "validate_plan_record e r = [] \<longleftrightarrow>
     pr_plan_id r \<noteq> [] \<and> pr_subgoal_id r \<noteq> [] \<and> pr_intent r \<noteq> [] \<and>
     me_iso e (replace_Z (pr_created_at r)) \<noteq> None \<and>
     json_pure (pr_metadata r) \<and> json_pure (pr_arguments r)"
  by (simp add: validate_plan_record_def Let_def)

lemma drift_valid:
  "validate_drift_event e ev = [] \<longleftrightarrow>
     0 \<le> de_timestamp ev \<and> de_subgoal_id ev \<noteq> [] \<and> de_signal_type ev \<noteq> [] \<and>
     0 \<le> de_confidence ev \<and> de_confidence ev \<le> 1 \<and> json_pure (de_details ev)"
  by (auto simp: validate_drift_event_def Let_def)

lemma validate_env:
  assumes "me_iso e' = me_iso e"
  shows "validate_segment_record e' r = [] \<longleftrightarrow> validate_segment_record e r = []"
    and "validate_plan_record e' p = [] \<longleftrightarrow> validate_plan_record e p = []"
    and "validate_drift_event e' ev = [] \<longleftrightarrow> validate_drift_event e ev = []"
  by (simp_all only: segment_valid plan_valid drift_valid assms)

text \<open>Consistency survives when records come and go so that every reference stays stored.\<close>

lemma consistent_mono:
  assumes con: "consistent m" and iso: "me_iso m' = me_iso m"
    and sub: "set (dict_keys (mm_subgoals m)) \<subseteq> set (dict_keys (mm_subgoals m'))"
    and seg: "set (dict_keys (mm_segments m)) \<subseteq> set (dict_keys (mm_segments m'))"
    and subs: "\<And>i r. dict_get (mm_subgoals m') i = Some r \<Longrightarrow>
      dict_get (mm_subgoals m) i = Some r \<or> validate_subgoal_record r = []"
    and segs: "\<And>i r. dict_get (mm_segments m') i = Some r \<Longrightarrow>
      dict_get (mm_segments m) i = Some r \<or> segment_fine m' r"
    and plans: "\<And>i r. dict_get (mm_plans m') i = Some r \<Longrightarrow>
      dict_get (mm_plans m) i = Some r \<or> plan_fine m' r"
    and evs: "\<And>ev. ev \<in> set (dm_buffer (mm_drift m')) \<Longrightarrow>
      ev \<in> set (dm_buffer (mm_drift m)) \<or> drift_fine m' ev"
  shows "consistent m'"
proof -
  have "segment_fine m r \<Longrightarrow> segment_fine m' r" for r
    using sub by (auto simp: segment_fine_def subgoal_exists_def validate_env(1) [OF iso])
  moreover have "plan_fine m r \<Longrightarrow> plan_fine m' r" for r
    using sub seg
    by (auto simp: plan_fine_def subgoal_exists_def segment_exists_def validate_env(2) [OF iso])
  moreover have "drift_fine m ev \<Longrightarrow> drift_fine m' ev" for ev
    using sub seg
    by (auto simp: drift_fine_def subgoal_exists_def segment_exists_def validate_env(3) [OF iso])
  ultimately show ?thesis
    using con subs segs plans evs unfolding consistent_def by (meson Un_iff)
qed

subsection \<open>The governed writes\<close>

lemma raise_if_cases:
  "(case raise_if vs of Inl x \<Rightarrow> f x | Inr u \<Rightarrow> h u) =
     (if vs = [] then h () else f (mk_governance_error vs))"
  by (simp add: raise_if_def)

lemma remove_drift_subset:
  "set (dm_buffer (remove_drift_by_decisions e ds evs dm)) \<subseteq> set (dm_buffer dm)"
  by (auto simp: remove_drift_by_decisions_def drift_remove_events_def Let_def)

lemma now_or_clock_governance [simp]:
  fixes g :: "'a governance_scheme"
  shows "me_iso (snd (now_or_clock now g)) = me_iso g"
    "gv_eviction (snd (now_or_clock now g)) = gv_eviction g"
  by (simp_all add: now_or_clock_def now_ms_def split: option.splits)

lemma on_subgoal_completed_rest:
  fixes g :: "'a governance_scheme" and sid now ep
  defines "g' \<equiv> snd (on_subgoal_completed sid now ep g)"
  shows "me_iso g' = me_iso g" "gv_eviction g' = gv_eviction g" "mm_subgoals g' = mm_subgoals g"
    and "stores_ok g \<Longrightarrow> stores_ok g'"
    and "set (dm_buffer (mm_drift g')) \<subseteq> set (dm_buffer (mm_drift g))"
proof -
  obtain t w where tw: "now_or_clock now g = (t, w)" by (cases "now_or_clock now g")
  have w: "me_iso w = me_iso g" "gv_eviction w = gv_eviction g" "mm_subgoals w = mm_subgoals g"
    "mm_segments w = mm_segments g" "mm_plans w = mm_plans g" "mm_drift w = mm_drift g"
    using now_or_clock_governance [of now g] now_or_clock_stores [of now g] by (simp_all add: tw)
  note body = g'_def on_subgoal_completed_def tw Let_def apply_completion_def w
  show "me_iso g' = me_iso g" "gv_eviction g' = gv_eviction g" "mm_subgoals g' = mm_subgoals g"
    by (simp_all add: body)
  show "stores_ok g \<Longrightarrow> stores_ok g'"
    by (simp add: stores_ok_def body records_ok_remove segment_remove_def plan_remove_def)
  show "set (dm_buffer (mm_drift g')) \<subseteq> set (dm_buffer (mm_drift g))"
    by (simp add: body remove_drift_subset)
qed

lemma on_drift_overflow_rest:
  fixes g :: "'a governance_scheme" and now tc age pats
  defines "g' \<equiv> on_drift_overflow now tc age pats g"
  shows "me_iso g' = me_iso g" "gv_eviction g' = gv_eviction g" "mm_subgoals g' = mm_subgoals g"
    and "mm_segments g' = mm_segments g" "mm_plans g' = mm_plans g"
    and "set (dm_buffer (mm_drift g')) \<subseteq> set (dm_buffer (mm_drift g))"
proof -
  obtain t w where tw: "now_or_clock now g = (t, w)" by (cases "now_or_clock now g")
  have w: "me_iso w = me_iso g" "gv_eviction w = gv_eviction g" "mm_subgoals w = mm_subgoals g"
    "mm_segments w = mm_segments g" "mm_plans w = mm_plans g" "mm_drift w = mm_drift g"
    using now_or_clock_governance [of now g] now_or_clock_stores [of now g] by (simp_all add: tw)
  note body = g'_def on_drift_overflow_def tw Let_def w
  show "me_iso g' = me_iso g" "gv_eviction g' = gv_eviction g" "mm_subgoals g' = mm_subgoals g"
    "mm_segments g' = mm_segments g" "mm_plans g' = mm_plans g"
    by (simp_all add: body)
  show "set (dm_buffer (mm_drift g')) \<subseteq> set (dm_buffer (mm_drift g))"
    by (simp add: body remove_drift_subset)
qed

text \<open>A write is refused and changes nothing, or its record was valid and is stored.\<close>

definition after_closing ::
  "sub_goal \<Rightarrow> 'a governance_scheme \<Rightarrow> 'a governance_scheme"
where
  "after_closing s g =
     (let g' = g\<lparr>mm_subgoals := subgoal_put (mm_subgoals g) s\<rparr>
      in if gv_eviction g \<and> closes (dict_get (mm_subgoals g) (sg_subgoal_id s)) (subgoal_to_record s)
         then snd (on_subgoal_completed (sg_subgoal_id s) None False g') else g')"

lemma put_subgoal_cases:
  fixes g :: "'a governance_scheme"
  obtains (refused) x where "put_subgoal s g = (Inl x, g)"
  | (stored) g' where "put_subgoal s g = (Inr (), g')"
      "validate_subgoal_record (subgoal_to_record s) = []"
      "fst (is_subgoal_write_allowed (dict_get (mm_subgoals g) (sg_subgoal_id s)) (subgoal_to_record s))"
      "mm_subgoals g' = subgoal_put (mm_subgoals g) s" "me_iso g' = me_iso g"
      "gv_eviction g' = gv_eviction g" "mm_segments g' = mm_segments (after_closing s g)"
      "mm_plans g' = mm_plans (after_closing s g)" "mm_drift g' = mm_drift (after_closing s g)"
proof -
  let ?old = "dict_get (mm_subgoals g) (sg_subgoal_id s)" and ?new = "subgoal_to_record s"
  obtain ok vs where allowed: "is_subgoal_write_allowed ?old ?new = (ok, vs)"
    by (cases "is_subgoal_write_allowed ?old ?new")
  have vs: "ok \<or> vs \<noteq> []"
    using allowed
    by (auto simp: is_subgoal_write_allowed_def Let_def split: option.splits if_splits sum.splits)
  let ?c = "after_closing s g"
  have c: "mm_subgoals ?c = subgoal_put (mm_subgoals g) s" "me_iso ?c = me_iso g"
    "gv_eviction ?c = gv_eviction g"
    by (simp_all add: after_closing_def Let_def on_subgoal_completed_rest)
  let ?g' = "case gv_compaction ?c of None \<Rightarrow> ?c | Some co \<Rightarrow>
      if closes ?old ?new
      then ?c\<lparr>gv_compaction := Some (snd (on_subgoal_closed (sg_subgoal_id s) co))\<rparr> else ?c"
  have put: "put_subgoal s g = (if validate_subgoal_record ?new = [] \<and> ok then (Inr (), ?g')
      else (Inl (mk_governance_error (validate_subgoal_record ?new @ (if ok then [] else vs))), g))"
    using vs
    by (simp add: put_subgoal_def Let_def allowed raise_if_cases after_closing_def
        subgoal_get_record_def cong: option.case_cong)
      (auto simp: after_closing_def split: option.split)
  show thesis
  proof (cases "validate_subgoal_record ?new = [] \<and> ok")
    case True
    with put show thesis
      by (intro stored [of ?g']) (simp_all add: allowed c split: option.split)
  next
    case False
    with put show thesis by (intro refused) simp
  qed
qed

lemma put_segment_cases:
  fixes g :: "'a governance_scheme"
  assumes ok: "stores_ok g"
  obtains (refused) x where "put_segment s parent g = (Inl x, g)"
  | (stored) r where
      "put_segment s parent g = (Inr (), g\<lparr>mm_segments := segment_put g (mm_segments g) s parent\<rparr>)"
      "segment_put g (mm_segments g) s parent = dict_set (mm_segments g) (segment_id g s) r"
      "gr_segment_id r = segment_id g s" "segment_fine g r"
proof -
  let ?put = "segment_put g (mm_segments g) s parent"
  define r where "r = the (dict_get ?put (segment_id g s))"
  have r: "?put = dict_set (mm_segments g) (segment_id g s) r" "gr_segment_id r = segment_id g s"
    "gr_subgoal_id r = ps_subgoal_id s" "gr_content r = ps_steps s" "gr_created_at r = ps_created_at s"
    "gr_parent_id r = parent" "gr_context r = ps_context s" "gr_metadata r = ps_metadata s"
    by (simp_all add: r_def segment_put_def Let_def)
  show thesis
  proof (cases "validate_segment_record g r = [] \<and> ps_subgoal_id s \<in> set (dict_keys (mm_subgoals g))")
    case True
    then have "put_segment s parent g = (Inr (), g\<lparr>mm_segments := ?put\<rparr>)"
      by (simp add: put_segment_def Let_def raise_if_cases known_ids [OF ok] segment_valid r)
    moreover have "segment_fine g r" using True by (simp add: segment_fine_def subgoal_exists_def r)
    ultimately show thesis using r by (intro stored)
  next
    case False
    then have "\<exists>x. put_segment s parent g = (Inl x, g)"
      by (auto simp: put_segment_def Let_def raise_if_cases known_ids [OF ok] segment_valid r)
    then show thesis using refused by blast
  qed
qed

text \<open>
  What the layer assumes of \<open>datetime\<close>: the text \<open>isoformat\<close> writes can be read again.
\<close>

definition iso_reparses :: "'a mem_env_scheme \<Rightarrow> bool" where
  "iso_reparses e \<longleftrightarrow> (\<forall>v w. me_iso e v = Some w \<longrightarrow> me_iso e (replace_Z w) \<noteq> None)"

lemma put_plan_cases:
  fixes g :: "'a governance_scheme"
  assumes ok: "stores_ok g" and iso: "iso_reparses g"
  obtains (refused) x where "put_plan p pid sid segs created meta g = (Inl x, g)"
  | (stored) r where "put_plan p pid sid segs created meta g =
        (Inr (), g\<lparr>mm_plans := dict_set (mm_plans g) pid r\<rparr>)"
      "pr_plan_id r = pid" "plan_fine g r"
proof -
  let ?r = "\<lambda>t. plan_to_record p pid sid segs t meta"
  have fields: "pr_subgoal_id (?r t) = sid" "pr_segments (?r t) = segs" for t
    by (simp_all add: plan_to_record_def)
  show thesis
  proof (cases "validate_plan_record g (?r created) = [] \<and> sid \<in> set (dict_keys (mm_subgoals g)) \<and>
      set segs \<subseteq> set (dict_keys (mm_segments g))")
    case True
    then obtain t where t: "normalise_iso_timestamp g created = Some t"
      by (auto simp: plan_valid plan_to_record_def normalise_iso_timestamp_def)
    with iso have "me_iso g (replace_Z t) \<noteq> None"
      by (auto simp: iso_reparses_def normalise_iso_timestamp_def)
    with True have "plan_fine g (?r t)"
      by (auto simp: plan_fine_def plan_valid plan_to_record_def subgoal_exists_def
          segment_exists_def)
    moreover have "put_plan p pid sid segs created meta g =
        (Inr (), g\<lparr>mm_plans := dict_set (mm_plans g) pid (?r t)\<rparr>)"
      using True
      by (simp add: put_plan_def Let_def raise_if_cases known_ids [OF ok] plan_put_def
          try_normalise_iso_timestamp_def t) (simp add: plan_to_record_def)
    ultimately show thesis by (intro stored) (simp_all add: plan_to_record_def)
  next
    case False
    then have "\<exists>x. put_plan p pid sid segs created meta g = (Inl x, g)"
      by (auto simp: put_plan_def Let_def raise_if_cases known_ids [OF ok] fields)
    then show thesis using refused by blast
  qed
qed

lemma record_drift_cases:
  fixes g :: "'a governance_scheme"
  assumes ok: "stores_ok g"
  obtains (refused) x where "governed_record_drift ev g = (Inl x, g)"
  | (stored) g' where "governed_record_drift ev g = (Inr (), g')" "drift_fine g ev"
      "me_iso g' = me_iso g" "gv_eviction g' = gv_eviction g" "mm_subgoals g' = mm_subgoals g"
      "mm_segments g' = mm_segments g" "mm_plans g' = mm_plans g"
      "set (dm_buffer (mm_drift g')) \<subseteq> insert ev (set (dm_buffer (mm_drift g)))"
proof (cases "drift_fine g ev")
  case False
  then have "\<exists>x. governed_record_drift ev g = (Inl x, g)"
    by (auto simp: governed_record_drift_def Let_def raise_if_cases known_ids [OF ok] drift_fine_def
        subgoal_exists_def segment_exists_def)
  then show thesis using refused by blast
next
  case True
  define h where "h = (if gv_eviction g \<and> int (length (dm_buffer (mm_drift g))) \<ge> dm_capacity (mm_drift g)
      then on_drift_overflow None 5 0 [] g else g)"
  have h: "me_iso h = me_iso g" "gv_eviction h = gv_eviction g" "mm_subgoals h = mm_subgoals g"
    "mm_segments h = mm_segments g" "mm_plans h = mm_plans g"
    "set (dm_buffer (mm_drift h)) \<subseteq> set (dm_buffer (mm_drift g))"
    by (simp_all add: h_def on_drift_overflow_rest)
  have "governed_record_drift ev g = (Inr (), h\<lparr>mm_drift := drift_record (mm_drift h) ev\<rparr>)"
    using True unfolding governed_record_drift_def Let_def raise_if_cases h_def
    by (auto simp: known_ids [OF ok] drift_fine_def subgoal_exists_def segment_exists_def)
  moreover have "set (dm_buffer (drift_record (mm_drift h) ev)) \<subseteq>
      insert ev (set (dm_buffer (mm_drift g)))"
    using h(6) by (auto simp: drift_record_def last_n_def dest: in_set_dropD)
  ultimately show thesis
    by (intro stored [of "h\<lparr>mm_drift := drift_record (mm_drift h) ev\<rparr>"]) (simp_all add: True h)
qed

text \<open>Every write keeps the stores well formed, and consistent unless it evicts.\<close>

lemma stores_ok_update:
  "stores_ok g \<Longrightarrow> stores_ok (g\<lparr>mm_subgoals := subgoal_put (mm_subgoals g) s\<rparr>)"
  by (simp add: stores_ok_def subgoal_put_def records_ok_set subgoal_to_record_def)

lemma governed_write_ok:
  fixes g :: "'a governance_scheme"
  assumes ok: "stores_ok g" and iso: "iso_reparses g"
  shows "stores_ok (snd (governed_write w g))" "me_iso (snd (governed_write w g)) = me_iso g"
    "gv_eviction (snd (governed_write w g)) = gv_eviction g"
proof -
  have "stores_ok (snd (governed_write w g)) \<and> me_iso (snd (governed_write w g)) = me_iso g \<and>
    gv_eviction (snd (governed_write w g)) = gv_eviction g"
  proof (cases w)
    case (PutSubgoal s)
    have c: "stores_ok (after_closing s g)"
      using stores_ok_update [OF ok, of s] by (simp add: after_closing_def Let_def on_subgoal_completed_rest(4))
    show ?thesis
    proof (cases rule: put_subgoal_cases [of s g])
      case (stored g')
      moreover have "records_ok sr_subgoal_id (mm_subgoals g')"
        using stores_ok_update [OF ok, of s] stored by (simp add: stores_ok_def)
      ultimately show ?thesis using c by (simp add: PutSubgoal stores_ok_def)
    qed (simp add: PutSubgoal ok)
  next
    case (PutSegment s parent)
    show ?thesis
      by (cases rule: put_segment_cases [OF ok, of s parent])
        (use ok in \<open>auto simp: PutSegment stores_ok_def records_ok_set\<close>)
  next
    case (PutPlan p pid sid segs created meta)
    show ?thesis
      by (cases rule: put_plan_cases [OF ok iso, of p pid sid segs created meta])
        (use ok in \<open>auto simp: PutPlan stores_ok_def records_ok_set\<close>)
  next
    case (RecordDrift ev)
    show ?thesis
      by (cases rule: record_drift_cases [OF ok, of ev])
        (use ok in \<open>auto simp: RecordDrift stores_ok_def\<close>)
  qed
  then show "stores_ok (snd (governed_write w g))" "me_iso (snd (governed_write w g)) = me_iso g"
    "gv_eviction (snd (governed_write w g)) = gv_eviction g" by auto
qed

lemma write_keeps_consistent:
  fixes g :: "'a governance_scheme"
  assumes ok: "stores_ok g" and iso: "iso_reparses g" and con: "consistent g"
    and keeps: "\<And>s. w = PutSubgoal s \<Longrightarrow> \<not> (gv_eviction g \<and>
      closes (dict_get (mm_subgoals g) (sg_subgoal_id s)) (subgoal_to_record s))"
  shows "consistent (snd (governed_write w g))"
proof (cases w)
  case (PutSubgoal s)
  with keeps have c: "after_closing s g = g\<lparr>mm_subgoals := subgoal_put (mm_subgoals g) s\<rparr>"
    by (auto simp: after_closing_def Let_def)
  show ?thesis
  proof (cases rule: put_subgoal_cases [of s g])
    case (stored g')
    have keys: "set (dict_keys (mm_subgoals g)) \<subseteq> set (dict_keys (mm_subgoals g'))"
      by (simp only: stored(4) subgoal_put_def set_dict_keys_set) blast
    have "consistent g'"
      using stored
      by (intro consistent_mono [OF con _ keys]) (auto simp: c subgoal_put_def split: if_splits)
    with stored show ?thesis by (simp add: PutSubgoal)
  qed (simp add: PutSubgoal con)
next
  case (PutSegment s parent)
  show ?thesis
    using ok
  proof (cases rule: put_segment_cases [where s = s and parent = parent])
    case (stored r)
    let ?g' = "g\<lparr>mm_segments := dict_set (mm_segments g) (segment_id g s) r\<rparr>"
    have "segment_fine ?g' r"
      using stored(4) by (simp add: segment_fine_def validate_env(1) [of ?g' g])
    have keys: "set (dict_keys (mm_segments g)) \<subseteq>
        set (dict_keys (dict_set (mm_segments g) (segment_id g s) r))"
      by (simp only: set_dict_keys_set) blast
    with \<open>segment_fine ?g' r\<close> have "consistent ?g'"
      by (intro consistent_mono [OF con]) (auto split: if_splits)
    with stored show ?thesis by (simp add: PutSegment)
  qed (simp add: PutSegment con)
next
  case (PutPlan p pid sid segs created meta)
  show ?thesis
    using ok iso
  proof (cases rule: put_plan_cases
      [where p = p and pid = pid and sid = sid and segs = segs and created = created and meta = meta])
    case (stored r)
    let ?g' = "g\<lparr>mm_plans := dict_set (mm_plans g) pid r\<rparr>"
    have "plan_fine ?g' r" using stored(3) by (simp add: plan_fine_def validate_env(2) [of ?g' g])
    then have "consistent ?g'"
      by (intro consistent_mono [OF con]) (auto split: if_splits)
    with stored show ?thesis by (simp add: PutPlan)
  qed (simp add: PutPlan con)
next
  case (RecordDrift ev)
  show ?thesis
    using ok
  proof (cases rule: record_drift_cases [where ev = ev])
    case (stored g')
    then have "drift_fine g' ev" by (simp add: drift_fine_def validate_env(3) [of g' g])
    with stored have "consistent g'" by (intro consistent_mono [OF con]) auto
    with stored show ?thesis by (simp add: RecordDrift)
  qed (simp add: RecordDrift con)
qed

lemma governed_writes_simps [simp]:
  "governed_writes [] g = g"
  "governed_writes (w # ws) g = governed_writes ws (snd (governed_write w g))"
  by (simp_all add: governed_writes_def)

lemma lower_state [simp]: "py_lower (sg_state_value st) = sg_state_value st"
  by (cases st) (simp_all add: py_lower_def)

lemma closes_iff:
  "closes old (subgoal_to_record s) \<longleftrightarrow>
     sg_state s = SG_CLOSED \<and> (\<exists>r. old = Some r \<and> py_lower (sr_state r) \<noteq> ''closed'')"
  using sg_state_value_inj [of "sg_state s" SG_CLOSED]
  by (auto simp: closes_def subgoal_to_record_def split: option.splits simp del: sg_state_value_inj)

lemma governed_writes_ok:
  fixes g :: "'a governance_scheme"
  assumes "stores_ok g" "iso_reparses g" "consistent g"
    and "\<not> gv_eviction g \<or> (\<forall>s. PutSubgoal s \<in> set ws \<longrightarrow> sg_state s \<noteq> SG_CLOSED)"
  shows "stores_ok (governed_writes ws g) \<and> consistent (governed_writes ws g)"
  using assms
proof (induction ws arbitrary: g)
  case (Cons w ws)
  let ?g' = "snd (governed_write w g)"
  note step = governed_write_ok [OF Cons.prems(1,2), of w]
  have "consistent ?g'"
    using Cons.prems by (intro write_keeps_consistent) (auto simp: closes_iff)
  with Cons.IH [of ?g'] Cons.prems step show ?case by (simp add: iso_reparses_def)
qed simp

subsection \<open>Properties\<close>

text \<open>C27: governed writes keep the memory consistent.  From a memory whose audit finds nothing, any
  sequence of governed writes, accepted or refused, leaves a memory whose audit finds nothing, as long
  as none of them closes a subgoal while an eviction orchestrator is present: validation at the door
  is enough, plan and drift references always point at stored records, and making room in the drift
  buffer breaks nothing.\<close>

theorem governed_writes_stay_consistent:
  fixes g :: "'a governance_scheme"
  assumes "stores_ok g" "iso_reparses g" "check_consistency g = []"
    and "\<not> gv_eviction g \<or> (\<forall>s. PutSubgoal s \<in> set ws \<longrightarrow> sg_state s \<noteq> SG_CLOSED)"
  shows "check_consistency (governed_writes ws g) = []"
  using governed_writes_ok [of g ws] assms by (simp add: check_consistency_iff)

text \<open>The stores after closing a subgoal.\<close>

lemma closing_stores:
  fixes g :: "'a governance_scheme"
  assumes ok: "stores_ok g" and evicts: "gv_eviction g" and put: "put_subgoal s g = (Inr (), g')"
    and closing: "closes (dict_get (mm_subgoals g) (sg_subgoal_id s)) (subgoal_to_record s)"
  shows "validate_subgoal_record (subgoal_to_record s) = []"
    and "mm_subgoals g' = subgoal_put (mm_subgoals g) s" "me_iso g' = me_iso g" "stores_ok g'"
    and "dict_get (mm_segments g') i =
      (if owned (sg_subgoal_id s) (mm_segments g) i \<and>
          i \<notin> needed (sg_subgoal_id s) (mm_segments g) (mm_plans g)
       then None else dict_get (mm_segments g) i)"
    and "dict_get (mm_plans g') k = dict_get (mm_plans g) k"
    and "set (dm_buffer (mm_drift g')) \<subseteq> set (dm_buffer (mm_drift g))"
proof -
  let ?h = "g\<lparr>mm_subgoals := subgoal_put (mm_subgoals g) s\<rparr>"
  have c: "after_closing s g = snd (on_subgoal_completed (sg_subgoal_id s) None False ?h)"
    using evicts closing by (simp add: after_closing_def)
  have okh: "records_ok gr_segment_id (mm_segments ?h)" "records_ok pr_plan_id (mm_plans ?h)"
    using ok by (simp_all add: stores_ok_def)
  note stores = on_subgoal_completed_stores [OF okh refl, of "sg_subgoal_id s" None False]
  from put have new: "validate_subgoal_record (subgoal_to_record s) = []"
    "mm_subgoals g' = subgoal_put (mm_subgoals g) s" "me_iso g' = me_iso g"
    "mm_segments g' = mm_segments (after_closing s g)" "mm_plans g' = mm_plans (after_closing s g)"
    "mm_drift g' = mm_drift (after_closing s g)"
    by (cases rule: put_subgoal_cases [of s g]; simp)+
  show "validate_subgoal_record (subgoal_to_record s) = []"
    "mm_subgoals g' = subgoal_put (mm_subgoals g) s" "me_iso g' = me_iso g" by (rule new)+
  show "dict_get (mm_segments g') i =
      (if owned (sg_subgoal_id s) (mm_segments g) i \<and>
          i \<notin> needed (sg_subgoal_id s) (mm_segments g) (mm_plans g)
       then None else dict_get (mm_segments g) i)"
    using stores(1) [of i] by (simp add: new c)
  show "dict_get (mm_plans g') k = dict_get (mm_plans g) k"
    using stores(2) [of k] by (simp add: new c split: option.splits)
  show "set (dm_buffer (mm_drift g')) \<subseteq> set (dm_buffer (mm_drift g))"
    using on_subgoal_completed_rest(5) [of "sg_subgoal_id s" None False ?h] by (simp add: new c)
  show "stores_ok g'"
    using stores_ok_update [OF ok, of s] on_subgoal_completed_rest(4) [of ?h "sg_subgoal_id s" None False]
    by (simp add: stores_ok_def new c)
qed

text \<open>C28: closing a subgoal can break that consistency.  When a stored subgoal is closed and an
  eviction orchestrator is present, the segments of the subgoal nobody else needs are evicted but the
  plans that list them stay: the audit still finds nothing exactly when no plan of the subgoal lists
  an evicted segment and no drift event that is left names one.\<close>

theorem closing_consistent_iff:
  fixes g :: "'a governance_scheme"
  assumes ok: "stores_ok g" and clean: "check_consistency g = []" and evicts: "gv_eviction g"
    and put: "put_subgoal s g = (Inr (), g')"
    and closing: "closes (dict_get (mm_subgoals g) (sg_subgoal_id s)) (subgoal_to_record s)"
    and gone: "\<And>i. gone i \<longleftrightarrow> owned (sg_subgoal_id s) (mm_segments g) i \<and>
      i \<notin> needed (sg_subgoal_id s) (mm_segments g) (mm_plans g)"
  shows "check_consistency g' = [] \<longleftrightarrow>
    (\<forall>k p. dict_get (mm_plans g) k = Some p \<and> pr_subgoal_id p = sg_subgoal_id s \<longrightarrow>
       (\<forall>i \<in> set (pr_segments p). \<not> gone i)) \<and>
    (\<forall>ev \<in> set (dm_buffer (mm_drift g')). \<forall>i. de_segment_id ev = Some i \<longrightarrow> \<not> gone i)"
proof -
  have con: "consistent g" using clean ok by (simp add: check_consistency_iff)
  note new = closing_stores [OF ok evicts put closing]
  note plan = new(6) and drift = new(7)
  have seg: "dict_get (mm_segments g') i = (if gone i then None else dict_get (mm_segments g) i)" for i
    unfolding gone by (rule new(5))
  have subs: "set (dict_keys (mm_subgoals g)) \<subseteq> set (dict_keys (mm_subgoals g'))"
    by (simp only: new(2) subgoal_put_def set_dict_keys_set) blast
  have keys: "segment_exists (mm_segments g') i \<longleftrightarrow> segment_exists (mm_segments g) i \<and> \<not> gone i" for i
    using seg [of i] dict_get_None_iff [of "mm_segments g'" i] dict_get_None_iff [of "mm_segments g" i]
    by (simp add: segment_exists_def split: if_splits)
  have foreign: "\<not> gone i" if "dict_get (mm_plans g) k = Some p" "pr_subgoal_id p \<noteq> sg_subgoal_id s"
    "i \<in> set (pr_segments p)" for k p i
  proof
    assume "gone i"
    moreover have "referenced (sg_subgoal_id s) (mm_segments g) (mm_plans g) i"
      using that by (auto simp: referenced_def ran_def)
    ultimately have "i \<in> needed (sg_subgoal_id s) (mm_segments g) (mm_plans g)"
      unfolding needed_def gone by blast
    with \<open>gone i\<close> show False by (simp add: gone)
  qed
  have sfine: "dict_get (mm_segments g) i = Some r \<Longrightarrow> segment_fine g' r" for i r
    using con subs
    by (auto simp: consistent_def segment_fine_def subgoal_exists_def validate_env(1) [of g' g, OF new(3)])
  have pfine: "dict_get (mm_plans g) k = Some p \<Longrightarrow>
      plan_fine g' p \<longleftrightarrow> (\<forall>i \<in> set (pr_segments p). \<not> gone i)" for k p
    using con subs
    by (auto simp: consistent_def plan_fine_def subgoal_exists_def keys
        validate_env(2) [of g' g, OF new(3)])
  have dfine: "ev \<in> set (dm_buffer (mm_drift g)) \<Longrightarrow>
      drift_fine g' ev \<longleftrightarrow> (\<forall>i. de_segment_id ev = Some i \<longrightarrow> \<not> gone i)" for ev
    using con subs
    by (auto simp: consistent_def drift_fine_def subgoal_exists_def keys
        validate_env(3) [of g' g, OF new(3)])
  have "check_consistency g' = [] \<longleftrightarrow>
      (\<forall>i r. dict_get (mm_subgoals g') i = Some r \<longrightarrow> validate_subgoal_record r = []) \<and>
      (\<forall>i r. dict_get (mm_segments g') i = Some r \<longrightarrow> segment_fine g' r) \<and>
      (\<forall>k p. dict_get (mm_plans g) k = Some p \<longrightarrow> (\<forall>i \<in> set (pr_segments p). \<not> gone i)) \<and>
      (\<forall>ev \<in> set (dm_buffer (mm_drift g')). \<forall>i. de_segment_id ev = Some i \<longrightarrow> \<not> gone i)"
    unfolding check_consistency_iff [OF new(4)] consistent_def plan
    using pfine dfine drift by blast
  moreover have "dict_get (mm_subgoals g') i = Some r \<Longrightarrow> validate_subgoal_record r = []" for i r
    using con new(1) by (auto simp: consistent_def new(2) subgoal_put_def split: if_splits)
  moreover have "dict_get (mm_segments g') i = Some r \<Longrightarrow> segment_fine g' r" for i r
    using sfine [of i r] by (simp add: seg split: if_splits)
  ultimately show ?thesis using foreign by blast
qed

lemma read_record:
  assumes "validate_subgoal_record r = []"
  shows "if hashable (sr_context r) \<and> hashable (sr_metadata r)
    then \<exists>s. record_to_subgoal r = Inr s \<and> subgoal_to_record s = r
    else \<exists>msg. record_to_subgoal r = Inl (TypeError msg)"
proof -
  from assms obtain st where st: "subgoal_state_of (sr_state r) = Inr st" by (auto simp: subgoal_valid)
  then have "sr_state r = sg_state_value st" by (rule subgoal_state_of_Inr)
  with st show ?thesis
    by (auto simp: record_to_subgoal_def constructed subgoal_to_record_def
        simp del: sg_state_value.simps intro!: refused(1))
qed

text \<open>C30: on a consistent memory a governed read answers, whatever id is asked for: with None exactly
  when nothing is stored under the id, and otherwise with the object whose fields are those of the
  stored record, for a plan always, and for a subgoal or a segment exactly when its context and
  metadata have a canonical form.  A context or metadata that JSON prints but that has none (it holds a
  tuple or a key that is not a string) passes the audit, and its read raises a TypeError.\<close>

theorem consistent_reads_answer:
  fixes g :: "'a memory_scheme"
  assumes ok: "stores_ok g" and clean: "check_consistency g = []"
  shows "(case subgoal_get_record (mm_subgoals g) i of
        None \<Rightarrow> get_subgoal g i = Inr None
      | Some r \<Rightarrow>
          if hashable (sr_context r) \<and> hashable (sr_metadata r)
          then \<exists>s. get_subgoal g i = Inr (Some s) \<and> subgoal_to_record s = r
          else \<exists>msg. get_subgoal g i = Inl (Raised (TypeError msg))) \<and>
    (case segment_get_record (mm_segments g) i of
        None \<Rightarrow> get_segment g i = Inr None
      | Some r \<Rightarrow>
          if hashable (gr_context r) \<and> hashable (gr_metadata r)
          then get_segment g i = Inr (Some
            \<lparr>ps_subgoal_id = gr_subgoal_id r, ps_steps = gr_content r, ps_context = gr_context r,
             ps_metadata = gr_metadata r, ps_skills = gr_skills r, ps_created_at = gr_created_at r\<rparr>)
          else \<exists>msg. get_segment g i = Inl (Raised (TypeError msg))) \<and>
    get_plan g i = Inr (map_option record_to_plan (plan_get_record (mm_plans g) i))"
    (is "?subgoal \<and> ?segment \<and> ?plan")
proof (intro conjI)
  have con: "consistent g" using clean ok by (simp add: check_consistency_iff)
  show ?subgoal
  proof (cases "dict_get (mm_subgoals g) i")
    case (Some r)
    with con have v: "validate_subgoal_record r = []" by (simp add: consistent_def)
    with Some read_record [OF v] show ?thesis
      by (auto simp: get_subgoal_def subgoal_get_record_def raise_if_cases lift_result_def
          subgoal_get_def split: if_splits)
  qed (simp add: get_subgoal_def subgoal_get_record_def)
  show ?segment
  proof (cases "dict_get (mm_segments g) i")
    case (Some r)
    have "if hashable (gr_context r) \<and> hashable (gr_metadata r) then record_to_segment r = Inr
        \<lparr>ps_subgoal_id = gr_subgoal_id r, ps_steps = gr_content r, ps_context = gr_context r,
         ps_metadata = gr_metadata r, ps_skills = gr_skills r, ps_created_at = gr_created_at r\<rparr>
      else \<exists>msg. record_to_segment r = Inl (TypeError msg)"
      by (auto simp: record_to_segment_def constructed intro!: refused(2))
    with Some show ?thesis
      by (auto simp: get_segment_def lift_result_def segment_get_def segment_get_record_def
          split: if_splits)
  qed (simp add: get_segment_def segment_get_def segment_get_record_def lift_result_def)
  show ?plan
  proof (cases "dict_get (mm_plans g) i")
    case (Some r)
    with con have "validate_plan_record g r = []" by (simp add: consistent_def plan_fine_def)
    with Some show ?thesis
      by (auto simp: get_plan_def plan_get_record_def raise_if_cases plan_get_def)
  qed (simp add: get_plan_def plan_get_record_def)
qed

text \<open>an accepted \<open>put_subgoal\<close> of a subgoal the constructor makes is read back as written, whatever
  it evicts, and leaves the other subgoals alone.\<close>

lemma put_then_get_subgoal:
  fixes g :: "'a governance_scheme"
  assumes put: "put_subgoal s g = (Inr (), g')"
    and made: "mk_subgoal i\<^sub>0 goal ctx meta parent st created = Inr s"
  shows "get_subgoal g' i = (if i = sg_subgoal_id s then Inr (Some s) else get_subgoal g i)"
proof -
  from put have "mm_subgoals g' = dict_set (mm_subgoals g) (sg_subgoal_id s) (subgoal_to_record s)"
    and valid: "validate_subgoal_record (subgoal_to_record s) = []"
    by (cases rule: put_subgoal_cases [of s g]; simp add: subgoal_put_def)+
  moreover have "hashable ctx \<and> hashable meta"
    using refused(1) [of ctx meta i\<^sub>0 goal parent st created] made by auto
  then have "record_to_subgoal (subgoal_to_record s) = Inr s"
    using made by (auto simp: record_to_subgoal_def subgoal_to_record_def constructed)
  ultimately show ?thesis
    by (simp add: get_subgoal_def subgoal_get_record_def raise_if_cases lift_result_def
        subgoal_get_def split: option.split)
qed

lemma write_allowed_iff:
  assumes "sr_state old = sg_state_value st"
  shows "fst (is_subgoal_write_allowed (Some old) (subgoal_to_record s)) \<longleftrightarrow>
    st = sg_state s \<or> is_allowed st (sg_state s) \<or> is_legal st (sg_state s)"
  by (simp add: is_subgoal_write_allowed_def Let_def subgoal_to_record_def assms
      del: sg_state_value.simps)

lemma final_states:
  assumes "fst (is_subgoal_write_allowed (Some old) (subgoal_to_record s))"
    and "sr_state old = sg_state_value st" "st \<in> {SG_SUCCESS, SG_CLOSED}"
  shows "sg_state s = st"
  using assms(1,3) unfolding write_allowed_iff [OF assms(2)]
  by (auto simp: is_allowed_def is_legal_def ALLOWED_TRANSITIONS_def LEGAL_TRANSITIONS_def)

lemma governed_write_final:
  fixes g :: "'a governance_scheme"
  assumes ok: "stores_ok g" and iso: "iso_reparses g"
    and r: "dict_get (mm_subgoals g) i = Some r" "sr_state r = sg_state_value st"
    and st: "st \<in> {SG_SUCCESS, SG_CLOSED}"
  shows "\<exists>r'. dict_get (mm_subgoals (snd (governed_write w g))) i = Some r' \<and>
    sr_state r' = sg_state_value st"
proof (cases w)
  case (PutSubgoal s)
  show ?thesis
  proof (cases rule: put_subgoal_cases [of s g])
    case (stored g')
    then have "i = sg_subgoal_id s \<Longrightarrow> sg_state s = st" using final_states [OF _ r(2) st] r by simp
    with stored r show ?thesis by (simp add: PutSubgoal subgoal_put_def subgoal_to_record_def)
  qed (simp add: PutSubgoal r)
next
  case (PutSegment s parent)
  show ?thesis
    using ok
    by (cases rule: put_segment_cases [where s = s and parent = parent]) (simp_all add: PutSegment r)
next
  case (PutPlan p pid sid segs created meta)
  show ?thesis
    by (cases rule: put_plan_cases [OF ok iso, of p pid sid segs created meta])
      (simp_all add: PutPlan r)
next
  case (RecordDrift ev)
  show ?thesis by (cases rule: record_drift_cases [OF ok, of ev]) (simp_all add: RecordDrift r)
qed

text \<open>C29: a subgoal that has succeeded in the execution lifecycle stays so for ever, as does one that
  is closed: no sequence of governed writes changes its state.  In particular a succeeded subgoal is
  never closed, so its completion never evicts or compacts anything.\<close>

theorem final_subgoals_stay:
  fixes g :: "'a governance_scheme"
  assumes "stores_ok g" "iso_reparses g" "dict_get (mm_subgoals g) i = Some r"
    and "sr_state r = sg_state_value st" "st \<in> {SG_SUCCESS, SG_CLOSED}"
  shows "\<exists>r'. dict_get (mm_subgoals (governed_writes ws g)) i = Some r' \<and>
    sr_state r' = sg_state_value st"
  using assms
proof (induction ws arbitrary: g r)
  case (Cons w ws)
  let ?g' = "snd (governed_write w g)"
  obtain r' where "dict_get (mm_subgoals ?g') i = Some r'" "sr_state r' = sg_state_value st"
    using governed_write_final [OF Cons.prems] by blast
  moreover have "stores_ok ?g'" "iso_reparses ?g'"
    using governed_write_ok [OF Cons.prems(1,2), of w] Cons.prems(2) by (simp_all add: iso_reparses_def)
  ultimately show ?case using Cons.IH [of ?g' r'] Cons.prems(5) by simp
qed auto

subsection \<open>Concrete memories\<close>

definition demo_subgoal_record :: "string \<Rightarrow> subgoal_state \<Rightarrow> subgoal_record" where
  "demo_subgoal_record i st =
     \<lparr>sr_subgoal_id = i, sr_parent_id = None, sr_state = sg_state_value st, sr_goal = ''goal'',
      sr_context = Fields [], sr_metadata = Fields [], sr_created_at = 0\<rparr>"

definition demo_subgoal :: "string \<Rightarrow> subgoal_state \<Rightarrow> sub_goal" where
  "demo_subgoal i st =
     \<lparr>sg_subgoal_id = i, sg_goal = ''goal'', sg_context = Fields [], sg_metadata = Fields [], sg_parent_id = None,
      sg_state = st, sg_created_at = 0\<rparr>"

definition demo_governance ::
  "subgoal_record list \<Rightarrow> segment_record list \<Rightarrow> plan_record list \<Rightarrow> governance"
where
  "demo_governance rs segs plans =
     (memory.extend (demo_memory segs plans []) \<lparr>gv_eviction = True, gv_compaction = None\<rparr>)
       \<lparr>mm_subgoals := subgoal_load_snapshot rs\<rparr>"

lemma demo_stores_ok: "stores_ok (demo_governance rs segs plans)"
  by (simp add: demo_governance_def stores_ok_def demo_memory_def memory.defs mem_env.defs
      subgoal_load_snapshot_def records_ok_load)

lemma demo_iso: "iso_reparses (demo_governance rs segs plans)"
proof -
  have "replace_Z v \<noteq> []" if "v \<noteq> []" for v using that by (cases v) (simp_all add: replace_Z_def)
  then show ?thesis
    by (auto simp: iso_reparses_def demo_governance_def demo_memory_def memory.defs mem_env.defs
        demo_mem_env_def env.defs split: if_splits)
qed

abbreviation demo_planned :: "subgoal_state \<Rightarrow> governance" where
  "demo_planned st \<equiv> demo_governance [demo_subgoal_record ''g'' st] [demo_segment ''a'' None ''g'']
     [demo_plan_record ''p'' ''g'' [''a'']]"

lemma demo_planned_clean:
  "check_consistency (demo_planned SG_ACTIVE) = []"
  "check_consistency (demo_planned SG_SATISFIED) = []"
  by code_simp+

theorem governed_writes_stay_consistent_witness:
  "check_consistency (governed_writes
     [PutSubgoal (demo_subgoal ''g'' SG_SATISFIED), RecordDrift (demo_drift 1 ''g'' (Some ''a'') ''x''),
      RecordDrift (demo_drift 1 ''h'' None ''x'')] (demo_planned SG_ACTIVE)) = []"
  by (rule governed_writes_stay_consistent [OF demo_stores_ok demo_iso demo_planned_clean(1)])
    (simp add: demo_subgoal_def)

theorem closing_consistent_iff_witness:
  "check_consistency (snd (put_subgoal (demo_subgoal ''g'' SG_CLOSED) (demo_planned SG_SATISFIED)))
   \<noteq> []"
proof -
  let ?g = "demo_planned SG_SATISFIED" and ?s = "demo_subgoal ''g'' SG_CLOSED"
  have "fst (put_subgoal ?s ?g) = Inr ()" by code_simp
  then obtain g' where put: "put_subgoal ?s ?g = (Inr (), g')"
    by (cases "put_subgoal ?s ?g") simp
  have evicts: "gv_eviction ?g" by code_simp
  have closing: "closes (dict_get (mm_subgoals ?g) (sg_subgoal_id ?s)) (subgoal_to_record ?s)"
    by code_simp
  have s: "mm_segments ?g = [(''a'', demo_segment ''a'' None ''g'')]"
    and ps: "mm_plans ?g = [(''p'', demo_plan_record ''p'' ''g'' [''a''])]"
    and id: "sg_subgoal_id ?s = ''g''" by code_simp+
  have "\<not> referenced ''g'' (mm_segments ?g) (mm_plans ?g) i" for i
    unfolding s ps by (simp add: referenced_def ran_def dict_get_def demo_segment_def
        demo_plan_record_def)
  then have "needed ''g'' (mm_segments ?g) (mm_plans ?g) = {}" by (simp add: needed_def)
  moreover have "owned ''g'' (mm_segments ?g) ''a''"
    unfolding s by (simp add: owned_def dict_get_def demo_segment_def)
  moreover have "dict_get (mm_plans ?g) ''p'' = Some (demo_plan_record ''p'' ''g'' [''a''])"
    unfolding ps by (simp add: dict_get_def)
  moreover have "pr_segments (demo_plan_record ''p'' ''g'' [''a'']) = [''a'']"
    "pr_subgoal_id (demo_plan_record ''p'' ''g'' [''a'']) = ''g''"
    by (simp_all add: demo_plan_record_def)
  ultimately have "check_consistency g' \<noteq> []"
    using closing_consistent_iff [OF demo_stores_ok demo_planned_clean(2) evicts put closing refl]
    unfolding id by force
  then show ?thesis by (simp add: put)
qed

abbreviation tuple_context :: governance where
  "tuple_context \<equiv> demo_governance
     [demo_subgoal_record ''g'' SG_ACTIVE
        \<lparr>sr_context := Fields [(''at'', PyOther None ''tuple'')]\<rparr>] [] []"

theorem consistent_reads_answer_witness:
  "check_consistency tuple_context = [] \<and>
   (\<exists>msg. get_subgoal tuple_context ''g'' = Inl (Raised (TypeError msg))) \<and>
   (\<exists>p. get_plan (demo_planned SG_ACTIVE) ''p'' = Inr (Some p))"
proof (intro conjI)
  show clean: "check_consistency tuple_context = []" by code_simp
  have "subgoal_get_record (mm_subgoals tuple_context) ''g'' =
      Some (demo_subgoal_record ''g'' SG_ACTIVE
        \<lparr>sr_context := Fields [(''at'', PyOther None ''tuple'')]\<rparr>)" by code_simp
  then show "\<exists>msg. get_subgoal tuple_context ''g'' = Inl (Raised (TypeError msg))"
    using consistent_reads_answer [OF demo_stores_ok clean, of "''g''"] by simp
  have "plan_get_record (mm_plans (demo_planned SG_ACTIVE)) ''p'' =
      Some (demo_plan_record ''p'' ''g'' [''a''])" by code_simp
  then show "\<exists>p. get_plan (demo_planned SG_ACTIVE) ''p'' = Inr (Some p)"
    using consistent_reads_answer [OF demo_stores_ok demo_planned_clean(1), of "''p''"] by simp
qed

lemma put_then_get_subgoal_example:
  "get_subgoal (snd (put_subgoal (demo_subgoal ''g'' SG_CLOSED) (demo_planned SG_SATISFIED))) ''g''
   = Inr (Some (demo_subgoal ''g'' SG_CLOSED))"
proof -
  let ?g = "demo_planned SG_SATISFIED" and ?s = "demo_subgoal ''g'' SG_CLOSED"
  have "fst (put_subgoal ?s ?g) = Inr ()" by code_simp
  then obtain g' where put: "put_subgoal ?s ?g = (Inr (), g')"
    by (cases "put_subgoal ?s ?g") simp
  have made: "mk_subgoal ''g'' ''goal'' (Fields []) (Fields []) None SG_CLOSED 0 = Inr ?s"
    by code_simp
  have "sg_subgoal_id ?s = ''g''" by code_simp
  with put_then_get_subgoal [OF put made, of "''g''"] show ?thesis by (simp add: put)
qed

theorem final_subgoals_stay_witness:
  "\<exists>r. dict_get (mm_subgoals (governed_writes [PutSubgoal (demo_subgoal ''g'' SG_CLOSED)]
      (demo_planned SG_SUCCESS))) ''g'' = Some r \<and> sr_state r = ''success''"
proof -
  have "dict_get (mm_subgoals (demo_planned SG_SUCCESS)) ''g'' =
      Some (demo_subgoal_record ''g'' SG_SUCCESS)" by code_simp
  moreover have "sr_state (demo_subgoal_record ''g'' SG_SUCCESS) = sg_state_value SG_SUCCESS"
    by (simp add: demo_subgoal_record_def)
  ultimately show ?thesis
    using final_subgoals_stay [OF demo_stores_ok demo_iso, where st = SG_SUCCESS and
        ws = "[PutSubgoal (demo_subgoal ''g'' SG_CLOSED)]"] by simp
qed

end
