(* ===== verification/TodoStore.thy ===== *)
theory TodoStore
  imports Prelude "HOL-Library.Char_ord" "HOL-Library.List_Lexorder"
begin

text \<open>
  The todo list of the planner, \<^verbatim>\<open>capabilities/planner/todo_store.py\<close>: the tables \<open>todos\<close> and
  \<open>todo_deps\<close>, each a list of rows in the order of their insertion.  An SQL statement is the
  function on these lists that it denotes; \<open>ORDER BY created_at\<close> is a stable sort, so rows of the
  same time stay in the order of insertion.  Every statement is committed by its method, so a method
  is one step; \<open>add_todos_batch\<close> runs in a transaction and leaves nothing behind when it fails.
\<close>

subsection \<open>Data\<close>

record todo_row =
  td_id :: string
  td_title :: string
  td_description :: string
  td_status :: string
  td_type :: string
  td_parent_goal_id :: string
  td_retries_remaining :: int
  td_error_message :: string
  td_completion_criterion :: string
  td_created_at :: string
  td_updated_at :: string

record todo_dep =
  dp_todo_id :: string
  dp_depends_on :: string
  dp_goal_id :: "string option"

record todo_store =
  ts_todos :: "todo_row list"
  ts_deps :: "todo_dep list"

record todo_item = todo_row +
  ti_depends_on :: "string list"

definition empty_store :: todo_store where
  "empty_store = \<lparr>ts_todos = [], ts_deps = []\<rparr>"

definition VALID_TYPES :: "string list" where
  "VALID_TYPES = [''goal'', ''task'']"

definition now_iso :: "'a env_scheme \<Rightarrow> string \<times> 'a env_scheme" where
  "now_iso e = (let (t, e) = utc_now e in (e_isoformat e t, e))"

subsection \<open>Statements\<close>

definition get_deps :: "todo_store \<Rightarrow> string \<Rightarrow> string list" where
  "get_deps s i = map dp_depends_on (filter (\<lambda>d. dp_todo_id d = i) (ts_deps s))"

definition get_dependents :: "todo_store \<Rightarrow> string \<Rightarrow> string list" where
  "get_dependents s i = map dp_todo_id (filter (\<lambda>d. dp_depends_on d = i) (ts_deps s))"

definition row_to_item :: "todo_store \<Rightarrow> todo_row \<Rightarrow> todo_item" where
  "row_to_item s r = todo_row.extend r \<lparr>ti_depends_on = get_deps s (td_id r)\<rparr>"

text \<open>\<open>SELECT * FROM todos WHERE P ORDER BY created_at\<close>, and its first row.\<close>

definition select_rows :: "(todo_row \<Rightarrow> bool) \<Rightarrow> todo_store \<Rightarrow> todo_row list" where
  "select_rows P s = sort_key td_created_at (filter P (ts_todos s))"

definition select_first :: "(todo_row \<Rightarrow> bool) \<Rightarrow> todo_store \<Rightarrow> todo_item option" where
  "select_first P s =
     (case select_rows P s of [] \<Rightarrow> None | r # _ \<Rightarrow> Some (row_to_item s r))"

definition update_rows :: "(todo_row \<Rightarrow> bool) \<Rightarrow> (todo_row \<Rightarrow> todo_row) \<Rightarrow> todo_store \<Rightarrow> todo_store" where
  "update_rows P f s = s\<lparr>ts_todos := map (\<lambda>r. if P r then f r else r) (ts_todos s)\<rparr>"

definition find_row :: "todo_store \<Rightarrow> string \<Rightarrow> todo_row option" where
  "find_row s i = find (\<lambda>r. td_id r = i) (ts_todos s)"

text \<open>\<open>NOT EXISTS (SELECT 1 FROM todo_deps td JOIN todos dep ...)\<close>: a dependency on an item that
  is not in the table does not count.\<close>

definition deps_done :: "todo_store \<Rightarrow> todo_row \<Rightarrow> bool" where
  "deps_done s r \<longleftrightarrow>
     (\<forall>d \<in> set (ts_deps s). dp_todo_id d = td_id r \<longrightarrow>
        (\<forall>dep \<in> set (ts_todos s). td_id dep = dp_depends_on d \<longrightarrow> td_status dep = ''done''))"

subsection \<open>Insertion\<close>

definition insert_row :: "todo_row \<Rightarrow> todo_store \<Rightarrow> todo_store" where
  "insert_row r s = s\<lparr>ts_todos := ts_todos s @ [r]\<rparr>"

definition new_row ::
  "string \<Rightarrow> string \<Rightarrow> string \<Rightarrow> string \<Rightarrow> string \<Rightarrow> string \<Rightarrow> int \<Rightarrow> string \<Rightarrow> todo_row"
where
  "new_row i title description type parent criterion retries now =
     \<lparr>td_id = i, td_title = title, td_description = description, td_status = ''pending'',
      td_type = type, td_parent_goal_id = parent, td_retries_remaining = retries,
      td_error_message = [], td_completion_criterion = criterion, td_created_at = now,
      td_updated_at = now\<rparr>"

definition IntegrityError :: pyexn where
  "IntegrityError = PyExn ''sqlite3'' ''IntegrityError'' ''UNIQUE constraint failed: todos.id''"

definition add_todo ::
  "string \<Rightarrow> string \<Rightarrow> string \<Rightarrow> string \<Rightarrow> string \<Rightarrow> string \<Rightarrow> int \<Rightarrow> todo_store \<Rightarrow> 'a env_scheme
   \<Rightarrow> todo_store result \<times> 'a env_scheme"
where
  "add_todo i title description type parent criterion retries s e =
     (if type \<notin> set VALID_TYPES then
        (Inl (ValueError (''Invalid type '' @ quoted type @ ''; must be one of ['' @ quoted ''goal'' @
           '', '' @ quoted ''task'' @ '']'')), e)
      else (let (now, e) = now_iso e
            in (if find_row s i \<noteq> None then Inl IntegrityError
                else Inr (insert_row (new_row i title description type parent criterion retries now) s),
                e)))"

definition add_goal ::
  "string \<Rightarrow> string \<Rightarrow> string \<Rightarrow> string \<Rightarrow> int \<Rightarrow> todo_store \<Rightarrow> 'a env_scheme
   \<Rightarrow> todo_store result \<times> 'a env_scheme"
where
  "add_goal i title description criterion retries s e =
     add_todo i title description ''goal'' [] criterion retries s e"

text \<open>An item of a batch: a dict whose missing keys are \<open>None\<close>.\<close>

record batch_item =
  bi_id :: "string option"
  bi_title :: "string option"
  bi_description :: "string option"
  bi_type :: "string option"
  bi_parent_goal_id :: "string option"
  bi_completion_criterion :: "string option"
  bi_retries_remaining :: "int option"
  bi_depends_on :: "string list"

definition with_default :: "'v \<Rightarrow> 'v option \<Rightarrow> 'v" where
  "with_default v o' = (case o' of None \<Rightarrow> v | Some w \<Rightarrow> w)"

text \<open>\<open>INSERT OR IGNORE\<close> into the two tables.\<close>

definition insert_or_ignore :: "todo_row \<Rightarrow> todo_store \<Rightarrow> todo_store" where
  "insert_or_ignore r s = (if find_row s (td_id r) \<noteq> None then s else insert_row r s)"

definition insert_dep :: "todo_dep \<Rightarrow> todo_store \<Rightarrow> todo_store" where
  "insert_dep d s =
     (if \<exists>d' \<in> set (ts_deps s). dp_todo_id d' = dp_todo_id d \<and> dp_depends_on d' = dp_depends_on d
      then s else s\<lparr>ts_deps := ts_deps s @ [d]\<rparr>)"

fun add_batch :: "string \<Rightarrow> batch_item list \<Rightarrow> todo_store \<Rightarrow> todo_store result" where
  "add_batch now [] s = Inr s"
| "add_batch now (b # bs) s =
     (case bi_id b of
        None \<Rightarrow> Inl (KeyError ''id'')
      | Some i \<Rightarrow>
          (case bi_title b of
             None \<Rightarrow> Inl (KeyError ''title'')
           | Some title \<Rightarrow>
               (let parent = with_default [] (bi_parent_goal_id b);
                    s = insert_or_ignore
                      (new_row i title (with_default [] (bi_description b)) (with_default ''task'' (bi_type b)) parent
                        (with_default [] (bi_completion_criterion b)) (with_default 3 (bi_retries_remaining b)) now) s;
                    s = fold (\<lambda>dep s. insert_dep
                          \<lparr>dp_todo_id = i, dp_depends_on = dep, dp_goal_id = Some parent\<rparr> s)
                        (bi_depends_on b) s
                in add_batch now bs s)))"

definition add_todos_batch ::
  "batch_item list \<Rightarrow> todo_store \<Rightarrow> 'a env_scheme \<Rightarrow> unit result \<times> todo_store \<times> 'a env_scheme"
where
  "add_todos_batch items s e =
     (let (now, e) = now_iso e
      in case add_batch now items s of Inl x \<Rightarrow> (Inl x, s, e) | Inr s' \<Rightarrow> (Inr (), s', e))"

definition add_dep :: "string \<Rightarrow> string \<Rightarrow> todo_store \<Rightarrow> todo_store" where
  "add_dep i dep s = insert_dep \<lparr>dp_todo_id = i, dp_depends_on = dep, dp_goal_id = None\<rparr> s"

subsection \<open>Queries\<close>

definition todo_get :: "todo_store \<Rightarrow> string \<Rightarrow> todo_item option" where
  "todo_get s i = map_option (row_to_item s) (find_row s i)"

definition get_all :: "todo_store \<Rightarrow> todo_item list" where
  "get_all s = map (row_to_item s) (select_rows (\<lambda>_. True) s)"

definition get_goals :: "todo_store \<Rightarrow> todo_item list" where
  "get_goals s = map (row_to_item s) (select_rows (\<lambda>r. td_type r = ''goal'') s)"

definition get_goal_tasks :: "todo_store \<Rightarrow> string \<Rightarrow> todo_item list" where
  "get_goal_tasks s g =
     map (row_to_item s) (select_rows (\<lambda>r. td_parent_goal_id r = g \<and> td_type r = ''task'') s)"

text \<open>\<open>a\<close>, or \<open>b\<close> when it is None.\<close>

definition or_else :: "'v option \<Rightarrow> 'v option \<Rightarrow> 'v option" where
  "or_else a b = (case a of None \<Rightarrow> b | Some v \<Rightarrow> Some v)"

definition get_next_pending_for_goal :: "todo_store \<Rightarrow> string \<Rightarrow> todo_item option" where
  "get_next_pending_for_goal s g =
     or_else
       (select_first (\<lambda>r. td_parent_goal_id r = g \<and> td_type r = ''task'' \<and>
          td_status r = ''in_progress'') s)
       (select_first (\<lambda>r. td_parent_goal_id r = g \<and> td_type r = ''task'' \<and>
          td_status r = ''pending'' \<and> deps_done s r) s)"

definition get_next_pending :: "todo_store \<Rightarrow> todo_item option" where
  "get_next_pending s =
     or_else (select_first (\<lambda>r. td_status r = ''in_progress'') s)
       (or_else
         (select_first (\<lambda>r. td_status r = ''pending'' \<and> td_type r = ''goal'' \<and> deps_done s r) s)
         (select_first (\<lambda>r. td_status r = ''pending'' \<and> td_type r = ''task'' \<and> deps_done s r) s))"

definition status_count :: "todo_store \<Rightarrow> string \<Rightarrow> nat" where
  "status_count s st = length (filter (\<lambda>r. td_status r = st) (ts_todos s))"

definition get_status_counts :: "todo_store \<Rightarrow> nat pydict" where
  "get_status_counts s =
     map (\<lambda>st. (st, status_count s st)) (sort (remdups (map td_status (ts_todos s))))"

definition has_work_remaining :: "todo_store \<Rightarrow> bool" where
  "has_work_remaining s \<longleftrightarrow>
     length (filter (\<lambda>r. td_status r \<in> {''pending'', ''in_progress''}) (ts_todos s)) > 0"

definition total_count :: "todo_store \<Rightarrow> nat" where
  "total_count s = length (ts_todos s)"

definition done_count :: "todo_store \<Rightarrow> nat" where
  "done_count s = status_count s ''done''"

definition is_complete :: "todo_store \<Rightarrow> bool" where
  "is_complete s \<longleftrightarrow> done_count s = total_count s"

subsection \<open>Transitions\<close>

definition mark_in_progress :: "string \<Rightarrow> todo_store \<Rightarrow> 'a env_scheme \<Rightarrow> todo_store \<times> 'a env_scheme" where
  "mark_in_progress i s e =
     (let (now, e) = now_iso e
      in (update_rows (\<lambda>r. td_id r = i \<and> td_status r = ''pending'')
            (\<lambda>r. r\<lparr>td_status := ''in_progress'', td_updated_at := now\<rparr>) s, e))"

definition mark_done :: "string \<Rightarrow> todo_store \<Rightarrow> 'a env_scheme \<Rightarrow> todo_store \<times> 'a env_scheme" where
  "mark_done i s e =
     (let (now, e) = now_iso e
      in (update_rows (\<lambda>r. td_id r = i) (\<lambda>r. r\<lparr>td_status := ''done'', td_updated_at := now\<rparr>) s, e))"

definition todo_mark_failed ::
  "string \<Rightarrow> string \<Rightarrow> todo_store \<Rightarrow> 'a env_scheme \<Rightarrow> bool \<times> todo_store \<times> 'a env_scheme"
where
  "todo_mark_failed i error_message s e =
     (case find_row s i of
        None \<Rightarrow> (False, s, e)
      | Some row \<Rightarrow>
          (let remaining = td_retries_remaining row - 1;
               (now, e) = now_iso e
           in if remaining > 0 then
                (True, update_rows (\<lambda>r. td_id r = i)
                   (\<lambda>r. r\<lparr>td_status := ''pending'', td_retries_remaining := remaining,
                        td_error_message := error_message, td_updated_at := now\<rparr>) s, e)
              else
                (False, update_rows (\<lambda>r. td_id r = i)
                   (\<lambda>r. r\<lparr>td_status := ''failed'', td_retries_remaining := 0,
                        td_error_message := error_message, td_updated_at := now\<rparr>) s, e)))"

definition mark_blocked :: "string \<Rightarrow> string \<Rightarrow> todo_store \<Rightarrow> 'a env_scheme \<Rightarrow> todo_store \<times> 'a env_scheme" where
  "mark_blocked i reason s e =
     (let (now, e) = now_iso e
      in (update_rows (\<lambda>r. td_id r = i)
            (\<lambda>r. r\<lparr>td_status := ''blocked'', td_error_message := reason, td_updated_at := now\<rparr>) s, e))"

definition append_progress :: "string \<Rightarrow> string \<Rightarrow> todo_store \<Rightarrow> 'a env_scheme \<Rightarrow> todo_store \<times> 'a env_scheme" where
  "append_progress g summary s e =
     (let (now, e) = now_iso e;
          line = [CHR 0x0A] @ ''[progress] '' @ now @ '': '' @ summary
      in (update_rows (\<lambda>r. td_id r = g)
            (\<lambda>r. r\<lparr>td_description := td_description r @ line, td_updated_at := now\<rparr>) s, e))"

subsection \<open>Lemmas\<close>

text \<open>The ids are a primary key.\<close>

definition todos_ok :: "todo_store \<Rightarrow> bool" where
  "todos_ok s \<longleftrightarrow> distinct (map td_id (ts_todos s))"

lemma find_row_iff:
  assumes "todos_ok s"
  shows "find_row s i = Some r \<longleftrightarrow> r \<in> set (ts_todos s) \<and> td_id r = i"
proof
  assume "find_row s i = Some r"
  then show "r \<in> set (ts_todos s) \<and> td_id r = i" by (auto simp: find_row_def find_Some_iff)
next
  assume r: "r \<in> set (ts_todos s) \<and> td_id r = i"
  then have "find_row s i \<noteq> None" by (auto simp: find_row_def find_None_iff)
  then obtain q where q: "find_row s i = Some q" by auto
  then have "q \<in> set (ts_todos s)" "td_id q = i" by (auto simp: find_row_def find_Some_iff)
  with r assms have "q = r" by (auto simp: todos_ok_def distinct_map dest: inj_onD)
  with q show "find_row s i = Some r" by simp
qed

lemma find_row_SomeD: "find_row s i = Some r \<Longrightarrow> td_id r = i"
  by (auto simp: find_row_def find_Some_iff)

lemma select_first_iff:
  "select_first P s = None \<longleftrightarrow> (\<forall>r \<in> set (ts_todos s). \<not> P r)"
  "select_first P s = Some item \<Longrightarrow>
     \<exists>r \<in> set (ts_todos s). P r \<and> item = row_to_item s r"
proof -
  have set: "set (select_rows P s) = {r \<in> set (ts_todos s). P r}" by (simp add: select_rows_def)
  show "select_first P s = None \<longleftrightarrow> (\<forall>r \<in> set (ts_todos s). \<not> P r)"
    using set by (cases "select_rows P s") (auto simp: select_first_def)
  show "select_first P s = Some item \<Longrightarrow> \<exists>r \<in> set (ts_todos s). P r \<and> item = row_to_item s r"
    using set by (cases "select_rows P s") (auto simp: select_first_def)
qed

lemma or_else_iff:
  "or_else a b = None \<longleftrightarrow> a = None \<and> b = None"
  "or_else a b = Some v \<Longrightarrow> a = Some v \<or> b = Some v"
  by (simp_all add: or_else_def split: option.splits)

lemma update_rows_id:
  assumes "\<And>r. td_id (f r) = td_id r"
  shows "map td_id (ts_todos (update_rows P f s)) = map td_id (ts_todos s)"
  by (simp add: update_rows_def comp_def assms)

lemma update_rows_deps [simp]: "ts_deps (update_rows P f s) = ts_deps s"
  by (simp add: update_rows_def)

text \<open>What keeps the pending items from being selected.\<close>

definition waits :: "todo_store \<Rightarrow> (string \<times> string) set" where
  "waits s =
     {(i, j). (\<exists>r \<in> set (ts_todos s). td_id r = i \<and> td_status r = ''pending'') \<and>
        (\<exists>d \<in> set (ts_deps s). dp_todo_id d = i \<and> dp_depends_on d = j) \<and>
        (\<exists>q \<in> set (ts_todos s). td_id q = j \<and> td_status q \<noteq> ''done'')}"

lemma deps_done_iff:
  assumes "r \<in> set (ts_todos s)" "td_status r = ''pending''"
  shows "deps_done s r \<longleftrightarrow> (\<forall>j. (td_id r, j) \<notin> waits s)"
  using assms by (auto simp: deps_done_def waits_def)

lemma waits_finite: "finite (waits s)"
proof (rule finite_subset)
  show "waits s \<subseteq> (td_id ` set (ts_todos s)) \<times> (td_id ` set (ts_todos s))"
    by (auto simp: waits_def image_iff) (metis)
qed simp

lemma next_pending_None:
  "get_next_pending s = None \<longleftrightarrow> (\<forall>r \<in> set (ts_todos s).
    td_status r \<noteq> ''in_progress'' \<and>
    (td_status r = ''pending'' \<and> td_type r \<in> set VALID_TYPES \<longrightarrow> \<not> deps_done s r))"
  by (auto simp: get_next_pending_def or_else_iff select_first_iff VALID_TYPES_def)

text \<open>C34: the list has nothing left to hand out exactly when no item is in progress and every
  pending goal or task waits, directly or through other pending items, for one that is never done:
  it failed or is blocked (or has another status that is never left), or it is pending and neither a
  goal nor a task, which no selection looks at.  So such an item takes every item behind it along.
  The dependencies among unfinished items must not form a cycle.\<close>

theorem nothing_ready_iff:
  assumes acyclic: "acyclic (waits s)"
  shows "get_next_pending s = None \<longleftrightarrow>
    (\<forall>r \<in> set (ts_todos s). td_status r \<noteq> ''in_progress'') \<and>
    (\<forall>r \<in> set (ts_todos s). td_status r = ''pending'' \<and> td_type r \<in> {''goal'', ''task''} \<longrightarrow>
       (\<exists>q \<in> set (ts_todos s). (td_id r, td_id q) \<in> (waits s)\<^sup>+ \<and>
          (td_status q \<notin> {''pending'', ''in_progress'', ''done''} \<or>
           td_status q = ''pending'' \<and> td_type q \<notin> {''goal'', ''task''})))"
    (is "_ \<longleftrightarrow> ?calm \<and> (\<forall>r \<in> _. ?open r \<longrightarrow> ?doomed (td_id r))")
proof
  have types: "td_type r \<in> {''goal'', ''task''} \<longleftrightarrow> td_type r \<in> set VALID_TYPES" for r :: todo_row
    by (simp add: VALID_TYPES_def)
  {
    assume none: "get_next_pending s = None"
    then have calm: ?calm
      and stuck: "\<And>r. r \<in> set (ts_todos s) \<Longrightarrow> ?open r \<Longrightarrow> \<exists>j. (td_id r, j) \<in> waits s"
      using deps_done_iff unfolding types by (auto simp: next_pending_None)
    have "wf ((waits s)\<inverse>)" using waits_finite acyclic by (rule finite_acyclic_wf_converse)
    then have "(\<exists>r \<in> set (ts_todos s). td_id r = i \<and> ?open r) \<Longrightarrow> ?doomed i" for i
    proof (induction i)
      case (less i)
      then obtain j where j: "(i, j) \<in> waits s" using stuck by blast
      then obtain q where q: "q \<in> set (ts_todos s)" "td_id q = j" "td_status q \<noteq> ''done''"
        by (auto simp: waits_def)
      show ?case
      proof (cases "?open q")
        case True
        with less.IH j q have "?doomed j" by blast
        with j show ?thesis by (meson trancl_into_trancl2)
      next
        case False
        with q calm j show ?thesis by blast
      qed
    qed
    with calm show "?calm \<and> (\<forall>r \<in> set (ts_todos s). ?open r \<longrightarrow> ?doomed (td_id r))" by blast
  }
  {
    assume stuck: "?calm \<and> (\<forall>r \<in> set (ts_todos s). ?open r \<longrightarrow> ?doomed (td_id r))"
    have "\<exists>j. (i, j) \<in> waits s" if "(i, j) \<in> (waits s)\<^sup>+" for i j
      using that by (meson tranclD)
    with stuck show "get_next_pending s = None"
      unfolding next_pending_None types using deps_done_iff by blast
  }
qed

definition demo_todo :: "string \<Rightarrow> string \<Rightarrow> string \<Rightarrow> int \<Rightarrow> todo_row" where
  "demo_todo i type status retries =
     \<lparr>td_id = i, td_title = ''title'', td_description = [], td_status = status, td_type = type,
      td_parent_goal_id = [], td_retries_remaining = retries, td_error_message = [],
      td_completion_criterion = [], td_created_at = ''t'', td_updated_at = ''t''\<rparr>"

definition demo_stuck :: todo_store where
  "demo_stuck = add_dep ''b'' ''a''
     \<lparr>ts_todos = [demo_todo ''a'' ''task'' ''failed'' 0, demo_todo ''b'' ''task'' ''pending'' 3],
      ts_deps = []\<rparr>"

lemma demo_stuck_rows: "ts_todos demo_stuck =
    [demo_todo ''a'' ''task'' ''failed'' 0, demo_todo ''b'' ''task'' ''pending'' 3]"
  "ts_deps demo_stuck = [\<lparr>dp_todo_id = ''b'', dp_depends_on = ''a'', dp_goal_id = None\<rparr>]"
  by code_simp+

text \<open>A batch stores an item of any type; nothing then hands out the item or what waits for it.\<close>

definition demo_untyped :: todo_store where
  "demo_untyped = add_dep ''b'' ''a''
     \<lparr>ts_todos = [demo_todo ''a'' ''note'' ''pending'' 3, demo_todo ''b'' ''task'' ''pending'' 3],
      ts_deps = []\<rparr>"

lemma demo_untyped_rows: "ts_todos demo_untyped =
    [demo_todo ''a'' ''note'' ''pending'' 3, demo_todo ''b'' ''task'' ''pending'' 3]"
  "ts_deps demo_untyped = [\<lparr>dp_todo_id = ''b'', dp_depends_on = ''a'', dp_goal_id = None\<rparr>]"
  by code_simp+

theorem nothing_ready_iff_witness:
  "get_next_pending demo_stuck = None \<and> has_work_remaining demo_stuck \<and>
   get_next_pending demo_untyped = None \<and> has_work_remaining demo_untyped"
proof -
  have waits: "waits demo_stuck = {(''b'', ''a'')}" "waits demo_untyped = {(''b'', ''a'')}"
    by (auto simp: waits_def demo_stuck_rows demo_untyped_rows demo_todo_def)
  then have "acyclic (waits demo_stuck)" "acyclic (waits demo_untyped)"
    by (simp_all add: acyclic_def trancl_insert)
  moreover have "(''b'', ''a'') \<in> (waits demo_stuck)\<^sup>+" "(''b'', ''a'') \<in> (waits demo_untyped)\<^sup>+"
    by (simp_all add: waits r_into_trancl)
  ultimately have "get_next_pending demo_stuck = None" "get_next_pending demo_untyped = None"
    using nothing_ready_iff [of demo_stuck] nothing_ready_iff [of demo_untyped]
    by (simp_all add: demo_stuck_rows demo_untyped_rows demo_todo_def)
  moreover have "has_work_remaining demo_stuck" "has_work_remaining demo_untyped" by code_simp+
  ultimately show ?thesis by blast
qed

subsection \<open>The attempts that are left\<close>

definition row_work :: "todo_row \<Rightarrow> nat" where
  "row_work r =
     (if td_status r \<in> {''pending'', ''in_progress''} then nat (max 1 (td_retries_remaining r)) else 0)"

definition store_work :: "todo_store \<Rightarrow> nat" where
  "store_work s = sum_list (map row_work (ts_todos s))"

lemma sum_list_map_change:
  assumes "distinct (map k xs)" "x \<in> set xs"
  shows "sum_list (map (\<lambda>y. if k y = k x then g y else f y) xs) + f x =
    sum_list (map f xs) + (g x :: nat)"
  using assms
proof (induction xs)
  case (Cons y xs)
  show ?case
  proof (cases "k y = k x")
    case True
    with Cons.prems have "y = x" and "\<forall>z \<in> set xs. k z \<noteq> k x" by (auto simp: rev_image_eqI)
    then show ?thesis by (simp cong: map_cong)
  next
    case False
    with Cons show ?thesis by auto
  qed
qed simp

lemma update_work:
  assumes ok: "todos_ok s" and r: "find_row s i = Some r"
  shows "store_work (update_rows (\<lambda>r. td_id r = i) f s) + row_work r =
    store_work s + row_work (f r)"
proof -
  have r': "r \<in> set (ts_todos s)" "td_id r = i" using r by (simp_all add: find_row_iff [OF ok])
  have "store_work (update_rows (\<lambda>r. td_id r = i) f s) =
      sum_list (map (\<lambda>y. if td_id y = td_id r then row_work (f y) else row_work y) (ts_todos s))"
    by (simp add: store_work_def update_rows_def comp_def r' if_distrib cong: if_cong)
  with sum_list_map_change [of td_id "ts_todos s" r "\<lambda>y. row_work (f y)" row_work] ok r'
  show ?thesis by (simp add: todos_ok_def store_work_def)
qed

text \<open>The row of an id after an update.\<close>

lemma find_update:
  assumes "\<And>r. td_id (f r) = td_id r"
  shows "find_row (update_rows P f s) j = map_option (\<lambda>r. if P r then f r else r) (find_row s j)"
proof -
  have "find (\<lambda>r. td_id r = j) (map (\<lambda>r. if P r then f r else r) xs) =
      map_option (\<lambda>r. if P r then f r else r) (find (\<lambda>r. td_id r = j) xs)" for xs
    by (induction xs) (auto simp: assms)
  then show ?thesis by (simp add: find_row_def update_rows_def)
qed

lemma todos_ok_update [simp]:
  assumes "\<And>r. td_id (f r) = td_id r"
  shows "todos_ok (update_rows P f s) \<longleftrightarrow> todos_ok s"
  by (simp add: todos_ok_def update_rows_id assms)

text \<open>What the transitions do to the attempts left.\<close>

lemma mark_in_progress_row:
  defines "s' \<equiv> \<lambda>i s e. fst (mark_in_progress i s e)"
  shows "store_work (s' i s e) = store_work s"
    and "todos_ok (s' i s e) \<longleftrightarrow> todos_ok s"
    and "find_row s i = Some r \<Longrightarrow> td_status r \<in> {''pending'', ''in_progress''} \<Longrightarrow>
      \<exists>r'. find_row (s' i s e) i = Some r' \<and> td_status r' = ''in_progress'' \<and>
        td_retries_remaining r' = td_retries_remaining r"
proof -
  have "row_work (if td_id r = i \<and> td_status r = ''pending''
      then r\<lparr>td_status := ''in_progress'', td_updated_at := now\<rparr> else r) = row_work r" for r now
    by (simp add: row_work_def)
  then show "store_work (s' i s e) = store_work s"
    by (simp add: s'_def mark_in_progress_def now_iso_def utc_now_def Let_def store_work_def
        update_rows_def comp_def)
  show "todos_ok (s' i s e) \<longleftrightarrow> todos_ok s"
    by (simp add: s'_def mark_in_progress_def now_iso_def utc_now_def Let_def)
  show "find_row s i = Some r \<Longrightarrow> td_status r \<in> {''pending'', ''in_progress''} \<Longrightarrow>
      \<exists>r'. find_row (s' i s e) i = Some r' \<and> td_status r' = ''in_progress'' \<and>
        td_retries_remaining r' = td_retries_remaining r"
    by (auto simp: s'_def mark_in_progress_def now_iso_def utc_now_def Let_def find_update
        dest: find_row_SomeD)
qed

lemma mark_done_work:
  assumes "todos_ok s" "find_row s i = Some r" "td_status r = ''in_progress''"
  shows "store_work (fst (mark_done i s e)) < store_work s" "todos_ok (fst (mark_done i s e))"
proof -
  note body = mark_done_def now_iso_def utc_now_def Let_def
  have pos: "row_work r > 0" using assms(3) by (simp add: row_work_def)
  have "store_work (fst (mark_done i s e)) + row_work r = store_work s"
    unfolding body using update_work [OF assms(1,2)]
    by (simp add: row_work_def [of "_\<lparr>td_updated_at := _\<rparr>"])
  with pos show "store_work (fst (mark_done i s e)) < store_work s"
    by simp
  show "todos_ok (fst (mark_done i s e))" using assms(1) by (simp add: body)
qed

text \<open>A failure spends an attempt of an item that is active, and leaves one that is spent.\<close>

lemma mark_failed_work:
  fixes msg and e :: "'a env_scheme"
  assumes ok: "todos_ok s" and r: "find_row s i = Some r"
  defines "s' \<equiv> fst (snd (todo_mark_failed i msg s e))"
  shows "td_status r \<in> {''pending'', ''in_progress''} \<Longrightarrow> store_work s' < store_work s"
    and "td_retries_remaining r \<le> 0 \<Longrightarrow> store_work s' \<le> store_work s"
    and "todos_ok s'"
    and "\<exists>r'. find_row s' i = Some r' \<and>
      td_retries_remaining r' = max 0 (td_retries_remaining r - 1) \<and>
      td_status r' = (if td_retries_remaining r - 1 > 0 then ''pending'' else ''failed'')"
proof -
  let ?n = "td_retries_remaining r - 1"
  define now where "now = e_isoformat e (e_clock e (e_tick e))"
  have s': "s' = update_rows (\<lambda>r. td_id r = i)
      (\<lambda>r. r\<lparr>td_status := (if ?n > 0 then ''pending'' else ''failed''),
           td_retries_remaining := (if ?n > 0 then ?n else 0), td_error_message := msg, td_updated_at := now\<rparr>) s"
    by (cases "?n > 0")
      (simp_all add: s'_def todo_mark_failed_def r now_iso_def utc_now_def Let_def now_def)
  have work: "store_work s' + row_work r = store_work s + (if ?n > 0 then nat ?n else 0)"
    using update_work [OF ok r] unfolding s' by (simp add: row_work_def)
  show "td_status r \<in> {''pending'', ''in_progress''} \<Longrightarrow> store_work s' < store_work s"
    using work by (auto simp: row_work_def split: if_splits)
  show "td_retries_remaining r \<le> 0 \<Longrightarrow> store_work s' \<le> store_work s"
    using work by (auto split: if_splits)
  show "todos_ok s'" using ok by (simp add: s')
  show "\<exists>r'. find_row s' i = Some r' \<and>
      td_retries_remaining r' = max 0 ?n \<and>
      td_status r' = (if ?n > 0 then ''pending'' else ''failed'')"
    using r by (auto simp: s' find_update dest: find_row_SomeD)
qed

lemma append_progress_work:
  "store_work (fst (append_progress g summary s e)) = store_work s"
  "todos_ok (fst (append_progress g summary s e)) \<longleftrightarrow> todos_ok s"
  "find_row s i = Some r \<Longrightarrow> \<exists>r'. find_row (fst (append_progress g summary s e)) i = Some r' \<and>
     td_status r' = td_status r \<and> td_retries_remaining r' = td_retries_remaining r"
proof -
  note body = append_progress_def now_iso_def utc_now_def Let_def
  have "row_work (if td_id r = g then r\<lparr>td_description := d, td_updated_at := now\<rparr> else r) = row_work r"
    for r now d by (simp add: row_work_def)
  then show "store_work (fst (append_progress g summary s e)) = store_work s"
    by (simp add: body store_work_def update_rows_def comp_def)
  show "todos_ok (fst (append_progress g summary s e)) \<longleftrightarrow> todos_ok s" by (simp add: body)
  show "find_row s i = Some r \<Longrightarrow> \<exists>r'. find_row (fst (append_progress g summary s e)) i = Some r' \<and>
      td_status r' = td_status r \<and> td_retries_remaining r' = td_retries_remaining r"
    by (simp add: body find_update)
qed

text \<open>What is handed out is an active item of the list.\<close>

lemma next_pending_row:
  assumes ok: "todos_ok s" and item: "get_next_pending s = Some item"
  shows "\<exists>r. find_row s (td_id item) = Some r \<and> td_status r \<in> {''pending'', ''in_progress''} \<and>
    item = row_to_item s r"
proof -
  obtain r where r: "r \<in> set (ts_todos s)" "item = row_to_item s r"
    "td_status r \<in> {''pending'', ''in_progress''}"
    using item unfolding get_next_pending_def
    by (auto dest!: or_else_iff(2) select_first_iff(2))
  moreover have "td_id item = td_id r" by (simp add: r(2) row_to_item_def todo_row.defs)
  ultimately show ?thesis using find_row_iff [OF ok] by auto
qed

end
