(* ===== verification/TodoWorker.thy ===== *)
theory TodoWorker
  imports TodoStore WorkflowInvoker Worker
begin

text \<open>
  The executor that works through a todo list, \<^verbatim>\<open>agent/planner/todo_worker.py\<close>, and the orchestrator
  that runs it as a job, \<^verbatim>\<open>agent/planner/todo_orchestrator.py\<close>.  One call processes one item: a
  task by one run of a workflow, a goal by an inner loop of workflow runs.
  \<^item> The world holds one todo store per database path; connecting to a path opens its store, and
    \<open>PRAGMA database_list\<close> names the file (a parameter).  The strategy router and the inline tool
    are functions on the world, so a tool may change the list it is called from.
  \<^item> The loops over a workflow are \<open>while True\<close> in the source: \<open>todo_loop\<close> is a partial function,
    None when it does not return.
\<close>

subsection \<open>The worker and its world\<close>

record todo_world = wf_env +
  tw_dbs :: "string \<Rightarrow> todo_store"
  tw_file :: "string \<Rightarrow> string"

record 'w todo_worker =
  tk_engine :: workflow_engine
  tk_route :: "router_outcome \<Rightarrow> 'w \<Rightarrow> route_answer result \<times> 'w"
  tk_inline_tool :: "json pydict \<Rightarrow> 'w \<Rightarrow> json option result \<times> 'w"
  tk_tool_context :: "json list"
  tk_max_iterations :: int

text \<open>\<open>_StepFailedError\<close> with its text, or any other exception.\<close>

datatype step_exn = StepFailed string | Unexpected pyexn

definition TODO_EXECUTE_ITEM :: string where
  "TODO_EXECUTE_ITEM = ''todo-execute-item''"

definition SUBGOAL_EXECUTE_LOOP :: string where
  "SUBGOAL_EXECUTE_LOOP = ''subgoal-execute-loop''"

text \<open>A method of the store on the database at a path.\<close>

definition on_db ::
  "string \<Rightarrow> (todo_store \<Rightarrow> 'a todo_world_scheme \<Rightarrow> todo_store \<times> 'a todo_world_scheme)
   \<Rightarrow> 'a todo_world_scheme \<Rightarrow> 'a todo_world_scheme"
where
  "on_db p f w = (let (s, w) = f (tw_dbs w p) w in w\<lparr>tw_dbs := (tw_dbs w)(p := s)\<rparr>)"

definition db_mark_failed ::
  "string \<Rightarrow> string \<Rightarrow> string \<Rightarrow> 'a todo_world_scheme \<Rightarrow> bool \<times> 'a todo_world_scheme"
where
  "db_mark_failed p i msg w =
     (let (retries, s, w) = todo_mark_failed i msg (tw_dbs w p) w
      in (retries, w\<lparr>tw_dbs := (tw_dbs w)(p := s)\<rparr>))"

subsection \<open>Outcomes\<close>

definition dispatch_llm_call ::
  "('a todo_world_scheme) todo_worker \<Rightarrow> workflow_execution_state \<Rightarrow> step_outcome
   \<Rightarrow> 'a todo_world_scheme \<Rightarrow> (step_exn + workflow_execution_state) \<times> 'a todo_world_scheme"
where
  "dispatch_llm_call wk s out w =
     (let rendered = render_context_templates w (so_config out) (wx_context s) (wx_step_results s)
      in case tk_route wk
           \<lparr>rt_type = ''llm_call'',
            rt_payload = [(''prompt'', JObj rendered), (''backend'', JStr ''conversational''),
              (''memory'', JObj []), (''plan_context'', JObj []),
              (''tool_context'', JList (tk_tool_context wk))],
            rt_step_id = so_step_id out\<rparr> w of
           (Inl x, w) \<Rightarrow> (Inl (Unexpected x), w)
         | (Inr r, w) \<Rightarrow>
             (Inr (case ra_error r of
                None \<Rightarrow> fst (resume_with_result w s (so_step_id out) (ra_output r))
              | Some err \<Rightarrow> fst (fail_step (tk_engine wk) s (so_step_id out) err)), w))"

definition dispatch_tool_execute ::
  "('a todo_world_scheme) todo_worker \<Rightarrow> workflow_execution_state \<Rightarrow> step_outcome
   \<Rightarrow> 'a todo_world_scheme \<Rightarrow> workflow_execution_state \<times> 'a todo_world_scheme"
where
  "dispatch_tool_execute wk s out w =
     (case tk_inline_tool wk (so_config out) w of
        (Inr (Some v), w) \<Rightarrow> (fst (resume_with_result w s (so_step_id out) v), w)
      | (_, w) \<Rightarrow>
          (fst (fail_step (tk_engine wk) s (so_step_id out)
             (''Tool '' @ quoted (py_str w (dict_get_or (so_config out) ''tool_name'' (JStr ''?''))) @
              '' not available inline.'')), w))"

definition AttributeError_items :: "json \<Rightarrow> pyexn" where
  "AttributeError_items v =
     PyExn ''builtins'' ''AttributeError''
       (quoted (json_type_name v) @ '' object has no attribute '' @ quoted ''items'')"

text \<open>The child execution of a sub-workflow step.\<close>

definition start_child ::
  "('a todo_world_scheme) todo_worker \<Rightarrow> workflow_execution_state \<Rightarrow> step_outcome \<Rightarrow> json
   \<Rightarrow> 'a todo_world_scheme \<Rightarrow> workflow_execution_state result \<times> 'a todo_world_scheme"
where
  "start_child wk s out child_id w =
     (case dict_get_or (so_config out) ''context'' (JObj []) of
        JObj raw \<Rightarrow>
          (case get_by_value (en_registry (tk_engine wk)) child_id of
             Inl x \<Rightarrow> (Inl x, w)
           | Inr None \<Rightarrow>
               (Inl (ValueError (''workflow '' @ py_repr w child_id @ '' not found in registry'')), w)
           | Inr (Some _) \<Rightarrow>
               start_workflow (tk_engine wk) (case child_id of JStr i \<Rightarrow> i | _ \<Rightarrow> [])
                 (Some (render_context_templates w raw (wx_context s) (wx_step_results s))) w)
      | v \<Rightarrow> (Inl (AttributeError_items v), w))"

definition or_text :: "string option \<Rightarrow> string option \<Rightarrow> string \<Rightarrow> string" where
  "or_text a b t =
     (case a of Some (c # cs) \<Rightarrow> c # cs
      | _ \<Rightarrow> (case b of Some (c # cs) \<Rightarrow> c # cs | _ \<Rightarrow> t))"

text \<open>The first step result that is a dict with status failed or timeout.\<close>

fun failed_result :: "'a env_scheme \<Rightarrow> json pydict \<Rightarrow> string option" where
  "failed_result e [] = None"
| "failed_result e ((sid, v) # rs) =
     (case v of
        JObj kvs \<Rightarrow>
          if dict_get kvs ''status'' \<in> {Some (JStr ''failed''), Some (JStr ''timeout'')} then
            Some (py_str e (dict_get_or kvs ''error'' (JStr (''Step '' @ quoted sid @ '' failed''))))
          else failed_result e rs
      | _ \<Rightarrow> failed_result e rs)"

definition item_text ::
  "'a env_scheme \<Rightarrow> workflow_execution_state \<Rightarrow> step_outcome \<Rightarrow> step_exn + string"
where
  "item_text e s out =
     (case failed_result e (wx_step_results s) of
        Some err \<Rightarrow> Inl (StepFailed err)
      | None \<Rightarrow> Inr (py_str e (dict_get_or (wx_step_results s) (so_step_id out) (JStr ''Done.''))))"

text \<open>
  One turn of the loop of \<open>_run_workflow_to_completion\<close> and \<open>_run_subgoal_iteration\<close>: it ends the
  loop (at a completed outcome, or with an exception), goes on with a state, or runs a child first.
  \<open>label\<close> is the workflow the message about user input names.  An outcome of another type (a council,
  a timeout) is none of the branches, and the loop goes round.
\<close>

datatype turn =
    Stop "step_exn + (workflow_execution_state \<times> step_outcome)"
  | Go workflow_execution_state
  | Call workflow_execution_state step_outcome workflow_execution_state

definition todo_turn ::
  "('a todo_world_scheme) todo_worker \<Rightarrow> string \<Rightarrow> workflow_execution_state \<Rightarrow> 'a todo_world_scheme
   \<Rightarrow> turn \<times> 'a todo_world_scheme"
where
  "todo_turn wk label s w =
     (case wf_step w (tk_engine wk) s of
        Inl x \<Rightarrow> (Stop (Inl (Unexpected x)), w)
      | Inr (s, out) \<Rightarrow>
          (case so_type out of
             OUT_COMPLETED \<Rightarrow> (Stop (Inr (s, out)), w)
           | OUT_FAILED \<Rightarrow>
               (Stop (Inl (StepFailed
                  (or_text (so_error out) (wx_error s) ''Unknown workflow failure''))), w)
           | OUT_LLM_CALL \<Rightarrow>
               (case dispatch_llm_call wk s out w of
                  (Inl x, w) \<Rightarrow> (Stop (Inl x), w)
                | (Inr s, w) \<Rightarrow> (Go s, w))
           | OUT_TOOL_EXECUTE \<Rightarrow>
               (case dispatch_tool_execute wk s out w of (s, w) \<Rightarrow> (Go s, w))
           | OUT_SUB_WORKFLOW \<Rightarrow>
               (case so_workflow_id out of
                  None \<Rightarrow>
                    (Go (fst (fail_step (tk_engine wk) s (so_step_id out)
                      ''sub_workflow outcome missing workflow_id'')), w)
                | Some child_id \<Rightarrow>
                    (case start_child wk s out child_id w of
                       (Inl x, w) \<Rightarrow> (Stop (Inl (Unexpected x)), w)
                     | (Inr child, w) \<Rightarrow> (Call s out child, w)))
           | OUT_WAITING_FOR_INPUT \<Rightarrow>
               (Stop (Inl (StepFailed (''Workflow step '' @ quoted (so_step_id out) @
                 '' requested user_input '' @ em_dash @ '' not supported in '' @ label @ ''.''))), w)
           | _ \<Rightarrow> (Go s, w)))"

text \<open>The parent after its child: the child's text is the step's result, its failure the step's
  failure; any other exception passes through.\<close>

definition after_child ::
  "('a todo_world_scheme) todo_worker \<Rightarrow> workflow_execution_state \<Rightarrow> step_outcome
   \<Rightarrow> step_exn + (workflow_execution_state \<times> step_outcome) \<Rightarrow> 'a todo_world_scheme
   \<Rightarrow> pyexn + workflow_execution_state"
where
  "after_child wk s out r w =
     (case (case r of Inl x \<Rightarrow> Inl x | Inr (c, o') \<Rightarrow> item_text w c o') of
        Inl (StepFailed err) \<Rightarrow> Inr (fst (fail_step (tk_engine wk) s (so_step_id out) err))
      | Inl (Unexpected x) \<Rightarrow> Inl x
      | Inr t \<Rightarrow> Inr (fst (resume_with_result w s (so_step_id out) (JStr t))))"

partial_function (option) todo_loop ::
  "('a todo_world_scheme) todo_worker \<Rightarrow> string \<Rightarrow> workflow_execution_state \<Rightarrow> 'a todo_world_scheme
   \<Rightarrow> ((step_exn + (workflow_execution_state \<times> step_outcome)) \<times> 'a todo_world_scheme) option"
where
  "todo_loop wk label s w =
     (case todo_turn wk label s w of
        (Stop r, w) \<Rightarrow> Some (r, w)
      | (Go s, w) \<Rightarrow> todo_loop wk label s w
      | (Call s out child, w) \<Rightarrow>
          Option.bind (todo_loop wk TODO_EXECUTE_ITEM child w) (\<lambda>(r, w).
            case after_child wk s out r w of
              Inl x \<Rightarrow> Some (Inl (Unexpected x), w)
            | Inr s \<Rightarrow> todo_loop wk label s w))"

definition run_workflow_to_completion ::
  "('a todo_world_scheme) todo_worker \<Rightarrow> workflow_execution_state \<Rightarrow> 'a todo_world_scheme
   \<Rightarrow> ((step_exn + string) \<times> 'a todo_world_scheme) option"
where
  "run_workflow_to_completion wk s w =
     map_option (\<lambda>(r, w). (case r of Inl x \<Rightarrow> Inl x | Inr (s, out) \<Rightarrow> item_text w s out, w))
       (todo_loop wk TODO_EXECUTE_ITEM s w)"

subsection \<open>A task\<close>

definition task_context ::
  "todo_item \<Rightarrow> string \<Rightarrow> 'a todo_world_scheme \<Rightarrow> json pydict"
where
  "task_context item p w =
     (let base = [(''todo_id'', JStr (td_id item)), (''todo_title'', JStr (td_title item)),
            (''todo_description'', JStr (td_description item)),
            (''deps'', JList (map JStr (ti_depends_on item))), (''db_path'', JStr (tw_file w p))]
      in if td_parent_goal_id item = [] then base
         else (case todo_get (tw_dbs w p) (td_parent_goal_id item) of
                 None \<Rightarrow> base
               | Some parent \<Rightarrow>
                   base @
                   [(''parent_goal_id'', JStr (td_id parent)),
                    (''parent_goal_title'', JStr (td_title parent)),
                    (''parent_goal_criterion'', JStr (td_completion_criterion parent)),
                    (''progress_log'', JStr (td_description parent))]))"

definition run_item_workflow ::
  "('a todo_world_scheme) todo_worker \<Rightarrow> todo_item \<Rightarrow> string \<Rightarrow> 'a todo_world_scheme
   \<Rightarrow> ((step_exn + string) \<times> 'a todo_world_scheme) option"
where
  "run_item_workflow wk item p w =
     (case start_workflow (tk_engine wk) TODO_EXECUTE_ITEM (Some (task_context item p w)) w of
        (Inl x, w) \<Rightarrow> Some (Inl (Unexpected x), w)
      | (Inr s, w) \<Rightarrow> run_workflow_to_completion wk s w)"

subsection \<open>A goal\<close>

text \<open>\<open>re.search("COMPLETE\s*:\s*YES", text, re.IGNORECASE)\<close>, of ASCII text.\<close>

definition complete_here :: "string \<Rightarrow> bool" where
  "complete_here s \<longleftrightarrow>
     starts_with ''complete'' s \<and>
     (case dropWhile py_space (drop 8 s) of
        c # r \<Rightarrow> c = CHR '':'' \<and> starts_with ''yes'' (dropWhile py_space r)
      | [] \<Rightarrow> False)"

fun complete_somewhere :: "string \<Rightarrow> bool" where
  "complete_somewhere [] = False"
| "complete_somewhere (c # cs) = (complete_here (c # cs) \<or> complete_somewhere cs)"

definition parse_complete_signal :: "string \<Rightarrow> bool" where
  "parse_complete_signal adviser_output = complete_somewhere (py_lower adviser_output)"

definition run_subgoal_iteration ::
  "('a todo_world_scheme) todo_worker \<Rightarrow> json pydict \<Rightarrow> 'a todo_world_scheme
   \<Rightarrow> ((step_exn + (string \<times> string)) \<times> 'a todo_world_scheme) option"
where
  "run_subgoal_iteration wk context w =
     (case start_workflow (tk_engine wk) SUBGOAL_EXECUTE_LOOP (Some context) w of
        (Inl x, w) \<Rightarrow> Some (Inl (Unexpected x), w)
      | (Inr s, w) \<Rightarrow>
          map_option (\<lambda>(r, w).
            (case r of
               Inl x \<Rightarrow> Inl x
             | Inr (s, _) \<Rightarrow>
                 Inr (py_str w (dict_get_or (wx_step_results s) ''assess_task_outcome'' (JStr [])),
                      py_str w (dict_get_or (wx_step_results s) ''anchor_and_reflect'' (JStr []))), w))
            (todo_loop wk SUBGOAL_EXECUTE_LOOP s w))"

definition goal_context ::
  "todo_item \<Rightarrow> string list \<Rightarrow> string \<Rightarrow> 'a todo_world_scheme \<Rightarrow> json pydict"
where
  "goal_context g parts p w =
     [(''goal_id'', JStr (td_id g)), (''goal_title'', JStr (td_title g)),
      (''goal_description'', JStr (td_description g)),
      (''completion_criterion'', JStr (td_completion_criterion g)),
      (''progress_log'', JStr (joined nl parts)), (''state_context'', JStr []),
      (''db_path'', JStr (tw_file w p))]"

definition goal_exhausted ::
  "('a todo_world_scheme) todo_worker \<Rightarrow> todo_item \<Rightarrow> string list \<Rightarrow> string"
where
  "goal_exhausted wk g parts =
     ''Max iterations ('' @ int_str (tk_max_iterations wk) @ '') reached for goal '' @
     quoted (td_id g) @ ''.  Last iteration output: '' @
     (if length parts > 1 then last parts else ''none'')"

text \<open>The iterations that are left, and the number of the next one.\<close>

fun goal_loop ::
  "nat \<Rightarrow> int \<Rightarrow> ('a todo_world_scheme) todo_worker \<Rightarrow> todo_item \<Rightarrow> string \<Rightarrow> string list
   \<Rightarrow> 'a todo_world_scheme \<Rightarrow> ((step_exn + string) \<times> 'a todo_world_scheme) option"
where
  "goal_loop 0 iteration wk g p parts w =
     (let reason = goal_exhausted wk g parts
      in Some (Inl (StepFailed reason), snd (db_mark_failed p (td_id g) reason w)))"
| "goal_loop (Suc n) iteration wk g p parts w =
     (case run_subgoal_iteration wk (goal_context g parts p w) w of
        None \<Rightarrow> None
      | Some (Inl x, w) \<Rightarrow> Some (Inl x, w)
      | Some (Inr (progress, adviser), w) \<Rightarrow>
          (let parts = (if progress = [] then parts else parts @ [progress]);
               w = (if progress = [] then w else on_db p (append_progress (td_id g) progress) w)
           in if parse_complete_signal adviser then
                Some (Inr (''Goal completed in '' @ int_str iteration @
                  '' iteration(s). Last adviser: '' @ take 200 adviser),
                  on_db p (mark_done (td_id g)) w)
              else goal_loop n (iteration + 1) wk g p parts w))"

definition run_goal_inner_loop ::
  "('a todo_world_scheme) todo_worker \<Rightarrow> todo_item \<Rightarrow> string \<Rightarrow> 'a todo_world_scheme
   \<Rightarrow> ((step_exn + string) \<times> 'a todo_world_scheme) option"
where
  "run_goal_inner_loop wk g p w =
     goal_loop (nat (tk_max_iterations wk)) 1 wk g p [''Goal: '' @ td_title g @ nl] w"

subsection \<open>One call\<close>

text \<open>The work on a selected item, with the transition that precedes it and the one that follows
  success.\<close>

definition work_on ::
  "('a todo_world_scheme) todo_worker \<Rightarrow> todo_item \<Rightarrow> string \<Rightarrow> 'a todo_world_scheme
   \<Rightarrow> ((step_exn + string) \<times> 'a todo_world_scheme) option"
where
  "work_on wk item p w =
     (let w = on_db p (mark_in_progress (td_id item)) w
      in if td_type item = ''goal'' then run_goal_inner_loop wk item p w
         else map_option (\<lambda>(r, w).
                (case r of
                   Inl x \<Rightarrow> (Inl x, w)
                 | Inr text \<Rightarrow> (Inr text, on_db p (mark_done (td_id item)) w)))
                (run_item_workflow wk item p w))"

definition list_summary :: "todo_store \<Rightarrow> string" where
  "list_summary s =
     (let total = int (total_count s); don = int (done_count s)
      in ''Todo list complete.  '' @ int_str don @ ''/'' @ int_str total @ '' done, '' @
         int_str (total - don) @ '' failed.'')"

definition todo_answer :: "bool \<Rightarrow> todo_item option \<Rightarrow> string \<Rightarrow> json \<Rightarrow> json pydict" where
  "todo_answer work_left item text path =
     (let label = (case item of
            None \<Rightarrow> ''(no item)''
          | Some i \<Rightarrow> ''['' @ td_id i @ ''] '' @ td_title i)
      in [(''done'', JBool (\<not> work_left)),
          (''output'', JStr (if text = [] then label else label @ '': '' @ text)),
          (''cognitive_state'', JObj [(''db_path'', path)])])"

definition process_item ::
  "('a todo_world_scheme) todo_worker \<Rightarrow> string \<Rightarrow> 'a todo_world_scheme
   \<Rightarrow> (json pydict \<times> 'a todo_world_scheme) option"
where
  "process_item wk p w =
     (case get_next_pending (tw_dbs w p) of
        None \<Rightarrow>
          Some (todo_answer (has_work_remaining (tw_dbs w p)) None (list_summary (tw_dbs w p)) (JStr p), w)
      | Some item \<Rightarrow>
          map_option (\<lambda>(r, w).
            let (text, w) = (case r of
                  Inr text \<Rightarrow> (text, w)
                | Inl (StepFailed err) \<Rightarrow>
                    (''FAILED: '' @ err, snd (db_mark_failed p (td_id item) err w))
                | Inl (Unexpected x) \<Rightarrow>
                    (''FAILED (unexpected): '' @ exn_message x,
                     snd (db_mark_failed p (td_id item) (exn_message x) w)))
            in (todo_answer (has_work_remaining (tw_dbs w p)) (Some item) text (JStr p), w))
            (work_on wk item p w))"

text \<open>\<open>db_path\<close>: from the cognitive state, else from the message's metadata, else from its input.\<close>

definition resolve_db_path :: "channel_message \<Rightarrow> execution_context option \<Rightarrow> json result" where
  "resolve_db_path msg xc =
     (let cognitive = (case xc of
            None \<Rightarrow> JObj []
          | Some c \<Rightarrow> if json_truthy (xc_cognitive_state c) then xc_cognitive_state c else JObj [])
      in case json_get cognitive ''db_path'' JNull of
           Inl x \<Rightarrow> Inl x
         | Inr v \<Rightarrow>
             if v \<noteq> JNull then Inr v
             else (case json_get (cm_metadata msg) ''db_path'' JNull of
                     Inl x \<Rightarrow> Inl x
                   | Inr v \<Rightarrow> if v \<noteq> JNull then Inr v else json_get (cm_input msg) ''db_path'' JNull))"

text \<open>\<open>sqlite3.connect\<close> takes a path; on another value it raises, inside the \<open>try\<close>.\<close>

definition todo_call ::
  "('a todo_world_scheme) todo_worker \<Rightarrow> channel_message \<Rightarrow> execution_context option
   \<Rightarrow> 'a todo_world_scheme \<Rightarrow> (json pydict result \<times> 'a todo_world_scheme) option"
where
  "todo_call wk msg xc w =
     (case resolve_db_path msg xc of
        Inl x \<Rightarrow> Some (Inl x, w)
      | Inr JNull \<Rightarrow>
          Some (Inr [(''done'', JBool True),
            (''output'', JStr (''No db_path in payload or cognitive_state '' @ em_dash @
               '' nothing to do.''))], w)
      | Inr (JStr p) \<Rightarrow> map_option (\<lambda>(out, w). (Inr out, w)) (process_item wk p w)
      | Inr v \<Rightarrow>
          Some (Inr (todo_answer False None
            (''ERROR: expected str, bytes or os.PathLike object, not '' @ json_type_name v) v), w))"

subsection \<open>The orchestrator\<close>

text \<open>The calls of a worker on one database: what the \<open>k\<close>-th call answers, as the executor of a
  job.\<close>

fun world_after ::
  "nat \<Rightarrow> ('a todo_world_scheme) todo_worker \<Rightarrow> string \<Rightarrow> 'a todo_world_scheme
   \<Rightarrow> 'a todo_world_scheme option"
where
  "world_after 0 wk p w = Some w"
| "world_after (Suc k) wk p w =
     Option.bind (process_item wk p w) (\<lambda>(_, w). world_after k wk p w)"

definition todo_executor ::
  "('a todo_world_scheme) todo_worker \<Rightarrow> string \<Rightarrow> 'a todo_world_scheme \<Rightarrow> executor"
where
  "todo_executor wk p w =
     (\<lambda>k msg xc token. Inr (fst (the (Option.bind (world_after k wk p w) (process_item wk p)))))"

definition todo_message :: "string \<Rightarrow> channel_message" where
  "todo_message p =
     \<lparr>cm_input = JObj [], cm_metadata = JObj [(''db_path'', JStr p)], cm_channel = ''planner''\<rparr>"

definition job_answer :: "job option \<Rightarrow> json" where
  "job_answer r =
     (case r of
        None \<Rightarrow> JObj [(''done'', JBool True),
          (''output'', JStr (''No job processed '' @ em_dash @ '' queue may be empty.''))]
      | Some j \<Rightarrow>
          (case j_result j of
             Some v \<Rightarrow> v
           | None \<Rightarrow> JObj [(''done'', JBool True),
               (''output'', JStr (''Job '' @ j_id j @ '' finished in state '' @
                  state_value (j_state j) @ '', no result.''))]))"

text \<open>\<open>run(db_path)\<close>; the job that \<open>process_next\<close> takes is the first one of the queue.\<close>

definition orchestrator_run ::
  "nat \<Rightarrow> worker \<Rightarrow> string \<Rightarrow> worker_state \<Rightarrow> (json result \<times> worker_state) option"
where
  "orchestrator_run fuel wk db_path ws =
     (if db_path = [] then
        Some (Inr (JObj [(''done'', JBool True),
          (''output'', JStr (''No db_path provided '' @ em_dash @ '' nothing to do.''))]), ws)
      else
        (let (j, w) = create_job (ws_rt ws) (todo_message db_path)
         in case register_job j w of
              Inl x \<Rightarrow> Some (Inl x, ws\<lparr>ws_rt := w\<rparr>)
            | Inr (j, w) \<Rightarrow>
                (let w = w\<lparr>rt_queue := queue_push (rt_queue w) j\<rparr>
                 in map_option (\<lambda>(r, ws). (map_sum id job_answer r, ws))
                      (process_next fuel wk (ws\<lparr>ws_rt := w\<rparr>)))))"

subsection \<open>What a run leaves alone\<close>

text \<open>Router and tool that do not write to the todo lists.\<close>

definition leaves_lists :: "('a todo_world_scheme) todo_worker \<Rightarrow> bool" where
  "leaves_lists wk \<longleftrightarrow>
     (\<forall>q w. tw_dbs (snd (tk_route wk q w)) = tw_dbs w) \<and>
     (\<forall>c w. tw_dbs (snd (tk_inline_tool wk c w)) = tw_dbs w)"

lemma dispatch_leaves:
  assumes "leaves_lists wk"
  shows "dispatch_llm_call wk s out w = (r, w') \<Longrightarrow> tw_dbs w' = tw_dbs w"
    and "dispatch_tool_execute wk s out w = (s', w') \<Longrightarrow> tw_dbs w' = tw_dbs w"
    and "start_child wk s out i w = (c, w') \<Longrightarrow> tw_dbs w' = tw_dbs w"
    and "start_workflow en wid ctx w = (c, w') \<Longrightarrow> tw_dbs w' = tw_dbs w"
proof -
  have route: "tk_route wk q w = (a, b) \<Longrightarrow> tw_dbs b = tw_dbs w"
    and tool: "tk_inline_tool wk c w = (d, b) \<Longrightarrow> tw_dbs b = tw_dbs w" for q a b c d
    using assms by (auto simp: leaves_lists_def) (metis snd_conv)+
  show "dispatch_llm_call wk s out w = (r, w') \<Longrightarrow> tw_dbs w' = tw_dbs w"
    by (auto simp: dispatch_llm_call_def Let_def dest: route split: prod.splits sum.splits)
  show "dispatch_tool_execute wk s out w = (s', w') \<Longrightarrow> tw_dbs w' = tw_dbs w"
    by (auto simp: dispatch_tool_execute_def dest: tool split: prod.splits sum.splits option.splits)
  have start: "start_workflow en i ctx w = (c, w') \<Longrightarrow> tw_dbs w' = tw_dbs w" for en i ctx c
    by (auto simp: start_workflow_def new_uuid_def split: option.splits)
  then show "start_workflow en wid ctx w = (c, w') \<Longrightarrow> tw_dbs w' = tw_dbs w" .
  show "start_child wk s out i w = (c, w') \<Longrightarrow> tw_dbs w' = tw_dbs w"
    by (auto simp: start_child_def dest: start split: json.splits sum.splits option.splits)
qed

lemma todo_turn_leaves:
  assumes "leaves_lists wk" "todo_turn wk label s w = (t, w')"
  shows "tw_dbs w' = tw_dbs w"
  using assms(2) dispatch_leaves [OF assms(1)]
  by (auto simp: todo_turn_def split: sum.splits prod.splits outcome_type.splits option.splits)

text \<open>Induction over the turns of a run that returns.\<close>

lemma todo_loop_induct [consumes 1, case_names stop go raised call]:
  fixes w :: "'a todo_world_scheme"
  assumes run: "todo_loop wk label s w = Some y"
    and stop: "\<And>label s w r w'. todo_turn wk label s w = (Stop r, w') \<Longrightarrow> P label s w (r, w')"
    and go: "\<And>label s w s' w' y. todo_turn wk label s w = (Go s', w') \<Longrightarrow> P label s' w' y \<Longrightarrow>
      P label s w y"
    and raised: "\<And>label s w s' out child w' r w'' x.
      todo_turn wk label s w = (Call s' out child, w') \<Longrightarrow> P TODO_EXECUTE_ITEM child w' (r, w'') \<Longrightarrow>
      after_child wk s' out r w'' = Inl x \<Longrightarrow> P label s w (Inl (Unexpected x), w'')"
    and call: "\<And>label s w s' out child w' r w'' s'' y.
      todo_turn wk label s w = (Call s' out child, w') \<Longrightarrow> P TODO_EXECUTE_ITEM child w' (r, w'') \<Longrightarrow>
      after_child wk s' out r w'' = Inr s'' \<Longrightarrow> P label s'' w'' y \<Longrightarrow> P label s w y"
  shows "P label s w y"
proof -
  have "wk = wk \<longrightarrow> P label s w y"
  proof (rule todo_loop.raw_induct [OF _ run, where P = "\<lambda>wk' label s w y. wk' = wk \<longrightarrow> P label s w y"],
      intro impI)
    fix rec wk' label s y and w :: "'a todo_world_scheme"
    assume IH: "\<And>wk' label s w y. rec wk' label s w = Some y \<Longrightarrow> wk' = wk \<longrightarrow> P label s w y"
      and body: "(case todo_turn wk' label s w of
          (Stop r, w) \<Rightarrow> Some (r, w)
        | (Go s, w) \<Rightarrow> rec wk' label s w
        | (Call s out child, w) \<Rightarrow>
            Option.bind (rec wk' TODO_EXECUTE_ITEM child w) (\<lambda>(r, w).
              case after_child wk' s out r w of
                Inl x \<Rightarrow> Some (Inl (Unexpected x), w)
              | Inr s \<Rightarrow> rec wk' label s w)) = Some y"
      and wk: "wk' = wk"
    obtain t w' where turn: "todo_turn wk label s w = (t, w')" by (cases "todo_turn wk label s w")
    show "P label s w y"
    proof (cases t)
      case (Stop r)
      with body turn wk have "y = (r, w')" by simp
      with stop turn Stop show ?thesis by simp
    next
      case (Go s')
      with body turn wk have "rec wk label s' w' = Some y" by simp
      with IH have "P label s' w' y" by blast
      with go turn Go show ?thesis by simp
    next
      case (Call s' out child)
      with body turn wk obtain r w'' where child: "rec wk TODO_EXECUTE_ITEM child w' = Some (r, w'')"
        and rest: "(case after_child wk s' out r w'' of
            Inl x \<Rightarrow> Some (Inl (Unexpected x), w'') | Inr s \<Rightarrow> rec wk label s w'') = Some y"
        by (auto simp: bind_eq_Some_conv)
      have c: "P TODO_EXECUTE_ITEM child w' (r, w'')" using IH [OF child] by blast
      show ?thesis
      proof (cases "after_child wk s' out r w''")
        case (Inl x)
        with rest raised turn Call c show ?thesis by auto
      next
        case (Inr s'')
        with rest have "rec wk label s'' w'' = Some y" by simp
        with IH have "P label s'' w'' y" by blast
        with call turn Call c Inr show ?thesis by blast
      qed
    qed
  qed
  then show ?thesis by blast
qed

lemma todo_loop_leaves:
  assumes "todo_loop wk label s w = Some r" "leaves_lists wk"
  shows "tw_dbs (snd r) = tw_dbs w"
  using assms by (induction rule: todo_loop_induct) (auto dest!: todo_turn_leaves)

lemma item_workflow_leaves:
  assumes "run_item_workflow wk item p w = Some (r, w')" "leaves_lists wk"
  shows "tw_dbs w' = tw_dbs w"
proof -
  obtain c w1 where start: "start_workflow (tk_engine wk) TODO_EXECUTE_ITEM (Some (task_context item p w)) w
      = (c, w1)" by fastforce
  with dispatch_leaves(4) [OF assms(2)] have "tw_dbs w1 = tw_dbs w" by blast
  with start assms show ?thesis
    by (cases c) (auto simp: run_item_workflow_def run_workflow_to_completion_def
        dest!: todo_loop_leaves)
qed

lemma iteration_leaves:
  assumes "run_subgoal_iteration wk ctx w = Some (r, w')" "leaves_lists wk"
  shows "tw_dbs w' = tw_dbs w"
proof -
  obtain c w1 where start: "start_workflow (tk_engine wk) SUBGOAL_EXECUTE_LOOP (Some ctx) w = (c, w1)"
    by fastforce
  with dispatch_leaves(4) [OF assms(2)] have "tw_dbs w1 = tw_dbs w" by blast
  with start assms show ?thesis
    by (cases c) (auto simp: run_subgoal_iteration_def dest!: todo_loop_leaves)
qed

lemma on_db_list:
  assumes "\<And>s w. tw_dbs (snd (f s w)) = tw_dbs w"
  shows "tw_dbs (on_db p f w) = (tw_dbs w)(p := fst (f (tw_dbs w p) w))"
  using assms [of "tw_dbs w p" w] by (cases "f (tw_dbs w p) w") (simp add: on_db_def)

lemma transition_dbs [simp]:
  "tw_dbs (on_db p (mark_in_progress i) w) = (tw_dbs w)(p := fst (mark_in_progress i (tw_dbs w p) w))"
  "tw_dbs (on_db p (mark_done i) w) = (tw_dbs w)(p := fst (mark_done i (tw_dbs w p) w))"
  "tw_dbs (on_db p (append_progress i t) w) =
     (tw_dbs w)(p := fst (append_progress i t (tw_dbs w p) w))"
  "tw_dbs (snd (db_mark_failed p i msg w)) =
     (tw_dbs w)(p := fst (snd (todo_mark_failed i msg (tw_dbs w p) w)))"
proof -
  show "tw_dbs (on_db p (mark_in_progress i) w) = (tw_dbs w)(p := fst (mark_in_progress i (tw_dbs w p) w))"
    by (intro on_db_list) (simp add: mark_in_progress_def now_iso_def utc_now_def Let_def)
  show "tw_dbs (on_db p (mark_done i) w) = (tw_dbs w)(p := fst (mark_done i (tw_dbs w p) w))"
    by (intro on_db_list) (simp add: mark_done_def now_iso_def utc_now_def Let_def)
  show "tw_dbs (on_db p (append_progress i t) w) =
      (tw_dbs w)(p := fst (append_progress i t (tw_dbs w p) w))"
    by (intro on_db_list) (simp add: append_progress_def now_iso_def utc_now_def Let_def)
  show "tw_dbs (snd (db_mark_failed p i msg w)) =
      (tw_dbs w)(p := fst (snd (todo_mark_failed i msg (tw_dbs w p) w)))"
    by (simp add: db_mark_failed_def todo_mark_failed_def now_iso_def utc_now_def Let_def
        split: option.split)
qed

text \<open>What the work on an active item leaves in the list: on success it is done, on failure it is
  still in progress, or an exhausted goal loop has failed it once already.\<close>

definition worked :: "todo_store \<Rightarrow> string \<Rightarrow> step_exn + string \<Rightarrow> todo_store \<Rightarrow> bool" where
  "worked s i r s' \<longleftrightarrow> todos_ok s' \<and>
     (case r of
        Inr _ \<Rightarrow> store_work s' < store_work s
      | Inl _ \<Rightarrow> \<exists>q. find_row s' i = Some q \<and>
          (td_status q = ''in_progress'' \<and> store_work s' = store_work s \<or>
           store_work s' < store_work s \<and>
             (td_status q = ''pending'' \<or> td_retries_remaining q \<le> 0)))"

lemma worked_same:
  "store_work s1 = store_work s \<Longrightarrow> worked s1 i r s' \<Longrightarrow> worked s i r s'"
  by (cases r) (auto simp: worked_def)

lemma todo_answer_done [simp]:
  "dict_get (todo_answer b item text path) ''done'' = Some (JBool (\<not> b))"
  by (simp add: todo_answer_def Let_def dict_get_def)

lemma goal_loop_work:
  assumes "leaves_lists wk"
  shows "goal_loop n k wk g p parts w = Some (r, w') \<Longrightarrow> todos_ok (tw_dbs w p) \<Longrightarrow>
    find_row (tw_dbs w p) (td_id g) = Some q \<Longrightarrow> td_status q = ''in_progress'' \<Longrightarrow>
    worked (tw_dbs w p) (td_id g) r (tw_dbs w' p)"
proof (induction n arbitrary: k parts w q)
  case 0
  let ?msg = "goal_exhausted wk g parts"
  note failed = mark_failed_work [OF 0(2,3), of ?msg w]
  from 0(1) have r: "r = Inl (StepFailed ?msg)"
    and w': "tw_dbs w' p = fst (snd (todo_mark_failed (td_id g) ?msg (tw_dbs w p) w))"
    by (auto simp: Let_def)
  show ?case using failed 0(4) unfolding r w' worked_def by auto
next
  case (Suc n)
  let ?it = "run_subgoal_iteration wk (goal_context g parts p w) w"
  obtain a w1 where it: "?it = Some (a, w1)" using Suc.prems(1) by (cases ?it) auto
  have w1: "tw_dbs w1 = tw_dbs w" using iteration_leaves [OF it assms] .
  show ?case
  proof (cases a)
    case (Inl x)
    with Suc.prems it have "r = Inl x" "w' = w1" by simp_all
    with w1 Suc.prems show ?thesis by (auto simp: worked_def)
  next
    case (Inr pa)
    obtain progress adviser where pa: "pa = (progress, adviser)" by (cases pa)
    define w2 where "w2 = (if progress = [] then w1 else on_db p (append_progress (td_id g) progress) w1)"
    define parts2 where "parts2 = (if progress = [] then parts else parts @ [progress])"
    have same: "store_work (tw_dbs w2 p) = store_work (tw_dbs w p)"
      by (simp add: w2_def w1 append_progress_work(1))
    have ok2: "todos_ok (tw_dbs w2 p)"
      using Suc.prems(2) by (simp add: w2_def w1 append_progress_work(2))
    have "\<exists>q2. find_row (tw_dbs w2 p) (td_id g) = Some q2 \<and> td_status q2 = ''in_progress''"
      using append_progress_work(3) [OF Suc.prems(3), of "td_id g" progress w1] Suc.prems(3,4)
      by (cases "progress = []") (auto simp: w2_def w1)
    then obtain q2 where q2: "find_row (tw_dbs w2 p) (td_id g) = Some q2" "td_status q2 = ''in_progress''"
      by blast
    have body: "(if parse_complete_signal adviser
        then Some (Inr (''Goal completed in '' @ int_str k @ '' iteration(s). Last adviser: '' @
               take 200 adviser), on_db p (mark_done (td_id g)) w2)
        else goal_loop n (k + 1) wk g p parts2 w2) = Some (r, w')"
      using Suc.prems(1)
      by (simp only: goal_loop.simps it Inr pa option.case sum.case prod.case Let_def w2_def parts2_def)
    show ?thesis
    proof (cases "parse_complete_signal adviser")
      case True
      with body obtain t where "r = Inr t" "w' = on_db p (mark_done (td_id g)) w2" by auto
      with mark_done_work [OF ok2 q2, of w2] same show ?thesis by (simp add: worked_def)
    next
      case False
      with body have "goal_loop n (k + 1) wk g p parts2 w2 = Some (r, w')" by simp
      from worked_same [OF same Suc.IH [OF this ok2 q2]] show ?thesis .
    qed
  qed
qed

lemma work_on_worked:
  assumes run: "work_on wk item p w = Some (r, w')" and leaves: "leaves_lists wk"
    and ok: "todos_ok (tw_dbs w p)" and row: "find_row (tw_dbs w p) (td_id item) = Some q"
      "td_status q \<in> {''pending'', ''in_progress''}"
  shows "worked (tw_dbs w p) (td_id item) r (tw_dbs w' p)"
proof -
  define w1 where "w1 = on_db p (mark_in_progress (td_id item)) w"
  have same: "store_work (tw_dbs w1 p) = store_work (tw_dbs w p)" and ok1: "todos_ok (tw_dbs w1 p)"
    using mark_in_progress_row(1,2) [of "td_id item" "tw_dbs w p" w] ok by (simp_all add: w1_def)
  obtain q1 where q1: "find_row (tw_dbs w1 p) (td_id item) = Some q1" "td_status q1 = ''in_progress''"
    using mark_in_progress_row(3) [OF row] by (auto simp: w1_def)
  show ?thesis
  proof (cases "td_type item = ''goal''")
    case True
    with run have "goal_loop (nat (tk_max_iterations wk)) 1 wk item p
        [''Goal: '' @ td_title item @ nl] w1 = Some (r, w')"
      by (simp add: work_on_def w1_def run_goal_inner_loop_def)
    from worked_same [OF same goal_loop_work [OF leaves this ok1 q1]] show ?thesis .
  next
    case False
    with run obtain a w2 where item: "run_item_workflow wk item p w1 = Some (a, w2)"
      and r: "(case a of Inl x \<Rightarrow> (Inl x, w2) | Inr text \<Rightarrow> (Inr text, on_db p (mark_done (td_id item)) w2))
        = (r, w')"
      by (auto simp: work_on_def w1_def Let_def)
    have w2: "tw_dbs w2 = tw_dbs w1" using item_workflow_leaves [OF item leaves] .
    show ?thesis
    proof (cases a)
      case (Inl x)
      with r w2 ok1 q1 same show ?thesis by (auto simp: worked_def)
    next
      case (Inr t)
      with r have "r = Inr t" "w' = on_db p (mark_done (td_id item)) w2" by simp_all
      with mark_done_work [OF ok1 q1, of w2] same w2 show ?thesis by (simp add: worked_def)
    qed
  qed
qed

text \<open>Every call that is given an item spends at least one of the attempts left.\<close>

lemma process_item_work:
  assumes run: "process_item wk p w = Some (out, w')" and leaves: "leaves_lists wk"
    and ok: "todos_ok (tw_dbs w p)"
  shows "todos_ok (tw_dbs w' p)"
    and "get_next_pending (tw_dbs w p) \<noteq> None \<Longrightarrow> store_work (tw_dbs w' p) < store_work (tw_dbs w p)"
    and "get_next_pending (tw_dbs w p) = None \<Longrightarrow> w' = w"
    and "dict_get out ''done'' = Some (JBool (\<not> has_work_remaining (tw_dbs w' p)))"
proof -
  have "todos_ok (tw_dbs w' p) \<and>
    (get_next_pending (tw_dbs w p) \<noteq> None \<longrightarrow> store_work (tw_dbs w' p) < store_work (tw_dbs w p)) \<and>
    (get_next_pending (tw_dbs w p) = None \<longrightarrow> w' = w) \<and>
    dict_get out ''done'' = Some (JBool (\<not> has_work_remaining (tw_dbs w' p)))"
  proof (cases "get_next_pending (tw_dbs w p)")
    case None
    with run ok show ?thesis by (auto simp: process_item_def)
  next
    case (Some item)
    obtain q where q: "find_row (tw_dbs w p) (td_id item) = Some q"
      "td_status q \<in> {''pending'', ''in_progress''}"
      using next_pending_row [OF ok Some] by blast
    obtain r w1 where work: "work_on wk item p w = Some (r, w1)"
      using run Some by (auto simp: process_item_def)
    have worked: "worked (tw_dbs w p) (td_id item) r (tw_dbs w1 p)"
      using work_on_worked [OF work leaves ok q] .
    show ?thesis
    proof (cases r)
      case (Inr t)
      with run Some work worked show ?thesis
        by (auto simp: process_item_def worked_def Let_def)
    next
      case (Inl x)
      with worked obtain q1 where q1: "find_row (tw_dbs w1 p) (td_id item) = Some q1"
        and ok1: "todos_ok (tw_dbs w1 p)" by (auto simp: worked_def)
      define msg where "msg = (case x of StepFailed err \<Rightarrow> err | Unexpected e \<Rightarrow> exn_message e)"
      have w': "w' = snd (db_mark_failed p (td_id item) msg w1)"
        and out: "dict_get out ''done'' = Some (JBool (\<not> has_work_remaining (tw_dbs w' p)))"
        using run Some work Inl
        by (auto simp: process_item_def Let_def msg_def
            split: step_exn.splits)
      note failed = mark_failed_work [OF ok1 q1, of msg w1]
      have "store_work (tw_dbs w' p) < store_work (tw_dbs w p)"
        using worked failed(1,2) q1 Inl by (auto simp: worked_def w')
      with failed(3) out Some show ?thesis by (simp add: w')
    qed
  qed
  then show "todos_ok (tw_dbs w' p)"
    and "get_next_pending (tw_dbs w p) \<noteq> None \<Longrightarrow> store_work (tw_dbs w' p) < store_work (tw_dbs w p)"
    and "get_next_pending (tw_dbs w p) = None \<Longrightarrow> w' = w"
    and "dict_get out ''done'' = Some (JBool (\<not> has_work_remaining (tw_dbs w' p)))"
    by auto
qed

subsection \<open>Working a list off\<close>

lemma no_work_drained: "\<not> has_work_remaining s \<Longrightarrow> get_next_pending s = None"
  by (auto simp: has_work_remaining_def get_next_pending_def or_else_iff select_first_iff
      filter_empty_conv)

lemma active_work:
  assumes "todos_ok s" "get_next_pending s = Some item"
  shows "store_work s > 0"
proof -
  obtain r where r: "find_row s (td_id item) = Some r" "td_status r \<in> {''pending'', ''in_progress''}"
    using next_pending_row [OF assms] by blast
  have "r \<in> set (ts_todos s)" using r(1) by (simp add: find_row_iff [OF assms(1)])
  then have "row_work r \<le> store_work s"
    by (simp add: store_work_def member_le_sum_list)
  moreover have "row_work r > 0" using r(2) by (auto simp: row_work_def)
  ultimately show ?thesis by simp
qed

lemma world_after_ok:
  "world_after k wk p w = Some w' \<Longrightarrow> leaves_lists wk \<Longrightarrow> todos_ok (tw_dbs w p) \<Longrightarrow> todos_ok (tw_dbs w' p)"
  by (induction k arbitrary: w) (auto simp: bind_eq_Some_conv dest: process_item_work(1))

lemma drained_process:
  "get_next_pending (tw_dbs w p) = None \<Longrightarrow> process_item wk p w =
    Some (todo_answer (has_work_remaining (tw_dbs w p)) None (list_summary (tw_dbs w p)) (JStr p), w)"
  by (simp add: process_item_def)

lemma drained_stays:
  "get_next_pending (tw_dbs w p) = None \<Longrightarrow> world_after k wk p w = Some w"
  by (induction k) (simp_all add: drained_process)

lemma world_after_add:
  "world_after (m + k) wk p w = Option.bind (world_after m wk p w) (\<lambda>w. world_after k wk p w)"
proof (induction m arbitrary: w)
  case (Suc m)
  then show ?case by (cases "process_item wk p w") auto
qed simp

lemma todo_list_drains:
  assumes "leaves_lists wk"
  shows "world_after n wk p w = Some w' \<Longrightarrow> todos_ok (tw_dbs w p) \<Longrightarrow> store_work (tw_dbs w p) \<le> n \<Longrightarrow>
    get_next_pending (tw_dbs w' p) = None"
proof (induction n arbitrary: w)
  case 0
  then show ?case using active_work by fastforce
next
  case (Suc n)
  show ?case
  proof (cases "get_next_pending (tw_dbs w p)")
    case None
    with drained_stays [OF None, of "Suc n" wk] Suc.prems(1) show ?thesis by simp
  next
    case (Some item)
    obtain out u where u: "process_item wk p w = Some (out, u)" "world_after n wk p u = Some w'"
      using Suc.prems(1) by (auto simp: bind_eq_Some_conv)
    note step = process_item_work [OF u(1) assms Suc.prems(2)]
    with Some Suc.prems(3) show ?thesis by (intro Suc.IH [OF u(2)]) simp_all
  qed
qed

lemma execution_loop_never_ends:
  assumes "\<And>k msg xc tok. \<exists>out. ex k msg xc tok = Inr out \<and> \<not> says_done out"
  shows "j_state j = RUNNING \<Longrightarrow> execution_loop fuel ex policy det attempt j w = None"
proof (induction fuel arbitrary: attempt j w)
  case (Suc fuel)
  obtain out where "cycle_outcome ex j w = Inr out" and out: "\<not> says_done out"
    using assms cycle_outcome_calls by metis
  then have "cycle_verdict ex policy det attempt j w = Inr (ToolOutput out)"
    by (simp add: cycle_verdict_def tool_execute_cases)
  from execution_cycle_output [OF Suc.prems this] out obtain j' w' where
    "execution_cycle ex policy det attempt j w = Again 1 j' w'" "cyc j w j' w' RUNNING []" by auto
  with Suc.IH [of j'] show ?case by (simp add: cyc_def)
qed simp

text \<open>What the executor answers, when the first \<open>n\<close> calls return and the list is drained after
  them.\<close>

lemma todo_executor_answers:
  assumes leaves: "leaves_lists wk" and ok: "todos_ok (tw_dbs w p)"
    and run: "world_after n wk p w = Some w'" and drained: "get_next_pending (tw_dbs w' p) = None"
  shows "\<exists>out. todo_executor wk p w k msg xc tok = Inr out \<and>
    (says_done out \<longrightarrow> \<not> has_work_remaining (tw_dbs w' p)) \<and>
    (n \<le> k \<longrightarrow> says_done out \<longleftrightarrow> \<not> has_work_remaining (tw_dbs w' p))"
proof (cases "n \<le> k")
  case True
  then obtain d where "k = n + d" by (auto simp: le_iff_add)
  then have "world_after k wk p w = Some w'" by (simp add: world_after_add run drained_stays [OF drained])
  then show ?thesis
    by (simp add: todo_executor_def drained_process [OF drained] dict_get_or_def)
next
  case False
  then obtain d where n: "n = k + Suc d" by (metis add_Suc_right less_imp_Suc_add not_le)
  then obtain u where u: "world_after k wk p w = Some u" and rest: "world_after (Suc d) wk p u = Some w'"
    using run [unfolded n world_after_add] unfolding bind_eq_Some_conv by blast
  from rest obtain out v where v: "process_item wk p u = Some (out, v)" "world_after d wk p v = Some w'"
    by (auto simp: bind_eq_Some_conv)
  have "todos_ok (tw_dbs u p)" using world_after_ok [OF u leaves ok] .
  from process_item_work(4) [OF v(1) leaves this]
  have out: "says_done out \<longleftrightarrow> \<not> has_work_remaining (tw_dbs v p)" by (simp add: dict_get_or_def)
  have "w' = v" if "\<not> has_work_remaining (tw_dbs v p)"
    using drained_stays [OF no_work_drained [OF that], of d wk] v(2) by simp
  with out u v False show ?thesis by (auto simp: todo_executor_def)
qed

subsection \<open>The whole run\<close>

text \<open>A fresh job of a worker that is not degraded reaches the execution stage.\<close>

definition calm_job :: "job \<Rightarrow> bool" where
  "calm_job j \<longleftrightarrow> j_consecutive_failures j = 0 \<and> j_panic_count j = 0 \<and> j_crash_count j = 0"

lemma append_lifecycle_calm [simp]:
  "calm_job (fst (append_lifecycle_event j ev d w)) = calm_job j"
  "calm_job (fst (save_checkpoint j w)) = calm_job j"
  "calm_job (fst (issue_resume_token j w)) = calm_job j"
  by (simp_all add: append_lifecycle_event_def save_checkpoint_def issue_resume_token_def new_uuid_def
      utc_now_def calm_job_def Let_def split: prod.split)

lemma mark_running_calm: "mark_running j w = Inr (j', w') \<Longrightarrow> calm_job j' = calm_job j"
  by (auto simp: mark_running_def append_trace_def save_checkpoint_def append_lifecycle_event_def
      utc_now_def Let_def calm_job_def split: sum.splits)

lemma fresh_reaches_execution:
  assumes "ps_state st = PENDING" "\<not> ps_degraded st" "calm_job (ps_job st)"
    and "wk_degraded_mode wk = default_degraded_mode i"
  shows "\<exists>st3. ps_state st3 = RUNNING \<and>
    pipeline_run (worker_stages fuel wk \<lparr>px_stored_job = stored, px_signal_state = None\<rparr>) st =
    pipeline_run [execution_stage fuel (wk_executor wk) (wk_retry_policy wk) (wk_poison_detector wk)] st3"
proof -
  let ?ctx = "\<lparr>px_stored_job = stored, px_signal_state = None\<rparr>"
  obtain st1 where 1: "crash_recovery_stage st = Some (Continue, st1)" "ps_state st1 = RUNNING"
      "ps_degraded st1 = ps_degraded st"
    using crash_recovery_stage_continues [of st] assms(1) by auto
  have c1: "calm_job (ps_job st1)"
  proof -
    obtain j1 w1 where a: "(if j_resume_token (ps_job st) = None
        then issue_resume_token (ps_job st) (ps_rt st) else (ps_job st, ps_rt st)) = (j1, w1)"
      by (metis surj_pair)
    then have j1: "calm_job j1"
      using assms(3) append_lifecycle_calm(3) [of "ps_job st" "ps_rt st"]
      by (cases "j_resume_token (ps_job st) = None") simp_all
    obtain j2 w2 where m: "mark_running j1 w1 = Inr (j2, w2)" and st1: "st1 = ps_set st (j2, w2)"
      using 1(1) assms(1) a by (auto simp: crash_recovery_stage_cases Let_def split: sum.splits)
    from mark_running_calm [OF m] j1 show ?thesis by (simp add: st1)
  qed
  obtain st2 where 2: "idempotency_stage ?ctx st1 = Some (Continue, st2)" "ps_state st2 = RUNNING"
      "ps_degraded st2 = ps_degraded st1"
    using idempotency_stage_continues [of ?ctx st1] 1 by auto
  have c2: "calm_job (ps_job st2)"
    using 2(1) c1 by (auto simp: idempotency_stage_def Let_def append_lifecycle_event_def utc_now_def
        calm_job_def split: option.splits if_splits)
  have "degraded_mode_stage (wk_degraded_mode wk) ?ctx st2 = Some (Continue, st2)"
  proof -
    have "entry_reason (wk_degraded_mode wk) (degraded_context_of (wk_degraded_mode wk) ?ctx (ps_job st2) False) = None"
      using c2 by (simp add: entry_reason_None_iff unstable_def degraded_context_of_def calm_job_def assms(4))
    then show ?thesis
      using 1 2 assms(2) by (simp add: degraded_mode_stage_def degraded_evaluate_def decision_def
          degraded_context_of_def)
  qed
  with 1 2 show ?thesis by (intro exI [of _ st2]) (simp add: worker_stages_def rest_stages_def)
qed

text \<open>The run of the orchestrator is the worker's run of the job it registers.\<close>

lemma orchestrator_runs_job:
  assumes "p \<noteq> []" "q_items (rt_queue (ws_rt ws)) = []"
  shows "\<exists>j stored ws'. j_state j = PENDING \<and> calm_job j \<and> ws_degraded ws' = ws_degraded ws \<and>
    (\<forall>fuel. orchestrator_run fuel wk p ws =
      map_option (\<lambda>(r, ws). (map_sum id job_answer r, ws)) (run_job fuel wk j (Some stored) ws'))"
proof -
  obtain j w0 where c: "create_job (ws_rt ws) (todo_message p) = (j, w0)" by fastforce
  then have j: "j_state j = PENDING" "calm_job j" "rt_queue w0 = rt_queue (ws_rt ws)"
    by (auto simp: create_job_def new_uuid_def utc_now_def new_job_def calm_job_def)
  obtain j1 w1 where r: "register_job j w0 = Inr (j1, w1)"
    using j(1) by (cases "register_job j w0") (auto simp: register_job_def)
  then have j1: "j_state j1 = PENDING" "calm_job j1" "rt_queue w1 = rt_queue w0"
      "job_get (rt_store w1) (j_id j1) = Some j1"
    using j by (auto simp: register_job_def save_checkpoint_def append_lifecycle_event_def utc_now_def
        Let_def calm_job_def job_get_def job_save_def split: if_splits)
  define ws1 where "ws1 = ws\<lparr>ws_rt := w1\<lparr>rt_queue := queue_push (rt_queue w1) j1\<rparr>\<rparr>"
  let ?ws = "ws1\<lparr>ws_rt := pop_head (ws_rt ws1) j1 []\<rparr>"
  define j2 where "j2 = hydrate (Some j1) j1"
  have j2: "j_state j2 = PENDING" "calm_job j2"
    using j1 by (simp_all add: j2_def hydrate_def calm_job_def)
  have run: "process_next fuel wk ws1 = run_job fuel wk j2 (Some j1) ?ws" for fuel
    using process_next_live [of ws1 j1 "[]" fuel wk] assms(2) j j1
    by (simp add: ws1_def queue_push_def alive_def j2_def)
  have "orchestrator_run fuel wk p ws = map_option (\<lambda>(r, ws). (map_sum id job_answer r, ws))
      (run_job fuel wk j2 (Some j1) ?ws)" for fuel
    using assms(1) by (simp add: orchestrator_run_def c r run flip: ws1_def)
  moreover have "ws_degraded ?ws = ws_degraded ws" by (simp add: ws1_def)
  ultimately show ?thesis using j2 by blast
qed

text \<open>A job whose executor never says that it is done does not end.\<close>

lemma undone_job_never_ends:
  assumes "\<And>k msg xc tok. \<exists>out. ex k msg xc tok = Inr out \<and> \<not> says_done out"
    and "j_state j = PENDING" "calm_job j" "\<not> ws_degraded ws"
  shows "run_job fuel (new_worker ex None None) j (Some stored) ws = None"
proof -
  let ?wk = "new_worker ex None None"
  obtain j3 w3 where a: "append_lifecycle_event j ''hydrate_execution_context'' [] (ws_rt ws) = (j3, w3)"
    by fastforce
  let ?st = "\<lparr>ps_job = j3, ps_rt = w3, ps_degraded = ws_degraded ws\<rparr>"
  have "calm_job j3" "j_state j3 = PENDING"
    using a assms(2,3) append_lifecycle_calm(1) [of j] append_lifecycle_event_step [OF a]
    by (metis fst_conv, simp add: cp_step_def)
  then obtain st3 where st3: "ps_state st3 = RUNNING" "pipeline_run (worker_stages fuel ?wk
      \<lparr>px_stored_job = Some stored, px_signal_state = None\<rparr>) ?st =
      pipeline_run [execution_stage fuel ex DEFAULT_RETRY_RULES (wk_poison_detector ?wk)] st3"
    using fresh_reaches_execution [of ?st ?wk "[]" fuel "Some stored"] assms(4) by auto
  from execution_loop_never_ends [of ex, OF assms(1) st3(1)]
  have "execution_stage fuel ex DEFAULT_RETRY_RULES (wk_poison_detector ?wk) st3 = None"
    by (simp add: execution_stage_def)
  with st3(2) a show ?thesis by (simp add: run_job_def)
qed

text \<open>C33: a todo list is worked off exactly when nothing is left that waits for a failure.
  \<open>run\<close> on an idle worker takes the job it pushed; after as many calls as there are attempts left in
  the list nothing more is handed out (a call spends at least one attempt of its item, whatever the
  workflows, the router and the tools answer).  If no item is pending by then, \<open>run\<close> returns; if one
  is (it waits for an item that failed), every further call answers that it is not done, and \<open>run\<close>
  never returns.  The calls return, and the router and the tools do not write to the list.\<close>

theorem todo_run_ends_iff:
  assumes "leaves_lists wk" "todos_ok (tw_dbs w p)"
    and "world_after (store_work (tw_dbs w p)) wk p w = Some w'"
    and "p \<noteq> []" "q_items (rt_queue (ws_rt ws)) = []" "\<not> ws_degraded ws"
  shows "(\<exists>fuel v ws'. orchestrator_run fuel (new_worker (todo_executor wk p w) None None) p ws =
      Some (Inr v, ws')) \<longleftrightarrow> \<not> has_work_remaining (tw_dbs w' p)"
    (is "(\<exists>fuel v ws'. ?run fuel = Some (Inr v, ws')) \<longleftrightarrow> ?no_work")
proof -
  let ?ex = "todo_executor wk p w"
  obtain j stored ws1 where j: "j_state j = PENDING" "calm_job j" "ws_degraded ws1 = ws_degraded ws"
    and run: "\<And>fuel. ?run fuel = map_option (\<lambda>(r, ws). (map_sum id job_answer r, ws))
        (run_job fuel (new_worker ?ex None None) j (Some stored) ws1)"
    using orchestrator_runs_job [OF assms(4,5), of "new_worker ?ex None None"] by blast
  have "get_next_pending (tw_dbs w' p) = None"
    using todo_list_drains [OF assms(1,3,2)] by simp
  note answers = todo_executor_answers [OF assms(1-3) this]
  show ?thesis
  proof (cases ?no_work)
    case True
    let ?n = "store_work (tw_dbs w p)"
    have "settles_at ?ex ?n"
      using answers True unfolding settles_at_def by (metis sum.simps(6))
    then obtain j' v where "run_job (?n + 5) (new_worker ?ex None None) j (Some stored) ws1 =
        Some (Inr (Some j'), v)"
      using run_job_finishes [of "new_worker ?ex None None" ?n "?n + 5" j "Some stored" ws1] j(1) by auto
    with run [of "?n + 5"] True show ?thesis by auto
  next
    case False
    have "run_job fuel (new_worker ?ex None None) j (Some stored) ws1 = None" for fuel
      by (rule undone_job_never_ends [OF _ j(1,2)]) (use answers False j(3) assms(6) in \<open>blast, simp\<close>)
    with run False show ?thesis by simp
  qed
qed

text \<open>Two lists whose first item always fails, for want of a workflow: alone, and with an item
  behind it.\<close>

definition demo_list :: "bool \<Rightarrow> todo_store" where
  "demo_list two =
     (if two then
        add_dep ''b'' ''a'' \<lparr>ts_todos = [demo_todo ''a'' ''task'' ''pending'' 1,
          demo_todo ''b'' ''task'' ''pending'' 1], ts_deps = []\<rparr>
      else \<lparr>ts_todos = [demo_todo ''a'' ''task'' ''pending'' 1], ts_deps = []\<rparr>)"

definition demo_todo_world :: "bool \<Rightarrow> todo_world" where
  "demo_todo_world two =
     wf_env.extend demo_env \<lparr>tw_dbs = (\<lambda>_. demo_list two), tw_file = (\<lambda>p. p)\<rparr>"

definition demo_todo_worker :: "todo_world todo_worker" where
  "demo_todo_worker =
     \<lparr>tk_engine = \<lparr>en_registry = [], en_pattern_registry = None, en_council_registry = None\<rparr>,
      tk_route = (\<lambda>q w. (Inl (ValueError ''no router''), w)),
      tk_inline_tool = (\<lambda>c w. (Inr None, w)), tk_tool_context = [], tk_max_iterations = 30\<rparr>"

text \<open>The statuses a run leaves.\<close>

definition statuses_after :: "nat \<Rightarrow> bool \<Rightarrow> string list option" where
  "statuses_after n two =
     map_option (\<lambda>w. map td_status (ts_todos (tw_dbs w ''db''))) (world_after n demo_todo_worker ''db''
       (demo_todo_world two))"

lemma demo_lists:
  "todos_ok (demo_list two)" "store_work (demo_list False) = 1" "store_work (demo_list True) = 2"
  "statuses_after 1 False = Some [''failed'']" "statuses_after 2 True = Some [''failed'', ''pending'']"
proof -
  have "todos_ok (demo_list True)" "todos_ok (demo_list False)" by code_simp+
  then show "todos_ok (demo_list two)" by (cases two) simp_all
qed code_simp+

lemma statuses_afterD:
  assumes "statuses_after n two = Some sts"
  shows "\<exists>w. world_after n demo_todo_worker ''db'' (demo_todo_world two) = Some w \<and>
    map td_status (ts_todos (tw_dbs w ''db'')) = sts"
  using assms by (auto simp: statuses_after_def)

lemma demo_leaves: "leaves_lists demo_todo_worker"
  by (simp add: leaves_lists_def demo_todo_worker_def)

lemma has_work_statuses:
  "has_work_remaining s \<longleftrightarrow>
     list_ex (\<lambda>st. st \<in> {''pending'', ''in_progress''}) (map td_status (ts_todos s))"
  by (simp add: has_work_remaining_def list_ex_iff filter_empty_conv)

definition idle_ws :: worker_state where
  "idle_ws = \<lparr>ws_rt = sample_rt\<lparr>rt_queue := \<lparr>q_items = [], q_in_flight = []\<rparr>\<rparr>, ws_degraded = False\<rparr>"

definition demo_run :: "nat \<Rightarrow> bool \<Rightarrow> (json result \<times> worker_state) option" where
  "demo_run fuel two =
     orchestrator_run fuel (new_worker (todo_executor demo_todo_worker ''db'' (demo_todo_world two)) None None)
       ''db'' idle_ws"

theorem todo_run_ends_iff_witness:
  "(\<exists>fuel v ws'. demo_run fuel False = Some (Inr v, ws')) \<and>
   \<not> (\<exists>fuel v ws'. demo_run fuel True = Some (Inr v, ws'))"
proof -
  have dbs: "tw_dbs (demo_todo_world two) p = demo_list two" for two p
    by (simp add: demo_todo_world_def wf_env.defs)
  obtain w1 where w1: "world_after 1 demo_todo_worker ''db'' (demo_todo_world False) = Some w1"
    "map td_status (ts_todos (tw_dbs w1 ''db'')) = [''failed'']"
    using statuses_afterD [OF demo_lists(4)] by auto
  obtain w2 where w2: "world_after 2 demo_todo_worker ''db'' (demo_todo_world True) = Some w2"
    "map td_status (ts_todos (tw_dbs w2 ''db'')) = [''failed'', ''pending'']"
    using statuses_afterD [OF demo_lists(5)] by auto
  have idle: "q_items (rt_queue (ws_rt idle_ws)) = []" "\<not> ws_degraded idle_ws"
    by (simp_all add: idle_ws_def)
  have run: "(\<exists>fuel v ws'. demo_run fuel two = Some (Inr v, ws')) \<longleftrightarrow> \<not> has_work_remaining (tw_dbs w' ''db'')"
    if "world_after (store_work (demo_list two)) demo_todo_worker ''db'' (demo_todo_world two) = Some w'"
    for two w'
    unfolding demo_run_def
  proof (rule todo_run_ends_iff [OF demo_leaves _ _ _ idle])
    show "todos_ok (tw_dbs (demo_todo_world two) ''db'')" by (simp only: dbs demo_lists(1))
    show "world_after (store_work (tw_dbs (demo_todo_world two) ''db'')) demo_todo_worker ''db''
        (demo_todo_world two) = Some w'" unfolding dbs by (rule that)
  qed simp
  have "(\<exists>fuel v ws'. demo_run fuel False = Some (Inr v, ws')) \<longleftrightarrow>
      \<not> has_work_remaining (tw_dbs w1 ''db'')"
    by (rule run) (simp only: demo_lists w1)
  moreover have "(\<exists>fuel v ws'. demo_run fuel True = Some (Inr v, ws')) \<longleftrightarrow>
      \<not> has_work_remaining (tw_dbs w2 ''db'')"
    by (rule run) (simp only: demo_lists w2)
  ultimately show ?thesis unfolding has_work_statuses w1 w2 by simp
qed

subsection \<open>What a goal costs, and what a task says\<close>

text \<open>A goal whose adviser never reports completion.\<close>

definition never_complete :: "('a todo_world_scheme) todo_worker \<Rightarrow> bool" where
  "never_complete wk \<longleftrightarrow> (\<forall>ctx w. \<exists>progress adviser w'.
     run_subgoal_iteration wk ctx w = Some (Inr (progress, adviser), w') \<and>
     \<not> parse_complete_signal adviser)"

lemma goal_loop_exhausted:
  assumes "leaves_lists wk" "never_complete wk"
  shows "find_row (tw_dbs w p) (td_id g) = Some q \<Longrightarrow> todos_ok (tw_dbs w p) \<Longrightarrow>
    \<exists>msg w' r'. goal_loop n k wk g p parts w = Some (Inl (StepFailed msg), w') \<and>
      find_row (tw_dbs w' p) (td_id g) = Some r' \<and> todos_ok (tw_dbs w' p) \<and>
      td_retries_remaining r' = max 0 (td_retries_remaining q - 1)"
proof (induction n arbitrary: k parts w q)
  case 0
  then show ?case
    using mark_failed_work(3,4) [OF 0(2,1), of "goal_exhausted wk g parts" w] by (auto simp: Let_def)
next
  case (Suc n)
  obtain progress adviser w1 where it: "run_subgoal_iteration wk (goal_context g parts p w) w =
      Some (Inr (progress, adviser), w1)" and no: "\<not> parse_complete_signal adviser"
    using assms(2) unfolding never_complete_def by blast
  have w1: "tw_dbs w1 = tw_dbs w" using iteration_leaves [OF it assms(1)] .
  define w2 where "w2 = (if progress = [] then w1 else on_db p (append_progress (td_id g) progress) w1)"
  have "todos_ok (tw_dbs w2 p)"
    using Suc.prems(2) by (simp add: w2_def w1 append_progress_work(2))
  moreover obtain q2 where "find_row (tw_dbs w2 p) (td_id g) = Some q2"
      "td_retries_remaining q2 = td_retries_remaining q"
    using append_progress_work(3) [OF Suc.prems(1), of "td_id g" progress w1] Suc.prems(1)
    by (cases "progress = []") (auto simp: w2_def w1)
  ultimately show ?case
    using Suc.IH [of w2 q2 "k + 1" "if progress = [] then parts else parts @ [progress]"] no
    by (simp add: it Let_def w2_def)
qed

text \<open>C35: a goal that runs out of iterations costs two attempts, not one: the inner loop marks the
  item failed and raises, and the handler marks it failed again.  A goal with the default three
  attempts is worked on twice.\<close>

theorem exhausted_goal_costs_two:
  assumes "leaves_lists wk" "never_complete wk" "todos_ok (tw_dbs w p)"
    and item: "get_next_pending (tw_dbs w p) = Some g" "td_type g = ''goal''"
  shows "\<exists>out w' r'. process_item wk p w = Some (out, w') \<and>
    find_row (tw_dbs w' p) (td_id g) = Some r' \<and>
    td_retries_remaining r' = max 0 (td_retries_remaining g - 2) \<and>
    td_status r' = (if td_retries_remaining g > 2 then ''pending'' else ''failed'')"
proof -
  obtain q where q: "find_row (tw_dbs w p) (td_id g) = Some q"
      "td_status q \<in> {''pending'', ''in_progress''}" "g = row_to_item (tw_dbs w p) q"
    using next_pending_row [OF assms(3) item(1)] by blast
  have g: "td_retries_remaining g = td_retries_remaining q"
    by (simp add: q(3) row_to_item_def todo_row.defs)
  define w1 where "w1 = on_db p (mark_in_progress (td_id g)) w"
  obtain q1 where q1: "find_row (tw_dbs w1 p) (td_id g) = Some q1"
      "td_retries_remaining q1 = td_retries_remaining q"
    using mark_in_progress_row(3) [OF q(1,2)] by (auto simp: w1_def)
  have "todos_ok (tw_dbs w1 p)"
    using mark_in_progress_row(2) [of "td_id g" "tw_dbs w p" w] assms(3) by (simp add: w1_def)
  from goal_loop_exhausted [OF assms(1,2) q1(1) this,
      of "nat (tk_max_iterations wk)" 1 "[''Goal: '' @ td_title g @ nl]"]
  obtain msg w2 q2 where w2: "work_on wk g p w = Some (Inl (StepFailed msg), w2)"
      "find_row (tw_dbs w2 p) (td_id g) = Some q2" "todos_ok (tw_dbs w2 p)"
      "td_retries_remaining q2 = max 0 (td_retries_remaining q - 1)"
    using item(2) q1(2) by (auto simp: work_on_def run_goal_inner_loop_def w1_def)
  have "process_item wk p w = Some (todo_answer (has_work_remaining
      (tw_dbs (snd (db_mark_failed p (td_id g) msg w2)) p)) (Some g) (''FAILED: '' @ msg) (JStr p),
      snd (db_mark_failed p (td_id g) msg w2))"
    by (simp add: process_item_def item w2 Let_def)
  moreover obtain r' where "find_row (tw_dbs (snd (db_mark_failed p (td_id g) msg w2)) p) (td_id g) = Some r'"
      "td_retries_remaining r' = max 0 (td_retries_remaining q2 - 1)"
      "td_status r' = (if td_retries_remaining q2 - 1 > 0 then ''pending'' else ''failed'')"
    using mark_failed_work(4) [OF w2(3,2), of msg w2] by auto
  ultimately show ?thesis by (auto simp: g w2(4))
qed

definition demo_goal_worker :: "todo_world todo_worker" where
  "demo_goal_worker = demo_todo_worker
     \<lparr>tk_engine :=
        \<lparr>en_registry = map (\<lambda>i. (i, demo_definition [(''act'', demo_step ''act'' ''tool_execute'' [])] ''act''))
           [SUBGOAL_EXECUTE_LOOP, TODO_EXECUTE_ITEM] @
           [(''outer'', demo_definition [(''call'', (demo_step ''call'' ''sub_workflow'' [])
              \<lparr>ws_config := [(''workflow_id'', JStr TODO_EXECUTE_ITEM)]\<rparr>)] ''call'')],
         en_pattern_registry = None, en_council_registry = None\<rparr>,
      tk_inline_tool := (\<lambda>c w. (Inr (Some JNull), w)), tk_max_iterations := 2\<rparr>"

definition demo_goal_world :: todo_world where
  "demo_goal_world = wf_env.extend demo_env
     \<lparr>tw_dbs = (\<lambda>_. \<lparr>ts_todos = [demo_todo ''g'' ''goal'' ''pending'' 3], ts_deps = []\<rparr>),
      tw_file = (\<lambda>p. p)\<rparr>"

text \<open>Its iterations: one step, whose tool answers None, and the end.\<close>

lemma demo_goal_turns:
  assumes "wx_workflow_id s \<in> {SUBGOAL_EXECUTE_LOOP, TODO_EXECUTE_ITEM}" "wx_status s = WF_RUNNING"
  shows "wx_current_step_id s = Some ''act'' \<Longrightarrow> todo_turn demo_goal_worker label s w =
      (Go (fst (resume_with_result w (s\<lparr>wx_current_step_id := None\<rparr>) ''act'' JNull)), w)"
    and "wx_current_step_id s = None \<Longrightarrow> todo_turn demo_goal_worker label s w =
      (Stop (Inr (wf_complete s)), w)"
proof -
  show "wx_current_step_id s = Some ''act'' \<Longrightarrow> todo_turn demo_goal_worker label s w =
      (Go (fst (resume_with_result w (s\<lparr>wx_current_step_id := None\<rparr>) ''act'' JNull)), w)"
    using assms by (auto simp: todo_turn_def wf_step_def wf_terminal_def registry_get_def demo_goal_worker_def
        demo_todo_worker_def demo_step_def demo_definition_def STEP_HANDLERS_def dict_get_def dict_get_or_def
        handle_tool_execute_def advance_def advance_on_def new_outcome_def dispatch_tool_execute_def)
  show "wx_current_step_id s = None \<Longrightarrow> todo_turn demo_goal_worker label s w =
      (Stop (Inr (wf_complete s)), w)"
    using assms by (simp add: todo_turn_def wf_step_def wf_terminal_def wf_complete_def new_outcome_def)
qed

lemma demo_goal_run:
  assumes "i \<in> {SUBGOAL_EXECUTE_LOOP, TODO_EXECUTE_ITEM}"
  shows "\<exists>s w1 s1. start_workflow (tk_engine demo_goal_worker) i (Some ctx) w = (Inr s, w1) \<and>
    todo_loop demo_goal_worker i s w1 = Some (Inr (wf_complete s1), w1) \<and>
    wx_step_results s1 = [(''act'', JNull)]"
proof -
  have "registry_get (en_registry (tk_engine demo_goal_worker)) i =
      Some (demo_definition [(''act'', demo_step ''act'' ''tool_execute'' [])] ''act'')"
    using assms by (auto simp: registry_get_def demo_goal_worker_def dict_get_def)
  then obtain s w1 where start: "start_workflow (tk_engine demo_goal_worker) i (Some ctx) w = (Inr s, w1)"
    and s: "wx_workflow_id s = i" "wx_status s = WF_RUNNING" "wx_current_step_id s = Some ''act''"
      "wx_step_results s = []"
    by (simp add: start_workflow_def new_uuid_def demo_definition_def)
  define s1 where "s1 = fst (resume_with_result w1 (s\<lparr>wx_current_step_id := None\<rparr>) ''act'' JNull)"
  have s1: "wx_workflow_id s1 = i" "wx_status s1 = WF_RUNNING"
      "wx_current_step_id s1 = None" "wx_step_results s1 = [(''act'', JNull)]"
    using s by (simp_all add: s1_def resume_with_result_def dict_set_def)
  have "todo_loop demo_goal_worker i s w1 = Some (Inr (wf_complete s1), w1)"
    using demo_goal_turns [of s] demo_goal_turns [of s1] s s1 assms by (simp add: todo_loop.simps s1_def)
  with start s1(4) show ?thesis by blast
qed

lemma demo_never: "never_complete demo_goal_worker"
  unfolding never_complete_def
proof (intro allI)
  fix ctx and w :: todo_world
  obtain s w1 s1 where "start_workflow (tk_engine demo_goal_worker) SUBGOAL_EXECUTE_LOOP (Some ctx) w = (Inr s, w1)"
      "todo_loop demo_goal_worker SUBGOAL_EXECUTE_LOOP s w1 = Some (Inr (wf_complete s1), w1)"
      "wx_step_results s1 = [(''act'', JNull)]"
    using demo_goal_run [of SUBGOAL_EXECUTE_LOOP ctx w] by auto
  then have "run_subgoal_iteration demo_goal_worker ctx w = Some (Inr ([], []), w1)"
    by (simp add: run_subgoal_iteration_def wf_complete_def dict_get_or_def dict_get_def py_str_def)
  then show "\<exists>progress adviser w'. run_subgoal_iteration demo_goal_worker ctx w =
      Some (Inr (progress, adviser), w') \<and> \<not> parse_complete_signal adviser"
    by (simp add: parse_complete_signal_def py_lower_def)
qed

theorem exhausted_goal_costs_two_witness:
  "\<exists>out w' r'. process_item demo_goal_worker ''db'' demo_goal_world = Some (out, w') \<and>
    find_row (tw_dbs w' ''db'') ''g'' = Some r' \<and>
    td_retries_remaining r' = 1 \<and> td_status r' = ''pending''"
proof -
  have db: "tw_dbs demo_goal_world p = \<lparr>ts_todos = [demo_todo ''g'' ''goal'' ''pending'' 3], ts_deps = []\<rparr>"
    for p by (simp add: demo_goal_world_def wf_env.defs)
  define g where "g = row_to_item (tw_dbs demo_goal_world ''db'') (demo_todo ''g'' ''goal'' ''pending'' 3)"
  have item: "get_next_pending (tw_dbs demo_goal_world ''db'') = Some g" unfolding g_def db by code_simp
  have g: "td_id g = ''g''" "td_type g = ''goal''" "td_retries_remaining g = 3"
    by (simp_all add: g_def row_to_item_def todo_row.defs demo_todo_def)
  have "leaves_lists demo_goal_worker"
    by (simp add: leaves_lists_def demo_goal_worker_def demo_todo_worker_def)
  moreover have "todos_ok (tw_dbs demo_goal_world ''db'')" by (simp add: db todos_ok_def)
  ultimately show ?thesis
    using exhausted_goal_costs_two [OF _ demo_never _ item g(2)] by (simp add: g)
qed

text \<open>The steps of the registered workflows have an id.\<close>

definition step_ids_ok :: "workflow_engine \<Rightarrow> bool" where
  "step_ids_ok en \<longleftrightarrow>
     (\<forall>(_, d) \<in> set (en_registry en). \<forall>(_, step) \<in> set (wd_steps d). ws_step_id step \<noteq> [])"

lemma wf_step_results:
  assumes "wf_step e en s = Inr (s', out)" "step_ids_ok en"
  shows "wx_step_results s' = wx_step_results s"
    and "so_type out = OUT_COMPLETED \<Longrightarrow> so_step_id out = []"
    and "so_type out \<in> {OUT_LLM_CALL, OUT_TOOL_EXECUTE, OUT_SUB_WORKFLOW} \<Longrightarrow> so_step_id out \<noteq> []"
proof -
  have ids: "registry_get (en_registry en) i = Some d \<Longrightarrow> dict_get (wd_steps d) j = Some step \<Longrightarrow>
      ws_step_id step \<noteq> []" for i d j step
    using assms(2) by (fastforce simp: step_ids_ok_def registry_get_def dest!: dict_get_SomeD)
  note defs = wf_step_def STEP_HANDLERS_def dict_get_def handle_llm_call_def handle_tool_execute_def
    handle_sub_workflow_def handle_apply_pattern_def handle_user_input_def handle_condition_def
    handle_council_deliberate_def advance_def advance_on_def wf_fail_def wf_complete_def
    new_outcome_def Let_def
  show "wx_step_results s' = wx_step_results s"
    using assms(1) by (auto simp: defs split: if_splits option.splits sum.splits)
  show "so_type out = OUT_COMPLETED \<Longrightarrow> so_step_id out = []"
    using assms(1) by (auto simp: defs split: if_splits option.splits sum.splits)
  show "so_type out \<in> {OUT_LLM_CALL, OUT_TOOL_EXECUTE, OUT_SUB_WORKFLOW} \<Longrightarrow> so_step_id out \<noteq> []"
    using assms(1) ids by (auto simp: defs split: if_splits option.splits sum.splits)
qed

text \<open>No result is recorded under the empty id.\<close>

definition no_blank :: "workflow_execution_state \<Rightarrow> bool" where
  "no_blank s \<longleftrightarrow> dict_get (wx_step_results s) [] = None"

lemma resume_no_blank:
  assumes "i \<noteq> []"
  shows "no_blank (fst (fail_step en s i err)) = no_blank s"
    and "no_blank (fst (resume_with_result e s i v)) = no_blank s"
  using assms by (auto simp: no_blank_def resume_with_result_def fail_step_def follow_failure_def
      wf_fail_def Let_def split: option.splits)

lemma todo_turn_no_blank:
  assumes "step_ids_ok (tk_engine wk)" "no_blank s"
  shows "todo_turn wk label s w = (Stop (Inr (s', out)), w') \<Longrightarrow> no_blank s' \<and> so_step_id out = []"
    and "todo_turn wk label s w = (Go s', w') \<Longrightarrow> no_blank s'"
    and "todo_turn wk label s w = (Call s' out child, w') \<Longrightarrow>
      no_blank s' \<and> so_step_id out \<noteq> [] \<and> no_blank child"
proof -
  note step = wf_step_results [OF _ assms(1)]
  have blank: "wf_step w (tk_engine wk) s = Inr (s'', o') \<Longrightarrow> no_blank s''" for s'' o'
    using step(1) [of w s s'' o'] assms(2) by (simp add: no_blank_def)
  have id: "wf_step w (tk_engine wk) s = Inr (s'', o') \<Longrightarrow>
      so_type o' \<in> {OUT_LLM_CALL, OUT_TOOL_EXECUTE, OUT_SUB_WORKFLOW} \<Longrightarrow> so_step_id o' \<noteq> []" for s'' o'
    using step(3) [of w s s'' o'] by blast
  show "todo_turn wk label s w = (Stop (Inr (s', out)), w') \<Longrightarrow> no_blank s' \<and> so_step_id out = []"
    using blank step(2)
    by (auto simp: todo_turn_def split: sum.splits prod.splits outcome_type.splits option.splits)
  show "todo_turn wk label s w = (Go s', w') \<Longrightarrow> no_blank s'"
    using blank id
    by (auto simp: todo_turn_def dispatch_llm_call_def dispatch_tool_execute_def Let_def resume_no_blank
        split: sum.splits prod.splits outcome_type.splits option.splits)
  have start: "start_workflow en i ctx w = (Inr c, w') \<Longrightarrow> no_blank c" for en i ctx c
    by (auto simp: start_workflow_def no_blank_def dict_get_def Let_def split: option.splits prod.splits)
  show "todo_turn wk label s w = (Call s' out child, w') \<Longrightarrow>
      no_blank s' \<and> so_step_id out \<noteq> [] \<and> no_blank child"
    using blank id start
    by (auto simp: todo_turn_def start_child_def
        split: sum.splits prod.splits outcome_type.splits option.splits json.splits)
qed

lemma todo_loop_no_blank:
  assumes "todo_loop wk label s w = Some r" "step_ids_ok (tk_engine wk)" "no_blank s"
  shows "\<forall>s' out w'. r = (Inr (s', out), w') \<longrightarrow> no_blank s' \<and> so_step_id out = []"
  using assms
proof (induction rule: todo_loop_induct)
  case (stop label s w r w')
  with todo_turn_no_blank(1) [OF stop(2,3)] show ?case by auto
next
  case (go label s w s' w' y)
  with todo_turn_no_blank(2) [OF go(3,4) go(1)] show ?case by blast
next
  case (call label s w s' out child w' r w'' s'' y)
  note turn = todo_turn_no_blank(3) [OF call(5,6) call(1)]
  have "no_blank s''"
    using call(2) turn by (auto simp: after_child_def resume_no_blank split: sum.splits step_exn.splits)
  with call(4,5) show ?case by blast
qed simp

text \<open>The text of a run that completed: its first failed step result, or \<open>Done.\<close>.\<close>

lemma completed_text:
  assumes "todo_loop wk label s w = Some (Inr (s', out), w')" "step_ids_ok (tk_engine wk)" "no_blank s"
  shows "item_text e s' out =
    (case failed_result e (wx_step_results s') of
       Some err \<Rightarrow> Inl (StepFailed err) | None \<Rightarrow> Inr ''Done.'')"
proof -
  have "no_blank s'" "so_step_id out = []" using todo_loop_no_blank [OF assms] by auto
  then show ?thesis
    by (simp add: item_text_def no_blank_def dict_get_or_def py_str_def split: option.split)
qed

lemma start_no_blank: "start_workflow en i ctx w = (Inr s, w1) \<Longrightarrow> no_blank s"
  by (auto simp: start_workflow_def no_blank_def dict_get_def Let_def
      split: option.splits prod.splits)

lemma child_no_blank: "todo_turn wk label s w = (Call s' out child, w') \<Longrightarrow> no_blank child"
  by (auto simp: todo_turn_def start_child_def dest: start_no_blank
      split: sum.splits prod.splits outcome_type.splits option.splits json.splits)

text \<open>C36: what a finished task reports is always \<open>Done.\<close>, whatever its steps answered: the
  outcome of a completed workflow carries no step id, and the text is looked up under it.  The same
  word is what the parent of a sub-workflow gets as the result of its step: when the child completes
  without a failed step result, the parent goes on with \<open>Done.\<close> stored under the step that called the
  child.  (No step has an empty id.)\<close>

theorem task_text_is_Done:
  assumes ids: "step_ids_ok (tk_engine wk)"
  shows "(run_item_workflow wk item p w = Some (Inr t, w') \<longrightarrow> t = ''Done.'') \<and>
    (\<forall>label s w1 s' out child w2 c out' w3.
       todo_turn wk label s w1 = (Call s' out child, w2) \<and>
       todo_loop wk TODO_EXECUTE_ITEM child w2 = Some (Inr (c, out'), w3) \<and>
       failed_result w3 (wx_step_results c) = None \<longrightarrow>
       (\<exists>parent. after_child wk s' out (Inr (c, out')) w3 = Inr parent \<and>
          parent = fst (resume_with_result w3 s' (so_step_id out) (JStr ''Done.'')) \<and>
          dict_get (wx_step_results parent) (so_step_id out) = Some (JStr ''Done.'') \<and>
          todo_loop wk label s w1 = todo_loop wk label parent w3))"
proof (intro conjI allI impI)
  assume "run_item_workflow wk item p w = Some (Inr t, w')"
  then obtain s w1 where start: "start_workflow (tk_engine wk) TODO_EXECUTE_ITEM (Some (task_context item p w)) w
      = (Inr s, w1)" and run: "run_workflow_to_completion wk s w1 = Some (Inr t, w')"
    by (auto simp: run_item_workflow_def split: sum.splits prod.splits)
  from run obtain r where "todo_loop wk TODO_EXECUTE_ITEM s w1 = Some (r, w')"
    "(case r of Inl x \<Rightarrow> Inl x | Inr (s, out) \<Rightarrow> item_text w' s out) = Inr t"
    by (auto simp: run_workflow_to_completion_def)
  then obtain s' out where loop: "todo_loop wk TODO_EXECUTE_ITEM s w1 = Some (Inr (s', out), w')"
    and "item_text w' s' out = Inr t" by (cases r) auto
  with completed_text [OF loop ids start_no_blank [OF start], of w'] show "t = ''Done.''"
    by (simp split: option.splits)
next
  fix label s w1 s' out child w2 c out' w3
  assume "todo_turn wk label s w1 = (Call s' out child, w2) \<and>
    todo_loop wk TODO_EXECUTE_ITEM child w2 = Some (Inr (c, out'), w3) \<and>
    failed_result w3 (wx_step_results c) = None"
  then have call: "todo_turn wk label s w1 = (Call s' out child, w2)"
    and run: "todo_loop wk TODO_EXECUTE_ITEM child w2 = Some (Inr (c, out'), w3)"
    and fine: "failed_result w3 (wx_step_results c) = None" by blast+
  define parent where "parent = fst (resume_with_result w3 s' (so_step_id out) (JStr ''Done.''))"
  have "item_text w3 c out' = Inr ''Done.''"
    using completed_text [OF run ids child_no_blank [OF call], of w3] fine by simp
  then have after: "after_child wk s' out (Inr (c, out')) w3 = Inr parent"
    by (simp add: after_child_def parent_def)
  moreover have "todo_loop wk label s w1 = todo_loop wk label parent w3"
    by (subst todo_loop.simps) (simp add: call run after)
  moreover have "dict_get (wx_step_results parent) (so_step_id out) = Some (JStr ''Done.'')"
    by (simp add: parent_def resume_with_result_def)
  ultimately show "\<exists>parent. after_child wk s' out (Inr (c, out')) w3 = Inr parent \<and>
      parent = fst (resume_with_result w3 s' (so_step_id out) (JStr ''Done.'')) \<and>
      dict_get (wx_step_results parent) (so_step_id out) = Some (JStr ''Done.'') \<and>
      todo_loop wk label s w1 = todo_loop wk label parent w3"
    by (simp add: parent_def)
qed

lemma demo_item_runs:
  "\<exists>t w'. run_item_workflow demo_goal_worker item p w = Some (Inr t, w')"
  using demo_goal_run [of TODO_EXECUTE_ITEM "task_context item p w" w]
  by (auto simp: run_item_workflow_def run_workflow_to_completion_def item_text_def wf_complete_def)

text \<open>A workflow that calls the one above, and what its caller is left with.\<close>

lemma demo_call_turn:
  assumes "wx_workflow_id s = ''outer''" "wx_status s = WF_RUNNING"
    "wx_current_step_id s = Some ''call''"
  shows "\<exists>s' out child w2 c out' w3.
    todo_turn demo_goal_worker label s w = (Call s' out child, w2) \<and> so_step_id out = ''call'' \<and>
    todo_loop demo_goal_worker TODO_EXECUTE_ITEM child w2 = Some (Inr (c, out'), w3) \<and>
    wx_step_results c = [(''act'', JNull)]"
proof -
  have wf: "SUBGOAL_EXECUTE_LOOP \<noteq> ''outer''" "TODO_EXECUTE_ITEM \<noteq> ''outer''"
    "SUBGOAL_EXECUTE_LOOP \<noteq> TODO_EXECUTE_ITEM"
    by (simp_all add: SUBGOAL_EXECUTE_LOOP_def TODO_EXECUTE_ITEM_def)
  obtain child w1 s1 where start: "start_workflow (tk_engine demo_goal_worker) TODO_EXECUTE_ITEM
      (Some (render_context_templates w [] (wx_context s) (wx_step_results s))) w = (Inr child, w1)"
    and loop: "todo_loop demo_goal_worker TODO_EXECUTE_ITEM child w1 = Some (Inr (wf_complete s1), w1)"
    and res: "wx_step_results s1 = [(''act'', JNull)]"
    using demo_goal_run [of TODO_EXECUTE_ITEM] by blast
  have "\<exists>s' out. todo_turn demo_goal_worker label s w = (Call s' out child, w1) \<and> so_step_id out = ''call''"
    using assms start wf
    by (simp add: todo_turn_def wf_step_def wf_terminal_def registry_get_def demo_goal_worker_def
        demo_todo_worker_def demo_step_def demo_definition_def STEP_HANDLERS_def dict_get_def dict_get_or_def
        handle_sub_workflow_def advance_def advance_on_def new_outcome_def start_child_def get_by_value_def
        Let_def)
  with loop res show ?thesis by (fastforce simp: wf_complete_def)
qed

theorem task_text_is_Done_witness:
  "(\<exists>w'. run_item_workflow demo_goal_worker
    (row_to_item demo_stuck (demo_todo ''a'' ''task'' ''pending'' 3)) ''db'' demo_goal_world =
    Some (Inr ''Done.'', w')) \<and>
   (\<exists>s w1 parent w3.
      start_workflow (tk_engine demo_goal_worker) ''outer'' (Some []) demo_goal_world = (Inr s, w1) \<and>
      dict_get (wx_step_results parent) ''call'' = Some (JStr ''Done.'') \<and>
      todo_loop demo_goal_worker ''outer'' s w1 = todo_loop demo_goal_worker ''outer'' parent w3)"
proof -
  have ok: "step_ids_ok (tk_engine demo_goal_worker)"
    by (simp add: step_ids_ok_def demo_goal_worker_def demo_definition_def demo_step_def)
  have "registry_get (en_registry (tk_engine demo_goal_worker)) ''outer'' =
      Some (demo_definition [(''call'', (demo_step ''call'' ''sub_workflow'' [])
              \<lparr>ws_config := [(''workflow_id'', JStr TODO_EXECUTE_ITEM)]\<rparr>)] ''call'')"
    by (simp add: registry_get_def demo_goal_worker_def dict_get_def SUBGOAL_EXECUTE_LOOP_def
        TODO_EXECUTE_ITEM_def)
  then obtain s w1 where start: "start_workflow (tk_engine demo_goal_worker) ''outer'' (Some [])
      demo_goal_world = (Inr s, w1)"
    and s: "wx_workflow_id s = ''outer''" "wx_status s = WF_RUNNING"
      "wx_current_step_id s = Some ''call''"
    by (simp add: start_workflow_def new_uuid_def demo_definition_def)
  obtain s' out child w2 c out' w3 where turn:
    "todo_turn demo_goal_worker ''outer'' s w1 = (Call s' out child, w2)" "so_step_id out = ''call''"
    "todo_loop demo_goal_worker TODO_EXECUTE_ITEM child w2 = Some (Inr (c, out'), w3)"
    "wx_step_results c = [(''act'', JNull)]"
    using demo_call_turn [OF s] by blast
  have "failed_result w3 (wx_step_results c) = None" by (simp add: turn)
  with task_text_is_Done [OF ok] turn(1,3) obtain parent where
    "dict_get (wx_step_results parent) (so_step_id out) = Some (JStr ''Done.'')"
    "todo_loop demo_goal_worker ''outer'' s w1 = todo_loop demo_goal_worker ''outer'' parent w3"
    by blast
  with start turn(2) show ?thesis
    using task_text_is_Done [OF ok] demo_item_runs by (intro conjI) (metis, auto)
qed

end
