(* ===== verification/Security.thy ===== *)
theory Security
  imports Prelude
begin

text \<open>
  The checks at the boundary of the daemon, \<^verbatim>\<open>platform/security/hardening.py\<close>: the static token, the
  rate limiter, the validation of payloads against a schema, and the time-bounded execution.  The
  limiter's lock makes each check one step; the clock is the environment's.
\<close>

subsection \<open>Results\<close>

record security_result =
  se_ok :: bool
  se_error :: "string option"
  se_details :: "json pydict"

definition passed :: security_result where
  "passed = \<lparr>se_ok = True, se_error = None, se_details = []\<rparr>"

definition refused :: "string \<Rightarrow> json pydict \<Rightarrow> security_result" where
  "refused err details = \<lparr>se_ok = False, se_error = Some err, se_details = details\<rparr>"

subsection \<open>Authentication\<close>

text \<open>\<open>s.replace(w, '')\<close> for a word that is not empty.\<close>

fun remove_word :: "string \<Rightarrow> string \<Rightarrow> string" where
  "remove_word w [] = []"
| "remove_word w (c # cs) =
     (if w \<noteq> [] \<and> starts_with w (c # cs) then remove_word w (drop (length w - 1) cs)
      else c # remove_word w cs)"

definition bearer_token :: "json \<Rightarrow> string result" where
  "bearer_token headers =
     (case json_get headers ''authorization'' (JStr []) of
        Inl x \<Rightarrow> Inl x
      | Inr v \<Rightarrow> str_method ''replace''
          (\<lambda>s. py_strip (remove_word ''bearer '' (remove_word ''Bearer '' s))) v)"

definition plain_token :: "json \<Rightarrow> string \<Rightarrow> string result" where
  "plain_token source key =
     (case json_get source key (JStr []) of
        Inl x \<Rightarrow> Inl x
      | Inr v \<Rightarrow> str_method ''strip'' py_strip v)"

text \<open>The sources of the token, in the order of precedence.\<close>

definition auth_tokens :: "json pydict \<Rightarrow> string result list" where
  "auth_tokens request =
     (let headers = dict_get_or request ''headers'' (JObj [])
      in [bearer_token headers, plain_token headers ''x-auth-token'',
          plain_token (dict_get_or request ''params'' (JObj [])) ''token'',
          plain_token (dict_get_or request ''body'' (JObj [])) ''token''])"

fun first_token :: "string result list \<Rightarrow> string result" where
  "first_token [] = Inr []"
| "first_token (r # rs) =
     (case r of
        Inl x \<Rightarrow> Inl x
      | Inr t \<Rightarrow> if t \<noteq> [] then Inr t else first_token rs)"

definition check_auth :: "json pydict \<Rightarrow> bool \<Rightarrow> string \<Rightarrow> security_result result" where
  "check_auth request enabled token =
     (if \<not> enabled then Inr passed
      else (case first_token (auth_tokens request) of
          Inl x \<Rightarrow> Inl x
        | Inr provided \<Rightarrow>
            Inr (if provided = [] then
                   refused ''Authentication required'' [(''reason'', JStr ''missing_token'')]
                 else if provided \<noteq> token then
                   refused ''Invalid authentication token'' [(''reason'', JStr ''invalid_token'')]
                 else passed)))"

subsection \<open>Rate limiting\<close>

record rate_limiter =
  rl_max :: int
  rl_windows :: "rat list pydict"

definition new_rate_limiter :: "int \<Rightarrow> rate_limiter" where
  "new_rate_limiter max_requests_per_minute =
     \<lparr>rl_max = max 1 max_requests_per_minute, rl_windows = []\<rparr>"

text \<open>\<open>round(x, 1)\<close>, half to even.\<close>

definition round1 :: "rat \<Rightarrow> rat" where
  "round1 x =
     (let y = 10 * x; f = floor y; d = y - of_int f
      in of_int (if d < 1 / 2 \<or> d = 1 / 2 \<and> even f then f else f + 1) / 10)"

definition retry_after :: "rat \<Rightarrow> rat \<Rightarrow> rat" where
  "retry_after now oldest = max 1 (60 - (now - oldest))"

definition limiter_check ::
  "rate_limiter \<Rightarrow> string \<Rightarrow> 'a env_scheme \<Rightarrow> security_result \<times> rate_limiter \<times> 'a env_scheme"
where
  "limiter_check l client e =
     (let (now, e) = time_now e;
          timestamps = filter (\<lambda>t. t > now - 60) (dict_get_or (rl_windows l) client [])
      in if int (length timestamps) \<ge> rl_max l then
           (refused ''Rate limit exceeded''
              [(''reason'', JStr ''rate_limited''),
               (''retry_after'', JNum (round1 (retry_after now (hd timestamps)))),
               (''limit'', JInt (rl_max l)), (''window_seconds'', JInt 60)], l, e)
         else
           (passed, l\<lparr>rl_windows := dict_set (rl_windows l) client (timestamps @ [now])\<rparr>, e))"

definition limiter_reset :: "rate_limiter \<Rightarrow> string option \<Rightarrow> rate_limiter" where
  "limiter_reset l client =
     (case client of
        None \<Rightarrow> l\<lparr>rl_windows := []\<rparr>
      | Some c \<Rightarrow> l\<lparr>rl_windows := dict_del (rl_windows l) c\<rparr>)"

definition check_rate_limit ::
  "rate_limiter \<Rightarrow> string \<Rightarrow> bool \<Rightarrow> 'a env_scheme
   \<Rightarrow> security_result \<times> rate_limiter \<times> 'a env_scheme"
where
  "check_rate_limit l client enabled e =
     (if \<not> enabled then (passed, l, e) else limiter_check l client e)"

subsection \<open>Validation\<close>

datatype ptype = PDict | PList | PStr | PInt | PBool | POther string

text \<open>A schema; the values of a value constraint are strings.\<close>

datatype schema =
  Schema (sc_type: "ptype option") (sc_fields: "(string \<times> schema) list option")
    (sc_valid_values: "string list option") (sc_items: "schema option") (sc_optional: bool)

fun check_type :: "json \<Rightarrow> ptype \<Rightarrow> bool" where
  "check_type v PDict = (json_type_name v = ''dict'')"
| "check_type v PList = (json_type_name v = ''list'')"
| "check_type v PStr = (json_type_name v = ''str'')"
| "check_type v PInt = (json_type_name v = ''int'')"
| "check_type v PBool = (json_type_name v = ''bool'')"
| "check_type v (POther _) = True"

fun type_name :: "ptype \<Rightarrow> string" where
  "type_name PDict = ''dict''"
| "type_name PList = ''list''"
| "type_name PStr = ''str''"
| "type_name PInt = ''int''"
| "type_name PBool = ''bool''"
| "type_name (POther s) = s"

definition is_valid_value :: "json \<Rightarrow> string list \<Rightarrow> bool" where
  "is_valid_value v vs \<longleftrightarrow> (case v of JStr s \<Rightarrow> s \<in> set vs | _ \<Rightarrow> False)"

text \<open>How a collection of valid values is printed (the order of a set) is a parameter.\<close>

fun validate_against_schema ::
  "'a env_scheme \<Rightarrow> (string list \<Rightarrow> string) \<Rightarrow> schema \<Rightarrow> json \<Rightarrow> string \<Rightarrow> string list"
where
  "validate_against_schema e show_values (Schema ty flds valid items opt) value path =
     (if \<exists>t. ty = Some t \<and> \<not> check_type value t then
        [path @ '': expected '' @ type_name (the ty) @ '', got '' @ json_type_name value]
      else if \<exists>vs. valid = Some vs \<and> \<not> is_valid_value value vs then
        [path @ '': invalid value '' @ py_repr e value @ '', must be one of '' @
         show_values (the valid)]
      else
        (case flds of
           None \<Rightarrow> []
         | Some fs \<Rightarrow>
             (case value of
                JObj kvs \<Rightarrow>
                  concat (map (\<lambda>f.
                    (case dict_get kvs (fst f) of
                       None \<Rightarrow>
                         if sc_optional (snd f) then []
                         else [path @ ''.'' @ fst f @ '': missing required field'']
                     | Some v \<Rightarrow>
                         validate_against_schema e show_values (snd f) v
                           (if path \<noteq> [] then path @ ''.'' @ fst f else fst f))) fs) @
                  map (\<lambda>kv. path @ '': unknown field '' @ quoted (fst kv))
                    (filter (\<lambda>kv. fst kv \<notin> set (map fst fs)) kvs)
              | _ \<Rightarrow> [])) @
        (case items of
           None \<Rightarrow> []
         | Some s \<Rightarrow>
             (case value of
                JList vs \<Rightarrow>
                  concat (map (\<lambda>(i, v). validate_against_schema e show_values s v
                    (path @ ''['' @ nat_digits i @ '']'')) (enumerate 0 vs))
              | _ \<Rightarrow> [])))"

definition MAX_PAYLOAD_SIZE :: nat where
  "MAX_PAYLOAD_SIZE = 1024 * 1024"

definition validation_failed :: "string list \<Rightarrow> security_result" where
  "validation_failed errors = refused ''Validation failed'' [(''errors'', JList (map JStr errors))]"

text \<open>\<open>dumps\<close> is the length of \<open>json.dumps\<close> of a value, or the text of its exception.\<close>

definition validate_input ::
  "'a env_scheme \<Rightarrow> (string list \<Rightarrow> string) \<Rightarrow> (json \<Rightarrow> string + nat) \<Rightarrow> schema option \<Rightarrow> nat \<Rightarrow> json
   \<Rightarrow> security_result"
where
  "validate_input e show_values dumps schema max_size payload =
     (if json_type_name payload \<noteq> ''dict'' then
        validation_failed [''Payload must be a mapping, got '' @ json_type_name payload]
      else
        (let errors = (case dumps payload of
               Inl msg \<Rightarrow> [''Payload is not JSON-serializable: '' @ msg]
             | Inr serialised \<Rightarrow>
                 if serialised > max_size then
                   [''Payload size '' @ nat_digits serialised @ '' bytes exceeds limit of '' @
                    nat_digits max_size @ '' bytes'']
                 else []);
             errors = (case schema of
               None \<Rightarrow> errors
             | Some s \<Rightarrow> if errors = [] then validate_against_schema e show_values s payload [] else errors)
         in if errors \<noteq> [] then validation_failed errors else passed))"

definition VALID_INSTRUCTION_TYPES :: "string list" where
  "VALID_INSTRUCTION_TYPES =
     [''execute'', ''query'', ''transform'', ''validate'', ''generate'', ''summarize'', ''route'']"

definition VALID_JOB_TYPES :: "string list" where
  "VALID_JOB_TYPES =
     [''process_message'', ''run_tool'', ''execute_workflow'', ''handle_event'', ''run_cycle'',
      ''health_check'']"

definition of_type :: "ptype \<Rightarrow> bool \<Rightarrow> schema" where
  "of_type t optional = Schema (Some t) None None None optional"

definition one_of :: "string list \<Rightarrow> schema" where
  "one_of vs = Schema (Some PStr) None (Some vs) None False"

definition job_schema :: schema where
  "job_schema = Schema (Some PDict)
     (Some [(''job_id'', of_type PStr False), (''job_type'', one_of VALID_JOB_TYPES),
        (''instructions'', of_type PList True), (''payload'', of_type PDict True),
        (''metadata'', of_type PDict True)]) None None False"

definition instruction_schema :: schema where
  "instruction_schema = Schema (Some PDict)
     (Some [(''type'', one_of VALID_INSTRUCTION_TYPES), (''params'', of_type PDict True),
        (''timeout_ms'', of_type PInt True)]) None None False"

definition validate_job_payload ::
  "'a env_scheme \<Rightarrow> (string list \<Rightarrow> string) \<Rightarrow> (json \<Rightarrow> string + nat) \<Rightarrow> json \<Rightarrow> security_result"
where
  "validate_job_payload e show_values dumps payload =
     validate_input e show_values dumps (Some job_schema) MAX_PAYLOAD_SIZE payload"

definition validate_instruction ::
  "'a env_scheme \<Rightarrow> (string list \<Rightarrow> string) \<Rightarrow> (json \<Rightarrow> string + nat) \<Rightarrow> json \<Rightarrow> security_result"
where
  "validate_instruction e show_values dumps instruction =
     validate_input e show_values dumps (Some instruction_schema) MAX_PAYLOAD_SIZE instruction"

subsection \<open>Time-bounded execution\<close>

text \<open>What the thread of a call does: it returns, raises, ends with an exception that is no
  \<open>Exception\<close> (\<open>sys.exit\<close>), or is still alive when the time is over.\<close>

datatype sandbox_run = Returns json | Raises pyexn | Exits | StillAlive

definition sandbox_execute :: "sandbox_run \<Rightarrow> int \<Rightarrow> security_result" where
  "sandbox_execute run timeout_ms =
     (case run of
        StillAlive \<Rightarrow>
          refused (''Execution timed out after '' @ int_str timeout_ms @ ''ms'')
            [(''reason'', JStr ''timeout''), (''timeout_ms'', JInt timeout_ms)]
      | Raises x \<Rightarrow>
          refused (''Sandbox execution failed: '' @ exn_message x)
            [(''reason'', JStr ''execution_error'')]
      | Returns v \<Rightarrow> passed\<lparr>se_details := [(''result'', v)]\<rparr>
      | Exits \<Rightarrow> passed\<lparr>se_details := [(''result'', JNull)]\<rparr>)"

subsection \<open>The limiter over a sequence of checks\<close>

text \<open>The checks of some clients, one after the other: client, time and answer of each.\<close>

fun limiter_run ::
  "string list \<Rightarrow> rate_limiter \<Rightarrow> 'a env_scheme \<Rightarrow> (string \<times> rat \<times> bool) list"
where
  "limiter_run [] l e = []"
| "limiter_run (c # cs) l e =
     (case limiter_check l c e of
        (r, l', e') \<Rightarrow> (c, fst (time_now e), se_ok r) # limiter_run cs l' e')"

text \<open>The times at which a client was let through.\<close>

definition accepted_at :: "string \<Rightarrow> (string \<times> rat \<times> bool) list \<Rightarrow> rat list" where
  "accepted_at c entries = map (\<lambda>(_, t, _). t) (filter (\<lambda>(c', _, ok). c' = c \<and> ok) entries)"

lemma accepted_at_simps [simp]:
  "accepted_at c [] = []"
  "accepted_at c (xs @ ys) = accepted_at c xs @ accepted_at c ys"
  "accepted_at c [(c', t, ok)] = (if c' = c \<and> ok then [t] else [])"
  by (simp_all add: accepted_at_def)

text \<open>The reference: a sliding window over everything that was let through.\<close>

definition sliding :: "int \<Rightarrow> (string \<times> rat \<times> bool) list \<Rightarrow> bool" where
  "sliding m entries \<longleftrightarrow> (\<forall>xs c t ok ys. entries = xs @ (c, t, ok) # ys \<longrightarrow>
     (ok \<longleftrightarrow> int (length (filter (\<lambda>s. s > t - 60) (accepted_at c xs))) < m))"

lemma sliding_snoc:
  "sliding m (entries @ [(c, t, ok)]) \<longleftrightarrow> sliding m entries \<and>
     (ok \<longleftrightarrow> int (length (filter (\<lambda>s. s > t - 60) (accepted_at c entries))) < m)"
proof -
  have "(\<forall>xs d s b ys. entries @ [(c, t, ok)] = xs @ (d, s, b) # ys \<longrightarrow> P xs d s b) \<longleftrightarrow>
      (\<forall>xs d s b ys. entries = xs @ (d, s, b) # ys \<longrightarrow> P xs d s b) \<and> P entries c t ok" for P
  proof (intro iffI conjI allI impI)
    fix xs d s b ys
    assume all: "\<forall>xs d s b ys. entries @ [(c, t, ok)] = xs @ (d, s, b) # ys \<longrightarrow> P xs d s b"
    show "P entries c t ok" using all by blast
    assume "entries = xs @ (d, s, b) # ys"
    then show "P xs d s b" using all by (metis append_Cons append_assoc)
  next
    fix xs d s b ys
    assume all: "(\<forall>xs d s b ys. entries = xs @ (d, s, b) # ys \<longrightarrow> P xs d s b) \<and> P entries c t ok"
      and entries: "entries @ [(c, t, ok)] = xs @ (d, s, b) # ys"
    show "P xs d s b"
    proof (cases ys rule: rev_cases)
      case Nil
      with all entries show ?thesis by simp
    next
      case (snoc zs z)
      with entries have "entries = xs @ (d, s, b) # zs" by simp
      with all show ?thesis by blast
    qed
  qed
  from this [of "\<lambda>xs d s b. b \<longleftrightarrow> int (length (filter (\<lambda>r. r > s - 60) (accepted_at d xs))) < m"]
  show ?thesis unfolding sliding_def .
qed

text \<open>The windows agree with the entries wherever a later check can look.\<close>

definition windows_ok :: "rate_limiter \<Rightarrow> (string \<times> rat \<times> bool) list \<Rightarrow> rat \<Rightarrow> bool" where
  "windows_ok l entries now \<longleftrightarrow> (\<forall>c t. now \<le> t \<longrightarrow>
     filter (\<lambda>s. s > t - 60) (dict_get_or (rl_windows l) c []) =
     filter (\<lambda>s. s > t - 60) (accepted_at c entries))"

lemma limiter_run_sliding:
  assumes "mono (e_clock e)" "sliding (rl_max l) entries" "windows_ok l entries (fst (time_now e))"
  shows "sliding (rl_max l) (entries @ limiter_run cs l e)"
  using assms
proof (induction cs arbitrary: l e entries)
  case (Cons c cs)
  let ?now = "fst (time_now e)"
  let ?stamps = "filter (\<lambda>t. t > ?now - 60) (dict_get_or (rl_windows l) c [])"
  obtain r l' e' where r: "limiter_check l c e = (r, l', e')" by (cases "limiter_check l c e")
  have e': "e' = snd (time_now e)" and max: "rl_max l' = rl_max l"
    and ok: "se_ok r \<longleftrightarrow> int (length ?stamps) < rl_max l"
    and l': "l' = (if se_ok r then l\<lparr>rl_windows := dict_set (rl_windows l) c (?stamps @ [?now])\<rparr> else l)"
    using r by (auto simp: limiter_check_def time_now_def Let_def refused_def passed_def split: if_splits)
  have later: "?now \<le> fst (time_now e')"
    using monoD [OF Cons.prems(1), of "e_tick e" "Suc (e_tick e)"]
    by (simp add: e' time_now_def divide_right_mono)
  have stamps: "?stamps = filter (\<lambda>t. t > ?now - 60) (accepted_at c entries)"
    using Cons.prems(3) by (simp add: windows_ok_def)
  have "sliding (rl_max l') (entries @ [(c, ?now, se_ok r)])"
    using Cons.prems(2) ok by (simp add: sliding_snoc max stamps)
  moreover have "windows_ok l' (entries @ [(c, ?now, se_ok r)]) (fst (time_now e'))"
    unfolding windows_ok_def
  proof (intro allI impI)
    fix d t assume "fst (time_now e') \<le> t"
    with later have t: "?now \<le> t" by simp
    have "filter (\<lambda>s. s > t - 60) ?stamps = filter (\<lambda>s. s > t - 60) (accepted_at c entries)"
      unfolding stamps filter_filter using t by (intro filter_cong) auto
    with Cons.prems(3) t show "filter (\<lambda>s. s > t - 60) (dict_get_or (rl_windows l') d []) =
        filter (\<lambda>s. s > t - 60) (accepted_at d (entries @ [(c, ?now, se_ok r)]))"
      by (auto simp: l' windows_ok_def dict_get_or_def dict_get_set simp del: filter_filter)
  qed
  moreover have "mono (e_clock e')" using Cons.prems(1) by (simp add: e' time_now_def)
  ultimately have "sliding (rl_max l') ((entries @ [(c, ?now, se_ok r)]) @ limiter_run cs l' e')"
    by (intro Cons.IH)
  then show ?case by (simp add: r max)
qed simp

lemma length_filter_weaken:
  "(\<And>x. x \<in> set xs \<Longrightarrow> P x \<Longrightarrow> Q x) \<Longrightarrow> length (filter P xs) \<le> length (filter Q xs)"
  by (induction xs) auto

lemma sliding_window:
  assumes "sliding m entries" "0 \<le> m"
  shows "int (length (filter (\<lambda>s. t - 60 < s \<and> s \<le> t) (accepted_at c entries))) \<le> m"
  using assms(1)
proof (induction entries rule: rev_induct)
  case Nil
  then show ?case using assms(2) by simp
next
  case (snoc x entries)
  obtain c' t' ok where x: "x = (c', t', ok)" by (cases x)
  have old: "sliding m entries" and ok: "ok \<longleftrightarrow> int (length (filter (\<lambda>s. s > t' - 60) (accepted_at c' entries))) < m"
    using snoc.prems by (simp_all add: x sliding_snoc)
  show ?case
  proof (cases "c' = c \<and> ok \<and> t - 60 < t' \<and> t' \<le> t")
    case False
    with snoc.IH [OF old] show ?thesis by (auto simp: x)
  next
    case True
    have "length (filter (\<lambda>s. t - 60 < s \<and> s \<le> t) (accepted_at c entries)) \<le>
        length (filter (\<lambda>s. s > t' - 60) (accepted_at c entries))"
      using True by (intro length_filter_weaken) auto
    with True ok show ?thesis by (auto simp: x)
  qed
qed

text \<open>C37: the rate limiter holds its limit in every window of sixty seconds, wherever the window
  begins: over any sequence of checks by any clients, with a clock that does not go back, no client is
  let through more often than the limit within sixty seconds; and a check is refused only when the
  client was let through that often in the sixty seconds before it.  (The documentation calls it a
  fixed window, which would allow twice the limit around a boundary.)\<close>

theorem rate_limit_holds:
  assumes "mono (e_clock e)" "entries = limiter_run cs (new_rate_limiter m) e"
  shows "int (length (filter (\<lambda>s. t - 60 < s \<and> s \<le> t) (accepted_at c entries))) \<le> max 1 m \<and>
    (\<forall>xs now ys. entries = xs @ (c, now, False) # ys \<longrightarrow>
      max 1 m \<le> int (length (filter (\<lambda>s. s > now - 60) (accepted_at c xs))))"
proof -
  have "sliding (rl_max (new_rate_limiter m)) ([] @ limiter_run cs (new_rate_limiter m) e)"
    using assms(1) by (rule limiter_run_sliding)
      (simp_all add: sliding_def windows_ok_def new_rate_limiter_def dict_get_or_def dict_get_def)
  then have sl: "sliding (max 1 m) entries" by (simp add: assms(2) new_rate_limiter_def)
  then have "int (length (filter (\<lambda>s. t - 60 < s \<and> s \<le> t) (accepted_at c entries))) \<le> max 1 m"
    by (rule sliding_window) simp
  with sl show ?thesis unfolding sliding_def by (metis not_le)
qed

definition demo_clock :: env where
  "demo_clock = sample_env\<lparr>e_clock := (\<lambda>n. 30000000 * int n)\<rparr>"

text \<open>One request every thirty seconds, of one client, with a limit of one in a minute.\<close>

theorem rate_limit_holds_witness:
  "limiter_run [''a'', ''a'', ''a''] (new_rate_limiter 1) demo_clock =
     [(''a'', 0, True), (''a'', 30, False), (''a'', 60, True)] \<and>
   length (filter (\<lambda>s. 0 < s \<and> s \<le> 60) (accepted_at ''a''
     (limiter_run [''a'', ''a'', ''a''] (new_rate_limiter 1) demo_clock))) \<le> 1"
proof -
  have run: "limiter_run [''a'', ''a'', ''a''] (new_rate_limiter 1) demo_clock =
      [(''a'', 0, True), (''a'', 30, False), (''a'', 60, True)]" by code_simp
  have clock: "mono (e_clock demo_clock)" by (simp add: demo_clock_def mono_def)
  from run rate_limit_holds [OF clock run [symmetric], of 60 "''a''"] show ?thesis by simp
qed

subsection \<open>What validation accepts\<close>

definition has_type :: "json pydict \<Rightarrow> string \<Rightarrow> ptype \<Rightarrow> bool" where
  "has_type kvs k t \<longleftrightarrow> (\<forall>v. dict_get kvs k = Some v \<longrightarrow> check_type v t)"

lemma str_value: "json_type_name v = ''str'' \<longleftrightarrow> (\<exists>s. v = JStr s)"
  by (cases v) simp_all

lemma sc_optional_simps [simp]:
  "sc_optional (of_type t opt) = opt" "sc_optional (one_of vs) = False"
  by (simp_all add: of_type_def one_of_def)

lemma type_error_Nil:
  "validate_against_schema e show_values (of_type t opt) v path = [] \<longleftrightarrow> check_type v t"
  by (simp add: of_type_def)

lemma one_of_Nil:
  "validate_against_schema e show_values (one_of vs) v path = [] \<longleftrightarrow> (\<exists>s \<in> set vs. v = JStr s)"
  by (cases v) (auto simp: one_of_def is_valid_value_def)

lemma validate_fields_Nil:
  "validate_against_schema e show_values (Schema (Some PDict) (Some fs) None None opt) (JObj kvs) path = [] \<longleftrightarrow>
     (\<forall>(k, s) \<in> set fs. case dict_get kvs k of
        None \<Rightarrow> sc_optional s
      | Some v \<Rightarrow> validate_against_schema e show_values s v (if path \<noteq> [] then path @ ''.'' @ k else k) = []) \<and>
     set (dict_keys kvs) \<subseteq> set (map fst fs)"
  by (auto simp: filter_empty_conv image_subset_iff split: option.splits if_splits)

text \<open>A job payload is accepted exactly when it is a dict of at most a megabyte with no key
  outside the five known ones, a string \<open>job_id\<close>, a \<open>job_type\<close> among the six job types, and
  instructions, payload and metadata, where given, of type list, dict and dict.\<close>

lemma job_payload_accepted_iff:
  "validate_job_payload e show_values dumps payload = passed \<longleftrightarrow>
     (\<exists>kvs n. payload = JObj kvs \<and> dumps payload = Inr n \<and> n \<le> 1048576 \<and>
        set (dict_keys kvs) \<subseteq> {''job_id'', ''job_type'', ''instructions'', ''payload'', ''metadata''} \<and>
        (\<exists>s. dict_get kvs ''job_id'' = Some (JStr s)) \<and>
        (\<exists>s \<in> set VALID_JOB_TYPES. dict_get kvs ''job_type'' = Some (JStr s)) \<and>
        has_type kvs ''instructions'' PList \<and> has_type kvs ''payload'' PDict \<and>
        has_type kvs ''metadata'' PDict)"
proof (cases payload)
  case (JObj kvs)
  have "validate_job_payload e show_values dumps payload = passed \<longleftrightarrow>
      (\<exists>n. dumps payload = Inr n \<and> n \<le> 1048576) \<and>
      validate_against_schema e show_values job_schema (JObj kvs) [] = []"
    by (auto simp: JObj validate_job_payload_def validate_input_def MAX_PAYLOAD_SIZE_def passed_def
        validation_failed_def refused_def Let_def split: sum.splits)
  moreover have "validate_against_schema e show_values job_schema (JObj kvs) [] = [] \<longleftrightarrow>
      set (dict_keys kvs) \<subseteq> {''job_id'', ''job_type'', ''instructions'', ''payload'', ''metadata''} \<and>
      (\<exists>s. dict_get kvs ''job_id'' = Some (JStr s)) \<and>
      (\<exists>s \<in> set VALID_JOB_TYPES. dict_get kvs ''job_type'' = Some (JStr s)) \<and>
      has_type kvs ''instructions'' PList \<and> has_type kvs ''payload'' PDict \<and>
      has_type kvs ''metadata'' PDict"
    unfolding job_schema_def validate_fields_Nil
    by (auto simp: type_error_Nil one_of_Nil str_value has_type_def split: option.splits)
  ultimately show ?thesis by (auto simp: JObj)
qed (simp_all add: validate_job_payload_def validate_input_def passed_def validation_failed_def refused_def)

text \<open>A request whose token is no string is not refused: the check raises.\<close>

lemma numeric_token_raises_example:
  "check_auth [(''body'', JObj [(''token'', JInt 7)])] True ''secret'' =
     Inl (PyExn ''builtins'' ''AttributeError'' (quoted ''int'' @ '' object has no attribute '' @ quoted ''strip''))"
  by code_simp

text \<open>With an empty token configured, nobody is let in.\<close>

lemma empty_token_refuses: "check_auth request True [] \<noteq> Inr passed"
  by (auto simp: check_auth_def refused_def passed_def split: sum.splits)

end
