(* ===== verification/Resilience.thy ===== *)
theory Resilience
  imports Prelude
begin

text \<open>
  Retries and the circuit breaker around tools and LLM calls, \<^verbatim>\<open>runtime/retry\<close>: the strategy of an
  error type, the two loops that repeat a call, the breaker that blocks a failing tool.  What is
  called is a function from the number of the call to its result.
\<close>

subsection \<open>Strategies\<close>

record retry_strategy =
  rs_retryable :: bool
  rs_max_attempts :: int
  rs_backoff :: rat
  rs_idempotent_required :: bool

definition strategy_get :: "string \<Rightarrow> retry_strategy result" where
  "strategy_get error_type =
     (if error_type = ''LLMError'' then
        Inr \<lparr>rs_retryable = True, rs_max_attempts = 2, rs_backoff = 1 / 5, rs_idempotent_required = False\<rparr>
      else if error_type = ''ToolError'' then
        Inr \<lparr>rs_retryable = True, rs_max_attempts = 1, rs_backoff = 0, rs_idempotent_required = True\<rparr>
      else if error_type = ''ValidationError'' then
        Inr \<lparr>rs_retryable = False, rs_max_attempts = 0, rs_backoff = 0, rs_idempotent_required = False\<rparr>
      else if error_type = ''SystemError'' then
        Inr \<lparr>rs_retryable = True, rs_max_attempts = 1, rs_backoff = 0, rs_idempotent_required = False\<rparr>
      else Inl (ValueError (''Unknown error type: '' @ error_type)))"

lemma strategy_attempts: "strategy_get ty = Inr s \<Longrightarrow> rs_max_attempts s \<le> 2"
  by (auto simp: strategy_get_def split: if_splits)

subsection \<open>The loops\<close>

text \<open>What a loop leaves: the result, the delays slept, the number of calls made.\<close>

record 'v retried =
  rd_result :: "'v result"
  rd_slept :: "rat list"
  rd_calls :: nat

definition backoff :: "retry_strategy \<Rightarrow> rat list \<Rightarrow> rat list" where
  "backoff s slept = (if rs_backoff s > 0 then slept @ [rs_backoff s] else slept)"

text \<open>\<open>timeout\<close> tells the instances of \<open>socket.timeout\<close> and \<open>TimeoutError\<close>.\<close>

function llm_loop ::
  "(pyexn \<Rightarrow> bool) \<Rightarrow> (nat \<Rightarrow> 'v result) \<Rightarrow> nat \<Rightarrow> rat list \<Rightarrow> 'v retried"
where
  "llm_loop timeout call n slept =
     (case call n of
        Inr v \<Rightarrow> \<lparr>rd_result = Inr v, rd_slept = slept, rd_calls = Suc n\<rparr>
      | Inl x \<Rightarrow>
          (case strategy_get (if timeout x then ''LLMError'' else ''SystemError'') of
             Inl y \<Rightarrow> \<lparr>rd_result = Inl y, rd_slept = slept, rd_calls = Suc n\<rparr>
           | Inr s \<Rightarrow>
               if \<not> rs_retryable s \<or> int n \<ge> rs_max_attempts s then
                 \<lparr>rd_result = Inl x, rd_slept = slept, rd_calls = Suc n\<rparr>
               else llm_loop timeout call (Suc n) (backoff s slept)))"
  by pat_completeness auto
termination by (relation "measure (\<lambda>(_, _, n, _). 3 - n)") (auto dest!: strategy_attempts)

definition call_with_retry :: "(pyexn \<Rightarrow> bool) \<Rightarrow> (nat \<Rightarrow> 'v result) \<Rightarrow> 'v retried" where
  "call_with_retry timeout call = llm_loop timeout call 0 []"

definition is_tool_error :: "pyexn \<Rightarrow> bool" where
  "is_tool_error x \<longleftrightarrow> contains ''Tool'' (exn_type x) \<or> contains ''tool'' (py_lower (exn_message x))"

function tool_loop :: "bool \<Rightarrow> (nat \<Rightarrow> 'v result) \<Rightarrow> nat \<Rightarrow> rat list \<Rightarrow> 'v retried" where
  "tool_loop idempotent run n slept =
     (case run n of
        Inr v \<Rightarrow> \<lparr>rd_result = Inr v, rd_slept = slept, rd_calls = Suc n\<rparr>
      | Inl x \<Rightarrow>
          (case strategy_get (if is_tool_error x then ''ToolError'' else ''SystemError'') of
             Inl y \<Rightarrow> \<lparr>rd_result = Inl y, rd_slept = slept, rd_calls = Suc n\<rparr>
           | Inr s \<Rightarrow>
               if \<not> rs_retryable s \<or> int n \<ge> rs_max_attempts s \<or>
                  rs_idempotent_required s \<and> \<not> idempotent then
                 \<lparr>rd_result = Inl x, rd_slept = slept, rd_calls = Suc n\<rparr>
               else tool_loop idempotent run (Suc n) (backoff s slept)))"
  by pat_completeness auto
termination by (relation "measure (\<lambda>(_, _, n, _). 3 - n)") (auto dest!: strategy_attempts)

definition execute_with_retry :: "bool \<Rightarrow> (nat \<Rightarrow> 'v result) \<Rightarrow> 'v retried" where
  "execute_with_retry idempotent run = tool_loop idempotent run 0 []"

lemmas retry_loop_simps = llm_loop.simps tool_loop.simps

text \<open>How often something is called: again after any failure, and a third time only for an LLM
  whose second failure is a timeout; a tool is not called again when its error looks like one of
  tools and it is not idempotent.\<close>

definition llm_calls :: "(pyexn \<Rightarrow> bool) \<Rightarrow> (nat \<Rightarrow> 'v result) \<Rightarrow> nat" where
  "llm_calls timeout call =
     (case call 0 of
        Inr _ \<Rightarrow> 1
      | Inl _ \<Rightarrow> (case call 1 of Inr _ \<Rightarrow> 2 | Inl x \<Rightarrow> if timeout x then 3 else 2))"

lemma call_with_retry_eq:
  "call_with_retry timeout call =
     \<lparr>rd_result = call (llm_calls timeout call - 1),
      rd_slept = concat (map (\<lambda>k. case call k of
          Inl x \<Rightarrow> (if timeout x then [1 / 5] else []) | Inr _ \<Rightarrow> []) [0..<llm_calls timeout call - 1]),
      rd_calls = llm_calls timeout call\<rparr>"
proof -
  have two: "[0..<2] = [0, Suc 0]" by (simp add: numeral_2_eq_2)
  note simps = call_with_retry_def llm_calls_def llm_loop.simps [of _ _ 0] llm_loop.simps [of _ _ "Suc 0"]
    llm_loop.simps [of _ _ "Suc (Suc 0)"] strategy_get_def backoff_def two numeral_2_eq_2
  show ?thesis
  proof (cases "call 0")
    case (Inr v)
    then show ?thesis by (simp add: simps)
  next
    case (Inl x0)
    show ?thesis
    proof (cases "call (Suc 0)")
      case (Inr v)
      with Inl show ?thesis by (simp add: simps)
    next
      case (Inl x1)
      with \<open>call 0 = Inl x0\<close> show ?thesis
        by (cases "timeout x0"; cases "timeout x1"; cases "call (Suc (Suc 0))") (simp_all add: simps)
    qed
  qed
qed

definition tool_calls :: "bool \<Rightarrow> (nat \<Rightarrow> 'v result) \<Rightarrow> nat" where
  "tool_calls idempotent run =
     (case run 0 of
        Inr _ \<Rightarrow> 1
      | Inl x \<Rightarrow> if is_tool_error x \<and> \<not> idempotent then 1 else 2)"

lemma execute_with_retry_eq:
  "execute_with_retry idempotent run =
     \<lparr>rd_result = run (tool_calls idempotent run - 1), rd_slept = [],
      rd_calls = tool_calls idempotent run\<rparr>"
proof -
  note simps = execute_with_retry_def tool_calls_def tool_loop.simps [of _ _ 0]
    tool_loop.simps [of _ _ "Suc 0"] strategy_get_def backoff_def
  show ?thesis
    by (cases "run 0"; cases "run (Suc 0)") (auto simp: simps)
qed

subsection \<open>The circuit breaker\<close>

record circuit_breaker =
  cb_failure_threshold :: int
  cb_cooldown :: rat
  cb_failures :: "int pydict"
  cb_open_until :: "rat pydict"

definition new_breaker :: "int \<Rightarrow> rat \<Rightarrow> circuit_breaker" where
  "new_breaker threshold cooldown =
     \<lparr>cb_failure_threshold = threshold, cb_cooldown = cooldown, cb_failures = [], cb_open_until = []\<rparr>"

definition breaker_open :: "string \<Rightarrow> circuit_breaker \<Rightarrow> 'a env_scheme \<Rightarrow> circuit_breaker \<times> 'a env_scheme" where
  "breaker_open tool b e =
     (let (now, e) = time_now e
      in (b\<lparr>cb_open_until := dict_set (cb_open_until b) tool (now + cb_cooldown b)\<rparr>, e))"

definition record_failure ::
  "string \<Rightarrow> circuit_breaker \<Rightarrow> 'a env_scheme \<Rightarrow> circuit_breaker \<times> 'a env_scheme"
where
  "record_failure tool b e =
     (let fs = (if dict_get (cb_failures b) tool = None then dict_set (cb_failures b) tool 0
                else cb_failures b);
          n = dict_get_or fs tool 0 + 1;
          b = b\<lparr>cb_failures := dict_set fs tool n\<rparr>
      in if n \<ge> cb_failure_threshold b then breaker_open tool b e else (b, e))"

definition record_success :: "string \<Rightarrow> circuit_breaker \<Rightarrow> circuit_breaker" where
  "record_success tool b =
     b\<lparr>cb_failures := dict_set (cb_failures b) tool 0,
       cb_open_until := dict_del (cb_open_until b) tool\<rparr>"

definition breaker_is_open ::
  "string \<Rightarrow> circuit_breaker \<Rightarrow> 'a env_scheme \<Rightarrow> bool \<times> circuit_breaker \<times> 'a env_scheme"
where
  "breaker_is_open tool b e =
     (case dict_get (cb_open_until b) tool of
        None \<Rightarrow> (False, b, e)
      | Some until \<Rightarrow>
          (let (now, e) = time_now e
           in if now < until then (True, b, e)
              else (False, b\<lparr>cb_open_until := dict_del (cb_open_until b) tool\<rparr>, e)))"

text \<open>The calls of one run: failures, successes and questions, with the time of each and the
  answers.\<close>

datatype breaker_call = Failed string | Succeeded string | Asked string

fun breaker_run ::
  "breaker_call list \<Rightarrow> circuit_breaker \<Rightarrow> 'a env_scheme \<Rightarrow> (breaker_call \<times> rat \<times> bool) list"
where
  "breaker_run [] b e = []"
| "breaker_run (Failed t # cs) b e =
     (case record_failure t b e of
        (b', e') \<Rightarrow> (Failed t, fst (time_now e), False) # breaker_run cs b' e')"
| "breaker_run (Succeeded t # cs) b e =
     (Succeeded t, fst (time_now e), False) # breaker_run cs (record_success t b) e"
| "breaker_run (Asked t # cs) b e =
     (case breaker_is_open t b e of
        (answer, b', e') \<Rightarrow> (Asked t, fst (time_now e), answer) # breaker_run cs b' e')"

text \<open>The contract: a tool is blocked from its \<open>threshold\<close>-th failure without a success in between,
  for the cooldown after its last failure.  The state counts the failures since the last success and
  keeps the time of the last one; nothing expires.\<close>

record breaker_spec =
  bs_count :: "string \<Rightarrow> int"
  bs_last :: "string \<Rightarrow> rat"

fun spec_answers :: "int \<Rightarrow> rat \<Rightarrow> (breaker_call \<times> rat) list \<Rightarrow> breaker_spec \<Rightarrow> bool list" where
  "spec_answers threshold cooldown [] s = []"
| "spec_answers threshold cooldown ((Failed t, now) # cs) s =
     False # spec_answers threshold cooldown cs
       \<lparr>bs_count = (bs_count s)(t := bs_count s t + 1), bs_last = (bs_last s)(t := now)\<rparr>"
| "spec_answers threshold cooldown ((Succeeded t, now) # cs) s =
     False # spec_answers threshold cooldown cs (s\<lparr>bs_count := (bs_count s)(t := 0)\<rparr>)"
| "spec_answers threshold cooldown ((Asked t, now) # cs) s =
     (bs_count s t \<ge> threshold \<and> now < bs_last s t + cooldown) #
       spec_answers threshold cooldown cs s"

definition opened_ok :: "int \<Rightarrow> rat \<Rightarrow> int \<Rightarrow> rat \<Rightarrow> rat option \<Rightarrow> rat \<Rightarrow> bool" where
  "opened_ok threshold cooldown n failed u now \<longleftrightarrow>
     (case u of
        Some until \<Rightarrow> n \<ge> threshold \<and> until = failed + cooldown
      | None \<Rightarrow> n < threshold \<or> failed + cooldown \<le> now)"

definition breaker_sim :: "circuit_breaker \<Rightarrow> breaker_spec \<Rightarrow> rat \<Rightarrow> bool" where
  "breaker_sim b s now \<longleftrightarrow>
     (\<forall>t. dict_get_or (cb_failures b) t 0 = bs_count s t \<and>
        opened_ok (cb_failure_threshold b) (cb_cooldown b) (bs_count s t) (bs_last s t)
          (dict_get (cb_open_until b) t) now)"

lemma breaker_simD:
  assumes "breaker_sim b s now"
  shows "dict_get_or (cb_failures b) t 0 = bs_count s t"
    and "opened_ok (cb_failure_threshold b) (cb_cooldown b) (bs_count s t) (bs_last s t)
          (dict_get (cb_open_until b) t) now"
  using assms by (simp_all add: breaker_sim_def)

lemma breaker_sim_mono: "breaker_sim b s now \<Longrightarrow> now \<le> now' \<Longrightarrow> breaker_sim b s now'"
  unfolding breaker_sim_def opened_ok_def by (fastforce split: option.splits)

lemma clock_step:
  assumes "mono (e_clock e)"
  shows "fst (time_now e) \<le> fst (time_now (snd (time_now e)))" "mono (e_clock (snd (time_now e)))"
  using assms monoD [OF assms, of "e_tick e" "Suc (e_tick e)"]
  by (simp_all add: time_now_def divide_right_mono)

lemma failure_step:
  assumes "mono (e_clock e)" "breaker_sim b s (fst (time_now e))" "record_failure t b e = (b', e')"
  shows "breaker_sim b' \<lparr>bs_count = (bs_count s)(t := bs_count s t + 1),
      bs_last = (bs_last s)(t := fst (time_now e))\<rparr> (fst (time_now e'))"
    and "mono (e_clock e')" "cb_failure_threshold b' = cb_failure_threshold b"
      "cb_cooldown b' = cb_cooldown b"
proof -
  let ?n = "dict_get_or (cb_failures b) t 0 + 1" and ?now = "fst (time_now e)"
  let ?s = "\<lparr>bs_count = (bs_count s)(t := bs_count s t + 1), bs_last = (bs_last s)(t := ?now)\<rparr>"
  have n: "?n = bs_count s t + 1" using breaker_simD(1) [OF assms(2)] by simp
  have e': "e' = e \<or> e' = snd (time_now e)"
    and keep: "cb_failure_threshold b' = cb_failure_threshold b" "cb_cooldown b' = cb_cooldown b"
    and fs: "\<And>k. dict_get_or (cb_failures b') k 0 = (if k = t then ?n else dict_get_or (cb_failures b) k 0)"
    and opened: "cb_open_until b' = (if ?n \<ge> cb_failure_threshold b
      then dict_set (cb_open_until b) t (?now + cb_cooldown b) else cb_open_until b)"
    using assms(3) by (auto simp: record_failure_def breaker_open_def Let_def dict_get_or_def
        split: if_splits prod.splits option.splits)
  show "mono (e_clock e')" using e' assms(1) clock_step(2) [OF assms(1)] by auto
  show "cb_failure_threshold b' = cb_failure_threshold b" "cb_cooldown b' = cb_cooldown b"
    using keep by simp_all
  have "breaker_sim b' ?s ?now"
    unfolding breaker_sim_def
  proof (intro allI conjI)
    fix k
    show "dict_get_or (cb_failures b') k 0 = bs_count ?s k"
      using breaker_simD(1) [OF assms(2), of k] by (simp add: fs n)
    show "opened_ok (cb_failure_threshold b') (cb_cooldown b') (bs_count ?s k) (bs_last ?s k)
        (dict_get (cb_open_until b') k) ?now"
    proof (cases "k = t \<and> ?n \<ge> cb_failure_threshold b")
      case True
      then show ?thesis by (auto simp: opened opened_ok_def keep n)
    next
      case False
      then show ?thesis
        using breaker_simD(2) [OF assms(2), of k] n
        by (auto simp: opened keep opened_ok_def split: option.splits if_splits)
    qed
  qed
  then show "breaker_sim b' ?s (fst (time_now e'))"
    using e' clock_step(1) [OF assms(1)] breaker_sim_mono by blast
qed

lemma success_step:
  assumes "breaker_sim b s now" "1 \<le> cb_failure_threshold b"
  shows "breaker_sim (record_success t b) (s\<lparr>bs_count := (bs_count s)(t := 0)\<rparr>) now"
  unfolding breaker_sim_def
proof (intro allI)
  fix k
  show "dict_get_or (cb_failures (record_success t b)) k 0 = bs_count (s\<lparr>bs_count := (bs_count s)(t := 0)\<rparr>) k \<and>
    opened_ok (cb_failure_threshold (record_success t b)) (cb_cooldown (record_success t b))
      (bs_count (s\<lparr>bs_count := (bs_count s)(t := 0)\<rparr>) k) (bs_last (s\<lparr>bs_count := (bs_count s)(t := 0)\<rparr>) k)
      (dict_get (cb_open_until (record_success t b)) k) now"
    using breaker_simD [OF assms(1), of k] assms(2)
    by (cases "k = t") (simp_all add: record_success_def opened_ok_def dict_get_or_def)
qed

lemma asked_step:
  assumes "mono (e_clock e)" "breaker_sim b s (fst (time_now e))"
    and "breaker_is_open t b e = (answer, b', e')"
  shows "breaker_sim b' s (fst (time_now e'))" "mono (e_clock e')"
    "cb_failure_threshold b' = cb_failure_threshold b" "cb_cooldown b' = cb_cooldown b"
    "answer \<longleftrightarrow> bs_count s t \<ge> cb_failure_threshold b \<and> fst (time_now e) < bs_last s t + cb_cooldown b"
proof -
  let ?now = "fst (time_now e)"
  have e': "e' = e \<or> e' = snd (time_now e)"
    and b': "b' = b \<or> (\<exists>until. dict_get (cb_open_until b) t = Some until \<and> until \<le> ?now \<and>
      b' = b\<lparr>cb_open_until := dict_del (cb_open_until b) t\<rparr>)"
    and answer: "answer \<longleftrightarrow> (\<exists>until. dict_get (cb_open_until b) t = Some until \<and> ?now < until)"
    using assms(3) by (auto simp: breaker_is_open_def Let_def split: option.splits prod.splits if_splits)
  show "mono (e_clock e')" using e' assms(1) clock_step(2) [OF assms(1)] by auto
  show "cb_failure_threshold b' = cb_failure_threshold b" "cb_cooldown b' = cb_cooldown b"
    using b' by auto
  have "breaker_sim b' s ?now"
    using b'
  proof (elim disjE exE conjE)
    fix until
    assume u: "dict_get (cb_open_until b) t = Some until" "until \<le> ?now"
      "b' = b\<lparr>cb_open_until := dict_del (cb_open_until b) t\<rparr>"
    have "opened_ok (cb_failure_threshold b') (cb_cooldown b') (bs_count s k) (bs_last s k)
        (dict_get (cb_open_until b') k) ?now" for k
      using breaker_simD(2) [OF assms(2), of k] u by (cases "k = t") (simp_all add: opened_ok_def)
    with assms(2) u(3) show ?thesis by (simp add: breaker_sim_def)
  qed (use assms(2) in simp)
  then show "breaker_sim b' s (fst (time_now e'))"
    using e' clock_step(1) [OF assms(1)] breaker_sim_mono by blast
  show "answer \<longleftrightarrow> bs_count s t \<ge> cb_failure_threshold b \<and> ?now < bs_last s t + cb_cooldown b"
    using breaker_simD(2) [OF assms(2), of t] unfolding answer
    by (cases "dict_get (cb_open_until b) t") (auto simp: opened_ok_def)
qed

lemma breaker_run_refines:
  assumes "mono (e_clock e)" "breaker_sim b s (fst (time_now e))" "1 \<le> cb_failure_threshold b"
  shows "map (\<lambda>(_, _, answer). answer) (breaker_run cs b e) =
    spec_answers (cb_failure_threshold b) (cb_cooldown b)
      (map (\<lambda>(c, now, _). (c, now)) (breaker_run cs b e)) s"
  using assms
proof (induction cs arbitrary: b e s)
  case (Cons c cs)
  show ?case
  proof (cases c)
    case (Failed t)
    obtain b' e' where f: "record_failure t b e = (b', e')" by fastforce
    note step = failure_step [OF Cons.prems(1,2) f]
    from Cons.IH [OF step(2,1)] step(3,4) Cons.prems(3) show ?thesis by (simp add: Failed f)
  next
    case (Succeeded t)
    from Cons.IH [OF Cons.prems(1) success_step [OF Cons.prems(2,3), of t]] Cons.prems(3)
    show ?thesis by (simp add: Succeeded record_success_def)
  next
    case (Asked t)
    obtain answer b' e' where f: "breaker_is_open t b e = (answer, b', e')"
      by (cases "breaker_is_open t b e")
    note step = asked_step [OF Cons.prems(1,2) f]
    from Cons.IH [OF step(2,1)] step(3-5) Cons.prems(3) show ?thesis by (simp add: Asked f)
  qed
qed simp

text \<open>C38: the circuit breaker implements its contract: whatever failures, successes and questions
  follow each other, with a clock that does not go back, a question about a tool is answered yes
  exactly when the tool failed at least \<open>threshold\<close> times since its last success and its last failure
  is less than the cooldown ago.  (The count survives the cooldown: the first failure after it blocks
  the tool again.)\<close>

theorem breaker_implements_spec:
  assumes "mono (e_clock e)" "1 \<le> threshold"
    and "calls = breaker_run cs (new_breaker threshold cooldown) e"
  shows "map (\<lambda>(_, _, answer). answer) calls =
    spec_answers threshold cooldown (map (\<lambda>(c, now, _). (c, now)) calls)
      \<lparr>bs_count = (\<lambda>_. 0), bs_last = (\<lambda>_. 0)\<rparr>"
proof -
  have "breaker_sim (new_breaker threshold cooldown) \<lparr>bs_count = (\<lambda>_. 0), bs_last = (\<lambda>_. 0)\<rparr> now" for now
    using assms(2)
    by (simp add: breaker_sim_def opened_ok_def new_breaker_def dict_get_or_def dict_get_def)
  from breaker_run_refines [OF assms(1) this] assms(2,3) show ?thesis by (simp add: new_breaker_def)
qed

text \<open>A clock of one second a reading; the breaker opens at the second failure for two seconds.\<close>

definition demo_calls :: "breaker_call list" where
  "demo_calls = [Failed ''t'', Failed ''t'', Asked ''t'', Asked ''t'', Asked ''t'', Failed ''t'', Asked ''t'',
     Succeeded ''t'', Asked ''t'']"

definition second_clock :: env where
  "second_clock = sample_env\<lparr>e_clock := (\<lambda>n. 1000000 * int n)\<rparr>"

theorem breaker_implements_spec_witness:
  "map (\<lambda>(_, _, answer). answer) (breaker_run demo_calls (new_breaker 2 2) second_clock) =
     [False, False, True, False, False, False, True, False, False] \<and>
   spec_answers 2 2 (map (\<lambda>(c, now, _). (c, now)) (breaker_run demo_calls (new_breaker 2 2) second_clock))
      \<lparr>bs_count = (\<lambda>_. 0), bs_last = (\<lambda>_. 0)\<rparr> =
     [False, False, True, False, False, False, True, False, False]"
proof -
  have run: "map (\<lambda>(_, _, answer). answer) (breaker_run demo_calls (new_breaker 2 2) second_clock) =
      [False, False, True, False, False, False, True, False, False]" by code_simp
  have "mono (e_clock second_clock)" by (simp add: second_clock_def mono_def)
  from breaker_implements_spec [OF this _ refl, of 2 demo_calls 2] run show ?thesis by simp
qed

end
