(* ===== verification/Deferral.thy ===== *)
theory Deferral
  imports Dag AgentRegistry
begin

text \<open>
  The graph of who may hand work to whom, and its validation at start-up,
  \<^verbatim>\<open>agent/deferral/validator.py\<close>.  The search for cycles recurses at most once per agent, so the
  number of agents is its fuel; that it is enough is part of what is proved.
\<close>

subsection \<open>The deferral graph\<close>

text \<open>The colours of the search are the visit states of the plan validator.\<close>

abbreviation WHITE :: visit_state where "WHITE \<equiv> UNVISITED"
abbreviation GREY :: visit_state where "GREY \<equiv> VISITING"
abbreviation BLACK :: visit_state where "BLACK \<equiv> VISITED"

datatype deferral_error =
    SelfDeferral string
  | NotRegistered string string
  | DeferralCycle "string list"
  | ColourKeyError string

definition deferral_exn :: "deferral_error \<Rightarrow> pyexn" where
  "deferral_exn x =
     (case x of
        SelfDeferral a \<Rightarrow> PyExn ''src.agent.deferral.validator'' ''DeferralCycleError''
          (''Deferral cycle detected: '' @ a @ '' '' @ arrow @ '' '' @ a @ '' (self-deferral)'')
      | NotRegistered a b \<Rightarrow> PyExn ''src.agent.deferral.validator'' ''DeferralGraphError''
          (''Agent '' @ quoted a @ '' defers to '' @ quoted b @ '', but '' @ quoted b @
           '' is not registered'')
      | DeferralCycle path \<Rightarrow> PyExn ''src.agent.deferral.validator'' ''DeferralCycleError''
          (''Deferral cycle detected: '' @ joined ('' '' @ arrow @ '' '') path)
      | ColourKeyError k \<Rightarrow> PyExn ''builtins'' ''KeyError'' (quoted k))"

text \<open>The walk back along the parents; it need not end for parents that run in a circle.\<close>

partial_function (option) walk_back ::
  "string pydict \<Rightarrow> string \<Rightarrow> string option \<Rightarrow> string list \<Rightarrow> string list option"
where
  "walk_back parent to_node current path =
     (case current of
        None \<Rightarrow> Some path
      | Some c \<Rightarrow>
          if c = to_node then Some path
          else walk_back parent to_node (dict_get parent c) (path @ [c]))"

definition extract_cycle :: "string pydict \<Rightarrow> string \<Rightarrow> string \<Rightarrow> string list option" where
  "extract_cycle parent from_node to_node =
     map_option (\<lambda>path. rev (path @ [to_node])) (walk_back parent to_node (Some from_node) [to_node])"

definition deferral_graph :: "agent_metadata list \<Rightarrow> string list pydict" where
  "deferral_graph agents = fold (\<lambda>a g. dict_set g (agent_id_of a) (am_defer_to a)) agents []"

type_synonym search_state = "visit_state pydict \<times> string pydict"

fun defer_dfs ::
  "nat \<Rightarrow> string list pydict \<Rightarrow> string \<Rightarrow> search_state \<Rightarrow> (deferral_error + search_state) option"
and defer_targets ::
  "nat \<Rightarrow> string list pydict \<Rightarrow> string \<Rightarrow> string list \<Rightarrow> search_state
   \<Rightarrow> (deferral_error + search_state) option"
where
  "defer_dfs 0 graph node s = None"
| "defer_dfs (Suc fuel) graph node (color, parent) =
     (case defer_targets fuel graph node (dict_get_or graph node []) (dict_set color node GREY, parent) of
        None \<Rightarrow> None
      | Some (Inl x) \<Rightarrow> Some (Inl x)
      | Some (Inr (color, parent)) \<Rightarrow> Some (Inr (dict_set color node BLACK, parent)))"
| "defer_targets fuel graph node [] s = Some (Inr s)"
| "defer_targets fuel graph node (neighbour # ns) (color, parent) =
     (if dict_get graph neighbour = None then Some (Inl (NotRegistered node neighbour))
      else (case dict_get color neighbour of
          None \<Rightarrow> Some (Inl (ColourKeyError neighbour))
        | Some GREY \<Rightarrow> map_option (\<lambda>path. Inl (DeferralCycle path)) (extract_cycle parent node neighbour)
        | Some WHITE \<Rightarrow>
            (case defer_dfs fuel graph neighbour (color, dict_set parent neighbour node) of
               None \<Rightarrow> None
             | Some (Inl x) \<Rightarrow> Some (Inl x)
             | Some (Inr s) \<Rightarrow> defer_targets fuel graph node ns s)
        | Some BLACK \<Rightarrow> defer_targets fuel graph node ns (color, parent)))"

fun defer_all ::
  "nat \<Rightarrow> string list pydict \<Rightarrow> string list \<Rightarrow> search_state \<Rightarrow> (deferral_error + search_state) option"
where
  "defer_all fuel graph [] s = Some (Inr s)"
| "defer_all fuel graph (node # nodes) (color, parent) =
     (case dict_get color node of
        None \<Rightarrow> Some (Inl (ColourKeyError node))
      | Some WHITE \<Rightarrow>
          (case defer_dfs fuel graph node (color, parent) of
             None \<Rightarrow> None
           | Some (Inl x) \<Rightarrow> Some (Inl x)
           | Some (Inr s) \<Rightarrow> defer_all fuel graph nodes s)
      | Some _ \<Rightarrow> defer_all fuel graph nodes (color, parent))"

definition validate_deferral_graph :: "agent_registry \<Rightarrow> (deferral_error + unit) option" where
  "validate_deferral_graph reg =
     (let graph = deferral_graph (list_agents reg);
          color = map (\<lambda>(aid, _). (aid, WHITE)) graph
      in case List.find (\<lambda>(aid, targets). aid \<in> set targets) graph of
           Some (aid, _) \<Rightarrow> Some (Inl (SelfDeferral aid))
         | None \<Rightarrow>
             (case defer_all (length graph) graph (dict_keys graph) (color, []) of
                None \<Rightarrow> None
              | Some (Inl x) \<Rightarrow> Some (Inl x)
              | Some (Inr _) \<Rightarrow> Some (Inr ())))"

subsection \<open>The search is exact\<close>

text \<open>The recursion stack, innermost first: its nodes are the grey ones, each deferred to by the next,
  which is its parent.\<close>

fun chain :: "string list pydict \<Rightarrow> string pydict \<Rightarrow> string list \<Rightarrow> bool" where
  "chain graph parent (x # y # zs) \<longleftrightarrow>
     x \<in> set (succs graph y) \<and> dict_get parent x = Some y \<and> chain graph parent (y # zs)"
| "chain graph parent _ \<longleftrightarrow> True"

text \<open>A cycle as it is reported: the first node again at the end, every node deferring to the next.\<close>

definition is_cycle :: "string list pydict \<Rightarrow> string list \<Rightarrow> bool" where
  "is_cycle graph path \<longleftrightarrow>
     2 \<le> length path \<and> hd path = last path \<and>
     (\<forall>i. Suc i < length path \<longrightarrow> path ! Suc i \<in> set (succs graph (path ! i)))"

lemma chain_take: "chain graph parent (xs @ ys) \<Longrightarrow> chain graph parent xs"
  by (induction graph parent xs rule: chain.induct) auto

lemma chain_fresh:
  "chain graph parent xs \<Longrightarrow> n \<notin> set xs \<Longrightarrow> chain graph (dict_set parent n m) xs"
  by (induction graph parent xs rule: chain.induct) auto

lemma walk_back_chain:
  assumes "chain graph parent (xs @ [to_node])" "to_node \<notin> set xs" "xs \<noteq> []"
  shows "walk_back parent to_node (Some (hd xs)) path = Some (path @ xs)"
  using assms
proof (induction xs arbitrary: path)
  case Nil
  then show ?case by simp
next
  case (Cons x xs)
  have ne: "x \<noteq> to_node" using Cons.prems by auto
  show ?case
  proof (cases xs)
    case Nil
    with Cons.prems ne show ?thesis
      by (subst walk_back.simps, subst walk_back.simps) simp
  next
    case (Cons y ys)
    then show ?thesis
      using Cons.IH [of "path @ [x]"] Cons.prems ne by (subst walk_back.simps) simp
  qed
qed

lemma chain_edge:
  "chain graph parent xs \<Longrightarrow> Suc i < length xs \<Longrightarrow> xs ! i \<in> set (succs graph (xs ! Suc i))"
proof (induction graph parent xs arbitrary: i rule: chain.induct)
  case (1 graph parent x y zs)
  then show ?case by (cases i) auto
qed auto

lemma is_cycle_rev:
  assumes "chain graph parent xs" "xs \<noteq> []" "last xs \<in> set (succs graph (hd xs))"
  shows "is_cycle graph (rev (last xs # xs))"
proof -
  have "(last xs # xs) ! j \<in> set (succs graph ((last xs # xs) ! Suc j))"
    if "Suc j < length (last xs # xs)" for j
    using that chain_edge [OF assms(1)] assms(2,3) by (cases j) (auto simp: hd_conv_nth)
  then have "rev (last xs # xs) ! Suc i \<in> set (succs graph (rev (last xs # xs) ! i))"
    if "Suc i < length (last xs # xs)" for i
    using that by (auto simp: rev_nth simp del: rev.simps dest: spec [of _ "length xs - Suc i"])
  with assms(2) show ?thesis
    by (auto simp: is_cycle_def hd_rev last_rev Suc_le_eq simp del: rev.simps)
qed


lemma chain_cong:
  "(\<And>x. x \<in> set xs \<Longrightarrow> dict_get parent x = dict_get parent' x) \<Longrightarrow>
     chain graph parent xs = chain graph parent' xs"
  by (induction graph parent xs rule: chain.induct) auto

text \<open>What a search from \<open>s\<close> may end with, having finished the nodes \<open>xs\<close>.\<close>

fun error_ok :: "string list pydict \<Rightarrow> deferral_error \<Rightarrow> bool" where
  "error_ok graph (SelfDeferral a) = (a \<in> set (succs graph a))"
| "error_ok graph (NotRegistered a b) = (b \<in> set (succs graph a) \<and> dict_get graph b = None)"
| "error_ok graph (DeferralCycle path) = is_cycle graph path"
| "error_ok graph (ColourKeyError _) = False"

definition defer_post ::
  "string list pydict \<Rightarrow> search_state \<Rightarrow> string set \<Rightarrow> (deferral_error + search_state) option \<Rightarrow> bool"
where
  "defer_post graph s xs r \<longleftrightarrow>
     (case r of
        None \<Rightarrow> False
      | Some (Inl x) \<Rightarrow> error_ok graph x
      | Some (Inr (color, parent)) \<Rightarrow>
          dfs_inv (dom (dict_get graph)) graph color \<and>
          coloured (fst s) BLACK \<union> xs \<subseteq> coloured color BLACK \<and>
          coloured color GREY = coloured (fst s) GREY \<and>
          (\<forall>x \<in> coloured (fst s) GREY. dict_get parent x = dict_get (snd s) x))"

lemma defer_postE:
  assumes "defer_post graph s xs r"
  obtains x where "r = Some (Inl x)" "error_ok graph x"
  | color parent where "r = Some (Inr (color, parent))" "dfs_inv (dom (dict_get graph)) graph color"
      "coloured (fst s) BLACK \<union> xs \<subseteq> coloured color BLACK" "coloured color GREY = coloured (fst s) GREY"
      "\<And>x. x \<in> coloured (fst s) GREY \<Longrightarrow> dict_get parent x = dict_get (snd s) x"
  using assms by (auto simp: defer_post_def split: option.splits sum.splits)

lemma enter_inv:
  assumes "dfs_inv V graph color" "dict_get color node = Some WHITE"
  shows "dfs_inv V graph (dict_set color node GREY)"
proof -
  have "coloured (dict_set color node GREY) BLACK = coloured color BLACK"
    using assms(2) by (auto simp: coloured_def)
  moreover have "dom (dict_get (dict_set color node GREY)) = V"
    using assms by (auto simp: dfs_inv_def dom_def)
  ultimately show ?thesis using assms(1) by (simp add: dfs_inv_def)
qed

lemma leave_inv:
  assumes "dfs_inv V graph color" "dict_get color node = Some GREY"
    and "set (succs graph node) \<subseteq> coloured color BLACK"
  shows "dfs_inv V graph (dict_set color node BLACK)"
proof -
  obtain order where "set order = coloured color BLACK" "topo_ok (\<lambda>x. set (succs graph x)) id order"
    using assms(1) by (auto simp: dfs_inv_def)
  then have "set (order @ [node]) = coloured (dict_set color node BLACK) BLACK"
    "topo_ok (\<lambda>x. set (succs graph x)) id (order @ [node])"
    using assms(3) by auto
  moreover have "dom (dict_get (dict_set color node BLACK)) = V"
    using assms(1,2) by (auto simp: dfs_inv_def dom_def)
  ultimately show ?thesis unfolding dfs_inv_def by blast
qed

text \<open>The stack of a search: distinct, the grey nodes, chained by the parents.\<close>

definition stack_ok :: "string list pydict \<Rightarrow> search_state \<Rightarrow> string list \<Rightarrow> bool" where
  "stack_ok graph s stack \<longleftrightarrow> set stack = coloured (fst s) GREY \<and> chain graph (snd s) stack"

lemma reported_cycle:
  assumes "stack_ok graph (color, parent) (node # stack)" "dict_get color nb = Some GREY"
    and "nb \<in> set (succs graph node)"
  shows "\<exists>path. extract_cycle parent node nb = Some path \<and> is_cycle graph path"
proof -
  have "nb \<in> set (node # stack)" using assms(1,2) by (auto simp: stack_ok_def coloured_def)
  then obtain xs ys where split: "node # stack = xs @ nb # ys" "nb \<notin> set xs"
    by (meson split_list_first)
  then have c: "chain graph parent (xs @ [nb])"
    using assms(1) chain_take [of graph parent "xs @ [nb]" ys] by (simp add: stack_ok_def)
  have hd: "hd (xs @ [nb]) = node" using split(1) by (cases xs) auto
  have "walk_back parent nb (Some node) [nb] = Some ([nb] @ xs)"
  proof (cases "xs = []")
    case True
    with hd show ?thesis by (subst walk_back.simps) simp
  next
    case False
    with hd have "hd xs = node" by simp
    with walk_back_chain [OF c split(2) False] show ?thesis by simp
  qed
  moreover have "is_cycle graph (rev (nb # xs @ [nb]))"
    using is_cycle_rev [OF c] hd assms(3) by simp
  ultimately show ?thesis by (simp add: extract_cycle_def)
qed

lemma whites_fuel:
  assumes "dfs_inv V graph color" "dfs_inv V graph color'" "finite V"
    and "coloured color' GREY = coloured color GREY" "coloured color BLACK \<subseteq> coloured color' BLACK"
    and "card (coloured color WHITE) \<le> fuel"
  shows "card (coloured color' WHITE) \<le> fuel"
  using whites_shrink [OF assms(1-5)] assms(6) by simp

lemma defer_dfs_correct:
  "dfs_inv (dom (dict_get graph)) graph (fst s) \<Longrightarrow> dict_get (fst s) node = Some WHITE \<Longrightarrow>
     set stack = coloured (fst s) GREY \<Longrightarrow> chain graph (snd s) (node # stack) \<Longrightarrow>
     card (coloured (fst s) WHITE) \<le> fuel \<Longrightarrow> defer_post graph s {node} (defer_dfs fuel graph node s)"
  "dfs_inv (dom (dict_get graph)) graph (fst s) \<Longrightarrow> stack_ok graph s (node # stack) \<Longrightarrow>
     set ns \<subseteq> set (succs graph node) \<Longrightarrow> card (coloured (fst s) WHITE) \<le> fuel \<Longrightarrow>
     defer_post graph s (set ns) (defer_targets fuel graph node ns s)"
proof (induction fuel graph node s and fuel graph node ns s arbitrary: stack and stack
    rule: defer_dfs_defer_targets.induct)
  case (1 graph node s)
  have "finite (coloured (fst s) WHITE)"
    using 1(1) coloured_finite [of "dom (dict_get graph)" graph "fst s"]
    by (simp add: finite_dom_map_of dict_get_def [abs_def])
  moreover have "node \<in> coloured (fst s) WHITE" using 1(2) by (simp add: coloured_def)
  ultimately have "0 < card (coloured (fst s) WHITE)" using card_gt_0_iff by blast
  with 1(5) show ?case by simp
next
  case (2 fuel graph node color parent)
  let ?c = "dict_set color node GREY"
  have white: "node \<in> coloured color WHITE" "node \<notin> coloured color BLACK" "node \<notin> coloured color GREY"
    using 2(3) by (auto simp: coloured_def)
  have fin: "finite (coloured color WHITE)"
    using 2(2) coloured_finite [of "dom (dict_get graph)" graph color]
    by (simp add: finite_dom_map_of dict_get_def [abs_def])
  have inv: "dfs_inv (dom (dict_get graph)) graph ?c" using 2(2,3) by (simp add: enter_inv)
  have "defer_post graph (?c, parent) (set (succs graph node))
      (defer_targets fuel graph node (dict_get_or graph node []) (?c, parent))"
    unfolding succs_def
  proof (rule 2(1) [of stack])
    show "stack_ok graph (?c, parent) (node # stack)" using 2(4,5) by (simp add: stack_ok_def)
    show "card (coloured (fst (?c, parent)) WHITE) \<le> fuel"
      using 2(6) white(1) fin by (simp add: card_Diff_singleton)
  qed (simp_all add: inv succs_def)
  then show ?case
  proof (cases rule: defer_postE)
    case 1
    then show ?thesis by (simp add: defer_post_def)
  next
    case (2 color' parent')
    have "node \<in> coloured color' GREY" using 2(4) by simp
    then have "dict_get color' node = Some GREY" by (simp add: coloured_def)
    moreover have "set (succs graph node) \<subseteq> coloured color' BLACK" using 2(3) by blast
    ultimately have "dfs_inv (dom (dict_get graph)) graph (dict_set color' node BLACK)"
      using 2(2) by (simp add: leave_inv)
    moreover have "coloured (dict_set color' node BLACK) GREY = coloured color GREY"
      using 2(4) white(3) by simp
    moreover have "coloured color BLACK \<union> {node} \<subseteq> coloured (dict_set color' node BLACK) BLACK"
      using 2(3) white(2) by auto
    moreover have "dict_get parent' x = dict_get parent x" if "x \<in> coloured color GREY" for x
      using 2(5) [of x] that by simp
    ultimately show ?thesis using 2(1) by (simp add: defer_post_def)
  qed
next
  case (3 fuel graph node s)
  then show ?case by (cases s) (simp add: defer_post_def)
next
  case (4 fuel graph node nb ns color parent)
  have edge: "nb \<in> set (succs graph node)" using 4(6) by simp
  have fin: "finite (dom (dict_get graph))" by (simp add: finite_dom_map_of dict_get_def [abs_def])
  show ?case
  proof (cases "dict_get graph nb")
    case None
    with edge show ?thesis by (simp add: defer_post_def)
  next
    case (Some ts)
    then have "nb \<in> dom (dict_get color)" using 4(4) by (auto simp: dfs_inv_def)
    then obtain c where c: "dict_get color nb = Some c" by auto
    show ?thesis
    proof (cases c)
      case VISITING
      then show ?thesis
        using reported_cycle [OF 4(5) _ edge] c Some by (auto simp: defer_post_def)
    next
      case VISITED
      have "defer_post graph (color, parent) (set ns) (defer_targets fuel graph node ns (color, parent))"
        using 4(3) [of c stack] Some c VISITED 4(4-7) by simp
      moreover have "nb \<in> coloured color BLACK" using c VISITED by (simp add: coloured_def)
      ultimately show ?thesis
        using Some c VISITED by (auto simp: defer_post_def split: option.splits sum.splits)
    next
      case UNVISITED
      have nb: "nb \<notin> set (node # stack)" using 4(5) c UNVISITED by (auto simp: stack_ok_def coloured_def)
      have "defer_post graph (color, dict_set parent nb node) {nb}
          (defer_dfs fuel graph nb (color, dict_set parent nb node))"
        using 4(1) [of c "node # stack"] Some c UNVISITED 4(4,5,7) edge nb chain_fresh [OF _ nb]
        by (simp add: stack_ok_def)
      then show ?thesis
      proof (cases rule: defer_postE)
        case 1
        then show ?thesis using Some c UNVISITED by (simp add: defer_post_def)
      next
        case (2 color' parent')
        have same: "dict_get parent' x = dict_get parent x" if "x \<in> coloured color GREY" for x
          using 2(5) [of x] that c UNVISITED by (auto simp: coloured_def)
        have "stack_ok graph (color', parent') (node # stack)"
          using 4(5) 2(4) chain_cong [of "node # stack" parent' parent graph] same
          by (auto simp: stack_ok_def)
        moreover have "card (coloured color' WHITE) \<le> fuel"
          using whites_fuel [OF _ 2(2) fin] 4(4,7) 2(3,4) by auto
        ultimately have "defer_post graph (color', parent') (set ns)
            (defer_targets fuel graph node ns (color', parent'))"
          using 4(2) [of c "Inr (color', parent')" "(color', parent')" stack] Some c UNVISITED 2(1,2) 4(6)
          by simp
        then show ?thesis
          using Some c UNVISITED 2 same by (auto simp: defer_post_def split: option.splits sum.splits)
      qed
    qed
  qed
qed


lemma defer_all_correct:
  "dfs_inv (dom (dict_get graph)) graph (fst s) \<Longrightarrow> coloured (fst s) GREY = {} \<Longrightarrow>
     set nodes \<subseteq> dom (dict_get graph) \<Longrightarrow> card (coloured (fst s) WHITE) \<le> fuel \<Longrightarrow>
     defer_post graph s (set nodes) (defer_all fuel graph nodes s)"
proof (induction fuel graph nodes s rule: defer_all.induct)
  case (1 fuel graph s)
  then show ?case by (cases s) (simp add: defer_post_def)
next
  case (2 fuel graph node nodes color parent)
  have fin: "finite (dom (dict_get graph))" by (simp add: finite_dom_map_of dict_get_def [abs_def])
  have "node \<in> dom (dict_get color)" using 2(4,6) by (auto simp: dfs_inv_def)
  then obtain c where c: "dict_get color node = Some c" by auto
  show ?case
  proof (cases c)
    case VISITING
    then show ?thesis using c 2(5) by (auto simp: coloured_def)
  next
    case VISITED
    have "defer_post graph (color, parent) (set nodes) (defer_all fuel graph nodes (color, parent))"
      using 2(3) [of c] c VISITED 2(4-7) by simp
    moreover have "node \<in> coloured color BLACK" using c VISITED by (simp add: coloured_def)
    ultimately show ?thesis
      using c VISITED by (auto simp: defer_post_def split: option.splits sum.splits)
  next
    case UNVISITED
    have "defer_post graph (color, parent) {node} (defer_dfs fuel graph node (color, parent))"
      using defer_dfs_correct(1) [of graph "(color, parent)" node "[]"] c UNVISITED 2(4,5,7) by simp
    then show ?thesis
    proof (cases rule: defer_postE)
      case 1
      then show ?thesis using c UNVISITED by (simp add: defer_post_def)
    next
      case p: (2 color' parent')
      have "card (coloured color' WHITE) \<le> fuel"
        using whites_fuel [OF _ p(2) fin] 2(4,7) p(3,4) by auto
      then have "defer_post graph (color', parent') (set nodes)
          (defer_all fuel graph nodes (color', parent'))"
        using 2(1) [of c "Inr (color', parent')" "(color', parent')"] c UNVISITED p(1,2,4) 2(5,6) by simp
      then show ?thesis
        using c UNVISITED p 2(5) by (auto simp: defer_post_def split: option.splits sum.splits)
    qed
  qed
qed

subsection \<open>Validation of a registry\<close>

definition defers :: "agent_registry \<Rightarrow> (string \<times> string) set" where
  "defers reg = {(a, b). \<exists>m. get_agent reg a = Inr m \<and> b \<in> set (am_defer_to m)}"

text \<open>What an error says is true of the registry.\<close>

fun justified :: "agent_registry \<Rightarrow> deferral_error \<Rightarrow> bool" where
  "justified reg (SelfDeferral a) \<longleftrightarrow> (a, a) \<in> defers reg"
| "justified reg (NotRegistered a b) \<longleftrightarrow> (a, b) \<in> defers reg \<and> \<not> has_agent reg b"
| "justified reg (DeferralCycle path) \<longleftrightarrow>
     2 \<le> length path \<and> hd path = last path \<and>
     (\<forall>i. Suc i < length path \<longrightarrow> (path ! i, path ! Suc i) \<in> defers reg)"
| "justified reg (ColourKeyError k) \<longleftrightarrow> False"

lemma fold_dict_set_fresh:
  "distinct (map k xs) \<Longrightarrow> set (map k xs) \<inter> set (dict_keys d) = {} \<Longrightarrow>
     fold (\<lambda>x d. dict_set d (k x) (v x)) xs d = d @ map (\<lambda>x. (k x, v x)) xs"
  by (induction xs arbitrary: d) (auto simp: dict_set_fresh)

lemma deferral_graph_eq:
  assumes "registry_ok reg"
  shows "deferral_graph (list_agents reg) = map (\<lambda>(k, m). (k, am_defer_to m)) reg"
proof -
  have "distinct (map agent_id_of (list_agents reg))"
    using assms registry_ids [OF assms] by (simp add: registry_ok_def)
  then have "deferral_graph (list_agents reg) =
      map (\<lambda>m. (agent_id_of m, am_defer_to m)) (list_agents reg)"
    unfolding deferral_graph_def by (subst fold_dict_set_fresh) simp_all
  also have "\<dots> = map (\<lambda>(k, m). (k, am_defer_to m)) reg"
    using assms by (auto simp: list_agents_def registry_ok_def)
  finally show ?thesis .
qed

lemma graph_of_registry:
  assumes "registry_ok reg"
  defines "graph \<equiv> deferral_graph (list_agents reg)"
  shows "dict_get graph a = map_option am_defer_to (dict_get reg a)"
    and "b \<in> set (succs graph a) \<longleftrightarrow> (a, b) \<in> defers reg" "edges graph = defers reg"
    and "dom (dict_get graph) = {i. has_agent reg i}" "dict_ok graph"
proof -
  show get: "dict_get graph a = map_option am_defer_to (dict_get reg a)" for a
    unfolding graph_def deferral_graph_eq [OF assms(1)] dict_get_def by (simp add: map_of_map)
  show "b \<in> set (succs graph a) \<longleftrightarrow> (a, b) \<in> defers reg" for a b
    by (auto simp: succs_def dict_get_or_def get defers_def get_agent_def split: option.splits)
  then show "edges graph = defers reg" by (auto simp: edges_def)
  show "dom (dict_get graph) = {i. has_agent reg i}" by (auto simp: get has_agent_def)
  show "dict_ok graph"
    using assms(1) by (simp add: graph_def deferral_graph_eq registry_ok_def split_beta comp_def)
qed

lemma error_justified:
  "registry_ok reg \<Longrightarrow> error_ok (deferral_graph (list_agents reg)) x \<Longrightarrow> justified reg x"
  by (cases x) (auto simp: graph_of_registry is_cycle_def has_agent_def)

text \<open>A reported error contradicts the validity of the graph.\<close>

lemma justified_invalid:
  assumes "justified reg x" "acyclic (defers reg)" "Range (defers reg) \<subseteq> {i. has_agent reg i}"
  shows False
proof (cases x)
  case (DeferralCycle path)
  then have p: "2 \<le> length path" "hd path = last path"
      and e: "\<And>i. Suc i < length path \<Longrightarrow> (path ! i, path ! Suc i) \<in> defers reg"
    using assms(1) by auto
  have "Suc i < length path \<Longrightarrow> (path ! 0, path ! Suc i) \<in> (defers reg)\<^sup>+" for i
  proof (induction i)
    case 0
    with e show ?case by blast
  next
    case (Suc i)
    then show ?case using e [of "Suc i"] by (simp add: trancl_into_trancl)
  qed
  from this [of "length path - 2"] p(1) have "(path ! 0, path ! (length path - 1)) \<in> (defers reg)\<^sup>+"
    by (simp add: Suc_diff_Suc numeral_2_eq_2)
  moreover have "path \<noteq> []" using p(1) by auto
  ultimately have "(hd path, hd path) \<in> (defers reg)\<^sup>+"
    using p(2) by (metis hd_conv_nth last_conv_nth)
  with assms(2) show False by (simp add: acyclic_def)
qed (use assms in \<open>auto simp: acyclic_def\<close>)

lemma coloured_start:
  assumes "dict_ok g"
  shows "coloured (map (\<lambda>(k, _). (k, WHITE)) g) c = (if c = WHITE then dom (dict_get g) else {})"
    and "dom (dict_get (map (\<lambda>(k, _). (k, WHITE)) g)) = dom (dict_get g)"
proof -
  have get: "dict_get (map (\<lambda>(k, _). (k, WHITE)) g) k = map_option (\<lambda>_. WHITE) (dict_get g k)" for k
    by (induction g) (auto simp: dict_get_def)
  show "coloured (map (\<lambda>(k, _). (k, WHITE)) g) c = (if c = WHITE then dom (dict_get g) else {})"
    by (auto simp: coloured_def get)
  show "dom (dict_get (map (\<lambda>(k, _). (k, WHITE)) g)) = dom (dict_get g)"
    by (auto simp: get dom_def)
qed

lemma validate_deferral_cases:
  assumes "registry_ok reg"
  shows "(\<exists>x. validate_deferral_graph reg = Some (Inl x) \<and> justified reg x) \<or>
    validate_deferral_graph reg = Some (Inr ()) \<and> acyclic (defers reg) \<and>
      Range (defers reg) \<subseteq> {i. has_agent reg i}"
proof -
  let ?g = "deferral_graph (list_agents reg)" and ?V = "dom (dict_get (deferral_graph (list_agents reg)))"
  note g = graph_of_registry [OF assms]
  let ?c = "map (\<lambda>(aid, _). (aid, WHITE)) ?g"
  show ?thesis
  proof (cases "List.find (\<lambda>(aid, targets). aid \<in> set targets) ?g")
    case (Some hit)
    then have "hit \<in> set ?g \<and> (case hit of (aid, targets) \<Rightarrow> aid \<in> set targets)"
      by (auto simp: find_Some_iff dest: nth_mem)
    then obtain a ts where hit: "hit = (a, ts)" "(a, ts) \<in> set ?g" "a \<in> set ts"
      by (cases hit) auto
    then have "dict_get ?g a = Some ts" using dict_get_Some_iff [OF g(5)] by simp
    with hit(3) have "justified reg (SelfDeferral a)"
      using g(2) [of a a] by (simp add: succs_def dict_get_or_def)
    with Some hit(1) show ?thesis by (simp add: validate_deferral_graph_def Let_def)
  next
    case None
    have inv: "dfs_inv ?V ?g (fst (?c, [] :: string pydict))"
      unfolding dfs_inv_def fst_conv coloured_start [OF g(5)] by (auto intro: exI [of _ "[]"])
    have V: "?V = fst ` set ?g"
      by (simp add: dict_get_def [abs_def] dom_map_of_conv_image_fst)
    have len: "card ?V \<le> length ?g"
      unfolding V by (meson card_image_le card_length finite_set order_trans)
    have "defer_post ?g (?c, []) (set (dict_keys ?g))
        (defer_all (length ?g) ?g (dict_keys ?g) (?c, []))"
    proof (rule defer_all_correct [OF inv])
      show "set (dict_keys ?g) \<subseteq> ?V" unfolding V by simp
      show "card (coloured (fst (?c, [])) WHITE) \<le> length ?g"
        using len by (simp add: coloured_start [OF g(5)])
    qed (simp add: coloured_start [OF g(5)])
    then show ?thesis
    proof (cases rule: defer_postE)
      case (1 x)
      then show ?thesis using None error_justified [OF assms] by (simp add: validate_deferral_graph_def Let_def)
    next
      case (2 color parent)
      then obtain order where o: "set order = coloured color BLACK"
          "topo_ok (\<lambda>x. set (succs ?g x)) id order" by (auto simp: dfs_inv_def)
      have "Domain (edges ?g) \<subseteq> ?V"
        by (auto simp: edges_def succs_def dict_get_or_def split: option.splits dest: sym)
      moreover have "?V \<subseteq> set order" unfolding V o(1) using 2(3) by simp
      ultimately have dom: "Domain (edges ?g) \<subseteq> set order" by blast
      have "Range (edges ?g) \<subseteq> set order"
        using dom topo_ok_rank [OF o(2)] by (auto simp: edges_def)
      moreover have "coloured color BLACK \<subseteq> ?V" using 2(2) by (auto simp: dfs_inv_def coloured_def)
      ultimately show ?thesis
        using None 2(1) topo_ok_acyclic [OF o(2) dom] o(1) g(3,4)
        by (auto simp: validate_deferral_graph_def Let_def)
    qed
  qed
qed

text \<open>C39: the validation of the deferral graph is exact: after any registrations it ends without an
  error exactly when every agent defers to registered agents only and nobody reaches itself by
  deferring; and an error it reports is true: the agent lists itself, the named target is not
  registered, or the printed path is a cycle of deferrals.\<close>

theorem deferral_validation_exact:
  "(validate_deferral_graph (register_all ms) = Some (Inr ()) \<longleftrightarrow>
      acyclic (defers (register_all ms)) \<and>
      Range (defers (register_all ms)) \<subseteq> {i. has_agent (register_all ms) i})
   \<and> (case validate_deferral_graph (register_all ms) of
        Some (Inl x) \<Rightarrow> justified (register_all ms) x
      | r \<Rightarrow> r \<noteq> None)"
  using validate_deferral_cases [OF register_all_ok, of ms] justified_invalid by fastforce

end
