(* ===== verification/DeferToAgent.thy ===== *)
theory DeferToAgent
  imports Deferral AgentLifecycle
begin

text \<open>
  Handing work from one agent to another at run time: the resolver, the depth guard and the context
  bridge of \<^verbatim>\<open>agent/deferral\<close>, and \<^verbatim>\<open>defer_to_agent\<close> of \<^verbatim>\<open>agent/supervisor.py\<close> over the lifecycle of
  \<open>AgentLifecycle\<close>.  One step of the delegate (\<^verbatim>\<open>run_agent_step\<close>) is an argument.
\<close>

subsection \<open>Resolver\<close>

definition resolver_exn :: "string \<Rightarrow> string \<Rightarrow> pyexn" where
  "resolver_exn ty m = PyExn ''src.agent.deferral.resolver'' ty m"

definition resolve_delegate :: "agent_registry \<Rightarrow> string \<Rightarrow> string \<Rightarrow> agent_metadata result" where
  "resolve_delegate reg caller_id target_id =
     (if caller_id = target_id then
        Inl (resolver_exn ''DelegateSelfReferentialError''
          (''Agent '' @ quoted caller_id @ '' cannot defer to itself''))
      else (case get_agent reg caller_id of
          Inl x \<Rightarrow> Inl x
        | Inr caller \<Rightarrow>
            (case get_agent reg target_id of
               Inl x \<Rightarrow> Inl x
             | Inr delegate \<Rightarrow>
                 if target_id \<notin> set (am_defer_to caller) then
                   Inl (resolver_exn ''DelegateNotAllowedError''
                     (''Agent '' @ quoted caller_id @ '' is not allowed to defer to '' @
                      quoted target_id @ ''.  Allowed targets: '' @ list_repr (am_defer_to caller)))
                 else Inr delegate)))"

lemma resolve_delegate_iff:
  "resolve_delegate reg a b = Inr m \<longleftrightarrow> a \<noteq> b \<and> (a, b) \<in> defers reg \<and> get_agent reg b = Inr m"
  by (auto simp: resolve_delegate_def defers_def split: sum.splits)

subsection \<open>Depth guard\<close>

definition depth_guard :: "int \<Rightarrow> int result" where
  "depth_guard max_depth =
     (if max_depth < 1 then Inl (ValueError (''max_depth must be >= 1, got '' @ int_str max_depth))
      else Inr max_depth)"

definition depth_check :: "int \<Rightarrow> int \<Rightarrow> unit result" where
  "depth_check max_depth current_depth =
     (if current_depth \<ge> max_depth then
        Inl (PyExn ''src.agent.deferral.depth_guard'' ''DeferralDepthError''
          (''Deferral depth limit reached (depth='' @ int_str current_depth @ '', max='' @
           int_str max_depth @ '').  Cannot defer further.''))
      else Inr ())"

definition get_next_depth :: "int \<Rightarrow> int \<Rightarrow> int result" where
  "get_next_depth max_depth current_depth =
     (let next_depth = current_depth + 1
      in case depth_check max_depth next_depth of Inl x \<Rightarrow> Inl x | Inr _ \<Rightarrow> Inr next_depth)"

text \<open>The limit is one less than documented: a chain of \<open>max_depth\<close> deferrals is refused, and with
  \<open>max_depth = 1\<close> no agent can defer at all.\<close>

lemma next_depth_iff: "get_next_depth max_depth d = Inr n \<longleftrightarrow> n = d + 1 \<and> d + 1 < max_depth"
  by (auto simp: get_next_depth_def depth_check_def Let_def split: if_splits)

lemma depth_one_never: "depth_guard 1 = Inr 1 \<and> (\<exists>x. get_next_depth 1 0 = Inl x)"
  by (simp add: depth_guard_def get_next_depth_def depth_check_def)

subsection \<open>Context bridge\<close>

text \<open>\<open>content[:500] + ('...' if len(content) > 500 else '')\<close> for a content that is truthy.\<close>

definition clip_content :: "json \<Rightarrow> string result" where
  "clip_content v =
     (case v of
        JStr s \<Rightarrow> Inr (take 500 s @ (if length s > 500 then ''...'' else []))
      | JList _ \<Rightarrow> Inl (TypeError (''can only concatenate list (not '' @ [CHR 0x22] @ ''str'' @ [CHR 0x22] @
          '') to list''))
      | JObj _ \<Rightarrow> Inl (TypeError (''unhashable type: '' @ quoted ''slice''))
      | _ \<Rightarrow> Inl (TypeError (quoted (json_type_name v) @ '' object is not subscriptable'')))"

fun history_lines :: "'a env_scheme \<Rightarrow> json pydict list \<Rightarrow> string list result" where
  "history_lines e [] = Inr []"
| "history_lines e (turn # turns) =
     (let role = dict_get_or turn ''role'' (JStr ''unknown'');
          content = dict_get_or turn ''content'' (JStr [])
      in if \<not> json_truthy content then history_lines e turns
         else (case clip_content content of
             Inl x \<Rightarrow> Inl x
           | Inr short \<Rightarrow>
               (case history_lines e turns of
                  Inl x \<Rightarrow> Inl x
                | Inr ls \<Rightarrow> Inr ((''  ['' @ py_str e role @ '']: '' @ short) # ls))))"

definition build_delegate_prompt ::
  "'a env_scheme \<Rightarrow> string \<Rightarrow> string \<Rightarrow> string \<Rightarrow> string \<Rightarrow> json pydict list \<Rightarrow> string result"
where
  "build_delegate_prompt e delegator_id delegator_name user_message deferral_prompt history =
     (case history_lines e (drop (length history - 6) history) of
        Inl x \<Rightarrow> Inl x
      | Inr turns \<Rightarrow>
          Inr (joined nl
            ([''[Delegated from '' @ delegator_name @ '' ('' @ delegator_id @ '')]'', []] @
             (if deferral_prompt \<noteq> [] then [''Request: '' @ deferral_prompt, []] else []) @
             (if history \<noteq> [] then ''Original conversation context:'' # turns @ [[]] else []) @
             [''Original user request: '' @ user_message])))"

text \<open>The response may be \<open>None\<close>, which cannot be sliced.\<close>

definition build_delegate_result_context ::
  "string \<Rightarrow> string \<Rightarrow> string option \<Rightarrow> bool \<Rightarrow> string result"
where
  "build_delegate_result_context delegate_id delegate_name response_text success =
     (case response_text of
        None \<Rightarrow> Inl (TypeError (quoted ''NoneType'' @ '' object is not subscriptable''))
      | Some t \<Rightarrow>
          Inr (joined nl
            ([''[Delegate '' @ delegate_name @ '' ('' @ delegate_id @ '') '' @
                (if success then ''completed successfully'' else ''failed'') @ '']'', [], take 2000 t] @
             (if length t > 2000 then [''... [response truncated]''] else []))))"

subsection \<open>The hand-off\<close>

definition and_then :: "'a result \<times> 'w \<Rightarrow> ('a \<Rightarrow> 'w \<Rightarrow> 'b result \<times> 'w) \<Rightarrow> 'b result \<times> 'w" where
  "and_then rw f = (case rw of (Inl x, w) \<Rightarrow> (Inl x, w) | (Inr a, w) \<Rightarrow> f a w)"

lemma and_then_simps [simp]:
  "and_then (Inl x, w) f = (Inl x, w)" "and_then (Inr a, w) f = f a w"
  by (simp_all add: and_then_def)

type_synonym 'e agent_step =
  "agent_state \<Rightarrow> 'e agent_world_scheme \<Rightarrow> agent_state result \<times> 'e agent_world_scheme"

text \<open>The metadata holds the depth of an agent that was deferred to, and nothing otherwise.\<close>

definition current_depth :: "agent_state \<Rightarrow> int" where
  "current_depth s =
     (case dict_get_or (as_supervisor_metadata s) ''current_deferral_depth'' (JInt 0) of
        JInt n \<Rightarrow> n | _ \<Rightarrow> 0)"

definition suspend_to_defer ::
  "agent_metadata \<Rightarrow> string \<Rightarrow> string \<Rightarrow> agent_state \<Rightarrow> 'e agent_world_scheme
   \<Rightarrow> agent_state result \<times> 'e agent_world_scheme"
where
  "suspend_to_defer delegate target prompt s w =
     suspend_agent (''Deferring to '' @ ai_name (am_identity delegate) @ '' ('' @ target @ '')'')
       (Some [(''deferral_target'', JStr target), (''deferral_prompt'', JStr (take 200 prompt))]) s w"

definition delegate_prompt :: "string \<Rightarrow> agent_state \<Rightarrow> 'e agent_world_scheme \<Rightarrow> string result" where
  "delegate_prompt prompt s w =
     (let history = (case as_activation_snapshot s of
            None \<Rightarrow> [] | Some a \<Rightarrow> ax_conversation_history (aa_context a));
          user_message = (case as_activation_snapshot s of
            None \<Rightarrow> prompt | Some a \<Rightarrow> ms_message (ae_message (aa_envelope a)))
      in case get_agent (aw_registry w) (as_agent_id s) of
           Inl x \<Rightarrow> Inl x
         | Inr m \<Rightarrow> build_delegate_prompt w (as_agent_id s) (ai_name (am_identity m)) user_message
             prompt history)"

definition set_metadata ::
  "string \<Rightarrow> json \<Rightarrow> agent_state \<Rightarrow> 'e agent_world_scheme \<Rightarrow> agent_state result \<times> 'e agent_world_scheme"
where
  "set_metadata k v s w =
     persist_agent (with_changes
       (\<lambda>s. s\<lparr>as_supervisor_metadata := dict_set (as_supervisor_metadata s) k v\<rparr>)
       ''state transition'' [] s w)"

text \<open>Create, activate, and note the depth.\<close>

definition start_delegate ::
  "string \<Rightarrow> string \<Rightarrow> string \<Rightarrow> int \<Rightarrow> 'e agent_world_scheme \<Rightarrow> agent_state result \<times> 'e agent_world_scheme"
where
  "start_delegate target text delegator_id next_depth w =
     and_then (create_agent target w) (\<lambda>d w.
       (case new_message text [(''origin'', JStr ''deferral''), (''delegator_id'', JStr delegator_id)] of
          Inl x \<Rightarrow> (Inl x, w)
        | Inr msg \<Rightarrow>
            and_then (activate_agent msg ''system'' None None [] [] [] d w)
              (set_metadata ''current_deferral_depth'' (JInt next_depth))))"

fun delegate_loop ::
  "'e agent_step \<Rightarrow> nat \<Rightarrow> agent_state \<Rightarrow> 'e agent_world_scheme
   \<Rightarrow> agent_state result \<times> 'e agent_world_scheme"
where
  "delegate_loop step 0 d w = (Inr d, w)"
| "delegate_loop step (Suc iterations) d w =
     (if is_terminal (as_lifecycle_state d) then (Inr d, w)
      else and_then (resume_agent d w) (\<lambda>d w. and_then (step d w) (delegate_loop step iterations)))"

definition deferral_result :: "string \<Rightarrow> string \<Rightarrow> bool \<Rightarrow> string \<Rightarrow> string \<Rightarrow> json" where
  "deferral_result target name success response context =
     JObj [(''delegate_id'', JStr target), (''delegate_name'', JStr name), (''success'', JBool success),
       (''response'', JStr response), (''response_context'', JStr context)]"

definition resume_delegator ::
  "string \<Rightarrow> agent_metadata \<Rightarrow> agent_state \<Rightarrow> agent_state \<Rightarrow> 'e agent_world_scheme
   \<Rightarrow> agent_state result \<times> 'e agent_world_scheme"
where
  "resume_delegator target delegate d s w =
     (let name = ai_name (am_identity delegate);
          response = (case as_final_response d of
            None \<Rightarrow> Some ''No response from delegate'' | Some r \<Rightarrow> ar_reply r);
          success = (as_lifecycle_state d = LCOMPLETED)
      in case build_delegate_result_context target name response success of
           Inl x \<Rightarrow> (Inl x, w)
         | Inr context \<Rightarrow>
             and_then (resume_agent s w)
               (set_metadata ''deferral_result''
                  (deferral_result target name success (the response) context)))"

definition defer_to_agent ::
  "'e agent_step \<Rightarrow> agent_state \<Rightarrow> string \<Rightarrow> string \<Rightarrow> int \<Rightarrow> bool \<Rightarrow> 'e agent_world_scheme
   \<Rightarrow> agent_state result \<times> 'e agent_world_scheme"
where
  "defer_to_agent step s target prompt max_depth skip_authorization w =
     (case require_not_terminal s of
        Inl x \<Rightarrow> (Inl x, w)
      | Inr _ \<Rightarrow>
          if \<not> is_active (as_lifecycle_state s) then
            (Inl (supervisor_exn ''AgentNotActiveError''
               (''cannot defer from agent '' @ quoted (as_agent_id s) @ '' in state '' @
                lifecycle_value (as_lifecycle_state s) @ ''; expected RUNNING or WAITING'')), w)
          else (case (if skip_authorization then get_agent (aw_registry w) target
                      else resolve_delegate (aw_registry w) (as_agent_id s) target) of
              Inl x \<Rightarrow> (Inl x, w)
            | Inr delegate \<Rightarrow>
                (case depth_guard max_depth of
                   Inl x \<Rightarrow> (Inl x, w)
                 | Inr limit \<Rightarrow>
                     (case get_next_depth limit (current_depth s) of
                        Inl x \<Rightarrow> (Inl x, w)
                      | Inr next_depth \<Rightarrow>
                          and_then (suspend_to_defer delegate target prompt s w) (\<lambda>s w.
                            (case delegate_prompt prompt s w of
                               Inl x \<Rightarrow> (Inl x, w)
                             | Inr text \<Rightarrow>
                                 and_then (start_delegate target text (as_agent_id s) next_depth w) (\<lambda>d w.
                                   and_then (step d w) (\<lambda>d w.
                                     and_then (delegate_loop step 20 d w) (\<lambda>d w.
                                       resume_delegator target delegate d s w)))))))))"

subsection \<open>Updates and the store\<close>

text \<open>\<open>s\<close> is a state the store holds for its agent.\<close>

definition stored :: "agent_state \<Rightarrow> 'e agent_world_scheme \<Rightarrow> bool" where
  "stored s w \<longleftrightarrow> check_agent_state s = Inr s \<and> store_load (as_agent_id s) (aw_store w) = Some s"

text \<open>All that may differ between \<open>w'\<close> and \<open>w\<close> is the agent \<open>i\<close> and what was drawn from the
  environment.\<close>

definition touches :: "string \<Rightarrow> 'e agent_world_scheme \<Rightarrow> 'e agent_world_scheme \<Rightarrow> bool" where
  "touches i w w' \<longleftrightarrow>
     aw_registry w' = aw_registry w \<and> aw_auto_persist w' = aw_auto_persist w \<and>
     e_py_str w' = e_py_str w \<and>
     (\<forall>j. j \<noteq> i \<longrightarrow> store_load j (aw_store w') = store_load j (aw_store w))"

lemma touches_stored:
  "touches i w w' \<Longrightarrow> stored s w \<Longrightarrow> as_agent_id s \<noteq> i \<Longrightarrow> stored s w'"
  by (simp add: touches_def stored_def)

lemma touchesD:
  "touches i w w' \<Longrightarrow> aw_registry w' = aw_registry w"
  "touches i w w' \<Longrightarrow> aw_auto_persist w' = aw_auto_persist w"
  by (simp_all add: touches_def)

lemma persisted:
  assumes s: "check_agent_state s = Inr s"
    and f: "as_agent_id (f s) = as_agent_id s"
      "as_conversation_history (f s) = as_conversation_history s"
    and r: "r \<noteq> []" and w: "aw_auto_persist w"
  shows "\<exists>s' w'. persist_agent (with_changes f r ds s w) = (Inr s', w') \<and> stored s' w' \<and>
    touches (as_agent_id s) w w' \<and> as_agent_id s' = as_agent_id s \<and>
    as_lifecycle_state s' = as_lifecycle_state (f s) \<and>
    as_supervisor_metadata s' = as_supervisor_metadata (f s) \<and>
    as_activation_snapshot s' = as_activation_snapshot (f s) \<and>
    as_final_response s' = as_final_response (f s)"
proof -
  from s have "as_agent_id s \<noteq> []" "as_version s \<ge> 1"
    "\<not> list_ex (\<lambda>entry. dict_get entry ''role'' = None \<or> dict_get entry ''content'' = None)
       (as_conversation_history s)"
    by (auto simp: check_agent_state_def split: if_splits)
  with f r w show ?thesis
    by (simp add: with_changes_def utc_now_def new_lifecycle_event_def check_agent_state_def
        persist_agent_def store_save_def store_load_def stored_def touches_def Let_def)
qed


lemma touches_trans: "touches i w w' \<Longrightarrow> touches i w' w'' \<Longrightarrow> touches i w w''"
  by (simp add: touches_def)

lemma touches_env [simp]:
  "touches i w w"
  "touches i w (w\<lparr>e_tick := n\<rparr>)" "touches i w (w\<lparr>e_uuid_n := n\<rparr>)"
  by (simp_all add: touches_def)

lemma resume_persisted:
  assumes "check_agent_state s = Inr s" "as_lifecycle_state s = LSUSPENDED" "aw_auto_persist w"
  shows "\<exists>s' w'. resume_agent s w = (Inr s', w') \<and> stored s' w' \<and> touches (as_agent_id s) w w' \<and>
    as_agent_id s' = as_agent_id s \<and> as_lifecycle_state s' = LRUNNING \<and>
    as_supervisor_metadata s' = as_supervisor_metadata s"
proof -
  let ?f = "\<lambda>s. s\<lparr>as_lifecycle_state := LRUNNING\<rparr>" and ?r = "''Agent resumed from suspension''"
  obtain ms w1 where w1: "compute_duration_ms (dict_get (as_timestamps s) ''suspended_at'') w = (ms, w1)"
    by fastforce
  then have t: "touches (as_agent_id s) w w1"
    by (auto simp: compute_duration_ms_def utc_now_def touches_def split: option.splits)
  have "resume_agent s w =
      persist_agent (with_changes ?f ?r [(''suspended_duration_ms'', JNum ms)] s w1)"
    using assms(2) w1 by (simp add: resume_agent_def require_not_terminal_def is_terminal_def)
  moreover have "aw_auto_persist w1" using assms(3) touchesD(2) [OF t] by simp
  ultimately show ?thesis
    using persisted [OF assms(1), of ?f ?r w1 "[(''suspended_duration_ms'', JNum ms)]"] touches_trans [OF t]
    by fastforce
qed

lemma metadata_persisted:
  assumes "check_agent_state s = Inr s" "aw_auto_persist w"
  shows "\<exists>s' w'. set_metadata k v s w = (Inr s', w') \<and> stored s' w' \<and> touches (as_agent_id s) w w' \<and>
    as_agent_id s' = as_agent_id s \<and> as_lifecycle_state s' = as_lifecycle_state s \<and>
    as_supervisor_metadata s' = dict_set (as_supervisor_metadata s) k v \<and>
    as_final_response s' = as_final_response s"
  using persisted [OF assms(1) _ _ _ assms(2), of
      "\<lambda>s. s\<lparr>as_supervisor_metadata := dict_set (as_supervisor_metadata s) k v\<rparr>" "''state transition''"]
  unfolding set_metadata_def by fastforce

lemma suspend_persisted:
  assumes "check_agent_state s = Inr s" "is_active (as_lifecycle_state s)" "aw_auto_persist w"
  shows "\<exists>s' w'. suspend_to_defer m target prompt s w = (Inr s', w') \<and> stored s' w' \<and>
    touches (as_agent_id s) w w' \<and> as_agent_id s' = as_agent_id s \<and> as_lifecycle_state s' = LSUSPENDED \<and>
    as_supervisor_metadata s' = as_supervisor_metadata s \<and>
    as_activation_snapshot s' = as_activation_snapshot s"
proof -
  have "\<not> is_terminal (as_lifecycle_state s)" using assms(2) by (auto simp: is_active_def is_terminal_def)
  then show ?thesis
    using persisted [OF assms(1) _ _ _ assms(3), of "\<lambda>s. s\<lparr>as_lifecycle_state := LSUSPENDED\<rparr>"
        "''Deferring to '' @ ai_name (am_identity m) @ '' ('' @ target @ '')''"] assms(2)
    unfolding suspend_to_defer_def suspend_agent_def require_not_terminal_def by fastforce
qed

lemma create_persisted:
  assumes "get_agent (aw_registry w) i = Inr m" "i \<noteq> []" "aw_auto_persist w"
  shows "\<exists>d w'. create_agent i w = (Inr d, w') \<and> stored d w' \<and> touches i w w' \<and> as_agent_id d = i \<and>
    as_lifecycle_state d = LCREATED \<and> as_final_response d = None"
  using assms
  by (simp add: create_agent_def utc_now_def new_uuid_def new_lifecycle_event_def check_agent_state_def
      persist_agent_def store_save_def store_load_def stored_def touches_def Let_def)

lemma or_uuid_frame: "touches i w (snd (or_uuid x w))"
  by (auto simp: or_uuid_def new_uuid_def split: option.splits list.splits)

lemma s52_frame:
  assumes "get_agent reg i = Inr m" "i \<noteq> []" "channel \<in> set VALID_CHANNELS"
  shows "\<exists>ctx w'. s52_activate_agent i msg reg channel cid tid h hints cm w = (Inr ctx, w') \<and> touches j w w'"
proof -
  let ?w = "w\<lparr>e_tick := Suc (e_tick w)\<rparr>"
  obtain c1 w1 c2 w2 where u: "or_uuid cid ?w = (c1, w1)" "or_uuid tid w1 = (c2, w2)" by fastforce
  have "touches j w w2"
    using or_uuid_frame [of j ?w cid] or_uuid_frame [of j w1 tid] u touches_trans [of j w ?w]
      touches_trans [of j w w1 w2] by simp
  moreover have "channel \<in> set ACTIVATION_AUTHORIZED_CHANNELS" "channel \<noteq> []"
    using assms(3) by (auto simp: VALID_CHANNELS_def ACTIVATION_AUTHORIZED_CHANNELS_def)
  ultimately show ?thesis
    using assms u
    by (simp add: s52_activate_agent_def check_envelope_def dict_get_or_def dict_get_def utc_now_def)
qed

lemma activate_persisted:
  assumes "stored d w" "as_lifecycle_state d = LCREATED" "aw_auto_persist w"
    and "get_agent (aw_registry w) (as_agent_id d) = Inr m"
  shows "\<exists>d' w'. activate_agent msg ''system'' None None [] [] [] d w = (Inr d', w') \<and> stored d' w' \<and>
    touches (as_agent_id d) w w' \<and> as_agent_id d' = as_agent_id d \<and>
    as_lifecycle_state d' = LACTIVATED \<and> as_final_response d' = as_final_response d"
proof -
  have ne: "as_agent_id d \<noteq> []" and d: "check_agent_state d = Inr d"
    using assms(1) by (auto simp: stored_def check_agent_state_def split: if_splits)
  have "''system'' \<in> set VALID_CHANNELS" by (simp add: VALID_CHANNELS_def)
  from s52_frame [OF assms(4) ne this, of msg "Some (or_str None (as_correlation_id d))"
      "Some (or_str None (as_trace_id d))" "[]" "[]" "[]" w "as_agent_id d"]
  obtain ctx w1 where c: "s52_activate_agent (as_agent_id d) msg (aw_registry w) ''system''
        (Some (or_str None (as_correlation_id d))) (Some (or_str None (as_trace_id d))) [] [] [] w
      = (Inr ctx, w1)" and t: "touches (as_agent_id d) w w1" by blast
  let ?f = "\<lambda>s. s\<lparr>as_lifecycle_state := LACTIVATED, as_activation_snapshot := Some ctx,
    as_correlation_id := or_str None (as_correlation_id s), as_trace_id := or_str None (as_trace_id s)\<rparr>"
  have "activate_agent msg ''system'' None None [] [] [] d w =
      persist_agent (with_changes ?f (''Agent activated via '' @ ''system'' @ '' channel'')
        [(''channel'', JStr ''system'')] d w1)"
    using assms(2) c by (simp add: activate_agent_def require_not_terminal_def is_terminal_def)
  moreover have "aw_auto_persist w1" using assms(3) touchesD(2) [OF t] by simp
  ultimately show ?thesis
    using persisted [OF d, of ?f "''Agent activated via '' @ ''system'' @ '' channel''" w1
        "[(''channel'', JStr ''system'')]"] touches_trans [OF t]
    by fastforce
qed

lemma start_persisted:
  assumes "get_agent (aw_registry w) i = Inr m" "i \<noteq> []" "aw_auto_persist w" "text \<noteq> []"
  shows "\<exists>d w'. start_delegate i text from_id depth w = (Inr d, w') \<and> stored d w' \<and> touches i w w' \<and>
    as_agent_id d = i \<and> as_lifecycle_state d = LACTIVATED \<and> as_final_response d = None \<and>
    current_depth d = depth"
proof -
  let ?ctx = "[(''origin'', JStr ''deferral''), (''delegator_id'', JStr from_id)]"
  obtain d1 w1 where 1: "create_agent i w = (Inr d1, w1)" "stored d1 w1" "touches i w w1"
      "as_agent_id d1 = i" "as_lifecycle_state d1 = LCREATED" "as_final_response d1 = None"
    using create_persisted [OF assms(1-3)] by blast
  obtain msg where msg: "new_message text ?ctx = Inr msg"
    using assms(4) by (simp add: new_message_def check_message_def json_incompatible.simps)
  have "aw_auto_persist w1" "get_agent (aw_registry w1) (as_agent_id d1) = Inr m"
    using assms(1,3) 1(4) touchesD [OF 1(3)] by simp_all
  from activate_persisted [OF 1(2,5) this, of msg]
  obtain d2 w2 where 2: "activate_agent msg ''system'' None None [] [] [] d1 w1 = (Inr d2, w2)"
      "stored d2 w2" "touches i w1 w2" "as_agent_id d2 = i" "as_lifecycle_state d2 = LACTIVATED"
      "as_final_response d2 = None"
    using 1(4,6) by auto
  have "aw_auto_persist w2" using assms(3) touchesD(2) [OF 1(3)] touchesD(2) [OF 2(3)] by simp
  moreover have "check_agent_state d2 = Inr d2" using 2(2) by (simp add: stored_def)
  ultimately obtain d3 w3 where 3: "set_metadata ''current_deferral_depth'' (JInt depth) d2 w2 = (Inr d3, w3)"
      "stored d3 w3" "touches i w2 w3" "as_agent_id d3 = i" "as_lifecycle_state d3 = LACTIVATED"
      "as_final_response d3 = None" "current_depth d3 = depth"
    using metadata_persisted [of d2 w2 "''current_deferral_depth''" "JInt depth"] 2(4-6)
    by (auto simp: current_depth_def)
  have "start_delegate i text from_id depth w = (Inr d3, w3)"
    by (simp add: start_delegate_def 1(1) msg 2(1) 3(1))
  moreover have "touches i w w3" using touches_trans 1(3) 2(3) 3(3) by blast
  ultimately show ?thesis using 3 by blast
qed


subsection \<open>The outcome of a hand-off\<close>

text \<open>The hand-off passes its guards: an active agent, a delegate it may defer to, depth left, and a
  history that can be printed.\<close>

definition can_defer :: "agent_state \<Rightarrow> string \<Rightarrow> string \<Rightarrow> int \<Rightarrow> 'e agent_world_scheme \<Rightarrow> bool" where
  "can_defer s target prompt max_depth w \<longleftrightarrow>
     check_agent_state s = Inr s \<and> is_active (as_lifecycle_state s) \<and> aw_auto_persist w \<and>
     target \<noteq> [] \<and> (case resolve_delegate (aw_registry w) (as_agent_id s) target of Inl _ \<Rightarrow> False | Inr _ \<Rightarrow> True) \<and>
     1 \<le> max_depth \<and> current_depth s + 1 < max_depth \<and>
     (case delegate_prompt prompt s w of Inl _ \<Rightarrow> False | Inr _ \<Rightarrow> True)"

lemma history_lines_env: "e_py_str e = e_py_str e' \<Longrightarrow> history_lines e turns = history_lines e' turns"
  by (induction turns) (simp_all add: py_str_def Let_def split: json.splits sum.splits)

lemma delegate_prompt_env:
  assumes "touches i w w'" "as_agent_id s' = as_agent_id s"
    "as_activation_snapshot s' = as_activation_snapshot s"
  shows "delegate_prompt prompt s' w' = delegate_prompt prompt s w"
proof -
  have "e_py_str w' = e_py_str w" using assms(1) by (simp add: touches_def)
  from history_lines_env [OF this] have "build_delegate_prompt w' = build_delegate_prompt w"
    by (intro ext) (simp add: build_delegate_prompt_def)
  then show ?thesis using assms by (simp add: delegate_prompt_def touchesD split: sum.splits)
qed

lemma delegate_prompt_ne: "delegate_prompt prompt s w = Inr text \<Longrightarrow> text \<noteq> []"
  by (auto simp: delegate_prompt_def build_delegate_prompt_def Let_def split: sum.splits)

text \<open>Up to the first step of the delegate.\<close>

lemma deferral_start:
  assumes "can_defer s target prompt max_depth w"
  shows "\<exists>m s1 d1 w1. get_agent (aw_registry w) target = Inr m \<and> target \<noteq> as_agent_id s \<and>
    stored s1 w1 \<and> as_agent_id s1 = as_agent_id s \<and> as_lifecycle_state s1 = LSUSPENDED \<and>
    stored d1 w1 \<and> as_agent_id d1 = target \<and> as_lifecycle_state d1 = LACTIVATED \<and>
    current_depth d1 = current_depth s + 1 \<and> aw_auto_persist w1 \<and>
    defer_to_agent step s target prompt max_depth False w =
      and_then (step d1 w1) (\<lambda>d w. and_then (delegate_loop step 20 d w)
        (\<lambda>d w. resume_delegator target m d s1 w))"
proof -
  note c = assms [unfolded can_defer_def]
  obtain m where m: "resolve_delegate (aw_registry w) (as_agent_id s) target = Inr m"
    using c by (auto split: sum.splits)
  then have res: "target \<noteq> as_agent_id s" "get_agent (aw_registry w) target = Inr m"
    by (auto simp: resolve_delegate_iff)
  obtain body where body: "delegate_prompt prompt s w = Inr body" using c by (auto split: sum.splits)
  obtain s1 w1 where 1: "suspend_to_defer m target prompt s w = (Inr s1, w1)" "stored s1 w1"
      "touches (as_agent_id s) w w1" "as_agent_id s1 = as_agent_id s" "as_lifecycle_state s1 = LSUSPENDED"
      "as_activation_snapshot s1 = as_activation_snapshot s"
    using suspend_persisted c by blast
  have body1: "delegate_prompt prompt s1 w1 = Inr body"
    using delegate_prompt_env [OF 1(3,4,6)] body by simp
  have "get_agent (aw_registry w1) target = Inr m" "aw_auto_persist w1" "target \<noteq> []"
    using res(2) c touchesD [OF 1(3)] by simp_all
  from start_persisted [OF this(1,3,2) delegate_prompt_ne [OF body1], of "as_agent_id s" "current_depth s + 1"]
  obtain d1 w2 where 2: "start_delegate target body (as_agent_id s) (current_depth s + 1) w1 = (Inr d1, w2)"
      "stored d1 w2" "touches target w1 w2" "as_agent_id d1 = target" "as_lifecycle_state d1 = LACTIVATED"
      "current_depth d1 = current_depth s + 1"
    by blast
  have s1: "stored s1 w2" using touches_stored [OF 2(3) 1(2)] res(1) 1(4) by simp
  have auto: "aw_auto_persist w2" using \<open>aw_auto_persist w1\<close> touchesD(2) [OF 2(3)] by simp
  have "\<not> is_terminal (as_lifecycle_state s)" using c by (auto simp: is_active_def is_terminal_def)
  moreover have "depth_guard max_depth = Inr max_depth"
      "get_next_depth max_depth (current_depth s) = Inr (current_depth s + 1)"
    using c by (simp_all add: depth_guard_def next_depth_iff)
  ultimately have "defer_to_agent step s target prompt max_depth False w =
      and_then (step d1 w2) (\<lambda>d w. and_then (delegate_loop step 20 d w)
        (\<lambda>d w. resume_delegator target m d s1 w))"
    using c m 1(1,4) body1 2(1) by (simp add: defer_to_agent_def require_not_terminal_def)
  with res s1 1(4,5) 2 auto show ?thesis by blast
qed

text \<open>A delegate that completes in its first step hands its reply back to the delegator, which runs
  again; without a reply the hand-off raises and the delegator stays suspended.\<close>

lemma completed_delegate_delivers:
  assumes can: "can_defer s target prompt max_depth w"
    and step: "\<And>d w. stored d w \<Longrightarrow> as_agent_id d = target \<Longrightarrow> as_lifecycle_state d = LACTIVATED \<Longrightarrow>
      aw_auto_persist w \<Longrightarrow> \<exists>d' w'. step d w = (Inr d', w') \<and> as_lifecycle_state d' = LCOMPLETED \<and>
        as_final_response d' = Some r \<and> touches target w w'"
  shows "\<exists>res w' s'. defer_to_agent step s target prompt max_depth False w = (res, w') \<and>
    store_load (as_agent_id s) (aw_store w') = Some s' \<and>
    (case ar_reply r of
       None \<Rightarrow> as_lifecycle_state s' = LSUSPENDED \<and> (\<exists>x. res = Inl x \<and> exn_type x = ''TypeError'')
     | Some reply \<Rightarrow> as_lifecycle_state s' = LRUNNING \<and> res = Inr s' \<and>
         (\<exists>name context. dict_get (as_supervisor_metadata s') ''deferral_result'' =
            Some (deferral_result target name True reply context)))"
proof -
  from deferral_start [OF can, of step] obtain m s1 d1 w1 where
    1: "target \<noteq> as_agent_id s" "stored s1 w1" "as_agent_id s1 = as_agent_id s"
      "as_lifecycle_state s1 = LSUSPENDED" "stored d1 w1" "as_agent_id d1 = target"
      "as_lifecycle_state d1 = LACTIVATED" "aw_auto_persist w1"
    and run: "defer_to_agent step s target prompt max_depth False w =
      and_then (step d1 w1) (\<lambda>d w. and_then (delegate_loop step 20 d w)
        (\<lambda>d w. resume_delegator target m d s1 w))" by blast
  from step [OF 1(5-8)] obtain d2 w2 where 2: "step d1 w1 = (Inr d2, w2)"
      "as_lifecycle_state d2 = LCOMPLETED" "as_final_response d2 = Some r" "touches target w1 w2" by blast
  have s1: "stored s1 w2" using touches_stored [OF 2(4) 1(2)] 1(1,3) by simp
  have auto: "aw_auto_persist w2" using 1(8) touchesD(2) [OF 2(4)] by simp
  have "delegate_loop step 20 d2 w2 = (Inr d2, w2)"
    using 2(2) by (simp add: is_terminal_def numeral_eq_Suc)
  then have res: "defer_to_agent step s target prompt max_depth False w =
      resume_delegator target m d2 s1 w2" by (simp add: run 2(1))
  show ?thesis
  proof (cases "ar_reply r")
    case None
    then show ?thesis
      using res s1 1(3,4) 2(3)
      by (auto simp: resume_delegator_def build_delegate_result_context_def TypeError_def stored_def)
  next
    case (Some reply)
    obtain ctxt where ctx: "build_delegate_result_context target (ai_name (am_identity m)) (Some reply) True
        = Inr ctxt"
      by (simp add: build_delegate_result_context_def)
    have ok: "check_agent_state s1 = Inr s1" using s1 by (simp add: stored_def)
    obtain s2 w3 where 3: "resume_agent s1 w2 = (Inr s2, w3)" "stored s2 w3" "touches (as_agent_id s1) w2 w3"
        "as_agent_id s2 = as_agent_id s1" "as_lifecycle_state s2 = LRUNNING"
      using resume_persisted [OF ok 1(4) auto] by blast
    let ?v = "deferral_result target (ai_name (am_identity m)) True reply ctxt"
    have "check_agent_state s2 = Inr s2" "aw_auto_persist w3"
      using 3(2) auto touchesD(2) [OF 3(3)] by (simp_all add: stored_def)
    from metadata_persisted [OF this, of "''deferral_result''" ?v] obtain s3 w4 where
      4: "set_metadata ''deferral_result'' ?v s2 w3 = (Inr s3, w4)" "stored s3 w4"
        "as_agent_id s3 = as_agent_id s2" "as_lifecycle_state s3 = LRUNNING"
        "as_supervisor_metadata s3 = dict_set (as_supervisor_metadata s2) ''deferral_result'' ?v"
      using 3(5) by auto
    have "resume_delegator target m d2 s1 w2 = (Inr s3, w4)"
      using 2(2,3) Some ctx 3(1) 4(1) by (simp add: resume_delegator_def)
    with res 4 3(4) 1(3) Some show ?thesis by (auto simp: stored_def)
  qed
qed

text \<open>C40: a hand-off to a delegate that must wait strands the delegator: when the delegate's first step
  ends in WAITING, the loop that is to run it to its end tries to resume it, which only a suspended
  agent allows; the hand-off raises \<open>AgentNotSuspendedError\<close>, and the store keeps the delegator
  SUSPENDED although nothing will resume it.\<close>

theorem waiting_delegate_strands:
  assumes can: "can_defer s target prompt max_depth w"
    and step: "\<And>d w. stored d w \<Longrightarrow> as_agent_id d = target \<Longrightarrow> as_lifecycle_state d = LACTIVATED \<Longrightarrow>
      aw_auto_persist w \<Longrightarrow>
      \<exists>d' w'. step d w = (Inr d', w') \<and> as_lifecycle_state d' = LWAITING \<and> touches target w w'"
  shows "\<exists>x w' s'. defer_to_agent step s target prompt max_depth False w = (Inl x, w') \<and>
    exn_type x = ''AgentNotSuspendedError'' \<and>
    store_load (as_agent_id s) (aw_store w') = Some s' \<and> as_lifecycle_state s' = LSUSPENDED"
proof -
  from deferral_start [OF can, of step] obtain m s1 d1 w1 where
    1: "target \<noteq> as_agent_id s" "stored s1 w1" "as_agent_id s1 = as_agent_id s"
      "as_lifecycle_state s1 = LSUSPENDED" "stored d1 w1" "as_agent_id d1 = target"
      "as_lifecycle_state d1 = LACTIVATED" "aw_auto_persist w1"
    and run: "defer_to_agent step s target prompt max_depth False w =
      and_then (step d1 w1) (\<lambda>d w. and_then (delegate_loop step 20 d w)
        (\<lambda>d w. resume_delegator target m d s1 w))" by blast
  from step [OF 1(5-8)] obtain d2 w2 where 2: "step d1 w1 = (Inr d2, w2)"
      "as_lifecycle_state d2 = LWAITING" "touches target w1 w2" by blast
  have s1: "stored s1 w2" using touches_stored [OF 2(3) 1(2)] 1(1,3) by simp
  obtain x where x: "resume_agent d2 w2 = (Inl x, w2)" "exn_type x = ''AgentNotSuspendedError''"
    using 2(2) by (simp add: resume_agent_def require_not_terminal_def is_terminal_def supervisor_exn_def)
  then have "delegate_loop step 20 d2 w2 = (Inl x, w2)"
    using 2(2) by (simp add: is_terminal_def numeral_eq_Suc)
  with x s1 1(3,4) show ?thesis by (auto simp: run 2(1) stored_def)
qed

definition waiting_step :: "unit agent_step" where
  "waiting_step d w =
     persist_agent (with_changes (\<lambda>s. s\<lparr>as_lifecycle_state := LWAITING\<rparr>) ''waiting'' [] d w)"

definition pair_world :: agent_world where
  "pair_world = demo_world\<lparr>aw_registry := register_all [demo_metadata ''a'' [''b''], demo_metadata ''b'' []]\<rparr>"

theorem waiting_delegate_strands_witness:
  "\<exists>x w' s'. defer_to_agent waiting_step (demo_agent\<lparr>as_lifecycle_state := LRUNNING\<rparr>) ''b'' ''help'' 3 False
      pair_world = (Inl x, w') \<and> exn_type x = ''AgentNotSuspendedError'' \<and>
    store_load ''a'' (aw_store w') = Some s' \<and> as_lifecycle_state s' = LSUSPENDED"
proof -
  let ?s = "demo_agent\<lparr>as_lifecycle_state := LRUNNING\<rparr>"
  have "can_defer ?s ''b'' ''help'' 3 pair_world" by code_simp
  moreover have "\<exists>d' w'. waiting_step d w = (Inr d', w') \<and> as_lifecycle_state d' = LWAITING \<and>
      touches ''b'' w w'"
    if "stored d w" "as_agent_id d = ''b''" "aw_auto_persist w" for d w
    using persisted [of d "\<lambda>s. s\<lparr>as_lifecycle_state := LWAITING\<rparr>" "''waiting''" w "[]"] that
    by (auto simp: waiting_step_def stored_def)
  ultimately have "\<exists>x w' s'. defer_to_agent waiting_step ?s ''b'' ''help'' 3 False pair_world = (Inl x, w') \<and>
    exn_type x = ''AgentNotSuspendedError'' \<and>
    store_load (as_agent_id ?s) (aw_store w') = Some s' \<and> as_lifecycle_state s' = LSUSPENDED"
    by (intro waiting_delegate_strands)
  then show ?thesis by (simp add: demo_agent_def)
qed

end
