(* ===== verification/Spec2Isabelle.thy ===== *)
theory Spec2Isabelle
  imports Worker Degraded Scheduling Decomposition Supervisor QueueSupervisor Consistency
    WorkflowDirectives Governance TodoWorker Security Resilience DeferToAgent
begin

text \<open>
  A model of the job runtime of vai-core: the part of the platform (\<^verbatim>\<open>src/src/platform\<close>) that
  queues, schedules, executes, retries and supervises jobs, and of the agent layer above it (\<^verbatim>\<open>src/src/agent\<close>): the decomposition
  of a job into subtasks, the workflow engine with the loop that drives it, the lifecycle of an agent
  and the deferral from one agent to another, the agent's memory, and its todo lists.

  \<^bold>\<open>The program.\<close>  A message becomes a job, which the control plane registers in the job store and
  which waits in a queue.  A worker pops it, hydrates it from the store, and runs a pipeline of
  stages over it (crash recovery, idempotency, degraded mode, execution); the execution stage calls
  the executor until it is done or the retry policy, the poison detector or the panic guard ends the
  job.  Only the control plane writes job states.  A job may be decomposed: the orchestrator
  validates the plan, registers one job per subtask, a join handle over them and a continuation job;
  the hook that runs when a job completes reports it to the handle and releases or cancels its
  siblings.  Supervisors watch the workers, the queue and the agreement of the layers.  An agent may
  follow a workflow, a graph of steps validated when it is loaded: the engine navigates the graph and
  says what to do next, the invoker does it (an LLM call, a tool, a council, a question to the user,
  a sub-workflow), reports the result and asks again until the execution ends or must wait; the
  execution is kept in an instance store and, while the agent waits, in the agent's metadata.
  Agents are declared in a registry; one may hand work to another along a graph that is validated at
  start-up.  What an agent remembers (subgoals, the records of their steps, plans, drift events) is
  kept in four stores behind a governance layer, which validates what is written, evicts what closes
  and answers reads; a conversation that grows too long is compacted into a summary.  A todo list of
  tasks and goals is worked off item by item, one item per call of its worker, as the cycles of one
  job.  At the boundary of the platform, tokens, request rates and payloads are checked, and calls of
  tools and LLMs are retried behind a circuit breaker.

  \<^bold>\<open>The theories\<close>, in the order of their imports:
  \<^item> \<^verbatim>\<open>Prelude\<close>: exceptions as values, JSON, dicts as ordered association lists, the environment
    (identifiers, clock, text of floats and times), list and dict lemmas;
  \<^item> \<^verbatim>\<open>LifecycleSpec\<close>, \<^verbatim>\<open>JobState\<close> (\<^verbatim>\<open>runtime/job_state.py\<close>): a locale for state machines whose
    histories run once, and the job's state machine as its instance;
  \<^item> \<^verbatim>\<open>Job\<close> (\<^verbatim>\<open>runtime/job.py\<close>, \<^verbatim>\<open>execution_context.py\<close>, \<^verbatim>\<open>join_handle.py\<close>, the message of
    \<^verbatim>\<open>gateway/normalization.py\<close>): records, and the join handle with its abstract specification;
  \<^item> \<^verbatim>\<open>JobQueue\<close> (\<^verbatim>\<open>platform/queue/queue.py\<close>): the queue contract as locales, the in-memory
    queue as their instance;
  \<^item> \<^verbatim>\<open>Stores\<close> (\<^verbatim>\<open>runtime/job_store\<close>): the contract of a keyed store, interpreted for the job
    store and for the join store;
  \<^item> \<^verbatim>\<open>ControlPlane\<close> (\<^verbatim>\<open>runtime/control_plane.py\<close>, \<^verbatim>\<open>runtime/heartbeat\<close>): the runtime state,
    every state-writing operation, the soundness of the trace, the heartbeat monitor;
  \<^item> \<^verbatim>\<open>Retry\<close> (\<^verbatim>\<open>runtime/retry\<close>, \<^verbatim>\<open>runtime/safety/panic_guard.py\<close>, \<^verbatim>\<open>runtime/recovery\<close>): the
    decisions taken on failures;
  \<^item> \<^verbatim>\<open>Degraded\<close> (\<^verbatim>\<open>runtime/safety/degraded_mode.py\<close>): entry, recovery and the table of operations;
  \<^item> \<^verbatim>\<open>Pipeline\<close> (\<^verbatim>\<open>runtime/pipeline\<close>), \<^verbatim>\<open>Worker\<close> (\<^verbatim>\<open>runtime/worker.py\<close>,
    \<^verbatim>\<open>gateway/channels/registry.py\<close>): the four stages, the multi-cycle loop, and the worker's processing of one job and of many;
  \<^item> \<^verbatim>\<open>Scheduling\<close> (\<^verbatim>\<open>runtime/scheduling/policy.py\<close>, \<^verbatim>\<open>worker_tick.py\<close>): selection of the next
    job;
  \<^item> \<^verbatim>\<open>Dependency\<close> (\<^verbatim>\<open>runtime/scheduling/dependency.py\<close>): releasing and cancelling siblings;
  \<^item> \<^verbatim>\<open>Dag\<close>, \<^verbatim>\<open>Merge\<close>, \<^verbatim>\<open>Decomposition\<close> (\<^verbatim>\<open>agent/decomposition\<close> and the callbacks of
    \<^verbatim>\<open>agent/composition_root.py\<close>): validation and sorting of plans, merging of results, fan-out,
    fan-in, cancellation and the two executors;
  \<^item> \<^verbatim>\<open>Supervisor\<close>, \<^verbatim>\<open>QueueSupervisor\<close>, \<^verbatim>\<open>Consistency\<close> (\<^verbatim>\<open>platform/supervisor\<close>, and the cycle of
    \<^verbatim>\<open>runtime/worker_pool/pool.py\<close>): the three supervisors;
  \<^item> \<^verbatim>\<open>WorkflowGraph\<close> (\<^verbatim>\<open>agent/workflow/workflow_definition.py\<close>, \<^verbatim>\<open>registry.py\<close>): definitions, their
    validation with Kahn's algorithm, the registry;
  \<^item> \<^verbatim>\<open>WorkflowEngine\<close> (\<^verbatim>\<open>agent/workflow/engine.py\<close>): execution states, the step handlers, the
    operations, and the invariant of the states an execution can reach;
  \<^item> \<^verbatim>\<open>WorkflowOps\<close> (\<^verbatim>\<open>agent/workflow/instance_store.py\<close>, \<^verbatim>\<open>ops.py\<close>, \<^verbatim>\<open>trigger_router.py\<close>,
    \<^verbatim>\<open>event_bus.py\<close>): the instance store as an instance of the keyed store, cancel and retry, events,
    and the dict form of an execution;
  \<^item> \<^verbatim>\<open>AgentRegistry\<close> (\<^verbatim>\<open>agent/registry.py\<close>, \<^verbatim>\<open>selection.py\<close>, \<^verbatim>\<open>activation.py\<close>): declared
    agents, the choice of one for a step, the context it is activated with;
  \<^item> \<^verbatim>\<open>AgentLifecycle\<close> (\<^verbatim>\<open>agent/interfaces/agent_state.py\<close> and the lifecycle operations of
    \<^verbatim>\<open>agent/supervisor.py\<close>): the agent's state, its updates and its history;
  \<^item> \<^verbatim>\<open>WorkflowInvoker\<close>, \<^verbatim>\<open>WorkflowDirectives\<close> (\<^verbatim>\<open>agent/workflow_invoker.py\<close>,
    \<^verbatim>\<open>agent/job_interface.py\<close>): the step loop with its templates, prompts and exits, and the
    \<^verbatim>\<open>/invoke-workflow\<close> directives of a reply;
  \<^item> \<^verbatim>\<open>Deferral\<close>, \<^verbatim>\<open>DeferToAgent\<close> (\<^verbatim>\<open>agent/deferral\<close> and \<^verbatim>\<open>defer_to_agent\<close> of
    \<^verbatim>\<open>agent/supervisor.py\<close>): the validation of the deferral graph, with the same search and the same
    lemmas on orders as the plans of \<open>Dag\<close>, and the hand-off over the lifecycle of two agents;
  \<^item> \<^verbatim>\<open>MemoryTypes\<close>, \<^verbatim>\<open>MemoryStores\<close>, \<^verbatim>\<open>Summaries\<close> (\<^verbatim>\<open>agent/memory/types\<close>, the four stores of
    \<^verbatim>\<open>agent/memory\<close>, \<^verbatim>\<open>agent/memory/summarisation\<close>): subgoals, segments, plans and drift events, their
    hashes and transitions, their stores, and their summaries;
  \<^item> \<^verbatim>\<open>Eviction\<close>, \<^verbatim>\<open>Compaction\<close>, \<^verbatim>\<open>Governance\<close> (the directories of these names): what is evicted
    when a subgoal closes, the compaction of conversations, the validated writes and reads;
  \<^item> \<^verbatim>\<open>TodoStore\<close>, \<^verbatim>\<open>TodoWorker\<close> (\<^verbatim>\<open>capabilities/planner/todo_store.py\<close>, \<^verbatim>\<open>agent/planner\<close>): the two
    tables and the functions its SQL statements denote, the worker with its child workflows, and the
    job that runs a list through the worker of the platform;
  \<^item> \<^verbatim>\<open>Security\<close> (\<^verbatim>\<open>platform/security/hardening.py\<close>), \<^verbatim>\<open>Resilience\<close> (\<^verbatim>\<open>runtime/retry\<close>): the checks at
    the boundary, the retry loops and the circuit breaker.

  \<^bold>\<open>How the code is represented.\<close>  A class is a record whose fields carry a prefix; a method is a
  definition that takes the object and returns it updated; an exception is the left of a sum; a
  Python int is \<open>int\<close>, a float a rational, so float arithmetic is exact; a dict keeps its insertion
  order.  The runtime state \<open>rt\<close> extends the environment by the two stores, the queue, and what
  was done to the outside (delays slept, executor calls, messages sent).  A Python object shared
  between a queue and a store is one value in each: the code saves a job after every change of it
  that the model tracks, and where a property depends on the copies, it is stated on the store.  Calls
  are sequential: the locks of the stores make each store operation one step, and runs of several
  components are sequences of operations.

  \<^bold>\<open>Bounds and fuel.\<close>  The execution loop takes fuel; the termination properties give the fuel that
  is enough (the cycles of the executor plus the attempts of the retry table).  The depth-first
  searches over a plan take the number of subtasks, that over the deferral graph the number of
  agents, and Kahn's algorithm the number of steps; each is proved to be enough.  The loops of the
  workflow invoker (50), of a goal (its maximum of iterations), of a delegate (20) and of the retries
  count down what the code allows, so running out is a result of the code.  The loop of a todo item
  and the walk that prints a deferral cycle are partial functions, whose value is \<open>None\<close> where the
  code does not return.  The run of a todo list takes the fuel of the execution loop, and a property
  says when no fuel is enough.

  \<^bold>\<open>What the lemmas show.\<close>  Invariants: the trace of a job replays its state, no job is lost by the
  queue, the stores are keyed, an agent's history is a run of its lifecycle, governed writes keep the
  memory consistent, the request rate is held in every window.  Refinements: the join handle, the
  stores, fan-out and the circuit breaker implement abstract specifications.  Equivalences:
  plan, workflow and deferral validation, degraded entry, detection of stuck jobs, what eviction
  removes, when a todo list has nothing to hand out.  Termination: of the execution stage, of the worker, of the
  searches, and of a todo list exactly when nothing waits for a failed item.  Liveness: a plan
  without dependencies completes, and a workflow of tool steps without a loop runs them in order.  Several
  properties state what the code does where that is not what its documentation says: a subtask with
  a dependency is never released, degraded mode is never left, a redelivered success raises, the
  pool's supervision never acts, a retried workflow does not run the failed step, an answer is filed
  under the wrong step, a sub-workflow replaces its parent, one guarded loop excuses all others, a
  stale snapshot overwrites a cancelled agent, closing a subgoal breaks the consistency of the
  memory, one summary marks all closed subgoals, a completion leaves drift events behind, an
  exhausted goal costs two attempts, an answer with a special token leaves a compaction half done, a
  record the audit accepts cannot be read, the text of a task is always \<^verbatim>\<open>Done.\<close>, and a delegate that waits
  strands the agent that deferred to it.

  \<^bold>\<open>Not modelled.\<close>  Threads and their interleaving below the granularity of store operations; the
  polling loop of \<open>parallelize\<close>; durable backends; logging, metrics, traces and alerts, which
  nothing reads back; LLM calls, HTTP and user interfaces; executors, tools, routers and councils are
  arguments, and so are Python's \<open>eval\<close> on a condition, \<open>json.loads\<close>, the hash and the token encoder.
  Of the agent's supervisor the routing of a step, decomposition and the synthetic tools are not
  modelled: they assemble tool descriptions for an LLM and interpret what it answers.  Nor are the
  interaction manager, the loaders of declarations, the primitives (HTTP, files, shell), the
  providers of LLMs, the channels behind their registry, and the developer tools under \<^verbatim>\<open>src/tools\<close>.
\<close>

end
